(* ===== verification/Sealift_Prelude.thy ===== *)
theory Sealift_Prelude
  imports
    Main
    "HOL-Library.AList"
    "HOL-Library.Multiset"
    "HOL-Library.Char_ord"
    "HOL-Library.List_Lexorder"
    "HOL-Library.Product_Lexorder"
    "HOL-Library.Sublist"
begin

text \<open>
  The vocabulary every component shares: Go strings as lists of bytes with the functions of
  the \<^verbatim>\<open>strings\<close> package the code calls, \<^verbatim>\<open>cmp.Compare\<close>, \<^verbatim>\<open>cmp.Or\<close> and
  \<^verbatim>\<open>slices.SortFunc\<close>, Go maps as association lists with distinct keys (the list order is one
  possible iteration order), and Go's \<^verbatim>\<open>(value, error)\<close> results as sums.

  A comparator locale states what \<^verbatim>\<open>slices.SortFunc\<close> asks of its argument. Inside it the sort is
  shown to give the only sorted permutation wherever the comparator tells the elements apart,
  so no result below depends on which sorting algorithm Go runs.
\<close>

named_theorems go_str \<open>evaluation rules of the string functions\<close>
named_theorems go_err \<open>rules that unfold chains of fallible calls\<close>

subsection \<open>Results with an error\<close>

text \<open>\<^verbatim>\<open>(v, err)\<close> is \<open>Inl err\<close> or \<open>Inr v\<close>. \<open>try_bind\<close> is \<^verbatim>\<open>if err != nil { return err }\<close>.\<close>

definition try_bind :: "'e + 'a \<Rightarrow> ('a \<Rightarrow> 'e + 'b) \<Rightarrow> 'e + 'b" where
  "try_bind r f = (case r of Inl e \<Rightarrow> Inl e | Inr x \<Rightarrow> f x)"

definition guard_err :: "bool \<Rightarrow> 'e \<Rightarrow> 'e + unit" where
  "guard_err ok e = (if ok then Inr () else Inl e)"

lemma try_bind_simps [simp]:
  "try_bind (Inl e) f = Inl e"
  "try_bind (Inr x) f = f x"
  by (simp_all add: try_bind_def)

lemma try_bind_Inr [go_err]:
  "try_bind r f = Inr y \<longleftrightarrow> (\<exists>x. r = Inr x \<and> f x = Inr y)"
  by (cases r) auto

lemma try_bind_Inl [go_err]:
  "try_bind r f = Inl e \<longleftrightarrow> r = Inl e \<or> (\<exists>x. r = Inr x \<and> f x = Inl e)"
  by (cases r) auto

lemma guard_err_simps [simp]:
  "guard_err True e = Inr ()"
  "guard_err False e = Inl e"
  by (simp_all add: guard_err_def)

lemma guard_err_Inr [go_err]: "guard_err b e = Inr x \<longleftrightarrow> b"
  by (simp add: guard_err_def)

lemma guard_err_Inl [go_err]: "guard_err b e = Inl e' \<longleftrightarrow> \<not> b \<and> e' = e"
  by (auto simp: guard_err_def)

text \<open>A \<^verbatim>\<open>for\<close> loop that returns at the first error.\<close>

fun check_each :: "('a \<Rightarrow> 'e + unit) \<Rightarrow> 'a list \<Rightarrow> 'e + unit" where
  "check_each f [] = Inr ()"
| "check_each f (x # xs) = try_bind (f x) (\<lambda>_. check_each f xs)"

lemma check_each_Inr [go_err]: "check_each f xs = Inr u \<longleftrightarrow> (\<forall>x \<in> set xs. f x = Inr ())"
  by (induction xs) (auto simp: go_err)

lemma check_each_Inl: "check_each f xs = Inl e \<Longrightarrow> \<exists>x \<in> set xs. f x = Inl e"
  by (induction xs) (auto simp: go_err)

text \<open>A loop that collects one result per element and stops at the first error.\<close>

fun map_err :: "('a \<Rightarrow> 'e + 'b) \<Rightarrow> 'a list \<Rightarrow> 'e + 'b list" where
  "map_err f [] = Inr []"
| "map_err f (x # xs) = try_bind (f x) (\<lambda>y. try_bind (map_err f xs) (\<lambda>ys. Inr (y # ys)))"

lemma map_err_Inr [go_err]: "map_err f xs = Inr ys \<longleftrightarrow> list_all2 (\<lambda>x y. f x = Inr y) xs ys"
  by (induction xs arbitrary: ys) (auto simp: go_err list_all2_Cons1)

lemma map_err_Inl: "map_err f xs = Inl e \<Longrightarrow> \<exists>x \<in> set xs. f x = Inl e"
  by (induction xs) (auto simp: go_err)

subsection \<open>Comparison and sorting\<close>

text \<open>\<^verbatim>\<open>cmp.Compare\<close> and \<^verbatim>\<open>strings.Compare\<close> (bytes in order), and \<^verbatim>\<open>cmp.Or\<close>: the first
  result that is not 0.\<close>

definition go_compare :: "'a::linorder \<Rightarrow> 'a \<Rightarrow> int" where
  "go_compare x y = (if x < y then -1 else if x = y then 0 else 1)"

fun cmp_or :: "int list \<Rightarrow> int" where
  "cmp_or [] = 0"
| "cmp_or (c # cs) = (if c \<noteq> 0 then c else cmp_or cs)"

lemma go_compare_iff [simp]:
  "go_compare x y = 0 \<longleftrightarrow> x = y"
  "go_compare x y < 0 \<longleftrightarrow> x < y"
  "0 < go_compare x y \<longleftrightarrow> y < x"
  "go_compare x y \<le> 0 \<longleftrightarrow> x \<le> y"
  "0 \<le> go_compare x y \<longleftrightarrow> y \<le> x"
  by (auto simp: go_compare_def)

text \<open>
  \<^verbatim>\<open>slices.SortFunc\<close>, as a stable insertion sort. Go promises no stability; the lemmas of the
  locale below say when that does not matter.
\<close>

fun insert_by :: "('a \<Rightarrow> 'a \<Rightarrow> int) \<Rightarrow> 'a \<Rightarrow> 'a list \<Rightarrow> 'a list" where
  "insert_by cmp x [] = [x]"
| "insert_by cmp x (y # ys) = (if cmp x y \<le> 0 then x # y # ys else y # insert_by cmp x ys)"

definition sort_func :: "('a \<Rightarrow> 'a \<Rightarrow> int) \<Rightarrow> 'a list \<Rightarrow> 'a list" where
  "sort_func cmp xs = foldr (insert_by cmp) xs []"

lemma mset_insert_by [simp]: "mset (insert_by cmp x ys) = add_mset x (mset ys)"
  by (induction ys) auto

lemma set_insert_by [simp]: "set (insert_by cmp x ys) = insert x (set ys)"
  by (induction ys) auto

lemma sort_func_simps [simp]:
  "sort_func cmp [] = []"
  "sort_func cmp (x # xs) = insert_by cmp x (sort_func cmp xs)"
  by (simp_all add: sort_func_def)

lemma mset_sort_func [simp]: "mset (sort_func cmp xs) = mset xs"
  by (induction xs) auto

lemma set_sort_func [simp]: "set (sort_func cmp xs) = set xs"
  by (induction xs) auto

lemma length_sort_func [simp]: "length (sort_func cmp xs) = length xs"
  by (metis mset_sort_func size_mset)

lemma sort_func_Nil_iff [simp]: "sort_func cmp xs = [] \<longleftrightarrow> xs = []"
  by (metis mset_sort_func mset_zero_iff)

lemma distinct_sort_func [simp]: "distinct (map f (sort_func cmp xs)) = distinct (map f xs)"
  by (metis mset_eq_imp_distinct_iff mset_map mset_sort_func)

lemma distinct_sort_func_id [simp]: "distinct (sort_func cmp xs) = distinct xs"
  by (metis mset_eq_imp_distinct_iff mset_sort_func)

locale comparator =
  fixes cmp :: "'a \<Rightarrow> 'a \<Rightarrow> int"
  assumes cmp_refl: "cmp x x = 0"
    and cmp_flip: "cmp x y < 0 \<longleftrightarrow> 0 < cmp y x"
    and cmp_trans: "cmp x y \<le> 0 \<Longrightarrow> cmp y z \<le> 0 \<Longrightarrow> cmp x z \<le> 0"
begin

lemma cmp_total: "cmp x y \<le> 0 \<or> cmp y x \<le> 0"
  using cmp_flip [of y x] by linarith

lemma cmp_antisym: "cmp x y \<le> 0 \<Longrightarrow> cmp y x \<le> 0 \<Longrightarrow> cmp x y = 0"
  using cmp_flip [of x y] by linarith

lemma cmp_less_le: "cmp x y < 0 \<Longrightarrow> cmp y z \<le> 0 \<Longrightarrow> cmp x z < 0"
  by (metis cmp_flip cmp_trans linorder_not_less order_le_less)

lemma cmp_le_less: "cmp x y \<le> 0 \<Longrightarrow> cmp y z < 0 \<Longrightarrow> cmp x z < 0"
  by (metis cmp_flip cmp_trans linorder_not_less order_le_less)

lemma cmp_eq_sym: "cmp x y = 0 \<Longrightarrow> cmp y x = 0"
  using cmp_flip [of x y] cmp_flip [of y x] by linarith

lemma cmp_eq_trans: "cmp x y = 0 \<Longrightarrow> cmp y z = 0 \<Longrightarrow> cmp x z = 0"
  by (metis cmp_antisym cmp_eq_sym cmp_trans order_refl)

lemma sorted_insert_by:
  "sorted_wrt (\<lambda>x y. cmp x y \<le> 0) ys \<Longrightarrow> sorted_wrt (\<lambda>x y. cmp x y \<le> 0) (insert_by cmp x ys)"
proof (induction ys)
  case Nil
  then show ?case by simp
next
  case (Cons y ys)
  show ?case
  proof (cases "cmp x y \<le> 0")
    case True
    with Cons.prems show ?thesis by (auto intro: cmp_trans [of x y])
  next
    case False
    then have "cmp y x \<le> 0" using cmp_total by blast
    with False Cons show ?thesis by simp
  qed
qed

lemma sorted_sort_func: "sorted_wrt (\<lambda>x y. cmp x y \<le> 0) (sort_func cmp xs)"
  by (induction xs) (auto intro: sorted_insert_by)

lemma sort_func_head: "sort_func cmp xs = x # ys \<Longrightarrow> z \<in> set xs \<Longrightarrow> cmp x z \<le> 0"
  using sorted_sort_func [of xs] cmp_refl [of x] by (auto simp flip: set_sort_func [of cmp xs])

text \<open>A sorted permutation is unique where the comparator separates the elements.\<close>

lemma sorted_perm_unique:
  assumes "mset xs = mset ys"
    and "sorted_wrt (\<lambda>x y. cmp x y \<le> 0) xs" and "sorted_wrt (\<lambda>x y. cmp x y \<le> 0) ys"
    and "\<And>x y. x \<in> set xs \<Longrightarrow> y \<in> set xs \<Longrightarrow> cmp x y = 0 \<Longrightarrow> x = y"
  shows "xs = ys"
  using assms
proof (induction xs arbitrary: ys)
  case Nil
  then show ?case by simp
next
  case (Cons x xs)
  from Cons.prems(1) obtain y ys' where ys: "ys = y # ys'"
    by (cases ys) auto
  have sets: "set (x # xs) = set ys"
    using Cons.prems(1) by (rule mset_eq_setD)
  have y_in: "y \<in> set (x # xs)" and x_in: "x \<in> set ys"
    using sets ys by auto
  have "cmp x y \<le> 0" using Cons.prems(2) y_in by (auto simp: cmp_refl)
  moreover have "cmp y x \<le> 0" using Cons.prems(3) x_in ys by (auto simp: cmp_refl)
  ultimately have "x = y" using Cons.prems(4) y_in cmp_antisym by auto
  moreover from this have "xs = ys'"
    using Cons.prems ys by (intro Cons.IH) auto
  ultimately show ?case using ys by simp
qed

lemma sort_func_unique:
  assumes "mset ys = mset xs" and "sorted_wrt (\<lambda>x y. cmp x y \<le> 0) ys"
    and "\<And>x y. x \<in> set xs \<Longrightarrow> y \<in> set xs \<Longrightarrow> cmp x y = 0 \<Longrightarrow> x = y"
  shows "sort_func cmp xs = ys"
  by (rule sorted_perm_unique) (use assms sorted_sort_func in auto)

lemma sort_func_perm:
  assumes "mset xs = mset ys"
    and "\<And>x y. x \<in> set xs \<Longrightarrow> y \<in> set xs \<Longrightarrow> cmp x y = 0 \<Longrightarrow> x = y"
  shows "sort_func cmp xs = sort_func cmp ys"
  by (rule sort_func_unique) (use assms sorted_sort_func in auto)

end

text \<open>How the code builds comparators: from a key, and from a list given to \<^verbatim>\<open>cmp.Or\<close>.\<close>

lemma comparator_key [intro]: "comparator (\<lambda>x y. go_compare (key x) (key y))"
  by unfold_locales auto

lemma comparator_or_Nil [intro]: "comparator (\<lambda>x y. cmp_or [])"
  by unfold_locales auto

lemma comparator_or_Cons [intro]:
  assumes f: "comparator f" and g: "comparator (\<lambda>x y. cmp_or (gs x y))"
  shows "comparator (\<lambda>x y. cmp_or (f x y # gs x y))"
proof
  note f_flip = comparator.cmp_flip [OF f] and g_flip = comparator.cmp_flip [OF g]
  fix x y z
  show "cmp_or (f x x # gs x x) = 0"
    using comparator.cmp_refl [OF f] comparator.cmp_refl [OF g] by simp
  show "cmp_or (f x y # gs x y) < 0 \<longleftrightarrow> 0 < cmp_or (f y x # gs y x)"
    using f_flip [of x y] f_flip [of y x] g_flip [of x y] by auto
  assume xy: "cmp_or (f x y # gs x y) \<le> 0" and yz: "cmp_or (f y z # gs y z) \<le> 0"
  then have fxy: "f x y \<le> 0" and fyz: "f y z \<le> 0" by (auto split: if_splits)
  show "cmp_or (f x z # gs x z) \<le> 0"
  proof (cases "f x y < 0 \<or> f y z < 0")
    case True
    then have "f x z < 0"
      using fxy fyz comparator.cmp_less_le [OF f] comparator.cmp_le_less [OF f] by blast
    then show ?thesis by simp
  next
    case False
    with fxy fyz have "f x y = 0" "f y z = 0" by auto
    moreover from this have "f x z = 0" by (rule comparator.cmp_eq_trans [OF f])
    ultimately show ?thesis using xy yz comparator.cmp_trans [OF g, of x y z] by simp
  qed
qed

subsection \<open>Strings\<close>

text \<open>
  A Go string is a sequence of bytes, and a \<open>char\<close> is one byte. \<open>split_char\<close> is
  \<^verbatim>\<open>strings.Split\<close> and \<open>cut\<close> is \<^verbatim>\<open>strings.Cut\<close>, both for a separator of one byte.
\<close>

fun has_prefix :: "string \<Rightarrow> string \<Rightarrow> bool" where
  "has_prefix [] s = True"
| "has_prefix (c # cs) [] = False"
| "has_prefix (c # cs) (d # ds) = (c = d \<and> has_prefix cs ds)"

definition has_suffix :: "string \<Rightarrow> string \<Rightarrow> bool" where
  "has_suffix p s = has_prefix (rev p) (rev s)"

definition trim_prefix :: "string \<Rightarrow> string \<Rightarrow> string" where
  "trim_prefix p s = (if has_prefix p s then drop (length p) s else s)"

definition trim_suffix :: "string \<Rightarrow> string \<Rightarrow> string" where
  "trim_suffix p s = (if has_suffix p s then take (length s - length p) s else s)"

fun split_char :: "char \<Rightarrow> string \<Rightarrow> string list" where
  "split_char c [] = [[]]"
| "split_char c (d # ds) =
     (if d = c then [] # split_char c ds
      else (case split_char c ds of [] \<Rightarrow> [[d]] | w # ws \<Rightarrow> (d # w) # ws))"

fun join_with :: "string \<Rightarrow> string list \<Rightarrow> string" where
  "join_with sep [] = []"
| "join_with sep [w] = w"
| "join_with sep (w # v # ws) = w @ sep @ join_with sep (v # ws)"

definition cut :: "char \<Rightarrow> string \<Rightarrow> string \<times> string \<times> bool" where
  "cut c s = (if c \<in> set s
     then (takeWhile (\<lambda>d. d \<noteq> c) s, tl (dropWhile (\<lambda>d. d \<noteq> c) s), True)
     else (s, [], False))"

text \<open>\<open>split_last c s\<close> splits at \<^verbatim>\<open>strings.LastIndex\<close>; None when the byte is absent.\<close>

definition split_last :: "char \<Rightarrow> string \<Rightarrow> (string \<times> string) option" where
  "split_last c s = (case cut c (rev s) of (a, b, ok) \<Rightarrow> if ok then Some (rev b, rev a) else None)"

definition contains_str :: "string \<Rightarrow> string \<Rightarrow> bool" where
  "contains_str p s = list_ex (has_prefix p) (suffixes s)"

text \<open>White space as \<^verbatim>\<open>unicode.IsSpace\<close> has it below U+0080.\<close>

definition is_space :: "char \<Rightarrow> bool" where
  "is_space c \<longleftrightarrow> of_char c \<in> {9, 10, 11, 12, 13, 32::nat}"

definition trim_space :: "string \<Rightarrow> string" where
  "trim_space s = rev (dropWhile is_space (rev (dropWhile is_space s)))"

fun fields_acc :: "string \<Rightarrow> string \<Rightarrow> string list" where
  "fields_acc w [] = (if w = [] then [] else [rev w])"
| "fields_acc w (c # cs) =
     (if is_space c then (if w = [] then fields_acc [] cs else rev w # fields_acc [] cs)
      else fields_acc (c # w) cs)"

definition go_fields :: "string \<Rightarrow> string list" where
  "go_fields s = fields_acc [] s"

definition is_digit :: "char \<Rightarrow> bool" where
  "is_digit c \<longleftrightarrow> 48 \<le> (of_char c :: nat) \<and> (of_char c :: nat) \<le> 57"

definition is_lower :: "char \<Rightarrow> bool" where
  "is_lower c \<longleftrightarrow> 97 \<le> (of_char c :: nat) \<and> (of_char c :: nat) \<le> 122"

definition is_upper :: "char \<Rightarrow> bool" where
  "is_upper c \<longleftrightarrow> 65 \<le> (of_char c :: nat) \<and> (of_char c :: nat) \<le> 90"

definition is_alnum :: "char \<Rightarrow> bool" where
  "is_alnum c \<longleftrightarrow> is_digit c \<or> is_lower c \<or> is_upper c"

definition is_hex :: "char \<Rightarrow> bool" where
  "is_hex c \<longleftrightarrow> is_digit c \<or> (97 \<le> (of_char c :: nat) \<and> (of_char c :: nat) \<le> 102)"

definition lower_char :: "char \<Rightarrow> char" where
  "lower_char c = (if is_upper c then char_of (of_char c + 32 :: nat) else c)"

definition upper_char :: "char \<Rightarrow> char" where
  "upper_char c = (if is_lower c then char_of (of_char c - 32 :: nat) else c)"

lemma has_prefix_iff: "has_prefix p s \<longleftrightarrow> (\<exists>r. s = p @ r)"
  by (induction p s rule: has_prefix.induct) auto

lemma has_prefix_append [simp]: "has_prefix p (p @ r)"
  by (auto simp: has_prefix_iff)

lemma has_suffix_iff: "has_suffix p s \<longleftrightarrow> (\<exists>r. s = r @ p)"
  by (metis has_prefix_iff has_suffix_def rev_append rev_rev_ident)

lemma trim_prefix_append [simp]: "trim_prefix p (p @ r) = r"
  by (simp add: trim_prefix_def)

lemma split_char_nonempty [simp]: "split_char c s \<noteq> []"
  by (induction s) (auto split: list.splits)

lemma join_split [simp]: "join_with [c] (split_char c s) = s"
proof (induction s)
  case Nil
  then show ?case by simp
next
  case (Cons d ds)
  then obtain w ws where "split_char c ds = w # ws" by (meson neq_Nil_conv split_char_nonempty)
  with Cons show ?case by (cases ws) auto
qed

lemma split_char_single: "c \<notin> set s \<Longrightarrow> split_char c s = [s]"
  by (induction s) auto

lemma split_char_single_iff: "length (split_char c s) = 1 \<longleftrightarrow> c \<notin> set s"
  by (induction s) (auto split: list.splits)

lemma split_char_append: "c \<notin> set a \<Longrightarrow> split_char c (a @ c # b) = a # split_char c b"
  by (induction a) auto

lemma cut_append [simp]: "c \<notin> set a \<Longrightarrow> cut c (a @ c # b) = (a, b, True)"
  by (induction a) (auto simp: cut_def)

lemma cut_found: "cut c s = (a, b, True) \<Longrightarrow> s = a @ c # b \<and> c \<notin> set a"
proof -
  assume cut: "cut c s = (a, b, True)"
  then have "c \<in> set s" by (auto simp: cut_def split: if_splits)
  then obtain u v where "s = u @ c # v" "c \<notin> set u" by (meson split_list_first)
  with cut show ?thesis by auto
qed

lemma cut_absent: "cut c s = (a, b, False) \<Longrightarrow> a = s \<and> b = [] \<and> c \<notin> set s"
  by (auto simp: cut_def split: if_splits)

lemma split_last_append [simp]: "c \<notin> set b \<Longrightarrow> split_last c (a @ c # b) = Some (a, b)"
  by (simp add: split_last_def)

lemma split_last_Some: "split_last c s = Some (a, b) \<Longrightarrow> s = a @ c # b \<and> c \<notin> set b"
proof -
  assume "split_last c s = Some (a, b)"
  then have "cut c (rev s) = (rev b, rev a, True)"
    by (auto simp: split_last_def split: prod.splits if_splits)
  then have "rev s = rev b @ c # rev a" "c \<notin> set (rev b)" by (auto dest: cut_found)
  then show ?thesis by (metis append.assoc append_Cons append_Nil rev.simps(2) rev_append rev_rev_ident set_rev)
qed

lemma split_last_None: "split_last c s = None \<longleftrightarrow> c \<notin> set s"
  by (auto simp: split_last_def cut_def)

subsection \<open>Decimal numbers\<close>

text \<open>\<open>show_nat\<close> is \<^verbatim>\<open>%d\<close> of a number that is not negative; \<open>read_nat\<close> reads digits back.\<close>

definition digit_char :: "nat \<Rightarrow> char" where
  "digit_char d = char_of (48 + d)"

fun show_nat :: "nat \<Rightarrow> string" where
  "show_nat n = (if n < 10 then [digit_char n] else show_nat (n div 10) @ [digit_char (n mod 10)])"

declare show_nat.simps [simp del]

definition read_nat :: "string \<Rightarrow> nat" where
  "read_nat s = foldl (\<lambda>n c. 10 * n + (of_char c - 48)) 0 s"

definition show_int :: "int \<Rightarrow> string" where
  "show_int i = (if i < 0 then ''-'' @ show_nat (nat (- i)) else show_nat (nat i))"

lemma of_char_digit [simp]: "d < 10 \<Longrightarrow> of_char (digit_char d) = 48 + d"
  by (simp add: digit_char_def)

lemma is_digit_digit_char [simp]: "d < 10 \<Longrightarrow> is_digit (digit_char d)"
  by (simp add: is_digit_def)

lemma read_show_nat [simp]: "read_nat (show_nat n) = n"
proof (induction n rule: show_nat.induct)
  case (1 n)
  then show ?case by (subst show_nat.simps) (auto simp: read_nat_def)
qed

lemma show_nat_inj [simp]: "show_nat m = show_nat n \<longleftrightarrow> m = n"
  by (metis read_show_nat)

lemma show_nat_digits: "list_all is_digit (show_nat n)"
proof (induction n rule: show_nat.induct)
  case (1 n)
  then show ?case by (subst show_nat.simps) auto
qed

lemma show_nat_nonempty [simp]: "show_nat n \<noteq> []"
  by (subst show_nat.simps) simp

lemma show_nat_lead: "hd (show_nat n) = CHR ''0'' \<longleftrightarrow> n = 0"
proof (induction n rule: show_nat.induct)
  case (1 n)
  have zero: "digit_char d = CHR ''0'' \<longleftrightarrow> d = 0" if "d < 10" for d
  proof -
    have "digit_char d = CHR ''0'' \<longleftrightarrow> (of_char (digit_char d) :: nat) = of_char CHR ''0''"
      by (simp only: of_char_eq_iff)
    with that show ?thesis by simp
  qed
  show ?case using 1 zero by (subst show_nat.simps) (auto simp: hd_append)
qed

subsection \<open>Machine integers\<close>

text \<open>An int64 that wraps around.\<close>

definition int64 :: "int \<Rightarrow> int" where
  "int64 x = (x + 2 ^ 63) mod 2 ^ 64 - 2 ^ 63"

abbreviation max_int64 :: int where "max_int64 \<equiv> 2 ^ 63 - 1"

text \<open>Go divides towards zero.\<close>

definition go_div :: "int \<Rightarrow> int \<Rightarrow> int" where
  "go_div a b = sgn a * sgn b * (\<bar>a\<bar> div \<bar>b\<bar>)"

text \<open>\<^verbatim>\<open>strings.Cut\<close> at a separator of several bytes.\<close>

fun cut_str :: "string \<Rightarrow> string \<Rightarrow> (string \<times> string) option" where
  "cut_str sep [] = (if sep = [] then Some ([], []) else None)"
| "cut_str sep (c # cs) = (if has_prefix sep (c # cs) then Some ([], drop (length sep) (c # cs))
     else map_option (\<lambda>(a, b). (c # a, b)) (cut_str sep cs))"

lemma cut_str_Some: "cut_str sep s = Some (a, b) \<Longrightarrow> s = a @ sep @ b"
  by (induction sep s arbitrary: a b rule: cut_str.induct) (auto simp: has_prefix_iff split: if_splits)

subsection \<open>Maps\<close>

text \<open>
  A Go map is an association list whose keys are distinct; ranging over it visits the entries
  in list order, one of the orders Go may choose. What must not depend on that order is stated
  for any two lists with the same entries (\<open>mset xs = mset ys\<close>).
\<close>

type_synonym ('k, 'v) gomap = "('k \<times> 'v) list"

definition gm_ok :: "('k, 'v) gomap \<Rightarrow> bool" where
  "gm_ok m \<longleftrightarrow> distinct (map fst m)"

definition gm_get :: "('k, 'v) gomap \<Rightarrow> 'k \<Rightarrow> 'v option" where
  "gm_get m k = map_of m k"

definition gm_put :: "'k \<Rightarrow> 'v \<Rightarrow> ('k, 'v) gomap \<Rightarrow> ('k, 'v) gomap" where
  "gm_put k v m = AList.update k v m"

definition gm_del :: "'k \<Rightarrow> ('k, 'v) gomap \<Rightarrow> ('k, 'v) gomap" where
  "gm_del k m = AList.delete k m"

definition gm_has :: "('k, 'v) gomap \<Rightarrow> 'k \<Rightarrow> bool" where
  "gm_has m k \<longleftrightarrow> gm_get m k \<noteq> None"

lemma gm_get_Nil [simp]: "gm_get [] k = None"
  by (simp add: gm_get_def)

lemma gm_get_put [simp]: "gm_get (gm_put k v m) j = (if j = k then Some v else gm_get m j)"
  by (simp add: gm_get_def gm_put_def update_conv')

lemma gm_get_del [simp]: "gm_get (gm_del k m) j = (if j = k then None else gm_get m j)"
  by (simp add: gm_get_def gm_del_def delete_conv')

lemma gm_ok_Nil [simp, intro]: "gm_ok []"
  by (simp add: gm_ok_def)

lemma gm_ok_put [simp, intro]: "gm_ok m \<Longrightarrow> gm_ok (gm_put k v m)"
  by (simp add: gm_ok_def gm_put_def distinct_update)

lemma gm_ok_del [simp, intro]: "gm_ok m \<Longrightarrow> gm_ok (gm_del k m)"
  by (simp add: gm_ok_def gm_del_def distinct_delete)

lemma gm_get_Some_iff: "gm_ok m \<Longrightarrow> gm_get m k = Some v \<longleftrightarrow> (k, v) \<in> set m"
  by (simp add: gm_ok_def gm_get_def)

lemma gm_get_None_iff: "gm_get m k = None \<longleftrightarrow> k \<notin> fst ` set m"
  by (simp add: gm_get_def map_of_eq_None_iff)

lemma gm_get_perm: "gm_ok m \<Longrightarrow> mset m = mset n \<Longrightarrow> gm_get m = gm_get n"
  unfolding gm_ok_def gm_get_def
  by (metis map_of_eqI map_of_eq_None_iff map_of_inject_set mset_eq_setD mset_map mset_eq_imp_distinct_iff)

lemma gm_ok_perm: "mset m = mset n \<Longrightarrow> gm_ok m = gm_ok n"
  unfolding gm_ok_def by (metis mset_eq_imp_distinct_iff mset_map)

end
