(* ===== verification/Go_Regexp.thy ===== *)
theory Go_Regexp
  imports Sealift_Prelude
begin

text \<open>
  The regular expressions of the code, kept as expressions: \<open>rx_match r s\<close> is
  \<^verbatim>\<open>regexp.MustCompile("^r$").MatchString(s)\<close>, computed by Brzozowski derivatives, and
  \<open>rx_match_lang\<close> shows it decides the language \<open>rx_lang r\<close>. The characterisations at the
  end turn the shapes the code uses (a class repeated, a literal followed by a class) into
  statements about lists.
\<close>

datatype rx = Zero | Eps | Cls "char \<Rightarrow> bool" | Seq rx rx | Alt rx rx | Star rx

subsection \<open>Languages\<close>

inductive_set star_lang :: "string set \<Rightarrow> string set" for L where
  star_Nil: "[] \<in> star_lang L"
| star_step: "a \<in> L \<Longrightarrow> b \<in> star_lang L \<Longrightarrow> a @ b \<in> star_lang L"

fun rx_lang :: "rx \<Rightarrow> string set" where
  "rx_lang Zero = {}"
| "rx_lang Eps = {[]}"
| "rx_lang (Cls p) = {[c] | c. p c}"
| "rx_lang (Seq r s) = {a @ b | a b. a \<in> rx_lang r \<and> b \<in> rx_lang s}"
| "rx_lang (Alt r s) = rx_lang r \<union> rx_lang s"
| "rx_lang (Star r) = star_lang (rx_lang r)"

subsection \<open>Matching by derivatives\<close>

fun nullable :: "rx \<Rightarrow> bool" where
  "nullable Zero = False"
| "nullable Eps = True"
| "nullable (Cls p) = False"
| "nullable (Seq r s) = (nullable r \<and> nullable s)"
| "nullable (Alt r s) = (nullable r \<or> nullable s)"
| "nullable (Star r) = True"

fun mk_seq :: "rx \<Rightarrow> rx \<Rightarrow> rx" where
  "mk_seq Zero s = Zero"
| "mk_seq Eps s = s"
| "mk_seq r s = Seq r s"

fun mk_alt :: "rx \<Rightarrow> rx \<Rightarrow> rx" where
  "mk_alt Zero s = s"
| "mk_alt r Zero = r"
| "mk_alt r s = Alt r s"

fun deriv :: "char \<Rightarrow> rx \<Rightarrow> rx" where
  "deriv c Zero = Zero"
| "deriv c Eps = Zero"
| "deriv c (Cls p) = (if p c then Eps else Zero)"
| "deriv c (Seq r s) =
     (if nullable r then mk_alt (mk_seq (deriv c r) s) (deriv c s) else mk_seq (deriv c r) s)"
| "deriv c (Alt r s) = mk_alt (deriv c r) (deriv c s)"
| "deriv c (Star r) = mk_seq (deriv c r) (Star r)"

fun rx_match :: "rx \<Rightarrow> string \<Rightarrow> bool" where
  "rx_match r [] = nullable r"
| "rx_match r (c # cs) = rx_match (deriv c r) cs"

lemma nullable_lang: "nullable r \<longleftrightarrow> [] \<in> rx_lang r"
  by (induction r) (auto intro: star_Nil)

lemma mk_seq_lang [simp]: "rx_lang (mk_seq r s) = rx_lang (Seq r s)"
  by (cases "(r, s)" rule: mk_seq.cases) auto

lemma mk_alt_lang [simp]: "rx_lang (mk_alt r s) = rx_lang r \<union> rx_lang s"
  by (cases "(r, s)" rule: mk_alt.cases) auto

text \<open>A non-empty word of a star starts with a non-empty word of the body.\<close>

lemma star_Cons_split:
  "w \<in> star_lang L \<Longrightarrow> w = c # cs \<Longrightarrow> \<exists>a b. cs = a @ b \<and> c # a \<in> L \<and> b \<in> star_lang L"
proof (induction arbitrary: c cs rule: star_lang.induct)
  case star_Nil
  then show ?case by simp
next
  case (star_step a b)
  then show ?case by (cases a) auto
qed

lemma star_Cons_iff: "c # cs \<in> star_lang L \<longleftrightarrow> (\<exists>a b. cs = a @ b \<and> c # a \<in> L \<and> b \<in> star_lang L)"
  using star_Cons_split [of "c # cs" L c cs] star_step [of "c # _" L] by fastforce

lemma deriv_lang: "cs \<in> rx_lang (deriv c r) \<longleftrightarrow> c # cs \<in> rx_lang r"
proof (induction r arbitrary: cs)
  case (Seq r s)
  have "c # cs \<in> rx_lang (Seq r s) \<longleftrightarrow>
      (\<exists>a b. cs = a @ b \<and> c # a \<in> rx_lang r \<and> b \<in> rx_lang s) \<or>
      ([] \<in> rx_lang r \<and> c # cs \<in> rx_lang s)"
    by (auto simp: Cons_eq_append_conv)
  with Seq show ?case by (auto simp: nullable_lang)
next
  case (Star r)
  then show ?case by (simp add: star_Cons_iff)
qed auto

lemma rx_match_lang: "rx_match r s \<longleftrightarrow> s \<in> rx_lang r"
  by (induction s arbitrary: r) (auto simp: nullable_lang deriv_lang)

subsection \<open>The operators of the expressions the code writes\<close>

definition rx_chr :: "char \<Rightarrow> rx" where
  "rx_chr c = Cls (\<lambda>d. d = c)"

definition rx_opt :: "rx \<Rightarrow> rx" where
  "rx_opt r = Alt Eps r"

definition rx_plus :: "rx \<Rightarrow> rx" where
  "rx_plus r = Seq r (Star r)"

fun rx_seqs :: "rx list \<Rightarrow> rx" where
  "rx_seqs [] = Eps"
| "rx_seqs [r] = r"
| "rx_seqs (r # s # rs) = Seq r (rx_seqs (s # rs))"

text \<open>\<open>rx_times r n\<close> is \<^verbatim>\<open>r{n}\<close> and \<open>rx_upto r n\<close> is \<^verbatim>\<open>r{0,n}\<close>.\<close>

fun rx_times :: "rx \<Rightarrow> nat \<Rightarrow> rx" where
  "rx_times r 0 = Eps"
| "rx_times r (Suc n) = Seq r (rx_times r n)"

fun rx_upto :: "rx \<Rightarrow> nat \<Rightarrow> rx" where
  "rx_upto r 0 = Eps"
| "rx_upto r (Suc n) = rx_opt (Seq r (rx_upto r n))"

lemma lang_Seq_Cls [simp]:
  "s \<in> rx_lang (Seq (Cls p) r) \<longleftrightarrow> (\<exists>c t. s = c # t \<and> p c \<and> t \<in> rx_lang r)"
proof
  assume "\<exists>c t. s = c # t \<and> p c \<and> t \<in> rx_lang r"
  then obtain c t where "s = [c] @ t" "[c] \<in> rx_lang (Cls p)" "t \<in> rx_lang r" by auto
  then show "s \<in> rx_lang (Seq (Cls p) r)" by (simp only: rx_lang.simps(4)) blast
qed auto

declare rx_lang.simps(4) [simp del]

lemma lang_Seq_iff: "s \<in> rx_lang (Seq r t) \<longleftrightarrow> (\<exists>a b. s = a @ b \<and> a \<in> rx_lang r \<and> b \<in> rx_lang t)"
  by (auto simp: rx_lang.simps(4))

lemma lang_SeqI: "a \<in> rx_lang r \<Longrightarrow> b \<in> rx_lang t \<Longrightarrow> a @ b \<in> rx_lang (Seq r t)"
  by (auto simp: lang_Seq_iff)

lemma lang_SeqE:
  assumes "s \<in> rx_lang (Seq r t)"
  obtains a b where "s = a @ b" "a \<in> rx_lang r" "b \<in> rx_lang t"
  using assms by (auto simp: lang_Seq_iff)

lemma star_Cls: "s \<in> star_lang {[c] | c. p c} \<longleftrightarrow> list_all p s"
proof (induction s)
  case Nil
  then show ?case by (auto intro: star_Nil)
next
  case (Cons c cs)
  then show ?case by (auto simp: star_Cons_iff)
qed

lemma lang_Star_Cls: "s \<in> rx_lang (Star (Cls p)) \<longleftrightarrow> list_all p s"
  by (simp add: star_Cls)

lemma lang_plus_Cls [simp]: "s \<in> rx_lang (rx_plus (Cls p)) \<longleftrightarrow> s \<noteq> [] \<and> list_all p s"
  by (cases s) (auto simp: rx_plus_def star_Cls)

lemma lang_times_Cls [simp]:
  "s \<in> rx_lang (rx_times (Cls p) n) \<longleftrightarrow> length s = n \<and> list_all p s"
proof (induction n arbitrary: s)
  case 0
  then show ?case by auto
next
  case (Suc n)
  then show ?case by (cases s) (simp_all, blast)
qed

lemma lang_upto_Cls [simp]:
  "s \<in> rx_lang (rx_upto (Cls p) n) \<longleftrightarrow> length s \<le> n \<and> list_all p s"
proof (induction n arbitrary: s)
  case 0
  then show ?case by auto
next
  case (Suc n)
  then show ?case by (cases s) (simp_all add: rx_opt_def, blast)
qed

lemma lang_chr [simp]: "s \<in> rx_lang (rx_chr c) \<longleftrightarrow> s = [c]"
  by (auto simp: rx_chr_def)

lemma lang_opt [simp]: "s \<in> rx_lang (rx_opt r) \<longleftrightarrow> s = [] \<or> s \<in> rx_lang r"
  by (simp add: rx_opt_def)

lemma lang_Seq_chr [simp]:
  "s \<in> rx_lang (Seq (rx_chr c) r) \<longleftrightarrow> (\<exists>t. s = c # t \<and> t \<in> rx_lang r)"
  by (auto simp: rx_chr_def)

text \<open>\<^verbatim>\<open>r(?:\.r)*\<close>, the dotted list of the version grammar, is \<open>r\<close> on every part between dots.\<close>

definition rx_dotted :: "rx \<Rightarrow> rx" where
  "rx_dotted r = Seq r (Star (Seq (rx_chr (CHR ''.'')) r))"

lemma star_dotted:
  assumes free: "\<And>w. w \<in> L \<Longrightarrow> CHR ''.'' \<notin> set w"
  shows "s \<in> star_lang {CHR ''.'' # w | w. w \<in> L} \<longleftrightarrow>
    s = [] \<or> (\<exists>t. s = CHR ''.'' # t \<and> list_all (\<lambda>w. w \<in> L) (split_char CHR ''.'' t))"
proof
  assume "s \<in> star_lang {CHR ''.'' # w | w. w \<in> L}"
  then show "s = [] \<or> (\<exists>t. s = CHR ''.'' # t \<and> list_all (\<lambda>w. w \<in> L) (split_char CHR ''.'' t))"
  proof (induction rule: star_lang.induct)
    case star_Nil
    then show ?case by simp
  next
    case (star_step a b)
    then obtain w where w: "a = CHR ''.'' # w" "w \<in> L" by auto
    then show ?case
      using star_step.IH free [OF w(2)] by (auto simp: split_char_single split_char_append)
  qed
next
  assume "s = [] \<or> (\<exists>t. s = CHR ''.'' # t \<and> list_all (\<lambda>w. w \<in> L) (split_char CHR ''.'' t))"
  then show "s \<in> star_lang {CHR ''.'' # w | w. w \<in> L}"
  proof
    assume "s = []"
    then show ?thesis by (simp add: star_Nil)
  next
    assume "\<exists>t. s = CHR ''.'' # t \<and> list_all (\<lambda>w. w \<in> L) (split_char CHR ''.'' t)"
    then obtain t where s: "s = CHR ''.'' # t"
      and all: "list_all (\<lambda>w. w \<in> L) (split_char CHR ''.'' t)" by blast
    have "CHR ''.'' # join_with ''.'' ws \<in> star_lang {CHR ''.'' # w | w. w \<in> L}"
      if "ws \<noteq> []" "list_all (\<lambda>w. w \<in> L) ws" for ws
      using that
    proof (induction ws rule: induct_list012)
      case (2 w)
      then have "(CHR ''.'' # w) @ [] \<in> star_lang {CHR ''.'' # w | w. w \<in> L}"
        by (intro star_step star_Nil) auto
      then show ?case by simp
    next
      case (3 w v ws)
      then have "(CHR ''.'' # w) @ (CHR ''.'' # join_with ''.'' (v # ws))
          \<in> star_lang {CHR ''.'' # w | w. w \<in> L}"
        by (intro star_step) auto
      then show ?case by simp
    qed simp
    from this [OF split_char_nonempty all] show ?thesis by (simp add: s)
  qed
qed

lemma lang_dotted:
  assumes free: "\<And>w. w \<in> rx_lang r \<Longrightarrow> CHR ''.'' \<notin> set w"
  shows "s \<in> rx_lang (rx_dotted r) \<longleftrightarrow> list_all (\<lambda>w. w \<in> rx_lang r) (split_char CHR ''.'' s)"
proof -
  have dot: "rx_lang (Seq (rx_chr CHR ''.'') r) = {CHR ''.'' # w | w. w \<in> rx_lang r}"
    by (auto simp: rx_chr_def)
  have "s \<in> rx_lang (rx_dotted r) \<longleftrightarrow> (\<exists>a b. s = a @ b \<and> a \<in> rx_lang r \<and>
      (b = [] \<or> (\<exists>t. b = CHR ''.'' # t \<and> list_all (\<lambda>w. w \<in> rx_lang r) (split_char CHR ''.'' t))))"
    using star_dotted [OF free] by (simp add: rx_dotted_def lang_Seq_iff dot)
  also have "\<dots> \<longleftrightarrow> list_all (\<lambda>w. w \<in> rx_lang r) (split_char CHR ''.'' s)" (is "?l \<longleftrightarrow> ?r")
  proof
    assume ?l
    then show ?r using free by (auto simp: split_char_single split_char_append)
  next
    assume r: ?r
    show ?l
    proof (cases "CHR ''.'' \<in> set s")
      case True
      then obtain a t where "s = a @ CHR ''.'' # t" "CHR ''.'' \<notin> set a"
        by (meson split_list_first)
      with r show ?thesis by (auto simp: split_char_append)
    next
      case False
      with r show ?thesis by (auto simp: split_char_single)
    qed
  qed
  finally show ?thesis .
qed

end
