(* ===== verification/Npm_Manifest.thy ===== *)
theory Npm_Manifest
  imports Go_Regexp
begin

text \<open>
  \<^verbatim>\<open>npm/manifest.go\<close>: the names and versions sealift accepts, and the reading and validation of a
  \<^verbatim>\<open>package.json\<close>. Decoding JSON is the business of \<^verbatim>\<open>encoding/json\<close>; \<open>parse_manifest\<close> takes
  what the decoder returned.
\<close>

subsection \<open>Exact versions\<close>

abbreviation rx_digit :: rx where "rx_digit \<equiv> Cls is_digit"

definition word_char :: "char \<Rightarrow> bool" where
  "word_char c \<longleftrightarrow> is_alnum c \<or> c = CHR ''-''"

definition rx_num :: rx where
  "rx_num = Alt (rx_chr CHR ''0'') (Seq (Cls (\<lambda>c. is_digit c \<and> c \<noteq> CHR ''0'')) (Star rx_digit))"

definition rx_pre_id :: rx where
  "rx_pre_id = Alt rx_num (Seq (Star rx_digit)
     (Seq (Cls (\<lambda>c. is_lower c \<or> is_upper c \<or> c = CHR ''-'')) (Star (Cls word_char))))"

definition rx_build_id :: rx where
  "rx_build_id = rx_plus (Cls word_char)"

definition exact_version :: rx where
  "exact_version = rx_seqs
     [rx_num, rx_chr CHR ''.'', rx_num, rx_chr CHR ''.'', rx_num,
      rx_opt (Seq (rx_chr CHR ''-'') (rx_dotted rx_pre_id)),
      rx_opt (Seq (rx_chr CHR ''+'') (rx_dotted rx_build_id))]"

definition is_exact_version :: "string \<Rightarrow> bool" where
  "is_exact_version s = rx_match exact_version s"

subsection \<open>Package names\<close>

definition name_head :: "char \<Rightarrow> bool" where
  "name_head c \<longleftrightarrow> is_alnum c \<or> c \<in> {CHR ''_'', CHR ''~'', CHR ''-''}"

definition name_tail :: "char \<Rightarrow> bool" where
  "name_tail c \<longleftrightarrow> is_alnum c \<or> c \<in> {CHR ''.'', CHR ''_'', CHR ''~'', CHR ''-''}"

definition rx_name_part :: rx where
  "rx_name_part = Seq (Cls name_head) (Star (Cls name_tail))"

definition package_name :: rx where
  "package_name = Seq (rx_opt (rx_seqs [rx_chr CHR ''@'', rx_name_part, rx_chr CHR ''/''])) rx_name_part"

definition max_package_name_length :: nat where
  "max_package_name_length = 214"

definition valid_name :: "string \<Rightarrow> bool" where
  "valid_name name \<longleftrightarrow> length name \<le> max_package_name_length \<and> rx_match package_name name"

subsection \<open>A manifest and its problems\<close>

datatype dependency_kind = Prod | Dev | Optional

fun kind_field :: "dependency_kind \<Rightarrow> string" where
  "kind_field Prod = ''dependencies''"
| "kind_field Dev = ''devDependencies''"
| "kind_field Optional = ''optionalDependencies''"

record dependency =
  dep_name :: string
  dep_version :: string
  dep_kind :: dependency_kind

record problem =
  pr_field :: string
  pr_name :: string
  pr_value :: string
  pr_reason :: string

record manifest =
  mf_name :: string
  mf_dependencies :: "dependency list"
  mf_unsupported :: "string list"

text \<open>What the JSON decoder fills in: the three dependency maps, and the raw bytes of the fields
  sealift refuses (empty when the field is absent).\<close>

record raw_manifest =
  rm_name :: string
  rm_dependencies :: "(string, string) gomap"
  rm_dev :: "(string, string) gomap"
  rm_optional :: "(string, string) gomap"
  rm_overrides :: string
  rm_resolutions :: string
  rm_pnpm_overrides :: string
  rm_pnpm_patched :: string

text \<open>A decoding failure: of the document's type, with the field it happened in, or any other.\<close>

datatype json_error = Type_Error string | Syntax_Error string

definition sorted_keys :: "(string, 'v) gomap \<Rightarrow> string list" where
  "sorted_keys m = sort_func go_compare (map fst m)"

definition group_deps :: "dependency_kind \<Rightarrow> (string, string) gomap \<Rightarrow> dependency list" where
  "group_deps kind deps = map (\<lambda>name.
     \<lparr>dep_name = name, dep_version = (case gm_get deps name of None \<Rightarrow> '''' | Some v \<Rightarrow> v),
      dep_kind = kind\<rparr>) (sorted_keys deps)"

definition raw_fields :: "raw_manifest \<Rightarrow> (string, string) gomap" where
  "raw_fields raw =
     [(''overrides'', rm_overrides raw), (''resolutions'', rm_resolutions raw),
      (''pnpm.overrides'', rm_pnpm_overrides raw),
      (''pnpm.patchedDependencies'', rm_pnpm_patched raw)]"

definition parse_manifest :: "json_error + raw_manifest \<Rightarrow> string + manifest" where
  "parse_manifest decoded = (case decoded of
     Inl (Type_Error field) \<Rightarrow>
       if field = '''' then Inl ''parse package.json: the file holds JSON, but not an object like a package.json''
       else Inl (''parse package.json: '' @ field)
   | Inl (Syntax_Error msg) \<Rightarrow> Inl (''parse package.json: '' @ msg)
   | Inr raw \<Rightarrow> Inr
       \<lparr>mf_name = rm_name raw,
        mf_dependencies = group_deps Prod (rm_dependencies raw) @ group_deps Dev (rm_dev raw)
          @ group_deps Optional (rm_optional raw),
        mf_unsupported = filter
          (\<lambda>field. (case gm_get (raw_fields raw) field of None \<Rightarrow> False | Some b \<Rightarrow> b \<noteq> []))
          (sorted_keys (raw_fields raw))\<rparr>)"

definition source_prefixes :: "string list" where
  "source_prefixes = [''npm:'', ''git+'', ''git:'', ''github:'', ''file:'', ''link:'', ''workspace:'',
     ''http:'', ''https:'']"

definition spec_problem :: "string \<Rightarrow> string" where
  "spec_problem spec =
     (if list_ex (\<lambda>p. has_prefix p spec) source_prefixes then ''only npm registry versions are supported''
      else if \<not> is_exact_version spec then ''version must be exact, such as 1.2.3''
      else '''')"

definition dependency_problem :: "dependency \<Rightarrow> problem option" where
  "dependency_problem d =
     (if \<not> valid_name (dep_name d)
      then Some \<lparr>pr_field = kind_field (dep_kind d), pr_name = dep_name d, pr_value = '''',
                 pr_reason = ''not a valid npm package name''\<rparr>
      else if spec_problem (dep_version d) \<noteq> ''''
      then Some \<lparr>pr_field = kind_field (dep_kind d), pr_name = dep_name d, pr_value = dep_version d,
                 pr_reason = spec_problem (dep_version d)\<rparr>
      else None)"

definition validate :: "manifest \<Rightarrow> problem list" where
  "validate m =
     map (\<lambda>field. \<lparr>pr_field = field, pr_name = '''', pr_value = '''', pr_reason = ''not supported''\<rparr>)
       (mf_unsupported m)
     @ (if mf_dependencies m = []
        then [\<lparr>pr_field = ''dependencies'', pr_name = '''', pr_value = '''',
               pr_reason = ''lists no dependency to update''\<rparr>] else [])
     @ List.map_filter dependency_problem (mf_dependencies m)"

subsection \<open>What the grammars accept\<close>

lemma digit_zero [simp]: "is_digit CHR ''0''"
  by (simp add: is_digit_def)

lemma lang_num: "s \<in> rx_lang rx_num \<longleftrightarrow>
    s \<noteq> [] \<and> list_all is_digit s \<and> (hd s = CHR ''0'' \<longrightarrow> s = ''0'')"
  by (cases s) (auto simp: rx_num_def star_Cls digit_zero)

lemma lang_pre_id_word: "s \<in> rx_lang rx_pre_id \<Longrightarrow> list_all word_char s"
  by (auto simp: rx_pre_id_def lang_num lang_Seq_iff star_Cls word_char_def is_alnum_def list_all_iff)

lemma lang_build_id: "s \<in> rx_lang rx_build_id \<longleftrightarrow> s \<noteq> [] \<and> list_all word_char s"
  by (simp add: rx_build_id_def)

lemma word_not_dot [simp]: "\<not> word_char CHR ''.''" "\<not> word_char CHR ''/''" "\<not> word_char CHR ''@''"
  by (simp_all add: word_char_def is_alnum_def is_digit_def is_lower_def is_upper_def)

lemma word_no_dot: "list_all word_char s \<Longrightarrow> CHR ''.'' \<notin> set s"
  by (auto simp: list_all_iff)

lemma lang_dotted_ids:
  "s \<in> rx_lang (rx_dotted rx_pre_id) \<longleftrightarrow> list_all (\<lambda>w. w \<in> rx_lang rx_pre_id) (split_char CHR ''.'' s)"
  "s \<in> rx_lang (rx_dotted rx_build_id) \<longleftrightarrow> list_all (\<lambda>w. w \<in> rx_lang rx_build_id) (split_char CHR ''.'' s)"
  by (rule lang_dotted, use lang_pre_id_word lang_build_id word_no_dot in blast)+

lemma is_exact_version_iff:
  "is_exact_version s \<longleftrightarrow> (\<exists>a b c p q. s = a @ ''.'' @ b @ ''.'' @ c @ p @ q
     \<and> a \<in> rx_lang rx_num \<and> b \<in> rx_lang rx_num \<and> c \<in> rx_lang rx_num
     \<and> (p = [] \<or> (\<exists>t. p = CHR ''-'' # t \<and> list_all (\<lambda>w. w \<in> rx_lang rx_pre_id) (split_char CHR ''.'' t)))
     \<and> (q = [] \<or> (\<exists>t. q = CHR ''+'' # t \<and> list_all (\<lambda>w. w \<in> rx_lang rx_build_id) (split_char CHR ''.'' t))))"
proof -
  define P where "P = (\<lambda>a. a \<in> rx_lang rx_num)"
  define Q where "Q = (\<lambda>p. p = [] \<or> (\<exists>t. p = CHR ''-'' # t \<and> list_all (\<lambda>w. w \<in> rx_lang rx_pre_id) (split_char CHR ''.'' t)))"
  define R where "R = (\<lambda>q. q = [] \<or> (\<exists>t. q = CHR ''+'' # t \<and> list_all (\<lambda>w. w \<in> rx_lang rx_build_id) (split_char CHR ''.'' t)))"
  have opts: "p \<in> rx_lang (rx_opt (Seq (rx_chr CHR ''-'') (rx_dotted rx_pre_id))) \<longleftrightarrow> Q p"
    "p \<in> rx_lang (rx_opt (Seq (rx_chr CHR ''+'') (rx_dotted rx_build_id))) \<longleftrightarrow> R p" for p
    by (simp_all add: Q_def R_def lang_dotted_ids)
  have "s \<in> rx_lang exact_version \<longleftrightarrow> (\<exists>a b c p q. s = a @ ''.'' @ b @ ''.'' @ c @ p @ q
      \<and> a \<in> rx_lang rx_num \<and> b \<in> rx_lang rx_num \<and> c \<in> rx_lang rx_num \<and> Q p \<and> R q)"
    (is "?l \<longleftrightarrow> ?r")
  proof
    assume ?l
    then show ?r
      unfolding exact_version_def rx_seqs.simps by - (elim lang_SeqE, unfold lang_chr opts, hypsubst_thin, intro exI conjI, rule refl, assumption+)
  next
    assume ?r
    then obtain a b c p q where s: "s = a @ ''.'' @ b @ ''.'' @ c @ p @ q"
      and nums: "a \<in> rx_lang rx_num" "b \<in> rx_lang rx_num" "c \<in> rx_lang rx_num"
      and "Q p" "R q" by blast
    then show ?l
      unfolding exact_version_def rx_seqs.simps s
      by (intro lang_SeqI) (simp_all only: opts lang_chr nums \<open>Q p\<close> \<open>R q\<close>)
  qed
  then show ?thesis
    by (simp add: is_exact_version_def rx_match_lang Q_def R_def)
qed

lemma lang_name_part: "s \<in> rx_lang rx_name_part \<longleftrightarrow> s \<noteq> [] \<and> name_head (hd s) \<and> list_all name_tail (tl s)"
  by (cases s) (auto simp: rx_name_part_def star_Cls)

lemma package_name_iff:
  "rx_match package_name s \<longleftrightarrow> s \<in> rx_lang rx_name_part
     \<or> (\<exists>a b. s = CHR ''@'' # a @ CHR ''/'' # b \<and> a \<in> rx_lang rx_name_part \<and> b \<in> rx_lang rx_name_part)"
proof
  assume "rx_match package_name s"
  then show "s \<in> rx_lang rx_name_part
     \<or> (\<exists>a b. s = CHR ''@'' # a @ CHR ''/'' # b \<and> a \<in> rx_lang rx_name_part \<and> b \<in> rx_lang rx_name_part)"
    unfolding rx_match_lang package_name_def rx_seqs.simps
    by (elim lang_SeqE) (auto simp: lang_Seq_iff)
next
  have scoped: "(CHR ''@'' # a @ ''/'') @ b \<in> rx_lang package_name"
    if "a \<in> rx_lang rx_name_part" "b \<in> rx_lang rx_name_part" for a b
    unfolding package_name_def rx_seqs.simps
    by (rule lang_SeqI) (use that in \<open>auto intro: lang_SeqI\<close>)
  have plain: "[] @ s \<in> rx_lang package_name" if "s \<in> rx_lang rx_name_part"
    unfolding package_name_def by (rule lang_SeqI) (use that in auto)
  assume "s \<in> rx_lang rx_name_part
     \<or> (\<exists>a b. s = CHR ''@'' # a @ CHR ''/'' # b \<and> a \<in> rx_lang rx_name_part \<and> b \<in> rx_lang rx_name_part)"
  then show "rx_match package_name s"
    using plain scoped by (auto simp: rx_match_lang)
qed

lemma is_exact_version_digit: "is_exact_version s \<Longrightarrow> is_digit (hd s)"
  unfolding is_exact_version_iff lang_num by (elim exE conjE) (auto simp: neq_Nil_conv)

lemma source_prefix_not_exact:
  assumes "p \<in> set source_prefixes" "has_prefix p s"
  shows "\<not> is_exact_version s"
proof -
  have "list_all (\<lambda>p. p \<noteq> [] \<and> \<not> is_digit (hd p)) source_prefixes" by code_simp
  with assms(1) have "p \<noteq> []" "\<not> is_digit (hd p)" by (auto simp: list_all_iff)
  with assms(2) have "\<not> is_digit (hd s)" by (auto simp: has_prefix_iff)
  then show ?thesis using is_exact_version_digit by blast
qed

lemma spec_problem_iff: "spec_problem s = '''' \<longleftrightarrow> is_exact_version s"
  using source_prefix_not_exact by (auto simp: spec_problem_def list_ex_iff)

lemma dependency_problem_None:
  "dependency_problem d = None \<longleftrightarrow> valid_name (dep_name d) \<and> is_exact_version (dep_version d)"
  by (auto simp: dependency_problem_def spec_problem_iff)

lemma map_filter_Nil_iff: "List.map_filter f xs = [] \<longleftrightarrow> (\<forall>x \<in> set xs. f x = None)"
  by (induction xs) (auto simp: List.map_filter_simps split: option.splits)

lemma name_tail_plain:
  "\<not> name_tail CHR ''/''" "\<not> name_tail CHR ''@''" "\<not> name_head CHR ''.''" "\<not> name_head CHR ''/''"
  "\<not> name_head CHR ''@''"
  by (simp_all add: name_tail_def name_head_def is_alnum_def is_digit_def is_lower_def is_upper_def)

lemma name_part_chars: "s \<in> rx_lang rx_name_part \<Longrightarrow> list_all name_tail s"
  by (cases s) (auto simp: lang_name_part name_head_def name_tail_def)

lemma name_part_no_slash: "s \<in> rx_lang rx_name_part \<Longrightarrow> CHR ''/'' \<notin> set s"
  using name_part_chars name_tail_plain(1) by (auto simp: list_all_iff)

lemma sorted_keys_perm: "gm_ok m \<Longrightarrow> mset m = mset n \<Longrightarrow> sorted_keys m = sorted_keys n"
  unfolding sorted_keys_def
  by (rule comparator.sort_func_perm [OF comparator_key [of "\<lambda>x. x"]]) (metis mset_map, simp)

lemma sorted_keys_sorted: "gm_ok m \<Longrightarrow> sorted_wrt (<) (sorted_keys m)"
proof -
  assume "gm_ok m"
  then have "distinct (sorted_keys m)"
    by (simp add: sorted_keys_def gm_ok_def)
  moreover have "sorted_wrt (\<le>) (sorted_keys m)"
    using comparator.sorted_sort_func [OF comparator_key [of "\<lambda>x. x"]] by (simp add: sorted_keys_def)
  ultimately show ?thesis by (simp add: strict_sorted_iff)
qed

lemma set_sorted_keys [simp]: "set (sorted_keys m) = fst ` set m"
  by (simp add: sorted_keys_def)

subsection \<open>Properties\<close>

text \<open>A valid package name stays safe in a path: it is at most 214 bytes, has one path
  segment, or two exactly when it starts with an at sign, and no segment is empty, starts with
  a dot (so none is ``.'' or ``..'') or holds a byte outside letters, digits and \<^verbatim>\<open>._~-@\<close>.\<close>

theorem valid_name_path_safe:
  assumes "valid_name name"
  shows "length name \<le> 214
    \<and> length (split_char CHR ''/'' name) = (if hd name = CHR ''@'' then 2 else 1)
    \<and> (\<forall>w \<in> set (split_char CHR ''/'' name). w \<noteq> [] \<and> hd w \<noteq> CHR ''.''
         \<and> (\<forall>c \<in> set w. name_tail c \<or> c = CHR ''@''))"
proof -
  from assms have len: "length name \<le> 214" and m: "rx_match package_name name"
    by (auto simp: valid_name_def max_package_name_length_def)
  from m [unfolded package_name_iff] show ?thesis
  proof
    assume n: "name \<in> rx_lang rx_name_part"
    then have "split_char CHR ''/'' name = [name]" "hd name \<noteq> CHR ''@''" "name \<noteq> []"
        "hd name \<noteq> CHR ''.''"
      using name_part_no_slash split_char_single name_tail_plain by (auto simp: lang_name_part)
    then show ?thesis using len name_part_chars [OF n] by (simp add: list_all_iff)
  next
    assume "\<exists>a b. name = CHR ''@'' # a @ CHR ''/'' # b
      \<and> a \<in> rx_lang rx_name_part \<and> b \<in> rx_lang rx_name_part"
    then obtain a b where name: "name = CHR ''@'' # a @ CHR ''/'' # b"
      and a: "a \<in> rx_lang rx_name_part" and b: "b \<in> rx_lang rx_name_part" by blast
    then have "split_char CHR ''/'' name = [CHR ''@'' # a, b]"
      using split_char_append [of "CHR ''/''" "CHR ''@'' # a" b] name_part_no_slash [OF a]
        split_char_single [OF name_part_no_slash [OF b]] by simp
    then show ?thesis
      using len name name_part_chars [OF a] name_part_chars [OF b] b name_tail_plain
      by (auto simp: list_all_iff lang_name_part)
  qed
qed

theorem valid_name_path_safe_witness:
  "valid_name ''@babel/core'' \<and> length (split_char CHR ''/'' ''@babel/core'') = 2"
proof -
  have v: "valid_name ''@babel/core''" by code_simp
  show ?thesis using v valid_name_path_safe [OF v] by simp
qed

text \<open>Validation reports nothing exactly when the manifest uses no unsupported field, lists a
  dependency, and every dependency has a valid name and an exact version; a git, file, link or
  URL specifier is never taken for an exact version.\<close>

theorem validate_clean_iff:
  "validate m = [] \<longleftrightarrow> mf_unsupported m = [] \<and> mf_dependencies m \<noteq> []
     \<and> (\<forall>d \<in> set (mf_dependencies m). valid_name (dep_name d) \<and> is_exact_version (dep_version d)
          \<and> \<not> list_ex (\<lambda>p. has_prefix p (dep_version d)) source_prefixes)"
  using source_prefix_not_exact
  by (auto simp: validate_def map_filter_Nil_iff dependency_problem_None list_ex_iff)

theorem validate_clean_iff_witness:
  "validate \<lparr>mf_name = ''demo'', mf_dependencies =
     [\<lparr>dep_name = ''@babel/core'', dep_version = ''7.0.0-rc.1+b.1'', dep_kind = Prod\<rparr>], mf_unsupported = []\<rparr> = []"
proof -
  have v: "valid_name ''@babel/core''" "is_exact_version ''7.0.0-rc.1+b.1''" by code_simp+
  have "\<not> list_ex (\<lambda>p. has_prefix p ''7.0.0-rc.1+b.1'') source_prefixes" by code_simp
  then show ?thesis using v by (subst validate_clean_iff) simp
qed

text \<open>What ParseManifest returns does not depend on the order Go's maps are ranged over: the
  dependencies come grouped production, development, optional, and strictly sorted by name
  inside each group.\<close>

theorem parse_manifest_order_independent:
  assumes "gm_ok (rm_dependencies raw)" "gm_ok (rm_dev raw)" "gm_ok (rm_optional raw)"
    and "mset (rm_dependencies raw) = mset d" "mset (rm_dev raw) = mset v" "mset (rm_optional raw) = mset p"
  shows "parse_manifest (Inr (raw\<lparr>rm_dependencies := d, rm_dev := v, rm_optional := p\<rparr>)) = parse_manifest (Inr raw)
    \<and> (\<exists>m a b c. parse_manifest (Inr raw) = Inr m \<and> mf_dependencies m = a @ b @ c
        \<and> map dep_kind (a @ b @ c) = replicate (length a) Prod @ replicate (length b) Dev @ replicate (length c) Optional
        \<and> (\<forall>g \<in> {a, b, c}. sorted_wrt (<) (map dep_name g)))"
proof -
  have same: "group_deps k n = group_deps k m" if "gm_ok m" "mset m = mset n" for k m n
    using sorted_keys_perm [OF that] gm_get_perm [OF that] by (simp add: group_deps_def)
  have names: "map dep_name (group_deps k m) = sorted_keys m" for k m
    by (simp add: group_deps_def comp_def)
  have kinds: "map dep_kind (group_deps k m) = replicate (length (group_deps k m)) k" for k m
    by (simp add: group_deps_def comp_def map_replicate_const)
  have "parse_manifest (Inr (raw\<lparr>rm_dependencies := d, rm_dev := v, rm_optional := p\<rparr>)) = parse_manifest (Inr raw)"
    using same [OF assms(1,4)] same [OF assms(2,5)] same [OF assms(3,6)]
    by (simp add: parse_manifest_def raw_fields_def)
  moreover obtain m where m: "parse_manifest (Inr raw) = Inr m"
      "mf_dependencies m = group_deps Prod (rm_dependencies raw) @ group_deps Dev (rm_dev raw)
        @ group_deps Optional (rm_optional raw)"
    by (simp add: parse_manifest_def)
  moreover have "\<forall>g \<in> {group_deps Prod (rm_dependencies raw), group_deps Dev (rm_dev raw),
      group_deps Optional (rm_optional raw)}. sorted_wrt (<) (map dep_name g)"
    using assms(1-3) by (simp add: names sorted_keys_sorted)
  ultimately show ?thesis by (metis kinds map_append)
qed

definition sample_raw :: raw_manifest where
  "sample_raw = \<lparr>rm_name = ''demo'', rm_dependencies = [(''b'', ''1.0.0''), (''a'', ''2.0.0'')],
     rm_dev = [], rm_optional = [], rm_overrides = [], rm_resolutions = [],
     rm_pnpm_overrides = [], rm_pnpm_patched = []\<rparr>"

theorem parse_manifest_order_independent_witness:
  "parse_manifest (Inr (sample_raw\<lparr>rm_dependencies := [(''a'', ''2.0.0''), (''b'', ''1.0.0'')],
     rm_dev := [], rm_optional := []\<rparr>)) = parse_manifest (Inr sample_raw)"
  by (rule conjunct1 [OF parse_manifest_order_independent]) (simp_all add: sample_raw_def gm_ok_def)

end
