(* ===== verification/Semver_Api.thy ===== *)
theory Semver_Api
  imports Npm_Manifest
begin

text \<open>
  \<^verbatim>\<open>npm/semver.go\<close> over the semver package \<^verbatim>\<open>github.com/Masterminds/semver/v3\<close>, which is
  not part of the repository: the record \<open>semver\<close> holds the functions of it the code
  calls, every definition below takes it as its first argument, and the locale
  \<open>semver_laws\<close> states what the package documents. \<open>semver_spec\<close> reads and orders versions
  as semver.org does; it shows that the laws can hold and evaluates the witnesses.
\<close>

subsection \<open>The interface of the semver package\<close>

record 'v semver =
  sv_strict :: "string \<Rightarrow> string + 'v"
  sv_major :: "'v \<Rightarrow> nat"
  sv_minor :: "'v \<Rightarrow> nat"
  sv_prerelease :: "'v \<Rightarrow> string"
  sv_compare :: "'v \<Rightarrow> 'v \<Rightarrow> int"
  sv_original :: "'v \<Rightarrow> string"
  sv_constraint :: "string \<Rightarrow> string + ('v \<Rightarrow> bool)"

abbreviation sv_ok :: "'v semver \<Rightarrow> string \<Rightarrow> bool" where
  "sv_ok sv s \<equiv> \<exists>v. sv_strict sv s = Inr v"

abbreviation sv_less :: "'v semver \<Rightarrow> 'v \<Rightarrow> 'v \<Rightarrow> bool" where
  "sv_less sv a b \<equiv> sv_compare sv a b < 0"

subsection \<open>npm/semver.go\<close>

text \<open>\<^verbatim>\<open>\s\<close> of a regular expression, which has no vertical tab.\<close>

definition re_space :: "char \<Rightarrow> bool" where
  "re_space c \<longleftrightarrow> is_space c \<and> of_char c \<noteq> (11::nat)"

text \<open>The operators in the order of the alternation; the first that starts the string and is
  followed by a space is the one the regular expression finds.\<close>

definition range_operators :: "string list" where
  "range_operators = [''>='', ''<='', ''>'', ''<'', ''='', [CHR 0x5E], ''~'']"

fun match_operator :: "string list \<Rightarrow> string \<Rightarrow> string option" where
  "match_operator [] s = None"
| "match_operator (p # ps) s =
     (if has_prefix p s \<and> length p < length s \<and> re_space (s ! length p) then Some p else match_operator ps s)"

lemma match_operator_length:
  "match_operator ps s = Some p \<Longrightarrow> p \<in> set ps \<and> length p < length s"
  by (induction ps) (auto split: if_splits)

lemma length_dropWhile_Cons: "length (dropWhile P (drop n s)) \<le> length s - n"
  by (metis length_drop length_dropWhile_le)

function strip_operator_space :: "string \<Rightarrow> string" where
  "strip_operator_space s = (case match_operator range_operators s of
     Some p \<Rightarrow> p @ strip_operator_space (dropWhile re_space (drop (length p) s))
   | None \<Rightarrow> (case s of [] \<Rightarrow> [] | c # cs \<Rightarrow> c # strip_operator_space cs))"
  by pat_completeness auto
termination
proof (relation "measure length", goal_cases)
  case 1
  then show ?case by simp
next
  case (3 s p)
  then have "p \<in> set range_operators" "length p < length s" using match_operator_length by blast+
  moreover from this(1) have "0 < length p" by (auto simp: range_operators_def)
  ultimately show ?case
    unfolding in_measure using length_dropWhile_Cons [of re_space "length p" s] by linarith
next
  case (2 s c cs)
  then show ?case by simp
qed

declare strip_operator_space.simps [simp del]

text \<open>The segments \<^verbatim>\<open>.x\<close>, \<^verbatim>\<open>.X\<close> and \<^verbatim>\<open>.*\<close> right after a run of digits are removed.\<close>

fun drop_wildcards :: "string \<Rightarrow> string" where
  "drop_wildcards (a # b # s) =
     (if a = CHR ''.'' \<and> b \<in> {CHR ''x'', CHR ''X'', CHR ''*''} then drop_wildcards s else a # b # s)"
| "drop_wildcards s = s"

lemma length_drop_wildcards: "length (drop_wildcards s) \<le> length s"
  by (induction s rule: drop_wildcards.induct) auto

function strip_wildcards :: "string \<Rightarrow> string" where
  "strip_wildcards s = (case s of
     [] \<Rightarrow> []
   | c # cs \<Rightarrow>
       if is_digit c
       then takeWhile is_digit s @ strip_wildcards (drop_wildcards (dropWhile is_digit s))
       else c # strip_wildcards cs)"
  by pat_completeness auto
termination
proof (relation "measure length", goal_cases)
  case (2 s c cs)
  then have "length (dropWhile is_digit s) \<le> length cs" by (simp add: length_dropWhile_le)
  then have "length (drop_wildcards (dropWhile is_digit s)) \<le> length cs"
    using length_drop_wildcards order_trans by blast
  with 2 show ?case by simp
qed auto

declare strip_wildcards.simps [simp del]

definition normalize_range :: "string \<Rightarrow> string" where
  "normalize_range r = strip_wildcards (strip_operator_space (trim_space r))"

definition satisfies_node :: "'v semver \<Rightarrow> string \<Rightarrow> string \<Rightarrow> string + bool" where
  "satisfies_node sv expr node =
     (if trim_space expr = '''' then Inr True
      else try_bind (case sv_strict sv node of Inl e \<Rightarrow> Inl (''node version: '' @ e) | Inr v \<Rightarrow> Inr v) (\<lambda>v.
        try_bind (case sv_constraint sv (normalize_range expr) of
            Inl e \<Rightarrow> Inl (''engines range: '' @ e) | Inr c \<Rightarrow> Inr c) (\<lambda>c.
        Inr (c v))))"

definition is_newer_stable :: "'v semver \<Rightarrow> 'v \<Rightarrow> string \<Rightarrow> 'v option" where
  "is_newer_stable sv cur s = (case sv_strict sv s of
     Inl e \<Rightarrow> None
   | Inr v \<Rightarrow> if sv_prerelease sv v \<noteq> '''' \<or> \<not> 0 < sv_compare sv v cur then None else Some v)"

definition newer_stable :: "'v semver \<Rightarrow> string \<Rightarrow> string list \<Rightarrow> string + string list" where
  "newer_stable sv current versions = (case sv_strict sv current of
     Inl e \<Rightarrow> Inl (''current version: '' @ e)
   | Inr cur \<Rightarrow> Inr (map (sv_original sv)
       (sort_func (sv_compare sv) (List.map_filter (is_newer_stable sv cur) versions))))"

lemma sv_ok_iff: "sv_ok sv s \<longleftrightarrow> \<not> isl (sv_strict sv s)"
  by (cases "sv_strict sv s") auto

subsection \<open>What the package promises\<close>

text \<open>\<^verbatim>\<open>Compare\<close> is a comparator and \<^verbatim>\<open>Original\<close> gives the parsed string back.\<close>

locale semver_laws =
  fixes sv :: "'v semver"
  assumes compare: "comparator (sv_compare sv)"
    and original: "sv_strict sv s = Inr v \<Longrightarrow> sv_original sv v = s"
begin

lemma newer_version: "is_newer_stable sv cur s = Some v \<Longrightarrow>
    sv_strict sv s = Inr v \<and> sv_original sv v = s \<and> sv_prerelease sv v = '''' \<and> sv_less sv cur v"
  using original comparator.cmp_flip [OF compare]
  by (auto simp: is_newer_stable_def split: sum.splits if_splits)

lemma newer_mset:
  "mset (map (sv_original sv) (List.map_filter (is_newer_stable sv cur) versions))
     = filter_mset (\<lambda>s. is_newer_stable sv cur s \<noteq> None) (mset versions)"
  by (induction versions) (auto simp: List.map_filter_simps newer_version split: option.splits)

lemma newer_in_range:
  assumes "newer_stable sv current versions = Inr out" "s \<in> set out"
  obtains cur v where "sv_strict sv current = Inr cur" "sv_strict sv s = Inr v" "s \<in> set versions"
    "sv_prerelease sv v = ''''" "sv_less sv cur v"
proof -
  from assms(1) obtain cur where cur: "sv_strict sv current = Inr cur"
    and out: "out = map (sv_original sv)
       (sort_func (sv_compare sv) (List.map_filter (is_newer_stable sv cur) versions))"
    by (auto simp: newer_stable_def split: sum.splits)
  from out have "set out = set_mset (mset (map (sv_original sv) (List.map_filter (is_newer_stable sv cur) versions)))"
    by simp
  with assms(2) have "s \<in># filter_mset (\<lambda>s. is_newer_stable sv cur s \<noteq> None) (mset versions)"
    by (simp only: newer_mset)
  then obtain v where "s \<in> set versions" "is_newer_stable sv cur s = Some v" by auto
  with cur show ?thesis using that newer_version by blast
qed

lemma newer_sorted:
  assumes "newer_stable sv current versions = Inr out"
  shows "sorted_wrt (\<lambda>s t. \<forall>v w. sv_strict sv s = Inr v \<longrightarrow> sv_strict sv t = Inr w \<longrightarrow> sv_compare sv v w \<le> 0) out"
proof -
  from assms obtain cur where out: "out = map (sv_original sv)
       (sort_func (sv_compare sv) (List.map_filter (is_newer_stable sv cur) versions))"
    by (auto simp: newer_stable_def split: sum.splits)
  let ?vs = "sort_func (sv_compare sv) (List.map_filter (is_newer_stable sv cur) versions)"
  have parsed: "\<And>v. v \<in> set ?vs \<Longrightarrow> sv_strict sv (sv_original sv v) = Inr v"
    using newer_version by (fastforce simp: List.map_filter_def)
  show ?thesis
    unfolding out sorted_wrt_map
    by (rule sorted_wrt_mono_rel [OF _ comparator.sorted_sort_func [OF compare]]) (use parsed in auto)
qed

end

subsection \<open>Versions as semver.org has them\<close>

text \<open>An identifier of a prerelease: numeric ones come before the others.\<close>

datatype pre_ident = Pre_Num nat | Pre_Alpha string

instantiation pre_ident :: linorder
begin

definition less_eq_pre_ident :: "pre_ident \<Rightarrow> pre_ident \<Rightarrow> bool" where
  "less_eq_pre_ident a b = (case (a, b) of
     (Pre_Num m, Pre_Num n) \<Rightarrow> m \<le> n
   | (Pre_Num _, Pre_Alpha _) \<Rightarrow> True
   | (Pre_Alpha _, Pre_Num _) \<Rightarrow> False
   | (Pre_Alpha s, Pre_Alpha t) \<Rightarrow> s \<le> t)"

definition less_pre_ident :: "pre_ident \<Rightarrow> pre_ident \<Rightarrow> bool" where
  "less_pre_ident a b \<longleftrightarrow> a \<le> b \<and> \<not> b \<le> a"

instance
  by standard (auto simp: less_eq_pre_ident_def less_pre_ident_def split: pre_ident.splits)

end

record spec_version =
  vn_major :: nat
  vn_minor :: nat
  vn_patch :: nat
  vn_pre :: string
  vn_original :: string

definition pre_ident_of :: "string \<Rightarrow> pre_ident" where
  "pre_ident_of s = (if list_all is_digit s then Pre_Num (read_nat s) else Pre_Alpha s)"

definition version_key :: "spec_version \<Rightarrow> nat \<times> nat \<times> nat \<times> bool \<times> pre_ident list" where
  "version_key v = (vn_major v, vn_minor v, vn_patch v, vn_pre v = '''',
     if vn_pre v = '''' then [] else map pre_ident_of (split_char CHR ''.'' (vn_pre v)))"

definition strict_version :: "string \<Rightarrow> string + spec_version" where
  "strict_version s =
     (if \<not> is_exact_version s then Inl ''invalid semantic version''
      else (case cut CHR ''+'' s of (core_pre, _, _) \<Rightarrow>
        case cut CHR ''-'' core_pre of (core, pre, _) \<Rightarrow>
          case split_char CHR ''.'' core of
            [a, b, c] \<Rightarrow> Inr \<lparr>vn_major = read_nat a, vn_minor = read_nat b, vn_patch = read_nat c,
                             vn_pre = pre, vn_original = s\<rparr>
          | _ \<Rightarrow> Inl ''invalid semantic version''))"

text \<open>Constraints: \<^verbatim>\<open>*\<close>, \<^verbatim>\<open>>=v\<close> and an exact version are enough for the witnesses.\<close>

definition spec_constraint :: "string \<Rightarrow> string + (spec_version \<Rightarrow> bool)" where
  "spec_constraint r =
     (if r = ''*'' then Inr (\<lambda>_. True)
      else if has_prefix ''>='' r
      then try_bind (strict_version (drop 2 r)) (\<lambda>w. Inr (\<lambda>v. version_key w \<le> version_key v))
      else try_bind (strict_version r) (\<lambda>w. Inr (\<lambda>v. version_key w = version_key v)))"

definition semver_spec :: "spec_version semver" where
  "semver_spec = \<lparr>sv_strict = strict_version, sv_major = vn_major, sv_minor = vn_minor,
     sv_prerelease = vn_pre, sv_compare = (\<lambda>a b. go_compare (version_key a) (version_key b)),
     sv_original = vn_original, sv_constraint = spec_constraint\<rparr>"

interpretation spec: semver_laws semver_spec
proof (rule semver_laws.intro)
  show "comparator (sv_compare semver_spec)"
    by (auto simp: semver_spec_def)
  show "\<And>s v. sv_strict semver_spec s = Inr v \<Longrightarrow> sv_original semver_spec v = s"
    by (auto simp: semver_spec_def strict_version_def split: if_splits prod.splits list.splits)
qed

subsection \<open>Properties\<close>

text \<open>NewerStable returns exactly the listed versions that parse, carry no prerelease tag and
  are above the current one, each as often as it is listed, and in ascending order; the order
  of the input does not matter where no two of them compare equal.\<close>

theorem newer_stable_exact:
  assumes "semver_laws sv" and "newer_stable sv current versions = Inr out"
  shows "(\<exists>cur. sv_strict sv current = Inr cur
      \<and> mset out = filter_mset (\<lambda>s. \<exists>v. sv_strict sv s = Inr v \<and> sv_prerelease sv v = '''' \<and> sv_less sv cur v)
          (mset versions))
    \<and> sorted_wrt (\<lambda>s t. \<forall>v w. sv_strict sv s = Inr v \<longrightarrow> sv_strict sv t = Inr w \<longrightarrow> sv_compare sv v w \<le> 0) out
    \<and> (\<forall>other. mset other = mset versions \<longrightarrow>
        (\<forall>s \<in> set out. \<forall>t \<in> set out. \<forall>v w. sv_strict sv s = Inr v \<longrightarrow> sv_strict sv t = Inr w
           \<longrightarrow> sv_compare sv v w = 0 \<longrightarrow> s = t)
        \<longrightarrow> newer_stable sv current other = Inr out)"
proof -
  note laws = assms(1) and cmp = semver_laws.compare [OF assms(1)]
  obtain cur where cur: "sv_strict sv current = Inr cur"
    and out: "out = map (sv_original sv)
       (sort_func (sv_compare sv) (List.map_filter (is_newer_stable sv cur) versions))"
    using assms(2) by (auto simp: newer_stable_def split: sum.splits)
  have newer: "is_newer_stable sv cur s \<noteq> None \<longleftrightarrow>
      (\<exists>v. sv_strict sv s = Inr v \<and> sv_prerelease sv v = '''' \<and> sv_less sv cur v)" for s
    using comparator.cmp_flip [OF cmp] by (auto simp: is_newer_stable_def split: sum.splits)
  have same: "newer_stable sv current other = Inr out"
    if perm: "mset other = mset versions"
      and sep: "\<forall>s \<in> set out. \<forall>t \<in> set out. \<forall>v w. sv_strict sv s = Inr v \<longrightarrow> sv_strict sv t = Inr w
           \<longrightarrow> sv_compare sv v w = 0 \<longrightarrow> s = t" for other
  proof -
    let ?f = "List.map_filter (is_newer_stable sv cur)"
    have "mset (?f versions) = mset (?f other)"
      using perm by (simp add: List.map_filter_def)
    moreover have "v = w" if vs: "v \<in> set (?f versions)" "w \<in> set (?f versions)" "sv_compare sv v w = 0" for v w
    proof -
      have "\<And>u. u \<in> set (?f versions) \<Longrightarrow> sv_strict sv (sv_original sv u) = Inr u"
        using semver_laws.newer_version [OF laws] by (fastforce simp: List.map_filter_def)
      then have p: "sv_strict sv (sv_original sv v) = Inr v" "sv_strict sv (sv_original sv w) = Inr w"
        using vs by blast+
      moreover have "sv_original sv v \<in> set out" "sv_original sv w \<in> set out" using vs by (simp_all add: out)
      ultimately show "v = w" using sep vs(3) by (metis sum.inject(2))
    qed
    ultimately have "sort_func (sv_compare sv) (?f versions) = sort_func (sv_compare sv) (?f other)"
      by (rule comparator.sort_func_perm [OF cmp])
    then show ?thesis by (simp add: newer_stable_def cur out)
  qed
  have "mset out = filter_mset (\<lambda>s. is_newer_stable sv cur s \<noteq> None) (mset versions)"
    using semver_laws.newer_mset [OF laws] by (simp add: out)
  then have "mset out = filter_mset (\<lambda>s. \<exists>v. sv_strict sv s = Inr v \<and> sv_prerelease sv v = '''' \<and> sv_less sv cur v)
      (mset versions)"
    by (simp only: newer)
  then show ?thesis
    using cur same semver_laws.newer_sorted [OF laws assms(2)] by blast
qed

theorem newer_stable_exact_witness:
  "\<exists>out. newer_stable semver_spec ''1.2.3'' [''1.10.0'', ''2.0.0-rc.1'', ''1.9.0'', ''x''] = Inr out
     \<and> mset out = {#''1.9.0'', ''1.10.0''#}"
proof -
  have n: "newer_stable semver_spec ''1.2.3'' [''1.10.0'', ''2.0.0-rc.1'', ''1.9.0'', ''x'']
      = Inr [''1.9.0'', ''1.10.0'']"
    by code_simp
  show ?thesis using newer_stable_exact [OF spec.semver_laws_axioms n] n by auto
qed

end
