(* ===== verification/Npm_Lockfile.thy ===== *)
theory Npm_Lockfile
  imports Npm_Manifest
begin

text \<open>
  \<^verbatim>\<open>npm/lockfile.go\<close> and \<^verbatim>\<open>npm/platform.go\<close>: the packages of a pnpm lockfile, and the ones npm
  would install on a platform. The YAML decoder's result is the input of \<open>parse_lockfile\<close>; its
  map of packages is a \<open>gomap\<close>, whose order the code visits.
\<close>

subsection \<open>Lockfile packages\<close>

record lock_package =
  lp_name :: string
  lp_version :: string
  lp_integrity :: string
  lp_os :: "string list"
  lp_cpu :: "string list"
  lp_libc :: "string list"
  lp_engines :: "(string, string) gomap"

definition lp_key :: "lock_package \<Rightarrow> string" where
  "lp_key p = lp_name p @ ''@'' @ lp_version p"

record raw_package =
  rp_integrity :: string
  rp_engines :: "(string, string) gomap"
  rp_os :: "string list"
  rp_cpu :: "string list"
  rp_libc :: "string list"

record raw_lockfile =
  rl_version :: string
  rl_packages :: "(string, raw_package) gomap"

definition split_key :: "string \<Rightarrow> (string \<times> string) option" where
  "split_key key = (case split_last CHR ''@'' key of
     None \<Rightarrow> None
   | Some (name, version) \<Rightarrow> if name = '''' \<or> version = '''' then None else Some (name, version))"

definition lock_entry :: "string \<times> raw_package \<Rightarrow> string + lock_package" where
  "lock_entry e = (case e of (key, p) \<Rightarrow> (case split_key key of
     None \<Rightarrow> Inl (''pnpm lockfile: malformed package key '' @ key)
   | Some (name, version) \<Rightarrow>
       if rp_integrity p = '''' then Inl (''pnpm lockfile: '' @ key @ '' has no registry integrity'')
       else Inr \<lparr>lp_name = name, lp_version = version, lp_integrity = rp_integrity p,
                 lp_os = rp_os p, lp_cpu = rp_cpu p, lp_libc = rp_libc p, lp_engines = rp_engines p\<rparr>))"

definition cmp_package :: "lock_package \<Rightarrow> lock_package \<Rightarrow> int" where
  "cmp_package a b = cmp_or [go_compare (lp_name a) (lp_name b), go_compare (lp_version a) (lp_version b)]"

definition parse_lockfile :: "string + raw_lockfile \<Rightarrow> string + lock_package list" where
  "parse_lockfile decoded = (case decoded of
     Inl e \<Rightarrow> Inl (''parse pnpm lockfile: '' @ e)
   | Inr raw \<Rightarrow>
       if rl_version raw \<noteq> ''9.0''
       then Inl (''pnpm lockfile version '' @ rl_version raw @ '': only 9.0 is supported'')
       else try_bind (map_err lock_entry (rl_packages raw)) (\<lambda>pkgs. Inr (sort_func cmp_package pkgs)))"

subsection \<open>Platforms\<close>

record platform =
  pf_os :: string
  pf_cpu :: string
  pf_libc :: string

text \<open>The loop of \<^verbatim>\<open>matches\<close>: None is its early \<^verbatim>\<open>return false\<close>, otherwise the number of
  negations and whether an item matched.\<close>

fun match_items :: "string list \<Rightarrow> string \<Rightarrow> nat \<Rightarrow> bool \<Rightarrow> (nat \<times> bool) option" where
  "match_items [] v negations ok = Some (negations, ok)"
| "match_items (item # items) v negations ok =
     (if has_prefix ''!'' item
      then (if drop 1 item = v then None else match_items items v (negations + 1) ok)
      else match_items items v negations (ok \<or> item = v))"

definition matches_value :: "string list \<Rightarrow> string \<Rightarrow> bool" where
  "matches_value items v =
     (if items = [] \<or> items = [''any''] then True
      else (case match_items items v 0 False of
        None \<Rightarrow> False
      | Some (negations, ok) \<Rightarrow> ok \<or> negations = length items))"

definition accepts :: "platform \<Rightarrow> lock_package \<Rightarrow> bool" where
  "accepts pl p =
     (if \<not> matches_value (lp_os p) (pf_os pl) \<or> \<not> matches_value (lp_cpu p) (pf_cpu pl) then False
      else pf_os pl \<noteq> ''linux'' \<or> matches_value (lp_libc p) (pf_libc pl))"

definition filter_platform :: "platform \<Rightarrow> lock_package list \<Rightarrow> lock_package list" where
  "filter_platform pl pkgs = filter (accepts pl) pkgs"

subsection \<open>Sorting by name, then version\<close>

interpretation pkg: comparator cmp_package
proof -
  have "comparator (\<lambda>a b. cmp_or [go_compare (lp_name a) (lp_name b), go_compare (lp_version a) (lp_version b)])"
    by (intro comparator_or_Cons comparator_or_Nil comparator_key)
  then show "comparator cmp_package" by (simp add: cmp_package_def [abs_def])
qed

lemma cmp_package_eq: "cmp_package a b = 0 \<longleftrightarrow> lp_name a = lp_name b \<and> lp_version a = lp_version b"
  by (simp add: cmp_package_def)

lemma cmp_package_le: "cmp_package a b \<le> 0 \<longleftrightarrow> (lp_name a, lp_version a) \<le> (lp_name b, lp_version b)"
  by (auto simp: cmp_package_def)

lemma split_key_Some: "split_key key = Some (n, v) \<longleftrightarrow>
    key = n @ ''@'' @ v \<and> n \<noteq> '''' \<and> v \<noteq> '''' \<and> CHR ''@'' \<notin> set v"
  by (auto simp: split_key_def split: option.splits dest: split_last_Some)

lemma lock_entry_Inr: "lock_entry (key, r) = Inr p \<longleftrightarrow>
    rp_integrity r \<noteq> '''' \<and> split_key key = Some (lp_name p, lp_version p) \<and> lp_integrity p = rp_integrity r
    \<and> lp_os p = rp_os r \<and> lp_cpu p = rp_cpu r \<and> lp_libc p = rp_libc r \<and> lp_engines p = rp_engines r"
  by (cases p) (auto simp: lock_entry_def split: option.splits)

lemma lock_entry_key: "lock_entry e = Inr p \<Longrightarrow> lp_key p = fst e \<and> CHR ''@'' \<notin> set (lp_version p)"
  by (cases e) (auto simp: lock_entry_Inr split_key_Some lp_key_def)

lemma match_items_None: "match_items items v k ok = None \<longleftrightarrow> CHR ''!'' # v \<in> set items"
proof (induction items v k ok rule: match_items.induct)
  case (2 item items v k ok)
  then show ?case by (cases item) auto
qed simp

lemma match_items_Some: "match_items items v k ok = Some (n, b) \<Longrightarrow>
    n = k + length (filter (has_prefix ''!'') items) \<and> (b \<longleftrightarrow> ok \<or> (v \<in> set items \<and> \<not> has_prefix ''!'' v))"
  by (induction items v k ok rule: match_items.induct) (auto split: if_splits)

lemma filter_all_length: "length (filter P xs) = length xs \<longleftrightarrow> list_all P xs"
  by (induction xs) (auto, metis Suc_n_not_le_n length_filter_le)

lemma map_err_mset: "map_err f xs = Inr ys \<Longrightarrow> mset xs = mset xs' \<Longrightarrow> \<exists>ys'. map_err f xs' = Inr ys' \<and> mset ys' = mset ys"
proof -
  assume f: "map_err f xs = Inr ys" and perm: "mset xs = mset xs'"
  define g where "g x = (case f x of Inr y \<Rightarrow> y | Inl _ \<Rightarrow> undefined)" for x
  have "f x = Inr (g x)" if "x \<in> set xs" for x
    using f that by (auto simp: map_err_Inr list_all2_conv_all_nth in_set_conv_nth g_def)
  then have all: "\<And>x. x \<in> set xs \<Longrightarrow> f x = Inr (g x)" by blast
  have eval: "map_err f zs = Inr (map g zs)" if "set zs \<subseteq> set xs" for zs
    using that all by (induction zs) auto
  have "set xs' \<subseteq> set xs" using perm by (metis mset_eq_setD order_refl)
  then show ?thesis using eval [of xs] eval [of xs'] f perm by simp
qed

subsection \<open>Properties\<close>

text \<open>ParseLockfile succeeds exactly on a version 9.0 lockfile whose keys all split and whose
  packages all have an integrity. It then returns one package per entry, under the entry's
  key, strictly ascending by name and version, whatever order the map is ranged over.\<close>

theorem parse_lockfile_exact:
  assumes ok: "gm_ok (rl_packages raw)"
  shows "((\<exists>pkgs. parse_lockfile (Inr raw) = Inr pkgs) \<longleftrightarrow>
      rl_version raw = ''9.0'' \<and> (\<forall>(key, p) \<in> set (rl_packages raw). split_key key \<noteq> None \<and> rp_integrity p \<noteq> ''''))
    \<and> (\<forall>pkgs. parse_lockfile (Inr raw) = Inr pkgs \<longrightarrow>
        mset (map lp_key pkgs) = mset (map fst (rl_packages raw))
        \<and> sorted_wrt (<) (map (\<lambda>p. (lp_name p, lp_version p)) pkgs)
        \<and> (\<forall>m. mset m = mset (rl_packages raw) \<longrightarrow> parse_lockfile (Inr (raw\<lparr>rl_packages := m\<rparr>)) = Inr pkgs))"
proof (intro conjI allI impI)
  have entry: "(\<exists>p. lock_entry (key, r) = Inr p) \<longleftrightarrow> split_key key \<noteq> None \<and> rp_integrity r \<noteq> ''''" for key r
    by (auto simp: lock_entry_def split: option.splits)
  have "(\<exists>ps. map_err lock_entry es = Inr ps) \<longleftrightarrow> (\<forall>e \<in> set es. \<exists>p. lock_entry e = Inr p)" for es
    by (induction es) (auto simp: go_err simp del: map_err_Inr)
  then show "(\<exists>pkgs. parse_lockfile (Inr raw) = Inr pkgs) \<longleftrightarrow>
      rl_version raw = ''9.0'' \<and> (\<forall>(key, p) \<in> set (rl_packages raw). split_key key \<noteq> None \<and> rp_integrity p \<noteq> '''')"
    using ball_cong [OF refl, of "set (rl_packages raw)" "\<lambda>e. \<exists>p. lock_entry e = Inr p"
        "\<lambda>(key, p). split_key key \<noteq> None \<and> rp_integrity p \<noteq> ''''"] entry
    by (simp add: parse_lockfile_def try_bind_Inr split_paired_all)
next
  fix pkgs assume "parse_lockfile (Inr raw) = Inr pkgs"
  then obtain ps where v: "rl_version raw = ''9.0''" and ps: "map_err lock_entry (rl_packages raw) = Inr ps"
    and pkgs: "pkgs = sort_func cmp_package ps"
    by (auto simp: parse_lockfile_def try_bind_Inr split: if_splits)
  from ps have all: "list_all2 (\<lambda>e p. lock_entry e = Inr p) (rl_packages raw) ps" by (simp add: map_err_Inr)
  then have "list_all2 (\<lambda>e p. fst e = lp_key p) (rl_packages raw) ps"
    by (rule list_all2_mono) (simp add: lock_entry_key)
  then have keys: "map lp_key ps = map fst (rl_packages raw)"
    by (induction rule: list_all2_induct) auto
  then show "mset (map lp_key pkgs) = mset (map fst (rl_packages raw))"
    unfolding pkgs by (metis mset_map mset_sort_func)
  from keys ok have dist: "distinct (map lp_key ps)" by (simp add: gm_ok_def)
  have inj: "p = q" if "p \<in> set ps" "q \<in> set ps" "cmp_package p q = 0" for p q
    using dist that by (auto simp: distinct_map inj_on_def lp_key_def cmp_package_eq)
  let ?nv = "\<lambda>p. (lp_name p, lp_version p)"
  have "distinct (map ?nv ps)"
    using dist inj by (auto simp: distinct_map cmp_package_eq intro!: inj_onI)
  then have "distinct (map ?nv pkgs)" by (simp add: pkgs)
  moreover have "sorted_wrt (\<le>) (map ?nv pkgs)"
    using pkg.sorted_sort_func [of ps] by (simp add: pkgs sorted_wrt_map cmp_package_le)
  ultimately show "sorted_wrt (<) (map ?nv pkgs)" by (simp add: strict_sorted_iff)
  fix m assume "mset m = mset (rl_packages raw)"
  then obtain qs where "map_err lock_entry m = Inr qs" "mset qs = mset ps"
    using map_err_mset [OF ps] by metis
  moreover from this(2) have "sort_func cmp_package qs = pkgs"
    unfolding pkgs using inj by (metis pkg.sort_func_perm)
  ultimately show "parse_lockfile (Inr (raw\<lparr>rl_packages := m\<rparr>)) = Inr pkgs"
    by (simp add: parse_lockfile_def v)
qed

definition sample_lock :: raw_lockfile where
  "sample_lock = \<lparr>rl_version = ''9.0'', rl_packages =
     [(''ms@2.1.3'', \<lparr>rp_integrity = ''sha512-x'', rp_engines = [], rp_os = [], rp_cpu = [], rp_libc = []\<rparr>),
      (''@babel/core@7.0.0'', \<lparr>rp_integrity = ''sha512-y'', rp_engines = [], rp_os = [''linux''], rp_cpu = [], rp_libc = []\<rparr>)]\<rparr>"

theorem parse_lockfile_exact_witness:
  "\<exists>pkgs. parse_lockfile (Inr sample_lock) = Inr pkgs \<and> sorted_wrt (<) (map (\<lambda>p. (lp_name p, lp_version p)) pkgs)"
proof -
  have ok: "gm_ok (rl_packages sample_lock)" by (simp add: sample_lock_def gm_ok_def)
  have "\<exists>pkgs. parse_lockfile (Inr sample_lock) = Inr pkgs"
    by (subst conjunct1 [OF parse_lockfile_exact [OF ok]])
      (simp add: sample_lock_def split_key_def split_last_def cut_def)
  then show ?thesis using parse_lockfile_exact [OF ok] by blast
qed

text \<open>Splitting a package's key gives its name and version back, so the key determines the
  package, as long as both are present and the version holds no at sign; the name may hold one.\<close>

theorem split_key_roundtrip:
  assumes "lp_name p \<noteq> ''''" "lp_version p \<noteq> ''''" "CHR ''@'' \<notin> set (lp_version p)"
  shows "split_key (lp_key p) = Some (lp_name p, lp_version p)"
  using assms by (simp add: split_key_Some lp_key_def)

theorem split_key_roundtrip_witness:
  "split_key ''@babel/core@7.0.0'' = Some (''@babel/core'', ''7.0.0'')"
  using split_key_roundtrip [of "\<lparr>lp_name = ''@babel/core'', lp_version = ''7.0.0'', lp_integrity = [],
    lp_os = [], lp_cpu = [], lp_libc = [], lp_engines = []\<rparr>"]
  by (simp add: lp_key_def)

text \<open>A platform accepts a package exactly as npm does: for each list that applies (libc only
  on linux), the list is empty or only \<^verbatim>\<open>any\<close>, or it does not exclude the value and either
  names it or holds exclusions only. Filtering keeps the accepted packages in their order.\<close>

theorem accepts_iff:
  "accepts pl p \<longleftrightarrow> (\<forall>(items, v) \<in> set ([(lp_os p, pf_os pl), (lp_cpu p, pf_cpu pl)]
        @ (if pf_os pl = ''linux'' then [(lp_libc p, pf_libc pl)] else [])).
      items = [] \<or> items = [''any'']
      \<or> CHR ''!'' # v \<notin> set items \<and> (v \<in> set items \<and> \<not> has_prefix ''!'' v \<or> list_all (has_prefix ''!'') items))"
proof -
  have m: "matches_value items v \<longleftrightarrow> items = [] \<or> items = [''any'']
      \<or> CHR ''!'' # v \<notin> set items \<and> (v \<in> set items \<and> \<not> has_prefix ''!'' v \<or> list_all (has_prefix ''!'') items)" for items v
  proof (cases "match_items items v 0 False")
    case None
    then show ?thesis using match_items_None [of items v 0 False] by (auto simp: matches_value_def)
  next
    case (Some r)
    then obtain n b where r: "match_items items v 0 False = Some (n, b)" by (cases r) auto
    then have "CHR ''!'' # v \<notin> set items" using match_items_None [of items v 0 False] by auto
    then show ?thesis
      using match_items_Some [OF r] r by (auto simp: matches_value_def filter_all_length)
  qed
  show ?thesis unfolding accepts_def m by auto
qed

theorem accepts_iff_witness:
  "\<not> accepts \<lparr>pf_os = ''linux'', pf_cpu = ''x64'', pf_libc = ''musl''\<rparr>
     \<lparr>lp_name = ''x'', lp_version = ''1.0.0'', lp_integrity = [], lp_os = [''!win32''], lp_cpu = [],
      lp_libc = [''glibc''], lp_engines = []\<rparr>"
  by (subst accepts_iff) simp

end
