(* ===== verification/Npm_Registry.thy ===== *)
theory Npm_Registry
  imports Npm_Manifest
begin

text \<open>
  \<^verbatim>\<open>npm/registry.go\<close> and the names of \<^verbatim>\<open>npm/tarball.go\<close>: SRI integrity strings, the retry loop
  of the registry client, and the download of a tarball. What the network, the context and the
  file system answer is a list of tries, one record per request; the hash functions are a
  parameter. Bytes are \<open>char\<close>s.
\<close>

type_synonym bytes = "char list"

subsection \<open>Names and addresses\<close>

definition default_registry :: string where
  "default_registry = ''https://registry.npmjs.org''"

definition base_name :: "string \<Rightarrow> string" where
  "base_name name = (case split_last CHR ''/'' name of None \<Rightarrow> name | Some (_, b) \<Rightarrow> b)"

definition tarball_url :: "string \<Rightarrow> string \<Rightarrow> string \<Rightarrow> string" where
  "tarball_url registry name version =
     trim_suffix ''/'' registry @ ''/'' @ name @ ''/-/'' @ base_name name @ ''-'' @ version @ ''.tgz''"

definition pack_file_name :: "string \<Rightarrow> string \<Rightarrow> string" where
  "pack_file_name name version =
     map (\<lambda>c. if c = CHR ''/'' then CHR ''-'' else c) (trim_prefix ''@'' name) @ ''-'' @ version @ ''.tgz''"

definition client_registry :: "string \<Rightarrow> string" where
  "client_registry registry = (if registry = '''' then default_registry else trim_suffix ''/'' registry)"

subsection \<open>Base64 as encoding/base64 decodes it\<close>

definition b64_value :: "char \<Rightarrow> nat option" where
  "b64_value c =
     (if is_upper c then Some (of_char c - 65)
      else if is_lower c then Some (of_char c - 71)
      else if is_digit c then Some (of_char c + 4)
      else if c = CHR ''+'' then Some 62
      else if c = CHR ''/'' then Some 63
      else None)"

fun b64_groups :: "string \<Rightarrow> bytes option" where
  "b64_groups [] = Some []"
| "b64_groups (a # b # c # d # rest) = (case (b64_value a, b64_value b) of
     (Some x, Some y) \<Rightarrow>
       if c = CHR ''='' then (if d = CHR ''='' \<and> rest = [] then Some [char_of (4 * x + y div 16)] else None)
       else (case b64_value c of
         None \<Rightarrow> None
       | Some z \<Rightarrow>
           if d = CHR ''='' then (if rest = [] then Some [char_of (4 * x + y div 16), char_of (16 * (y mod 16) + z div 4)] else None)
           else (case b64_value d of
             None \<Rightarrow> None
           | Some u \<Rightarrow> (case b64_groups rest of
               None \<Rightarrow> None
             | Some bs \<Rightarrow> Some (char_of (4 * x + y div 16) # char_of (16 * (y mod 16) + z div 4)
                             # char_of (64 * (z mod 4) + u) # bs))))
   | _ \<Rightarrow> None)"
| "b64_groups _ = None"

definition b64_decode :: "string \<Rightarrow> bytes option" where
  "b64_decode s = b64_groups (filter (\<lambda>c. of_char c \<notin> {10, 13::nat}) s)"

subsection \<open>Integrity strings\<close>

datatype hash_alg = Sha512 | Sha1

fun digest_size :: "hash_alg \<Rightarrow> nat" where
  "digest_size Sha512 = 64"
| "digest_size Sha1 = 20"

definition decode_digest :: "string \<Rightarrow> string \<Rightarrow> nat \<Rightarrow> string + bytes" where
  "decode_digest sri encoded len = (case b64_decode encoded of
     None \<Rightarrow> Inl (''integrity '' @ sri @ '': illegal base64 data'')
   | Some dig \<Rightarrow>
       if length dig \<noteq> len
       then Inl (''integrity '' @ sri @ '': digest is '' @ show_nat (length dig) @ '' bytes, want '' @ show_nat len)
       else Inr dig)"

text \<open>The algorithm and the encoded digest of one field, without the options after it.\<close>

definition sri_entry :: "string \<Rightarrow> (string \<times> string) option" where
  "sri_entry field = (case cut CHR ''?'' field of (entry, _, _) \<Rightarrow>
     (case cut CHR ''-'' entry of (algo, encoded, ok) \<Rightarrow> if ok then Some (algo, encoded) else None))"

fun integrity_fields :: "string \<Rightarrow> string list \<Rightarrow> bytes option \<Rightarrow> bool \<Rightarrow> string + hash_alg \<times> bytes" where
  "integrity_fields sri [] sha1_sum only_sha1 = (case sha1_sum of
     Some dig \<Rightarrow> if only_sha1 then Inr (Sha1, dig) else Inl (''integrity '' @ sri @ '': unsupported algorithm'')
   | None \<Rightarrow> Inl (''integrity '' @ sri @ '': unsupported algorithm''))"
| "integrity_fields sri (field # rest) sha1_sum only_sha1 = (case sri_entry field of
     None \<Rightarrow> Inl (''integrity '' @ sri @ '': missing algorithm'')
   | Some (algo, encoded) \<Rightarrow>
       if algo = ''sha512'' then try_bind (decode_digest sri encoded 64) (\<lambda>dig. Inr (Sha512, dig))
       else if algo = ''sha1''
       then try_bind (decode_digest sri encoded 20) (\<lambda>dig. integrity_fields sri rest (Some dig) only_sha1)
       else integrity_fields sri rest sha1_sum False)"

definition parse_integrity :: "string \<Rightarrow> string + hash_alg \<times> bytes" where
  "parse_integrity sri = (if go_fields sri = [] then Inl ''empty integrity''
     else integrity_fields sri (go_fields sri) None True)"

subsection \<open>Requests with retries\<close>

datatype try_error = Not_Found | Integrity_Mismatch | Ctx_Done | Failed string

text \<open>\<open>attempt\<close> is one call of \<^verbatim>\<open>try\<close>: it changes the state and fails or not. \<open>waited\<close> says that the
  context ended during the wait before a try, \<open>ended\<close> that it has ended after one. Besides the
  error, the loop returns the state and the number of tries it made.\<close>

fun do_tries :: "nat \<Rightarrow> nat \<Rightarrow> (nat \<Rightarrow> bool) \<Rightarrow> (nat \<Rightarrow> bool) \<Rightarrow> (nat \<Rightarrow> 's \<Rightarrow> (try_error + unit) \<times> 's)
    \<Rightarrow> try_error + unit \<Rightarrow> 's \<Rightarrow> (try_error + unit) \<times> 's \<times> nat" where
  "do_tries 0 i waited ended attempt err s = (err, s, i - 1)"
| "do_tries (Suc n) i waited ended attempt err s =
     (if 1 < i \<and> waited i then (Inl Ctx_Done, s, i - 1)
      else (case attempt i s of (r, s') \<Rightarrow>
        if r = Inr () \<or> r = Inl Not_Found \<or> r = Inl Integrity_Mismatch \<or> ended i then (r, s', i)
        else do_tries n (i + 1) waited ended attempt r s'))"

definition attempts_or_default :: "int \<Rightarrow> nat" where
  "attempts_or_default attempts = (if attempts \<le> 0 then 3 else nat attempts)"

definition do_request :: "int \<Rightarrow> (nat \<Rightarrow> bool) \<Rightarrow> (nat \<Rightarrow> bool) \<Rightarrow> (nat \<Rightarrow> 's \<Rightarrow> (try_error + unit) \<times> 's)
    \<Rightarrow> 's \<Rightarrow> (try_error + unit) \<times> 's \<times> nat" where
  "do_request attempts waited ended attempt s =
     do_tries (attempts_or_default attempts) 1 waited ended attempt (Inr ()) s"

subsection \<open>Downloading a tarball\<close>

text \<open>What the server answers to one request, and what the file system does with the body: an
  error while reading the body or closing the file, and one from the rename.\<close>

datatype reply = No_Reply string | Reply int bytes

record fetch =
  ft_reply :: reply
  ft_create_err :: "string option"
  ft_copy_err :: "string option"
  ft_rename_err :: "string option"

type_synonym files = "string \<Rightarrow> bytes option"

record download_state =
  dl_files :: files
  dl_digest :: string

definition hex_digit :: "nat \<Rightarrow> char" where
  "hex_digit n = (if n < 10 then digit_char n else char_of (87 + n))"

definition hex_encode :: "bytes \<Rightarrow> string" where
  "hex_encode bs = concat (map (\<lambda>b. [hex_digit (of_char b div 16), hex_digit (of_char b mod 16)]) bs)"

definition save_body :: "(hash_alg \<Rightarrow> bytes \<Rightarrow> bytes) \<Rightarrow> hash_alg \<Rightarrow> bytes \<Rightarrow> string \<Rightarrow> fetch \<Rightarrow> bytes
    \<Rightarrow> download_state \<Rightarrow> (try_error + unit) \<times> download_state" where
  "save_body hash alg want path f body s = (case ft_create_err f of
     Some e \<Rightarrow> (Inl (Failed e), s)
   | None \<Rightarrow>
       let part = path @ ''.part''; s1 = s\<lparr>dl_files := (dl_files s)(part \<mapsto> body)\<rparr> in
       (case ft_copy_err f of
         Some e \<Rightarrow> (Inl (Failed e), s1)
       | None \<Rightarrow>
           if hash alg body \<noteq> want then (Inl Integrity_Mismatch, s1)
           else (let s2 = s1\<lparr>dl_digest := hex_encode (hash Sha512 body)\<rparr> in
             case ft_rename_err f of
               Some e \<Rightarrow> (Inl (Failed e), s2)
             | None \<Rightarrow> (Inr (), s2\<lparr>dl_files := (dl_files s2)(part := None, path \<mapsto> body)\<rparr>))))"

definition try_fetch :: "(fetch \<Rightarrow> bytes \<Rightarrow> 's \<Rightarrow> (try_error + unit) \<times> 's) \<Rightarrow> fetch \<Rightarrow> 's
    \<Rightarrow> (try_error + unit) \<times> 's" where
  "try_fetch save f s = (case ft_reply f of
     No_Reply e \<Rightarrow> (Inl (Failed e), s)
   | Reply status body \<Rightarrow>
       if status = 404 then (Inl Not_Found, s)
       else if status \<noteq> 200 then (Inl (Failed ''GET''), s)
       else save f body s)"

definition download_file :: "(hash_alg \<Rightarrow> bytes \<Rightarrow> bytes) \<Rightarrow> int \<Rightarrow> (nat \<Rightarrow> bool) \<Rightarrow> (nat \<Rightarrow> bool) \<Rightarrow> (nat \<Rightarrow> fetch)
    \<Rightarrow> bool \<Rightarrow> string \<Rightarrow> string \<Rightarrow> files \<Rightarrow> (try_error + string) \<times> files" where
  "download_file hash attempts waited ended fetches removed integrity path fs =
     (case parse_integrity integrity of
        Inl e \<Rightarrow> (Inl (Failed e), fs)
      | Inr (alg, want) \<Rightarrow>
          (case do_request attempts waited ended (\<lambda>i. try_fetch (save_body hash alg want path) (fetches i))
                 \<lparr>dl_files = fs, dl_digest = ''''\<rparr> of
             (Inr _, s, _) \<Rightarrow> (Inr (dl_digest s), dl_files s)
           | (Inl e, s, _) \<Rightarrow>
               (Inl e, if removed then (dl_files s)(path @ ''.part'' := None) else dl_files s)))"

subsection \<open>Packuments\<close>

text \<open>The fields of a published version the code reads. \<open>vm_attestations\<close> is raw JSON, empty when
  absent; \<open>pm_time\<close> holds what the decoder makes of each raw time, None when it refuses it.\<close>

record version_meta =
  vm_version :: string
  vm_deprecated :: string
  vm_engines :: "(string, string) gomap"
  vm_scripts :: "(string, string) gomap"
  vm_peers :: "(string, string) gomap"
  vm_publisher :: string
  vm_integrity :: string
  vm_attestations :: string

record packument =
  pm_name :: string
  pm_versions :: "(string, version_meta) gomap"
  pm_time :: "(string, int option) gomap"

definition empty_meta :: version_meta where
  "empty_meta = \<lparr>vm_version = '''', vm_deprecated = '''', vm_engines = [], vm_scripts = [], vm_peers = [],
     vm_publisher = '''', vm_integrity = '''', vm_attestations = ''''\<rparr>"

definition empty_packument :: packument where
  "empty_packument = \<lparr>pm_name = '''', pm_versions = [], pm_time = []\<rparr>"

text \<open>\<^verbatim>\<open>UnmarshalJSON\<close> of engines and of a deprecation: what is not of the type leaves the empty value.\<close>

definition unmarshal_engines :: "string + (string, string) gomap \<Rightarrow> (string, string) gomap" where
  "unmarshal_engines decoded = (case decoded of Inl e \<Rightarrow> [] | Inr m \<Rightarrow> m)"

definition unmarshal_deprecation :: "string + string \<Rightarrow> string" where
  "unmarshal_deprecation decoded = (case decoded of Inl e \<Rightarrow> '''' | Inr s \<Rightarrow> s)"

text \<open>Indexing the map of versions gives the zero value for an absent key.\<close>

definition meta_of :: "packument \<Rightarrow> string \<Rightarrow> version_meta" where
  "meta_of p version = (case gm_get (pm_versions p) version of None \<Rightarrow> empty_meta | Some m \<Rightarrow> m)"

text \<open>The zero time is 0.\<close>

definition published :: "packument \<Rightarrow> string \<Rightarrow> int \<times> bool" where
  "published p version = (case gm_get (pm_time p) version of Some (Some t) \<Rightarrow> (t, True) | _ \<Rightarrow> (0, False))"

definition has_install_script :: "version_meta \<Rightarrow> bool" where
  "has_install_script m = list_ex (gm_has (vm_scripts m)) [''preinstall'', ''install'', ''postinstall'']"

definition has_provenance :: "version_meta \<Rightarrow> bool" where
  "has_provenance m \<longleftrightarrow> vm_attestations m \<noteq> '''' \<and> vm_attestations m \<noteq> ''null''"

definition fetch_packument :: "(bytes \<Rightarrow> string + packument) \<Rightarrow> int \<Rightarrow> (nat \<Rightarrow> bool) \<Rightarrow> (nat \<Rightarrow> bool) \<Rightarrow> (nat \<Rightarrow> fetch)
    \<Rightarrow> try_error + packument" where
  "fetch_packument decode attempts waited ended fetches =
     (case do_request attempts waited ended
         (\<lambda>i. try_fetch (\<lambda>f body p. case decode body of Inl e \<Rightarrow> (Inl (Failed e), empty_packument) | Inr q \<Rightarrow> (Inr (), q)) (fetches i))
         empty_packument of
       (Inr _, p, _) \<Rightarrow> Inr p
     | (Inl e, _, _) \<Rightarrow> Inl e)"

text \<open>The wait before a retry: an int64 of nanoseconds shifted left, unless the client has its own.\<close>

definition backoff :: "(int \<Rightarrow> int) option \<Rightarrow> int \<Rightarrow> int" where
  "backoff own retry = (case own of Some f \<Rightarrow> f retry | None \<Rightarrow> int64 (500000000 * 2 ^ nat (retry - 1)))"

subsection \<open>The retry loop\<close>

abbreviation retryable :: "try_error + unit \<Rightarrow> bool" where
  "retryable r \<equiv> r \<noteq> Inr () \<and> r \<noteq> Inl Not_Found \<and> r \<noteq> Inl Integrity_Mismatch"

text \<open>An invariant of the state that every try keeps, and what a successful try establishes.\<close>

lemma do_tries_rule:
  assumes step: "\<And>i s r s'. I s \<Longrightarrow> attempt i s = (r, s') \<Longrightarrow> (if r = Inr () then Q s' else I s')"
    and "I s" "0 < n \<or> err \<noteq> Inr ()" "do_tries n i waited ended attempt err s = (r, s', k)"
  shows "if r = Inr () then Q s' else I s'"
  using assms(2-)
proof (induction n arbitrary: i err s)
  case 0
  then show ?case by auto
next
  case (Suc n)
  obtain r1 s1 where a: "attempt i s = (r1, s1)" by (cases "attempt i s")
  with step Suc.prems(1) have one: "if r1 = Inr () then Q s1 else I s1" by blast
  show ?case
  proof (cases "1 < i \<and> waited i \<or> \<not> retryable r1 \<or> ended i")
    case True
    then show ?thesis using one a Suc.prems by (auto split: if_splits)
  next
    case False
    then have "do_tries n (i + 1) waited ended attempt r1 s1 = (r, s', k)" "r1 \<noteq> Inr ()" "I s1"
      using one a Suc.prems by (auto split: if_splits)
    then show ?thesis using Suc.IH [of s1 r1 "i + 1"] by blast
  qed
qed

lemma do_tries_log:
  assumes "0 < i" "do_tries n i waited ended (\<lambda>i log. (res i, log @ [i])) err log = (r, log', k)"
    and "1 < i \<Longrightarrow> err = res (i - 1)" "0 < n \<or> 1 < i"
  shows "i - 1 \<le> k \<and> k < i + n \<and> 1 \<le> k \<and> log' = log @ [i..<k + 1]
    \<and> (1 < i \<and> waited i \<and> 0 < n \<longrightarrow> k = i - 1)
    \<and> (\<forall>j. i \<le> j \<and> j < k \<longrightarrow> retryable (res j) \<and> \<not> ended j \<and> \<not> waited (j + 1))
    \<and> (r = res k \<or> r = Inl Ctx_Done \<and> waited (k + 1))
    \<and> (k + 1 < i + n \<longrightarrow> \<not> retryable (res k) \<or> ended k \<or> waited (k + 1))"
  using assms
proof (induction n arbitrary: i err log)
  case 0
  then show ?case by auto
next
  case (Suc n)
  show ?case
  proof (cases "1 < i \<and> waited i \<or> \<not> retryable (res i) \<or> ended i")
    case True
    then show ?thesis using Suc.prems by (auto split: if_splits)
  next
    case False
    then have rec: "do_tries n (i + 1) waited ended (\<lambda>i log. (res i, log @ [i])) (res i) (log @ [i]) = (r, log', k)"
      using Suc.prems by (auto split: if_splits)
    have ih: "i \<le> k" "k < i + 1 + n" "log' = (log @ [i]) @ [i + 1..<k + 1]"
        "waited (i + 1) \<and> 0 < n \<longrightarrow> k = i"
        "\<forall>j. i + 1 \<le> j \<and> j < k \<longrightarrow> retryable (res j) \<and> \<not> ended j \<and> \<not> waited (j + 1)"
        "r = res k \<or> r = Inl Ctx_Done \<and> waited (k + 1)"
        "k + 1 < i + 1 + n \<longrightarrow> \<not> retryable (res k) \<or> ended k \<or> waited (k + 1)"
      using Suc.IH [OF _ rec] Suc.prems(1) by simp_all
    have "[i..<k + 1] = i # [i + 1..<k + 1]" using ih(1) by (simp add: upt_conv_Cons)
    moreover have "retryable (res j) \<and> \<not> ended j \<and> \<not> waited (j + 1)" if "i \<le> j" "j < k" for j
    proof (cases "j = i")
      case True
      then have "0 < n" using that ih(2) by linarith
      then show ?thesis using True that False ih(4) by auto
    next
      case False
      then show ?thesis using that ih(5) by simp
    qed
    ultimately have all: "\<forall>j. i \<le> j \<and> j < k \<longrightarrow> retryable (res j) \<and> \<not> ended j \<and> \<not> waited (j + 1)"
      "log' = log @ [i..<k + 1]"
      using ih(3) by simp_all
    show ?thesis
      using ih(1,2,7) False Suc.prems(1) by (intro conjI all ih(6)) auto
  qed
qed

subsection \<open>What a download leaves behind\<close>

text \<open>While the tries go on, only the part file may differ from what was there; after a success
  the file holds a body with the wanted digest and the part file is gone.\<close>

definition untouched :: "files \<Rightarrow> string \<Rightarrow> download_state \<Rightarrow> bool" where
  "untouched fs path s \<longleftrightarrow> (\<forall>p. p \<noteq> path @ ''.part'' \<longrightarrow> dl_files s p = fs p)"

definition saved :: "(hash_alg \<Rightarrow> bytes \<Rightarrow> bytes) \<Rightarrow> hash_alg \<Rightarrow> bytes \<Rightarrow> files \<Rightarrow> string \<Rightarrow> download_state \<Rightarrow> bool" where
  "saved hash alg want fs path s \<longleftrightarrow> (\<exists>body. hash alg body = want
     \<and> dl_files s = fs(path @ ''.part'' := None, path \<mapsto> body) \<and> dl_digest s = hex_encode (hash Sha512 body))"

lemma try_fetch_step:
  assumes "untouched fs path s" "try_fetch (save_body hash alg want path) f s = (r, s')"
  shows "if r = Inr () then saved hash alg want fs path s' else untouched fs path s'"
proof -
  have "(dl_files s)(path @ ''.part'' := x) = fs(path @ ''.part'' := x)" for x
    using assms(1) by (auto simp: untouched_def)
  then show ?thesis
    using assms
    by (auto simp: try_fetch_def save_body_def Let_def saved_def untouched_def
        split: reply.splits if_splits option.splits)
qed

lemma download_tries:
  assumes "do_request attempts waited ended (\<lambda>i. try_fetch (save_body hash alg want path) (fetches i))
      \<lparr>dl_files = fs, dl_digest = d\<rparr> = (r, s, k)"
  shows "if r = Inr () then saved hash alg want fs path s else untouched fs path s"
proof (rule do_tries_rule [OF _ _ _ assms [unfolded do_request_def]])
  show "if r = Inr () then saved hash alg want fs path s' else untouched fs path s'"
    if "untouched fs path s" "try_fetch (save_body hash alg want path) (fetches i) s = (r, s')" for i s r s'
    using that by (rule try_fetch_step)
qed (auto simp: untouched_def attempts_or_default_def)

lemma decode_digest_Inr: "decode_digest sri e n = Inr d \<Longrightarrow> length d = n \<and> b64_decode e = Some d"
  by (auto simp: decode_digest_def split: option.splits if_splits)

lemma integrity_fields_sound:
  "integrity_fields sri flds acc only = Inr (alg, d) \<Longrightarrow>
     (case alg of
       Sha512 \<Rightarrow> length d = 64 \<and> (\<exists>f \<in> set flds. \<exists>e. sri_entry f = Some (''sha512'', e) \<and> b64_decode e = Some d)
     | Sha1 \<Rightarrow> only \<and> (\<forall>f \<in> set flds. \<exists>e. sri_entry f = Some (''sha1'', e))
         \<and> (acc = Some d \<or> length d = 20 \<and> (\<exists>f \<in> set flds. \<exists>e. sri_entry f = Some (''sha1'', e) \<and> b64_decode e = Some d)))"
proof (induction sri flds acc only rule: integrity_fields.induct)
  case (1 sri acc only)
  then show ?case by (auto split: option.splits if_splits)
next
  case (2 sri f rest acc only)
  obtain algo e where f: "sri_entry f = Some (algo, e)"
    using "2.prems" by (auto split: option.splits)
  consider "algo = ''sha512''" | "algo = ''sha1''" | "algo \<noteq> ''sha512''" "algo \<noteq> ''sha1''" by blast
  then show ?case
  proof cases
    case 1
    then have "alg = Sha512" "decode_digest sri e 64 = Inr d"
      using "2.prems" f by (auto simp: try_bind_Inr)
    then show ?thesis using 1 f decode_digest_Inr by auto
  next
    case 2
    then obtain g where g: "decode_digest sri e 20 = Inr g" "integrity_fields sri rest (Some g) only = Inr (alg, d)"
      using "2.prems" f by (auto simp: try_bind_Inr)
    from 2 have "algo \<noteq> ''sha512''" by simp
    note ih = "2.IH"(1) [OF f refl this 2 g(2)]
    show ?thesis
    proof (cases alg)
      case Sha512
      then show ?thesis using ih by auto
    next
      case Sha1
      then show ?thesis using ih decode_digest_Inr [OF g(1)] f 2 by auto
    qed
  next
    case 3
    then have "integrity_fields sri rest acc False = Inr (alg, d)" using "2.prems" f by simp
    from "2.IH"(2) [OF f refl 3 this] show ?thesis by (cases alg) auto
  qed
qed

subsection \<open>Properties\<close>

text \<open>An accepted integrity string gives a digest of the algorithm's size, decoded from one of
  its fields; sha1 is returned only when every field is sha1, so a string that also lists a
  hash sealift cannot check is refused and never weakened.\<close>

theorem parse_integrity_strength:
  assumes "parse_integrity sri = Inr (alg, d)"
  shows "length d = digest_size alg
    \<and> (\<exists>f \<in> set (go_fields sri). \<exists>e. b64_decode e = Some d
         \<and> sri_entry f = Some (case alg of Sha512 \<Rightarrow> ''sha512'' | Sha1 \<Rightarrow> ''sha1'', e))
    \<and> (alg = Sha1 \<longrightarrow> (\<forall>f \<in> set (go_fields sri). \<exists>e. sri_entry f = Some (''sha1'', e)))"
proof -
  have "integrity_fields sri (go_fields sri) None True = Inr (alg, d)"
    using assms by (simp add: parse_integrity_def split: if_splits)
  from integrity_fields_sound [OF this] show ?thesis by (cases alg) auto
qed

theorem parse_integrity_strength_witness:
  "\<exists>d. parse_integrity ''sha1-AAAAAAAAAAAAAAAAAAAAAAAAAAA='' = Inr (Sha1, d) \<and> length d = 20
     \<and> (\<exists>e. parse_integrity ''sha1-AAAAAAAAAAAAAAAAAAAAAAAAAAA= sha384-x'' = Inl e)"
proof -
  have p: "parse_integrity ''sha1-AAAAAAAAAAAAAAAAAAAAAAAAAAA='' = Inr (Sha1, replicate 20 (CHR 0x00))"
    and q: "isl (parse_integrity ''sha1-AAAAAAAAAAAAAAAAAAAAAAAAAAA= sha384-x'')"
    by code_simp+
  show ?thesis using parse_integrity_strength [OF p] p q by (auto simp: isl_def)
qed

text \<open>A request is tried at least once and at most Attempts times (three by default), one try
  after the other. It stops early only on success, a missing package, an integrity mismatch or
  the end of the context, never retries after one of those, and returns the last try's result
  or the context's error.\<close>

theorem do_request_retries:
  assumes "do_request attempts waited ended (\<lambda>i log. (res i, log @ [i])) [] = (r, log, k)"
  shows "log = [1..<k + 1] \<and> 1 \<le> k \<and> k \<le> attempts_or_default attempts
    \<and> (\<forall>j. 1 \<le> j \<and> j < k \<longrightarrow> retryable (res j) \<and> \<not> ended j \<and> \<not> waited (j + 1))
    \<and> (r = res k \<or> r = Inl Ctx_Done \<and> waited (k + 1))
    \<and> (k < attempts_or_default attempts \<longrightarrow> \<not> retryable (res k) \<or> ended k \<or> waited (k + 1))"
  using do_tries_log [OF _ assms [unfolded do_request_def]]
  by (auto simp: attempts_or_default_def split: if_splits)

theorem do_request_retries_witness:
  "do_request 0 (\<lambda>_. False) (\<lambda>_. False) (\<lambda>i log. (if i < 2 then Inl (Failed ''503'') else Inl Not_Found, log @ [i])) []
     = (Inl Not_Found, [1, 2], 2)
   \<and> retryable (Inl (Failed ''503''))"
proof -
  have d: "do_request 0 (\<lambda>_. False) (\<lambda>_. False)
      (\<lambda>i log. (if i < 2 then Inl (Failed ''503'') else Inl Not_Found, log @ [i])) [] = (Inl Not_Found, [1, 2], 2)"
    by (simp add: do_request_def attempts_or_default_def numeral_eq_Suc)
  show ?thesis using do_request_retries [OF d] d by auto
qed

lemma download_file_result:
  assumes "download_file hash attempts waited ended fetches removed integrity path fs = (r, fs')"
    and "parse_integrity integrity = Inr (alg, want)"
  shows "(\<forall>hex. r = Inr hex \<longrightarrow> (\<exists>body. hash alg body = want \<and> hex = hex_encode (hash Sha512 body)
        \<and> fs' = fs(path @ ''.part'' := None, path \<mapsto> body)))
    \<and> (\<forall>e. r = Inl e \<longrightarrow> (\<forall>p. p \<noteq> path @ ''.part'' \<longrightarrow> fs' p = fs p)
        \<and> (removed \<longrightarrow> fs' (path @ ''.part'') = None))"
proof -
  obtain t s k where d: "do_request attempts waited ended (\<lambda>i. try_fetch (save_body hash alg want path) (fetches i))
      \<lparr>dl_files = fs, dl_digest = ''''\<rparr> = (t, s, k)"
    by (metis prod_cases3)
  then show ?thesis
    using download_tries [OF d] assms
    by (cases t) (auto simp: download_file_def saved_def untouched_def)
qed

text \<open>C39. A download never leaves a partial or corrupt file at its path. On success the path holds
  a body whose digest is the wanted one, the part file is gone, and the digest returned is the
  body's sha512. On failure every file but the part file is as before, and the part file is
  removed when the system lets it.\<close>

theorem download_file_safe:
  assumes "download_file hash attempts waited ended fetches removed integrity path fs = (r, fs')"
    and "parse_integrity integrity = Inr (alg, want)"
  shows "(\<forall>hex. r = Inr hex \<longrightarrow> (\<exists>body. hash alg body = want \<and> hex = hex_encode (hash Sha512 body)
        \<and> fs' = fs(path @ ''.part'' := None, path \<mapsto> body)))
    \<and> (\<forall>e. r = Inl e \<longrightarrow> (\<forall>p. p \<noteq> path @ ''.part'' \<longrightarrow> fs' p = fs p)
        \<and> (removed \<longrightarrow> fs' (path @ ''.part'') = None))"
  using assms by (rule download_file_result)

definition sample_fetch :: "nat \<Rightarrow> fetch" where
  "sample_fetch i = \<lparr>ft_reply = (if i = 1 then Reply 503 [] else Reply 200 ''tgz''),
     ft_create_err = None, ft_copy_err = None, ft_rename_err = None\<rparr>"

theorem download_file_safe_witness:
  "\<exists>hex fs'. download_file (\<lambda>_ _. replicate 20 (CHR 0x00)) 0 (\<lambda>_. False) (\<lambda>_. False) sample_fetch True
     ''sha1-AAAAAAAAAAAAAAAAAAAAAAAAAAA='' ''ms.tgz'' Map.empty = (Inr hex, fs') \<and> fs' ''ms.tgz'' \<noteq> None"
proof -
  have p: "parse_integrity ''sha1-AAAAAAAAAAAAAAAAAAAAAAAAAAA='' = Inr (Sha1, replicate 20 (CHR 0x00))"
    by code_simp
  obtain r fs' where d: "download_file (\<lambda>_ _. replicate 20 (CHR 0x00)) 0 (\<lambda>_. False) (\<lambda>_. False) sample_fetch True
     ''sha1-AAAAAAAAAAAAAAAAAAAAAAAAAAA='' ''ms.tgz'' Map.empty = (r, fs')"
    using prod.exhaust by blast
  moreover from d have "\<exists>hex. r = Inr hex"
    by (auto simp: download_file_def p do_request_def attempts_or_default_def numeral_eq_Suc
        try_fetch_def save_body_def sample_fetch_def Let_def)
  ultimately show ?thesis using download_file_safe [OF d p] by force
qed

end
