(* ===== verification/Rank_Findings.thy ===== *)
theory Rank_Findings
  imports Npm_Manifest
begin

text \<open>
  \<^verbatim>\<open>rank/findings.go\<close>: severities, the findings of a Trivy report, the index by package
  version, and the vectors that count distinct vulnerabilities by severity. The JSON decoder's
  report is an input. A severity is the Go \<^verbatim>\<open>int\<close> it is, so a corrupt value can be stated.
\<close>

subsection \<open>Severities\<close>

type_synonym severity = int

definition Critical :: severity where "Critical = 0"
definition High :: severity where "High = 1"
definition Medium :: severity where "Medium = 2"
definition Low :: severity where "Low = 3"
definition Unknown :: severity where "Unknown = 4"

lemmas severity_defs = Critical_def High_def Medium_def Low_def Unknown_def

text \<open>
  \<^verbatim>\<open>strings.ToUpper\<close> as far as a comparison with ASCII text can tell: ASCII letters, and the two
  letters outside ASCII whose upper case is in it, U+0131 (dotless i) and U+017F (long s).
\<close>

fun go_to_upper :: "string \<Rightarrow> string" where
  "go_to_upper (a # b # s) =
     (if a = CHR 0xC4 \<and> b = CHR 0xB1 then CHR ''I'' # go_to_upper s
      else if a = CHR 0xC5 \<and> b = CHR 0xBF then CHR ''S'' # go_to_upper s
      else upper_char a # go_to_upper (b # s))"
| "go_to_upper [a] = [upper_char a]"
| "go_to_upper [] = []"

definition parse_severity :: "string \<Rightarrow> severity" where
  "parse_severity s =
     (let u = go_to_upper s in
      if u = ''CRITICAL'' then Critical
      else if u = ''HIGH'' then High
      else if u = ''MEDIUM'' then Medium
      else if u = ''LOW'' then Low
      else Unknown)"

definition severity_names :: "string list" where
  "severity_names = [''critical'', ''high'', ''medium'', ''low'', ''unknown'']"

definition severity_string :: "severity \<Rightarrow> string" where
  "severity_string s = (if s < Critical \<or> Unknown < s then ''invalid'' else severity_names ! nat s)"

definition marshal_text :: "severity \<Rightarrow> string + string" where
  "marshal_text s = (if s < Critical \<or> Unknown < s then Inl ''rank: severity out of range''
     else Inr (go_to_upper (severity_names ! nat s)))"

subsection \<open>Findings\<close>

record finding =
  fd_id :: string
  fd_package :: string
  fd_version :: string
  fd_severity :: severity
  fd_fixed :: string
  fd_title :: string

record vulnerability =
  vu_id :: string
  vu_pkg :: string
  vu_installed :: string
  vu_fixed :: string
  vu_severity :: string
  vu_title :: string

record trivy_report =
  tr_schema :: int
  tr_results :: "vulnerability list list"

definition to_finding :: "vulnerability \<Rightarrow> finding" where
  "to_finding v = \<lparr>fd_id = vu_id v, fd_package = vu_pkg v, fd_version = vu_installed v,
     fd_severity = parse_severity (vu_severity v), fd_fixed = vu_fixed v, fd_title = vu_title v\<rparr>"

definition read_trivy :: "string + trivy_report \<Rightarrow> string + finding list" where
  "read_trivy decoded = (case decoded of
     Inl e \<Rightarrow> Inl (''read trivy report: '' @ e)
   | Inr r \<Rightarrow>
       if tr_schema r \<noteq> 2 then Inl ''read trivy report: schema version is not 2''
       else Inr (map to_finding (concat (tr_results r))))"

subsection \<open>The index and its sets\<close>

type_synonym index = "(string, finding list) gomap"

type_synonym finding_set = "(string, finding) gomap"

text \<open>Indexing a map of slices gives nil for an absent key.\<close>

definition ix_get :: "index \<Rightarrow> string \<Rightarrow> finding list" where
  "ix_get ix key = (case gm_get ix key of None \<Rightarrow> [] | Some fs \<Rightarrow> fs)"

definition finding_key :: "finding \<Rightarrow> string" where
  "finding_key f = fd_package f @ ''@'' @ fd_version f"

definition new_index :: "finding list \<Rightarrow> index" where
  "new_index findings = foldl (\<lambda>ix f. gm_put (finding_key f) (ix_get ix (finding_key f) @ [f]) ix) [] findings"

definition add_finding :: "finding_set \<Rightarrow> finding \<Rightarrow> finding_set" where
  "add_finding s f = (case gm_get s (fd_id f) of
     None \<Rightarrow> gm_put (fd_id f) f s
   | Some prev \<Rightarrow> if fd_severity f < fd_severity prev then gm_put (fd_id f) f s else s)"

definition finding_set :: "index \<Rightarrow> string list \<Rightarrow> finding_set" where
  "finding_set ix keys = foldl (\<lambda>s key. foldl add_finding s (ix_get ix key)) [] keys"

subsection \<open>Vectors\<close>

text \<open>A \<^verbatim>\<open>[5]int\<close>. None is the panic of an index outside the array.\<close>

type_synonym vector = "int list"

definition count_severity :: "vector option \<Rightarrow> string \<times> finding \<Rightarrow> vector option" where
  "count_severity v e = (case v of
     None \<Rightarrow> None
   | Some xs \<Rightarrow>
       let s = fd_severity (snd e) in
       if 0 \<le> s \<and> s < 5 then Some (xs[nat s := xs ! nat s + 1]) else None)"

definition vector_of :: "finding_set \<Rightarrow> vector option" where
  "vector_of s = foldl count_severity (Some [0, 0, 0, 0, 0]) s"

fun slices_compare :: "int list \<Rightarrow> int list \<Rightarrow> int" where
  "slices_compare [] [] = 0"
| "slices_compare [] (y # ys) = -1"
| "slices_compare (x # xs) [] = 1"
| "slices_compare (x # xs) (y # ys) = (if go_compare x y \<noteq> 0 then go_compare x y else slices_compare xs ys)"

definition vector_compare :: "vector \<Rightarrow> vector \<Rightarrow> int" where
  "vector_compare v w = slices_compare v w"

subsection \<open>Facts about severities and vectors\<close>

lemma severity_cases: "0 \<le> s \<Longrightarrow> s < 5 \<Longrightarrow> s = 0 \<or> s = 1 \<or> s = 2 \<or> s = 3 \<or> s = (4::int)"
  by linarith

lemma parse_severity_range: "0 \<le> parse_severity s \<and> parse_severity s < 5"
  by (simp add: parse_severity_def severity_defs Let_def)

lemma slices_compare_go: "slices_compare xs ys = go_compare xs ys"
  by (induction xs ys rule: slices_compare.induct) (auto simp: go_compare_def)

interpretation vec: comparator vector_compare
proof -
  have "vector_compare = go_compare"
    by (intro ext) (simp add: vector_compare_def slices_compare_go)
  then show "comparator vector_compare" using comparator_key [of "\<lambda>x. x"] by simp
qed

lemma vector_compare_iff [simp]:
  "vector_compare v w = 0 \<longleftrightarrow> v = w"
  "vector_compare v w < 0 \<longleftrightarrow> v < w"
  "vector_compare v w \<le> 0 \<longleftrightarrow> v \<le> w"
  "0 < vector_compare v w \<longleftrightarrow> w < v"
  "0 \<le> vector_compare v w \<longleftrightarrow> w \<le> v"
  by (simp_all add: vector_compare_def slices_compare_go)

text \<open>How often each severity occurs among the values of a map.\<close>

definition occurrences :: "finding_set \<Rightarrow> nat \<Rightarrow> nat" where
  "occurrences s k = length (filter (\<lambda>e. fd_severity (snd e) = int k) s)"

lemma vector_of_go:
  assumes "\<forall>e \<in> set s. 0 \<le> fd_severity (snd e) \<and> fd_severity (snd e) < 5" "length v = 5"
  shows "foldl count_severity (Some v) s = Some (map (\<lambda>k. v ! k + int (occurrences s k)) [0..<5])"
  using assms
proof (induction s arbitrary: v)
  case Nil
  then show ?case by (auto simp: occurrences_def intro!: nth_equalityI)
next
  case (Cons e s)
  let ?n = "nat (fd_severity (snd e))"
  let ?v = "v[?n := v ! ?n + 1]"
  have n: "?n < 5" "fd_severity (snd e) = int ?n" using Cons.prems by auto
  have "foldl count_severity (Some v) (e # s) = foldl count_severity (Some ?v) s"
    using Cons.prems by (simp add: count_severity_def Let_def)
  also have "\<dots> = Some (map (\<lambda>k. ?v ! k + int (occurrences s k)) [0..<5])"
    using Cons by simp
  also have "map (\<lambda>k. ?v ! k + int (occurrences s k)) [0..<5] = map (\<lambda>k. v ! k + int (occurrences (e # s) k)) [0..<5]"
    using n Cons.prems(2) by (auto simp: occurrences_def nth_list_update)
  finally show ?case .
qed

lemma vector_of_Some:
  assumes "\<forall>e \<in> set s. 0 \<le> fd_severity (snd e) \<and> fd_severity (snd e) < 5"
  shows "vector_of s = Some (map (\<lambda>k. int (occurrences s k)) [0..<5])"
  using vector_of_go [OF assms, of "[0, 0, 0, 0, 0]"]
  by (simp add: vector_of_def upt_rec numeral_eq_Suc)

subsection \<open>What the index and a set hold\<close>

lemma ix_get_put: "ix_get (gm_put k v ix) j = (if j = k then v else ix_get ix j)"
  by (simp add: ix_get_def)

lemma new_index_get: "ix_get (new_index fs) key = filter (\<lambda>f. finding_key f = key) fs"
proof -
  have "ix_get (foldl (\<lambda>ix f. gm_put (finding_key f) (ix_get ix (finding_key f) @ [f]) ix) ix fs) key
      = ix_get ix key @ filter (\<lambda>f. finding_key f = key) fs" for ix
    by (induction fs arbitrary: ix) (auto simp: ix_get_put)
  from this [of "[]"] show ?thesis by (simp add: new_index_def ix_get_def)
qed

lemma finding_set_flat: "finding_set ix keys = foldl add_finding [] (concat (map (ix_get ix) keys))"
proof -
  have "foldl (\<lambda>s key. foldl add_finding s (ix_get ix key)) s keys
      = foldl add_finding s (concat (map (ix_get ix) keys))" for s
    by (induction keys arbitrary: s) auto
  then show ?thesis by (simp add: finding_set_def)
qed

text \<open>The worst finding of an ID among those seen so far.\<close>

definition worst_of :: "finding list \<Rightarrow> string \<Rightarrow> finding option \<Rightarrow> bool" where
  "worst_of fs vid r \<longleftrightarrow> (case r of
     None \<Rightarrow> \<forall>f \<in> set fs. fd_id f \<noteq> vid
   | Some f \<Rightarrow> f \<in> set fs \<and> fd_id f = vid \<and> (\<forall>g \<in> set fs. fd_id g = vid \<longrightarrow> fd_severity f \<le> fd_severity g))"

lemma add_finding_worst:
  assumes "\<And>vid. worst_of fs vid (gm_get s vid)"
  shows "worst_of (fs @ [f]) vid (gm_get (add_finding s f) vid)"
  using assms [of vid] assms [of "fd_id f"]
  by (auto simp: worst_of_def add_finding_def split: option.splits) (meson less_imp_le order.trans)

lemma add_findings_worst: "gm_ok (foldl add_finding [] fs) \<and> worst_of fs vid (gm_get (foldl add_finding [] fs) vid)"
proof (induction fs arbitrary: vid rule: rev_induct)
  case Nil
  then show ?case by (simp add: worst_of_def)
next
  case (snoc f fs)
  have "gm_ok (add_finding s f)" if "gm_ok s" for s
    using that by (auto simp: add_finding_def split: option.splits)
  then have "gm_ok (add_finding (foldl add_finding [] fs) f)" using snoc by blast
  then show ?case using add_finding_worst [of fs "foldl add_finding [] fs" f vid] snoc by simp
qed

lemma finding_set_worst: "gm_ok (finding_set ix keys)"
  "worst_of (concat (map (ix_get ix) keys)) vid (gm_get (finding_set ix keys) vid)"
  using add_findings_worst [of "concat (map (ix_get ix) keys)"] by (auto simp: finding_set_flat)

lemma finding_set_id: "(vid, f) \<in> set (finding_set ix keys) \<Longrightarrow>
    fd_id f = vid \<and> f \<in> set (concat (map (ix_get ix) keys))"
  using finding_set_worst(2) [of ix keys vid] gm_get_Some_iff [OF finding_set_worst(1), of ix keys vid f]
  by (auto simp: worst_of_def)

text \<open>Two maps with the same keys and the same severities have the same vector.\<close>

lemma occurrences_card: "gm_ok s \<Longrightarrow>
    occurrences s k = card {vid. \<exists>f. gm_get s vid = Some f \<and> fd_severity f = int k}"
proof -
  assume ok: "gm_ok s"
  let ?xs = "filter (\<lambda>e. fd_severity (snd e) = int k) s"
  have "distinct (map fst ?xs)"
    using ok by (simp add: gm_ok_def distinct_map_filter)
  then have "length ?xs = card (set (map fst ?xs))" by (metis distinct_card length_map)
  moreover have "set (map fst ?xs) = {vid. \<exists>f. gm_get s vid = Some f \<and> fd_severity f = int k}"
    using gm_get_Some_iff [OF ok] by force
  ultimately show ?thesis by (simp add: occurrences_def)
qed

subsection \<open>Properties\<close>

text \<open>The set of a list of keys holds each vulnerability ID once, exactly the IDs of the findings
  the index has under the keys, each with a finding of its worst severity. Its vector counts
  those IDs by severity and depends only on which keys are listed, not on their order or
  repetition.\<close>

theorem finding_set_worst_severity:
  assumes "set keys' = set keys" and "\<forall>key \<in> set keys. \<forall>f \<in> set (ix_get ix key). 0 \<le> fd_severity f \<and> fd_severity f < 5"
  shows "gm_ok (finding_set ix keys)
    \<and> (\<forall>vid. gm_get (finding_set ix keys) vid = None \<longleftrightarrow> (\<forall>key \<in> set keys. \<forall>f \<in> set (ix_get ix key). fd_id f \<noteq> vid))
    \<and> (\<forall>vid f. gm_get (finding_set ix keys) vid = Some f \<longrightarrow> fd_id f = vid
        \<and> (\<exists>key \<in> set keys. f \<in> set (ix_get ix key))
        \<and> (\<forall>key \<in> set keys. \<forall>g \<in> set (ix_get ix key). fd_id g = vid \<longrightarrow> fd_severity f \<le> fd_severity g))
    \<and> vector_of (finding_set ix keys') = vector_of (finding_set ix keys)
    \<and> vector_of (finding_set ix keys) = Some (map (\<lambda>k. int (card
        {vid. \<exists>f. gm_get (finding_set ix keys) vid = Some f \<and> fd_severity f = int k})) [0..<5])"
proof -
  note ok = finding_set_worst(1) and worst = finding_set_worst(2)
  have range: "\<forall>e \<in> set (finding_set ix ks). 0 \<le> fd_severity (snd e) \<and> fd_severity (snd e) < 5"
    if "set ks = set keys" for ks
    using assms(2) that finding_set_id [of _ _ ix ks] by fastforce
  have sev: "(\<exists>f. gm_get (finding_set ix keys') vid = Some f \<and> fd_severity f = n)
      \<longleftrightarrow> (\<exists>f. gm_get (finding_set ix keys) vid = Some f \<and> fd_severity f = n)" for vid n
  proof -
    have same: "set (concat (map (ix_get ix) keys')) = set (concat (map (ix_get ix) keys))"
      using assms(1) by simp
    show ?thesis
      using worst [of ix keys vid] worst [of ix keys' vid] unfolding worst_of_def same
      by (fastforce split: option.splits)
  qed
  have vec: "vector_of (finding_set ix ks) = Some (map (\<lambda>k. int (card
      {vid. \<exists>f. gm_get (finding_set ix ks) vid = Some f \<and> fd_severity f = int k})) [0..<5])"
    if "set ks = set keys" for ks
    using vector_of_Some [OF range [OF that]] occurrences_card [OF ok] by simp
  show ?thesis
  proof (intro conjI allI impI)
    show "vector_of (finding_set ix keys') = vector_of (finding_set ix keys)"
      using vec [OF assms(1)] vec [OF refl] by (simp only: sev)
    fix vid
    show "gm_get (finding_set ix keys) vid = None \<longleftrightarrow> (\<forall>key \<in> set keys. \<forall>f \<in> set (ix_get ix key). fd_id f \<noteq> vid)"
      using worst [of ix keys vid] by (auto simp: worst_of_def split: option.splits)
    fix f assume "gm_get (finding_set ix keys) vid = Some f"
    then show "fd_id f = vid" "\<exists>key \<in> set keys. f \<in> set (ix_get ix key)"
        "\<forall>key \<in> set keys. \<forall>g \<in> set (ix_get ix key). fd_id g = vid \<longrightarrow> fd_severity f \<le> fd_severity g"
      using worst [of ix keys vid] by (auto simp: worst_of_def)
  qed (use ok vec [OF refl] in auto)
qed

definition sample_finding :: "string \<Rightarrow> string \<Rightarrow> severity \<Rightarrow> finding" where
  "sample_finding vid pkg sev = \<lparr>fd_id = vid, fd_package = pkg, fd_version = ''1.0.0'', fd_severity = sev,
     fd_fixed = '''', fd_title = ''''\<rparr>"

definition sample_index :: index where
  "sample_index = new_index [sample_finding ''CVE-1'' ''a'' 3, sample_finding ''CVE-1'' ''b'' 0,
     sample_finding ''CVE-2'' ''b'' 1]"

theorem finding_set_worst_severity_witness:
  "vector_of (finding_set sample_index [''b@1.0.0'', ''a@1.0.0'', ''b@1.0.0'']) = Some [1, 1, 0, 0, 0]"
proof -
  have v: "vector_of (finding_set sample_index [''a@1.0.0'', ''b@1.0.0'']) = Some [1, 1, 0, 0, 0]"
    by code_simp
  have "set [''b@1.0.0'', ''a@1.0.0'', ''b@1.0.0''] = set [''a@1.0.0'', ''b@1.0.0'']"
    by auto
  moreover have "\<forall>key \<in> set [''a@1.0.0'', ''b@1.0.0'']. \<forall>f \<in> set (ix_get sample_index key).
      0 \<le> fd_severity f \<and> fd_severity f < 5"
    by (simp add: sample_index_def new_index_get sample_finding_def)
  ultimately have "vector_of (finding_set sample_index [''b@1.0.0'', ''a@1.0.0'', ''b@1.0.0''])
      = vector_of (finding_set sample_index [''a@1.0.0'', ''b@1.0.0''])"
    by (rule conjunct1 [OF conjunct2 [OF conjunct2 [OF conjunct2 [OF finding_set_worst_severity]]]])
  then show ?thesis using v by (rule trans)
qed

text \<open>A severity of the scale survives marshalling and reading back; one outside it is
  refused by MarshalText and printed as \<^verbatim>\<open>invalid\<close>, never an index out of range.\<close>

theorem severity_roundtrip:
  "(case marshal_text s of
      Inr t \<Rightarrow> 0 \<le> s \<and> s < 5 \<and> parse_severity t = s \<and> parse_severity (severity_string s) = s
    | Inl e \<Rightarrow> (s < 0 \<or> 4 < s) \<and> severity_string s = ''invalid'')"
proof (cases "0 \<le> s \<and> s < 5")
  case True
  then consider "s = 0" | "s = 1" | "s = 2" | "s = 3" | "s = 4" using severity_cases by blast
  then show ?thesis by cases (hypsubst, code_simp)+
next
  case False
  then show ?thesis by (auto simp: marshal_text_def severity_string_def severity_defs)
qed

end
