(* ===== verification/Rank_Candidates.thy ===== *)
theory Rank_Candidates
  imports Semver_Api Rank_Findings
begin

text \<open>
  \<^verbatim>\<open>rank/candidates.go\<close>: the signals of a candidate version, the choice of the best one and of
  the key versions, and the difference between two vulnerability sets. A \<^verbatim>\<open>time.Time\<close> is its
  nanoseconds since the zero time, a \<^verbatim>\<open>time.Duration\<close> its nanoseconds in an int64.
\<close>

subsection \<open>Signals\<close>

datatype signal = Too_Recent | Node_Mismatch | Unresolvable | Deprecated
  | Install_Script_Added | Provenance_Lost | Publisher_Changed | Major_Jump

fun signal_name :: "signal \<Rightarrow> string" where
  "signal_name Too_Recent = ''too-recent''"
| "signal_name Node_Mismatch = ''node-mismatch''"
| "signal_name Unresolvable = ''does-not-resolve''"
| "signal_name Deprecated = ''deprecated''"
| "signal_name Install_Script_Added = ''install-script-added''"
| "signal_name Provenance_Lost = ''provenance-lost''"
| "signal_name Publisher_Changed = ''publisher-changed''"
| "signal_name Major_Jump = ''major-jump''"

definition blocking :: "signal \<Rightarrow> bool" where
  "blocking s \<longleftrightarrow> s = Too_Recent \<or> s = Node_Mismatch \<or> s = Unresolvable \<or> s = Deprecated"

type_synonym go_time = int

type_synonym duration = int

text \<open>\<^verbatim>\<open>Time.Sub\<close> saturates at the bounds of an int64.\<close>

definition time_sub :: "go_time \<Rightarrow> go_time \<Rightarrow> duration" where
  "time_sub a b = max (- (2 ^ 63)) (min (2 ^ 63 - 1) (a - b))"

text \<open>The evidence behind a hit: a text, or the publication time, age and minimum age the code
  prints in days.\<close>

datatype evidence = Text string | Age go_time duration duration

record hit =
  ht_signal :: signal
  ht_evidence :: evidence

record facts =
  fc_version :: string
  fc_published :: go_time
  fc_deprecated :: string
  fc_node_range :: string
  fc_node_compatible :: bool
  fc_resolves :: bool
  fc_install_script :: bool
  fc_provenance :: bool
  fc_publisher :: string

record policy =
  po_now :: go_time
  po_min_age :: duration
  po_target_node :: string

datatype jump = Same_Minor | Same_Major | Other_Major

fun jump_rank :: "jump \<Rightarrow> nat" where
  "jump_rank Same_Minor = 0"
| "jump_rank Same_Major = 1"
| "jump_rank Other_Major = 2"

instantiation jump :: linorder
begin

definition less_eq_jump :: "jump \<Rightarrow> jump \<Rightarrow> bool" where
  "less_eq_jump a b \<longleftrightarrow> jump_rank a \<le> jump_rank b"

definition less_jump :: "jump \<Rightarrow> jump \<Rightarrow> bool" where
  "less_jump a b \<longleftrightarrow> jump_rank a < jump_rank b"

instance
proof
  fix a b :: jump
  show "a \<le> b \<Longrightarrow> b \<le> a \<Longrightarrow> a = b"
    by (cases a; cases b) (auto simp: less_eq_jump_def)
qed (auto simp: less_eq_jump_def less_jump_def)

end

definition jump_of :: "'v semver \<Rightarrow> string \<Rightarrow> string \<Rightarrow> jump" where
  "jump_of sv from to = (case (sv_strict sv from, sv_strict sv to) of
     (Inr a, Inr b) \<Rightarrow>
       if sv_major sv a \<noteq> sv_major sv b then Other_Major
       else if sv_minor sv a \<noteq> sv_minor sv b then Same_Major
       else Same_Minor
   | _ \<Rightarrow> Other_Major)"

definition major_of :: "string \<Rightarrow> string" where
  "major_of version = (case cut CHR ''.'' version of (major, _, _) \<Rightarrow> major)"

definition hit_when :: "bool \<Rightarrow> signal \<Rightarrow> evidence \<Rightarrow> hit list" where
  "hit_when c s e = (if c then [\<lparr>ht_signal = s, ht_evidence = e\<rparr>] else [])"

definition signals :: "'v semver \<Rightarrow> facts \<Rightarrow> facts \<Rightarrow> policy \<Rightarrow> hit list" where
  "signals sv current candidate p =
     (let age = time_sub (po_now p) (fc_published candidate) in
      if fc_published candidate = 0
      then hit_when True Too_Recent (Text ''the registry lists no publication time'')
      else hit_when (age < po_min_age p) Too_Recent (Age (fc_published candidate) age (po_min_age p)))
     @ hit_when (\<not> fc_node_compatible candidate) Node_Mismatch
         (Text (''engines.node '' @ fc_node_range candidate @ '' excludes Node '' @ po_target_node p))
     @ hit_when (\<not> fc_resolves candidate) Unresolvable
         (Text ''pnpm could not resolve this version with the project's peer dependencies'')
     @ hit_when (fc_deprecated candidate \<noteq> '''') Deprecated (Text (fc_deprecated candidate))
     @ hit_when (fc_install_script candidate \<and> \<not> fc_install_script current) Install_Script_Added
         (Text (''runs an install script; '' @ fc_version current @ '' does not''))
     @ hit_when (fc_provenance current \<and> \<not> fc_provenance candidate) Provenance_Lost
         (Text (fc_version current @ '' has a provenance attestation; this version has none''))
     @ hit_when (fc_publisher candidate \<noteq> '''' \<and> fc_publisher current \<noteq> ''''
           \<and> fc_publisher candidate \<noteq> fc_publisher current) Publisher_Changed
         (Text (''published by '' @ fc_publisher candidate @ ''; '' @ fc_version current
           @ '' was published by '' @ fc_publisher current))
     @ hit_when (jump_of sv (fc_version current) (fc_version candidate) = Other_Major) Major_Jump
         (Text (''leaves major version '' @ major_of (fc_version current)))"

subsection \<open>The best candidate\<close>

record candidate =
  cd_version :: string
  cd_vector :: vector
  cd_hits :: "hit list"

definition blocked :: "candidate \<Rightarrow> bool" where
  "blocked c \<longleftrightarrow> list_ex (\<lambda>h. blocking (ht_signal h)) (cd_hits c)"

definition compare_versions :: "'v semver \<Rightarrow> string \<Rightarrow> string \<Rightarrow> int" where
  "compare_versions sv a b = (case (sv_strict sv a, sv_strict sv b) of
     (Inr va, Inr vb) \<Rightarrow> sv_compare sv va vb
   | _ \<Rightarrow> go_compare a b)"

definition cmp_candidate :: "'v semver \<Rightarrow> string \<Rightarrow> candidate \<Rightarrow> candidate \<Rightarrow> int" where
  "cmp_candidate sv current a b = cmp_or
     [vector_compare (cd_vector a) (cd_vector b),
      go_compare (jump_of sv current (cd_version a)) (jump_of sv current (cd_version b)),
      compare_versions sv (cd_version a) (cd_version b)]"

definition best :: "'v semver \<Rightarrow> string \<Rightarrow> vector \<Rightarrow> candidate list \<Rightarrow> candidate option" where
  "best sv current current_vector candidates =
     (case sort_func (cmp_candidate sv current) (filter (\<lambda>c. \<not> blocked c) candidates) of
        [] \<Rightarrow> None
      | c # _ \<Rightarrow> if 0 \<le> vector_compare (cd_vector c) current_vector then None else Some c)"

subsection \<open>Key versions\<close>

definition add_key :: "string \<Rightarrow> string list \<Rightarrow> string list" where
  "add_key v keys = (if v \<noteq> '''' \<and> v \<notin> set keys then keys @ [v] else keys)"

definition at_or_above :: "'v semver \<Rightarrow> 'v \<Rightarrow> string \<Rightarrow> bool" where
  "at_or_above sv fv v = (case sv_strict sv v of Inl e \<Rightarrow> False | Inr nv \<Rightarrow> \<not> sv_compare sv nv fv < 0)"

definition key_for_fix :: "'v semver \<Rightarrow> string list \<Rightarrow> string \<Rightarrow> string list \<Rightarrow> string list" where
  "key_for_fix sv newer f keys = (case sv_strict sv (trim_space f) of
     Inl e \<Rightarrow> keys
   | Inr fv \<Rightarrow> (case find (at_or_above sv fv) newer of None \<Rightarrow> keys | Some v \<Rightarrow> add_key v keys))"

text \<open>The loop that remembers the latest patch and the latest version in the current major.\<close>

definition latest_step :: "'v semver \<Rightarrow> string \<Rightarrow> string \<times> string \<Rightarrow> string \<Rightarrow> string \<times> string" where
  "latest_step sv current pm v = (case jump_of sv current v of
     Same_Minor \<Rightarrow> (v, v)
   | Same_Major \<Rightarrow> (fst pm, v)
   | Other_Major \<Rightarrow> pm)"

definition key_versions :: "'v semver \<Rightarrow> string \<Rightarrow> string list \<Rightarrow> string list \<Rightarrow> string list" where
  "key_versions sv current newer fixed =
     (let keys = fold (\<lambda>l. fold (key_for_fix sv newer) (split_char CHR '','' l)) fixed [];
          (patch, minor) = foldl (latest_step sv current) ('''', '''') newer;
          keys = add_key minor (add_key patch keys)
      in if newer \<noteq> [] then add_key (last newer) keys else keys)"

subsection \<open>The difference between two sets\<close>

datatype status = Fixed | Remaining | Introduced

record change =
  ch_finding :: finding
  ch_status :: status

definition diff_before :: "finding_set \<Rightarrow> string \<times> finding \<Rightarrow> change" where
  "diff_before after e = (case gm_get after (fst e) of
     Some a \<Rightarrow> \<lparr>ch_finding = a, ch_status = Remaining\<rparr>
   | None \<Rightarrow> \<lparr>ch_finding = snd e, ch_status = Fixed\<rparr>)"

definition cmp_change :: "change \<Rightarrow> change \<Rightarrow> int" where
  "cmp_change a b = go_compare (fd_id (ch_finding a)) (fd_id (ch_finding b))"

definition diff :: "finding_set \<Rightarrow> finding_set \<Rightarrow> change list" where
  "diff before after = sort_func cmp_change
     (map (diff_before after) before
      @ map (\<lambda>e. \<lparr>ch_finding = snd e, ch_status = Introduced\<rparr>) (filter (\<lambda>e. \<not> gm_has before (fst e)) after))"

subsection \<open>Comparing candidates\<close>

text \<open>
  \<open>compare_versions\<close> is not transitive when valid and invalid versions are mixed. On the
  candidates whose versions parse it agrees with a comparator, given any parsed version to
  stand for the strings that do not.
\<close>

definition parsed_or :: "'v semver \<Rightarrow> 'v \<Rightarrow> string \<Rightarrow> 'v" where
  "parsed_or sv d s = (case sv_strict sv s of Inr v \<Rightarrow> v | Inl e \<Rightarrow> d)"

lemma compare_versions_parsed:
  "sv_ok sv a \<Longrightarrow> sv_ok sv b \<Longrightarrow>
     compare_versions sv a b = sv_compare sv (parsed_or sv d a) (parsed_or sv d b)"
  by (auto simp: compare_versions_def parsed_or_def)

lemma comparator_on:
  assumes "comparator f"
  shows "comparator (\<lambda>x y. f (g x) (g y))"
proof (unfold_locales)
  fix x y z
  show "f (g x) (g x) = 0" by (rule comparator.cmp_refl [OF assms])
  show "f (g x) (g y) < 0 \<longleftrightarrow> 0 < f (g y) (g x)" by (rule comparator.cmp_flip [OF assms])
  show "f (g x) (g y) \<le> 0 \<Longrightarrow> f (g y) (g z) \<le> 0 \<Longrightarrow> f (g x) (g z) \<le> 0"
    by (rule comparator.cmp_trans [OF assms])
qed

lemma insert_by_cong:
  "(\<And>y. y \<in> set ys \<Longrightarrow> f x y = g x y) \<Longrightarrow> insert_by f x ys = insert_by g x ys"
  by (induction ys) auto

lemma sort_func_cong:
  "(\<And>x y. x \<in> set xs \<Longrightarrow> y \<in> set xs \<Longrightarrow> f x y = g x y) \<Longrightarrow> sort_func f xs = sort_func g xs"
proof (induction xs)
  case (Cons x xs)
  then have "sort_func f xs = sort_func g xs" by simp
  moreover have "insert_by f x (sort_func g xs) = insert_by g x (sort_func g xs)"
    by (rule insert_by_cong) (simp add: Cons.prems)
  ultimately show ?case by simp
qed simp

context semver_laws
begin

lemma candidates_sorted:
  assumes "\<forall>c \<in> set cs. sv_ok sv (cd_version c)"
  obtains cmp where "comparator cmp" "sort_func (cmp_candidate sv current) cs = sort_func cmp cs"
    "\<And>x y. x \<in> set cs \<Longrightarrow> y \<in> set cs \<Longrightarrow> cmp_candidate sv current x y = cmp x y"
proof (cases cs)
  case Nil
  then show ?thesis using that comparator_or_Nil by simp
next
  case (Cons c rest)
  then obtain d where "sv_strict sv (cd_version c) = Inr d" using assms by auto
  define cmp where "cmp = (\<lambda>(a::candidate) (b::candidate). cmp_or
     [vector_compare (cd_vector a) (cd_vector b),
      go_compare (jump_of sv current (cd_version a)) (jump_of sv current (cd_version b)),
      sv_compare sv (parsed_or sv d (cd_version a)) (parsed_or sv d (cd_version b))])"
  have "comparator cmp"
    unfolding cmp_def
    by (intro comparator_or_Cons comparator_or_Nil comparator_key
        comparator_on [OF vec.comparator_axioms, of cd_vector]
        comparator_on [OF compare, of "\<lambda>c. parsed_or sv d (cd_version c)"])
  moreover have same: "cmp_candidate sv current x y = cmp x y" if "x \<in> set cs" "y \<in> set cs" for x y
    using assms that compare_versions_parsed [of sv "cd_version x" "cd_version y" d]
    by (simp add: cmp_candidate_def cmp_def)
  moreover have "sort_func (cmp_candidate sv current) cs = sort_func cmp cs"
    by (rule sort_func_cong) (rule same)
  ultimately show ?thesis using that by blast
qed

lemma best_sorted_head:
  assumes "\<forall>c \<in> set cs. \<not> blocked c \<longrightarrow> sv_ok sv (cd_version c)"
    and "sort_func (cmp_candidate sv current) (filter (\<lambda>c. \<not> blocked c) cs) = c # rest"
  shows "c \<in> set cs \<and> \<not> blocked c
    \<and> (\<forall>o' \<in> set cs. \<not> blocked o' \<longrightarrow> cmp_candidate sv current c o' \<le> 0)"
proof -
  let ?open = "filter (\<lambda>c. \<not> blocked c) cs"
  have ok: "\<forall>c \<in> set ?open. sv_ok sv (cd_version c)" using assms(1) by simp
  obtain cmp where cmp: "comparator cmp" "sort_func (cmp_candidate sv current) ?open = sort_func cmp ?open"
    "\<And>x y. x \<in> set ?open \<Longrightarrow> y \<in> set ?open \<Longrightarrow> cmp_candidate sv current x y = cmp x y"
    using candidates_sorted [OF ok] by blast
  have "set (c # rest) = set ?open" using assms(2) set_sort_func by metis
  then have c: "c \<in> set ?open" by auto
  moreover have "sort_func cmp ?open = c # rest" using assms(2) cmp(2) by simp
  ultimately show ?thesis
    using comparator.sort_func_head [OF cmp(1)] cmp(3) by auto
qed

end

lemma cmp_candidate_vector: "cmp_candidate sv current a b \<le> 0 \<Longrightarrow> cd_vector a \<le> cd_vector b"
  by (auto simp: cmp_candidate_def split: if_splits)

subsection \<open>Key versions\<close>

lemma add_key_facts [simp]:
  "distinct (add_key v keys) = distinct keys"
  "set (add_key v keys) = (if v = '''' then set keys else insert v (set keys))"
  by (auto simp: add_key_def)

lemma latest_step_in:
  "foldl (latest_step sv current) pm vs = (p, m) \<Longrightarrow>
     (p = fst pm \<or> p \<in> set vs) \<and> (m = snd pm \<or> m \<in> set vs)"
  by (induction vs arbitrary: pm) (fastforce simp: latest_step_def split: jump.splits)+

lemma latest_patch:
  "foldl (latest_step sv current) pm vs = (p, m) \<Longrightarrow>
     p = last (fst pm # filter (\<lambda>v. jump_of sv current v = Same_Minor) vs)
     \<and> m = last (snd pm # filter (\<lambda>v. jump_of sv current v \<noteq> Other_Major) vs)"
proof (induction vs arbitrary: p m rule: rev_induct)
  case (snoc v vs)
  obtain p' m' where pm: "foldl (latest_step sv current) pm vs = (p', m')" by fastforce
  with snoc.prems have "latest_step sv current (p', m') v = (p, m)" by simp
  then show ?case using snoc.IH [OF pm] by (auto simp: latest_step_def split: jump.splits)
qed simp

definition fix_keys :: "'v semver \<Rightarrow> string list \<Rightarrow> string list \<Rightarrow> string list" where
  "fix_keys sv newer fixes = fold (key_for_fix sv newer) fixes []"

lemma fold_concat: "fold (\<lambda>l. fold f (g l)) ls s = fold f (concat (map g ls)) s"
  by (induction ls arbitrary: s) auto

lemma key_for_fix_facts:
  "distinct (key_for_fix sv newer f keys) = distinct keys"
  "set (key_for_fix sv newer f keys) \<subseteq> set newer \<union> set keys"
  "set keys \<subseteq> set (key_for_fix sv newer f keys)"
  by (auto simp: key_for_fix_def find_Some_iff split: sum.splits option.splits if_splits)

lemma fold_fix_facts:
  "distinct (fold (key_for_fix sv newer) fs keys) = distinct keys
   \<and> set (fold (key_for_fix sv newer) fs keys) \<subseteq> set newer \<union> set keys
   \<and> set keys \<subseteq> set (fold (key_for_fix sv newer) fs keys)"
proof (induction fs arbitrary: keys)
  case (Cons f fs)
  show ?case
    using Cons [of "key_for_fix sv newer f keys"]
      key_for_fix_facts [where sv = sv and newer = newer and f = f and keys = keys] by auto
qed simp

lemma key_versions_in: "distinct (key_versions sv current newer fixed) \<and> set (key_versions sv current newer fixed) \<subseteq> set newer"
proof -
  let ?keys = "fold (key_for_fix sv newer) (concat (map (split_char CHR '','') fixed)) []"
  obtain p m where pm: "foldl (latest_step sv current) ([], []) newer = (p, m)" by fastforce
  then have "key_versions sv current newer fixed
      = (if newer \<noteq> [] then add_key (last newer) (add_key m (add_key p ?keys)) else add_key m (add_key p ?keys))"
    by (simp add: key_versions_def Let_def fold_concat)
  moreover have "p = [] \<or> p \<in> set newer" "m = [] \<or> m \<in> set newer" using latest_step_in [OF pm] by auto
  ultimately show ?thesis
    using fold_fix_facts [of sv newer "concat (map (split_char CHR '','') fixed)" "[]"] by auto
qed

lemma fold_fix_has:
  assumes "f \<in> set fs" "sv_strict sv (trim_space f) = Inr fv" "find (at_or_above sv fv) newer = Some v" "v \<noteq> ''''"
  shows "v \<in> set (fold (key_for_fix sv newer) fs keys)"
  using assms(1)
proof (induction fs arbitrary: keys)
  case (Cons g fs)
  show ?case
  proof (cases "g = f")
    case True
    then have "v \<in> set (key_for_fix sv newer g keys)" using assms(2-4) by (simp add: key_for_fix_def)
    then show ?thesis using fold_fix_facts [of sv newer fs "key_for_fix sv newer g keys"] by auto
  next
    case False
    then show ?thesis using Cons by simp
  qed
qed simp

subsection \<open>The difference of two sets\<close>

text \<open>What the difference says of one vulnerability.\<close>

definition change_at :: "finding_set \<Rightarrow> finding_set \<Rightarrow> string \<Rightarrow> change option" where
  "change_at before after k = (case (gm_get before k, gm_get after k) of
     (Some x, None) \<Rightarrow> Some \<lparr>ch_finding = x, ch_status = Fixed\<rparr>
   | (Some x, Some y) \<Rightarrow> Some \<lparr>ch_finding = y, ch_status = Remaining\<rparr>
   | (None, Some y) \<Rightarrow> Some \<lparr>ch_finding = y, ch_status = Introduced\<rparr>
   | (None, None) \<Rightarrow> None)"

interpretation chg: comparator cmp_change
  unfolding cmp_change_def [abs_def] by (rule comparator_key)

lemma diff_perm:
  assumes "gm_ok before" "gm_ok after" "mset b = mset before" "mset a = mset after"
    and "\<forall>e \<in> set before \<union> set after. fd_id (snd e) = fst e"
  shows "diff b a = diff before after \<and> distinct (map (\<lambda>c. fd_id (ch_finding c)) (diff before after))"
proof -
  let ?all = "\<lambda>b a. map (diff_before a) b
      @ map (\<lambda>e. \<lparr>ch_finding = snd e, ch_status = Introduced\<rparr>) (filter (\<lambda>e. \<not> gm_has b (fst e)) a)"
  have get: "gm_get a = gm_get after" "gm_get b = gm_get before"
    using assms gm_get_perm [of after a] gm_get_perm [of before b] by simp_all
  then have "diff_before a = diff_before after" "gm_has b = gm_has before"
    by (auto simp: diff_before_def gm_has_def)
  then have all: "mset (?all before after) = mset (?all b a)"
    using assms(3,4) by simp
  have "fd_id (ch_finding (diff_before after e)) = fst e" if "e \<in> set before" for e
  proof (cases "gm_get after (fst e)")
    case None
    then show ?thesis using that assms(5) by (simp add: diff_before_def)
  next
    case (Some f)
    then have "(fst e, f) \<in> set after" using gm_get_Some_iff [OF assms(2)] by blast
    then have "fd_id f = fst e" using assms(5) by (metis Un_iff fst_conv snd_conv)
    then show ?thesis using Some by (simp add: diff_before_def)
  qed
  then have ids: "map (\<lambda>c. fd_id (ch_finding c)) (?all before after)
      = map fst before @ map fst (filter (\<lambda>e. \<not> gm_has before (fst e)) after)"
    using assms(5) by simp
  have "distinct (map (\<lambda>c. fd_id (ch_finding c)) (?all before after))"
    unfolding ids using assms(1,2)
    by (auto simp: gm_ok_def distinct_map_filter gm_has_def gm_get_None_iff) (force simp: image_iff)
  then have "inj_on (\<lambda>c. fd_id (ch_finding c)) (set (?all before after))"
    by (rule distinct_map [THEN iffD1, THEN conjunct2])
  then have "x = y" if "x \<in> set (?all before after)" "y \<in> set (?all before after)" "cmp_change x y = 0" for x y
    by (rule inj_onD) (use that in \<open>simp_all only: cmp_change_def go_compare_iff\<close>)
  then have "sort_func cmp_change (?all before after) = sort_func cmp_change (?all b a)"
    using all by (intro chg.sort_func_perm)
  moreover have "distinct (map (\<lambda>c. fd_id (ch_finding c)) (diff before after))"
    using \<open>distinct (map (\<lambda>c. fd_id (ch_finding c)) (?all before after))\<close> by (simp add: diff_def)
  ultimately show ?thesis by (simp add: diff_def)
qed

lemma diff_members:
  assumes "gm_ok before" "gm_ok after"
  shows "set (diff before after) = {c. \<exists>k. change_at before after k = Some c}"
proof -
  note get = gm_get_Some_iff [OF assms(1)] gm_get_Some_iff [OF assms(2)]
  have "set (diff before after) = diff_before after ` set before
      \<union> (\<lambda>e. \<lparr>ch_finding = snd e, ch_status = Introduced\<rparr>) ` {e \<in> set after. gm_get before (fst e) = None}"
    by (simp add: diff_def gm_has_def)
  also have "\<dots> = {c. \<exists>k. change_at before after k = Some c}" (is "?l = ?r")
  proof (intro set_eqI iffI)
    fix c assume "c \<in> ?l"
    then obtain k f where "(k, f) \<in> set before \<and> c = diff_before after (k, f)
        \<or> (k, f) \<in> set after \<and> gm_get before k = None \<and> c = \<lparr>ch_finding = f, ch_status = Introduced\<rparr>"
      by (force simp: image_iff)
    then have "change_at before after k = Some c"
      by (auto simp: diff_before_def change_at_def simp flip: get split: option.splits)
    then show "c \<in> ?r" by blast
  next
    fix c assume "c \<in> ?r"
    then obtain k where "change_at before after k = Some c" by blast
    then show "c \<in> ?l"
      using get [of k] by (force simp: change_at_def diff_before_def image_iff split: option.splits)
  qed
  finally show ?thesis .
qed

lemma best_cases:
  assumes "semver_laws sv" "\<forall>c \<in> set cs. \<not> blocked c \<longrightarrow> sv_ok sv (cd_version c)"
  shows "(\<exists>c. c \<in> set cs \<and> \<not> blocked c \<and> (\<forall>o' \<in> set cs. \<not> blocked o' \<longrightarrow> cmp_candidate sv current c o' \<le> 0)
      \<and> best sv current v cs = (if cd_vector c < v then Some c else None))
    \<or> (\<forall>c \<in> set cs. blocked c) \<and> best sv current v cs = None"
proof (cases "sort_func (cmp_candidate sv current) (filter (\<lambda>c. \<not> blocked c) cs)")
  case Nil
  then show ?thesis by (auto simp: best_def filter_empty_conv)
next
  case (Cons c rest)
  then show ?thesis
    using semver_laws.best_sorted_head [OF assms Cons]
    by (intro disjI1 exI [of _ c]) (simp add: best_def linorder_not_less)
qed

lemma at_or_above_first:
  assumes "semver_laws sv" "find (at_or_above sv fv) newer = Some v"
    and "sorted_wrt (\<lambda>s t. \<forall>v w. sv_strict sv s = Inr v \<longrightarrow> sv_strict sv t = Inr w \<longrightarrow> sv_compare sv v w \<le> 0) newer"
    and "w \<in> set newer" "at_or_above sv fv w"
  shows "compare_versions sv v w \<le> 0"
proof -
  obtain i where i: "i < length newer" "newer ! i = v" "at_or_above sv fv v"
      "\<forall>j < i. \<not> at_or_above sv fv (newer ! j)"
    using assms(2) by (auto simp: find_Some_iff)
  obtain k where k: "k < length newer" "newer ! k = w" using assms(4) by (auto simp: in_set_conv_nth)
  with i assms(5) have "i \<le> k" by (meson linorder_not_less)
  obtain a b where ab: "sv_strict sv v = Inr a" "sv_strict sv w = Inr b"
    using i(3) assms(5) by (auto simp: at_or_above_def split: sum.splits)
  have "sv_compare sv a b \<le> 0"
  proof (cases "i = k")
    case True
    then show ?thesis
      using i k ab comparator.cmp_refl [OF semver_laws.compare [OF assms(1)]] by simp
  next
    case False
    then have "i < k" using \<open>i \<le> k\<close> by simp
    from sorted_wrt_nth_less [OF assms(3) this k(1)] show ?thesis using i k ab by blast
  qed
  then show ?thesis using ab by (simp add: compare_versions_def)
qed

text \<open>The hits of a list of conditions.\<close>

definition hits_of :: "(bool \<times> signal \<times> evidence) list \<Rightarrow> hit list" where
  "hits_of cs = concat (map (\<lambda>(c, s, e). hit_when c s e) cs)"

lemma hits_of_signals: "map ht_signal (hits_of cs) = map (\<lambda>c. fst (snd c)) (filter fst cs)"
  by (induction cs) (auto simp: hits_of_def hit_when_def)

lemma hits_of_append: "hits_of (xs @ ys) = hits_of xs @ hits_of ys"
  by (simp add: hits_of_def)

lemma signals_hits: "\<exists>e1 e2 e3 e4 e5 e6 e7 e8. signals sv current c p = hits_of
  ([(fc_published c = 0 \<or> time_sub (po_now p) (fc_published c) < po_min_age p, Too_Recent, e1),
    (\<not> fc_node_compatible c, Node_Mismatch, e2), (\<not> fc_resolves c, Unresolvable, e3),
    (fc_deprecated c \<noteq> '''', Deprecated, e4)]
   @ [(fc_install_script c \<and> \<not> fc_install_script current, Install_Script_Added, e5),
    (fc_provenance current \<and> \<not> fc_provenance c, Provenance_Lost, e6),
    (fc_publisher c \<noteq> '''' \<and> fc_publisher current \<noteq> '''' \<and> fc_publisher c \<noteq> fc_publisher current, Publisher_Changed, e7),
    (jump_of sv (fc_version current) (fc_version c) = Other_Major, Major_Jump, e8)])"
proof -
  have first: "\<exists>e1. (let age = time_sub (po_now p) (fc_published c) in
      if fc_published c = 0
      then hit_when True Too_Recent (Text ''the registry lists no publication time'')
      else hit_when (age < po_min_age p) Too_Recent (Age (fc_published c) age (po_min_age p)))
    = hit_when (fc_published c = 0 \<or> time_sub (po_now p) (fc_published c) < po_min_age p) Too_Recent e1"
    by (auto simp: Let_def hit_when_def)
  then obtain e1 where e1: "(let age = time_sub (po_now p) (fc_published c) in
      if fc_published c = 0
      then hit_when True Too_Recent (Text ''the registry lists no publication time'')
      else hit_when (age < po_min_age p) Too_Recent (Age (fc_published c) age (po_min_age p)))
    = hit_when (fc_published c = 0 \<or> time_sub (po_now p) (fc_published c) < po_min_age p) Too_Recent e1"
    by blast
  show ?thesis
    unfolding signals_def hits_of_def e1
    by (simp only: list.map concat.simps prod.case append.simps append_assoc append_Nil2) (intro exI, rule refl)
qed

subsection \<open>Properties\<close>

text \<open>C4. Best never proposes a blocked version or one that is not strictly better than the current
  one. What it returns has the lowest vector of all unblocked candidates, among those the
  smallest jump, and among those the lowest version; it returns nothing exactly when no
  unblocked candidate improves on the current vector.\<close>

theorem best_is_minimal:
  assumes "semver_laws sv" and "\<forall>c \<in> set cs. \<not> blocked c \<longrightarrow> sv_ok sv (cd_version c)"
  shows "case best sv current v cs of
      None \<Rightarrow> \<forall>c \<in> set cs. blocked c \<or> v \<le> cd_vector c
    | Some c \<Rightarrow> c \<in> set cs \<and> \<not> blocked c \<and> cd_vector c < v
        \<and> (\<forall>o' \<in> set cs. \<not> blocked o' \<longrightarrow> cd_vector c \<le> cd_vector o'
            \<and> (cd_vector o' = cd_vector c \<longrightarrow>
                jump_of sv current (cd_version c) \<le> jump_of sv current (cd_version o')
                \<and> (jump_of sv current (cd_version o') = jump_of sv current (cd_version c) \<longrightarrow>
                    compare_versions sv (cd_version c) (cd_version o') \<le> 0)))"
proof -
  have less: "cd_vector c \<le> cd_vector o' \<and> (cd_vector o' = cd_vector c \<longrightarrow>
                jump_of sv current (cd_version c) \<le> jump_of sv current (cd_version o')
                \<and> (jump_of sv current (cd_version o') = jump_of sv current (cd_version c) \<longrightarrow>
                    compare_versions sv (cd_version c) (cd_version o') \<le> 0))"
    if "cmp_candidate sv current c o' \<le> 0" for c o'
    using that by (auto simp: cmp_candidate_def split: if_splits)
  from best_cases [OF assms, of current v] show ?thesis
  proof (elim disjE exE conjE)
    fix c assume c: "c \<in> set cs" "\<not> blocked c" "\<forall>o' \<in> set cs. \<not> blocked o' \<longrightarrow> cmp_candidate sv current c o' \<le> 0"
      "best sv current v cs = (if cd_vector c < v then Some c else None)"
    show ?thesis
    proof (cases "cd_vector c < v")
      case True
      then show ?thesis using c less by simp
    next
      case False
      then have "v \<le> cd_vector c" by simp
      moreover have "\<forall>o' \<in> set cs. \<not> blocked o' \<longrightarrow> cd_vector c \<le> cd_vector o'" using c(3) less by blast
      ultimately have "\<forall>o' \<in> set cs. blocked o' \<or> v \<le> cd_vector o'" using order_trans by blast
      then show ?thesis using False c(4) by simp
    qed
  qed simp
qed

definition sample_candidates :: "candidate list" where
  "sample_candidates =
     [\<lparr>cd_version = ''2.0.0'', cd_vector = [0, 0, 0, 0, 0], cd_hits = []\<rparr>,
      \<lparr>cd_version = ''1.3.0'', cd_vector = [0, 0, 0, 0, 0], cd_hits = []\<rparr>,
      \<lparr>cd_version = ''1.2.4'', cd_vector = [0, 0, 0, 0, 0],
       cd_hits = [\<lparr>ht_signal = Deprecated, ht_evidence = Text ''use 2''\<rparr>]\<rparr>]"

theorem best_is_minimal_witness:
  "\<exists>c. best semver_spec ''1.2.3'' [1, 0, 0, 0, 0] sample_candidates = Some c \<and> cd_version c = ''1.3.0''
     \<and> \<not> blocked c \<and> cd_vector c < [1, 0, 0, 0, 0]"
proof -
  let ?best = "best semver_spec ''1.2.3'' [1, 0, 0, 0, 0] sample_candidates"
  have b: "?best = Some \<lparr>cd_version = ''1.3.0'', cd_vector = [0, 0, 0, 0, 0], cd_hits = []\<rparr>"
    by code_simp
  have "\<forall>c \<in> set sample_candidates. \<not> blocked c \<longrightarrow>
      \<not> isl (sv_strict semver_spec (cd_version c))"
    by code_simp
  then have "\<forall>c \<in> set sample_candidates. \<not> blocked c \<longrightarrow> sv_ok semver_spec (cd_version c)"
    by (simp only: sv_ok_iff)
  from best_is_minimal [OF spec.semver_laws_axioms this, where current = "''1.2.3''" and v = "[1, 0, 0, 0, 0]"]
  show ?thesis unfolding b by simp
qed

text \<open>The key versions are distinct and come from the newer versions. They include, for each
  fixed version that parses, the lowest newer version at or above it, then the latest patch of
  the current minor, the latest version of the current major and the latest overall.\<close>

theorem key_versions_complete:
  assumes "semver_laws sv" and "'''' \<notin> set newer"
    and "sorted_wrt (\<lambda>s t. \<forall>v w. sv_strict sv s = Inr v \<longrightarrow> sv_strict sv t = Inr w \<longrightarrow> sv_compare sv v w \<le> 0) newer"
  shows "distinct (key_versions sv current newer fixed)
    \<and> set (key_versions sv current newer fixed) \<subseteq> set newer
    \<and> (newer \<noteq> [] \<longrightarrow> last newer \<in> set (key_versions sv current newer fixed))
    \<and> (\<forall>js \<in> {{Same_Minor}, {Same_Minor, Same_Major}}. \<forall>vs v. filter (\<lambda>v. jump_of sv current v \<in> js) newer = vs @ [v]
         \<longrightarrow> v \<in> set (key_versions sv current newer fixed))
    \<and> (\<forall>l \<in> set fixed. \<forall>f \<in> set (split_char CHR '','' l). \<forall>fv. sv_strict sv (trim_space f) = Inr fv \<longrightarrow>
         (\<exists>v \<in> set newer. at_or_above sv fv v) \<longrightarrow>
         (\<exists>v \<in> set (key_versions sv current newer fixed). at_or_above sv fv v
            \<and> (\<forall>w \<in> set newer. at_or_above sv fv w \<longrightarrow> compare_versions sv v w \<le> 0)))"
proof -
  let ?fs = "concat (map (split_char CHR '','') fixed)"
  let ?keys = "fold (key_for_fix sv newer) ?fs []"
  obtain p m where pm: "foldl (latest_step sv current) ('''', '''') newer = (p, m)" by fastforce
  define out where "out = key_versions sv current newer fixed"
  have out: "out = (if newer \<noteq> [] then add_key (last newer) (add_key m (add_key p ?keys)) else add_key m (add_key p ?keys))"
    by (simp add: out_def key_versions_def pm Let_def fold_concat)
  have js: "jump_of sv current v \<in> {Same_Minor, Same_Major} \<longleftrightarrow> jump_of sv current v \<noteq> Other_Major" for v
    by (cases "jump_of sv current v") auto
  have pm_in: "p = '''' \<or> p \<in> set newer" "m = '''' \<or> m \<in> set newer"
    using latest_step_in [OF pm] by auto
  have out_has: "set ?keys \<subseteq> set out" by (auto simp: out)
  show ?thesis
    unfolding out_def [symmetric]
  proof (intro conjI ballI allI impI)
    show "distinct out" using fold_fix_facts [of sv newer ?fs "[]"] by (metis add_key_facts(1) distinct.simps(1) out)
    show "set out \<subseteq> set newer"
      using fold_fix_facts [of sv newer ?fs "[]"] pm_in by (auto simp: out)
    assume ne: "newer \<noteq> []"
    then have "last newer \<noteq> ''''" using assms(2) last_in_set by metis
    then show "last newer \<in> set out" using ne by (simp add: out)
  next
    fix J vs v assume J: "J \<in> {{Same_Minor}, {Same_Minor, Same_Major}}"
      and last: "filter (\<lambda>v. jump_of sv current v \<in> J) newer = vs @ [v]"
    then have "v \<in> set (filter (\<lambda>v. jump_of sv current v \<in> J) newer)" by simp
    then have "v \<in> set newer" by simp
    then have "v \<noteq> ''''" using assms(2) by blast
    moreover have "v = p \<or> v = m"
      using J last latest_patch [OF pm] js by (auto simp: last_ConsR)
    ultimately show "v \<in> set out" by (auto simp: out)
  next
    fix l f fv assume "l \<in> set fixed" "f \<in> set (split_char CHR '','' l)"
      and fv: "sv_strict sv (trim_space f) = Inr fv" and ex: "\<exists>v \<in> set newer. at_or_above sv fv v"
    then have f: "f \<in> set ?fs" by auto
    from ex obtain v where v: "find (at_or_above sv fv) newer = Some v"
      by (metis find_None_iff not_Some_eq)
    then have "v \<in> set newer" "at_or_above sv fv v" by (auto simp: find_Some_iff)
    moreover from this(1) have "v \<noteq> ''''" using assms(2) by blast
    ultimately show "\<exists>v \<in> set out. at_or_above sv fv v
        \<and> (\<forall>w \<in> set newer. at_or_above sv fv w \<longrightarrow> compare_versions sv v w \<le> 0)"
      using fold_fix_has [OF f fv v] at_or_above_first [OF assms(1) v assms(3)] out_has by blast
  qed
qed

theorem key_versions_complete_witness:
  "distinct (key_versions semver_spec ''1.2.3'' [''1.2.4'', ''1.3.0'', ''2.0.0''] [''1.2.4, 1.9.0''])
   \<and> ''2.0.0'' \<in> set (key_versions semver_spec ''1.2.3'' [''1.2.4'', ''1.3.0'', ''2.0.0''] [''1.2.4, 1.9.0''])"
proof -
  have p: "strict_version ''1.2.4'' = Inr \<lparr>vn_major = 1, vn_minor = 2, vn_patch = 4, vn_pre = '''', vn_original = ''1.2.4''\<rparr>"
      "strict_version ''1.3.0'' = Inr \<lparr>vn_major = 1, vn_minor = 3, vn_patch = 0, vn_pre = '''', vn_original = ''1.3.0''\<rparr>"
      "strict_version ''2.0.0'' = Inr \<lparr>vn_major = 2, vn_minor = 0, vn_patch = 0, vn_pre = '''', vn_original = ''2.0.0''\<rparr>"
    by code_simp+
  have "sorted_wrt (\<lambda>s t. \<forall>v w. sv_strict semver_spec s = Inr v \<longrightarrow> sv_strict semver_spec t = Inr w
      \<longrightarrow> sv_compare semver_spec v w \<le> 0) [''1.2.4'', ''1.3.0'', ''2.0.0'']"
    by (auto simp: semver_spec_def p version_key_def)
  from key_versions_complete [OF spec.semver_laws_axioms _ this, of "''1.2.3''" "[''1.2.4, 1.9.0'']"]
  show ?thesis by simp
qed

text \<open>The difference of two sets lists every vulnerability of either exactly once, strictly
  ascending by ID and independent of map order: fixed when only the set before holds it,
  introduced when only the set after does, and otherwise remaining with the finding after.\<close>

theorem diff_partition:
  assumes "gm_ok before" "gm_ok after" and "\<forall>e \<in> set before \<union> set after. fd_id (snd e) = fst e"
    and "mset b = mset before" "mset a = mset after"
  shows "diff b a = diff before after
    \<and> sorted_wrt (<) (map (\<lambda>c. fd_id (ch_finding c)) (diff before after))
    \<and> set (diff before after) = {c. \<exists>k. change_at before after k = Some c}"
proof (intro conjI)
  note d = diff_perm [OF assms(1,2,4,5,3)]
  show "diff b a = diff before after" using d by blast
  have "sorted_wrt (\<le>) (map (\<lambda>c. fd_id (ch_finding c)) (diff before after))"
    using chg.sorted_sort_func by (simp add: diff_def sorted_wrt_map cmp_change_def)
  with d show "sorted_wrt (<) (map (\<lambda>c. fd_id (ch_finding c)) (diff before after))"
    by (simp add: strict_sorted_iff)
  show "set (diff before after) = {c. \<exists>k. change_at before after k = Some c}"
    by (rule diff_members [OF assms(1,2)])
qed

theorem diff_partition_witness:
  "diff [(''CVE-2'', sample_finding ''CVE-2'' ''b'' 1), (''CVE-1'', sample_finding ''CVE-1'' ''a'' 0)]
        [(''CVE-2'', sample_finding ''CVE-2'' ''b'' 2)]
   = diff [(''CVE-1'', sample_finding ''CVE-1'' ''a'' 0), (''CVE-2'', sample_finding ''CVE-2'' ''b'' 1)]
        [(''CVE-2'', sample_finding ''CVE-2'' ''b'' 2)]"
  by (rule conjunct1 [OF diff_partition]) (auto simp: gm_ok_def sample_finding_def)

text \<open>Signals come blocking ones first, each at most once, and a candidate is blocked exactly
  when it has no publication time or is younger than the minimum age, excludes the target Node,
  does not resolve, or is deprecated.\<close>

theorem signals_blocking_first:
  "distinct (map ht_signal (signals sv current c p))
    \<and> (\<exists>xs ys. signals sv current c p = xs @ ys \<and> (\<forall>h \<in> set xs. blocking (ht_signal h))
        \<and> (\<forall>h \<in> set ys. \<not> blocking (ht_signal h)))
    \<and> (list_ex (\<lambda>h. blocking (ht_signal h)) (signals sv current c p) \<longleftrightarrow>
        fc_published c = 0 \<or> time_sub (po_now p) (fc_published c) < po_min_age p
        \<or> \<not> fc_node_compatible c \<or> \<not> fc_resolves c \<or> fc_deprecated c \<noteq> '''')"
proof -
  obtain bs os where h: "signals sv current c p = hits_of (bs @ os)"
    and bs: "map (\<lambda>c. fst (snd c)) bs = [Too_Recent, Node_Mismatch, Unresolvable, Deprecated]"
      "map fst bs = [fc_published c = 0 \<or> time_sub (po_now p) (fc_published c) < po_min_age p,
         \<not> fc_node_compatible c, \<not> fc_resolves c, fc_deprecated c \<noteq> '''']"
    and os: "map (\<lambda>c. fst (snd c)) os = [Install_Script_Added, Provenance_Lost, Publisher_Changed, Major_Jump]"
    using signals_hits [of sv current c p] by fastforce
  have sub: "ht_signal h \<in> set (map (\<lambda>c. fst (snd c)) cs)" if "h \<in> set (hits_of cs)" for h cs
    using that hits_of_signals [of cs] by (metis (no_types, lifting) filter_is_subset image_eqI list.set_map subset_image_iff subset_iff)
  have b: "\<forall>h \<in> set (hits_of bs). blocking (ht_signal h)"
    using sub [of _ bs] unfolding bs by (auto simp: blocking_def)
  have o': "\<forall>h \<in> set (hits_of os). \<not> blocking (ht_signal h)"
    using sub [of _ os] unfolding os by (fastforce simp: blocking_def)
  have "list_ex (\<lambda>h. blocking (ht_signal h)) (signals sv current c p) \<longleftrightarrow> hits_of bs \<noteq> []"
    unfolding h hits_of_append using b o' by (cases "hits_of bs") (auto simp: list_ex_iff)
  also have "\<dots> \<longleftrightarrow> filter fst bs \<noteq> []" using hits_of_signals [of bs] by (metis map_is_Nil_conv)
  also have "\<dots> \<longleftrightarrow> True \<in> set (map fst bs)" by (auto simp: filter_empty_conv)
  finally have "list_ex (\<lambda>h. blocking (ht_signal h)) (signals sv current c p) \<longleftrightarrow> True \<in> set (map fst bs)" .
  moreover have "distinct (map ht_signal (signals sv current c p))"
    unfolding h hits_of_signals by (rule distinct_map_filter) (simp only: map_append bs os, simp)
  ultimately show ?thesis
    using b o' h hits_of_append by (auto simp: bs(2))
qed

definition sample_facts :: facts where
  "sample_facts = \<lparr>fc_version = ''1.2.3'', fc_published = 5, fc_deprecated = '''', fc_node_range = '''',
     fc_node_compatible = True, fc_resolves = True, fc_install_script = False, fc_provenance = False, fc_publisher = ''''\<rparr>"

theorem signals_blocking_first_witness:
  "list_ex (\<lambda>h. blocking (ht_signal h)) (signals semver_spec sample_facts
     (sample_facts\<lparr>fc_published := 0\<rparr>) \<lparr>po_now = 9, po_min_age = 3, po_target_node = ''22.0.0''\<rparr>)"
  using signals_blocking_first [of semver_spec sample_facts "sample_facts\<lparr>fc_published := 0\<rparr>"
    "\<lparr>po_now = 9, po_min_age = 3, po_target_node = ''22.0.0''\<rparr>"]
  by (simp add: sample_facts_def)

end
