(* ===== verification/Archive_Manifest.thy ===== *)
theory Archive_Manifest
  imports Npm_Registry
begin

text \<open>
  \<^verbatim>\<open>archive/manifest.go\<close>: the checks of an export's \<^verbatim>\<open>manifest.json\<close> at the import. The JSON
  decoder's document is the input of \<open>check_manifest\<close>. What the standard library knows of
  Unicode, of RFC 3339 and of quoting is the record \<open>text_api\<close>. A refusal is its reason.
\<close>

subsection \<open>Data\<close>

record text_api =
  tx_printable :: "string \<Rightarrow> bool"
  tx_rfc3339 :: "string \<Rightarrow> bool"
  tx_quote :: "string \<Rightarrow> string"

record raw_target =
  rt_os :: string
  rt_cpu :: string
  rt_libc :: "string option"
  rt_node :: string
  rt_pnpm :: string

record raw_archive =
  ra_sha256 :: string
  ra_size :: "int option"

record raw_entry =
  re_name :: string
  re_version :: string
  re_file :: string
  re_integrity :: string
  re_sha512 :: string
  re_stripped :: "bool option"

record raw_document =
  rd_format :: "int option"
  rd_tool :: string
  rd_analysis :: string
  rd_created :: string
  rd_target :: "raw_target option"
  rd_archive :: "raw_archive option"
  rd_packages :: "raw_entry list"

record target =
  tg_os :: string
  tg_cpu :: string
  tg_libc :: string
  tg_node :: string
  tg_pnpm :: string

record package =
  pk_name :: string
  pk_version :: string
  pk_file :: string
  pk_integrity :: string
  pk_sha512 :: string
  pk_stripped :: bool

record archive_manifest =
  am_tool :: string
  am_analysis :: string
  am_created :: string
  am_target :: target
  am_sha256 :: string
  am_size :: int
  am_packages :: "package list"

subsection \<open>Patterns and bounds\<close>

definition max_text_bytes :: nat where "max_text_bytes = 256"
definition max_version_bytes :: nat where "max_version_bytes = 256"
definition max_integrity_bytes :: nat where "max_integrity_bytes = 4096"
definition max_file_name_bytes :: nat where "max_file_name_bytes = 255"

definition file_head :: "char \<Rightarrow> bool" where
  "file_head c \<longleftrightarrow> is_alnum c \<or> c = CHR ''_''"

definition file_char :: "char \<Rightarrow> bool" where
  "file_char c \<longleftrightarrow> is_alnum c \<or> c \<in> {CHR ''.'', CHR ''_'', CHR ''~'', CHR ''+'', CHR ''-''}"

definition package_file :: rx where
  "package_file = rx_seqs [Cls file_head, Star (Cls file_char),
     rx_chr CHR ''.'', rx_chr CHR ''t'', rx_chr CHR ''g'', rx_chr CHR ''z'']"

definition hex_sha256 :: rx where "hex_sha256 = rx_times (Cls is_hex) 64"
definition hex_sha512 :: rx where "hex_sha512 = rx_times (Cls is_hex) 128"

subsection \<open>The checks\<close>

definition check_text :: "text_api \<Rightarrow> string \<times> string \<Rightarrow> string + unit" where
  "check_text tx f = (case f of (name, val) \<Rightarrow>
     if max_text_bytes < length val then Inl (name @ '' is longer than 256 bytes'')
     else if \<not> tx_printable tx val then Inl (name @ '' holds a control or unprintable character'')
     else Inr ())"

definition check_present :: "string \<times> bool \<Rightarrow> string + unit" where
  "check_present f = guard_err (snd f) (fst f @ '' is missing'')"

definition package_field :: "nat \<Rightarrow> string \<Rightarrow> string" where
  "package_field i field = ''packages['' @ show_nat i @ ''].'' @ field"

definition check_package :: "text_api \<Rightarrow> nat \<Rightarrow> raw_entry \<Rightarrow> string + package" where
  "check_package tx i p =
     (let at = package_field i in
      try_bind (check_each check_present
        [(at ''name'', re_name p \<noteq> ''''), (at ''version'', re_version p \<noteq> ''''), (at ''file'', re_file p \<noteq> ''''),
         (at ''originalIntegrity'', re_integrity p \<noteq> ''''), (at ''shippedSha512'', re_sha512 p \<noteq> '''')]) (\<lambda>_.
      case re_stripped p of
        None \<Rightarrow> Inl (at ''publishConfigStripped'' @ '' is missing'')
      | Some stripped \<Rightarrow>
          if max_file_name_bytes < length (re_file p) \<or> \<not> rx_match package_file (re_file p)
          then Inl (at ''file'' @ '' is not a plain file name ending in .tgz: '' @ tx_quote tx (re_file p))
          else if \<not> valid_name (re_name p)
          then Inl (at ''name'' @ '' is not a valid package name: '' @ tx_quote tx (re_name p))
          else if max_version_bytes < length (re_version p)
          then Inl (at ''version'' @ '' is longer than 256 bytes'')
          else if max_integrity_bytes < length (re_integrity p)
          then Inl (at ''originalIntegrity'' @ '' is longer than 4096 bytes'')
          else if \<not> is_exact_version (re_version p)
          then Inl (at ''version'' @ '' is not an exact version: '' @ tx_quote tx (re_version p))
          else if \<not> rx_match hex_sha512 (re_sha512 p)
          then Inl (at ''shippedSha512'' @ '' is not a lowercase hex sha512'')
          else (case parse_integrity (re_integrity p) of
            Inl _ \<Rightarrow> Inl (at ''originalIntegrity'' @ '' is not a usable integrity string'')
          | Inr _ \<Rightarrow> Inr \<lparr>pk_name = re_name p, pk_version = re_version p, pk_file = re_file p,
              pk_integrity = re_integrity p, pk_sha512 = re_sha512 p, pk_stripped = stripped\<rparr>)))"

definition package_id :: "package \<Rightarrow> string" where
  "package_id p = pk_name p @ ''@'' @ pk_version p"

text \<open>The loop over the packages, with the files and the versions listed so far.\<close>

fun check_packages :: "text_api \<Rightarrow> nat \<Rightarrow> raw_entry list \<Rightarrow> string list \<Rightarrow> string list \<Rightarrow> string + package list" where
  "check_packages tx i [] files versions = Inr []"
| "check_packages tx i (p # ps) files versions =
     try_bind (check_package tx i p) (\<lambda>pkg.
       if pk_file pkg \<in> set files then Inl (tx_quote tx (pk_file pkg) @ '' is listed twice'')
       else if package_id pkg \<in> set versions then Inl (tx_quote tx (package_id pkg) @ '' is listed twice'')
       else try_bind (check_packages tx (i + 1) ps (pk_file pkg # files) (package_id pkg # versions)) (\<lambda>rest.
         Inr (pkg # rest)))"

definition check_manifest :: "text_api \<Rightarrow> raw_document \<Rightarrow> string + archive_manifest" where
  "check_manifest tx raw =
     (if rd_format raw \<noteq> Some 1
      then Inl ''formatVersion is missing or not 1, the only version this import reads''
      else
       (let texts = [(''toolVersion'', rd_tool raw), (''analysisId'', rd_analysis raw), (''createdAt'', rd_created raw)] in
        try_bind (check_each (\<lambda>f. check_present (fst f, snd f \<noteq> '''')) texts) (\<lambda>_.
        try_bind (check_each (check_text tx) texts) (\<lambda>_.
        if \<not> tx_rfc3339 tx (rd_created raw) then Inl ''createdAt is not an RFC 3339 time''
        else
         (let t = (case rd_target raw of Some t \<Rightarrow> t
                   | None \<Rightarrow> \<lparr>rt_os = '''', rt_cpu = '''', rt_libc = None, rt_node = '''', rt_pnpm = ''''\<rparr>);
              libc = (case rt_libc t of Some l \<Rightarrow> l | None \<Rightarrow> '''') in
          try_bind (check_each check_present
            [(''target.os'', rt_os t \<noteq> ''''), (''target.cpu'', rt_cpu t \<noteq> ''''), (''target.libc'', rt_libc t \<noteq> None),
             (''target.node'', rt_node t \<noteq> ''''), (''target.pnpmVer'', rt_pnpm t \<noteq> '''')]) (\<lambda>_.
          try_bind (check_each (check_text tx)
            [(''target.os'', rt_os t), (''target.cpu'', rt_cpu t), (''target.libc'', libc),
             (''target.node'', rt_node t), (''target.pnpmVer'', rt_pnpm t)]) (\<lambda>_.
          case rd_archive raw of
            None \<Rightarrow> Inl ''archive.sha256 is missing or not a lowercase hex sha256''
          | Some a \<Rightarrow>
              if \<not> rx_match hex_sha256 (ra_sha256 a)
              then Inl ''archive.sha256 is missing or not a lowercase hex sha256''
              else (case ra_size a of
                None \<Rightarrow> Inl ''archive.size is missing or not positive''
              | Some n \<Rightarrow>
                  if n \<le> 0 then Inl ''archive.size is missing or not positive''
                  else if rd_packages raw = [] then Inl ''the manifest lists no package''
                  else try_bind (check_packages tx 0 (rd_packages raw) [] []) (\<lambda>pkgs.
                    Inr \<lparr>am_tool = rd_tool raw, am_analysis = rd_analysis raw, am_created = rd_created raw,
                         am_target = \<lparr>tg_os = rt_os t, tg_cpu = rt_cpu t, tg_libc = libc,
                                      tg_node = rt_node t, tg_pnpm = rt_pnpm t\<rparr>,
                         am_sha256 = ra_sha256 a, am_size = n, am_packages = pkgs\<rparr>)))))))))"

text \<open>An error of the package is a refusal, which names a reason, or a local failure. The decoder
  gives a problem, or the document and whether data follows it.\<close>

datatype archive_error = Refused string | Local string

definition max_manifest_size :: nat where "max_manifest_size = 16 * 1024 * 1024"

definition parse_document :: "text_api \<Rightarrow> (bytes \<Rightarrow> string + raw_document \<times> bool) \<Rightarrow> string option \<Rightarrow> bytes
    \<Rightarrow> archive_error + archive_manifest" where
  "parse_document tx decode read_err input =
     (case read_err of
        Some e \<Rightarrow> Inl (Local (''read the manifest: '' @ e))
      | None \<Rightarrow>
          let dat = take (max_manifest_size + 1) input in
          if max_manifest_size < length dat then Inl (Refused ''the manifest is larger than 16777216 bytes'')
          else (case decode dat of
            Inl problem \<Rightarrow> Inl (Refused (''the manifest is not valid JSON: '' @ problem))
          | Inr (doc, more_data) \<Rightarrow>
              if more_data then Inl (Refused ''the manifest holds data after the manifest'')
              else (case check_manifest tx doc of Inl r \<Rightarrow> Inl (Refused r) | Inr m \<Rightarrow> Inr m)))"

subsection \<open>What the patterns accept\<close>

lemma package_file_iff: "rx_match package_file s \<longleftrightarrow>
    (\<exists>h b. s = h # b @ ''.tgz'' \<and> file_head h \<and> list_all file_char b)"
  unfolding rx_match_lang package_file_def
proof (cases s)
  case (Cons c t)
  have "t \<in> rx_lang (rx_seqs [Star (Cls file_char), rx_chr CHR ''.'', rx_chr CHR ''t'', rx_chr CHR ''g'', rx_chr CHR ''z''])
      \<longleftrightarrow> (\<exists>b. t = b @ ''.tgz'' \<and> list_all file_char b)"
    by (auto simp: lang_Seq_iff star_Cls)
  then show "s \<in> rx_lang (rx_seqs [Cls file_head, Star (Cls file_char), rx_chr CHR ''.'', rx_chr CHR ''t'',
      rx_chr CHR ''g'', rx_chr CHR ''z'']) \<longleftrightarrow> (\<exists>h b. s = h # b @ ''.tgz'' \<and> file_head h \<and> list_all file_char b)"
    by (auto simp: Cons)
qed simp

lemma package_file_Cons: "list_all file_char r \<Longrightarrow> rx_match package_file (h # r @ ''.tgz'') \<longleftrightarrow> file_head h"
  unfolding package_file_iff by auto

lemma hex_iff:
  "rx_match hex_sha256 s \<longleftrightarrow> length s = 64 \<and> list_all is_hex s"
  "rx_match hex_sha512 s \<longleftrightarrow> length s = 128 \<and> list_all is_hex s"
  by (auto simp: rx_match_lang hex_sha256_def hex_sha512_def simp del: rx_times.simps)

subsection \<open>What an accepted manifest promises\<close>

definition wf_package :: "package \<Rightarrow> bool" where
  "wf_package p \<longleftrightarrow> valid_name (pk_name p) \<and> is_exact_version (pk_version p)
     \<and> length (pk_version p) \<le> max_version_bytes
     \<and> rx_match package_file (pk_file p) \<and> length (pk_file p) \<le> max_file_name_bytes
     \<and> \<not> isl (parse_integrity (pk_integrity p)) \<and> length (pk_integrity p) \<le> max_integrity_bytes
     \<and> length (pk_sha512 p) = 128 \<and> list_all is_hex (pk_sha512 p)"

definition wf_manifest :: "text_api \<Rightarrow> archive_manifest \<Rightarrow> bool" where
  "wf_manifest tx m \<longleftrightarrow>
     (\<forall>s \<in> {am_tool m, am_analysis m, am_created m, tg_os (am_target m), tg_cpu (am_target m),
            tg_node (am_target m), tg_pnpm (am_target m)}. s \<noteq> '''')
     \<and> (\<forall>s \<in> {am_tool m, am_analysis m, am_created m, tg_os (am_target m), tg_cpu (am_target m),
            tg_libc (am_target m), tg_node (am_target m), tg_pnpm (am_target m)}.
          length s \<le> max_text_bytes \<and> tx_printable tx s)
     \<and> tx_rfc3339 tx (am_created m)
     \<and> length (am_sha256 m) = 64 \<and> list_all is_hex (am_sha256 m) \<and> 0 < am_size m
     \<and> am_packages m \<noteq> [] \<and> (\<forall>p \<in> set (am_packages m). wf_package p)
     \<and> distinct (map pk_file (am_packages m)) \<and> distinct (map package_id (am_packages m))"

text \<open>The document a manifest is decoded from.\<close>

definition raw_package_of :: "package \<Rightarrow> raw_entry" where
  "raw_package_of p = \<lparr>re_name = pk_name p, re_version = pk_version p, re_file = pk_file p,
     re_integrity = pk_integrity p, re_sha512 = pk_sha512 p, re_stripped = Some (pk_stripped p)\<rparr>"

definition raw_document_of :: "archive_manifest \<Rightarrow> raw_document" where
  "raw_document_of m = \<lparr>rd_format = Some 1, rd_tool = am_tool m, rd_analysis = am_analysis m,
     rd_created = am_created m,
     rd_target = Some \<lparr>rt_os = tg_os (am_target m), rt_cpu = tg_cpu (am_target m),
       rt_libc = Some (tg_libc (am_target m)), rt_node = tg_node (am_target m), rt_pnpm = tg_pnpm (am_target m)\<rparr>,
     rd_archive = Some \<lparr>ra_sha256 = am_sha256 m, ra_size = Some (am_size m)\<rparr>,
     rd_packages = map raw_package_of (am_packages m)\<rparr>"

lemma check_text_Inr [go_err]:
  "check_text tx f = Inr u \<longleftrightarrow> length (snd f) \<le> max_text_bytes \<and> tx_printable tx (snd f)"
  by (cases f) (auto simp: check_text_def)

lemma check_present_Inr [go_err]: "check_present f = Inr u \<longleftrightarrow> snd f"
  by (simp add: check_present_def go_err)

lemma empty_not_accepted [simp]:
  "\<not> valid_name ''''" "\<not> is_exact_version ''''" "isl (parse_integrity '''')"
  by (code_simp, simp_all add: is_exact_version_iff parse_integrity_def go_fields_def)

lemma wf_package_nonempty: "wf_package p \<Longrightarrow>
    pk_name p \<noteq> '''' \<and> pk_version p \<noteq> '''' \<and> pk_file p \<noteq> '''' \<and> pk_integrity p \<noteq> '''' \<and> pk_sha512 p \<noteq> ''''"
  by (auto simp: wf_package_def package_file_iff)

lemma check_package_Inr: "check_package tx i r = Inr p \<longleftrightarrow> r = raw_package_of p \<and> wf_package p"
proof
  assume c: "check_package tx i r = Inr p"
  then show "r = raw_package_of p \<and> wf_package p"
    by (cases r) (auto simp: check_package_def Let_def go_err wf_package_def raw_package_of_def hex_iff
        split: option.splits if_splits sum.splits)
next
  assume r: "r = raw_package_of p \<and> wf_package p"
  obtain x where x: "parse_integrity (pk_integrity p) = Inr x"
    using r by (cases "parse_integrity (pk_integrity p)") (auto simp: wf_package_def)
  show "check_package tx i r = Inr p"
    using r wf_package_nonempty [of p] x
    by (simp add: check_package_def Let_def raw_package_of_def wf_package_def check_present_def hex_iff)
qed

lemma check_packages_Inr: "check_packages tx i rs files versions = Inr ps \<longleftrightarrow>
    rs = map raw_package_of ps \<and> (\<forall>p \<in> set ps. wf_package p)
    \<and> distinct (map pk_file ps) \<and> set (map pk_file ps) \<inter> set files = {}
    \<and> distinct (map package_id ps) \<and> set (map package_id ps) \<inter> set versions = {}"
proof (induction rs arbitrary: i files versions ps)
  case Nil
  then show ?case by auto
next
  case (Cons r rs)
  show ?case
  proof (cases ps)
    case Nil
    then show ?thesis by (auto simp: go_err split: if_splits)
  next
    case (Cons q qs)
    then show ?thesis
      by (auto simp: go_err check_package_Inr Cons.IH split: if_splits)
  qed
qed

subsection \<open>File names of packages\<close>

lemma word_file_char: "word_char c \<Longrightarrow> file_char c" "is_digit c \<Longrightarrow> file_char c"
  by (auto simp: word_char_def file_char_def is_alnum_def)

lemma split_file_chars:
  assumes "list_all (\<lambda>w. list_all file_char w) (split_char CHR ''.'' s)"
  shows "list_all file_char s"
  using assms
proof (induction s)
  case (Cons c s)
  then show ?case
    by (cases "c = CHR ''.''") (auto simp: file_char_def split: list.splits)
qed simp

lemma exact_version_file_chars: "is_exact_version v \<Longrightarrow> list_all file_char v"
proof -
  assume "is_exact_version v"
  then obtain a b c p q where v: "v = a @ ''.'' @ b @ ''.'' @ c @ p @ q"
    and nums: "a \<in> rx_lang rx_num" "b \<in> rx_lang rx_num" "c \<in> rx_lang rx_num"
    and p: "p = [] \<or> (\<exists>t. p = CHR ''-'' # t \<and> list_all (\<lambda>w. w \<in> rx_lang rx_pre_id) (split_char CHR ''.'' t))"
    and q: "q = [] \<or> (\<exists>t. q = CHR ''+'' # t \<and> list_all (\<lambda>w. w \<in> rx_lang rx_build_id) (split_char CHR ''.'' t))"
    unfolding is_exact_version_iff by blast
  have num: "list_all file_char w" if "w \<in> rx_lang rx_num" for w
    using that word_file_char(2) by (auto simp: lang_num list_all_iff)
  have word: "list_all file_char w" if "list_all word_char w" for w
    using that word_file_char(1) by (auto simp: list_all_iff)
  have "list_all file_char t" if "list_all (\<lambda>w. w \<in> rx_lang rx_pre_id) (split_char CHR ''.'' t)" for t
    by (rule split_file_chars, rule list.pred_mono_strong [OF that]) (blast intro: word lang_pre_id_word)
  moreover have "list_all file_char t" if "list_all (\<lambda>w. w \<in> rx_lang rx_build_id) (split_char CHR ''.'' t)" for t
    by (rule split_file_chars, rule list.pred_mono_strong [OF that]) (simp add: word lang_build_id)
  ultimately have "list_all file_char p" "list_all file_char q"
    using p q by (auto simp: file_char_def)
  then show ?thesis using num nums by (simp add: v file_char_def)
qed

lemma valid_name_pack:
  assumes "valid_name name"
  shows "\<exists>h b. map (\<lambda>c. if c = CHR ''/'' then CHR ''-'' else c) (trim_prefix ''@'' name) = h # b
    \<and> list_all file_char b \<and> hd (trim_prefix ''@'' name) = h \<and> name_head h"
proof -
  let ?f = "\<lambda>c. if c = CHR ''/'' then CHR ''-'' else c"
  have part: "name_head (hd a) \<and> map ?f a = hd a # map ?f (tl a) \<and> a = hd a # tl a \<and> list_all file_char (map ?f a)"
    if "a \<in> rx_lang rx_name_part" for a
  proof -
    from that have a: "a \<noteq> []" "name_head (hd a)" "list_all name_tail a"
      using name_part_chars by (auto simp: lang_name_part)
    moreover from a(1,2) have "map ?f a = hd a # map ?f (tl a)"
      using name_tail_plain by (cases a) auto
    moreover have "list_all file_char (map ?f a)"
      using a(3) by (auto simp: list_all_iff name_tail_def file_char_def)
    ultimately show ?thesis by simp
  qed
  from assms have "name \<in> rx_lang rx_name_part
     \<or> (\<exists>a b. name = CHR ''@'' # a @ CHR ''/'' # b \<and> a \<in> rx_lang rx_name_part \<and> b \<in> rx_lang rx_name_part)"
    by (simp add: valid_name_def package_name_iff)
  then show ?thesis
  proof
    assume n: "name \<in> rx_lang rx_name_part"
    then have "trim_prefix ''@'' name = name"
      using name_tail_plain by (cases name) (auto simp: lang_name_part trim_prefix_def)
    moreover have "list_all file_char (map ?f (tl name))"
      using part [OF n] by (cases name) simp_all
    ultimately show ?thesis using part [OF n] by (intro exI [of _ "hd name"] exI [of _ "map ?f (tl name)"]) simp
  next
    assume "\<exists>a b. name = CHR ''@'' # a @ CHR ''/'' # b \<and> a \<in> rx_lang rx_name_part \<and> b \<in> rx_lang rx_name_part"
    then obtain a b where n: "trim_prefix ''@'' name = a @ CHR ''/'' # b"
      and a: "a \<in> rx_lang rx_name_part" and b: "b \<in> rx_lang rx_name_part"
      by (auto simp: trim_prefix_def)
    obtain h t where ht: "a = h # t" using part [OF a] by blast
    have "list_all file_char (map ?f t @ CHR ''-'' # map ?f b)"
    proof -
      have "list_all file_char (map ?f t)" using part [OF a] by (simp add: ht)
      moreover have "list_all file_char (map ?f b)" using part [OF b] by blast
      ultimately show ?thesis by (simp add: file_char_def)
    qed
    then show ?thesis
      using part [OF a] by (intro exI [of _ h] exI [of _ "map ?f t @ CHR ''-'' # map ?f b"]) (simp add: n ht)
  qed
qed

subsection \<open>Properties\<close>

lemma check_manifest_Inr:
  "check_manifest tx raw = Inr m \<longleftrightarrow> raw = raw_document_of m \<and> wf_manifest tx m"
proof
  assume c: "check_manifest tx raw = Inr m"
  then show "raw = raw_document_of m \<and> wf_manifest tx m"
    by (cases raw)
      (auto simp: check_manifest_def Let_def go_err check_packages_Inr raw_document_of_def wf_manifest_def hex_iff
        split: option.splits if_splits)
next
  assume "raw = raw_document_of m \<and> wf_manifest tx m"
  then have raw: "raw = raw_document_of m" and wf: "wf_manifest tx m" by auto
  have "check_packages tx 0 (rd_packages raw) [] [] = Inr (am_packages m)"
    using wf by (simp add: check_packages_Inr raw raw_document_of_def wf_manifest_def)
  then show "check_manifest tx raw = Inr m"
    using wf by (simp add: check_manifest_def Let_def raw raw_document_of_def wf_manifest_def hex_iff
        check_present_def check_text_def)
qed

text \<open>C24. The import's manifest checks accept exactly the documents of well-formed manifests, with
  every required field present, and read each field as it is: format 1, bounded printable
  texts, an RFC 3339 time, lowercase hex digests, a positive size, and a non-empty list of
  packages with valid names, exact versions, plain file names and usable integrities, no file
  and no name and version listed twice.\<close>

theorem check_manifest_exact:
  "check_manifest tx raw = Inr m \<longleftrightarrow> raw = raw_document_of m \<and> wf_manifest tx m"
  by (rule check_manifest_Inr)

text \<open>The file name npm pack gives a valid name and an exact version has the shape the import
  asks for exactly when the name, without its at sign, does not start with a tilde or a dash.
  ValidName and the export accept such names, so the export writes manifests the import
  refuses for them.\<close>

theorem pack_file_name_accepted_iff:
  assumes "valid_name name" "is_exact_version version"
  shows "rx_match package_file (pack_file_name name version)
    \<longleftrightarrow> hd (trim_prefix ''@'' name) \<noteq> CHR ''~'' \<and> hd (trim_prefix ''@'' name) \<noteq> CHR ''-''"
proof -
  from valid_name_pack [OF assms(1)] obtain h b where
    m: "map (\<lambda>c. if c = CHR ''/'' then CHR ''-'' else c) (trim_prefix ''@'' name) = h # b"
    and b: "list_all file_char b" and t: "hd (trim_prefix ''@'' name) = h" and h: "name_head h"
    by (elim exE conjE) (rule that)
  have "list_all file_char (b @ ''-'' @ version)"
    using b exact_version_file_chars [OF assms(2)] by (simp add: file_char_def)
  moreover have "pack_file_name name version = h # (b @ ''-'' @ version) @ ''.tgz''"
    by (simp add: pack_file_name_def m)
  ultimately have "rx_match package_file (pack_file_name name version) \<longleftrightarrow> file_head h"
    by (simp only: package_file_Cons)
  also have "\<dots> \<longleftrightarrow> h \<noteq> CHR ''~'' \<and> h \<noteq> CHR ''-''"
    using h by (auto simp: file_head_def name_head_def is_alnum_def is_digit_def is_lower_def is_upper_def)
  finally show ?thesis by (simp add: t)
qed

theorem pack_file_name_accepted_iff_witness:
  "valid_name ''~a'' \<and> is_exact_version ''1.0.0'' \<and> \<not> rx_match package_file (pack_file_name ''~a'' ''1.0.0'')"
proof -
  have v: "valid_name ''~a''" "is_exact_version ''1.0.0''" by code_simp+
  then show ?thesis using pack_file_name_accepted_iff [OF v] by (simp add: trim_prefix_def)
qed

end
