(* ===== verification/Archive_Verify.thy ===== *)
theory Archive_Verify
  imports Archive_Manifest
begin

text \<open>
  \<^verbatim>\<open>archive/verify.go\<close>: the bounds of an archive, and the single pass that refuses an archive
  unless it matches its manifest and copies its tarballs. gzip and tar are the standard library's: \<open>opened\<close> is what its readers
  give for a stream of bytes, entry by entry, and the hash functions are a parameter.
\<close>

subsection \<open>Limits\<close>

record limits =
  lm_entries :: int
  lm_unpacked :: int
  lm_name_bytes :: int

definition default_limits :: limits where
  "default_limits = \<lparr>lm_entries = 10000, lm_unpacked = 10 * 2 ^ 30, lm_name_bytes = 255\<rparr>"

definition or_default :: "limits \<Rightarrow> limits" where
  "or_default l =
     (let l = (if lm_entries l \<le> 0 then l\<lparr>lm_entries := lm_entries default_limits\<rparr> else l);
          l = (if lm_unpacked l \<le> 0 then l\<lparr>lm_unpacked := lm_unpacked default_limits\<rparr> else l)
      in if lm_name_bytes l \<le> 0 then l\<lparr>lm_name_bytes := lm_name_bytes default_limits\<rparr> else l)"

definition entry_overhead :: int where "entry_overhead = 4096"
definition tar_end_bytes :: int where "tar_end_bytes = 1024"
definition max_key_size :: nat where "max_key_size = 65536"
definition max_trailing_bytes :: nat where "max_trailing_bytes = 16384"

text \<open>Every sum and product is the int64 operation of the code.\<close>

definition stream_bound :: "limits \<Rightarrow> int" where
  "stream_bound l =
     (let per_entry = int64 (entry_overhead + lm_name_bytes l) in
      if go_div (max_int64 - tar_end_bytes) per_entry < lm_entries l then max_int64
      else
       (let framing = int64 (int64 (lm_entries l * per_entry) + tar_end_bytes) in
        if int64 (max_int64 - framing) < lm_unpacked l then max_int64
        else int64 (lm_unpacked l + framing)))"

text \<open>\<^verbatim>\<open>boundedReader\<close>: \<open>n\<close> and \<open>err\<close> are what the reader below gives for the buffer it is
  handed; the result is the count passed on, the error and the bytes left.\<close>

definition bounded_ask :: "int \<Rightarrow> int \<Rightarrow> int" where
  "bounded_ask left buffer = (if left < buffer then left + 1 else buffer)"

definition bounded_read :: "int \<Rightarrow> int \<Rightarrow> 'e option \<Rightarrow> 'e \<Rightarrow> int \<times> 'e option \<times> int" where
  "bounded_read left n err too_much =
     (let (n, err) = (if left < n then (left, Some too_much) else (n, err)) in (n, err, left - n))"

subsection \<open>What the readers give\<close>

datatype entry_type = Reg_File | Directory | Other_Type nat

text \<open>Why reading tar data failed: a refusal of a reader below, or another error.\<close>

datatype read_error = Below string | Unreadable string

record tar_entry =
  te_name :: string
  te_type :: entry_type
  te_size :: int
  te_pax :: "string list"
  te_body :: bytes
  te_body_err :: "read_error option"

datatype tar_end = End_Of_Tar | Tar_Error read_error

datatype gzip_open = Gzip_Ok | Gzip_Header | Gzip_Error string

record opened =
  op_gzip :: gzip_open
  op_entries :: "int \<Rightarrow> tar_entry list \<times> tar_end"
  op_rest :: bytes
  op_rest_err :: "string option"

text \<open>Faults of the local file system when one file is created, written and closed.\<close>

record file_faults =
  ff_open :: "string option"
  ff_write :: "string option"
  ff_close :: "string option"

record verify_env =
  ve_text :: text_api
  ve_hash :: "hash_alg \<Rightarrow> bytes \<Rightarrow> bytes"
  ve_sha256 :: "bytes \<Rightarrow> bytes"
  ve_open :: "bytes \<Rightarrow> opened"
  ve_faults :: "string \<Rightarrow> file_faults"

record verify_options =
  vo_expected :: string
  vo_key :: bytes
  vo_absolute :: bool
  vo_limits :: limits

record checked =
  ck_package :: package
  ck_file :: string
  ck_sha512 :: bytes

definition read_refusal :: "read_error \<Rightarrow> archive_error" where
  "read_refusal e = (case e of Below r \<Rightarrow> Refused r
     | Unreadable msg \<Rightarrow> Refused (''could not read the archive: '' @ msg))"

definition shown :: "text_api \<Rightarrow> string \<Rightarrow> string" where
  "shown tx s = (let q = tx_quote tx s in if butlast (tl q) = s then s else q)"

subsection \<open>Checks of one entry\<close>

definition out_root :: string where "out_root = ''out/''"
definition key_entry :: string where "key_entry = ''signature.key''"
definition sparse_prefix :: string where "sparse_prefix = ''GNU.sparse.''"

definition check_entry_name :: "text_api \<Rightarrow> tar_entry \<Rightarrow> string list \<Rightarrow> string + unit" where
  "check_entry_name tx h seen =
     (let name = ''entry '' @ shown tx (te_name h); rest = trim_prefix out_root (te_name h) in
      if has_prefix ''/'' (te_name h) then Inl (name @ '' is an absolute path'')
      else if ''..'' \<in> set (split_char CHR ''/'' (te_name h)) then Inl (name @ '' climbs to a parent directory'')
      else if te_name h \<in> set seen then Inl (name @ '' appears twice'')
      else if te_name h = out_root
      then (if te_type h \<noteq> Directory then Inl (name @ '' is not a directory'') else Inr ())
      else if \<not> has_prefix out_root (te_name h) then Inl (name @ '' lies outside out/'')
      else if te_type h = Directory then Inl (name @ '' is a directory other than out/'')
      else if CHR ''/'' \<in> set rest then Inl (name @ '' lies in a subdirectory of out/'')
      else if te_type h \<noteq> Reg_File then Inl (name @ '' is not a regular file'')
      else Inr ())"

definition check_key :: "tar_entry \<Rightarrow> bytes \<Rightarrow> archive_error + unit" where
  "check_key h want =
     (case te_body_err h of
        Some e \<Rightarrow> Inl (read_refusal e)
      | None \<Rightarrow>
          let got = take (max_key_size + 1) (te_body h) in
          if max_key_size < length got then Inl (Refused (key_entry @ '' is larger than 65536 bytes''))
          else if got \<noteq> want then Inl (Refused (key_entry @ '' differs from the expected value''))
          else Inr ())"

definition check_trailing :: "opened \<Rightarrow> archive_error + unit" where
  "check_trailing o' =
     (case op_rest_err o' of
        Some e \<Rightarrow> Inl (Refused (''could not read the archive: '' @ e))
      | None \<Rightarrow>
          let rest = take (max_trailing_bytes + 1) (op_rest o') in
          if max_trailing_bytes < length rest \<or> list_ex (\<lambda>b. b \<noteq> CHR 0x00) rest
          then Inl (Refused ''the archive holds more than 16384 bytes of zero padding after the end of the tar'')
          else Inr ())"

subsection \<open>Copying a package\<close>

record pending =
  pn_package :: package
  pn_index :: nat
  pn_want :: bytes
  pn_sri :: "(hash_alg \<times> bytes) option"

text \<open>The files of the private directory, by name. A file that exists is never written over.\<close>

definition copy_package :: "verify_env \<Rightarrow> tar_entry \<Rightarrow> pending \<Rightarrow> files \<Rightarrow> (archive_error + checked) \<times> files" where
  "copy_package env h p fs =
     (let file = pk_file (pn_package p); faults = ve_faults env file;
          failed = (\<lambda>e. Inl (Local (''copy '' @ file @ '': '' @ e)));
          fs' = fs(file \<mapsto> te_body h) in
      if fs file \<noteq> None then (failed ''file exists'', fs)
      else case ff_open faults of Some e \<Rightarrow> (failed e, fs)
      | None \<Rightarrow> case ff_write faults of Some e \<Rightarrow> (failed e, fs')
      | None \<Rightarrow> case te_body_err h of Some e \<Rightarrow> (Inl (read_refusal e), fs')
      | None \<Rightarrow> case ff_close faults of Some e \<Rightarrow> (failed e, fs')
      | None \<Rightarrow>
          if ve_hash env Sha512 (te_body h) \<noteq> pn_want p
          then (Inl (Refused (file @ '' does not match its shipped sha512'')), fs')
          else if (case pn_sri p of None \<Rightarrow> False | Some (alg, d) \<Rightarrow> ve_hash env alg (te_body h) \<noteq> d)
          then (Inl (Refused (file @ '' does not match its original integrity'')), fs')
          else (Inr \<lparr>ck_package = pn_package p, ck_file = file, ck_sha512 = ve_hash env Sha512 (te_body h)\<rparr>, fs'))"

subsection \<open>The pass over the archive\<close>

definition hex_value :: "char \<Rightarrow> nat option" where
  "hex_value c =
     (if is_digit c then Some (of_char c - 48)
      else if 97 \<le> (of_char c :: nat) \<and> of_char c \<le> (102 :: nat) then Some (of_char c - 87)
      else if 65 \<le> (of_char c :: nat) \<and> of_char c \<le> (70 :: nat) then Some (of_char c - 55)
      else None)"

fun hex_decode :: "string \<Rightarrow> bytes option" where
  "hex_decode [] = Some []"
| "hex_decode [c] = None"
| "hex_decode (a # b # s) = (case (hex_value a, hex_value b, hex_decode s) of
     (Some x, Some y, Some bs) \<Rightarrow> Some (char_of (16 * x + y) # bs)
   | _ \<Rightarrow> None)"

definition pending_of :: "nat \<times> package \<Rightarrow> archive_error + pending" where
  "pending_of e = (case e of (i, p) \<Rightarrow> (case hex_decode (pk_sha512 p) of
     None \<Rightarrow> Inl (Refused (pk_file p @ '': shippedSha512 is not hex''))
   | Some want \<Rightarrow>
       if pk_stripped p then Inr \<lparr>pn_package = p, pn_index = i, pn_want = want, pn_sri = None\<rparr>
       else (case parse_integrity (pk_integrity p) of
         Inl _ \<Rightarrow> Inl (Refused (pk_file p @ '': originalIntegrity is not usable''))
       | Inr sri \<Rightarrow> Inr \<lparr>pn_package = p, pn_index = i, pn_want = want, pn_sri = Some sri\<rparr>)))"

definition listed_of :: "package list \<Rightarrow> archive_error + (string, pending) gomap" where
  "listed_of ps = try_bind (map_err pending_of (List.enumerate 0 ps))
     (\<lambda>pends. Inr (foldl (\<lambda>m p. gm_put (pk_file (pn_package p)) p m) [] pends))"

record scan_state =
  ss_checked :: "checked option list"
  ss_seen :: "string list"
  ss_key :: bool
  ss_unpacked :: int
  ss_files :: files

definition scan_entry :: "verify_env \<Rightarrow> limits \<Rightarrow> bytes \<Rightarrow> (string, pending) gomap \<Rightarrow> int \<Rightarrow> tar_entry
    \<Rightarrow> scan_state \<Rightarrow> archive_error option \<times> scan_state" where
  "scan_entry env l key listed n h s =
     (if lm_entries l < n
      then (Some (Refused ''the archive holds too many entries''), s)
      else if lm_name_bytes l < int (length (te_name h))
      then (Some (Refused ''an entry name is too long''), s)
      else case check_entry_name (ve_text env) h (ss_seen s) of Inl r \<Rightarrow> (Some (Refused r), s)
      | Inr _ \<Rightarrow>
          let s = s\<lparr>ss_seen := te_name h # ss_seen s\<rparr>; file = trim_prefix out_root (te_name h) in
          if te_type h = Directory then (None, s)
          else if list_ex (has_prefix sparse_prefix) (te_pax h)
          then (Some (Refused (''entry '' @ shown (ve_text env) (te_name h) @ '' is a sparse file'')), s)
          else if int64 (lm_unpacked l - ss_unpacked s) < te_size h
          then (Some (Refused ''the archive holds too many bytes unpacked''), s)
          else
           (let s = s\<lparr>ss_unpacked := int64 (ss_unpacked s + te_size h)\<rparr> in
            if file = key_entry
            then (case check_key h key of Inl e \<Rightarrow> (Some e, s) | Inr _ \<Rightarrow> (None, s\<lparr>ss_key := True\<rparr>))
            else (case gm_get listed file of
              None \<Rightarrow> (Some (Refused (shown (ve_text env) (te_name h) @ '' is not listed in the manifest'')), s)
            | Some p \<Rightarrow> (case copy_package env h p (ss_files s) of
                (Inl e, fs) \<Rightarrow> (Some e, s\<lparr>ss_files := fs\<rparr>)
              | (Inr c, fs) \<Rightarrow> (None, s\<lparr>ss_files := fs, ss_checked := (ss_checked s)[pn_index p := Some c]\<rparr>)))))"

fun scan_entries :: "verify_env \<Rightarrow> limits \<Rightarrow> bytes \<Rightarrow> (string, pending) gomap \<Rightarrow> int \<Rightarrow> tar_entry list \<Rightarrow> tar_end
    \<Rightarrow> scan_state \<Rightarrow> archive_error option \<times> scan_state" where
  "scan_entries env l key listed n [] fin s = (case fin of
     End_Of_Tar \<Rightarrow> (None, s)
   | Tar_Error e \<Rightarrow> (Some (read_refusal e), s))"
| "scan_entries env l key listed n (h # hs) fin s =
     (case scan_entry env l key listed n h s of
        (Some e, s') \<Rightarrow> (Some e, s')
      | (None, s') \<Rightarrow> scan_entries env l key listed (n + 1) hs fin s')"

text \<open>The first package of the manifest the archive did not hold.\<close>

definition first_absent :: "package list \<Rightarrow> checked option list \<Rightarrow> package option" where
  "first_absent ps cs = map_option fst (find (\<lambda>e. snd e = None) (zip ps cs))"

definition scan :: "verify_env \<Rightarrow> archive_manifest \<Rightarrow> verify_options \<Rightarrow> bytes \<Rightarrow> files
    \<Rightarrow> (archive_error + checked list) \<times> files" where
  "scan env m opts input fs =
     (let l = or_default (vo_limits opts); ps = am_packages m in
      case listed_of ps of Inl e \<Rightarrow> (Inl e, fs)
      | Inr listed \<Rightarrow>
          let opn = ve_open env input in
          case op_gzip opn of
            Gzip_Header \<Rightarrow> (Inl (Refused ''the archive is not a gzip-compressed tar''), fs)
          | Gzip_Error e \<Rightarrow> (Inl (Refused (''could not read the archive: '' @ e)), fs)
          | Gzip_Ok \<Rightarrow>
              (case op_entries opn (stream_bound l) of (hs, fin) \<Rightarrow>
               case scan_entries env l (vo_key opts) listed 1 hs fin
                   \<lparr>ss_checked = replicate (length ps) None, ss_seen = [], ss_key = False,
                    ss_unpacked = 0, ss_files = fs\<rparr> of
                 (Some e, s) \<Rightarrow> (Inl e, ss_files s)
               | (None, s) \<Rightarrow>
                   (case check_trailing opn of Inl e \<Rightarrow> (Inl e, ss_files s)
                    | Inr _ \<Rightarrow> (case first_absent ps (ss_checked s) of
                        Some p \<Rightarrow> (Inl (Refused (pk_file p @ '' is absent from the archive'')), ss_files s)
                      | None \<Rightarrow>
                          if \<not> ss_key s
                          then (Inl (Refused (key_entry @ '' is absent from the archive'')), ss_files s)
                          else (Inr (map the (ss_checked s)), ss_files s)))))"

text \<open>\<^verbatim>\<open>Verify\<close>: \<open>input\<close> is what the reader holds and \<open>read_err\<close> a failure to read it up to the
  limit, one byte past the size of the manifest.\<close>

definition verify :: "verify_env \<Rightarrow> archive_manifest \<Rightarrow> verify_options \<Rightarrow> string option \<Rightarrow> bytes \<Rightarrow> files
    \<Rightarrow> (archive_error + checked list) \<times> files" where
  "verify env m opts read_err input fs =
     (if \<not> vo_absolute opts then (Inl (Local ''archive: Verify needs an absolute directory''), fs)
      else if vo_key opts = [] then (Inl (Refused ''no expected signature key was given''), fs)
      else
       (let dat = take (nat (int64 (am_size m + 1))) input; got = hex_encode (ve_sha256 env dat) in
        case scan env m opts dat fs of (r, fs') \<Rightarrow>
          (case read_err of
             Some e \<Rightarrow> Inl (Local (''read the archive: '' @ e))
           | None \<Rightarrow>
               if int (length dat) \<noteq> am_size m then Inl (Refused ''archive size differs from the manifest's'')
               else if got \<noteq> am_sha256 m then Inl (Refused ''archive sha256 differs from the manifest's'')
               else if vo_expected opts \<noteq> '''' \<and> got \<noteq> map lower_char (vo_expected opts)
               then Inl (Refused ''archive sha256 differs from the expected sha256'')
               else r,
           fs')))"

subsection \<open>The bound on the inflated stream\<close>

lemma int64_id: "- (2 ^ 63) \<le> x \<Longrightarrow> x \<le> max_int64 \<Longrightarrow> int64 x = x"
  by (simp add: int64_def)

lemma int64_over: "max_int64 < x \<Longrightarrow> x \<le> 2 ^ 63 + 4095 \<Longrightarrow> int64 x = x - 2 ^ 64"
proof -
  assume x: "max_int64 < x" "x \<le> 2 ^ 63 + 4095"
  have "(x + 2 ^ 63) mod 2 ^ 64 = (x + 2 ^ 63 - 2 ^ 64) mod 2 ^ 64" by (rule minus_mod_self2 [symmetric])
  also have "\<dots> = x + 2 ^ 63 - 2 ^ 64" using x by (intro mod_pos_pos_trivial) auto
  finally show ?thesis by (simp add: int64_def)
qed

lemma div_less_int:
  assumes "0 < (b::int)"
  shows "a div b < c \<longleftrightarrow> a < c * b"
proof -
  have "(a + b * (- c)) div b = (- c) + a div b" using assms by (intro div_mult_self2) simp
  then have "a div b < c \<longleftrightarrow> (a + b * (- c)) div b < 0" by simp
  also have "\<dots> \<longleftrightarrow> a < c * b" using pos_imp_zdiv_neg_iff [OF assms] by (simp add: mult.commute)
  finally show ?thesis .
qed

lemma stream_bound_exact:
  assumes e: "0 < lm_entries l" "lm_entries l \<le> max_int64"
    and u: "0 < lm_unpacked l" "lm_unpacked l \<le> max_int64"
    and n: "0 < lm_name_bytes l" "lm_name_bytes l \<le> max_int64"
  shows "stream_bound l = min max_int64 (lm_unpacked l + lm_entries l * (4096 + lm_name_bytes l) + 1024)"
proof (cases "4096 + lm_name_bytes l \<le> max_int64")
  case True
  let ?per = "4096 + lm_name_bytes l"
  have per: "int64 (entry_overhead + lm_name_bytes l) = ?per"
    using True n by (simp add: entry_overhead_def int64_id)
  have d: "go_div (max_int64 - tar_end_bytes) ?per = (max_int64 - 1024) div ?per"
    using n by (simp add: go_div_def tar_end_bytes_def)
  show ?thesis
  proof (cases "(max_int64 - 1024) div ?per < lm_entries l")
    case True
    then have "max_int64 - 1024 < lm_entries l * ?per"
      using n div_less_int [of ?per "max_int64 - 1024" "lm_entries l"] by simp
    then show ?thesis using True u unfolding stream_bound_def Let_def per d by simp
  next
    case False
    then have le: "lm_entries l * ?per \<le> max_int64 - 1024"
      using n div_less_int [of ?per "max_int64 - 1024" "lm_entries l"] by simp
    moreover have pos: "0 \<le> lm_entries l * ?per" using e n by simp
    ultimately have f: "int64 (int64 (lm_entries l * ?per) + tar_end_bytes) = lm_entries l * ?per + 1024"
      by (simp add: int64_id tar_end_bytes_def)
    have g: "int64 (max_int64 - (lm_entries l * ?per + 1024)) = max_int64 - (lm_entries l * ?per + 1024)"
      using le pos by (intro int64_id) linarith+
    show ?thesis
    proof (cases "max_int64 - (lm_entries l * ?per + 1024) < lm_unpacked l")
      case True
      then show ?thesis using False unfolding stream_bound_def Let_def per d f g by simp
    next
      case ok: False
      then have "int64 (lm_unpacked l + (lm_entries l * ?per + 1024)) = lm_unpacked l + (lm_entries l * ?per + 1024)"
        using pos u by (intro int64_id) linarith+
      then show ?thesis using False ok unfolding stream_bound_def Let_def per d f g by simp
    qed
  qed
next
  case False
  let ?w = "4096 + lm_name_bytes l - 2 ^ 64"
  have per: "int64 (entry_overhead + lm_name_bytes l) = ?w"
    using False n by (simp add: entry_overhead_def int64_over)
  have "?w < 0" "0 < max_int64 - tar_end_bytes" using n by (simp_all add: tar_end_bytes_def)
  then have "go_div (max_int64 - tar_end_bytes) ?w \<le> 0"
    by (simp add: go_div_def pos_imp_zdiv_nonneg_iff)
  then have "stream_bound l = max_int64" using e unfolding stream_bound_def Let_def per by simp
  moreover have "max_int64 \<le> lm_entries l * (4096 + lm_name_bytes l)"
  proof -
    have "max_int64 \<le> 1 * (4096 + lm_name_bytes l)" using False by simp
    also have "\<dots> \<le> lm_entries l * (4096 + lm_name_bytes l)"
      using e n by (intro mult_right_mono) auto
    finally show ?thesis .
  qed
  ultimately show ?thesis using u by simp
qed

lemma or_default_pos: "0 < lm_entries (or_default l) \<and> 0 < lm_unpacked (or_default l) \<and> 0 < lm_name_bytes (or_default l)"
  by (simp add: or_default_def default_limits_def Let_def)

subsection \<open>What the pass keeps\<close>

lemma copy_package_None: "copy_package env h p fs = (Inr c, fs') \<Longrightarrow>
    ck_package c = pn_package p \<and> ck_file c = pk_file (pn_package p) \<and> fs (ck_file c) = None
    \<and> fs' = fs(ck_file c \<mapsto> te_body h) \<and> ck_sha512 c = pn_want p \<and> ve_hash env Sha512 (te_body h) = pn_want p
    \<and> (\<forall>alg d. pn_sri p = Some (alg, d) \<longrightarrow> ve_hash env alg (te_body h) = d)"
  by (auto simp: copy_package_def Let_def split: if_splits option.splits)

lemma copy_package_frame: "copy_package env h p fs = (r, fs') \<Longrightarrow>
    fs' = fs \<or> fs (pk_file (pn_package p)) = None \<and> fs' = fs(pk_file (pn_package p) \<mapsto> te_body h)"
  by (auto simp: copy_package_def Let_def split: if_splits option.splits)

lemma pending_of_Inr: "pending_of (i, p) = Inr q \<longleftrightarrow> pn_package q = p \<and> pn_index q = i
    \<and> hex_decode (pk_sha512 p) = Some (pn_want q)
    \<and> (if pk_stripped p then pn_sri q = None else (\<exists>sri. parse_integrity (pk_integrity p) = Inr sri \<and> pn_sri q = Some sri))"
  by (cases q) (auto simp: pending_of_def split: option.splits sum.splits)

lemma foldl_put_get:
  "gm_get (foldl (\<lambda>m p. gm_put (k p) p m) m ps) f = Some q \<Longrightarrow> q \<in> set ps \<and> k q = f \<or> gm_get m f = Some q"
  by (induction ps arbitrary: m) (fastforce split: if_splits)+

lemma listed_of_get:
  assumes "listed_of ps = Inr listed" "gm_get listed f = Some q"
  shows "pk_file (pn_package q) = f \<and> pn_index q < length ps \<and> pending_of (pn_index q, ps ! pn_index q) = Inr q"
proof -
  from assms(1) obtain qs where qs: "list_all2 (\<lambda>x y. pending_of x = Inr y) (List.enumerate 0 ps) qs"
    and l: "listed = foldl (\<lambda>m p. gm_put (pk_file (pn_package p)) p m) [] qs"
    by (auto simp: listed_of_def go_err)
  from assms(2) have q: "q \<in> set qs" "pk_file (pn_package q) = f"
    using foldl_put_get [of "\<lambda>p. pk_file (pn_package p)"] unfolding l by fastforce+
  from q(1) obtain i where i: "i < length qs" "qs ! i = q" by (auto simp: in_set_conv_nth)
  with qs have "i < length ps" "pending_of (i, ps ! i) = Inr q"
    by (auto simp: list_all2_conv_all_nth nth_enumerate_eq)
  moreover from this(2) have "pn_index q = i" by (simp add: pending_of_Inr)
  ultimately show ?thesis using q(2) by simp
qed

text \<open>A package is verified when its file was absent before and now holds bytes that hash to its
  digests.\<close>

definition verified_copy :: "verify_env \<Rightarrow> files \<Rightarrow> files \<Rightarrow> package \<Rightarrow> checked \<Rightarrow> bool" where
  "verified_copy env fs fs' p c \<longleftrightarrow> ck_package c = p \<and> ck_file c = pk_file p \<and> fs (pk_file p) = None
     \<and> (\<exists>body. fs' (pk_file p) = Some body
         \<and> hex_decode (pk_sha512 p) = Some (ck_sha512 c) \<and> ve_hash env Sha512 body = ck_sha512 c
         \<and> (\<not> pk_stripped p \<longrightarrow> (\<exists>alg d. parse_integrity (pk_integrity p) = Inr (alg, d) \<and> ve_hash env alg body = d)))"

text \<open>What an accepted entry is.\<close>

definition accepted_entry :: "bytes \<Rightarrow> package list \<Rightarrow> tar_entry \<Rightarrow> bool" where
  "accepted_entry key ps h \<longleftrightarrow>
     te_name h = out_root \<and> te_type h = Directory
     \<or> te_name h = out_root @ key_entry \<and> te_type h = Reg_File \<and> te_body h = key
     \<or> (\<exists>p \<in> set ps. te_name h = out_root @ pk_file p \<and> te_type h = Reg_File)"

definition scan_inv :: "verify_env \<Rightarrow> bytes \<Rightarrow> package list \<Rightarrow> files \<Rightarrow> tar_entry list \<Rightarrow> scan_state \<Rightarrow> bool" where
  "scan_inv env key ps fs done s \<longleftrightarrow>
     ss_seen s = rev (map te_name done) \<and> distinct (map te_name done)
     \<and> (\<forall>h \<in> set done. accepted_entry key ps h)
     \<and> (ss_key s \<longrightarrow> (\<exists>h \<in> set done. te_name h = out_root @ key_entry \<and> te_body h = key))
     \<and> length (ss_checked s) = length ps
     \<and> (\<forall>i < length ps. \<forall>c. ss_checked s ! i = Some c \<longrightarrow> verified_copy env fs (ss_files s) (ps ! i) c
          \<and> (\<exists>h \<in> set done. te_name h = out_root @ pk_file (ps ! i)))
     \<and> (\<forall>f. ss_files s f \<noteq> fs f \<longrightarrow> fs f = None \<and> f \<in> pk_file ` set ps)"

lemma check_entry_name_Inr: "check_entry_name tx h seen = Inr u \<longleftrightarrow> te_name h \<notin> set seen
    \<and> (te_name h = out_root \<and> te_type h = Directory
       \<or> te_type h = Reg_File \<and> (\<exists>file. te_name h = out_root @ file \<and> file \<noteq> '''' \<and> file \<noteq> ''..'' \<and> CHR ''/'' \<notin> set file))"
proof -
  have root: "\<not> has_prefix ''/'' (out_root @ file_name)" "split_char CHR ''/'' (out_root @ file_name) = ''out'' # split_char CHR ''/'' file_name" for file_name :: string
    by (simp_all add: out_root_def)
  show ?thesis
  proof (cases "has_prefix out_root (te_name h)")
    case True
    then obtain nm where f: "te_name h = out_root @ nm" by (auto simp: has_prefix_iff)
    show ?thesis
      using split_char_single [of "CHR ''/''" nm]
      by (cases "CHR ''/'' \<in> set nm") (auto simp: check_entry_name_def Let_def f root)
  next
    case False
    then have "te_name h \<noteq> out_root" by (auto simp: out_root_def)
    with False show ?thesis by (auto simp: check_entry_name_def Let_def)
  qed
qed

lemma check_key_Inr: "check_key h want = Inr u \<Longrightarrow> te_body h = want"
  by (auto simp: check_key_def Let_def split: option.splits if_splits)

lemma verified_copy_mono:
  "verified_copy env fs fs1 p c \<Longrightarrow> (\<And>f. fs1 f \<noteq> None \<Longrightarrow> fs2 f = fs1 f) \<Longrightarrow> verified_copy env fs fs2 p c"
  unfolding verified_copy_def by (metis option.distinct(1))

text \<open>The files a step leaves: only new ones of listed packages.\<close>

lemma scan_entry_files:
  assumes "listed_of ps = Inr listed" "scan_entry env l key listed n h s = (r, s')"
  shows "ss_files s' = ss_files s
    \<or> (\<exists>f \<in> pk_file ` set ps. ss_files s f = None \<and> ss_files s' = (ss_files s)(f \<mapsto> te_body h))"
proof -
  have "ss_files s' = ss_files s
      \<or> (\<exists>f p r'. gm_get listed f = Some p \<and> copy_package env h p (ss_files s) = (r', ss_files s'))"
    using assms(2)
    by (auto simp: scan_entry_def Let_def split: if_splits sum.splits option.splits prod.splits)
  then show ?thesis
  proof (elim disjE exE conjE)
    fix f p r' assume p: "gm_get listed f = Some p" "copy_package env h p (ss_files s) = (r', ss_files s')"
    have "pk_file (pn_package p) \<in> pk_file ` set ps"
      using listed_of_get [OF assms(1) p(1)] by (auto simp: pending_of_Inr)
    then show ?thesis using copy_package_frame [OF p(2)] by blast
  qed simp
qed

lemma scan_entries_files:
  assumes "listed_of ps = Inr listed"
    and "\<forall>f. ss_files s f \<noteq> fs f \<longrightarrow> fs f = None \<and> f \<in> pk_file ` set ps"
    and "scan_entries env l key listed n hs fin s = (r, s')"
  shows "\<forall>f. ss_files s' f \<noteq> fs f \<longrightarrow> fs f = None \<and> f \<in> pk_file ` set ps"
  using assms(2,3)
proof (induction hs arbitrary: n s)
  case Nil
  then show ?case by (auto split: tar_end.splits)
next
  case (Cons h hs)
  obtain r1 s1 where step: "scan_entry env l key listed n h s = (r1, s1)" by fastforce
  have s1: "\<forall>f. ss_files s1 f \<noteq> fs f \<longrightarrow> fs f = None \<and> f \<in> pk_file ` set ps"
    using scan_entry_files [OF assms(1) step] Cons.prems(1)
  proof (elim disjE bexE conjE)
    fix f assume f: "f \<in> pk_file ` set ps" "ss_files s f = None" "ss_files s1 = (ss_files s)(f \<mapsto> te_body h)"
      and old: "\<forall>f. ss_files s f \<noteq> fs f \<longrightarrow> fs f = None \<and> f \<in> pk_file ` set ps"
    from f(2) old have "fs f = None" by metis
    then show ?thesis using f old by auto
  qed simp
  show ?case
  proof (cases r1)
    case None
    then show ?thesis using Cons.IH [OF s1] Cons.prems(2) step by simp
  next
    case (Some e)
    then show ?thesis using Cons.prems(2) step s1 by simp
  qed
qed

lemma scan_entry_inv:
  assumes listed: "listed_of ps = Inr listed" and inv: "scan_inv env key ps fs done s"
    and step: "scan_entry env l key listed n h s = (None, s')"
  shows "scan_inv env key ps fs (done @ [h]) s'"
proof -
  from step have name: "check_entry_name (ve_text env) h (ss_seen s) = Inr ()"
    by (auto simp: scan_entry_def split: if_splits sum.splits)
  then have new: "te_name h \<notin> set (map te_name done)"
    using inv by (auto simp: scan_inv_def check_entry_name_Inr)
  consider (dir) "te_name h = out_root" "te_type h = Directory" "s' = s\<lparr>ss_seen := te_name h # ss_seen s\<rparr>"
    | (key) u where "te_type h = Reg_File" "te_name h = out_root @ key_entry" "te_body h = key"
        "s' = s\<lparr>ss_seen := te_name h # ss_seen s, ss_unpacked := u, ss_key := True\<rparr>"
    | (pkg) u q c fs' where "te_type h = Reg_File" "te_name h = out_root @ pk_file (pn_package q)"
        "gm_get listed (pk_file (pn_package q)) = Some q" "copy_package env h q (ss_files s) = (Inr c, fs')"
        "s' = s\<lparr>ss_seen := te_name h # ss_seen s, ss_unpacked := u, ss_files := fs',
               ss_checked := (ss_checked s)[pn_index q := Some c]\<rparr>"
  proof (cases "te_type h = Directory")
    case True
    with name have "te_name h = out_root" by (auto simp: check_entry_name_Inr)
    then show ?thesis using that(1) True step name by (simp add: scan_entry_def Let_def split: if_splits)
  next
    case False
    with name obtain nm where nm: "te_type h = Reg_File" "te_name h = out_root @ nm"
      by (auto simp: check_entry_name_Inr)
    show ?thesis
    proof (cases "nm = key_entry")
      case True
      then show ?thesis
        using that(2) nm step name check_key_Inr
        by (auto simp: scan_entry_def Let_def split: if_splits sum.splits)
    next
      case False
      then obtain q c fs' where q: "gm_get listed nm = Some q" "copy_package env h q (ss_files s) = (Inr c, fs')"
        "s' = s\<lparr>ss_seen := te_name h # ss_seen s, ss_unpacked := int64 (ss_unpacked s + te_size h), ss_files := fs',
               ss_checked := (ss_checked s)[pn_index q := Some c]\<rparr>"
        using nm step name
        by (auto simp: scan_entry_def Let_def split: if_splits sum.splits option.splits prod.splits)
      then have "pk_file (pn_package q) = nm" using listed_of_get [OF listed] by blast
      then show ?thesis using that(3) nm q by metis
    qed
  qed
  then show ?thesis
  proof cases
    case dir
    then show ?thesis using inv new by (auto simp: scan_inv_def accepted_entry_def)
  next
    case key
    then show ?thesis using inv new by (auto simp: scan_inv_def accepted_entry_def)
  next
    case pkg
    note l = listed_of_get [OF listed pkg(3)] and c = copy_package_None [OF pkg(4)]
    let ?i = "pn_index q"
    have q: "pn_package q = ps ! ?i" "?i < length ps" "pk_file (ps ! ?i) \<in> pk_file ` set ps"
      using l by (auto simp: pending_of_Inr)
    have old: "fs (pk_file (ps ! ?i)) = None"
      using inv c q by (metis scan_inv_def)
    have "verified_copy env fs fs' (ps ! ?i) c"
      using l c q old by (auto simp: verified_copy_def pending_of_Inr split: if_splits)
    moreover have "verified_copy env fs fs' (ps ! j) d" if "verified_copy env fs (ss_files s) (ps ! j) d" for j d
      using c by (intro verified_copy_mono [OF that]) auto
    moreover have "accepted_entry key ps h" using pkg q by (auto simp: accepted_entry_def)
    ultimately show ?thesis
      using inv new pkg q c old by (auto simp: scan_inv_def nth_list_update)
  qed
qed

lemma scan_entries_inv:
  assumes "listed_of ps = Inr listed" "scan_inv env key ps fs done s"
    and "scan_entries env l key listed n hs fin s = (None, s')"
  shows "fin = End_Of_Tar \<and> scan_inv env key ps fs (done @ hs) s'"
  using assms(2,3)
proof (induction hs arbitrary: n s "done")
  case Nil
  then show ?case by (auto split: tar_end.splits)
next
  case (Cons h hs)
  then obtain s1 where step: "scan_entry env l key listed n h s = (None, s1)"
    and rest: "scan_entries env l key listed (n + 1) hs fin s1 = (None, s')"
    by (auto split: prod.splits option.splits)
  from scan_entry_inv [OF assms(1) Cons.prems(1) step] Cons.IH [OF _ rest] show ?case by force
qed

lemma first_absent_None: "length cs = length ps \<Longrightarrow> first_absent ps cs = None \<longleftrightarrow> (\<forall>c \<in> set cs. c \<noteq> None)"
proof -
  assume "length cs = length ps"
  then have "snd ` set (zip ps cs) = set cs" by (metis map_snd_zip set_map)
  moreover have "first_absent ps cs = None \<longleftrightarrow> \<not> (\<exists>c \<in> snd ` set (zip ps cs). c = None)"
    by (simp add: first_absent_def find_None_iff image_iff Bex_def)
  ultimately show ?thesis by metis
qed

lemma scan_Inr:
  assumes "scan env m opts input fs = (Inr cs, fs')"
  shows "\<exists>hs s. op_entries (ve_open env input) (stream_bound (or_default (vo_limits opts))) = (hs, End_Of_Tar)
    \<and> scan_inv env (vo_key opts) (am_packages m) fs hs s \<and> ss_key s \<and> ss_files s = fs'
    \<and> map Some cs = ss_checked s \<and> check_trailing (ve_open env input) = Inr ()"
proof -
  let ?l = "or_default (vo_limits opts)" and ?ps = "am_packages m" and ?o = "ve_open env input"
  let ?init = "\<lparr>ss_checked = replicate (length ?ps) None, ss_seen = [], ss_key = False,
                ss_unpacked = 0, ss_files = fs\<rparr>"
  obtain hs fin where o': "op_entries ?o (stream_bound ?l) = (hs, fin)" by fastforce
  from assms obtain listed s where l: "listed_of ?ps = Inr listed"
    and s: "scan_entries env ?l (vo_key opts) listed 1 hs fin ?init = (None, s)"
    and t: "check_trailing ?o = Inr ()" "first_absent ?ps (ss_checked s) = None" "ss_key s"
    and r: "cs = map the (ss_checked s)" "fs' = ss_files s"
    by (auto simp: scan_def Let_def o' split: sum.splits gzip_open.splits prod.splits option.splits if_splits)
  have "scan_inv env (vo_key opts) ?ps fs [] ?init" by (simp add: scan_inv_def)
  from scan_entries_inv [OF l this s] have inv: "fin = End_Of_Tar" "scan_inv env (vo_key opts) ?ps fs hs s" by auto
  then have "\<forall>c \<in> set (ss_checked s). c \<noteq> None"
    using t(2) first_absent_None by (metis scan_inv_def)
  then have "map Some cs = ss_checked s" by (auto simp: r intro!: map_idI)
  then show ?thesis using inv o' t r by blast
qed

text \<open>Reading one byte past the manifest's size tells a longer archive apart, also when the size
  plus one wraps around.\<close>

lemma take_size_exact:
  assumes "int (length (take (nat (int64 (n + 1))) xs)) = n"
  shows "take (nat (int64 (n + 1))) xs = xs"
proof -
  define q where "q = (n + 1 + 2 ^ 63) div 2 ^ 64"
  have i: "int64 (n + 1) = n + 1 - 2 ^ 64 * q"
    by (simp add: int64_def q_def minus_div_mult_eq_mod [symmetric] mult.commute)
  have n: "0 \<le> n" using assms by linarith
  then have "0 \<le> q" by (simp add: q_def pos_imp_zdiv_nonneg_iff)
  moreover have "q \<le> 0"
  proof (rule ccontr)
    assume "\<not> q \<le> 0"
    then have "2 ^ 64 \<le> 2 ^ 64 * q" by simp
    then have "int64 (n + 1) < n" using i by simp
    then show False using assms n by (cases "n = 0") (auto simp: int64_def)
  qed
  ultimately have "int64 (n + 1) = n + 1" using i by simp
  then show ?thesis using assms n by auto
qed

subsection \<open>Properties\<close>

lemma verify_Inr:
  assumes "verify env m opts read_err input fs = (Inr cs, fs')"
  shows "read_err = None \<and> int (length input) = am_size m
    \<and> hex_encode (ve_sha256 env input) = am_sha256 m
    \<and> (vo_expected opts \<noteq> '''' \<longrightarrow> map lower_char (vo_expected opts) = am_sha256 m)
    \<and> list_all2 (verified_copy env fs fs') (am_packages m) cs
    \<and> (\<exists>hs. op_entries (ve_open env input) (stream_bound (or_default (vo_limits opts))) = (hs, End_Of_Tar)
        \<and> distinct (map te_name hs) \<and> (\<forall>h \<in> set hs. accepted_entry (vo_key opts) (am_packages m) h)
        \<and> (\<forall>f \<in> {key_entry} \<union> pk_file ` set (am_packages m). out_root @ f \<in> te_name ` set hs))"
proof -
  let ?dat = "take (nat (int64 (am_size m + 1))) input"
  from assms have r: "read_err = None" "int (length ?dat) = am_size m"
      "hex_encode (ve_sha256 env ?dat) = am_sha256 m"
      "vo_expected opts \<noteq> '''' \<longrightarrow> map lower_char (vo_expected opts) = am_sha256 m"
      "scan env m opts ?dat fs = (Inr cs, fs')"
    by (auto simp: verify_def Let_def split: if_splits prod.splits option.splits)
  have dat: "?dat = input"
    using take_size_exact [OF r(2)] by simp
  obtain hs s where hs: "op_entries (ve_open env input) (stream_bound (or_default (vo_limits opts))) = (hs, End_Of_Tar)"
    and inv: "scan_inv env (vo_key opts) (am_packages m) fs hs s" and "ss_key s" "ss_files s = fs'"
    and cs: "map Some cs = ss_checked s"
    using scan_Inr [OF r(5)] unfolding dat by blast
  have len: "length cs = length (am_packages m)"
    using inv cs by (metis length_map scan_inv_def)
  have nth: "ss_checked s ! i = Some (cs ! i)" if "i < length (am_packages m)" for i
    using that len by (simp flip: cs)
  have "list_all2 (verified_copy env fs fs') (am_packages m) cs"
    using inv nth len \<open>ss_files s = fs'\<close> by (auto simp: list_all2_conv_all_nth scan_inv_def)
  moreover have "out_root @ f \<in> te_name ` set hs" if f: "f \<in> {key_entry} \<union> pk_file ` set (am_packages m)" for f
  proof (cases "f = key_entry")
    case True
    then show ?thesis using inv \<open>ss_key s\<close> by (auto simp: scan_inv_def image_iff) metis
  next
    case False
    then obtain i where "i < length (am_packages m)" "f = pk_file (am_packages m ! i)"
      using f by (auto simp: in_set_conv_nth)
    then show ?thesis using inv nth by (force simp: scan_inv_def image_iff)
  qed
  moreover have "distinct (map te_name hs)" "\<forall>h \<in> set hs. accepted_entry (vo_key opts) (am_packages m) h"
    using inv by (simp_all add: scan_inv_def)
  ultimately show ?thesis using r(1-4) hs unfolding dat by auto
qed

text \<open>C8. An archive that Verify accepts was read in full, has the size and sha256 of its manifest
  and the sha256 expected. Its entries are nothing but the directory \<^verbatim>\<open>out/\<close>, which may be absent, the
  expected signature key and the listed packages, no name twice; the key and every listed package are present.
  The result lists the manifest's packages in order; each file was absent before and now holds bytes that hash to
  the shipped sha512 and, unless publishConfig was stripped, to the original integrity.\<close>

theorem verify_accepts:
  assumes "verify env m opts read_err input fs = (Inr cs, fs')"
  shows "read_err = None \<and> int (length input) = am_size m
    \<and> hex_encode (ve_sha256 env input) = am_sha256 m
    \<and> (vo_expected opts \<noteq> '''' \<longrightarrow> map lower_char (vo_expected opts) = am_sha256 m)
    \<and> list_all2 (verified_copy env fs fs') (am_packages m) cs
    \<and> (\<exists>hs. op_entries (ve_open env input) (stream_bound (or_default (vo_limits opts))) = (hs, End_Of_Tar)
        \<and> distinct (map te_name hs) \<and> (\<forall>h \<in> set hs. accepted_entry (vo_key opts) (am_packages m) h)
        \<and> (\<forall>f \<in> {key_entry} \<union> pk_file ` set (am_packages m). out_root @ f \<in> te_name ` set hs))"
  using assms by (rule verify_Inr)

definition sample_package :: package where
  "sample_package = \<lparr>pk_name = ''ms'', pk_version = ''2.1.3'', pk_file = ''ms-2.1.3.tgz'', pk_integrity = '''',
     pk_sha512 = ''41'', pk_stripped = True\<rparr>"

definition sample_archive :: archive_manifest where
  "sample_archive = \<lparr>am_tool = ''1.0.0'', am_analysis = ''a'', am_created = ''t'',
     am_target = \<lparr>tg_os = ''linux'', tg_cpu = ''x64'', tg_libc = ''musl'', tg_node = ''22.0.0'', tg_pnpm = ''10.0.0''\<rparr>,
     am_sha256 = ''677a'', am_size = 2, am_packages = [sample_package]\<rparr>"

definition sample_tar :: "tar_entry list" where
  "sample_tar =
     [\<lparr>te_name = ''out/'', te_type = Directory, te_size = 0, te_pax = [], te_body = [], te_body_err = None\<rparr>,
      \<lparr>te_name = ''out/ms-2.1.3.tgz'', te_type = Reg_File, te_size = 1, te_pax = [], te_body = ''A'', te_body_err = None\<rparr>,
      \<lparr>te_name = ''out/signature.key'', te_type = Reg_File, te_size = 3, te_pax = [], te_body = ''key'', te_body_err = None\<rparr>]"

definition sample_env :: verify_env where
  "sample_env = \<lparr>ve_text = \<lparr>tx_printable = (\<lambda>_. True), tx_rfc3339 = (\<lambda>_. True), tx_quote = (\<lambda>s. ''q'' @ s @ ''q'')\<rparr>,
     ve_hash = (\<lambda>_ b. b), ve_sha256 = (\<lambda>b. b),
     ve_open = (\<lambda>_. \<lparr>op_gzip = Gzip_Ok, op_entries = (\<lambda>_. (sample_tar, End_Of_Tar)), op_rest = [], op_rest_err = None\<rparr>),
     ve_faults = (\<lambda>_. \<lparr>ff_open = None, ff_write = None, ff_close = None\<rparr>)\<rparr>"

definition sample_options :: verify_options where
  "sample_options = \<lparr>vo_expected = ''677A'', vo_key = ''key'', vo_absolute = True,
     vo_limits = \<lparr>lm_entries = 0, lm_unpacked = 0, lm_name_bytes = 0\<rparr>\<rparr>"

lemma sample_verify: "fst (verify sample_env sample_archive sample_options None ''gz'' Map.empty)
    = Inr [\<lparr>ck_package = sample_package, ck_file = ''ms-2.1.3.tgz'', ck_sha512 = ''A''\<rparr>]"
proof -
  have hex: "hex_encode ''gz'' = ''677a''" "hex_decode ''41'' = Some ''A''"
      "lower_char CHR ''6'' = CHR ''6''" "lower_char CHR ''7'' = CHR ''7''" "lower_char CHR ''A'' = CHR ''a''"
    by code_simp+
  have int: "int64 3 = 3" "int64 0 = 0" "int64 1 = 1" "int64 4 = 4" "int64 10737418240 = 10737418240"
      "int64 10737418239 = 10737418239"
    by (simp_all add: int64_def)
  have names: "check_entry_name tx h seen = Inr ()"
    if "te_name h \<notin> set seen" "h \<in> set sample_tar" for tx h seen
    using that by (auto simp: check_entry_name_Inr sample_tar_def out_root_def)
  let ?p = "\<lparr>pn_package = sample_package, pn_index = 0, pn_want = ''A'', pn_sri = None\<rparr>"
  let ?l = "\<lparr>lm_entries = 10000, lm_unpacked = 10737418240, lm_name_bytes = 255\<rparr>"
  have l: "listed_of [sample_package] = Inr [(''ms-2.1.3.tgz'', ?p)]" by code_simp
  have names: "check_entry_name tx (sample_tar ! 0) [] = Inr ()"
      "check_entry_name tx (sample_tar ! Suc 0) [''out/''] = Inr ()"
      "check_entry_name tx (sample_tar ! 2) [''out/ms-2.1.3.tgz'', ''out/''] = Inr ()" for tx
    by (simp_all add: check_entry_name_Inr sample_tar_def out_root_def)
  let ?c = "\<lparr>ck_package = sample_package, ck_file = ''ms-2.1.3.tgz'', ck_sha512 = ''A''\<rparr>"
  let ?s = "\<lparr>ss_checked = [None], ss_seen = [], ss_key = False, ss_unpacked = 0, ss_files = Map.empty\<rparr>"
  let ?scan = "\<lambda>n h s. scan_entry sample_env ?l ''key'' [(''ms-2.1.3.tgz'', ?p)] n h s"
  note defs = scan_entry_def Let_def sample_tar_def trim_prefix_def out_root_def key_entry_def sparse_prefix_def int
  have e0: "?scan 1 (sample_tar ! 0) ?s = (None, ?s\<lparr>ss_seen := [''out/'']\<rparr>)"
    using names by (simp add: defs)
  have e1: "?scan 2 (sample_tar ! Suc 0) \<lparr>ss_checked = [None], ss_seen = [''out/''], ss_key = False, ss_unpacked = 0, ss_files = Map.empty\<rparr> = (None,
      \<lparr>ss_checked = [Some ?c], ss_seen = [''out/ms-2.1.3.tgz'', ''out/''], ss_key = False, ss_unpacked = 1,
       ss_files = [''ms-2.1.3.tgz'' \<mapsto> ''A'']\<rparr>)"
    using names by (simp add: defs gm_get_def copy_package_def sample_package_def sample_env_def)
  have e2: "?scan 3 (sample_tar ! 2)
      \<lparr>ss_checked = [Some ?c], ss_seen = [''out/ms-2.1.3.tgz'', ''out/''], ss_key = False, ss_unpacked = 1,
       ss_files = [''ms-2.1.3.tgz'' \<mapsto> ''A'']\<rparr> = (None,
      \<lparr>ss_checked = [Some ?c], ss_seen = [''out/signature.key'', ''out/ms-2.1.3.tgz'', ''out/''], ss_key = True,
       ss_unpacked = 4, ss_files = [''ms-2.1.3.tgz'' \<mapsto> ''A'']\<rparr>)"
    using names by (simp add: defs check_key_def max_key_size_def)
  have tar: "sample_tar = [sample_tar ! 0, sample_tar ! Suc 0, sample_tar ! 2]" by (simp add: sample_tar_def)
  have "scan_entries sample_env ?l ''key'' [(''ms-2.1.3.tgz'', ?p)] 1 sample_tar End_Of_Tar ?s = (None,
      \<lparr>ss_checked = [Some ?c], ss_seen = [''out/signature.key'', ''out/ms-2.1.3.tgz'', ''out/''], ss_key = True,
       ss_unpacked = 4, ss_files = [''ms-2.1.3.tgz'' \<mapsto> ''A'']\<rparr>)"
    by (subst tar) (simp add: e0 e1 e2)
  then have "fst (scan sample_env sample_archive sample_options ''gz'' Map.empty) = Inr [?c]"
    by (simp add: scan_def Let_def sample_options_def sample_archive_def l or_default_def default_limits_def
        sample_env_def check_trailing_def first_absent_def)
  then show ?thesis
    by (cases "scan sample_env sample_archive sample_options ''gz'' Map.empty")
      (simp add: verify_def Let_def sample_options_def sample_archive_def sample_env_def hex int)
qed

theorem verify_accepts_witness:
  "\<exists>cs fs'. verify sample_env sample_archive sample_options None ''gz'' Map.empty = (Inr cs, fs')
     \<and> list_all2 (verified_copy sample_env Map.empty fs') [sample_package] cs"
proof -
  obtain cs fs' where v: "verify sample_env sample_archive sample_options None ''gz'' Map.empty = (Inr cs, fs')"
    using sample_verify by (metis prod.collapse)
  from verify_accepts [OF v] have "list_all2 (verified_copy sample_env Map.empty fs') (am_packages sample_archive) cs"
    by blast
  then show ?thesis using v by (auto simp: sample_archive_def)
qed

text \<open>Whatever its outcome, Verify creates only files of listed packages and never touches a
  file that was there; and when the archive's size is not the manifest's, that is the refusal
  it returns, whatever the entries hold.\<close>

theorem verify_never_overwrites:
  assumes "verify env m opts read_err input fs = (r, fs')"
  shows "(\<forall>f. fs' f \<noteq> fs f \<longrightarrow> fs f = None \<and> f \<in> pk_file ` set (am_packages m))
    \<and> (vo_absolute opts \<and> vo_key opts \<noteq> [] \<and> read_err = None \<and> int (length input) \<noteq> am_size m \<longrightarrow>
        r = Inl (Refused ''archive size differs from the manifest's''))"
proof
  have frame: "\<forall>f. fs2 f \<noteq> fs f \<longrightarrow> fs f = None \<and> f \<in> pk_file ` set (am_packages m)"
    if sc: "scan env m opts d fs = (q, fs2)" for d q fs2
  proof (cases "listed_of (am_packages m)")
    case (Inl e)
    then show ?thesis using sc by (simp add: scan_def Let_def)
  next
    case (Inr listed)
    let ?init = "\<lparr>ss_checked = replicate (length (am_packages m)) None, ss_seen = [], ss_key = False,
                ss_unpacked = 0, ss_files = fs\<rparr>"
    obtain hs fin where o': "op_entries (ve_open env d) (stream_bound (or_default (vo_limits opts))) = (hs, fin)"
      by fastforce
    obtain q2 s where s: "scan_entries env (or_default (vo_limits opts)) (vo_key opts) listed 1 hs fin ?init = (q2, s)"
      by fastforce
    have "\<forall>f. ss_files s f \<noteq> fs f \<longrightarrow> fs f = None \<and> f \<in> pk_file ` set (am_packages m)"
      by (rule scan_entries_files [OF Inr _ s]) simp
    moreover have "fs2 = fs \<or> fs2 = ss_files s"
      using sc Inr s o' by (auto simp: scan_def Let_def split: gzip_open.splits option.splits sum.splits if_splits)
    ultimately show ?thesis by auto
  qed
  obtain q fs2 where sc: "scan env m opts (take (nat (int64 (am_size m + 1))) input) fs = (q, fs2)" by fastforce
  then have "fs' = fs \<or> fs' = fs2" using assms by (auto simp: verify_def Let_def split: if_splits)
  then show "\<forall>f. fs' f \<noteq> fs f \<longrightarrow> fs f = None \<and> f \<in> pk_file ` set (am_packages m)"
    using frame [OF sc] by auto
  have "int (length (take (nat (int64 (am_size m + 1))) input)) \<noteq> am_size m" if "int (length input) \<noteq> am_size m"
    using take_size_exact that by metis
  then show "vo_absolute opts \<and> vo_key opts \<noteq> [] \<and> read_err = None \<and> int (length input) \<noteq> am_size m \<longrightarrow>
        r = Inl (Refused ''archive size differs from the manifest's'')"
    using assms sc by (auto simp: verify_def Let_def)
qed

theorem verify_never_overwrites_witness:
  "fst (verify sample_env sample_archive sample_options None ''gzx'' Map.empty)
     = Inl (Refused ''archive size differs from the manifest's'')"
proof -
  obtain r fs' where v: "verify sample_env sample_archive sample_options None ''gzx'' Map.empty = (r, fs')" by fastforce
  then show ?thesis
    using verify_never_overwrites [OF v] by (simp add: sample_options_def sample_archive_def)
qed

text \<open>For any limits that fit an int64, the bound on the inflated stream is the exact sum of the
  content, the framing of every entry and the end marker, or the largest int64 when that sum
  does not fit; no intermediate overflow makes it smaller.\<close>

theorem stream_bound_saturates:
  assumes "lm_entries l \<le> max_int64" "lm_unpacked l \<le> max_int64" "lm_name_bytes l \<le> max_int64"
  shows "stream_bound (or_default l) =
    (let d = or_default l in min max_int64 (lm_unpacked d + lm_entries d * (4096 + lm_name_bytes d) + 1024))"
  unfolding Let_def
  by (rule stream_bound_exact)
    (use or_default_pos assms in \<open>simp_all add: or_default_def default_limits_def Let_def\<close>)

theorem stream_bound_saturates_witness:
  "stream_bound (or_default \<lparr>lm_entries = 0, lm_unpacked = 0, lm_name_bytes = max_int64\<rparr>) = max_int64
   \<and> stream_bound (or_default \<lparr>lm_entries = 0, lm_unpacked = 0, lm_name_bytes = 0\<rparr>) = 10780929264"
proof -
  let ?l = "\<lparr>lm_entries = 0, lm_unpacked = 0, lm_name_bytes = max_int64\<rparr>"
    and ?d = "\<lparr>lm_entries = 0, lm_unpacked = 0, lm_name_bytes = 0\<rparr>"
  have "stream_bound (or_default ?l) = (let d = or_default ?l in
      min max_int64 (lm_unpacked d + lm_entries d * (4096 + lm_name_bytes d) + 1024))"
    "stream_bound (or_default ?d) = (let d = or_default ?d in
      min max_int64 (lm_unpacked d + lm_entries d * (4096 + lm_name_bytes d) + 1024))"
    by (rule stream_bound_saturates; simp)+
  then show ?thesis by (simp add: or_default_def default_limits_def Let_def)
qed

end
