(* ===== verification/Importer_Report.thy ===== *)
theory Importer_Report
  imports Npm_Registry
begin

text \<open>
  \<^verbatim>\<open>internal/importer/report.go\<close> and the result types of \<^verbatim>\<open>publish.go\<close>: what an import
  attempt says of its packages, how packages are counted, the exit code and the printed text.
\<close>

subsection \<open>Results\<close>

datatype pkg_state = Published | Present | Failed | Pending

datatype kind = Kind_Conflict | Kind_Nexus | Kind_Source | Kind_Interrupted | Kind_Mismatch | Kind_Local

fun state_name :: "pkg_state \<Rightarrow> string" where
  "state_name Published = ''published''"
| "state_name Present = ''present''"
| "state_name Failed = ''failed''"
| "state_name Pending = ''pending''"

record result =
  rs_name :: string
  rs_version :: string
  rs_file :: string
  rs_state :: pkg_state
  rs_reason :: string
  rs_note :: string
  rs_kind :: "kind option"

record counts =
  ct_published :: nat
  ct_present :: nat
  ct_failed :: nat

record archive_info =
  ai_file :: string
  ai_sha256 :: string
  ai_size :: int

record target_info =
  ti_os :: string
  ti_cpu :: string
  ti_libc :: string
  ti_node :: string
  ti_pnpm :: string

record nexus_info =
  ni_url :: string
  ni_repository :: string

record report =
  rp_outcome :: string
  rp_reason :: string
  rp_unencrypted :: bool
  rp_import_version :: string
  rp_archive :: archive_info
  rp_tool :: string
  rp_analysis :: string
  rp_target :: target_info
  rp_nexus :: nexus_info
  rp_counts :: counts
  rp_packages :: "result list"
  rp_checked :: "bool option"

definition outcome_complete :: string where "outcome_complete = ''complete''"
definition outcome_incomplete :: string where "outcome_incomplete = ''incomplete''"
definition outcome_refused :: string where "outcome_refused = ''refused''"

lemmas outcome_defs = outcome_complete_def outcome_incomplete_def outcome_refused_def

lemma outcomes_differ [simp]:
  "outcome_complete \<noteq> outcome_incomplete" "outcome_complete \<noteq> outcome_refused"
  "outcome_incomplete \<noteq> outcome_refused" "outcome_incomplete \<noteq> outcome_complete"
  "outcome_refused \<noteq> outcome_complete" "outcome_refused \<noteq> outcome_incomplete"
  by (simp_all add: outcome_defs)

text \<open>The zero values of Go.\<close>

definition zero_counts :: counts where
  "zero_counts = \<lparr>ct_published = 0, ct_present = 0, ct_failed = 0\<rparr>"

definition zero_report :: report where
  "zero_report = \<lparr>rp_outcome = '''', rp_reason = '''', rp_unencrypted = False, rp_import_version = '''',
     rp_archive = \<lparr>ai_file = '''', ai_sha256 = '''', ai_size = 0\<rparr>, rp_tool = '''', rp_analysis = '''',
     rp_target = \<lparr>ti_os = '''', ti_cpu = '''', ti_libc = '''', ti_node = '''', ti_pnpm = ''''\<rparr>,
     rp_nexus = \<lparr>ni_url = '''', ni_repository = ''''\<rparr>, rp_counts = zero_counts, rp_packages = [],
     rp_checked = None\<rparr>"

definition exit_code :: "report \<Rightarrow> int" where
  "exit_code r = (if rp_outcome r = outcome_complete then 0
     else if rp_outcome r = outcome_incomplete then 1 else 3)"

text \<open>What a run tells its caller while it goes: the \<^verbatim>\<open>Progress\<close> callbacks.\<close>

datatype progress = P_Listed report | P_Checked | P_Ended int result

subsection \<open>Counting\<close>

text \<open>\<open>count_result\<close> is one turn of the loop of \<^verbatim>\<open>recount\<close>: a pending package counts nowhere.\<close>

definition count_result :: "counts \<Rightarrow> result \<Rightarrow> counts" where
  "count_result c r = (case rs_state r of
     Published \<Rightarrow> c\<lparr>ct_published := ct_published c + 1\<rparr>
   | Present \<Rightarrow> c\<lparr>ct_present := ct_present c + 1\<rparr>
   | Failed \<Rightarrow> c\<lparr>ct_failed := ct_failed c + 1\<rparr>
   | Pending \<Rightarrow> c)"

definition recount :: "report \<Rightarrow> report" where
  "recount r = r\<lparr>rp_counts := foldl count_result zero_counts (rp_packages r)\<rparr>"

definition in_state :: "pkg_state \<Rightarrow> result list \<Rightarrow> nat" where
  "in_state s rs = length (filter (\<lambda>r. rs_state r = s) rs)"

lemma count_results:
  "foldl count_result c rs = \<lparr>ct_published = ct_published c + in_state Published rs,
     ct_present = ct_present c + in_state Present rs, ct_failed = ct_failed c + in_state Failed rs\<rparr>"
  by (induction rs arbitrary: c) (auto simp: count_result_def in_state_def split: pkg_state.splits)

lemma recount_counts [simp]:
  "rp_counts (recount r) = \<lparr>ct_published = in_state Published (rp_packages r),
     ct_present = in_state Present (rp_packages r), ct_failed = in_state Failed (rp_packages r)\<rparr>"
  by (simp add: recount_def count_results zero_counts_def)

lemma recount_rest [simp]:
  "rp_packages (recount r) = rp_packages r" "rp_outcome (recount r) = rp_outcome r"
  "rp_reason (recount r) = rp_reason r" "rp_checked (recount r) = rp_checked r"
  by (simp_all add: recount_def)

lemma recount_idem [simp]: "recount (recount r) = recount r"
  by (simp add: recount_def)

subsection \<open>The printed report\<close>

definition package_line :: "result \<Rightarrow> string" where
  "package_line r = rs_name r @ ''@'' @ rs_version r @ '' '' @ state_name (rs_state r) @ '' '' @ rs_file r
     @ (if rs_reason r \<noteq> '''' then '': '' @ rs_reason r else '''')
     @ (if rs_note r \<noteq> '''' then '' ('' @ rs_note r @ '')'' else '''')"

definition write_text :: "report \<Rightarrow> string list" where
  "write_text r =
     [''import '' @ rp_outcome r @ (if rp_unencrypted r then '' (unencrypted)'' else '''') @ '': ''
        @ show_nat (ct_published (rp_counts r)) @ '' published, '' @ show_nat (ct_present (rp_counts r)) @ '' present, ''
        @ show_nat (ct_failed (rp_counts r)) @ '' failed'']
     @ (if rp_unencrypted r then [''warning: the connection to nexus is not encrypted''] else [])
     @ (if rp_reason r \<noteq> '''' then [''reason: '' @ rp_reason r] else [])
     @ [''archive: '' @ ai_file (rp_archive r)
        @ (if ai_sha256 (rp_archive r) \<noteq> ''''
           then '', sha256 '' @ ai_sha256 (rp_archive r) @ '', '' @ show_int (ai_size (rp_archive r)) @ '' bytes''
           else '''')]
     @ [''import version: '' @ rp_import_version r]
     @ (if rp_tool r \<noteq> '''' \<or> rp_analysis r \<noteq> ''''
        then [''manifest: sealift '' @ rp_tool r @ '', analysis '' @ rp_analysis r @ '', target ''
          @ ti_os (rp_target r) @ '' '' @ ti_cpu (rp_target r) @ '' '' @ ti_libc (rp_target r)
          @ '', node '' @ ti_node (rp_target r) @ '', pnpm '' @ ti_pnpm (rp_target r)] else [])
     @ [''nexus: '' @ ni_url (rp_nexus r) @ '', repository '' @ ni_repository (rp_nexus r)]
     @ map package_line (rp_packages r)"

end
