(* ===== verification/Store_Imports.thy ===== *)
theory Store_Imports
  imports Importer_Report
begin

text \<open>
  \<^verbatim>\<open>internal/store/imports/{imports,retry,sweep}.go\<close>: the records of imports and their
  attempts. The data volume is a map from user and import id to the record file, absent,
  damaged or decoded, and the list of working directories. The mutex makes every operation one
  step. What the file system answers is an argument of each operation; a failing write leaves
  the old record, since it goes through a temporary file and a rename.
\<close>

subsection \<open>Names\<close>

definition user_head :: "char \<Rightarrow> bool" where
  "user_head c \<longleftrightarrow> is_lower c \<or> is_digit c"

definition user_char :: "char \<Rightarrow> bool" where
  "user_char c \<longleftrightarrow> is_lower c \<or> is_digit c \<or> c = CHR ''.'' \<or> c = CHR ''-''"

definition user_pattern :: rx where
  "user_pattern = Seq (Cls user_head) (rx_opt (Seq (rx_upto (Cls user_char) 56) (Cls user_head)))"

definition valid_user :: "string \<Rightarrow> bool" where
  "valid_user name \<longleftrightarrow> rx_match user_pattern name \<and> \<not> contains_str ''..'' name"

definition id_pattern :: rx where
  "id_pattern = rx_seqs [rx_times (Cls is_digit) 8, rx_chr CHR ''T'', rx_times (Cls is_digit) 6, rx_chr CHR ''Z'',
     rx_chr CHR ''-'', rx_times (Cls is_hex) 8]"

definition valid_id :: "string \<Rightarrow> bool" where
  "valid_id i \<longleftrightarrow> rx_match id_pattern i"

subsection \<open>Records\<close>

type_synonym time = int

datatype status = Queued | Running | Ended

fun status_name :: "status \<Rightarrow> string" where
  "status_name Queued = ''queued''"
| "status_name Running = ''running''"
| "status_name Ended = ''ended''"

definition outcome_interrupted :: string where "outcome_interrupted = ''interrupted''"

record object =
  ob_key :: string
  ob_etag :: string
  ob_size :: int

record removal =
  rm_removed :: bool
  rm_reason :: string

record attempt =
  at_n :: nat
  at_status :: status
  at_queued :: "time option"
  at_started :: "time option"
  at_ended :: "time option"
  at_outcome :: string
  at_report :: report
  at_removal :: "removal option"

record import_record =
  im_format :: int
  im_id :: string
  im_user :: string
  im_created :: time
  im_archive :: object
  im_manifest :: object
  im_expected :: string
  im_attempts :: "attempt list"

definition format_version :: int where "format_version = 1"

definition import_outcome :: "import_record \<Rightarrow> string" where
  "import_outcome i =
     (if im_attempts i = [] then status_name Queued
      else let a = last (im_attempts i) in if at_status a = Ended then at_outcome a else status_name (at_status a))"

definition archive_removed :: "import_record \<Rightarrow> bool" where
  "archive_removed i = list_ex (\<lambda>a. case at_removal a of None \<Rightarrow> False | Some r \<Rightarrow> rm_removed r) (im_attempts i)"

subsection \<open>The store\<close>

datatype stored = Damaged string | Record import_record

datatype store_error = Not_Found | Busy | Failure string

record store =
  st_files :: "string \<times> string \<Rightarrow> stored option"
  st_work :: "(string \<times> string \<times> nat) list"

record store_faults =
  sf_write :: "string option"
  sf_remove :: "string option"
  sf_mkdir :: "string option"

definition read_import :: "store \<Rightarrow> string \<Rightarrow> string \<Rightarrow> store_error + import_record" where
  "read_import st user i = (case st_files st (user, i) of
     None \<Rightarrow> Inl Not_Found
   | Some (Damaged e) \<Rightarrow> Inl (Failure (''imports: damaged record: '' @ e))
   | Some (Record imp) \<Rightarrow>
       if im_format imp \<noteq> format_version then Inl (Failure ''imports: format version'')
       else if im_id imp \<noteq> i then Inl (Failure ''imports: the record names another import'')
       else if im_user imp \<noteq> user then Inl Not_Found
       else Inr imp)"

lemma read_import_Inr: "read_import st user i = Inr imp \<longleftrightarrow> st_files st (user, i) = Some (Record imp)
    \<and> im_format imp = format_version \<and> im_id imp = i \<and> im_user imp = user"
  by (auto simp: read_import_def split: option.splits stored.splits if_splits)

definition write_import :: "store_faults \<Rightarrow> import_record \<Rightarrow> store \<Rightarrow> store_error + store" where
  "write_import ft imp st = (case sf_write ft of
     Some e \<Rightarrow> Inl (Failure (''imports: '' @ e))
   | None \<Rightarrow> Inr (st\<lparr>st_files := (st_files st)((im_user imp, im_id imp) \<mapsto> Record imp)\<rparr>))"

text \<open>\<^verbatim>\<open>update\<close>: nothing is written when the change fails.\<close>

definition update :: "store_faults \<Rightarrow> store \<Rightarrow> string \<Rightarrow> string
    \<Rightarrow> (import_record \<Rightarrow> store_error + import_record \<times> 'o) \<Rightarrow> (store_error + 'o) \<times> store" where
  "update ft st user i change =
     (if \<not> valid_user user \<or> \<not> valid_id i then (Inl Not_Found, st)
      else case read_import st user i of Inl e \<Rightarrow> (Inl e, st)
      | Inr imp \<Rightarrow>
          if im_attempts imp = [] then (Inl (Failure ''imports: the record has no attempt''), st)
          else case change imp of Inl e \<Rightarrow> (Inl e, st)
          | Inr (imp', out) \<Rightarrow>
              (case write_import ft imp' st of Inl e \<Rightarrow> (Inl e, st) | Inr st' \<Rightarrow> (Inr out, st')))"

definition set_last :: "attempt \<Rightarrow> import_record \<Rightarrow> import_record" where
  "set_last a imp = imp\<lparr>im_attempts := butlast (im_attempts imp) @ [a]\<rparr>"

definition attempt_error :: "attempt \<Rightarrow> string \<Rightarrow> store_error" where
  "attempt_error a why = Failure (''imports: attempt '' @ show_nat (at_n a) @ why)"

definition new_attempt :: "nat \<Rightarrow> time \<Rightarrow> attempt" where
  "new_attempt n now = \<lparr>at_n = n, at_status = Queued, at_queued = Some now, at_started = None, at_ended = None,
     at_outcome = '''', at_report = zero_report, at_removal = None\<rparr>"

subsection \<open>Create, Get and List\<close>

text \<open>The ids drawn and, for each, what \<^verbatim>\<open>os.Mkdir\<close> says when the directory does not exist. A
  directory that exists makes Create draw again, five times at most.\<close>

fun create_ids :: "store_faults \<Rightarrow> store \<Rightarrow> string \<Rightarrow> object \<Rightarrow> object \<Rightarrow> string \<Rightarrow> time \<Rightarrow> string list
    \<Rightarrow> (store_error + import_record) \<times> store" where
  "create_ids ft st user archive mani expected now [] = (Inl (Failure ''imports: could not draw a free id''), st)"
| "create_ids ft st user archive mani expected now (i # ids) =
     (if st_files st (user, i) \<noteq> None then create_ids ft st user archive mani expected now ids
      else case sf_mkdir ft of Some e \<Rightarrow> (Inl (Failure (''imports: '' @ e)), st)
      | None \<Rightarrow>
          let imp = \<lparr>im_format = format_version, im_id = i, im_user = user, im_created = now, im_archive = archive,
                     im_manifest = mani, im_expected = expected, im_attempts = [new_attempt 1 now]\<rparr> in
          (case write_import ft imp st of Inl e \<Rightarrow> (Inl e, st) | Inr st' \<Rightarrow> (Inr imp, st')))"

definition id_attempts :: nat where "id_attempts = 5"

definition create :: "store_faults \<Rightarrow> store \<Rightarrow> string \<Rightarrow> object \<Rightarrow> object \<Rightarrow> string \<Rightarrow> time \<Rightarrow> string list
    \<Rightarrow> (store_error + import_record) \<times> store" where
  "create ft st user archive mani expected now ids =
     (if \<not> valid_user user then (Inl (Failure ''imports: invalid user''), st)
      else create_ids ft st user archive mani expected now (take id_attempts ids))"

definition get_import :: "store \<Rightarrow> string \<Rightarrow> string \<Rightarrow> store_error + import_record" where
  "get_import st user i = (if \<not> valid_user user \<or> \<not> valid_id i then Inl Not_Found else read_import st user i)"

lemma get_import_own: "get_import st user i = Inr imp \<Longrightarrow> im_user imp = user \<and> im_id imp = i"
  by (auto simp: get_import_def read_import_def split: if_splits option.splits stored.splits)

definition cmp_import :: "import_record \<Rightarrow> import_record \<Rightarrow> int" where
  "cmp_import a b = cmp_or [go_compare (im_created b) (im_created a), go_compare (im_id b) (im_id a)]"

text \<open>\<open>ids\<close> are the directories of the user's folder; a damaged record is left out.\<close>

definition list_imports :: "store \<Rightarrow> string \<Rightarrow> string list \<Rightarrow> import_record list" where
  "list_imports st user ids = (if \<not> valid_user user then []
     else sort_func cmp_import (List.map_filter
       (\<lambda>i. if valid_id i then (case read_import st user i of Inl _ \<Rightarrow> None | Inr imp \<Rightarrow> Some imp) else None) ids))"

subsection \<open>The life of an attempt\<close>

text \<open>Begin makes the working directory before it writes the record, so a failed write leaves the
  directory behind and the attempt queued.\<close>

definition begin_attempt :: "store_faults \<Rightarrow> store \<Rightarrow> string \<Rightarrow> string \<Rightarrow> time \<Rightarrow> (store_error + nat) \<times> store" where
  "begin_attempt ft st user i now =
     (if \<not> valid_user user \<or> \<not> valid_id i then (Inl Not_Found, st)
      else case read_import st user i of Inl e \<Rightarrow> (Inl e, st)
      | Inr imp \<Rightarrow>
          if im_attempts imp = [] then (Inl (Failure ''imports: the record has no attempt''), st)
          else
           (let a = last (im_attempts imp); work = (user, i, at_n a) in
            if at_status a \<noteq> Queued then (Inl (attempt_error a '' is not queued''), st)
            else case sf_remove ft of Some e \<Rightarrow> (Inl (Failure (''imports: '' @ e)), st)
            | None \<Rightarrow>
                let st1 = st\<lparr>st_work := removeAll work (st_work st)\<rparr> in
                case sf_mkdir ft of Some e \<Rightarrow> (Inl (Failure (''imports: '' @ e)), st1)
                | None \<Rightarrow>
                    let st2 = st1\<lparr>st_work := work # st_work st1\<rparr> in
                    (case write_import ft (set_last (a\<lparr>at_status := Running, at_started := Some now\<rparr>) imp) st2 of
                       Inl e \<Rightarrow> (Inl e, st2) | Inr st' \<Rightarrow> (Inr (at_n a), st'))))"

definition running_attempt :: "import_record \<Rightarrow> nat \<Rightarrow> store_error + attempt" where
  "running_attempt imp n =
     (let a = last (im_attempts imp) in
      if at_n a \<noteq> n then Inl (Failure ''imports: attempt is not the latest'')
      else if at_status a \<noteq> Running then Inl (attempt_error a '' is not running'')
      else Inr a)"

text \<open>The changes \<^verbatim>\<open>Listed\<close>, \<^verbatim>\<open>Checked\<close>, \<^verbatim>\<open>Ended\<close>, \<^verbatim>\<open>Finish\<close>, \<^verbatim>\<open>Removed\<close>, \<^verbatim>\<open>Retry\<close> and
  \<^verbatim>\<open>endUnfinished\<close> hand to \<^verbatim>\<open>update\<close>, and the operations.\<close>

definition listed_change :: "nat \<Rightarrow> report \<Rightarrow> import_record \<Rightarrow> store_error + import_record \<times> unit" where
  "listed_change n rep imp = try_bind (running_attempt imp n) (\<lambda>a.
     Inr (set_last (a\<lparr>at_report := recount rep\<rparr>) imp, ()))"

definition listed :: "store_faults \<Rightarrow> store \<Rightarrow> string \<Rightarrow> string \<Rightarrow> nat \<Rightarrow> report \<Rightarrow> (store_error + unit) \<times> store" where
  "listed ft st user i n rep = update ft st user i (listed_change n rep)"

definition checked_change :: "nat \<Rightarrow> import_record \<Rightarrow> store_error + import_record \<times> unit" where
  "checked_change n imp = try_bind (running_attempt imp n) (\<lambda>a.
     Inr (set_last (a\<lparr>at_report := (at_report a)\<lparr>rp_checked := Some True\<rparr>\<rparr>) imp, ()))"

definition checked :: "store_faults \<Rightarrow> store \<Rightarrow> string \<Rightarrow> string \<Rightarrow> nat \<Rightarrow> (store_error + unit) \<times> store" where
  "checked ft st user i n = update ft st user i (checked_change n)"

definition ended_change :: "nat \<Rightarrow> int \<Rightarrow> result \<Rightarrow> import_record \<Rightarrow> store_error + import_record \<times> unit" where
  "ended_change n k r imp = try_bind (running_attempt imp n) (\<lambda>a.
     if k < 0 \<or> int (length (rp_packages (at_report a))) \<le> k
     then Inl (Failure ''imports: package is not in the list'')
     else Inr (set_last (a\<lparr>at_report := recount ((at_report a)
       \<lparr>rp_packages := (rp_packages (at_report a))[nat k := r]\<rparr>)\<rparr>) imp, ()))"

definition ended :: "store_faults \<Rightarrow> store \<Rightarrow> string \<Rightarrow> string \<Rightarrow> nat \<Rightarrow> int \<Rightarrow> result \<Rightarrow> (store_error + unit) \<times> store" where
  "ended ft st user i n k r = update ft st user i (ended_change n k r)"

text \<open>The working directory goes after the record says the attempt ended.\<close>

definition remove_work :: "store_faults \<Rightarrow> string \<Rightarrow> string \<Rightarrow> nat \<Rightarrow> store \<Rightarrow> (store_error + unit) \<times> store" where
  "remove_work ft user i n st = (case sf_remove ft of
     Some e \<Rightarrow> (Inl (Failure (''imports: '' @ e)), st)
   | None \<Rightarrow> (Inr (), st\<lparr>st_work := removeAll (user, i, n) (st_work st)\<rparr>))"

definition finish_change :: "nat \<Rightarrow> report \<Rightarrow> removal option \<Rightarrow> time \<Rightarrow> import_record
    \<Rightarrow> store_error + import_record \<times> nat" where
  "finish_change n rep rm now imp = (let a = last (im_attempts imp) in
     if at_n a \<noteq> n then Inl (Failure ''imports: attempt is not the latest'')
     else if at_status a = Ended then Inl (attempt_error a '' already ended'')
     else Inr (set_last (a\<lparr>at_status := Ended, at_ended := Some now, at_outcome := rp_outcome rep,
                          at_report := rep, at_removal := rm\<rparr>) imp, at_n a))"

definition finish :: "store_faults \<Rightarrow> store \<Rightarrow> string \<Rightarrow> string \<Rightarrow> nat \<Rightarrow> report \<Rightarrow> removal option \<Rightarrow> time
    \<Rightarrow> (store_error + unit) \<times> store" where
  "finish ft st user i n rep rm now = (case update ft st user i (finish_change n rep rm now) of
     (Inl e, st') \<Rightarrow> (Inl e, st')
   | (Inr k, st') \<Rightarrow> remove_work ft user i k st')"

text \<open>\<^verbatim>\<open>slices.IndexFunc\<close>.\<close>

fun index_of :: "('a \<Rightarrow> bool) \<Rightarrow> 'a list \<Rightarrow> nat option" where
  "index_of p [] = None"
| "index_of p (x # xs) = (if p x then Some 0 else map_option Suc (index_of p xs))"

definition removed_change :: "nat \<Rightarrow> removal \<Rightarrow> import_record \<Rightarrow> store_error + import_record \<times> unit" where
  "removed_change n rm imp = (case index_of (\<lambda>a. at_n a = n) (im_attempts imp) of
     None \<Rightarrow> Inl (Failure ''imports: no attempt'')
   | Some k \<Rightarrow>
       let a = im_attempts imp ! k in
       if at_status a \<noteq> Ended \<or> at_outcome a \<noteq> outcome_complete then Inl (attempt_error a '' did not end complete'')
       else if at_removal a \<noteq> None then Inl (attempt_error a '' already has a removal'')
       else Inr (imp\<lparr>im_attempts := (im_attempts imp)[k := a\<lparr>at_removal := Some rm\<rparr>]\<rparr>, ()))"

definition removed :: "store_faults \<Rightarrow> store \<Rightarrow> string \<Rightarrow> string \<Rightarrow> nat \<Rightarrow> removal \<Rightarrow> (store_error + unit) \<times> store" where
  "removed ft st user i n rm = update ft st user i (removed_change n rm)"

definition retry_change :: "time \<Rightarrow> import_record \<Rightarrow> store_error + import_record \<times> import_record" where
  "retry_change now imp = (let l = last (im_attempts imp) in
     if at_status l \<noteq> Ended then Inl Busy
     else let imp' = imp\<lparr>im_attempts := im_attempts imp @ [new_attempt (at_n l + 1) now]\<rparr> in Inr (imp', imp'))"

definition retry :: "store_faults \<Rightarrow> store \<Rightarrow> string \<Rightarrow> string \<Rightarrow> time \<Rightarrow> (store_error + import_record) \<times> store" where
  "retry ft st user i now = update ft st user i (retry_change now)"

definition fail_pending :: "string \<Rightarrow> result \<Rightarrow> result" where
  "fail_pending why r = (if rs_state r = Pending
     then r\<lparr>rs_state := Failed, rs_reason := why, rs_kind := Some Kind_Interrupted\<rparr> else r)"

definition end_change :: "string \<Rightarrow> string \<Rightarrow> string \<Rightarrow> time \<Rightarrow> import_record
    \<Rightarrow> store_error + import_record \<times> nat option" where
  "end_change outcome reason why now imp = (let a = last (im_attempts imp) in
     if at_status a = Ended then Inr (imp, None)
     else let rep = (at_report a)\<lparr>rp_outcome := outcome, rp_reason := reason,
                      rp_packages := map (fail_pending why) (rp_packages (at_report a))\<rparr> in
       Inr (set_last (a\<lparr>at_status := Ended, at_ended := Some now, at_outcome := outcome, at_removal := None,
                        at_report := recount rep\<rparr>) imp, Some (at_n a)))"

definition end_unfinished :: "store_faults \<Rightarrow> store \<Rightarrow> string \<Rightarrow> string \<Rightarrow> string \<Rightarrow> string \<Rightarrow> string \<Rightarrow> time
    \<Rightarrow> (store_error + unit) \<times> store" where
  "end_unfinished ft st user i outcome reason why now =
     (case update ft st user i (end_change outcome reason why now) of
        (Inl e, st') \<Rightarrow> (Inl e, st')
      | (Inr None, st') \<Rightarrow> (Inr (), st')
      | (Inr (Some k), st') \<Rightarrow> remove_work ft user i k st')"

definition abandon :: "store_faults \<Rightarrow> store \<Rightarrow> string \<Rightarrow> string \<Rightarrow> string \<Rightarrow> time \<Rightarrow> (store_error + unit) \<times> store" where
  "abandon ft st user i reason now =
     end_unfinished ft st user i outcome_interrupted reason outcome_interrupted now"

definition break_attempt :: "store_faults \<Rightarrow> store \<Rightarrow> string \<Rightarrow> string \<Rightarrow> string \<Rightarrow> time \<Rightarrow> (store_error + unit) \<times> store" where
  "break_attempt ft st user i reason now =
     end_unfinished ft st user i outcome_incomplete reason ''not reached'' now"

subsection \<open>The sweep at startup\<close>

definition sweep_attempt :: "time \<Rightarrow> attempt \<Rightarrow> attempt" where
  "sweep_attempt now a =
     (let a = (if at_status a \<noteq> Ended
               then a\<lparr>at_status := Ended, at_ended := Some now, at_outcome := outcome_interrupted,
                      at_report := (if rp_outcome (at_report a) = ''''
                        then (at_report a)\<lparr>rp_outcome := outcome_incomplete, rp_reason := outcome_interrupted\<rparr>
                        else at_report a)\<rparr>
               else a)
      in a\<lparr>at_report := recount ((at_report a)
             \<lparr>rp_packages := map (fail_pending outcome_interrupted) (rp_packages (at_report a))\<rparr>)\<rparr>)"

definition needs_sweep :: "attempt \<Rightarrow> bool" where
  "needs_sweep a \<longleftrightarrow> at_status a \<noteq> Ended \<or> list_ex (\<lambda>r. rs_state r = Pending) (rp_packages (at_report a))"

definition sweep_one :: "store_faults \<Rightarrow> store \<Rightarrow> string \<Rightarrow> string \<Rightarrow> time \<Rightarrow> (store_error + nat) \<times> store" where
  "sweep_one ft st user i now = (case read_import st user i of
     Inl e \<Rightarrow> (Inl e, st)
   | Inr imp \<Rightarrow>
       let marked = length (filter (\<lambda>a. at_status a \<noteq> Ended) (im_attempts imp));
           imp' = imp\<lparr>im_attempts := map (sweep_attempt now) (im_attempts imp)\<rparr> in
       case (if list_ex needs_sweep (im_attempts imp) then write_import ft imp' st else Inr st) of
         Inl e \<Rightarrow> (Inl e, st)
       | Inr st' \<Rightarrow> (case sf_remove ft of
           Some e \<Rightarrow> (Inl (Failure e), st')
         | None \<Rightarrow> (Inr marked, st'\<lparr>st_work := filter (\<lambda>(u, j, n). \<not> (u = user \<and> j = i)) (st_work st')\<rparr>)))"

text \<open>\<open>dirs\<close> are the directories found below the root, in the order they are read; an import that
  fails is skipped.\<close>

definition sweep_step :: "(string \<Rightarrow> string \<Rightarrow> store_faults) \<Rightarrow> time \<Rightarrow> nat \<times> store \<Rightarrow> string \<times> string \<Rightarrow> nat \<times> store" where
  "sweep_step ft now acc d = (case d of (user, i) \<Rightarrow>
     if \<not> valid_user user \<or> \<not> valid_id i then acc
     else (case sweep_one (ft user i) (snd acc) user i now of
       (Inl _, st') \<Rightarrow> (fst acc, st')
     | (Inr n, st') \<Rightarrow> (fst acc + n, st')))"

definition sweep :: "(string \<Rightarrow> string \<Rightarrow> store_faults) \<Rightarrow> store \<Rightarrow> (string \<times> string) list \<Rightarrow> time \<Rightarrow> nat \<times> store" where
  "sweep ft st dirs now = foldl (sweep_step ft now) (0, st) dirs"

subsection \<open>Well-formed records\<close>

text \<open>A report a run may end with: no package pending, and counts that are those of the packages.\<close>

definition good_report :: "report \<Rightarrow> bool" where
  "good_report r \<longleftrightarrow> (\<forall>p \<in> set (rp_packages r). rs_state p \<noteq> Pending) \<and> recount r = r"

text \<open>What Finish may be handed is a parameter: the code takes any report and any removal. \<open>good_finish\<close> is what its one
  caller hands it, \<^verbatim>\<open>Queue.process\<close> with the report of a run and no removal.\<close>

type_synonym finishes = "report \<Rightarrow> removal option \<Rightarrow> bool"

definition good_finish :: finishes where
  "good_finish rep rm \<longleftrightarrow> good_report rep \<and> (rm \<noteq> None \<longrightarrow> rp_outcome rep = outcome_complete)"

text \<open>What the sweep makes of a report that it finds in an ended attempt.\<close>

definition settle :: "report \<Rightarrow> report" where
  "settle r = recount (r\<lparr>rp_packages := map (fail_pending outcome_interrupted) (rp_packages r)\<rparr>)"

text \<open>An ended attempt holds a good report, and a removal only if complete; or what Finish was handed, perhaps settled,
  perhaps with a removal recorded later.\<close>

definition good_end :: "attempt \<Rightarrow> bool" where
  "good_end a \<longleftrightarrow> good_report (at_report a) \<and> (at_removal a \<noteq> None \<longrightarrow> at_outcome a = outcome_complete)"

definition finished_with :: "report \<Rightarrow> removal option \<Rightarrow> attempt \<Rightarrow> bool" where
  "finished_with rep rm a \<longleftrightarrow> at_outcome a = rp_outcome rep \<and> (at_report a = rep \<or> at_report a = settle rep)
     \<and> (at_removal a = rm \<or> rm = None \<and> rp_outcome rep = outcome_complete)"

definition wf_attempt :: "finishes \<Rightarrow> attempt \<Rightarrow> bool" where
  "wf_attempt F a \<longleftrightarrow> (case at_status a of
     Queued \<Rightarrow> at_started a = None \<and> at_ended a = None \<and> at_outcome a = '''' \<and> at_removal a = None
       \<and> at_report a = zero_report
   | Running \<Rightarrow> at_started a \<noteq> None \<and> at_ended a = None \<and> at_outcome a = '''' \<and> at_removal a = None
       \<and> recount (at_report a) = at_report a
   | Ended \<Rightarrow> at_ended a \<noteq> None \<and> (good_end a \<or> (\<exists>rep rm. F rep rm \<and> finished_with rep rm a)))"

definition wf_import :: "finishes \<Rightarrow> import_record \<Rightarrow> bool" where
  "wf_import F imp \<longleftrightarrow> im_format imp = format_version \<and> im_attempts imp \<noteq> []
     \<and> map at_n (im_attempts imp) = [1..<length (im_attempts imp) + 1]
     \<and> (\<forall>a \<in> set (im_attempts imp). wf_attempt F a)
     \<and> (\<forall>a \<in> set (butlast (im_attempts imp)). at_status a = Ended)"

text \<open>How one attempt may change: its number stays, its status only moves on, and once it has
  ended only the removal of a complete one may be added, once, and its report settled, which leaves a good one as it is.\<close>

fun status_rank :: "status \<Rightarrow> nat" where
  "status_rank Queued = 0"
| "status_rank Running = 1"
| "status_rank Ended = 2"

definition attempt_grows :: "attempt \<Rightarrow> attempt \<Rightarrow> bool" where
  "attempt_grows a b \<longleftrightarrow> at_n b = at_n a \<and> status_rank (at_status a) \<le> status_rank (at_status b)
     \<and> (at_status a = Ended \<longrightarrow> (\<exists>rep rm. b = a\<lparr>at_report := rep, at_removal := rm\<rparr> \<and> (rep = at_report a \<or> rep = settle (at_report a))
          \<and> (rm = at_removal a \<or> at_outcome a = outcome_complete \<and> at_removal a = None)))"

definition import_grows :: "import_record \<Rightarrow> import_record \<Rightarrow> bool" where
  "import_grows x y \<longleftrightarrow> im_id y = im_id x \<and> im_user y = im_user x \<and> im_created y = im_created x
     \<and> im_archive y = im_archive x \<and> im_manifest y = im_manifest x \<and> im_expected y = im_expected x
     \<and> length (im_attempts x) \<le> length (im_attempts y)
     \<and> (\<forall>k < length (im_attempts x). attempt_grows (im_attempts x ! k) (im_attempts y ! k))"

definition store_ok :: "finishes \<Rightarrow> store \<Rightarrow> bool" where
  "store_ok F st \<longleftrightarrow> (\<forall>user i imp. st_files st (user, i) = Some (Record imp) \<longrightarrow> wf_import F imp
     \<and> im_user imp = user \<and> im_id imp = i)"

definition store_grows :: "store \<Rightarrow> store \<Rightarrow> bool" where
  "store_grows st st' \<longleftrightarrow> (\<forall>key imp. st_files st key = Some (Record imp) \<longrightarrow>
     (\<exists>imp'. st_files st' key = Some (Record imp') \<and> import_grows imp imp'))"

lemma status_rank_le [simp]: "status_rank s \<le> 2"
  by (cases s) simp_all

lemma recount_again [simp]: "recount (recount r) = recount r" "rp_packages (recount r) = rp_packages r"
  by (simp_all add: recount_def)

lemma fail_pending_done [simp]: "rs_state (fail_pending why r) \<noteq> Pending"
  by (simp add: fail_pending_def)

lemma fail_pending_id: "\<forall>p \<in> set ps. rs_state p \<noteq> Pending \<Longrightarrow> map (fail_pending why) ps = ps"
  by (induction ps) (auto simp: fail_pending_def)

lemma settle_good [simp]: "good_report r \<Longrightarrow> settle r = r"
  by (simp add: settle_def good_report_def fail_pending_id)

lemma good_settle [simp]: "good_report (settle r)"
  by (simp add: settle_def good_report_def)

lemma attempt_grows_refl [simp, intro]: "attempt_grows a a"
  unfolding attempt_grows_def by (intro conjI impI exI [of _ "at_report a"] exI [of _ "at_removal a"]) simp_all

lemma import_grows_refl [simp, intro]: "import_grows x x"
  by (simp add: import_grows_def)

lemma store_grows_refl [simp, intro]: "store_grows st st"
  by (auto simp: store_grows_def)

lemma attempt_grows_trans:
  assumes ab: "attempt_grows a b" and bc: "attempt_grows b c"
  shows "attempt_grows a c"
proof (cases "at_status a = Ended")
  case True
  from ab True obtain rep rm where b: "b = a\<lparr>at_report := rep, at_removal := rm\<rparr>" "rep = at_report a \<or> rep = settle (at_report a)"
      "rm = at_removal a \<or> at_outcome a = outcome_complete \<and> at_removal a = None"
    unfolding attempt_grows_def by blast
  then have "at_status b = Ended" using True by simp
  with bc obtain rep' rm' where c: "c = b\<lparr>at_report := rep', at_removal := rm'\<rparr>" "rep' = rep \<or> rep' = settle rep"
      "rm' = rm \<or> at_outcome a = outcome_complete \<and> rm = None"
    unfolding attempt_grows_def b by auto
  have "c = a\<lparr>at_report := rep', at_removal := rm'\<rparr>" by (simp add: c(1) b(1))
  moreover have "rep' = at_report a \<or> rep' = settle (at_report a)" using b(2) c(2) by auto
  moreover have "rm' = at_removal a \<or> at_outcome a = outcome_complete \<and> at_removal a = None" using b(3) c(3) by auto
  ultimately show ?thesis using ab bc unfolding attempt_grows_def by (auto simp: c(1) b(1))
next
  case False
  then show ?thesis using assms by (simp add: attempt_grows_def)
qed

lemma import_grows_trans:
  assumes "import_grows x y" "import_grows y z"
  shows "import_grows x z"
  using assms attempt_grows_trans unfolding import_grows_def by (auto dest: order_less_le_trans)

lemma store_grows_trans: "store_grows a b \<Longrightarrow> store_grows b c \<Longrightarrow> store_grows a c"
  unfolding store_grows_def by (meson import_grows_trans)

subsection \<open>Every change keeps records well-formed and history fixed\<close>

lemma set_last_ok:
  assumes wf: "wf_import F imp" and b: "wf_attempt F b" "attempt_grows (last (im_attempts imp)) b"
  shows "wf_import F (set_last b imp) \<and> import_grows imp (set_last b imp)"
proof -
  obtain xs a where x: "im_attempts imp = xs @ [a]"
    using wf by (metis append_butlast_last_id wf_import_def)
  then have "at_n b = at_n a" using b(2) by (simp add: attempt_grows_def)
  then have "wf_import F (set_last b imp)"
    using wf b(1) x by (auto simp: wf_import_def set_last_def)
  moreover have "import_grows imp (set_last b imp)"
    using b(2) x by (auto simp: import_grows_def set_last_def nth_append)
  ultimately show ?thesis by blast
qed

lemma wf_last: "wf_import F imp \<Longrightarrow> wf_attempt F (last (im_attempts imp))"
  by (simp add: wf_import_def)

lemma running_attempt_Inr: "running_attempt imp n = Inr a \<longleftrightarrow>
    a = last (im_attempts imp) \<and> at_n a = n \<and> at_status a = Running"
  by (auto simp: running_attempt_def Let_def)

lemma store_set_ok:
  assumes "store_ok F st" "st_files st (user, i) = Some (Record imp)" "wf_import F new" "import_grows imp new"
    and "st_files st' = (st_files st)((user, i) \<mapsto> Record new)"
  shows "store_ok F st' \<and> store_grows st st'"
proof -
  have "im_user new = user" "im_id new = i"
    using assms(1,2,4) by (auto simp: store_ok_def import_grows_def)
  then show ?thesis using assms by (auto simp: store_ok_def store_grows_def)
qed

text \<open>The contract between \<^verbatim>\<open>update\<close> and the changes the operations hand to it.\<close>

locale record_change =
  fixes F :: finishes and change :: "import_record \<Rightarrow> store_error + import_record \<times> 'o"
  assumes keeps: "wf_import F imp \<Longrightarrow> change imp = Inr (imp', out) \<Longrightarrow> wf_import F imp' \<and> import_grows imp imp'"
begin

lemma update_keeps:
  assumes "store_ok F st" "update ft st user i change = (r, st')"
  shows "store_ok F st' \<and> store_grows st st' \<and> st_work st' = st_work st"
proof (cases r)
  case (Inl e)
  then have "st' = st"
    using assms(2) by (auto simp: update_def split: if_splits sum.splits prod.splits)
  then show ?thesis using assms(1) by simp
next
  case (Inr out)
  then obtain imp imp' where f: "st_files st (user, i) = Some (Record imp)" and c: "change imp = Inr (imp', out)"
    and st': "st' = st\<lparr>st_files := (st_files st)((im_user imp', im_id imp') \<mapsto> Record imp')\<rparr>"
    using assms(2)
    by (auto simp: update_def read_import_def write_import_def
        split: if_splits sum.splits prod.splits option.splits stored.splits)
  then have imp: "wf_import F imp" "im_user imp = user" "im_id imp = i" using assms(1) by (auto simp: store_ok_def)
  with keeps [OF imp(1) c] have imp': "wf_import F imp'" "import_grows imp imp'" "im_user imp' = user" "im_id imp' = i"
    by (auto simp: import_grows_def)
  then show ?thesis using store_set_ok [OF assms(1) f imp'(1,2), of st'] by (simp add: st')
qed

lemma update_reads:
  assumes "update ft st user i change = (Inr out, st')"
  shows "\<exists>imp imp'. valid_user user \<and> valid_id i \<and> st_files st (user, i) = Some (Record imp) \<and> im_attempts imp \<noteq> []
    \<and> change imp = Inr (imp', out) \<and> st' = st\<lparr>st_files := (st_files st)((im_user imp', im_id imp') \<mapsto> Record imp')\<rparr>"
  using assms
  by (auto simp: update_def read_import_def write_import_def
      split: if_splits sum.splits prod.splits option.splits stored.splits)

end

interpretation listed: record_change F "listed_change n rep" for F n rep
proof
  fix imp imp' out assume wf: "wf_import F imp" and "listed_change n rep imp = Inr (imp', out)"
  then obtain a where a: "a = last (im_attempts imp)" "at_status a = Running"
    and imp': "imp' = set_last (a\<lparr>at_report := recount rep\<rparr>) imp"
    by (auto simp: listed_change_def try_bind_Inr running_attempt_Inr)
  show "wf_import F imp' \<and> import_grows imp imp'"
    unfolding imp' using wf_last [OF wf] a
    by (intro set_last_ok [OF wf]) (auto simp: wf_attempt_def attempt_grows_def)
qed

interpretation checked: record_change F "checked_change n" for F n
proof
  fix imp imp' out assume wf: "wf_import F imp" and "checked_change n imp = Inr (imp', out)"
  then obtain a where a: "a = last (im_attempts imp)" "at_status a = Running"
    and imp': "imp' = set_last (a\<lparr>at_report := (at_report a)\<lparr>rp_checked := Some True\<rparr>\<rparr>) imp"
    by (auto simp: checked_change_def try_bind_Inr running_attempt_Inr)
  have "recount ((at_report a)\<lparr>rp_checked := Some True\<rparr>) = (recount (at_report a))\<lparr>rp_checked := Some True\<rparr>"
    by (simp add: recount_def)
  then show "wf_import F imp' \<and> import_grows imp imp'"
    unfolding imp' using wf_last [OF wf] a
    by (intro set_last_ok [OF wf]) (auto simp: wf_attempt_def attempt_grows_def)
qed

interpretation ended: record_change F "ended_change n k r" for F n k r
proof
  fix imp imp' out assume wf: "wf_import F imp" and "ended_change n k r imp = Inr (imp', out)"
  then obtain a where a: "a = last (im_attempts imp)" "at_status a = Running"
    and imp': "imp' = set_last (a\<lparr>at_report := recount ((at_report a)
       \<lparr>rp_packages := (rp_packages (at_report a))[nat k := r]\<rparr>)\<rparr>) imp"
    by (auto simp: ended_change_def try_bind_Inr running_attempt_Inr split: if_splits)
  show "wf_import F imp' \<and> import_grows imp imp'"
    unfolding imp' using wf_last [OF wf] a
    by (intro set_last_ok [OF wf]) (auto simp: wf_attempt_def attempt_grows_def)
qed

lemma finish_record_change:
  assumes "F rep rm"
  shows "record_change F (finish_change n rep rm now)"
proof
  fix imp imp' out assume wf: "wf_import F imp" and "finish_change n rep rm now imp = Inr (imp', out)"
  then obtain a where a: "a = last (im_attempts imp)" "at_status a \<noteq> Ended"
    and imp': "imp' = set_last (a\<lparr>at_status := Ended, at_ended := Some now, at_outcome := rp_outcome rep,
                          at_report := rep, at_removal := rm\<rparr>) imp"
    by (auto simp: finish_change_def Let_def split: if_splits)
  show "wf_import F imp' \<and> import_grows imp imp'"
    unfolding imp' using a assms
    by (intro set_last_ok [OF wf]) (cases "at_status a"; auto simp: wf_attempt_def attempt_grows_def finished_with_def)+
qed

lemma index_of_Some: "index_of p xs = Some k \<Longrightarrow> k < length xs \<and> p (xs ! k)"
  by (induction xs arbitrary: k) (auto split: if_splits)

interpretation removed: record_change F "removed_change n rm" for F n rm
proof
  fix imp imp' out assume wf: "wf_import F imp" and c: "removed_change n rm imp = Inr (imp', out)"
  then obtain k where k: "index_of (\<lambda>a. at_n a = n) (im_attempts imp) = Some k"
    by (auto simp: removed_change_def split: option.splits)
  let ?a = "im_attempts imp ! k"
  from c k have a: "at_status ?a = Ended" "at_outcome ?a = outcome_complete" "at_removal ?a = None"
    and imp': "imp' = imp\<lparr>im_attempts := (im_attempts imp)[k := ?a\<lparr>at_removal := Some rm\<rparr>]\<rparr>"
    by (auto simp: removed_change_def Let_def split: if_splits)
  have len: "k < length (im_attempts imp)" using index_of_Some [OF k] by simp
  then have "wf_attempt F ?a" using wf by (simp add: wf_import_def)
  then have b: "wf_attempt F (?a\<lparr>at_removal := Some rm\<rparr>)"
  proof -
    have "finished_with rep m (?a\<lparr>at_removal := Some rm\<rparr>)" if "finished_with rep m ?a" for rep m
      using that a by (auto simp: finished_with_def)
    then have "\<exists>rep m. F rep m \<and> finished_with rep m (?a\<lparr>at_removal := Some rm\<rparr>)" if "\<exists>rep m. F rep m \<and> finished_with rep m ?a"
      using that by blast
    moreover have "good_end (?a\<lparr>at_removal := Some rm\<rparr>)" if "good_end ?a" using that a by (simp add: good_end_def)
    ultimately show ?thesis using \<open>wf_attempt F ?a\<close> a(1) unfolding wf_attempt_def by simp metis
  qed
  have g: "attempt_grows ?a (?a\<lparr>at_removal := Some rm\<rparr>)"
    unfolding attempt_grows_def using a by (intro conjI impI exI [of _ "at_report ?a"] exI [of _ "Some rm"]) simp_all
  have "map at_n (im_attempts imp') = map at_n (im_attempts imp)"
    by (simp add: imp' map_update list_update_same_conv len)
  moreover have "at_status x = Ended" if "x \<in> set (butlast (im_attempts imp'))" for x
  proof -
    have "set (butlast (im_attempts imp')) \<subseteq> insert (?a\<lparr>at_removal := Some rm\<rparr>) (set (butlast (im_attempts imp)))"
      using set_update_subset_insert [of "butlast (im_attempts imp)" k "?a\<lparr>at_removal := Some rm\<rparr>"]
      by (auto simp: imp' butlast_list_update)
    then show ?thesis using that wf a(1) by (auto simp: wf_import_def)
  qed
  ultimately show "wf_import F imp' \<and> import_grows imp imp'"
    using wf b a len set_update_subset_insert [of "im_attempts imp" k "?a\<lparr>at_removal := Some rm\<rparr>"]
    by (auto simp: wf_import_def import_grows_def imp' nth_list_update g)
qed

lemma wf_new_attempt: "wf_attempt F (new_attempt n now)"
  by (simp add: new_attempt_def wf_attempt_def)

interpretation retry: record_change F "retry_change now" for F now
proof
  fix imp imp' out assume wf: "wf_import F imp" and c: "retry_change now imp = Inr (imp', out)"
  then have l: "at_status (last (im_attempts imp)) = Ended"
    and imp': "imp' = imp\<lparr>im_attempts := im_attempts imp @ [new_attempt (at_n (last (im_attempts imp)) + 1) now]\<rparr>"
    by (auto simp: retry_change_def Let_def split: if_splits)
  obtain xs a where x: "im_attempts imp = xs @ [a]"
    using wf by (metis append_butlast_last_id wf_import_def)
  have ns: "map at_n xs @ [at_n a] = [1..<length xs + 1] @ [length xs + 1]"
    using wf x by (simp add: wf_import_def)
  then have "at_n a = length xs + 1" by simp
  then show "wf_import F imp' \<and> import_grows imp imp'"
    using wf x l ns wf_new_attempt
    by (auto simp: wf_import_def import_grows_def imp' nth_append new_attempt_def butlast_append)
qed

interpretation unfinished: record_change F "end_change outcome reason why now" for F outcome reason why now
proof
  fix imp imp' out assume wf: "wf_import F imp" and c: "end_change outcome reason why now imp = Inr (imp', out)"
  let ?a = "last (im_attempts imp)"
  show "wf_import F imp' \<and> import_grows imp imp'"
  proof (cases "at_status ?a = Ended")
    case True
    then show ?thesis using c wf by (auto simp: end_change_def)
  next
    case False
    then have imp': "imp' = set_last (?a\<lparr>at_status := Ended, at_ended := Some now, at_outcome := outcome,
        at_removal := None, at_report := recount ((at_report ?a)\<lparr>rp_outcome := outcome, rp_reason := reason,
          rp_packages := map (fail_pending why) (rp_packages (at_report ?a))\<rparr>)\<rparr>) imp"
      using c by (auto simp: end_change_def Let_def)
    show ?thesis
      unfolding imp' using False
      by (intro set_last_ok [OF wf]) (auto simp: wf_attempt_def attempt_grows_def good_end_def good_report_def)
  qed
qed

text \<open>The sweep ends what was left unfinished; of an ended attempt it settles the report.\<close>

lemma sweep_attempt_ended:
  assumes "wf_attempt F a" "at_status a = Ended"
  shows "sweep_attempt now a = a\<lparr>at_report := settle (at_report a)\<rparr> \<and> wf_attempt F (sweep_attempt now a) \<and> attempt_grows a (sweep_attempt now a)"
proof -
  have eq: "sweep_attempt now a = a\<lparr>at_report := settle (at_report a)\<rparr>"
    using assms(2) by (simp add: sweep_attempt_def settle_def)
  have "finished_with rep rm (a\<lparr>at_report := settle (at_report a)\<rparr>)" if "finished_with rep rm a" for rep rm
    using that by (auto simp: finished_with_def)
  moreover have "good_end (a\<lparr>at_report := settle (at_report a)\<rparr>)" if "good_end a" using that by (simp add: good_end_def)
  ultimately have "wf_attempt F (a\<lparr>at_report := settle (at_report a)\<rparr>)"
    using assms by (auto simp: wf_attempt_def)
  moreover have "attempt_grows a (a\<lparr>at_report := settle (at_report a)\<rparr>)"
    unfolding attempt_grows_def by (intro conjI impI exI [of _ "settle (at_report a)"] exI [of _ "at_removal a"]) simp_all
  ultimately show ?thesis unfolding eq by blast
qed

lemma sweep_attempt_unfinished: "wf_attempt F a \<Longrightarrow> at_status a \<noteq> Ended \<Longrightarrow>
    wf_attempt F (sweep_attempt now a) \<and> attempt_grows a (sweep_attempt now a)
    \<and> at_status (sweep_attempt now a) = Ended \<and> at_outcome (sweep_attempt now a) = outcome_interrupted"
  by (cases "at_status a") (auto simp: sweep_attempt_def Let_def wf_attempt_def good_end_def good_report_def attempt_grows_def)

lemma sweep_import_ok:
  assumes wf: "wf_import F imp"
  shows "wf_import F (imp\<lparr>im_attempts := map (sweep_attempt now) (im_attempts imp)\<rparr>)
    \<and> import_grows imp (imp\<lparr>im_attempts := map (sweep_attempt now) (im_attempts imp)\<rparr>)
    \<and> (\<forall>a \<in> set (im_attempts imp). at_status (sweep_attempt now a) = Ended)"
proof -
  have one: "wf_attempt F (sweep_attempt now a) \<and> attempt_grows a (sweep_attempt now a) \<and> at_status (sweep_attempt now a) = Ended"
    if "a \<in> set (im_attempts imp)" for a
  proof (cases "at_status a = Ended")
    case True
    then show ?thesis using sweep_attempt_ended [of F a now] that wf by (auto simp: wf_import_def)
  next
    case False
    then show ?thesis using sweep_attempt_unfinished [of F a now] that wf by (auto simp: wf_import_def)
  qed
  moreover have "map at_n (map (sweep_attempt now) (im_attempts imp)) = map at_n (im_attempts imp)"
    using one by (auto simp: attempt_grows_def)
  moreover have "map at_n (im_attempts imp) = [1..<length (im_attempts imp) + 1]" "im_attempts imp \<noteq> []"
      "im_format imp = format_version"
    using wf by (simp_all add: wf_import_def)
  ultimately show ?thesis
    unfolding wf_import_def import_grows_def
    by (auto simp del: upt_Suc simp: map_butlast [symmetric] dest: in_set_butlastD)
qed

lemma sweep_one_ok:
  assumes "store_ok F st" "sweep_one ft st user i now = (r, st')"
  shows "store_ok F st' \<and> store_grows st st' \<and> (\<forall>n imp. r = Inr n \<longrightarrow> st_files st' (user, i) = Some (Record imp) \<longrightarrow>
      (\<forall>a \<in> set (im_attempts imp). at_status a = Ended) \<and> (\<forall>k. (user, i, k) \<notin> set (st_work st')))"
proof (cases "read_import st user i")
  case (Inl e)
  then show ?thesis using assms by (auto simp: sweep_one_def)
next
  case (Inr imp)
  then have f: "st_files st (user, i) = Some (Record imp)"
    by (auto simp: read_import_def split: option.splits stored.splits if_splits)
  with assms(1) have wf: "wf_import F imp" "im_user imp = user" "im_id imp = i" by (auto simp: store_ok_def)
  define new where "new = imp\<lparr>im_attempts := map (sweep_attempt now) (im_attempts imp)\<rparr>"
  have ok: "wf_import F new" "import_grows imp new" "\<forall>a \<in> set (im_attempts new). at_status a = Ended"
    using sweep_import_ok [OF wf(1), of now] by (simp_all add: new_def)
  have key: "(im_user new, im_id new) = (user, i)" using wf by (simp add: new_def)
  have idle: "\<not> list_ex needs_sweep (im_attempts imp) \<Longrightarrow> \<forall>a \<in> set (im_attempts imp). at_status a = Ended"
    by (auto simp: list_ex_iff needs_sweep_def)
  from assms(2) Inr consider (kept) e where "st_files st' = st_files st" "r = Inl e"
    | (same) "st_files st' = st_files st" "\<not> list_ex needs_sweep (im_attempts imp)"
        "isl r \<or> (\<forall>k. (user, i, k) \<notin> set (st_work st'))"
    | (swept) "st_files st' = (st_files st)((user, i) \<mapsto> Record new)" "isl r \<or> (\<forall>k. (user, i, k) \<notin> set (st_work st'))"
    by (auto simp: sweep_one_def Let_def write_import_def key new_def [symmetric] split: if_splits option.splits)
  then show ?thesis
  proof cases
    case kept
    then show ?thesis using assms(1) by (auto simp: store_ok_def store_grows_def)
  next
    case same
    then show ?thesis using assms(1) idle f by (auto simp: store_ok_def store_grows_def)
  next
    case swept
    then show ?thesis using store_set_ok [OF assms(1) f ok(1,2) swept(1)] ok(3) by auto
  qed
qed

lemma begin_ok:
  assumes "store_ok F st" "begin_attempt ft st user i now = (r, st')"
  shows "store_ok F st' \<and> store_grows st st'"
proof (cases "st_files st' = st_files st")
  case True
  then show ?thesis using assms(1) by (auto simp: store_ok_def store_grows_def)
next
  case False
  then obtain imp where r: "read_import st user i = Inr imp"
    using assms(2) by (cases "read_import st user i") (auto simp: begin_attempt_def split: if_splits)
  then have f: "st_files st (user, i) = Some (Record imp)" by (simp add: read_import_Inr)
  have q: "at_status (last (im_attempts imp)) = Queued"
    using assms(2) r False by (auto simp: begin_attempt_def Let_def split: if_splits)
  have st': "st_files st' = (st_files st)((im_user imp, im_id imp) \<mapsto>
      Record (set_last ((last (im_attempts imp))\<lparr>at_status := Running, at_started := Some now\<rparr>) imp))"
    using assms(2) r False q
    by (cases "sf_remove ft"; cases "sf_mkdir ft"; cases "sf_write ft")
      (auto simp: begin_attempt_def Let_def write_import_def set_last_def split: if_splits)
  have wf: "wf_import F imp" "im_user imp = user" "im_id imp = i" using assms(1) f by (auto simp: store_ok_def)
  have "wf_import F (set_last ((last (im_attempts imp))\<lparr>at_status := Running, at_started := Some now\<rparr>) imp)
      \<and> import_grows imp (set_last ((last (im_attempts imp))\<lparr>at_status := Running, at_started := Some now\<rparr>) imp)"
    using wf_last [OF wf(1)] q
    by (intro set_last_ok [OF wf(1)]) (auto simp: wf_attempt_def attempt_grows_def recount_def zero_report_def)
  moreover have "st_files st' = (st_files st)((user, i) \<mapsto>
      Record (set_last ((last (im_attempts imp))\<lparr>at_status := Running, at_started := Some now\<rparr>) imp))"
    using st' wf by simp
  ultimately show ?thesis using store_set_ok [OF assms(1) f] by blast
qed

lemma create_ok:
  assumes "store_ok F st" "create ft st user archive mani expected now ids = (r, st')"
  shows "store_ok F st' \<and> store_grows st st'"
proof -
  have "store_ok F st' \<and> store_grows st st'" if "create_ids ft st user archive mani expected now js = (r, st')" for js
    using that
  proof (induction js)
    case (Cons j js)
    define imp where "imp = \<lparr>im_format = format_version, im_id = j, im_user = user, im_created = now,
      im_archive = archive, im_manifest = mani, im_expected = expected, im_attempts = [new_attempt (Suc 0) now]\<rparr>"
    have imp: "wf_import F imp" "im_user imp = user" "im_id imp = j"
      by (simp_all add: imp_def wf_import_def wf_new_attempt) (simp add: new_attempt_def)
    show ?case
    proof (cases "st_files st (user, j)")
      case None
      then have "st' = st \<or> st' = st\<lparr>st_files := (st_files st)((user, j) \<mapsto> Record imp)\<rparr>"
        using Cons.prems by (auto simp: write_import_def Let_def imp_def split: option.splits)
      then show ?thesis using assms(1) None imp by (auto simp: store_ok_def store_grows_def split: if_splits)
    next
      case (Some f)
      then show ?thesis using Cons by simp
    qed
  qed (use assms(1) in simp)
  then show ?thesis using assms by (auto simp: create_def split: if_splits)
qed

subsection \<open>The store as a state machine\<close>

text \<open>Any operation with any arguments, faults included; Finish with what \<open>F\<close> admits.\<close>

inductive store_step :: "finishes \<Rightarrow> store \<Rightarrow> store \<Rightarrow> bool" for F where
  create_step: "create ft st user archive mani expected now ids = (r, st') \<Longrightarrow> store_step F st st'"
| begin_step: "begin_attempt ft st user i now = (r, st') \<Longrightarrow> store_step F st st'"
| listed_step: "listed ft st user i n rep = (r, st') \<Longrightarrow> store_step F st st'"
| checked_step: "checked ft st user i n = (r, st') \<Longrightarrow> store_step F st st'"
| ended_step: "ended ft st user i n k p = (r, st') \<Longrightarrow> store_step F st st'"
| finish_step: "finish ft st user i n rep rm now = (r, st') \<Longrightarrow> F rep rm \<Longrightarrow> store_step F st st'"
| removed_step: "removed ft st user i n v = (r, st') \<Longrightarrow> store_step F st st'"
| retry_step: "retry ft st user i now = (r, st') \<Longrightarrow> store_step F st st'"
| end_step: "end_unfinished ft st user i outcome reason why now = (r, st') \<Longrightarrow> store_step F st st'"
| sweep_step: "sweep faults st dirs now = (marked, st') \<Longrightarrow> store_step F st st'"

inductive store_reach :: "finishes \<Rightarrow> store \<Rightarrow> store \<Rightarrow> bool" for F where
  reach_refl: "store_reach F st st"
| reach_step: "store_reach F st st' \<Longrightarrow> store_step F st' st'' \<Longrightarrow> store_reach F st st''"

definition empty_store :: store where
  "empty_store = \<lparr>st_files = Map.empty, st_work = []\<rparr>"

lemma remove_work_files: "remove_work ft user i n st = (r, st') \<Longrightarrow> st_files st' = st_files st"
  by (auto simp: remove_work_def split: option.splits)

lemma store_same_files: "st_files st' = st_files st1 \<Longrightarrow> store_ok F st1 \<and> store_grows st st1
    \<Longrightarrow> store_ok F st' \<and> store_grows st st'"
  by (auto simp: store_ok_def store_grows_def)

lemma finish_ok:
  assumes "store_ok F st" "F rep rm"
    and "finish ft st user i n rep rm now = (r, st')"
  shows "store_ok F st' \<and> store_grows st st'"
proof -
  obtain q st1 where u: "update ft st user i (finish_change n rep rm now) = (q, st1)" by fastforce
  note ok = record_change.update_keeps [OF finish_record_change [of F, OF assms(2)] assms(1) u]
  have "st_files st' = st_files st1"
    using assms(3) u remove_work_files by (cases q) (auto simp: finish_def)
  then show ?thesis using store_same_files ok by blast
qed

lemma end_unfinished_ok:
  assumes "store_ok F st" "end_unfinished ft st user i outcome reason why now = (r, st')"
  shows "store_ok F st' \<and> store_grows st st'"
proof -
  obtain q st1 where u: "update ft st user i (end_change outcome reason why now) = (q, st1)" by fastforce
  note ok = unfinished.update_keeps [OF assms(1) u]
  have "st_files st' = st_files st1"
    using assms(2) u remove_work_files
    by (cases q) (auto simp: end_unfinished_def split: option.splits)
  then show ?thesis using store_same_files ok by blast
qed

lemma sweep_steps_ok:
  "store_ok F st \<Longrightarrow> foldl (sweep_step ft now) (k, st) dirs = (m, st') \<Longrightarrow> store_ok F st' \<and> store_grows st st'"
proof (induction dirs arbitrary: k st)
  case Nil
  then show ?case by simp
next
  case (Cons d dirs)
  obtain k1 st1 where s: "sweep_step ft now (k, st) d = (k1, st1)" by fastforce
  have "store_ok F st1 \<and> store_grows st st1"
    using s Cons.prems(1) sweep_one_ok [OF Cons.prems(1)]
    by (auto simp: sweep_step_def split: prod.splits if_splits sum.splits)
  then show ?case using Cons.IH [of st1 k1] Cons.prems(2) s store_grows_trans by fastforce
qed

lemma store_step_ok:
  assumes "store_step F st st'" "store_ok F st"
  shows "store_ok F st' \<and> store_grows st st'"
  using assms
proof cases
  case create_step
  then show ?thesis using create_ok assms(2) by blast
next
  case begin_step
  then show ?thesis using begin_ok assms(2) by blast
next
  case listed_step
  then show ?thesis using listed.update_keeps assms(2) unfolding listed_def by blast
next
  case checked_step
  then show ?thesis using checked.update_keeps assms(2) unfolding checked_def by blast
next
  case ended_step
  then show ?thesis using ended.update_keeps assms(2) unfolding ended_def by blast
next
  case finish_step
  then show ?thesis using finish_ok assms(2) by blast
next
  case removed_step
  then show ?thesis using removed.update_keeps assms(2) unfolding removed_def by blast
next
  case retry_step
  then show ?thesis using retry.update_keeps assms(2) unfolding retry_def by blast
next
  case end_step
  then show ?thesis using end_unfinished_ok assms(2) by blast
next
  case sweep_step
  then show ?thesis using sweep_steps_ok assms(2) unfolding sweep_def by blast
qed

lemma store_reach_ok: "store_reach F st st' \<Longrightarrow> store_ok F st \<Longrightarrow> store_ok F st' \<and> store_grows st st'"
  by (induction rule: store_reach.induct) (auto dest: store_step_ok intro: store_grows_trans)

lemma empty_store_ok: "store_ok F empty_store"
  by (simp add: store_ok_def empty_store_def)

lemma good_ended:
  assumes "\<forall>rep rm. F rep rm \<longrightarrow> good_finish rep rm" "wf_attempt F a" "at_status a = Ended"
  shows "good_end a"
  using assms by (auto simp: wf_attempt_def finished_with_def good_finish_def good_end_def)

subsection \<open>Properties\<close>

text \<open>C9. In every state the store reaches from an empty data volume, by any sequence of operations with any faults and
  any reports and removals handed to Finish, each record carries its own user and id, its attempts are numbered one,
  two, three and so on, and only the latest may be unfinished; a queued attempt is blank and a running one has counts
  that match its packages. An ended one has no pending package, counts that match, and a removal only if it is complete,
  or holds what Finish was handed, up to the sweep and a removal recorded later. So when every report Finish was
  handed has no pending package and right counts, and a removal came only with a complete one, as
  \<^verbatim>\<open>Queue.process\<close> does, then this is true of every ended attempt.\<close>

theorem store_invariant:
  assumes "store_reach F empty_store st" and "st_files st (user, i) = Some (Record imp)"
  shows "wf_import F imp \<and> im_user imp = user \<and> im_id imp = i
    \<and> (\<forall>k < length (im_attempts imp). at_n (im_attempts imp ! k) = k + 1
        \<and> (k + 1 < length (im_attempts imp) \<longrightarrow> at_status (im_attempts imp ! k) = Ended))
    \<and> ((\<forall>rep rm. F rep rm \<longrightarrow> good_finish rep rm) \<longrightarrow> (\<forall>a \<in> set (im_attempts imp). at_status a = Ended \<longrightarrow>
        (\<forall>p \<in> set (rp_packages (at_report a)). rs_state p \<noteq> Pending) \<and> recount (at_report a) = at_report a
        \<and> (at_removal a \<noteq> None \<longrightarrow> at_outcome a = outcome_complete)))"
proof -
  have ok: "wf_import F imp" "im_user imp = user" "im_id imp = i"
    using store_reach_ok [OF assms(1) empty_store_ok] assms(2) by (auto simp: store_ok_def)
  have "at_n (im_attempts imp ! k) = k + 1" if "k < length (im_attempts imp)" for k
  proof -
    have "map at_n (im_attempts imp) ! k = [1..<length (im_attempts imp) + 1] ! k"
      using ok(1) by (simp add: wf_import_def)
    then show ?thesis using that by (simp del: upt_Suc)
  qed
  moreover have "at_status (im_attempts imp ! k) = Ended" if "k + 1 < length (im_attempts imp)" for k
  proof -
    have "butlast (im_attempts imp) ! k \<in> set (butlast (im_attempts imp))" using that by simp
    then show ?thesis using ok(1) that by (auto simp: wf_import_def nth_butlast)
  qed
  moreover have "good_end a" if "\<forall>rep rm. F rep rm \<longrightarrow> good_finish rep rm" "a \<in> set (im_attempts imp)" "at_status a = Ended" for a
    by (rule good_ended) (use ok(1) that in \<open>auto simp: wf_import_def\<close>)
  ultimately show ?thesis using ok unfolding good_end_def good_report_def by blast
qed

text \<open>C10. No operation loses or rewrites history, whatever Finish is handed. From any well-formed state, every record a
  later state holds was there with the same objects and at least the same attempts, statuses only move on, and an
  attempt that has ended stays exactly as it was, except that the removal of a complete one may be recorded once, and
  that the sweep may settle a report which has a pending package or wrong counts.\<close>

theorem history_is_kept:
  assumes "store_ok F st" "store_reach F st st'" and "st_files st key = Some (Record imp)"
  shows "\<exists>imp'. st_files st' key = Some (Record imp') \<and> im_archive imp' = im_archive imp
    \<and> im_manifest imp' = im_manifest imp \<and> length (im_attempts imp) \<le> length (im_attempts imp')
    \<and> (\<forall>k < length (im_attempts imp). let a = im_attempts imp ! k; b = im_attempts imp' ! k in
        at_n b = at_n a \<and> status_rank (at_status a) \<le> status_rank (at_status b)
        \<and> (at_status a = Ended \<longrightarrow> good_report (at_report a) \<longrightarrow> b = a \<or> at_outcome a = outcome_complete \<and> at_removal a = None
             \<and> (\<exists>rm. b = a\<lparr>at_removal := Some rm\<rparr>))
        \<and> (at_status a = Ended \<longrightarrow> (\<exists>rep rm. b = a\<lparr>at_report := rep, at_removal := rm\<rparr> \<and> (rep = at_report a \<or> rep = settle (at_report a))
             \<and> (rm = at_removal a \<or> at_outcome a = outcome_complete \<and> at_removal a = None))))"
proof -
  have "store_grows st st'" using store_reach_ok [OF assms(2,1)] by blast
  then obtain imp' where imp': "st_files st' key = Some (Record imp')" "import_grows imp imp'"
    using assms(3) unfolding store_grows_def by blast
  have kept: "b = a \<or> at_outcome a = outcome_complete \<and> at_removal a = None \<and> (\<exists>rm. b = a\<lparr>at_removal := Some rm\<rparr>)"
    if g: "attempt_grows a b" and a: "at_status a = Ended" "good_report (at_report a)" for a b
  proof -
    obtain rep rm where b: "b = a\<lparr>at_report := rep, at_removal := rm\<rparr>" "rep = at_report a \<or> rep = settle (at_report a)"
        "rm = at_removal a \<or> at_outcome a = outcome_complete \<and> at_removal a = None"
      using g a(1) unfolding attempt_grows_def by blast
    then have "b = a\<lparr>at_removal := rm\<rparr>" using a(2) by auto
    then show ?thesis using b(3) by (cases rm) auto
  qed
  have "let a = im_attempts imp ! k; b = im_attempts imp' ! k in
        at_n b = at_n a \<and> status_rank (at_status a) \<le> status_rank (at_status b)
        \<and> (at_status a = Ended \<longrightarrow> good_report (at_report a) \<longrightarrow> b = a \<or> at_outcome a = outcome_complete \<and> at_removal a = None
             \<and> (\<exists>rm. b = a\<lparr>at_removal := Some rm\<rparr>))
        \<and> (at_status a = Ended \<longrightarrow> (\<exists>rep rm. b = a\<lparr>at_report := rep, at_removal := rm\<rparr> \<and> (rep = at_report a \<or> rep = settle (at_report a))
             \<and> (rm = at_removal a \<or> at_outcome a = outcome_complete \<and> at_removal a = None)))"
    if "k < length (im_attempts imp)" for k
  proof -
    have g: "attempt_grows (im_attempts imp ! k) (im_attempts imp' ! k)" using imp'(2) that unfolding import_grows_def by blast
    show ?thesis unfolding Let_def using kept [OF g] g unfolding attempt_grows_def by blast
  qed
  then show ?thesis using imp' unfolding import_grows_def by blast
qed

definition no_faults :: store_faults where
  "no_faults = \<lparr>sf_write = None, sf_remove = None, sf_mkdir = None\<rparr>"

definition sample_object :: object where
  "sample_object = \<lparr>ob_key = ''k'', ob_etag = ''e'', ob_size = 1\<rparr>"

definition sample_id :: string where "sample_id = ''20250101T000000Z-00000000''"

definition sample_import :: import_record where
  "sample_import = \<lparr>im_format = 1, im_id = sample_id, im_user = ''ann'', im_created = 0, im_archive = sample_object,
     im_manifest = sample_object, im_expected = '''', im_attempts = [new_attempt 1 0]\<rparr>"

lemma sample_create: "create no_faults empty_store ''ann'' sample_object sample_object '''' 0 [sample_id]
    = (Inr sample_import, \<lparr>st_files = [(''ann'', sample_id) \<mapsto> Record sample_import], st_work = []\<rparr>)"
proof -
  have "valid_user ''ann''" by code_simp
  then show ?thesis
    by (simp add: create_def id_attempts_def no_faults_def empty_store_def write_import_def Let_def
        sample_import_def format_version_def)
qed

lemma sample_reach: "store_reach F empty_store \<lparr>st_files = [(''ann'', sample_id) \<mapsto> Record sample_import], st_work = []\<rparr>"
  by (rule reach_step [OF reach_refl create_step [OF sample_create]])

theorem store_invariant_witness:
  "wf_import (\<lambda>_ _. True) sample_import \<and> at_n (im_attempts sample_import ! 0) = 1"
  using store_invariant [OF sample_reach [of "\<lambda>_ _. True"], of "''ann''" sample_id sample_import]
  by (simp add: sample_import_def new_attempt_def)

theorem history_is_kept_witness:
  "\<exists>imp'. st_files \<lparr>st_files = [(''ann'', sample_id) \<mapsto> Record sample_import], st_work = []\<rparr> (''ann'', sample_id)
      = Some (Record imp') \<and> im_archive imp' = sample_object"
proof -
  let ?st = "\<lparr>st_files = [(''ann'', sample_id) \<mapsto> Record sample_import], st_work = []\<rparr>"
  have "store_ok (\<lambda>_ _. True) ?st" using store_reach_ok [OF sample_reach empty_store_ok] by blast
  from history_is_kept [OF this reach_refl, of "(''ann'', sample_id)" sample_import] show ?thesis
    by (auto simp: sample_import_def)
qed

text \<open>A user name the store accepts is safe as a folder: 1 to 58 bytes of lower case letters,
  digits, dots and hyphens, starting and ending with a letter or digit, never holding two dots
  in a row, a slash or an upper case letter.\<close>

theorem valid_user_safe:
  assumes "valid_user name"
  shows "1 \<le> length name \<and> length name \<le> 58 \<and> list_all user_char name
    \<and> user_head (hd name) \<and> user_head (last name) \<and> \<not> contains_str ''..'' name
    \<and> CHR ''/'' \<notin> set name"
proof -
  have m: "name \<in> rx_lang user_pattern" and d: "\<not> contains_str ''..'' name"
    using assms by (simp_all add: valid_user_def rx_match_lang)
  have head: "user_head c \<Longrightarrow> user_char c" for c by (auto simp: user_head_def user_char_def)
  from m consider c where "name = [c]" "user_head c"
    | c b e where "name = c # b @ [e]" "user_head c" "user_head e" "list_all user_char b" "length b \<le> 56"
    by (auto simp: user_pattern_def lang_Seq_iff simp del: rx_upto.simps)
  then have ok: "1 \<le> length name \<and> length name \<le> 58 \<and> list_all user_char name
    \<and> user_head (hd name) \<and> user_head (last name)"
    by cases (auto simp: head)
  moreover have "\<not> user_char CHR ''/''" by (simp add: user_char_def is_lower_def is_digit_def)
  ultimately show ?thesis using d by (auto simp: list_all_iff)
qed

theorem valid_user_safe_witness:
  "valid_user ''j.doe-2'' \<and> length ''j.doe-2'' \<le> 58 \<and> \<not> valid_user ''a..b''"
proof -
  have v: "valid_user ''j.doe-2''" "\<not> valid_user ''a..b''" by code_simp+
  then show ?thesis using valid_user_safe [OF v(1)] by simp
qed

end
