(* ===== verification/Imports_Queue.thy ===== *)
theory Imports_Queue
  imports Store_Imports
begin

text \<open>
  \<^verbatim>\<open>internal/store/imports/queue.go\<close>: the queue that runs submitted attempts one after the
  other. The operations of the store it calls for one item are the record \<open>attempt_ops\<close>; the
  locale \<open>attempt_store\<close> states what the queue relies on and is interpreted on the store's own
  operations. A run is what it reports while it goes and how it ends; a panic is an end.
\<close>

subsection \<open>The queue\<close>

record queue =
  qu_items :: "(string \<times> string) list"
  qu_closed :: bool

definition submit :: "queue \<Rightarrow> string \<Rightarrow> string \<Rightarrow> bool \<times> queue" where
  "submit q user i = (if qu_closed q then (False, q) else (True, q\<lparr>qu_items := qu_items q @ [(user, i)]\<rparr>))"

definition close_queue :: "queue \<Rightarrow> queue" where
  "close_queue q = q\<lparr>qu_closed := True\<rparr>"

text \<open>\<^verbatim>\<open>next\<close>: None when the queue is closed or nothing waits.\<close>

definition next_item :: "queue \<Rightarrow> ((string \<times> string) \<times> queue) option" where
  "next_item q = (if qu_closed q then None
     else case qu_items q of [] \<Rightarrow> None | it # rest \<Rightarrow> Some (it, q\<lparr>qu_items := rest\<rparr>))"

subsection \<open>One item\<close>

text \<open>How a run ends: by a panic, or with a report and, when the attempt may remove the archive, what
  the remover gives.\<close>

datatype run_end = Panicked | Returned report "removal option option"

record run_result =
  rr_events :: "progress list"
  rr_end :: run_end

record ('s, 'e) attempt_ops =
  ao_begin :: "'s \<Rightarrow> ('e + nat) \<times> 's"
  ao_get :: "'s \<Rightarrow> 'e + import_record"
  ao_progress :: "nat \<Rightarrow> progress \<Rightarrow> 's \<Rightarrow> 's"
  ao_break :: "string \<Rightarrow> 's \<Rightarrow> ('e + unit) \<times> 's"
  ao_finish :: "nat \<Rightarrow> report \<Rightarrow> 's \<Rightarrow> ('e + unit) \<times> 's"
  ao_abandon :: "string \<Rightarrow> 's \<Rightarrow> ('e + unit) \<times> 's"
  ao_removed :: "nat \<Rightarrow> removal \<Rightarrow> 's \<Rightarrow> ('e + unit) \<times> 's"

definition reason_panic :: string where
  "reason_panic = ''the import stopped on an internal error; see the service log''"

text \<open>A run that was cut short reports incomplete; it ends interrupted and removes nothing.\<close>

definition cut_short :: "bool \<Rightarrow> report \<Rightarrow> removal option option \<Rightarrow> report \<times> removal option option" where
  "cut_short closed rep remover =
     (if closed \<and> rp_outcome rep = outcome_incomplete
      then (rep\<lparr>rp_outcome := outcome_interrupted,
                rp_reason := if rp_reason rep = '''' then outcome_interrupted else rp_reason rep\<rparr>, None)
      else (rep, remover))"

text \<open>\<^verbatim>\<open>process\<close>. The second component says whether the remover was called, and on which state.\<close>

definition process_end :: "('s, 'e) attempt_ops \<Rightarrow> bool \<Rightarrow> nat \<Rightarrow> run_end \<Rightarrow> 's \<Rightarrow> 's \<times> 's option" where
  "process_end ops closed n fin s = (case fin of
     Panicked \<Rightarrow> (case ao_break ops reason_panic s of
       (Inr _, s') \<Rightarrow> (s', None)
     | (Inl _, s') \<Rightarrow> (snd (ao_abandon ops ''the end of the import could not be stored; see the service log'' s'), None))
   | Returned rep remover \<Rightarrow> (case cut_short closed rep remover of (rep, remover) \<Rightarrow>
       (case ao_finish ops n rep s of
          (Inl _, s') \<Rightarrow> (snd (ao_abandon ops ''the end of the import could not be stored; see the service log'' s'), None)
        | (Inr _, s') \<Rightarrow> (case remover of
            None \<Rightarrow> (s', None)
          | Some None \<Rightarrow> (s', Some s')
          | Some (Some rm) \<Rightarrow> (snd (ao_removed ops n rm s'), Some s')))))"

definition process :: "('s, 'e) attempt_ops \<Rightarrow> (import_record \<Rightarrow> run_result) \<Rightarrow> bool \<Rightarrow> 's \<Rightarrow> 's \<times> 's option" where
  "process ops run closed s = (case ao_begin ops s of
     (Inl _, s1) \<Rightarrow> (snd (ao_abandon ops ''the import could not be started; see the service log'' s1), None)
   | (Inr n, s1) \<Rightarrow> (case ao_get ops s1 of
       Inl _ \<Rightarrow> (snd (ao_abandon ops ''the import could not be read; see the service log'' s1), None)
     | Inr imp \<Rightarrow>
         let r = run imp in process_end ops closed n (rr_end r) (fold (ao_progress ops n) (rr_events r) s1)))"

subsection \<open>The operations of the store for one item\<close>

record queue_faults =
  qf_begin :: store_faults
  qf_progress :: store_faults
  qf_break :: store_faults
  qf_finish :: store_faults
  qf_abandon :: store_faults
  qf_removed :: store_faults

definition store_progress :: "store_faults \<Rightarrow> string \<Rightarrow> string \<Rightarrow> nat \<Rightarrow> progress \<Rightarrow> store \<Rightarrow> store" where
  "store_progress ft user i n p st = (case p of
     P_Listed rep \<Rightarrow> snd (listed ft st user i n rep)
   | P_Checked \<Rightarrow> snd (checked ft st user i n)
   | P_Ended k r \<Rightarrow> snd (ended ft st user i n k r))"

definition store_ops :: "queue_faults \<Rightarrow> string \<Rightarrow> string \<Rightarrow> time \<Rightarrow> (store, store_error) attempt_ops" where
  "store_ops qf user i now =
     \<lparr>ao_begin = (\<lambda>st. begin_attempt (qf_begin qf) st user i now),
      ao_get = (\<lambda>st. get_import st user i),
      ao_progress = store_progress (qf_progress qf) user i,
      ao_break = (\<lambda>why st. break_attempt (qf_break qf) st user i why now),
      ao_finish = (\<lambda>n rep st. finish (qf_finish qf) st user i n rep None now),
      ao_abandon = (\<lambda>why st. abandon (qf_abandon qf) st user i why now),
      ao_removed = (\<lambda>n rm st. removed (qf_removed qf) st user i n rm)\<rparr>"

subsection \<open>What the queue relies on\<close>

text \<open>
  \<open>held s\<close> says that the record of the item is there and well-formed, \<open>over s\<close> that its latest
  attempt has ended. Every operation keeps the record; ending operations that succeed end the
  attempt, and Abandon always does.
\<close>

locale attempt_store =
  fixes ops :: "('s, 'e) attempt_ops" and held :: "'s \<Rightarrow> bool" and over :: "'s \<Rightarrow> bool"
    and finished :: "nat \<Rightarrow> report \<Rightarrow> 's \<Rightarrow> bool"
  assumes begin_held: "held s \<Longrightarrow> ao_begin ops s = (q, s') \<Longrightarrow> held s'"
    and progress_held: "held s \<Longrightarrow> held (ao_progress ops n p s)"
    and break_held: "held s \<Longrightarrow> ao_break ops why s = (r, s') \<Longrightarrow> held s'"
    and break_over: "held s \<Longrightarrow> ao_break ops why s = (Inr u, s') \<Longrightarrow> over s'"
    and finish_held: "held s \<Longrightarrow> good_report rep \<Longrightarrow> ao_finish ops n rep s = (r, s') \<Longrightarrow> held s'"
    and finish_over: "held s \<Longrightarrow> ao_finish ops n rep s = (Inr u, s') \<Longrightarrow> over s' \<and> finished n rep s'"
    and removed_over: "held s \<Longrightarrow> over s \<Longrightarrow> over (snd (ao_removed ops n rm s))"
    and abandon_over: "held s \<Longrightarrow> over (snd (ao_abandon ops why s))"
begin

lemma progress_all_held: "held s \<Longrightarrow> held (fold (ao_progress ops n) ps s)"
  by (induction ps arbitrary: s) (auto intro: progress_held)

lemma cut_short_good: "good_report rep \<Longrightarrow> good_report (fst (cut_short closed rep rm))"
proof -
  have "recount (rep\<lparr>rp_outcome := x, rp_reason := y\<rparr>) = (recount rep)\<lparr>rp_outcome := x, rp_reason := y\<rparr>" for x y
    by (simp add: recount_def)
  then show "good_report rep \<Longrightarrow> good_report (fst (cut_short closed rep rm))"
    by (simp add: cut_short_def good_report_def)
qed

lemma process_end_over:
  assumes "held s" and "\<And>rep rm. fin = Returned rep rm \<Longrightarrow> good_report rep"
    and "process_end ops closed n fin s = (s', called)"
  shows "over s' \<and> (\<forall>t. called = Some t \<longrightarrow> (\<exists>rep rm. fin = Returned rep (Some rm)
      \<and> \<not> (closed \<and> rp_outcome rep = outcome_incomplete) \<and> finished n rep t))"
proof (cases fin)
  case Panicked
  then show ?thesis
    using assms break_held break_over abandon_over
    by (auto simp: process_end_def split: prod.splits sum.splits)
next
  case (Returned rep rm)
  obtain rep' rm' where c: "cut_short closed rep rm = (rep', rm')" by fastforce
  then have good: "good_report rep'" using cut_short_good assms(2) [OF Returned] by (metis fst_conv)
  obtain r s1 where f: "ao_finish ops n rep' s = (r, s1)" by fastforce
  then have held: "held s1" using finish_held assms(1) good by blast
  show ?thesis
  proof (cases r)
    case (Inl e)
    then show ?thesis using assms(3) Returned c f held abandon_over by (auto simp: process_end_def)
  next
    case (Inr u)
    then have "over s1" "finished n rep' s1" using finish_over assms(1) f by blast+
    then show ?thesis
      using assms(3) Returned c f Inr held removed_over
      by (auto simp: process_end_def cut_short_def split: option.splits if_splits)
  qed
qed

lemma process_over:
  assumes "held s" and "\<And>imp rep rm. rr_end (run imp) = Returned rep rm \<Longrightarrow> good_report rep"
    and "process ops run closed s = (s', called)"
  shows "over s' \<and> (\<forall>t. called = Some t \<longrightarrow> (\<exists>n s0 imp rep rm. ao_get ops s0 = Inr imp \<and> rr_end (run imp) = Returned rep (Some rm)
      \<and> \<not> (closed \<and> rp_outcome rep = outcome_incomplete) \<and> finished n rep t))"
proof -
  obtain r s1 where b: "ao_begin ops s = (r, s1)" by fastforce
  then have held: "held s1" using begin_held assms(1) by blast
  show ?thesis
  proof (cases r)
    case (Inl e)
    then show ?thesis using assms(3) b held abandon_over by (auto simp: process_def)
  next
    case (Inr n)
    show ?thesis
    proof (cases "ao_get ops s1")
      case (Inl e)
      then show ?thesis using assms(3) b Inr held abandon_over by (auto simp: process_def)
    next
      case get: (Inr imp)
      let ?s = "fold (ao_progress ops n) (rr_events (run imp)) s1"
      have fin: "process_end ops closed n (rr_end (run imp)) ?s = (s', called)"
        using assms(3) b Inr get by (simp add: process_def Let_def)
      have "over s' \<and> (\<forall>t. called = Some t \<longrightarrow> (\<exists>rep rm. rr_end (run imp) = Returned rep (Some rm)
        \<and> \<not> (closed \<and> rp_outcome rep = outcome_incomplete) \<and> finished n rep t))"
        by (rule process_end_over [OF progress_all_held [OF held] _ fin]) (rule assms(2))
      then show ?thesis using get by blast
    qed
  qed
qed

end

subsection \<open>The store keeps the contract\<close>

definition item_held :: "string \<Rightarrow> string \<Rightarrow> store \<Rightarrow> bool" where
  "item_held user i st \<longleftrightarrow> valid_user user \<and> valid_id i \<and> store_ok good_finish st
     \<and> (\<exists>imp. st_files st (user, i) = Some (Record imp))"

definition item_over :: "string \<Rightarrow> string \<Rightarrow> store \<Rightarrow> bool" where
  "item_over user i st \<longleftrightarrow> (\<exists>imp. st_files st (user, i) = Some (Record imp) \<and> at_status (last (im_attempts imp)) = Ended)"

definition item_finished :: "string \<Rightarrow> string \<Rightarrow> nat \<Rightarrow> report \<Rightarrow> store \<Rightarrow> bool" where
  "item_finished user i n rep st \<longleftrightarrow> (\<exists>imp. st_files st (user, i) = Some (Record imp)
     \<and> (let a = last (im_attempts imp) in at_n a = n \<and> at_status a = Ended \<and> at_outcome a = rp_outcome rep \<and> at_report a = rep))"

lemma held_step: "item_held user i st \<Longrightarrow> store_ok good_finish st' \<and> store_grows st st' \<Longrightarrow> item_held user i st'"
  unfolding item_held_def store_grows_def by blast

lemma held_read: "item_held user i st \<Longrightarrow> \<exists>imp. read_import st user i = Inr imp \<and> wf_import good_finish imp
    \<and> im_user imp = user \<and> im_id imp = i \<and> st_files st (user, i) = Some (Record imp)"
proof -
  assume h: "item_held user i st"
  then obtain imp where f: "st_files st (user, i) = Some (Record imp)" and "store_ok good_finish st" by (auto simp: item_held_def)
  then have wf: "wf_import good_finish imp" "im_user imp = user" "im_id imp = i" unfolding store_ok_def by blast+
  then have "im_format imp = format_version" unfolding wf_import_def by blast
  then show ?thesis using wf f read_import_Inr by blast
qed

lemma end_unfinished_over:
  assumes "item_held user i st" "sf_write ft = None"
  shows "item_over user i (snd (end_unfinished ft st user i outcome reason why now))"
proof -
  obtain imp where imp: "read_import st user i = Inr imp" "wf_import good_finish imp" "im_user imp = user" "im_id imp = i"
    and v: "valid_user user" "valid_id i" and ne: "im_attempts imp \<noteq> []"
    using held_read [OF assms(1)] assms(1) by (auto simp: item_held_def wf_import_def)
  show ?thesis
    using imp v ne assms(2)
    by (auto simp: end_unfinished_def update_def end_change_def Let_def write_import_def remove_work_def
        item_over_def set_last_def split: if_splits option.splits)
qed

lemma end_unfinished_Inr_over:
  assumes "item_held user i st" "end_unfinished ft st user i outcome reason why now = (Inr u, st')"
  shows "item_over user i st'"
proof -
  obtain k st1 where up: "update ft st user i (end_change outcome reason why now) = (Inr k, st1)"
    and files: "st_files st' = st_files st1"
    using assms(2) remove_work_files
    by (auto simp: end_unfinished_def split: prod.splits sum.splits option.splits)
  obtain imp where imp: "read_import st user i = Inr imp" "im_user imp = user" "im_id imp = i"
    using held_read [OF assms(1)] by blast
  have "item_over user i st1"
    using up imp by (auto simp: update_def end_change_def Let_def write_import_def item_over_def set_last_def
        split: if_splits option.splits)
  then show ?thesis by (simp add: item_over_def files)
qed

lemma finish_over_store:
  assumes "finish ft st user i n rep rm now = (Inr u, st')"
    and "item_held user i st"
  shows "item_over user i st' \<and> item_finished user i n rep st'"
proof -
  obtain k st1 where u: "update ft st user i (finish_change n rep rm now) = (Inr k, st1)"
    and w: "remove_work ft user i k st1 = (Inr u, st')"
    using assms(1) by (auto simp: finish_def split: prod.splits sum.splits)
  obtain imp where imp: "read_import st user i = Inr imp" "im_user imp = user" "im_id imp = i"
    using held_read [OF assms(2)] by blast
  have "st_files st1 (user, i) = Some (Record (set_last ((last (im_attempts imp))
      \<lparr>at_status := Ended, at_ended := Some now, at_outcome := rp_outcome rep, at_report := rep, at_removal := rm\<rparr>) imp))
    \<and> at_n (last (im_attempts imp)) = n"
    using u imp by (auto simp: update_def finish_change_def Let_def write_import_def set_last_def
        split: if_splits option.splits)
  then show ?thesis
    using remove_work_files [OF w] by (auto simp: item_over_def item_finished_def set_last_def Let_def)
qed

lemma removed_over_store:
  assumes "item_held user i st" "item_over user i st"
  shows "item_over user i (snd (removed ft st user i n rm))"
proof -
  obtain r st' where u: "removed ft st user i n rm = (r, st')" by fastforce
  show ?thesis
  proof (cases r)
    case (Inl e)
    then have "st' = st"
      using u by (auto simp: removed_def update_def split: if_splits sum.splits prod.splits)
    then show ?thesis using assms(2) u by simp
  next
    case (Inr x)
    obtain imp new where f: "st_files st (user, i) = Some (Record imp)" "im_attempts imp \<noteq> []"
      and c: "removed_change n rm imp = Inr (new, x)"
      and st': "st' = st\<lparr>st_files := (st_files st)((im_user new, im_id new) \<mapsto> Record new)\<rparr>"
      using removed.update_reads u Inr unfolding removed_def by blast
    have at: "im_user new = im_user imp" "im_id new = im_id imp" "at_status (last (im_attempts new)) = Ended"
      using c f assms(2)
      by (auto simp: removed_change_def Let_def item_over_def last_list_update split: option.splits if_splits)
    moreover have "im_user imp = user" "im_id imp = i"
      using assms(1) f(1) unfolding item_held_def store_ok_def by blast+
    ultimately show ?thesis using st' u by (simp add: item_over_def)
  qed
qed

lemma step_held: "item_held user i st \<Longrightarrow> store_step good_finish st st' \<Longrightarrow> item_held user i st'"
  using held_step store_step_ok item_held_def by blast

text \<open>The store keeps the contract whatever fails, as long as the record can still be written when the
  attempt is abandoned.\<close>

lemma store_attempts:
  assumes w: "sf_write (qf_abandon qf) = None"
  shows "attempt_store (store_ops qf user i now) (item_held user i) (item_over user i) (item_finished user i)"
proof
  fix st st' :: store and q :: "store_error + nat"
  assume "item_held user i st" "ao_begin (store_ops qf user i now) st = (q, st')"
  then show "item_held user i st'" by (auto simp: store_ops_def elim!: step_held intro: begin_step)
next
  fix st n p
  assume h: "item_held user i st"
  have "store_step good_finish st (store_progress (qf_progress qf) user i n p st)"
    by (cases p) (auto simp: store_progress_def intro: listed_step checked_step ended_step surjective_pairing)
  then show "item_held user i (ao_progress (store_ops qf user i now) n p st)"
    using h by (auto simp: store_ops_def elim: step_held)
next
  fix st st' why and r :: "store_error + unit"
  assume "item_held user i st" "ao_break (store_ops qf user i now) why st = (r, st')"
  then show "item_held user i st'"
    by (auto simp: store_ops_def break_attempt_def elim!: step_held intro: end_step)
next
  fix st st' why u
  assume "item_held user i st" "ao_break (store_ops qf user i now) why st = (Inr u, st')"
  then show "item_over user i st'"
    using end_unfinished_Inr_over by (simp add: store_ops_def break_attempt_def)
next
  fix st st' n rep and r :: "store_error + unit"
  assume "item_held user i st" "good_report rep" "ao_finish (store_ops qf user i now) n rep st = (r, st')"
  then show "item_held user i st'" by (auto simp: store_ops_def good_finish_def elim!: step_held intro: finish_step)
next
  fix st st' n rep u
  assume "item_held user i st" "ao_finish (store_ops qf user i now) n rep st = (Inr u, st')"
  then show "item_over user i st' \<and> item_finished user i n rep st'"
    using finish_over_store by (simp add: store_ops_def)
next
  fix st n rm
  assume "item_held user i st" "item_over user i st"
  then show "item_over user i (snd (ao_removed (store_ops qf user i now) n rm st))"
    using removed_over_store by (simp add: store_ops_def)
next
  fix st why
  assume "item_held user i st"
  then show "item_over user i (snd (ao_abandon (store_ops qf user i now) why st))"
    using end_unfinished_over w by (simp add: store_ops_def abandon_def)
qed

definition steady :: "queue_faults \<Rightarrow> queue_faults" where
  "steady qf = qf\<lparr>qf_abandon := no_faults\<rparr>"

interpretation sq: attempt_store "store_ops (steady qf) user i now" "item_held user i" "item_over user i"
    "item_finished user i"
  by (rule store_attempts) (simp add: steady_def no_faults_def)

text \<open>C13. No attempt stays queued or running behind the queue's back. Whatever the run reports, and
  whether it returns or panics, whichever store operation fails, once an item was processed its
  latest attempt has ended, as long as abandoning it can still write the record. The remover of
  the archive is called only on a state where the attempt that ran is stored as ended with the
  report its run returned, and never for a run cut short by Close.\<close>

theorem process_ends_attempt:
  assumes "item_held user i st" and "sf_write (qf_abandon qf) = None"
    and "\<And>imp rep rm. rr_end (run imp) = Returned rep rm \<Longrightarrow> good_report rep"
    and "process (store_ops qf user i now) run closed st = (st', called)"
  shows "item_over user i st' \<and> (\<forall>t. called = Some t \<longrightarrow> (\<exists>n st0 imp rep rm. get_import st0 user i = Inr imp
      \<and> rr_end (run imp) = Returned rep (Some rm)
      \<and> \<not> (closed \<and> rp_outcome rep = outcome_incomplete) \<and> item_finished user i n rep t))"
proof -
  have "ao_get (store_ops qf user i now) = (\<lambda>st. get_import st user i)" by (simp add: store_ops_def)
  then show ?thesis
    using attempt_store.process_over [OF store_attempts [OF assms(2)] assms(1) assms(3) assms(4)] by simp
qed

definition all_steady :: queue_faults where
  "all_steady = \<lparr>qf_begin = no_faults, qf_progress = no_faults, qf_break = no_faults, qf_finish = no_faults,
     qf_abandon = no_faults, qf_removed = no_faults\<rparr>"

definition sample_store :: store where
  "sample_store = \<lparr>st_files = [(''ann'', sample_id) \<mapsto> Record sample_import], st_work = []\<rparr>"

lemma sample_held: "item_held ''ann'' sample_id sample_store"
proof -
  have "valid_user ''ann''" "valid_id sample_id" by code_simp+
  moreover have "store_ok good_finish sample_store"
    using store_reach_ok [OF sample_reach empty_store_ok] by (simp add: sample_store_def)
  ultimately show ?thesis by (simp add: item_held_def sample_store_def)
qed

definition sample_run :: "import_record \<Rightarrow> run_result" where
  "sample_run imp = \<lparr>rr_events = [P_Checked],
     rr_end = Returned (zero_report\<lparr>rp_outcome := outcome_complete\<rparr>) (Some None)\<rparr>"

theorem process_ends_attempt_witness:
  "item_over ''ann'' sample_id (fst (process (store_ops all_steady ''ann'' sample_id 5) sample_run False sample_store))"
proof -
  obtain st' called where p: "process (store_ops all_steady ''ann'' sample_id 5) sample_run False sample_store = (st', called)"
    by fastforce
  have good: "rr_end (sample_run imp) = Returned rep rm \<Longrightarrow> good_report rep" for imp rep rm
    by (auto simp: sample_run_def good_report_def zero_report_def recount_def zero_counts_def)
  have w: "sf_write (qf_abandon all_steady) = None" by (simp add: all_steady_def no_faults_def)
  show ?thesis using process_ends_attempt [OF sample_held w good p] p by simp
qed

end
