(* ===== verification/Npm_Tarball.thy ===== *)
theory Npm_Tarball
  imports Npm_Registry
begin

text \<open>
  \<^verbatim>\<open>npm/tarball.go\<close>: reading, rewriting and comparing package tarballs. gzip, tar, JSON and sha256
  are the standard library's: \<open>tball\<close> is what the gzip and tar readers give for a stream of bytes
  whose decompressed size is bounded, and the rest is the record \<open>tar_api\<close>.
\<close>

subsection \<open>What the readers give\<close>

record tball_entry =
  be_name :: string
  be_type :: char
  be_mode :: int
  be_link :: string
  be_size :: int
  be_pax :: "(string, string) gomap"
  be_meta :: string
  be_body :: bytes
  be_body_err :: "string option"

text \<open>\<open>tl_end\<close> is None at the end of the archive, \<open>tl_rest\<close> what follows the end marker.\<close>

record tball =
  tl_gzip :: "string option"
  tl_entries :: "tball_entry list"
  tl_end :: "string option"
  tl_rest :: bytes
  tl_rest_err :: "string option"

text \<open>\<open>ta_decode\<close> gives the keys of a JSON object and whether other data follows it, \<open>ta_string\<close> the
  value when it is a string or null.\<close>

record 'j tar_api =
  ta_open :: "int \<Rightarrow> bytes \<Rightarrow> tball"
  ta_quote :: "string \<Rightarrow> string"
  ta_decode :: "bytes \<Rightarrow> string + (string, 'j) gomap \<times> bool"
  ta_string :: "'j \<Rightarrow> string option"
  ta_encode :: "(string, 'j) gomap \<Rightarrow> string + bytes"
  ta_sha256 :: "bytes \<Rightarrow> bytes"
  ta_write :: "tball_entry \<Rightarrow> string option"
  ta_close :: "string option"

datatype tar_fault = Trailing_Data | Unsafe_Path string | Tar_Fault string

definition fault_text :: "tar_fault \<Rightarrow> string" where
  "fault_text f = (case f of Trailing_Data \<Rightarrow> ''tarball has data after its end-of-archive marker''
     | Unsafe_Path p \<Rightarrow> ''unsafe path in tarball: '' @ p | Tar_Fault e \<Rightarrow> e)"

definition max_tarball_entries :: nat where "max_tarball_entries = 100000"
definition max_tarball_bytes :: int where "max_tarball_bytes = 10 * 2 ^ 30"
definition max_manifest_bytes :: nat where "max_manifest_bytes = 16 * 2 ^ 20"
definition max_entry_name_bytes :: nat where "max_entry_name_bytes = 4096"

subsection \<open>path.Clean\<close>

text \<open>One segment after the other: an empty one and a dot go, two dots take the last one back.\<close>

definition clean_seg :: "bool \<Rightarrow> string list \<Rightarrow> string \<Rightarrow> string list" where
  "clean_seg rooted out seg =
     (if seg = '''' \<or> seg = ''.'' then out
      else if seg = ''..'' then
        (case out of [] \<Rightarrow> if rooted then [] else [seg]
         | prev # rest \<Rightarrow> if prev = ''..'' then seg # out else rest)
      else seg # out)"

definition path_clean :: "string \<Rightarrow> string" where
  "path_clean s =
     (let rooted = has_prefix ''/'' s;
          body = join_with ''/'' (rev (foldl (clean_seg rooted) [] (split_char CHR ''/'' s))) in
      if rooted then ''/'' @ body else if body = '''' then ''.'' else body)"

subsection \<open>Walking a tarball\<close>

definition zero_rest :: "tball \<Rightarrow> tar_fault + unit" where
  "zero_rest t =
     (if list_ex (\<lambda>b. of_char b \<noteq> (0::nat)) (tl_rest t) then Inl Trailing_Data
      else case tl_rest_err t of Some e \<Rightarrow> Inl (Tar_Fault (''read tarball: '' @ e)) | None \<Rightarrow> Inr ())"

definition entry_root_name :: "tball_entry \<Rightarrow> string" where
  "entry_root_name h = trim_suffix ''/'' (trim_prefix ''./'' (be_name h))"

definition check_tar_entry :: "'j tar_api \<Rightarrow> nat \<Rightarrow> tball_entry \<Rightarrow> tar_fault + unit" where
  "check_tar_entry ta entries h =
     (if max_tarball_entries \<le> entries then Inl (Tar_Fault ''tarball has more than 100000 entries'')
      else if max_entry_name_bytes < length (be_name h) \<or> max_entry_name_bytes < length (be_link h)
      then Inl (Tar_Fault ''tarball has an entry name or link target longer than 4096 bytes'')
      else if has_prefix ''/'' (be_name h) \<or> ''..'' \<in> set (split_char CHR ''/'' (be_name h))
      then Inl (Unsafe_Path (ta_quote ta (be_name h)))
      else let name = entry_root_name h in
        if name = '''' \<or> path_clean name \<noteq> name then Inl (Unsafe_Path (ta_quote ta (be_name h)))
        else Inr ())"

fun walk_entries :: "'j tar_api \<Rightarrow> tball \<Rightarrow> ('s \<Rightarrow> tball_entry \<Rightarrow> tar_fault + 's) \<Rightarrow> nat \<Rightarrow> 's \<Rightarrow> tball_entry list
    \<Rightarrow> tar_fault + 's" where
  "walk_entries ta t fn n s [] = (case tl_end t of
     Some e \<Rightarrow> Inl (Tar_Fault (''read tarball: '' @ e))
   | None \<Rightarrow> try_bind (zero_rest t) (\<lambda>_. Inr s))"
| "walk_entries ta t fn n s (h # hs) =
     try_bind (check_tar_entry ta n h) (\<lambda>_. try_bind (fn s h) (\<lambda>s'. walk_entries ta t fn (n + 1) s' hs))"

definition walk_tarball :: "'j tar_api \<Rightarrow> ('s \<Rightarrow> tball_entry \<Rightarrow> tar_fault + 's) \<Rightarrow> 's \<Rightarrow> bytes \<Rightarrow> tar_fault + 's" where
  "walk_tarball ta fn s r = (let t = ta_open ta max_tarball_bytes r in
     case tl_gzip t of Some e \<Rightarrow> Inl (Tar_Fault (''open tarball: '' @ e))
     | None \<Rightarrow> walk_entries ta t fn 0 s (tl_entries t))"

definition is_manifest :: "tball_entry \<Rightarrow> bool" where
  "is_manifest h = (let parts = split_char CHR ''/'' (trim_prefix ''./'' (be_name h)) in
     be_type h = CHR ''0'' \<and> length parts = 2 \<and> parts ! 1 = ''package.json'')"

subsection \<open>package.json\<close>

text \<open>The two calls of the decoder: an object and then the end. Data past the bound, or that cannot be
  read, is an error of the first or of the second.\<close>

definition decode_manifest :: "'j tar_api \<Rightarrow> tball_entry \<Rightarrow> string + (string, 'j) gomap" where
  "decode_manifest ta h =
     (if max_manifest_bytes < length (be_body h) then Inl ''package.json is larger than 16 MiB''
      else case be_body_err h of Some e \<Rightarrow> Inl e
      | None \<Rightarrow> (case ta_decode ta (be_body h) of
          Inl e \<Rightarrow> Inl e
        | Inr (keys, more_data) \<Rightarrow>
            if more_data then Inl ''unexpected data after the JSON object'' else Inr keys))"

definition name_fault :: "'j tar_api \<Rightarrow> tball_entry \<Rightarrow> string + 'a \<Rightarrow> tar_fault + 'a" where
  "name_fault ta h r = (case r of Inl e \<Rightarrow> Inl (Tar_Fault (ta_quote ta (be_name h) @ '': '' @ e)) | Inr x \<Rightarrow> Inr x)"

definition string_field :: "'j tar_api \<Rightarrow> (string, 'j) gomap \<Rightarrow> string \<Rightarrow> string" where
  "string_field ta keys key = (case gm_get keys key of None \<Rightarrow> ''''
     | Some v \<Rightarrow> (case ta_string ta v of None \<Rightarrow> '''' | Some s \<Rightarrow> s))"

definition without_publish_config :: "'j tar_api \<Rightarrow> tball_entry \<Rightarrow> string + bytes" where
  "without_publish_config ta h = try_bind (decode_manifest ta h) (\<lambda>keys.
     ta_encode ta (gm_del ''publishConfig'' keys))"

subsection \<open>InspectTarball\<close>

record tarball_info =
  tf_path :: string
  tf_name :: string
  tf_version :: string
  tf_publish_config :: bool

definition no_info :: tarball_info where
  "no_info = \<lparr>tf_path = '''', tf_name = '''', tf_version = '''', tf_publish_config = False\<rparr>"

definition two_manifests :: "'j tar_api \<Rightarrow> string \<Rightarrow> tball_entry \<Rightarrow> tar_fault" where
  "two_manifests ta first h = Tar_Fault (''tarball has several package.json files: '' @ ta_quote ta first @ '' and ''
     @ ta_quote ta (be_name h))"

definition inspect_step :: "'j tar_api \<Rightarrow> tarball_info \<Rightarrow> tball_entry \<Rightarrow> tar_fault + tarball_info" where
  "inspect_step ta info h =
     (if \<not> is_manifest h then Inr info
      else if tf_path info \<noteq> '''' then Inl (two_manifests ta (tf_path info) h)
      else try_bind (name_fault ta h (decode_manifest ta h)) (\<lambda>keys.
        Inr \<lparr>tf_path = be_name h, tf_name = string_field ta keys ''name'',
             tf_version = string_field ta keys ''version'',
             tf_publish_config = gm_has keys ''publishConfig''\<rparr>))"

definition inspect_tarball :: "'j tar_api \<Rightarrow> bytes \<Rightarrow> tar_fault + tarball_info" where
  "inspect_tarball ta r = try_bind (walk_tarball ta (inspect_step ta) no_info r) (\<lambda>info.
     if tf_path info = '''' then Inl (Tar_Fault ''tarball has no package.json'') else Inr info)"

subsection \<open>StripPublishConfig\<close>

text \<open>The state is the name of the package.json rewritten and the entries written so far.\<close>

definition write_tball :: "'j tar_api \<Rightarrow> string option \<times> tball_entry list \<Rightarrow> tball_entry
    \<Rightarrow> tar_fault + string option \<times> tball_entry list" where
  "write_tball ta st h = (case ta_write ta h of Some e \<Rightarrow> Inl (Tar_Fault e)
     | None \<Rightarrow> (case be_body_err h of Some e \<Rightarrow> Inl (Tar_Fault e) | None \<Rightarrow> Inr (fst st, snd st @ [h])))"

definition strip_step :: "'j tar_api \<Rightarrow> string option \<times> tball_entry list \<Rightarrow> tball_entry
    \<Rightarrow> tar_fault + string option \<times> tball_entry list" where
  "strip_step ta st h =
     (if is_manifest h then
        (case fst st of
           Some first \<Rightarrow> Inl (two_manifests ta first h)
         | None \<Rightarrow> try_bind (name_fault ta h (without_publish_config ta h)) (\<lambda>data.
             write_tball ta (Some (be_name h), snd st)
               (h\<lparr>be_size := int (length data), be_pax := gm_del ''size'' (be_pax h), be_body := data\<rparr>)))
      else write_tball ta st h)"

definition strip_publish_config :: "'j tar_api \<Rightarrow> bytes \<Rightarrow> tar_fault + tball_entry list" where
  "strip_publish_config ta r = try_bind (walk_tarball ta (strip_step ta) (None, []) r) (\<lambda>st.
     case fst st of None \<Rightarrow> Inl (Tar_Fault ''tarball has no package.json'')
     | Some _ \<Rightarrow> (case ta_close ta of Some e \<Rightarrow> Inl (Tar_Fault e) | None \<Rightarrow> Inr (snd st)))"

subsection \<open>SameContent\<close>

record entry_digest =
  ed_type :: char
  ed_mode :: int
  ed_link :: bytes
  ed_sum :: bytes

definition entry_bytes :: "'j tar_api \<Rightarrow> tball_entry \<Rightarrow> tar_fault + bytes" where
  "entry_bytes ta h =
     (if is_manifest h then name_fault ta h (without_publish_config ta h)
      else case be_body_err h of Some e \<Rightarrow> Inl (Tar_Fault (''read tarball: '' @ e)) | None \<Rightarrow> Inr (be_body h))"

definition digest_entry :: "'j tar_api \<Rightarrow> tball_entry \<Rightarrow> tar_fault + entry_digest" where
  "digest_entry ta h = try_bind (entry_bytes ta h) (\<lambda>data.
     Inr \<lparr>ed_type = be_type h, ed_mode = be_mode h mod 4096, ed_link = ta_sha256 ta (be_link h),
          ed_sum = ta_sha256 ta data\<rparr>)"

definition digest_step :: "'j tar_api \<Rightarrow> (bytes, entry_digest) gomap \<times> bool \<Rightarrow> tball_entry
    \<Rightarrow> tar_fault + (bytes, entry_digest) gomap \<times> bool" where
  "digest_step ta acc h = try_bind (digest_entry ta h) (\<lambda>d.
     let key = ta_sha256 ta (be_name h) in
     Inr (gm_put key d (fst acc), snd acc \<or> gm_has (fst acc) key))"

definition digest_tarball :: "'j tar_api \<Rightarrow> bytes \<Rightarrow> tar_fault + (bytes, entry_digest) gomap \<times> bool" where
  "digest_tarball ta r = walk_tarball ta (digest_step ta) ([], False) r"

definition same_content :: "'j tar_api \<Rightarrow> bytes \<Rightarrow> bytes \<Rightarrow> tar_fault + bool" where
  "same_content ta a b = (case digest_tarball ta a of
     Inl Trailing_Data \<Rightarrow> Inr False
   | Inl e \<Rightarrow> Inl e
   | Inr (da, dup_a) \<Rightarrow> (case digest_tarball ta b of
       Inl Trailing_Data \<Rightarrow> Inr False
     | Inl e \<Rightarrow> Inl e
     | Inr (db, dup_b) \<Rightarrow>
         if dup_a \<or> dup_b \<or> length da \<noteq> length db then Inr False
         else Inr (list_all (\<lambda>(name, d). gm_get db name = Some d) da)))"

subsection \<open>What a walk accepts\<close>

fun fold_err :: "('s \<Rightarrow> 'a \<Rightarrow> 'e + 's) \<Rightarrow> 's \<Rightarrow> 'a list \<Rightarrow> 'e + 's" where
  "fold_err fn s [] = Inr s"
| "fold_err fn s (h # hs) = try_bind (fn s h) (\<lambda>s'. fold_err fn s' hs)"

definition safe_entry :: "tball_entry \<Rightarrow> bool" where
  "safe_entry h \<longleftrightarrow> length (be_name h) \<le> max_entry_name_bytes \<and> length (be_link h) \<le> max_entry_name_bytes
     \<and> \<not> has_prefix ''/'' (be_name h) \<and> ''..'' \<notin> set (split_char CHR ''/'' (be_name h))
     \<and> entry_root_name h \<noteq> '''' \<and> path_clean (entry_root_name h) = entry_root_name h"

text \<open>The entries of a tarball that every walk reads to its end.\<close>

definition readable_tar :: "'j tar_api \<Rightarrow> bytes \<Rightarrow> tball_entry list \<Rightarrow> bool" where
  "readable_tar ta r es \<longleftrightarrow> (let t = ta_open ta max_tarball_bytes r in
     tl_gzip t = None \<and> tl_entries t = es \<and> tl_end t = None \<and> tl_rest_err t = None
     \<and> list_all (\<lambda>b. of_char b = (0::nat)) (tl_rest t)
     \<and> length es \<le> max_tarball_entries \<and> list_all safe_entry es)"

lemma check_tar_entry_Inr: "check_tar_entry ta n h = Inr u \<longleftrightarrow> n < max_tarball_entries \<and> safe_entry h"
  by (auto simp: check_tar_entry_def safe_entry_def Let_def)

lemma zero_rest_Inr: "zero_rest t = Inr u \<longleftrightarrow> tl_rest_err t = None \<and> list_all (\<lambda>b. of_char b = (0::nat)) (tl_rest t)"
  by (auto simp: zero_rest_def list_ex_iff list_all_iff split: option.splits)

lemma walk_entries_Inr:
  "walk_entries ta t fn n s es = Inr s' \<longleftrightarrow> (es = [] \<or> n + length es \<le> max_tarball_entries) \<and> list_all safe_entry es
     \<and> fold_err fn s es = Inr s' \<and> tl_end t = None \<and> tl_rest_err t = None
     \<and> list_all (\<lambda>b. of_char b = (0::nat)) (tl_rest t)"
proof (induction es arbitrary: n s)
  case Nil
  then show ?case by (auto simp: go_err zero_rest_Inr split: option.splits)
next
  case (Cons h es)
  then show ?case
    by (cases es) (auto simp: go_err check_tar_entry_Inr zero_rest_Inr split: option.splits)
qed

lemma walk_tarball_Inr:
  "walk_tarball ta fn s r = Inr s' \<longleftrightarrow> (\<exists>es. readable_tar ta r es \<and> fold_err fn s es = Inr s')"
  by (auto simp: walk_tarball_def readable_tar_def Let_def walk_entries_Inr split: option.splits)

lemma readable_tar_unique: "readable_tar ta r es \<Longrightarrow> readable_tar ta r fs \<Longrightarrow> es = fs"
  by (simp add: readable_tar_def Let_def)

subsection \<open>InspectTarball\<close>

definition info_of :: "'j tar_api \<Rightarrow> tball_entry \<Rightarrow> (string, 'j) gomap \<Rightarrow> tarball_info" where
  "info_of ta h keys = \<lparr>tf_path = be_name h, tf_name = string_field ta keys ''name'',
     tf_version = string_field ta keys ''version'', tf_publish_config = gm_has keys ''publishConfig''\<rparr>"

lemma name_fault_Inr: "name_fault ta h r = Inr x \<longleftrightarrow> r = Inr x"
  by (cases r) (auto simp: name_fault_def)

lemma manifest_named: "is_manifest h \<Longrightarrow> be_name h \<noteq> ''''"
  by (auto simp: is_manifest_def trim_prefix_def)

lemma inspect_rest:
  "tf_path i \<noteq> '''' \<Longrightarrow> fold_err (inspect_step ta) i es = Inr info \<longleftrightarrow> filter is_manifest es = [] \<and> info = i"
  by (induction es) (auto simp: inspect_step_def)

lemma inspect_fold:
  "fold_err (inspect_step ta) no_info es = Inr info \<and> tf_path info \<noteq> '''' \<longleftrightarrow>
     (\<exists>h keys. filter is_manifest es = [h] \<and> decode_manifest ta h = Inr keys \<and> info = info_of ta h keys)"
proof (induction es)
  case Nil
  then show ?case by (auto simp: no_info_def)
next
  case (Cons h es)
  have path: "tf_path (info_of ta h keys) \<noteq> ''''" if "is_manifest h" for keys
    using manifest_named that by (simp add: info_of_def)
  show ?case
  proof (cases "is_manifest h")
    case True
    then have "fold_err (inspect_step ta) no_info (h # es) = Inr info \<longleftrightarrow>
        (\<exists>keys. decode_manifest ta h = Inr keys \<and> filter is_manifest es = [] \<and> info = info_of ta h keys)"
      using inspect_rest [OF path, where ta = ta]
      by (auto simp: inspect_step_def no_info_def go_err name_fault_Inr simp flip: info_of_def)
    then show ?thesis using True path by auto
  next
    case False
    then show ?thesis using Cons.IH by (simp add: inspect_step_def)
  qed
qed

text \<open>InspectTarball accepts exactly the tarballs that can be read to their end, with nothing but
  zeros after the end marker, at most 100,000 entries, only entries at clean relative paths, and
  one regular first-level package.json that is one JSON object; and it reports the name, the
  version and the presence of publishConfig of that file.\<close>

theorem inspect_exact:
  "inspect_tarball ta r = Inr info \<longleftrightarrow> (\<exists>es h keys. readable_tar ta r es \<and> filter is_manifest es = [h]
     \<and> decode_manifest ta h = Inr keys \<and> info = info_of ta h keys)"
  unfolding inspect_tarball_def
  using inspect_fold [of ta _ info] by (auto simp: go_err walk_tarball_Inr split: if_splits) blast+

subsection \<open>SameContent\<close>

text \<open>What the comparison looks at, before anything is hashed.\<close>

definition entry_content :: "'j tar_api \<Rightarrow> tball_entry \<Rightarrow> string \<times> char \<times> int \<times> string \<times> (tar_fault + bytes)" where
  "entry_content ta h = (be_name h, be_type h, be_mode h mod 4096, be_link h, entry_bytes ta h)"

definition entry_key :: "'j tar_api \<Rightarrow> tball_entry \<Rightarrow> bytes" where
  "entry_key ta h = ta_sha256 ta (be_name h)"

lemma gm_put_new: "\<not> gm_has m k \<Longrightarrow> gm_put k v m = m @ [(k, v)]"
  unfolding gm_has_def gm_put_def gm_get_def by (induction m) (auto split: if_splits)

lemma gm_has_put: "gm_has (gm_put k v m) j \<longleftrightarrow> j = k \<or> gm_has m j"
  by (simp add: gm_has_def)

lemma digest_step_Inr: "digest_step ta (m, dup) h = Inr acc \<longleftrightarrow> (\<exists>d. digest_entry ta h = Inr d
    \<and> acc = (gm_put (entry_key ta h) d m, dup \<or> gm_has m (entry_key ta h)))"
  by (auto simp: digest_step_def go_err Let_def entry_key_def)

lemma digest_fold:
  "fold_err (digest_step ta) (m, dup) es = Inr (m', dup') \<Longrightarrow>
   \<exists>ds. map_err (digest_entry ta) es = Inr ds
    \<and> (dup' \<longleftrightarrow> dup \<or> \<not> distinct (map (entry_key ta) es) \<or> (\<exists>h \<in> set es. gm_has m (entry_key ta h)))
    \<and> (\<not> dup' \<longrightarrow> m' = m @ zip (map (entry_key ta) es) ds)"
proof (induction es arbitrary: m dup)
  case Nil
  then show ?case by auto
next
  case (Cons h es)
  from Cons.prems obtain d where d: "digest_entry ta h = Inr d"
    and r: "fold_err (digest_step ta) (gm_put (entry_key ta h) d m, dup \<or> gm_has m (entry_key ta h)) es = Inr (m', dup')"
    by (auto simp: digest_step_Inr try_bind_Inr)
  from Cons.IH [OF r] obtain ds where ds: "map_err (digest_entry ta) es = Inr ds"
    and q: "dup' \<longleftrightarrow> (dup \<or> gm_has m (entry_key ta h)) \<or> \<not> distinct (map (entry_key ta) es)
      \<or> (\<exists>g \<in> set es. gm_has (gm_put (entry_key ta h) d m) (entry_key ta g))"
    and z: "\<not> dup' \<longrightarrow> m' = gm_put (entry_key ta h) d m @ zip (map (entry_key ta) es) ds" by blast
  have "dup' \<longleftrightarrow> dup \<or> \<not> distinct (map (entry_key ta) (h # es)) \<or> (\<exists>g \<in> set (h # es). gm_has m (entry_key ta g))"
    unfolding q gm_has_put by (auto simp: image_iff) metis
  moreover have "\<not> dup' \<longrightarrow> m' = m @ zip (map (entry_key ta) (h # es)) (d # ds)"
    using z q by (auto simp: gm_put_new)
  ultimately show ?case using d ds by simp
qed

lemma digest_tarball_Inr:
  assumes "digest_tarball ta r = Inr (m, dup)"
  shows "\<exists>es ds. readable_tar ta r es \<and> map_err (digest_entry ta) es = Inr ds
    \<and> (dup \<longleftrightarrow> \<not> distinct (map (entry_key ta) es)) \<and> (\<not> dup \<longrightarrow> m = zip (map (entry_key ta) es) ds)"
proof -
  obtain es where es: "readable_tar ta r es" and "fold_err (digest_step ta) ([], False) es = Inr (m, dup)"
    using assms by (auto simp: digest_tarball_def walk_tarball_Inr)
  from digest_fold [OF this(2)] es show ?thesis by (auto simp: gm_has_def)
qed

lemma digest_fold_total: "map_err (digest_entry ta) es = Inr ds \<Longrightarrow> \<exists>acc'. fold_err (digest_step ta) acc es = Inr acc'"
  by (induction es arbitrary: acc ds) (auto simp: go_err digest_step_def Let_def list_all2_Cons1)

lemma digest_tarball_total:
  "readable_tar ta r es \<Longrightarrow> map_err (digest_entry ta) es = Inr ds \<Longrightarrow> \<exists>m dup. digest_tarball ta r = Inr (m, dup)"
  using digest_fold_total [of ta es ds "([], False)"] by (auto simp: digest_tarball_def walk_tarball_Inr)

text \<open>Two lists of distinct keys, of the same length, one contained in the other.\<close>

lemma same_maps:
  assumes "distinct (map fst xs)" "distinct (map fst ys)"
  shows "length xs = length ys \<and> list_all (\<lambda>(k, d). gm_get ys k = Some d) xs \<longleftrightarrow> set xs = set ys"
proof -
  have ys: "gm_get ys k = Some d \<longleftrightarrow> (k, d) \<in> set ys" for k d
    using assms(2) by (simp add: gm_get_Some_iff gm_ok_def)
  have c: "card (set xs) = length xs" "card (set ys) = length ys"
    using assms by (simp_all add: distinct_card distinct_map)
  have "list_all (\<lambda>(k, d). gm_get ys k = Some d) xs \<longleftrightarrow> set xs \<subseteq> set ys"
    by (auto simp: list_all_iff ys)
  then show ?thesis using c card_subset_eq [of "set ys" "set xs"] by auto
qed

lemma same_content_True:
  "same_content ta a b = Inr True \<longleftrightarrow> (\<exists>es fs ds gs. readable_tar ta a es \<and> readable_tar ta b fs
     \<and> map_err (digest_entry ta) es = Inr ds \<and> map_err (digest_entry ta) fs = Inr gs
     \<and> distinct (map (entry_key ta) es) \<and> distinct (map (entry_key ta) fs)
     \<and> set (zip (map (entry_key ta) es) ds) = set (zip (map (entry_key ta) fs) gs))" (is "?l \<longleftrightarrow> ?r")
proof -
  have keys: "map fst (zip (map (entry_key ta) es) ds) = map (entry_key ta) es"
    if "map_err (digest_entry ta) es = Inr ds" for es ds
    using that by (auto simp: go_err dest: list_all2_lengthD)
  show ?thesis
  proof
    assume ?l
    then obtain m n where a: "digest_tarball ta a = Inr (m, False)" and b: "digest_tarball ta b = Inr (n, False)"
      and eq: "length m = length n \<and> list_all (\<lambda>(k, d). gm_get n k = Some d) m"
      by (auto simp: same_content_def split: sum.splits tar_fault.splits prod.splits if_splits)
    from digest_tarball_Inr [OF a] digest_tarball_Inr [OF b] obtain es ds fs gs
      where r: "readable_tar ta a es" "readable_tar ta b fs" "map_err (digest_entry ta) es = Inr ds"
        "map_err (digest_entry ta) fs = Inr gs" "distinct (map (entry_key ta) es)" "distinct (map (entry_key ta) fs)"
        and m: "m = zip (map (entry_key ta) es) ds" "n = zip (map (entry_key ta) fs) gs" by auto
    have "set m = set n" using same_maps [of m n] eq m keys r by auto
    then show ?r using r m by blast
  next
    assume ?r
    then obtain es fs ds gs where r: "readable_tar ta a es" "readable_tar ta b fs" "map_err (digest_entry ta) es = Inr ds"
        "map_err (digest_entry ta) fs = Inr gs" "distinct (map (entry_key ta) es)" "distinct (map (entry_key ta) fs)"
        and s: "set (zip (map (entry_key ta) es) ds) = set (zip (map (entry_key ta) fs) gs)" by blast
    obtain m d n e where mn: "digest_tarball ta a = Inr (m, d)" "digest_tarball ta b = Inr (n, e)"
      using digest_tarball_total r by meson
    have "m = zip (map (entry_key ta) es) ds \<and> \<not> d" "n = zip (map (entry_key ta) fs) gs \<and> \<not> e"
      using digest_tarball_Inr [OF mn(1)] digest_tarball_Inr [OF mn(2)] r readable_tar_unique by (metis sum.inject(2))+
    then show ?l using mn same_maps [of m n] s keys r by (auto simp: same_content_def)
  qed
qed

lemma map_err_projr: "map_err f xs = Inr ys \<longleftrightarrow> (\<forall>x \<in> set xs. \<not> isl (f x)) \<and> ys = map (\<lambda>x. projr (f x)) xs"
proof (induction xs arbitrary: ys)
  case (Cons x xs)
  then show ?case by (cases "f x") (auto simp: try_bind_Inr)
qed auto

lemma zip_digests:
  "map_err (digest_entry ta) es = Inr ds \<Longrightarrow>
   set (zip (map (entry_key ta) es) ds) = (\<lambda>h. (entry_key ta h, projr (digest_entry ta h))) ` set es"
  by (auto simp: map_err_projr zip_map_map zip_same_conv_map)

lemma isl_digest: "isl (digest_entry ta h) \<longleftrightarrow> isl (entry_bytes ta h)"
  by (cases "entry_bytes ta h") (auto simp: digest_entry_def)

text \<open>The digest of one entry, as a function of what is compared.\<close>

definition hash_content :: "'j tar_api \<Rightarrow> string \<times> char \<times> int \<times> string \<times> (tar_fault + bytes) \<Rightarrow> bytes \<times> entry_digest" where
  "hash_content ta c = (case c of (name, t, m, l, data) \<Rightarrow> (ta_sha256 ta name,
     \<lparr>ed_type = t, ed_mode = m, ed_link = ta_sha256 ta l, ed_sum = ta_sha256 ta (projr data)\<rparr>))"

lemma hash_content_digest:
  "\<not> isl (entry_bytes ta h) \<Longrightarrow> (entry_key ta h, projr (digest_entry ta h)) = hash_content ta (entry_content ta h)"
  by (cases "entry_bytes ta h") (auto simp: digest_entry_def hash_content_def entry_content_def entry_key_def)

lemma hash_content_inj:
  "inj (ta_sha256 ta) \<Longrightarrow> inj_on (hash_content ta) {c. \<not> isl (snd (snd (snd (snd c))))}"
  by (auto simp: inj_on_def hash_content_def inj_def) (metis sum.collapse(2))

lemma same_content_images:
  "same_content ta a b = Inr True \<longleftrightarrow> (\<exists>es fs. readable_tar ta a es \<and> readable_tar ta b fs
     \<and> distinct (map (entry_key ta) es) \<and> distinct (map (entry_key ta) fs)
     \<and> (\<forall>h \<in> set es. \<not> isl (entry_bytes ta h)) \<and> (\<forall>h \<in> set fs. \<not> isl (entry_bytes ta h))
     \<and> (\<lambda>h. (entry_key ta h, projr (digest_entry ta h))) ` set es
         = (\<lambda>h. (entry_key ta h, projr (digest_entry ta h))) ` set fs)"
  unfolding same_content_True map_err_projr isl_digest
  by (intro iff_exI) (auto simp add: zip_map_map zip_same_conv_map)

text \<open>C40. As long as sha256 has no collision, SameContent says yes exactly when both tarballs can be
  read to their end, neither holds a name twice, and they hold the same set of entries, compared
  by name, type, permission bits, link target and bytes, with publishConfig removed from the
  first-level package.json.\<close>

theorem same_content_exact:
  assumes inj: "inj (ta_sha256 ta)"
  shows "same_content ta a b = Inr True \<longleftrightarrow> (\<exists>es fs. readable_tar ta a es \<and> readable_tar ta b fs
     \<and> distinct (map be_name es) \<and> distinct (map be_name fs)
     \<and> (\<forall>h \<in> set es \<union> set fs. \<not> isl (entry_bytes ta h))
     \<and> entry_content ta ` set es = entry_content ta ` set fs)"
proof -
  have key: "distinct (map (entry_key ta) es) \<longleftrightarrow> distinct (map be_name es)" for es
  proof -
    have "map (entry_key ta) es = map (ta_sha256 ta) (map be_name es)" by (simp add: entry_key_def)
    then show ?thesis using inj by (simp add: distinct_map inj_on_def inj_def del: map_map)
  qed
  have image: "(\<lambda>h. (entry_key ta h, projr (digest_entry ta h))) ` set es = hash_content ta ` entry_content ta ` set es"
    if "\<forall>h \<in> set es. \<not> isl (entry_bytes ta h)" for es
    using that by (auto simp: image_image hash_content_digest simp flip: hash_content_digest intro!: image_cong)
  have same: "hash_content ta ` entry_content ta ` set es = hash_content ta ` entry_content ta ` set fs
      \<longleftrightarrow> entry_content ta ` set es = entry_content ta ` set fs"
    if "\<forall>h \<in> set es \<union> set fs. \<not> isl (entry_bytes ta h)" for es fs
    using that
    by (intro inj_on_image_eq_iff [OF hash_content_inj [OF inj]]) (auto simp: entry_content_def)
  have "(\<forall>h \<in> set es. \<not> isl (entry_bytes ta h)) \<and> (\<forall>h \<in> set fs. \<not> isl (entry_bytes ta h))
      \<and> (\<lambda>h. (entry_key ta h, projr (digest_entry ta h))) ` set es
        = (\<lambda>h. (entry_key ta h, projr (digest_entry ta h))) ` set fs
    \<longleftrightarrow> (\<forall>h \<in> set es \<union> set fs. \<not> isl (entry_bytes ta h)) \<and> entry_content ta ` set es = entry_content ta ` set fs" for es fs
  proof (cases "\<forall>h \<in> set es \<union> set fs. \<not> isl (entry_bytes ta h)")
    case True
    then have e: "\<forall>h \<in> set es. \<not> isl (entry_bytes ta h)" "\<forall>h \<in> set fs. \<not> isl (entry_bytes ta h)" by auto
    show ?thesis unfolding image [OF e(1)] image [OF e(2)] same [OF True] using e True by simp
  next
    case False
    then show ?thesis unfolding ball_Un by blast
  qed
  note content = this
  show ?thesis unfolding same_content_images key content by (rule refl)
qed

subsection \<open>StripPublishConfig\<close>

definition stripped_entry :: "'j tar_api \<Rightarrow> tball_entry \<Rightarrow> tball_entry" where
  "stripped_entry ta h =
     (if is_manifest h then let data = projr (without_publish_config ta h) in
        h\<lparr>be_size := int (length data), be_pax := gm_del ''size'' (be_pax h), be_body := data\<rparr>
      else h)"

lemma stripped_entry_name [simp]:
  "be_name (stripped_entry ta h) = be_name h" "be_type (stripped_entry ta h) = be_type h"
  "be_mode (stripped_entry ta h) = be_mode h" "be_link (stripped_entry ta h) = be_link h"
  "is_manifest (stripped_entry ta h) = is_manifest h" "safe_entry (stripped_entry ta h) = safe_entry h"
  "entry_key ta (stripped_entry ta h) = entry_key ta h"
  by (simp_all add: stripped_entry_def Let_def is_manifest_def safe_entry_def entry_root_name_def entry_key_def)

text \<open>What a run of the rewriting asks of the entries it copies.\<close>

definition strippable :: "'j tar_api \<Rightarrow> tball_entry \<Rightarrow> bool" where
  "strippable ta h \<longleftrightarrow> be_body_err h = None \<and> (is_manifest h \<longrightarrow> \<not> isl (without_publish_config ta h))"

lemma write_tball_Inr: "write_tball ta st h = Inr st' \<longleftrightarrow> ta_write ta h = None \<and> be_body_err h = None
    \<and> st' = (fst st, snd st @ [h])"
  by (auto simp: write_tball_def split: option.splits)

lemma strip_step_Inr: "strip_step ta (first, out) h = Inr (first', out') \<Longrightarrow>
    out' = out @ [stripped_entry ta h] \<and> strippable ta h
    \<and> first' = (if is_manifest h then Some (be_name h) else first) \<and> (is_manifest h \<longrightarrow> first = None)"
  by (cases "is_manifest h"; cases first)
    (auto simp: strip_step_def write_tball_Inr stripped_entry_def strippable_def try_bind_Inr name_fault_Inr Let_def)

lemma strip_fold:
  "fold_err (strip_step ta) (first, out) es = Inr (first', out') \<Longrightarrow>
   out' = out @ map (stripped_entry ta) es \<and> list_all (strippable ta) es
   \<and> (case first of
        Some n \<Rightarrow> filter is_manifest es = [] \<and> first' = first
      | None \<Rightarrow> (filter is_manifest es = [] \<and> first' = None) \<or> (\<exists>h. filter is_manifest es = [h] \<and> first' = Some (be_name h)))"
proof (induction es arbitrary: first out)
  case Nil
  then show ?case by (auto split: option.splits)
next
  case (Cons h es)
  from Cons.prems obtain f1 o1 where s: "strip_step ta (first, out) h = Inr (f1, o1)"
    and r: "fold_err (strip_step ta) (f1, o1) es = Inr (first', out')"
    by (auto simp: try_bind_Inr)
  show ?case using strip_step_Inr [OF s] Cons.IH [OF r] by (auto split: if_splits option.splits)
qed

text \<open>The rewritten package.json, given what encoding/json promises of its output.\<close>

lemma stripped_manifest:
  assumes ok: "strippable ta h" and m: "is_manifest h"
    and encode: "\<And>keys data. ta_encode ta keys = Inr data \<Longrightarrow> length data \<le> max_manifest_bytes
        \<and> (\<exists>keys'. ta_decode ta data = Inr (keys', False) \<and> gm_get keys' = gm_get keys)"
    and canonical: "\<And>keys keys'. gm_get keys = gm_get keys' \<Longrightarrow> ta_encode ta keys = ta_encode ta keys'"
  shows "entry_bytes ta (stripped_entry ta h) = entry_bytes ta h
    \<and> (\<exists>keys keys'. decode_manifest ta h = Inr keys \<and> decode_manifest ta (stripped_entry ta h) = Inr keys'
        \<and> gm_get keys' = gm_get (gm_del ''publishConfig'' keys))"
proof -
  obtain data where wo: "without_publish_config ta h = Inr data"
    using ok m by (cases "without_publish_config ta h") (auto simp: strippable_def)
  then obtain keys where dec: "decode_manifest ta h = Inr keys"
    and enc: "ta_encode ta (gm_del ''publishConfig'' keys) = Inr data"
    by (auto simp: without_publish_config_def try_bind_Inr)
  obtain keys' where dec': "ta_decode ta data = Inr (keys', False)" "gm_get keys' = gm_get (gm_del ''publishConfig'' keys)"
    and len: "length data \<le> max_manifest_bytes" using encode [OF enc] by blast
  have "be_body_err h = None" using ok by (simp add: strippable_def)
  then have new: "decode_manifest ta (stripped_entry ta h) = Inr keys'"
    using m wo dec'(1) len by (simp add: stripped_entry_def decode_manifest_def)
  have "gm_get (gm_del ''publishConfig'' keys') = gm_get (gm_del ''publishConfig'' keys)"
    by (rule ext) (simp add: dec'(2))
  from canonical [OF this] have "ta_encode ta (gm_del ''publishConfig'' keys') = Inr data" by (simp only: enc)
  then have "without_publish_config ta (stripped_entry ta h) = Inr data"
    using new by (simp add: without_publish_config_def)
  then have "entry_bytes ta (stripped_entry ta h) = entry_bytes ta h"
    using m wo by (simp add: entry_bytes_def name_fault_def)
  then show ?thesis using dec new dec'(2) by blast
qed

text \<open>What StripPublishConfig writes is still the same package. When the writer's entries read
  back as they were written, the encoder's output decodes to the same keys and stays within the
  bound, and the tarball holds no name twice, SameContent says that the stripped tarball has the
  content of the original, and InspectTarball finds the same name and version in it and no
  publishConfig.\<close>

theorem strip_keeps_content:
  assumes strip: "strip_publish_config ta r = Inr out"
    and written: "ta_open ta max_tarball_bytes r' = \<lparr>tl_gzip = None, tl_entries = out, tl_end = None,
        tl_rest = [], tl_rest_err = None\<rparr>"
    and encode: "\<And>keys data. ta_encode ta keys = Inr data \<Longrightarrow> length data \<le> max_manifest_bytes
        \<and> (\<exists>keys'. ta_decode ta data = Inr (keys', False) \<and> gm_get keys' = gm_get keys)"
    and canonical: "\<And>keys keys'. gm_get keys = gm_get keys' \<Longrightarrow> ta_encode ta keys = ta_encode ta keys'"
    and once: "distinct (map (entry_key ta) (tl_entries (ta_open ta max_tarball_bytes r)))"
  shows "same_content ta r r' = Inr True \<and> (\<exists>i i'. inspect_tarball ta r = Inr i \<and> inspect_tarball ta r' = Inr i'
    \<and> tf_name i' = tf_name i \<and> tf_version i' = tf_version i \<and> \<not> tf_publish_config i')"
proof -
  obtain first es where es: "readable_tar ta r es"
    and fold: "fold_err (strip_step ta) (None, []) es = Inr (Some first, out)"
    using strip by (auto simp: strip_publish_config_def go_err walk_tarball_Inr split: option.splits)
  from strip_fold [OF fold] obtain h where out: "out = map (stripped_entry ta) es" and ok: "list_all (strippable ta) es"
    and h: "filter is_manifest es = [h]" by auto
  have hm: "h \<in> set es" "is_manifest h" using h by (auto simp: filter_eq_Cons_iff)
  have es_is: "es = tl_entries (ta_open ta max_tarball_bytes r)" using es by (simp add: readable_tar_def Let_def)
  have read': "readable_tar ta r' out"
    using es out by (simp add: readable_tar_def Let_def written list_all_iff)
  obtain keys keys' where dec: "decode_manifest ta h = Inr keys" and new: "decode_manifest ta (stripped_entry ta h) = Inr keys'"
    and get: "gm_get keys' = gm_get (gm_del ''publishConfig'' keys)"
    using stripped_manifest [OF _ hm(2) encode canonical] ok hm by (auto simp: list_all_iff)
  let ?h = "stripped_entry ta h"
  have bytes: "entry_bytes ta (stripped_entry ta g) = entry_bytes ta g" if "g \<in> set es" for g
    using that stripped_manifest [OF _ _ encode canonical] ok
    by (cases "is_manifest g") (auto simp: list_all_iff stripped_entry_def)
  have dig: "map_err (digest_entry ta) (map (stripped_entry ta) fs) = map_err (digest_entry ta) fs" if "set fs \<subseteq> set es" for fs
    using that by (induction fs) (auto simp: digest_entry_def bytes)
  have "\<not> isl (digest_entry ta g)" if "g \<in> set es" for g
    using that ok unfolding isl_digest
    by (cases "without_publish_config ta g") (auto simp: entry_bytes_def name_fault_def list_all_iff strippable_def)
  then have ds: "map_err (digest_entry ta) es = Inr (map (\<lambda>g. projr (digest_entry ta g)) es)" by (simp add: map_err_projr)
  then have gs: "map_err (digest_entry ta) out = Inr (map (\<lambda>g. projr (digest_entry ta g)) es)"
    using dig [of es] by (simp add: out)
  have keys: "map (entry_key ta) out = map (entry_key ta) es" by (simp add: out)
  have "distinct (map (entry_key ta) es)" using once by (simp only: es_is)
  then have "same_content ta r r' = Inr True"
    unfolding same_content_True using es read' ds gs keys by metis
  moreover have "filter is_manifest out = [?h]"
  proof -
    have "filter is_manifest out = map (stripped_entry ta) (filter is_manifest es)" by (simp add: out filter_map comp_def)
    then show ?thesis by (simp add: h)
  qed
  then have "inspect_tarball ta r' = Inr (info_of ta ?h keys')" using read' new inspect_exact by blast
  moreover have "inspect_tarball ta r = Inr (info_of ta h keys)" using es h dec inspect_exact by blast
  moreover have "gm_get keys' ''name'' = gm_get keys ''name''" "gm_get keys' ''version'' = gm_get keys ''version''"
    "gm_get keys' ''publishConfig'' = None" by (simp_all add: get)
  ultimately show ?thesis by (simp add: info_of_def string_field_def gm_has_def)
qed

subsection \<open>Examples\<close>

definition sample_keys :: "(string, string) gomap" where
  "sample_keys = [(''name'', ''a''), (''version'', ''1.0.0'')]"

definition sample_encode :: "(string, string) gomap \<Rightarrow> string + bytes" where
  "sample_encode keys =
     (if gm_get keys ''name'' = Some ''a'' \<and> gm_get keys ''version'' = Some ''1.0.0''
         \<and> list_all (\<lambda>(k, v). k = ''name'' \<or> k = ''version'') keys
      then Inr ''J'' else Inl ''e'')"

definition sample_manifest :: "bytes \<Rightarrow> tball_entry" where
  "sample_manifest body = \<lparr>be_name = ''p/package.json'', be_type = CHR ''0'', be_mode = 420, be_link = '''',
     be_size = int (length body), be_pax = [], be_meta = '''', be_body = body, be_body_err = None\<rparr>"

definition sample_tar_api :: "string tar_api" where
  "sample_tar_api = \<lparr>ta_open = (\<lambda>_ r. \<lparr>tl_gzip = None, tl_entries = [sample_manifest r], tl_end = None,
       tl_rest = [], tl_rest_err = None\<rparr>),
     ta_quote = (\<lambda>s. s),
     ta_decode = (\<lambda>b. Inr (if b = ''J'' then sample_keys else (''publishConfig'', ''x'') # sample_keys, False)),
     ta_string = Some, ta_encode = sample_encode, ta_sha256 = (\<lambda>b. b), ta_write = (\<lambda>_. None), ta_close = None\<rparr>"

lemma sample_entry: "is_manifest (sample_manifest b)" "safe_entry (sample_manifest b)"
proof -
  have "path_clean ''p/package.json'' = ''p/package.json''" by code_simp
  then show "safe_entry (sample_manifest b)"
    by (simp add: safe_entry_def sample_manifest_def entry_root_name_def max_entry_name_bytes_def trim_prefix_def
        trim_suffix_def has_suffix_def)
qed (simp add: is_manifest_def sample_manifest_def trim_prefix_def)

lemma sample_encode_keys: "sample_encode keys = Inr data \<longleftrightarrow> data = ''J'' \<and> gm_get keys = gm_get sample_keys"
proof -
  have "gm_get keys ''name'' = Some ''a'' \<and> gm_get keys ''version'' = Some ''1.0.0''
      \<and> list_all (\<lambda>(k, v). k = ''name'' \<or> k = ''version'') keys \<longleftrightarrow> gm_get keys = gm_get sample_keys" (is "?l \<longleftrightarrow> ?r")
  proof
    assume l: ?l
    show ?r
    proof
      fix k
      have "k \<noteq> ''name'' \<Longrightarrow> k \<noteq> ''version'' \<Longrightarrow> gm_get keys k = None"
        using l by (auto simp: gm_get_None_iff list_all_iff)
      then show "gm_get keys k = gm_get sample_keys k"
        using l by (auto simp: sample_keys_def gm_get_def)
    qed
  next
    assume r: ?r
    have "k = ''name'' \<or> k = ''version''" if "(k, v) \<in> set keys" for k v
    proof -
      have "gm_get keys k \<noteq> None" unfolding gm_get_None_iff using that by force
      then show ?thesis using r by (auto simp: sample_keys_def gm_get_def split: if_splits)
    qed
    then show ?l using r by (auto simp: list_all_iff sample_keys_def gm_get_def)
  qed
  then show ?thesis by (auto simp: sample_encode_def)
qed

lemma sample_readable: "readable_tar sample_tar_api r [sample_manifest r]"
  by (simp add: readable_tar_def sample_tar_api_def sample_entry max_tarball_entries_def)

lemma sample_bytes: "entry_bytes sample_tar_api (sample_manifest b) = (if length b \<le> max_manifest_bytes then Inr ''J''
    else Inl (Tar_Fault ''p/package.json: package.json is larger than 16 MiB''))"
proof -
  have "sample_encode (gm_del ''publishConfig'' (if b = ''J'' then sample_keys else (''publishConfig'', ''x'') # sample_keys))
      = Inr ''J''"
    by (simp add: sample_encode_keys fun_eq_iff) (simp add: sample_keys_def gm_get_def)
  then show ?thesis
    by (simp add: entry_bytes_def sample_entry name_fault_def without_publish_config_def decode_manifest_def
        sample_tar_api_def) (simp add: sample_manifest_def)
qed

theorem same_content_exact_witness: "same_content sample_tar_api ''K'' ''J'' = Inr True"
proof -
  have inj: "inj (ta_sha256 sample_tar_api)" by (simp add: sample_tar_api_def)
  have "entry_content sample_tar_api (sample_manifest ''K'') = entry_content sample_tar_api (sample_manifest ''J'')"
    by (simp add: entry_content_def sample_bytes max_manifest_bytes_def) (simp add: sample_manifest_def)
  then show ?thesis
    unfolding same_content_exact [OF inj]
    by (intro exI [of _ "[sample_manifest ''K'']"] exI [of _ "[sample_manifest ''J'']"] conjI)
      (simp_all add: sample_readable sample_bytes max_manifest_bytes_def)
qed

lemma sample_strip: "strip_publish_config sample_tar_api ''K'' = Inr [sample_manifest ''J'']"
proof -
  have "sample_encode sample_keys = Inr ''J''" by (simp add: sample_encode_keys)
  moreover have "gm_del ''publishConfig'' ((''publishConfig'', ''x'') # sample_keys) = sample_keys"
    by (simp add: gm_del_def sample_keys_def)
  ultimately have "without_publish_config sample_tar_api (sample_manifest ''K'') = Inr ''J''"
    by (simp add: without_publish_config_def decode_manifest_def sample_tar_api_def sample_manifest_def max_manifest_bytes_def)
  then have "strip_step sample_tar_api (None, []) (sample_manifest ''K'')
      = Inr (Some ''p/package.json'', [sample_manifest ''J''])"
    by (simp add: strip_step_def sample_entry name_fault_def write_tball_def)
      (simp add: sample_tar_api_def sample_manifest_def gm_del_def)
  then have "walk_tarball sample_tar_api (strip_step sample_tar_api) (None, []) ''K''
      = Inr (Some ''p/package.json'', [sample_manifest ''J''])"
    unfolding walk_tarball_Inr using sample_readable [of "''K''"] by auto
  then show ?thesis by (simp add: strip_publish_config_def sample_tar_api_def)
qed

theorem strip_keeps_content_witness:
  "same_content sample_tar_api ''K'' ''J'' = Inr True \<and> (\<exists>i'. inspect_tarball sample_tar_api ''J'' = Inr i' \<and> \<not> tf_publish_config i')"
proof -
  have "same_content sample_tar_api ''K'' ''J'' = Inr True \<and> (\<exists>i i'. inspect_tarball sample_tar_api ''K'' = Inr i
    \<and> inspect_tarball sample_tar_api ''J'' = Inr i' \<and> tf_name i' = tf_name i \<and> tf_version i' = tf_version i
    \<and> \<not> tf_publish_config i')"
  proof (rule strip_keeps_content [OF sample_strip])
    show "ta_open sample_tar_api max_tarball_bytes ''J'' = \<lparr>tl_gzip = None, tl_entries = [sample_manifest ''J''],
        tl_end = None, tl_rest = [], tl_rest_err = None\<rparr>" by (simp add: sample_tar_api_def)
    show "length data \<le> max_manifest_bytes
        \<and> (\<exists>keys'. ta_decode sample_tar_api data = Inr (keys', False) \<and> gm_get keys' = gm_get keys)"
      if "ta_encode sample_tar_api keys = Inr data" for keys data
      using that by (simp add: sample_tar_api_def sample_encode_keys max_manifest_bytes_def)
    show "ta_encode sample_tar_api keys = ta_encode sample_tar_api keys'" if "gm_get keys = gm_get keys'" for keys keys'
      using that sample_encode_keys [of keys "''J''"] sample_encode_keys [of keys' "''J''"]
      by (auto simp: sample_tar_api_def sample_encode_def split: if_splits)
    show "distinct (map (entry_key sample_tar_api) (tl_entries (ta_open sample_tar_api max_tarball_bytes ''K'')))"
      by (simp add: sample_tar_api_def)
  qed
  then show ?thesis by blast
qed

end
