(* ===== verification/Importer_Publish.thy ===== *)
theory Importer_Publish
  imports Importer_Report Npm_Tarball Archive_Verify
begin

text \<open>
  \<^verbatim>\<open>internal/importer/publish.go\<close>: one verified package after the other is compared with what
  Nexus holds, uploaded when Nexus does not have it, and read back. The Nexus client is the record
  \<open>publisher\<close> over a state that holds everything outside the process; what the local file system
  answers for one package is \<open>file_reads\<close>, read by read, so a file may change between two reads. Each answer is the
  whole file at that time; a read gets it from the position the file is at, which \<open>seek_start\<close> sets back.
\<close>

subsection \<open>Packages and their surroundings\<close>

record pub_package =
  pp_name :: string
  pp_version :: string
  pp_file :: string
  pp_path :: string
  pp_sha512 :: bytes
  pp_stripped :: bool

text \<open>\<open>pb_done\<close> is one look at \<^verbatim>\<open>ctx.Err\<close>; the interrupt may come between any two looks.\<close>

record 's publisher =
  pb_check :: "'s \<Rightarrow> string option \<times> 's"
  pb_fetch :: "string \<Rightarrow> string \<Rightarrow> int \<Rightarrow> 's \<Rightarrow> (string + bytes option) \<times> 's"
  pb_upload :: "string \<Rightarrow> bytes \<Rightarrow> 's \<Rightarrow> string option \<times> 's"
  pb_done :: "'s \<Rightarrow> bool \<times> 's"

record copy_faults =
  cf_create :: "string option"
  cf_sync :: "string option"
  cf_seek :: "string option"

record file_reads =
  fr_open :: "string option"
  fr_stat :: "string + int"
  fr_inspect :: bytes
  fr_inspected :: nat
  fr_seek1 :: "string option"
  fr_compare :: "bytes \<times> string option"
  fr_hash :: "bytes \<times> string option"
  fr_seek2 :: "string option"
  fr_upload :: bytes
  fr_copy1 :: copy_faults
  fr_copy2 :: copy_faults

text \<open>The text functions of the standard library: whether a text is valid UTF-8, the runes of a valid text, with invalid bytes
  dropped (\<open>ru_valid\<close>) or replaced (\<open>ru_runes\<close>), the text of runes, and \<^verbatim>\<open>%q\<close>.\<close>

record rune_api =
  ru_utf8 :: "string \<Rightarrow> bool"
  ru_valid :: "string \<Rightarrow> nat list"
  ru_runes :: "string \<Rightarrow> nat list"
  ru_text :: "nat list \<Rightarrow> string"
  ru_quote :: "string \<Rightarrow> string"

record 'j publish_env =
  pe_tar :: "'j tar_api"
  pe_sha512 :: "bytes \<Rightarrow> bytes"
  pe_runes :: rune_api
  pe_reads :: "string \<Rightarrow> file_reads"

subsection \<open>Texts\<close>

definition max_copy_slack :: int where "max_copy_slack = 2 ^ 20"
definition max_shown_name :: nat where "max_shown_name = 100"
definition max_reason_chars :: nat where "max_reason_chars = 300"

definition is_control :: "nat \<Rightarrow> bool" where
  "is_control r \<longleftrightarrow> r < 32 \<or> (127 \<le> r \<and> r < 160)"

definition clean_text :: "rune_api \<Rightarrow> string \<Rightarrow> string" where
  "clean_text ru s = ru_text ru (take max_reason_chars (filter (\<lambda>r. \<not> is_control r) (ru_valid ru s)))"

definition shown_name :: "rune_api \<Rightarrow> string \<Rightarrow> string" where
  "shown_name ru s = (let r = ru_runes ru s in
     ru_quote ru (if max_shown_name < length r then ru_text ru (take max_shown_name r) @ ''...'' else s))"

definition digests :: "bytes \<Rightarrow> bytes \<Rightarrow> string" where
  "digests shipped nexus = ''shipped sha512 '' @ hex_encode shipped @ '', nexus sha512 '' @ hex_encode nexus"

subsection \<open>Results\<close>

definition reason_interrupted :: string where "reason_interrupted = ''interrupted''"
definition note_same_content :: string where "note_same_content = ''same content, packed differently''"

definition failed :: "pub_package \<Rightarrow> kind \<Rightarrow> string \<Rightarrow> result" where
  "failed pkg k reason = \<lparr>rs_name = pp_name pkg, rs_version = pp_version pkg, rs_file = pp_file pkg,
     rs_state = Failed, rs_reason = reason, rs_note = '''', rs_kind = Some k\<rparr>"

definition succeeded :: "pub_package \<Rightarrow> pkg_state \<Rightarrow> string \<Rightarrow> result" where
  "succeeded pkg st note = \<lparr>rs_name = pp_name pkg, rs_version = pp_version pkg, rs_file = pp_file pkg,
     rs_state = st, rs_reason = '''', rs_note = note, rs_kind = None\<rparr>"

definition failed_or :: "'s publisher \<Rightarrow> pub_package \<Rightarrow> kind \<Rightarrow> string \<Rightarrow> 's \<Rightarrow> result \<times> 's" where
  "failed_or p pkg k reason s = (case pb_done p s of
     (True, s') \<Rightarrow> (failed pkg Kind_Interrupted reason_interrupted, s')
   | (False, s') \<Rightarrow> (failed pkg k reason, s'))"

text \<open>An error of a call to Nexus, or one marked as the import's own.\<close>

datatype fetch_error = Local_Error string | Nexus_Error string

fun kind_of :: "fetch_error \<Rightarrow> kind" where
  "kind_of (Local_Error e) = Kind_Local"
| "kind_of (Nexus_Error e) = Kind_Nexus"

fun error_text :: "fetch_error \<Rightarrow> string" where
  "error_text (Local_Error e) = e"
| "error_text (Nexus_Error e) = e"

subsection \<open>The copy Nexus holds\<close>

definition copy_same_content :: "'j publish_env \<Rightarrow> copy_faults \<Rightarrow> bytes \<Rightarrow> bytes \<times> string option \<Rightarrow> bytes
    \<Rightarrow> fetch_error + bool" where
  "copy_same_content env cf nexus shipped want = (case cf_seek cf of
     Some e \<Rightarrow> Inl (Local_Error (''cannot read the nexus copy: '' @ e))
   | None \<Rightarrow> (case same_content (pe_tar env) (fst shipped) nexus of
       Inl e \<Rightarrow> Inl (Nexus_Error (clean_text (pe_runes env) (''cannot compare the nexus copy: '' @ fault_text e)))
     | Inr same \<Rightarrow> (case snd shipped of
         Some e \<Rightarrow> Inl (Local_Error (''cannot read the checked file: '' @ e))
       | None \<Rightarrow> Inr (same \<and> pe_sha512 env (fst shipped) = want))))"

text \<open>\<open>fetch_digest\<close> gives None when Nexus does not hold the version.\<close>

definition fetch_digest :: "'j publish_env \<Rightarrow> 's publisher \<Rightarrow> pub_package \<Rightarrow> copy_faults \<Rightarrow> int
    \<Rightarrow> (bytes \<times> string option) option \<Rightarrow> 's \<Rightarrow> (fetch_error + (bytes \<times> bool) option) \<times> 's" where
  "fetch_digest env p pkg cf limit shipped s = (case cf_create cf of
     Some e \<Rightarrow> (Inl (Local_Error (''cannot keep the nexus copy: '' @ e)), s)
   | None \<Rightarrow> (case pb_fetch p (pp_name pkg) (pp_version pkg) limit s of
       (Inl e, s') \<Rightarrow> (Inl (Nexus_Error e), s')
     | (Inr None, s') \<Rightarrow> (Inr None, s')
     | (Inr (Some data), s') \<Rightarrow>
         (case cf_sync cf of Some e \<Rightarrow> (Inl (Local_Error (''cannot keep the nexus copy: '' @ e)), s')
          | None \<Rightarrow>
            let digest = pe_sha512 env data in
            (case shipped of
               None \<Rightarrow> (Inr (Some (digest, False)), s')
             | Some sh \<Rightarrow>
                 if \<not> pp_stripped pkg \<or> digest = pp_sha512 pkg then (Inr (Some (digest, False)), s')
                 else (case copy_same_content env cf data sh (pp_sha512 pkg) of
                     Inl e \<Rightarrow> (Inl e, s') | Inr same \<Rightarrow> (Inr (Some (digest, same)), s'))))))"

subsection \<open>One package\<close>

definition mismatch :: "'j publish_env \<Rightarrow> bytes \<Rightarrow> pub_package \<Rightarrow> string" where
  "mismatch env data pkg = (case inspect_tarball (pe_tar env) data of
     Inl e \<Rightarrow> clean_text (pe_runes env) (''the tarball is not a valid package: '' @ fault_text e)
   | Inr info \<Rightarrow>
       if tf_name info \<noteq> pp_name pkg \<or> tf_version info \<noteq> pp_version pkg
       then ''the tarball is '' @ shown_name (pe_runes env) (tf_name info) @ ''@''
         @ shown_name (pe_runes env) (tf_version info) @ '', the manifest says '' @ pp_name pkg @ ''@'' @ pp_version pkg
       else '''')"

text \<open>The second half, once Nexus says it does not hold the version, and its end: the read back.\<close>

definition read_back :: "'j publish_env \<Rightarrow> 's publisher \<Rightarrow> pub_package \<Rightarrow> copy_faults \<Rightarrow> int \<Rightarrow> 's \<Rightarrow> result \<times> 's" where
  "read_back env p pkg cf limit s = (case fetch_digest env p pkg cf limit None s of
     (Inl e, s') \<Rightarrow> failed_or p pkg (kind_of e) (''read back failed: '' @ error_text e) s'
   | (Inr None, s') \<Rightarrow> (failed pkg Kind_Nexus ''nexus accepted the upload but does not serve the version'', s')
   | (Inr (Some (remote, same)), s') \<Rightarrow>
       if remote \<noteq> pp_sha512 pkg
       then (failed pkg Kind_Nexus (''nexus serves other bytes after the upload: '' @ digests (pp_sha512 pkg) remote), s')
       else (succeeded pkg Published '''', s'))"

text \<open>The position after \<^verbatim>\<open>f.Seek(0, io.SeekStart)\<close>, or its error.\<close>

definition seek_start :: "string option \<Rightarrow> nat \<Rightarrow> string + nat" where
  "seek_start fault pos = (case fault of Some e \<Rightarrow> Inl e | None \<Rightarrow> Inr 0)"

definition upload_one :: "'j publish_env \<Rightarrow> 's publisher \<Rightarrow> pub_package \<Rightarrow> file_reads \<Rightarrow> nat \<Rightarrow> int \<Rightarrow> 's \<Rightarrow> result \<times> 's" where
  "upload_one env p pkg fr pos limit s = (case snd (fr_hash fr) of
     Some e \<Rightarrow> (failed pkg Kind_Local (''cannot read the checked file: '' @ e), s)
   | None \<Rightarrow>
      let read = drop pos (fst (fr_hash fr)); now = pe_sha512 env read in
      if now \<noteq> pp_sha512 pkg
      then (failed pkg Kind_Local (''the file changed after the checks: '' @ digests (pp_sha512 pkg) now), s)
      else (case seek_start (fr_seek2 fr) (pos + length read) of
        Inl e \<Rightarrow> (failed pkg Kind_Local (''cannot read the checked file: '' @ e), s)
      | Inr pos' \<Rightarrow> (case pb_upload p (pp_file pkg) (drop pos' (fr_upload fr)) s of
          (Some e, s1) \<Rightarrow> failed_or p pkg Kind_Nexus (''upload failed: '' @ e) s1
        | (None, s1) \<Rightarrow> read_back env p pkg (fr_copy2 fr) limit s1)))"

definition publish_one :: "'j publish_env \<Rightarrow> 's publisher \<Rightarrow> pub_package \<Rightarrow> 's \<Rightarrow> result \<times> 's" where
  "publish_one env p pkg s = (let fr = pe_reads env (pp_path pkg) in
     case fr_open fr of Some e \<Rightarrow> (failed pkg Kind_Local (''cannot open the checked file: '' @ e), s)
     | None \<Rightarrow> (case fr_stat fr of Inl e \<Rightarrow> (failed pkg Kind_Local (''cannot read the checked file: '' @ e), s)
     | Inr len \<Rightarrow>
        let limit = int64 (int64 (2 * len) + max_copy_slack); reason = mismatch env (fr_inspect fr) pkg in
        if reason \<noteq> '''' then (failed pkg Kind_Mismatch reason, s)
        else (case seek_start (fr_seek1 fr) (fr_inspected fr) of Inl e \<Rightarrow> (failed pkg Kind_Local (''cannot read the checked file: '' @ e), s)
        | Inr pos \<Rightarrow> (case fetch_digest env p pkg (fr_copy1 fr) limit (Some (fr_compare fr)) s of
            (Inl e, s1) \<Rightarrow> failed_or p pkg (kind_of e) (error_text e) s1
          | (Inr (Some (remote, same)), s1) \<Rightarrow>
              if remote = pp_sha512 pkg then (succeeded pkg Present '''', s1)
              else if same then (succeeded pkg Present note_same_content, s1)
              else (failed pkg Kind_Conflict (''nexus holds this version with other bytes: '' @ digests (pp_sha512 pkg) remote), s1)
          | (Inr None, s1) \<Rightarrow> upload_one env p pkg fr pos limit s1))))"

lemma seek_start_cases [simp]: "seek_start fault pos = Inr pos' \<longleftrightarrow> fault = None \<and> pos' = 0" "seek_start (Some e) pos = Inl e" "seek_start None pos = Inr 0"
  by (auto simp: seek_start_def split: option.split)

subsection \<open>All packages\<close>

text \<open>A package that has not started never starts after an interrupt.\<close>

fun publish_rest :: "'j publish_env \<Rightarrow> 's publisher \<Rightarrow> pub_package list \<Rightarrow> 's \<Rightarrow> result list \<times> 's" where
  "publish_rest env p [] s = ([], s)"
| "publish_rest env p (pkg # pkgs) s =
     (case pb_done p s of (stop, s1) \<Rightarrow>
      case (if stop then (failed pkg Kind_Interrupted reason_interrupted, s1) else publish_one env p pkg s1) of (r, s2) \<Rightarrow>
      case publish_rest env p pkgs s2 of (rs, s3) \<Rightarrow> (r # rs, s3))"

fun fail_rest :: "'s publisher \<Rightarrow> string \<Rightarrow> pub_package list \<Rightarrow> 's \<Rightarrow> result list \<times> 's" where
  "fail_rest p reason [] s = ([], s)"
| "fail_rest p reason (pkg # pkgs) s =
     (case failed_or p pkg Kind_Nexus reason s of (r, s1) \<Rightarrow>
      case fail_rest p reason pkgs s1 of (rs, s2) \<Rightarrow> (r # rs, s2))"

text \<open>The callback gets each result as it is known, so what it is called with is the returned list,
  in order.\<close>

definition publish_each :: "'j publish_env \<Rightarrow> 's publisher \<Rightarrow> pub_package list \<Rightarrow> 's \<Rightarrow> result list \<times> 's" where
  "publish_each env p pkgs s = (case pb_check p s of
     (Some e, s1) \<Rightarrow> fail_rest p (''repository check failed: '' @ e) pkgs s1
   | (None, s1) \<Rightarrow> publish_rest env p pkgs s1)"

subsection \<open>What Nexus is asked, and what a verdict rests on\<close>

datatype net_event = Ev_Check | Ev_Fetch string string "string + bytes option" | Ev_Upload string bytes "string option"

text \<open>The publisher that writes down every call, with the answer of a fetch.\<close>

definition logged :: "'s publisher \<Rightarrow> ('s \<times> net_event list) publisher" where
  "logged p =
     \<lparr>pb_check = (\<lambda>(s, l). case pb_check p s of (r, s') \<Rightarrow> (r, s', l @ [Ev_Check])),
      pb_fetch = (\<lambda>n v limit (s, l). case pb_fetch p n v limit s of (r, s') \<Rightarrow> (r, s', l @ [Ev_Fetch n v r])),
      pb_upload = (\<lambda>f d (s, l). case pb_upload p f d s of (r, s') \<Rightarrow> (r, s', l @ [Ev_Upload f d r])),
      pb_done = (\<lambda>(s, l). case pb_done p s of (b, s') \<Rightarrow> (b, s', l))\<rparr>"

lemma logged_simps [simp]:
  "pb_check (logged p) (s, l) = (case pb_check p s of (r, s') \<Rightarrow> (r, s', l @ [Ev_Check]))"
  "pb_fetch (logged p) n v limit (s, l) = (case pb_fetch p n v limit s of (r, s') \<Rightarrow> (r, s', l @ [Ev_Fetch n v r]))"
  "pb_upload (logged p) f d (s, l) = (case pb_upload p f d s of (r, s') \<Rightarrow> (r, s', l @ [Ev_Upload f d r]))"
  "pb_done (logged p) (s, l) = (case pb_done p s of (b, s') \<Rightarrow> (b, s', l))"
  by (simp_all add: logged_def)

text \<open>The tarball is the package the manifest names, and its bytes were hashed again.\<close>

definition checked_tarball :: "'j publish_env \<Rightarrow> pub_package \<Rightarrow> bool" where
  "checked_tarball env pkg \<longleftrightarrow> (let fr = pe_reads env (pp_path pkg) in
     mismatch env (fr_inspect fr) pkg = '''' \<and> pe_sha512 env (fst (fr_hash fr)) = pp_sha512 pkg)"

text \<open>What is sent is the whole file, from its start, as the read of the upload finds it; so these are the bytes that were
  hashed again when the file did not change between these two reads.\<close>

definition sent_whole :: "'j publish_env \<Rightarrow> pub_package \<Rightarrow> bytes \<Rightarrow> bool" where
  "sent_whole env pkg sent \<longleftrightarrow> (let fr = pe_reads env (pp_path pkg) in
     sent = fr_upload fr \<and> (fr_upload fr = fst (fr_hash fr) \<longrightarrow> pe_sha512 env sent = pp_sha512 pkg))"

text \<open>The bytes Nexus served are those of the package, or, for a stripped one, have its content.\<close>

definition held :: "'j publish_env \<Rightarrow> pub_package \<Rightarrow> bytes \<Rightarrow> bool" where
  "held env pkg data \<longleftrightarrow> pe_sha512 env data = pp_sha512 pkg
     \<or> (let shipped = fst (fr_compare (pe_reads env (pp_path pkg))) in
        pp_stripped pkg \<and> same_content (pe_tar env) shipped data = Inr True \<and> pe_sha512 env shipped = pp_sha512 pkg)"

text \<open>A verdict and the calls it rests on.\<close>

definition verdict_ok :: "'j publish_env \<Rightarrow> pub_package \<Rightarrow> result \<Rightarrow> net_event list \<Rightarrow> bool" where
  "verdict_ok env pkg r evs \<longleftrightarrow>
     rs_name r = pp_name pkg \<and> rs_version r = pp_version pkg \<and> rs_file r = pp_file pkg
     \<and> rs_state r \<noteq> Pending \<and> (rs_kind r = None \<longleftrightarrow> rs_state r \<noteq> Failed)
     \<and> (rs_state r = Present \<longrightarrow>
          (\<exists>data. evs = [Ev_Fetch (pp_name pkg) (pp_version pkg) (Inr (Some data))] \<and> held env pkg data))
     \<and> (rs_state r = Published \<longrightarrow> (\<exists>sent data.
          evs = [Ev_Fetch (pp_name pkg) (pp_version pkg) (Inr None), Ev_Upload (pp_file pkg) sent None,
                 Ev_Fetch (pp_name pkg) (pp_version pkg) (Inr (Some data))] \<and> pe_sha512 env data = pp_sha512 pkg))
     \<and> (\<forall>f sent a. Ev_Upload f sent a \<in> set evs \<longrightarrow> checked_tarball env pkg \<and> sent_whole env pkg sent
          \<and> (\<exists>answer. evs = Ev_Fetch (pp_name pkg) (pp_version pkg) (Inr None) # Ev_Upload (pp_file pkg) sent a # answer
               \<and> (\<forall>f d a. Ev_Upload f d a \<notin> set answer)))"

lemma result_simps [simp]:
  "rs_name (failed pkg k why) = pp_name pkg" "rs_version (failed pkg k why) = pp_version pkg"
  "rs_file (failed pkg k why) = pp_file pkg" "rs_state (failed pkg k why) = Failed" "rs_kind (failed pkg k why) = Some k"
  "rs_name (succeeded pkg st note) = pp_name pkg" "rs_version (succeeded pkg st note) = pp_version pkg"
  "rs_file (succeeded pkg st note) = pp_file pkg" "rs_state (succeeded pkg st note) = st"
  "rs_kind (succeeded pkg st note) = None"
  by (simp_all add: failed_def succeeded_def)

definition is_failed :: "pub_package \<Rightarrow> result \<Rightarrow> bool" where
  "is_failed pkg r \<longleftrightarrow> (\<exists>k why. r = failed pkg k why)"

lemma is_failed_failed [simp]: "is_failed pkg (failed pkg k why)"
  by (auto simp: is_failed_def)

lemma failed_or_logged: "failed_or (logged p) pkg k why (s, l) = (r, s', l') \<Longrightarrow>
    l' = l \<and> is_failed pkg r"
  by (auto simp: failed_or_def split: prod.splits bool.splits)

text \<open>A fetch is one event, or none when the copy has no place to go.\<close>

lemma fetch_digest_logged:
  assumes "fetch_digest env (logged p) pkg cf limit shipped (s, l) = (r, s', l')"
  shows "(l' = l \<and> isl r) \<or> (\<exists>answer. l' = l @ [Ev_Fetch (pp_name pkg) (pp_version pkg) answer]
     \<and> (r = Inr None \<longrightarrow> answer = Inr None)
     \<and> (\<forall>remote same. r = Inr (Some (remote, same)) \<longrightarrow> (\<exists>data. answer = Inr (Some data) \<and> remote = pe_sha512 env data
          \<and> (same \<longrightarrow> pp_stripped pkg \<and> (\<exists>sh. shipped = Some sh \<and> same_content (pe_tar env) (fst sh) data = Inr True
               \<and> pe_sha512 env (fst sh) = pp_sha512 pkg)))))"
  using assms
  by (auto simp: fetch_digest_def copy_same_content_def Let_def
      split: option.splits prod.splits sum.splits if_splits)

lemma failed_verdict: "(\<forall>f d a. Ev_Upload f d a \<notin> set evs) \<Longrightarrow> is_failed pkg r \<Longrightarrow> verdict_ok env pkg r evs"
  by (auto simp: verdict_ok_def is_failed_def)

lemma uploaded_verdict:
  "checked_tarball env pkg \<Longrightarrow> sent_whole env pkg sent \<Longrightarrow> (\<forall>f d a. Ev_Upload f d a \<notin> set answer) \<Longrightarrow>
   is_failed pkg r \<Longrightarrow> verdict_ok env pkg r
     (Ev_Fetch (pp_name pkg) (pp_version pkg) (Inr None) # Ev_Upload (pp_file pkg) sent a # answer)"
  by (auto simp: verdict_ok_def is_failed_def)

lemma read_back_logged:
  assumes "read_back env (logged p) pkg cf limit (s, l) = (r, s', l')"
  shows "\<exists>answer. l' = l @ answer \<and> (\<forall>f d a. Ev_Upload f d a \<notin> set answer) \<and> (is_failed pkg r
    \<or> r = succeeded pkg Published '''' \<and> (\<exists>data. pe_sha512 env data = pp_sha512 pkg
        \<and> answer = [Ev_Fetch (pp_name pkg) (pp_version pkg) (Inr (Some data))]))"
proof -
  obtain q s2 l2 where q: "fetch_digest env (logged p) pkg cf limit None (s, l) = (q, s2, l2)"
    by (metis prod_cases3)
  note logged = fetch_digest_logged [OF q]
  consider e where "q = Inl e" | "q = Inr None" | remote same where "q = Inr (Some (remote, same))"
    by (metis option.exhaust surj_pair sum.exhaust)
  then show ?thesis
  proof cases
    case 1
    then have "failed_or (logged p) pkg (kind_of e) (''read back failed: '' @ error_text e) (s2, l2) = (r, s', l')"
      using assms q by (simp add: read_back_def)
    then show ?thesis using failed_or_logged logged by fastforce
  next
    case 2
    then show ?thesis using assms q logged by (auto simp: read_back_def)
  next
    case 3
    then show ?thesis using assms q logged by (auto simp: read_back_def split: if_splits)
  qed
qed

lemma upload_one_logged:
  assumes up: "upload_one env (logged p) pkg (pe_reads env (pp_path pkg)) 0 limit (s, l @ [Ev_Fetch (pp_name pkg) (pp_version pkg) (Inr None)])
      = (r, s', l')" (is "upload_one env _ _ ?fr _ _ (s, l @ [?f]) = _")
    and m: "mismatch env (fr_inspect (pe_reads env (pp_path pkg))) pkg = ''''"
  shows "\<exists>evs. l' = l @ evs \<and> verdict_ok env pkg r evs"
proof (cases "snd (fr_hash ?fr) = None \<and> pe_sha512 env (fst (fr_hash ?fr)) = pp_sha512 pkg \<and> fr_seek2 ?fr = None")
  case False
  then have "l' = l @ [?f] \<and> is_failed pkg r"
    using up by (auto simp: upload_one_def Let_def split: option.splits if_splits)
  then show ?thesis using failed_verdict [of "[?f]"] by auto
next
  case True
  then have ok: "checked_tarball env pkg" "sent_whole env pkg (fr_upload ?fr)"
    using m by (auto simp: checked_tarball_def sent_whole_def Let_def)
  obtain u s1 where u: "pb_upload p (pp_file pkg) (fr_upload ?fr) s = (u, s1)" by fastforce
  let ?u = "Ev_Upload (pp_file pkg) (fr_upload ?fr) u"
  show ?thesis
  proof (cases u)
    case (Some e)
    then have "failed_or (logged p) pkg Kind_Nexus (''upload failed: '' @ e) (s1, l @ [?f, ?u]) = (r, s', l')"
      using up True u by (simp add: upload_one_def)
    then have "l' = l @ [?f, ?u] \<and> is_failed pkg r" by (rule failed_or_logged)
    then show ?thesis using uploaded_verdict [OF ok, of "[]"] by auto
  next
    case None
    then have "read_back env (logged p) pkg (fr_copy2 ?fr) limit (s1, l @ [?f, ?u]) = (r, s', l')"
      using up True u by (simp add: upload_one_def)
    from read_back_logged [OF this] obtain answer where l': "l' = l @ ?f # ?u # answer"
      and no: "\<forall>f d a. Ev_Upload f d a \<notin> set answer" and r: "is_failed pkg r
        \<or> r = succeeded pkg Published '''' \<and> (\<exists>data. pe_sha512 env data = pp_sha512 pkg
            \<and> answer = [Ev_Fetch (pp_name pkg) (pp_version pkg) (Inr (Some data))])" by auto
    have "verdict_ok env pkg r (?f # ?u # answer)"
      using r
    proof
      assume "is_failed pkg r"
      then show ?thesis by (rule uploaded_verdict [OF ok no])
    next
      assume "r = succeeded pkg Published '''' \<and> (\<exists>data. pe_sha512 env data = pp_sha512 pkg
          \<and> answer = [Ev_Fetch (pp_name pkg) (pp_version pkg) (Inr (Some data))])"
      then show ?thesis using ok None by (auto simp: verdict_ok_def)
    qed
    then show ?thesis using l' by (intro exI conjI) simp_all
  qed
qed

lemma publish_one_logged:
  assumes pub: "publish_one env (logged p) pkg (s, l) = (r, s', l')"
  shows "\<exists>evs. l' = l @ evs \<and> verdict_ok env pkg r evs"
proof -
  let ?fr = "pe_reads env (pp_path pkg)"
  show ?thesis
  proof (cases "fr_open ?fr = None \<and> \<not> isl (fr_stat ?fr) \<and> mismatch env (fr_inspect ?fr) pkg = '''' \<and> fr_seek1 ?fr = None")
    case False
    then have "l' = l \<and> is_failed pkg r"
      using pub by (auto simp: publish_one_def Let_def split: option.splits sum.splits if_splits)
    then show ?thesis using failed_verdict [of "[]" pkg r env] by auto
  next
    case True
    then obtain len where len: "fr_stat ?fr = Inr len" by (cases "fr_stat ?fr") auto
    define limit where "limit = int64 (int64 (2 * len) + max_copy_slack)"
    obtain q s1 l1 where q: "fetch_digest env (logged p) pkg (fr_copy1 ?fr) limit (Some (fr_compare ?fr)) (s, l) = (q, s1, l1)"
      by (metis prod_cases3)
    note logged = fetch_digest_logged [OF q]
    consider e where "q = Inl e" | "q = Inr None" | remote same where "q = Inr (Some (remote, same))"
      by (metis option.exhaust surj_pair sum.exhaust)
    then show ?thesis
    proof cases
      case 1
      then have "failed_or (logged p) pkg (kind_of e) (error_text e) (s1, l1) = (r, s', l')"
        using pub q True len by (simp add: publish_one_def limit_def)
      then have "l' = l1 \<and> is_failed pkg r" by (rule failed_or_logged)
      then show ?thesis
        using logged failed_verdict [of _ pkg r env] by (fastforce simp: append_eq_append_conv2)
    next
      case 2
      then have "upload_one env (logged p) pkg ?fr 0 limit (s1, l1) = (r, s', l')"
        using pub q True len by (simp add: publish_one_def limit_def)
      moreover have "l1 = l @ [Ev_Fetch (pp_name pkg) (pp_version pkg) (Inr None)]" using logged 2 by auto
      ultimately have "upload_one env (logged p) pkg ?fr 0 limit (s1, l @ [Ev_Fetch (pp_name pkg) (pp_version pkg) (Inr None)])
          = (r, s', l')" by simp
      from upload_one_logged [OF this] show ?thesis using True by simp
    next
      case 3
      then obtain data where l1: "l1 = l @ [Ev_Fetch (pp_name pkg) (pp_version pkg) (Inr (Some data))]"
        and d: "remote = pe_sha512 env data" "same \<longrightarrow> held env pkg data"
        using logged by (fastforce simp: held_def Let_def)
      have "(r, s', l') = (if remote = pp_sha512 pkg then (succeeded pkg Present '''', s1, l1)
          else if same then (succeeded pkg Present note_same_content, s1, l1)
          else (failed pkg Kind_Conflict (''nexus holds this version with other bytes: '' @ digests (pp_sha512 pkg) remote), s1, l1))"
        using pub q True len 3 by (simp add: publish_one_def limit_def)
      then show ?thesis using l1 d by (auto simp: verdict_ok_def held_def split: if_splits)
    qed
  qed
qed

text \<open>Writing the calls down changes nothing else.\<close>

definition forget :: "'a \<times> 's \<times> net_event list \<Rightarrow> 'a \<times> 's" where
  "forget x = (fst x, fst (snd x))"

lemma forget_simp [simp]: "forget (a, s, l) = (a, s)"
  by (simp add: forget_def)

lemma forget_failed_or: "forget (failed_or (logged p) pkg k why (s, l)) = failed_or p pkg k why s"
  by (auto simp: failed_or_def split: prod.splits bool.splits)

lemma forget_fetch: "forget (fetch_digest env (logged p) pkg cf limit sh (s, l)) = fetch_digest env p pkg cf limit sh s"
  by (auto simp: fetch_digest_def Let_def split: option.splits prod.splits sum.splits)

lemma forget_read_back: "forget (read_back env (logged p) pkg cf limit (s, l)) = read_back env p pkg cf limit s"
proof -
  obtain q s1 l1 where "fetch_digest env (logged p) pkg cf limit None (s, l) = (q, s1, l1)" by (metis prod_cases3)
  moreover from this have "fetch_digest env p pkg cf limit None s = (q, s1)" using forget_fetch by (metis forget_simp)
  ultimately show ?thesis
    by (simp add: read_back_def forget_failed_or split: sum.split option.split prod.split)
qed

lemma forget_upload_one: "forget (upload_one env (logged p) pkg fr pos limit (s, l)) = upload_one env p pkg fr pos limit s"
  by (simp add: upload_one_def Let_def forget_failed_or forget_read_back split: option.split sum.split prod.split)

lemma forget_publish_one: "forget (publish_one env (logged p) pkg (s, l)) = publish_one env p pkg s"
proof -
  let ?fr = "pe_reads env (pp_path pkg)"
  have step: "\<exists>q s1 l1. fetch_digest env (logged p) pkg (fr_copy1 ?fr) limit (Some (fr_compare ?fr)) (s, l) = (q, s1, l1)
      \<and> fetch_digest env p pkg (fr_copy1 ?fr) limit (Some (fr_compare ?fr)) s = (q, s1)" for limit
    using forget_fetch by (metis forget_simp prod_cases3)
  show ?thesis
  proof (cases "fr_stat ?fr")
    case (Inl e)
    then show ?thesis by (simp add: publish_one_def Let_def split: option.split)
  next
    case (Inr len)
    obtain q s1 l1 where "fetch_digest env (logged p) pkg (fr_copy1 ?fr) (int64 (int64 (2 * len) + max_copy_slack))
          (Some (fr_compare ?fr)) (s, l) = (q, s1, l1)"
      and "fetch_digest env p pkg (fr_copy1 ?fr) (int64 (int64 (2 * len) + max_copy_slack)) (Some (fr_compare ?fr)) s = (q, s1)"
      using step by blast
    then show ?thesis using Inr
      by (simp add: publish_one_def Let_def forget_failed_or forget_upload_one split: sum.split option.split prod.split)
  qed
qed

lemma publish_rest_logged:
  "publish_rest env (logged p) pkgs (s, l) = (rs, s', l') \<Longrightarrow>
   publish_rest env p pkgs s = (rs, s') \<and> length rs = length pkgs
   \<and> (\<exists>evss. length evss = length pkgs \<and> l' = l @ concat evss \<and> (\<forall>k < length pkgs. verdict_ok env (pkgs ! k) (rs ! k) (evss ! k)))"
proof (induction pkgs arbitrary: s l rs)
  case Nil
  then show ?case by simp
next
  case (Cons pkg pkgs)
  obtain stop s1 where d: "pb_done p s = (stop, s1)" by fastforce
  define one where "one q = (if stop then (failed pkg Kind_Interrupted reason_interrupted, q) else publish_one env (logged p) pkg q)" for q
  obtain r s2 l2 where one: "one (s1, l) = (r, s2, l2)" by (metis prod_cases3)
  obtain rs2 where rest: "publish_rest env (logged p) pkgs (s2, l2) = (rs2, s', l')" and rs: "rs = r # rs2"
    using Cons.prems d one by (auto simp: one_def split: prod.splits if_splits)
  have plain: "(if stop then (failed pkg Kind_Interrupted reason_interrupted, s1) else publish_one env p pkg s1) = (r, s2)"
    using one forget_publish_one [of env p pkg s1 l] by (auto simp: one_def split: if_splits)
  have "\<exists>evs. l2 = l @ evs \<and> verdict_ok env pkg r evs"
    using one publish_one_logged failed_verdict [of "[]" pkg r env] by (auto simp: one_def split: if_splits)
  then obtain evs where evs: "l2 = l @ evs" "verdict_ok env pkg r evs" by blast
  from Cons.IH [OF rest] obtain evss where IH: "publish_rest env p pkgs s2 = (rs2, s')" "length rs2 = length pkgs"
    "length evss = length pkgs" "l' = l2 @ concat evss" "\<forall>k < length pkgs. verdict_ok env (pkgs ! k) (rs2 ! k) (evss ! k)"
    by blast
  have "\<forall>k < length (pkg # pkgs). verdict_ok env ((pkg # pkgs) ! k) (rs ! k) ((evs # evss) ! k)"
    using evs(2) IH(5) by (auto simp: rs less_Suc_eq_0_disj)
  moreover have "publish_rest env p (pkg # pkgs) s = (rs, s')" using d plain IH(1) by (simp add: rs)
  ultimately show ?case using evs(1) IH(2-4) by (intro conjI exI [of _ "evs # evss"]) (simp_all add: rs)
qed

lemma fail_rest_logged:
  "fail_rest (logged p) why pkgs (s, l) = (rs, s', l') \<Longrightarrow>
   fail_rest p why pkgs s = (rs, s') \<and> length rs = length pkgs \<and> l' = l
   \<and> (\<forall>k < length pkgs. is_failed (pkgs ! k) (rs ! k))"
proof (induction pkgs arbitrary: s rs)
  case Nil
  then show ?case by simp
next
  case (Cons pkg pkgs)
  obtain r s1 l1 where f: "failed_or (logged p) pkg Kind_Nexus why (s, l) = (r, s1, l1)" by (metis prod_cases3)
  note r = failed_or_logged [OF f]
  have "failed_or p pkg Kind_Nexus why s = (r, s1)" using forget_failed_or f by (metis forget_simp)
  then show ?case using Cons.prems f r Cons.IH [of s1] by (auto simp: less_Suc_eq_0_disj split: prod.splits)
qed

lemma publish_each_logged:
  assumes "publish_each env (logged p) pkgs (s, []) = (rs, s', log)"
  shows "publish_each env p pkgs s = (rs, s') \<and> length rs = length pkgs
    \<and> (\<exists>evss. length evss = length pkgs \<and> log = Ev_Check # concat evss
        \<and> (\<forall>k < length pkgs. verdict_ok env (pkgs ! k) (rs ! k) (evss ! k)))"
proof -
  obtain q s1 where q: "pb_check p s = (q, s1)" by fastforce
  show ?thesis
  proof (cases q)
    case None
    then have "publish_rest env (logged p) pkgs (s1, [Ev_Check]) = (rs, s', log)"
      using assms q by (simp add: publish_each_def)
    from publish_rest_logged [OF this] show ?thesis using None q by (simp add: publish_each_def)
  next
    case (Some e)
    then have "fail_rest (logged p) (''repository check failed: '' @ e) pkgs (s1, [Ev_Check]) = (rs, s', log)"
      using assms q by (simp add: publish_each_def)
    note f = fail_rest_logged [OF this]
    have "verdict_ok env (pkgs ! k) (rs ! k) (replicate (length pkgs) [] ! k)" if "k < length pkgs" for k
      using f that failed_verdict [of "[]" _ _ env] by simp
    then show ?thesis using f Some q
      by (intro conjI exI [of _ "replicate (length pkgs) []"]) (simp_all add: publish_each_def)
  qed
qed

text \<open>C14. Every verdict rests on what Nexus itself answered. Publishing gives one result per package, in
  order. A package is uploaded only when its tarball names it and its file hashed again to the checked sha512, at most
  once, and right after Nexus answered that it does not hold the version; what is sent is then the whole file from its
  start, with the checked sha512 unless the file changed between that hash and the upload (\<open>changed_file_is_sent\<close>).
  Published means that Nexus took the upload and then served bytes with the checked sha512, Present that it already
  served such bytes, or the same content for a stripped package, and nothing was sent.\<close>

theorem publish_evidence:
  assumes "publish_each env (logged p) pkgs (s, []) = (rs, s', log)"
  shows "publish_each env p pkgs s = (rs, s') \<and> length rs = length pkgs
    \<and> (\<exists>evss. length evss = length pkgs \<and> log = Ev_Check # concat evss
        \<and> (\<forall>k < length pkgs. verdict_ok env (pkgs ! k) (rs ! k) (evss ! k)))"
  using assms by (rule publish_each_logged)

text \<open>What the callers of publishing need of the results alone.\<close>

lemma publish_each_results:
  assumes "publish_each env p pkgs s = (rs, s')"
  shows "length rs = length pkgs \<and> (\<forall>k < length pkgs. rs_name (rs ! k) = pp_name (pkgs ! k)
    \<and> rs_version (rs ! k) = pp_version (pkgs ! k) \<and> rs_file (rs ! k) = pp_file (pkgs ! k)
    \<and> rs_state (rs ! k) \<noteq> Pending \<and> (rs_kind (rs ! k) = None \<longleftrightarrow> rs_state (rs ! k) \<noteq> Failed))"
proof -
  obtain rs2 s2 log where l: "publish_each env (logged p) pkgs (s, []) = (rs2, s2, log)" by (metis prod_cases3)
  note ok = publish_each_logged [OF l]
  then have "rs2 = rs" using assms by simp
  then show ?thesis using ok by (auto simp: verdict_ok_def)
qed

subsection \<open>Refinement: a repository as a map\<close>

text \<open>A repository that answers and never fails: a map from name and version to tarballs. An upload is
  filed under the name and version its package.json holds.\<close>

type_synonym repository = "string \<times> string \<Rightarrow> bytes option"

definition honest_nexus :: "'j publish_env \<Rightarrow> repository publisher" where
  "honest_nexus env =
     \<lparr>pb_check = (\<lambda>m. (None, m)),
      pb_fetch = (\<lambda>n v limit m. (Inr (m (n, v)), m)),
      pb_upload = (\<lambda>f d m. (case inspect_tarball (pe_tar env) d of
         Inl e \<Rightarrow> (Some (fault_text e), m)
       | Inr info \<Rightarrow> (None, m((tf_name info, tf_version info) \<mapsto> d)))),
      pb_done = (\<lambda>m. (False, m))\<rparr>"

lemma honest_simps [simp]:
  "pb_check (honest_nexus env) m = (None, m)" "pb_fetch (honest_nexus env) n v limit m = (Inr (m (n, v)), m)"
  "pb_done (honest_nexus env) m = (False, m)"
  "pb_upload (honest_nexus env) f d m = (case inspect_tarball (pe_tar env) d of
     Inl e \<Rightarrow> (Some (fault_text e), m) | Inr info \<Rightarrow> (None, m((tf_name info, tf_version info) \<mapsto> d)))"
  by (simp_all add: honest_nexus_def)

definition no_copy_faults :: copy_faults where
  "no_copy_faults = \<lparr>cf_create = None, cf_sync = None, cf_seek = None\<rparr>"

text \<open>A file that does not change while it is read, and a disk that does not fail.\<close>

definition steady_reads :: "bytes \<Rightarrow> file_reads" where
  "steady_reads c = \<lparr>fr_open = None, fr_stat = Inr (int (length c)), fr_inspect = c, fr_inspected = length c, fr_seek1 = None,
     fr_compare = (c, None), fr_hash = (c, None), fr_seek2 = None, fr_upload = c,
     fr_copy1 = no_copy_faults, fr_copy2 = no_copy_faults\<rparr>"

definition steady_file :: "'j publish_env \<Rightarrow> pub_package \<Rightarrow> bool" where
  "steady_file env pkg \<longleftrightarrow> (\<exists>c. pe_reads env (pp_path pkg) = steady_reads c \<and> pe_sha512 env c = pp_sha512 pkg)"

text \<open>The tarball holds a package.json with the name and the version of the manifest.\<close>

definition names_it :: "'j publish_env \<Rightarrow> pub_package \<Rightarrow> bool" where
  "names_it env pkg \<longleftrightarrow> (case inspect_tarball (pe_tar env) (fr_upload (pe_reads env (pp_path pkg))) of
     Inl e \<Rightarrow> False | Inr info \<Rightarrow> tf_name info = pp_name pkg \<and> tf_version info = pp_version pkg)"

text \<open>What the reasons of a mismatch need of the standard library's text functions: cleaning leaves something of them.\<close>

definition keeps_reasons :: "'j publish_env \<Rightarrow> bool" where
  "keeps_reasons env \<longleftrightarrow> (\<forall>e. clean_text (pe_runes env) (''the tarball is not a valid package: '' @ e) \<noteq> '''')"

lemma steady_simps [simp]:
  "fr_open (steady_reads c) = None" "fr_stat (steady_reads c) = Inr (int (length c))" "fr_inspect (steady_reads c) = c"
  "fr_seek1 (steady_reads c) = None" "fr_compare (steady_reads c) = (c, None)" "fr_hash (steady_reads c) = (c, None)"
  "fr_seek2 (steady_reads c) = None" "fr_upload (steady_reads c) = c" "fr_copy1 (steady_reads c) = no_copy_faults"
  "fr_copy2 (steady_reads c) = no_copy_faults" "cf_create no_copy_faults = None" "cf_sync no_copy_faults = None"
  "cf_seek no_copy_faults = None"
  by (simp_all add: steady_reads_def no_copy_faults_def)

text \<open>What publishing means for the map: a version that is missing is added if the tarball is it, none is replaced.\<close>

definition add_missing :: "'j publish_env \<Rightarrow> repository \<Rightarrow> pub_package \<Rightarrow> repository" where
  "add_missing env m pkg = (case m (pp_name pkg, pp_version pkg) of
     Some d \<Rightarrow> m
   | None \<Rightarrow> if names_it env pkg then m((pp_name pkg, pp_version pkg) \<mapsto> fr_upload (pe_reads env (pp_path pkg))) else m)"

definition verdict_of :: "'j publish_env \<Rightarrow> repository \<Rightarrow> pub_package \<Rightarrow> pkg_state" where
  "verdict_of env m pkg = (if \<not> names_it env pkg then Failed else case m (pp_name pkg, pp_version pkg) of
     None \<Rightarrow> Published | Some d \<Rightarrow> if held env pkg d then Present else Failed)"

lemma steady_mismatch:
  assumes "steady_file env pkg" "keeps_reasons env"
  shows "mismatch env (fr_inspect (pe_reads env (pp_path pkg))) pkg = '''' \<longleftrightarrow> names_it env pkg"
proof -
  obtain c where "pe_reads env (pp_path pkg) = steady_reads c" using assms(1) by (auto simp: steady_file_def)
  then show ?thesis using assms(2) by (auto simp: mismatch_def names_it_def keeps_reasons_def split: sum.split)
qed

lemma publish_one_honest:
  assumes st: "steady_file env pkg" and keeps: "keeps_reasons env"
  shows "\<exists>r. publish_one env (honest_nexus env) pkg m = (r, add_missing env m pkg) \<and> rs_state r = verdict_of env m pkg
    \<and> (\<not> names_it env pkg \<longrightarrow> rs_kind r = Some Kind_Mismatch)"
proof -
  obtain c where reads [simp]: "pe_reads env (pp_path pkg) = steady_reads c" and sha: "pe_sha512 env c = pp_sha512 pkg"
    using st by (auto simp: steady_file_def)
  have mm: "mismatch env c pkg = '''' \<longleftrightarrow> names_it env pkg" using steady_mismatch [OF st keeps] by simp
  show ?thesis
  proof (cases "names_it env pkg")
    case False
    then show ?thesis using mm by (simp add: publish_one_def Let_def add_missing_def verdict_of_def split: option.split)
  next
    case own: True
    then obtain info where info: "inspect_tarball (pe_tar env) c = Inr info" "tf_name info = pp_name pkg" "tf_version info = pp_version pkg"
      by (auto simp: names_it_def split: sum.splits)
    show ?thesis
    proof (cases "m (pp_name pkg, pp_version pkg)")
      case None
      have up: "\<exists>r. upload_one env (honest_nexus env) pkg (steady_reads c) 0 limit m
          = (r, m((pp_name pkg, pp_version pkg) \<mapsto> c)) \<and> rs_state r = Published" for limit
        using info sha
        by (simp add: upload_one_def read_back_def fetch_digest_def)
      have "publish_one env (honest_nexus env) pkg m = upload_one env (honest_nexus env) pkg (steady_reads c) 0
          (int64 (int64 (2 * int (length c)) + max_copy_slack)) m"
        using None mm own by (simp add: publish_one_def fetch_digest_def)
      then show ?thesis using up None own by (simp add: add_missing_def verdict_of_def)
    next
      case (Some d)
      consider "pe_sha512 env d = pp_sha512 pkg" | "pe_sha512 env d \<noteq> pp_sha512 pkg" "\<not> pp_stripped pkg"
        | e where "pe_sha512 env d \<noteq> pp_sha512 pkg" "pp_stripped pkg" "same_content (pe_tar env) c d = Inl e"
        | same where "pe_sha512 env d \<noteq> pp_sha512 pkg" "pp_stripped pkg" "same_content (pe_tar env) c d = Inr same"
        by (cases "same_content (pe_tar env) c d") blast+
      then show ?thesis
        by cases (use Some mm own sha in \<open>simp_all add: publish_one_def fetch_digest_def copy_same_content_def add_missing_def
            verdict_of_def held_def failed_or_def\<close>)
    qed
  qed
qed

lemma publish_rest_honest:
  assumes "keeps_reasons env" "\<forall>pkg \<in> set pkgs. steady_file env pkg"
  shows "\<exists>rs. publish_rest env (honest_nexus env) pkgs m = (rs, foldl (add_missing env) m pkgs) \<and> length rs = length pkgs
     \<and> (\<forall>k < length pkgs. rs_state (rs ! k) = verdict_of env (foldl (add_missing env) m (take k pkgs)) (pkgs ! k)
        \<and> (\<not> names_it env (pkgs ! k) \<longrightarrow> rs_kind (rs ! k) = Some Kind_Mismatch))"
  using assms(2)
proof (induction pkgs arbitrary: m)
  case Nil
  then show ?case by simp
next
  case (Cons pkg pkgs)
  obtain r where r: "publish_one env (honest_nexus env) pkg m = (r, add_missing env m pkg)" "rs_state r = verdict_of env m pkg"
    and kind: "\<not> names_it env pkg \<longrightarrow> rs_kind r = Some Kind_Mismatch"
    using publish_one_honest [of env pkg m] Cons.prems assms(1) by auto
  obtain rs where rs: "publish_rest env (honest_nexus env) pkgs (add_missing env m pkg)
        = (rs, foldl (add_missing env) (add_missing env m pkg) pkgs)" "length rs = length pkgs"
      "\<forall>k < length pkgs. rs_state (rs ! k) = verdict_of env (foldl (add_missing env) (add_missing env m pkg) (take k pkgs)) (pkgs ! k)
        \<and> (\<not> names_it env (pkgs ! k) \<longrightarrow> rs_kind (rs ! k) = Some Kind_Mismatch)"
    using Cons.IH [of "add_missing env m pkg"] Cons.prems by auto
  have "publish_rest env (honest_nexus env) (pkg # pkgs) m = (r # rs, foldl (add_missing env) m (pkg # pkgs))"
    using r rs(1) by simp
  then show ?case using r(2) kind rs(2,3) by (auto simp: less_Suc_eq_0_disj)
qed

lemma add_missing_keeps: "m key = Some d \<Longrightarrow> add_missing env m pkg key = Some d"
  by (auto simp: add_missing_def split: option.splits)

lemma add_all_keeps: "m key = Some d \<Longrightarrow> foldl (add_missing env) m pkgs key = Some d"
  by (induction pkgs arbitrary: m) (auto intro: add_missing_keeps)

lemma add_missing_has: "names_it env pkg \<Longrightarrow> \<exists>d. add_missing env m pkg (pp_name pkg, pp_version pkg) = Some d"
  by (auto simp: add_missing_def split: option.splits)

lemma add_all_again:
  "(\<forall>pkg \<in> set pkgs. names_it env pkg \<longrightarrow> m (pp_name pkg, pp_version pkg) \<noteq> None) \<Longrightarrow> foldl (add_missing env) m pkgs = m"
  by (induction pkgs) (auto simp: add_missing_def split: option.splits)

text \<open>What the map holds for a package once all are added, and the verdict of a second look.\<close>

lemma add_all_at:
  assumes "k < length pkgs" and "steady_file env (pkgs ! k)"
  shows "(names_it env (pkgs ! k) \<longrightarrow> foldl (add_missing env) m pkgs (pp_name (pkgs ! k), pp_version (pkgs ! k)) \<noteq> None)
    \<and> verdict_of env (foldl (add_missing env) m pkgs) (pkgs ! k)
      = (if verdict_of env (foldl (add_missing env) m (take k pkgs)) (pkgs ! k) = Failed then Failed else Present)"
proof (cases "names_it env (pkgs ! k)")
  case False
  then show ?thesis by (simp add: verdict_of_def)
next
  case own: True
  let ?p = "pkgs ! k" and ?m = "foldl (add_missing env) m (take k pkgs)"
  let ?key = "(pp_name ?p, pp_version ?p)"
  have "pkgs = take k pkgs @ ?p # drop (Suc k) pkgs" using assms(1) by (rule id_take_nth_drop)
  then have all: "foldl (add_missing env) m pkgs = foldl (add_missing env) (add_missing env ?m ?p) (drop (Suc k) pkgs)"
    by (metis foldl_Cons foldl_append)
  obtain d where d: "add_missing env ?m ?p ?key = Some d" using add_missing_has [OF own] by blast
  then have at: "foldl (add_missing env) m pkgs ?key = Some d" unfolding all by (rule add_all_keeps)
  have "held env ?p d" if "?m ?key = None"
    using that d assms(2) own by (auto simp: add_missing_def steady_file_def held_def)
  moreover have "?m ?key = Some d" if "?m ?key \<noteq> None" using that d by (auto simp: add_missing_def)
  ultimately show ?thesis using at own by (auto simp: verdict_of_def split: option.splits)
qed

text \<open>C16. Against a repository that answers, with files that can be read and have not changed since the checks, so that they
  have the checked sha512, publishing is the addition of the missing versions to a map: no version the repository
  holds is replaced, each verdict is the one the map before the package gives, and a second run changes nothing and
  finds every package the first did not fail already present. A package whose tarball cannot be inspected or holds another
  name or version than the manifest is failed as a mismatch, and adds nothing. Of the standard library this needs that
  cleaning the reason of a mismatch does not leave it empty.\<close>

theorem publish_refines:
  assumes "keeps_reasons env" "\<forall>pkg \<in> set pkgs. steady_file env pkg"
  shows "\<exists>rs rs' m'. publish_each env (honest_nexus env) pkgs m = (rs, m') \<and> publish_each env (honest_nexus env) pkgs m' = (rs', m')
    \<and> m' = foldl (add_missing env) m pkgs \<and> (\<forall>key d. m key = Some d \<longrightarrow> m' key = Some d)
    \<and> length rs = length pkgs \<and> length rs' = length pkgs
    \<and> (\<forall>k < length pkgs. rs_state (rs ! k) = verdict_of env (foldl (add_missing env) m (take k pkgs)) (pkgs ! k)
        \<and> (\<not> names_it env (pkgs ! k) \<longrightarrow> rs_kind (rs ! k) = Some Kind_Mismatch)
        \<and> rs_state (rs' ! k) = (if rs_state (rs ! k) = Failed then Failed else Present))"
proof -
  let ?m = "foldl (add_missing env) m pkgs"
  obtain rs where rs: "publish_rest env (honest_nexus env) pkgs m = (rs, ?m)" "length rs = length pkgs"
      "\<forall>k < length pkgs. rs_state (rs ! k) = verdict_of env (foldl (add_missing env) m (take k pkgs)) (pkgs ! k)
        \<and> (\<not> names_it env (pkgs ! k) \<longrightarrow> rs_kind (rs ! k) = Some Kind_Mismatch)"
    using publish_rest_honest [OF assms] by blast
  have at: "?m (pp_name pkg, pp_version pkg) \<noteq> None" if "pkg \<in> set pkgs" "names_it env pkg" for pkg
    using that assms(2) add_all_at [of _ pkgs env m] by (metis in_set_conv_nth)
  then have again: "foldl (add_missing env) ?m (take k pkgs) = ?m" for k
    by (intro add_all_again ballI impI) (auto dest: in_set_takeD)
  obtain rs' where rs': "publish_rest env (honest_nexus env) pkgs ?m = (rs', ?m)" "length rs' = length pkgs"
      "\<forall>k < length pkgs. rs_state (rs' ! k) = verdict_of env ?m (pkgs ! k)"
    using publish_rest_honest [OF assms, of ?m] again [of "length pkgs"] by (auto simp: again)
  have "rs_state (rs' ! k) = (if rs_state (rs ! k) = Failed then Failed else Present)" if "k < length pkgs" for k
    using that rs(3) rs'(3) add_all_at [OF that, of env m] assms(2) nth_mem [OF that] by simp
  moreover have "publish_each env (honest_nexus env) pkgs m = (rs, ?m)" "publish_each env (honest_nexus env) pkgs ?m = (rs', ?m)"
    using rs(1) rs'(1) by (simp_all add: publish_each_def)
  moreover have "\<forall>key d. m key = Some d \<longrightarrow> ?m key = Some d" by (simp add: add_all_keeps)
  ultimately show ?thesis using rs(2,3) rs'(2) by blast
qed

subsection \<open>Examples\<close>

definition sample_publish_env :: "string publish_env" where
  "sample_publish_env = \<lparr>pe_tar = sample_tar_api, pe_sha512 = (\<lambda>b. b),
     pe_runes = \<lparr>ru_utf8 = (\<lambda>_. True), ru_valid = map of_char, ru_runes = map of_char, ru_text = map char_of, ru_quote = (\<lambda>s. s)\<rparr>,
     pe_reads = (\<lambda>path. steady_reads ''K'')\<rparr>"

definition sample_pub :: pub_package where
  "sample_pub = \<lparr>pp_name = ''a'', pp_version = ''1.0.0'', pp_file = ''a-1.0.0.tgz'', pp_path = ''/d/a-1.0.0.tgz'',
     pp_sha512 = ''K'', pp_stripped = False\<rparr>"

lemma sample_steady: "steady_file sample_publish_env sample_pub" "names_it sample_publish_env sample_pub" "keeps_reasons sample_publish_env"
proof -
  have "decode_manifest sample_tar_api (sample_manifest ''K'') = Inr ((''publishConfig'', ''x'') # sample_keys)"
    by (simp add: decode_manifest_def sample_tar_api_def sample_manifest_def max_manifest_bytes_def)
  then have inspect: "inspect_tarball sample_tar_api ''K''
      = Inr (info_of sample_tar_api (sample_manifest ''K'') ((''publishConfig'', ''x'') # sample_keys))"
    unfolding inspect_exact using sample_readable [of "''K''"] by (auto simp: sample_entry)
  show "steady_file sample_publish_env sample_pub" by (simp add: steady_file_def sample_publish_env_def sample_pub_def)
  show "names_it sample_publish_env sample_pub"
    using inspect by (simp add: names_it_def sample_publish_env_def sample_pub_def info_of_def string_field_def)
      (simp add: sample_tar_api_def sample_keys_def gm_get_def)
  show "keeps_reasons sample_publish_env"
    by (simp add: keeps_reasons_def sample_publish_env_def clean_text_def is_control_def max_reason_chars_def)
qed

theorem publish_refines_witness:
  "\<exists>rs m'. publish_each sample_publish_env (honest_nexus sample_publish_env) [sample_pub] Map.empty = (rs, m')
    \<and> rs_state (hd rs) = Published \<and> m' (''a'', ''1.0.0'') = Some ''K''"
proof -
  have "\<forall>pkg \<in> set [sample_pub]. steady_file sample_publish_env pkg" by (simp add: sample_steady(1))
  from publish_refines [OF sample_steady(3) this, of Map.empty] obtain rs where
    "publish_each sample_publish_env (honest_nexus sample_publish_env) [sample_pub] Map.empty
      = (rs, add_missing sample_publish_env Map.empty sample_pub)" "length rs = 1"
    "rs_state (rs ! 0) = verdict_of sample_publish_env Map.empty sample_pub" by auto
  moreover have "verdict_of sample_publish_env Map.empty sample_pub = Published" by (simp add: verdict_of_def sample_steady(2))
  moreover have "add_missing sample_publish_env Map.empty sample_pub (''a'', ''1.0.0'') = Some ''K''"
    using sample_steady(2) by (simp add: add_missing_def) (simp add: sample_pub_def sample_publish_env_def)
  ultimately show ?thesis by (cases rs) auto
qed

theorem publish_evidence_witness:
  "fst (publish_each sample_publish_env (logged (honest_nexus sample_publish_env)) [sample_pub] (Map.empty, []))
    = fst (publish_each sample_publish_env (honest_nexus sample_publish_env) [sample_pub] Map.empty)"
proof -
  obtain rs s' log where p: "publish_each sample_publish_env (logged (honest_nexus sample_publish_env)) [sample_pub]
      (Map.empty, []) = (rs, s', log)" by (metis prod_cases3)
  show ?thesis using publish_evidence [OF p] p by simp
qed

text \<open>The file is read again for the upload, after it was hashed: a file that changes between these two
  reads reaches Nexus, and only the read back notices.\<close>

definition changing_env :: "string publish_env" where
  "changing_env = sample_publish_env\<lparr>pe_reads := (\<lambda>path. (steady_reads ''K'')\<lparr>fr_upload := ''Z''\<rparr>)\<rparr>"

lemma sample_inspect: "\<exists>info. inspect_tarball sample_tar_api ''Z'' = Inr info"
proof -
  have "\<exists>keys. decode_manifest sample_tar_api (sample_manifest ''Z'') = Inr keys"
    by (simp add: decode_manifest_def sample_tar_api_def sample_manifest_def max_manifest_bytes_def)
  then show ?thesis using sample_readable [of "''Z''"] sample_entry(1) [of "''Z''"] by (simp add: inspect_exact) fastforce
qed

lemma changed_file_is_sent:
  "\<exists>rs s log sent. publish_each changing_env (logged (honest_nexus changing_env)) [sample_pub] (Map.empty, []) = (rs, s, log)
    \<and> Ev_Upload (pp_file sample_pub) sent None \<in> set log \<and> pe_sha512 changing_env sent \<noteq> pp_sha512 sample_pub"
proof -
  have m: "mismatch changing_env ''K'' sample_pub = ''''"
  proof -
    have "mismatch changing_env d sample_pub = mismatch sample_publish_env d sample_pub" for d
      by (simp add: mismatch_def changing_env_def split: sum.split)
    moreover have "fr_inspect (pe_reads sample_publish_env path) = ''K''" for path by (simp add: sample_publish_env_def)
    ultimately show ?thesis using steady_mismatch [OF sample_steady(1,3)] sample_steady(2) by simp
  qed
  obtain info where i: "inspect_tarball (pe_tar changing_env) ''Z'' = Inr info"
    using sample_inspect by (auto simp: changing_env_def sample_publish_env_def)
  have reads: "pe_reads changing_env path = (steady_reads ''K'')\<lparr>fr_upload := ''Z''\<rparr>"
    and sha: "pe_sha512 changing_env b = b" for path b
    by (simp_all add: changing_env_def sample_publish_env_def)
  obtain r s l where o: "publish_one changing_env (logged (honest_nexus changing_env)) sample_pub (Map.empty, [Ev_Check]) = (r, s, l)"
    by (metis prod_cases3)
  have "Ev_Upload (pp_file sample_pub) ''Z'' None \<in> set l"
    using o m i
    by (auto simp: publish_one_def reads sha fetch_digest_def upload_one_def read_back_def failed_or_def Let_def sample_pub_def
        split: option.splits if_splits)
  moreover have "publish_each changing_env (logged (honest_nexus changing_env)) [sample_pub] (Map.empty, []) = ([r], s, l)"
    using o by (simp add: publish_each_def)
  moreover have "pe_sha512 changing_env ''Z'' \<noteq> pp_sha512 sample_pub" by (simp add: sha sample_pub_def)
  ultimately show ?thesis by blast
qed

end
