(* ===== verification/Importer_Attempt.thy ===== *)
theory Importer_Attempt
  imports Imports_Queue Importer_Publish
begin

text \<open>
  \<^verbatim>\<open>internal/importer/attempt.go\<close> and \<^verbatim>\<open>run.go\<close>: one try at importing an archive, from its manifest
  to its report, and what it means for the queue that runs it.
\<close>

subsection \<open>What an attempt reads\<close>

text \<open>Why the source of an attempt failed: the interrupt, a refusal, a failure marked \<^verbatim>\<open>ErrSource\<close>,
  or any other error.\<close>

datatype source_error = Src_Interrupted | Src_Refusal string | Src_Failed string | Src_Local string

text \<open>A stream is an error, or the bytes it gives and the error it ends with.\<close>

type_synonym stream = "source_error + bytes \<times> source_error option"

record attempt_input =
  ai_url :: string
  ai_http :: bool
  ai_repository :: string
  ai_key :: bytes
  ai_source :: string
  ai_manifest :: stream
  ai_archive :: stream
  ai_expected :: string
  ai_version :: string
  ai_absolute :: bool
  ai_plain_store :: bool
  ai_publisher :: "string option"
  ai_mkdir :: "string option"

record attempt_env =
  av_verify :: verify_env
  av_decode :: "bytes \<Rightarrow> string + raw_document \<times> bool"
  av_runes :: rune_api

subsection \<open>Reasons\<close>

definition max_stored_reason :: nat where "max_stored_reason = 1000"

definition cut_reason :: "rune_api \<Rightarrow> string \<Rightarrow> string" where
  "cut_reason ru s = ru_text ru (take max_stored_reason (ru_valid ru s))"

definition first_report :: "attempt_input \<Rightarrow> report" where
  "first_report a = zero_report\<lparr>rp_outcome := outcome_refused, rp_unencrypted := ai_plain_store a \<or> ai_http a,
     rp_import_version := ai_version a, rp_archive := \<lparr>ai_file = ai_source a, ai_sha256 = '''', ai_size = 0\<rparr>,
     rp_nexus := \<lparr>ni_url = ai_url a, ni_repository = ai_repository a\<rparr>, rp_checked := Some False\<rparr>"

text \<open>\<^verbatim>\<open>stop\<close> ends the attempt before any package is listed.\<close>

definition stop_report :: "rune_api \<Rightarrow> source_error \<Rightarrow> report \<Rightarrow> report" where
  "stop_report ru e rep = (case e of
     Src_Interrupted \<Rightarrow> rep\<lparr>rp_outcome := outcome_incomplete, rp_reason := reason_interrupted\<rparr>
   | Src_Refusal r \<Rightarrow> rep\<lparr>rp_reason := cut_reason ru r\<rparr>
   | Src_Failed msg \<Rightarrow> rep\<lparr>rp_outcome := outcome_incomplete, rp_reason := cut_reason ru (clean_text ru msg)\<rparr>
   | Src_Local msg \<Rightarrow> rep\<lparr>rp_reason := cut_reason ru (''could not check the archive: '' @ msg)\<rparr>)"

subsection \<open>Manifest and archive\<close>

definition of_archive_error :: "archive_error \<Rightarrow> source_error" where
  "of_archive_error e = (case e of Refused r \<Rightarrow> Src_Refusal r | Local msg \<Rightarrow> Src_Local msg)"

text \<open>A reader that stops after \<open>n\<close> bytes does not see an error that comes later.\<close>

definition read_limited :: "nat \<Rightarrow> bytes \<times> source_error option \<Rightarrow> bytes \<times> source_error option" where
  "read_limited n st = (if n \<le> length (fst st) then (take n (fst st), None) else st)"

text \<open>The whole manifest is read before it is parsed.\<close>

definition read_manifest :: "attempt_env \<Rightarrow> attempt_input \<Rightarrow> source_error + archive_manifest" where
  "read_manifest v a = (case ai_manifest a of
     Inl e \<Rightarrow> Inl e
   | Inr st \<Rightarrow> (case read_limited (max_manifest_size + 1) st of
       (_, Some e) \<Rightarrow> Inl e
     | (dat, None) \<Rightarrow>
         (case parse_document (ve_text (av_verify v)) (av_decode v) None dat of
            Inl e \<Rightarrow> Inl (of_archive_error e) | Inr m \<Rightarrow> Inr m)))"

text \<open>A read error keeps its cause under the message Verify gives it; every other error is Verify's own.\<close>

definition source_text :: "source_error \<Rightarrow> string" where
  "source_text e = (case e of Src_Interrupted \<Rightarrow> ''context canceled'' | Src_Refusal r \<Rightarrow> r | Src_Failed m \<Rightarrow> m | Src_Local m \<Rightarrow> m)"

definition with_text :: "source_error \<Rightarrow> string \<Rightarrow> source_error" where
  "with_text e msg = (case e of Src_Failed _ \<Rightarrow> Src_Failed msg | Src_Local _ \<Rightarrow> Src_Local msg | _ \<Rightarrow> e)"

definition verify_attempt :: "attempt_env \<Rightarrow> attempt_input \<Rightarrow> archive_manifest \<Rightarrow> files
    \<Rightarrow> (source_error + checked list) \<times> files" where
  "verify_attempt v a m fs = (case ai_archive a of
     Inl e \<Rightarrow> (Inl e, fs)
   | Inr st \<Rightarrow>
       let (dat, err) = read_limited (nat (int64 (am_size m + 1))) st;
           opts = \<lparr>vo_expected = ai_expected a, vo_key = ai_key a, vo_absolute = ai_absolute a,
                   vo_limits = \<lparr>lm_entries = 0, lm_unpacked = 0, lm_name_bytes = 0\<rparr>\<rparr> in
       case verify (av_verify v) m opts (map_option source_text err) dat fs of
         (Inr cs, fs') \<Rightarrow> (Inr cs, fs')
       | (Inl (Refused r), fs') \<Rightarrow> (Inl (Src_Refusal r), fs')
       | (Inl (Local msg), fs') \<Rightarrow>
           (Inl (case err of Some e \<Rightarrow> if ai_absolute a then with_text e msg else Src_Local msg | None \<Rightarrow> Src_Local msg), fs'))"

subsection \<open>Packages\<close>

definition pending_result :: "package \<Rightarrow> result" where
  "pending_result p = \<lparr>rs_name = pk_name p, rs_version = pk_version p, rs_file = pk_file p, rs_state = Pending,
     rs_reason = '''', rs_note = '''', rs_kind = None\<rparr>"

definition pub_of_checked :: "checked \<Rightarrow> pub_package" where
  "pub_of_checked c = \<lparr>pp_name = pk_name (ck_package c), pp_version = pk_version (ck_package c),
     pp_file = pk_file (ck_package c), pp_path = ck_file c, pp_sha512 = ck_sha512 c, pp_stripped = pk_stripped (ck_package c)\<rparr>"

definition failed_listed :: "kind \<Rightarrow> string \<Rightarrow> result \<Rightarrow> result" where
  "failed_listed k reason r = failed \<lparr>pp_name = rs_name r, pp_version = rs_version r, pp_file = rs_file r,
     pp_path = '''', pp_sha512 = [], pp_stripped = False\<rparr> k reason"

definition ended_events :: "result list \<Rightarrow> progress list" where
  "ended_events rs = map (\<lambda>(i, r). P_Ended (int i) r) (List.enumerate 0 rs)"

text \<open>\<^verbatim>\<open>failAll\<close> ends every listed package with one reason.\<close>

definition fail_all :: "kind \<Rightarrow> string \<Rightarrow> result list \<Rightarrow> report \<Rightarrow> report \<times> progress list" where
  "fail_all k reason lst rep = (let rs = map (failed_listed k reason) lst in
     (rep\<lparr>rp_outcome := outcome_incomplete, rp_reason := '''', rp_packages := rs,
          rp_counts := (rp_counts rep)\<lparr>ct_failed := length rs\<rparr>\<rparr>, ended_events rs))"

definition note_stripped :: string where "note_stripped = ''sealift removed publishConfig at export''"

definition finish_result :: "rune_api \<Rightarrow> pub_package \<Rightarrow> result \<Rightarrow> result" where
  "finish_result ru pkg r =
     (let r = (if pp_stripped pkg \<and> rs_state r \<noteq> Failed \<and> rs_note r = '''' then r\<lparr>rs_note := note_stripped\<rparr> else r)
      in r\<lparr>rs_reason := cut_reason ru (rs_reason r)\<rparr>)"

text \<open>\<^verbatim>\<open>publish\<close>: a client or a directory that cannot be set up fails every package. What \<^verbatim>\<open>fail\<close> returns
  is not cut, what it reports is.\<close>

definition publish_checked :: "attempt_env \<Rightarrow> attempt_input \<Rightarrow> (pub_package list \<Rightarrow> 's \<Rightarrow> result list \<times> 's)
    \<Rightarrow> pub_package list \<Rightarrow> 's \<Rightarrow> result list \<times> progress list \<times> 's" where
  "publish_checked v a publish_all pkgs s =
     (let fin = map2 (finish_result (av_runes v)) pkgs;
          all_failed = (\<lambda>reason. let rs = map (\<lambda>p. failed p Kind_Local reason) pkgs in (rs, ended_events (fin rs), s)) in
      case ai_publisher a of Some e \<Rightarrow> all_failed (''could not set up the nexus client: '' @ e)
      | None \<Rightarrow> case ai_mkdir a of Some e \<Rightarrow> all_failed (''could not keep the nexus copies: '' @ e)
      | None \<Rightarrow> case publish_all pkgs s of (rs, s') \<Rightarrow> (fin rs, ended_events (fin rs), s'))"

text \<open>The count of the code takes every state but two as failed.\<close>

definition count_attempt :: "counts \<Rightarrow> result \<Rightarrow> counts" where
  "count_attempt c r = (case rs_state r of
     Published \<Rightarrow> c\<lparr>ct_published := ct_published c + 1\<rparr>
   | Present \<Rightarrow> c\<lparr>ct_present := ct_present c + 1\<rparr>
   | _ \<Rightarrow> c\<lparr>ct_failed := ct_failed c + 1\<rparr>)"

subsection \<open>The attempt\<close>

definition checked_report :: "report \<Rightarrow> result list \<Rightarrow> report" where
  "checked_report rep rs = (let c = foldl count_attempt (rp_counts rep) rs in
     rep\<lparr>rp_checked := Some True, rp_packages := rs, rp_counts := c,
         rp_outcome := (if 0 < ct_failed c then outcome_incomplete else outcome_complete)\<rparr>)"

definition run_attempt :: "attempt_env \<Rightarrow> attempt_input \<Rightarrow> (pub_package list \<Rightarrow> 's \<Rightarrow> result list \<times> 's)
    \<Rightarrow> files \<Rightarrow> 's \<Rightarrow> report \<times> progress list \<times> files \<times> 's" where
  "run_attempt v a publish_all fs s =
     (let ru = av_runes v; rep = first_report a in
      case read_manifest v a of Inl e \<Rightarrow> (stop_report ru e rep, [], fs, s)
      | Inr m \<Rightarrow>
         let rep = rep\<lparr>rp_tool := am_tool m, rp_analysis := am_analysis m,
               rp_target := \<lparr>ti_os = tg_os (am_target m), ti_cpu = tg_cpu (am_target m), ti_libc = tg_libc (am_target m),
                             ti_node = tg_node (am_target m), ti_pnpm = tg_pnpm (am_target m)\<rparr>,
               rp_archive := (rp_archive rep)\<lparr>ai_sha256 := am_sha256 m, ai_size := am_size m\<rparr>\<rparr>;
             lst = map pending_result (am_packages m);
             ev = P_Listed (rep\<lparr>rp_outcome := '''', rp_reason := '''', rp_packages := lst\<rparr>) in
         case verify_attempt v a m fs of
           (Inl Src_Interrupted, fs') \<Rightarrow>
             (case fail_all Kind_Interrupted reason_interrupted lst rep of (rep', evs) \<Rightarrow> (rep', ev # evs, fs', s))
         | (Inl (Src_Refusal r), fs') \<Rightarrow> (rep\<lparr>rp_reason := cut_reason ru r\<rparr>, [ev], fs', s)
         | (Inl (Src_Failed msg), fs') \<Rightarrow>
             (case fail_all Kind_Source (cut_reason ru (clean_text ru msg)) lst rep of (rep', evs) \<Rightarrow> (rep', ev # evs, fs', s))
         | (Inl (Src_Local msg), fs') \<Rightarrow>
             (rep\<lparr>rp_reason := cut_reason ru (''could not check the archive: '' @ msg)\<rparr>, [ev], fs', s)
         | (Inr cs, fs') \<Rightarrow>
             (case publish_checked v a publish_all (map pub_of_checked cs) s of
                (rs, evs, s') \<Rightarrow> (checked_report rep rs, ev # P_Checked # evs, fs', s')))"

text \<open>\<^verbatim>\<open>emptyDir\<close>: what can be read and removed goes.\<close>

definition empty_dir :: "bool \<Rightarrow> bool \<Rightarrow> (string \<Rightarrow> bool) \<Rightarrow> files \<Rightarrow> files" where
  "empty_dir absolute can_read stuck fs = (if \<not> absolute \<or> \<not> can_read then fs
     else (\<lambda>name. if stuck name then fs name else None))"

subsection \<open>The command line\<close>

text \<open>\<^verbatim>\<open>runFiles\<close>: the two files of the options and a temporary directory. \<open>dir\<close> is the error of making
  it; a file that cannot be opened or read is a local failure, never a failure of the source.\<close>

definition file_stream :: "string + bytes \<times> string option \<Rightarrow> stream" where
  "file_stream f = (case f of Inl e \<Rightarrow> Inl (Src_Local e) | Inr (dat, err) \<Rightarrow> Inr (dat, map_option Src_Local err))"

definition run_files :: "attempt_env \<Rightarrow> attempt_input \<Rightarrow> string + bytes \<times> string option \<Rightarrow> string + bytes \<times> string option
    \<Rightarrow> string option \<Rightarrow> (pub_package list \<Rightarrow> 's \<Rightarrow> result list \<times> 's) \<Rightarrow> 's \<Rightarrow> report \<times> 's" where
  "run_files v a mani arch dir publish_all s =
     (let a = a\<lparr>ai_manifest := file_stream mani, ai_archive := file_stream arch, ai_plain_store := False, ai_absolute := True\<rparr> in
      case dir of
        Some e \<Rightarrow> ((first_report a)\<lparr>rp_reason := cut_reason (av_runes v) (''could not check the archive: '' @ e)\<rparr>, s)
      | None \<Rightarrow> (case run_attempt v a publish_all Map.empty s of (rep, _, _, s') \<Rightarrow> (rep, s')))"

subsection \<open>Reports are true\<close>

lemma count_attempts:
  "foldl count_attempt c rs = \<lparr>ct_published = ct_published c + in_state Published rs,
     ct_present = ct_present c + in_state Present rs, ct_failed = ct_failed c + in_state Failed rs + in_state Pending rs\<rparr>"
  by (induction rs arbitrary: c) (auto simp: count_attempt_def in_state_def split: pkg_state.splits)

lemma in_state_0: "in_state st rs = 0 \<longleftrightarrow> (\<forall>r \<in> set rs. rs_state r \<noteq> st)"
  by (auto simp: in_state_def filter_empty_conv)

lemma recount_eq: "recount r = r \<longleftrightarrow> rp_counts r = \<lparr>ct_published = in_state Published (rp_packages r),
     ct_present = in_state Present (rp_packages r), ct_failed = in_state Failed (rp_packages r)\<rparr>"
proof
  assume "recount r = r"
  then show "rp_counts r = \<lparr>ct_published = in_state Published (rp_packages r),
     ct_present = in_state Present (rp_packages r), ct_failed = in_state Failed (rp_packages r)\<rparr>"
    by (metis recount_counts)
next
  assume "rp_counts r = \<lparr>ct_published = in_state Published (rp_packages r),
     ct_present = in_state Present (rp_packages r), ct_failed = in_state Failed (rp_packages r)\<rparr>"
  then show "recount r = r" by (simp add: recount_def count_results zero_counts_def)
qed

lemma good_report_iff: "good_report r \<longleftrightarrow> (\<forall>p \<in> set (rp_packages r). rs_state p \<noteq> Pending)
    \<and> rp_counts r = \<lparr>ct_published = in_state Published (rp_packages r),
     ct_present = in_state Present (rp_packages r), ct_failed = in_state Failed (rp_packages r)\<rparr>"
  by (simp add: good_report_def recount_eq)

text \<open>A report without packages, or with every package failed, or counted after publishing.\<close>

definition true_report :: "report \<Rightarrow> bool" where
  "true_report r \<longleftrightarrow> good_report r \<and> (rp_checked r = Some True \<or> rp_checked r = Some False)
     \<and> (rp_outcome r = outcome_complete \<longleftrightarrow>
          rp_checked r = Some True \<and> (\<forall>p \<in> set (rp_packages r). rs_state p = Published \<or> rs_state p = Present))
     \<and> (rp_outcome r = outcome_complete \<or> rp_outcome r = outcome_incomplete \<or> rp_outcome r = outcome_refused)
     \<and> (rp_outcome r = outcome_refused \<longrightarrow> rp_packages r = [])"

lemma true_empty:
  "rp_packages r = [] \<Longrightarrow> rp_counts r = zero_counts \<Longrightarrow> rp_checked r = Some False \<Longrightarrow>
   rp_outcome r = outcome_incomplete \<or> rp_outcome r = outcome_refused \<Longrightarrow> true_report r"
  by (auto simp: true_report_def good_report_iff in_state_def zero_counts_def)

lemma true_fail_all:
  assumes "rp_checked rep = Some False" "rp_counts rep = zero_counts" "fail_all k reason lst rep = (rep', evs)"
  shows "true_report rep'"
proof -
  have s: "rs_state (failed_listed k reason r) = Failed" for r by (simp add: failed_listed_def)
  then have "in_state st (map (failed_listed k reason) lst) = (if st = Failed then length lst else 0)" for st
    by (induction lst) (auto simp: in_state_def)
  then show ?thesis using assms s by (auto simp: fail_all_def Let_def true_report_def good_report_iff zero_counts_def)
qed

lemma true_checked:
  assumes "rp_counts rep = zero_counts" "\<forall>r \<in> set rs. rs_state r \<noteq> Pending"
  shows "true_report (checked_report rep rs)"
proof -
  have "in_state Pending rs = 0" using assms(2) by (simp add: in_state_0)
  then have c: "foldl count_attempt (rp_counts rep) rs = \<lparr>ct_published = in_state Published rs,
     ct_present = in_state Present rs, ct_failed = in_state Failed rs\<rparr>"
    by (simp add: count_attempts assms(1) zero_counts_def)
  have f: "in_state Failed rs = 0 \<longleftrightarrow> (\<forall>r \<in> set rs. rs_state r = Published \<or> rs_state r = Present)"
    unfolding in_state_0 using assms(2) by (metis pkg_state.exhaust pkg_state.distinct(3) pkg_state.distinct(7))
  show ?thesis using assms(2) f
    by (auto simp: true_report_def good_report_iff checked_report_def Let_def c)
qed

lemma finish_result_simps [simp]:
  "rs_name (finish_result ru pkg r) = rs_name r" "rs_version (finish_result ru pkg r) = rs_version r"
  "rs_file (finish_result ru pkg r) = rs_file r" "rs_state (finish_result ru pkg r) = rs_state r"
  "rs_kind (finish_result ru pkg r) = rs_kind r"
  by (simp_all add: finish_result_def Let_def)

text \<open>One result per checked package, in order, none pending.\<close>

lemma publish_checked_results:
  assumes "publish_checked v a (publish_each env p) pkgs s = (rs, evs, s')"
  shows "length rs = length pkgs \<and> (\<forall>k < length pkgs. rs_name (rs ! k) = pp_name (pkgs ! k)
    \<and> rs_version (rs ! k) = pp_version (pkgs ! k) \<and> rs_file (rs ! k) = pp_file (pkgs ! k) \<and> rs_state (rs ! k) \<noteq> Pending)"
proof (cases "ai_publisher a = None \<and> ai_mkdir a = None")
  case False
  then have "\<exists>why. rs = map (\<lambda>p. failed p Kind_Local why) pkgs"
    using assms by (auto simp: publish_checked_def Let_def split: option.splits prod.splits)
  then show ?thesis by auto
next
  case True
  obtain qs s2 where q: "publish_each env p pkgs s = (qs, s2)" by fastforce
  then have "rs = map2 (finish_result (av_runes v)) pkgs qs"
    using assms True by (auto simp: publish_checked_def Let_def)
  then show ?thesis using publish_each_results [OF q] by auto
qed

lemma first_report_simps [simp]:
  "rp_packages (first_report a) = []" "rp_counts (first_report a) = zero_counts" "rp_checked (first_report a) = Some False"
  "rp_outcome (first_report a) = outcome_refused"
  by (simp_all add: first_report_def zero_report_def)

lemma verify_attempt_Inr:
  assumes "verify_attempt v a m fs = (Inr cs, fs')"
  shows "list_all2 (verified_copy (av_verify v) fs fs') (am_packages m) cs"
proof -
  obtain opts err dat where "verify (av_verify v) m opts err dat fs = (Inr cs, fs')"
    using assms by (auto simp: verify_attempt_def Let_def split: sum.splits prod.splits archive_error.splits)
  from verify_Inr [OF this] show ?thesis by blast
qed

lemma verified_ids:
  "list_all2 (verified_copy env fs fs') ps cs \<Longrightarrow>
   map (\<lambda>c. (pp_name (pub_of_checked c), pp_version (pub_of_checked c), pp_file (pub_of_checked c))) cs
     = map (\<lambda>p. (pk_name p, pk_version p, pk_file p)) ps"
  by (induction rule: list_all2_induct) (auto simp: verified_copy_def pub_of_checked_def)

definition names_of_manifest :: "archive_manifest \<Rightarrow> report \<Rightarrow> bool" where
  "names_of_manifest m rep \<longleftrightarrow> map (\<lambda>r. (rs_name r, rs_version r, rs_file r)) (rp_packages rep)
     = map (\<lambda>p. (pk_name p, pk_version p, pk_file p)) (am_packages m)"

lemma checked_report_true:
  assumes pub: "publish_checked v a (publish_each env p) (map pub_of_checked cs) s = (rs, evs, s')"
    and vc: "list_all2 (verified_copy (av_verify v) fs fs') (am_packages m) cs" and c: "rp_counts rep = zero_counts"
  shows "true_report (checked_report rep rs) \<and> names_of_manifest m (checked_report rep rs)"
proof -
  note res = publish_checked_results [OF pub]
  then have "\<forall>r \<in> set rs. rs_state r \<noteq> Pending" by (metis in_set_conv_nth)
  then have "true_report (checked_report rep rs)" using true_checked c by blast
  moreover have "map (\<lambda>r. (rs_name r, rs_version r, rs_file r)) rs
      = map (\<lambda>c. (pp_name (pub_of_checked c), pp_version (pub_of_checked c), pp_file (pub_of_checked c))) cs"
    using res by (intro nth_equalityI) auto
  ultimately show ?thesis
    using verified_ids [OF vc] by (simp add: names_of_manifest_def checked_report_def Let_def)
qed

text \<open>A run is a refusal, an end before the checks, a failure of all packages, or a publication.\<close>

lemma run_attempt_cases:
  assumes "run_attempt v a publish_all fs s = (rep, evs, fs', s')"
  obtains (stopped) "rp_packages rep = []" "rp_counts rep = zero_counts" "rp_checked rep = Some False"
      "rp_outcome rep = outcome_incomplete \<or> rp_outcome rep = outcome_refused"
  | (all_failed) m rep0 k why es where "read_manifest v a = Inr m" "rp_checked rep0 = Some False" "rp_counts rep0 = zero_counts"
      "fail_all k why (map pending_result (am_packages m)) rep0 = (rep, es)"
  | (published) m cs rep0 rs es where "read_manifest v a = Inr m" "verify_attempt v a m fs = (Inr cs, fs')"
      "rp_counts rep0 = zero_counts" "publish_checked v a publish_all (map pub_of_checked cs) s = (rs, es, s')"
      "rep = checked_report rep0 rs"
proof (cases "read_manifest v a")
  case (Inl e)
  then show thesis using assms
    by (intro stopped) (auto simp: run_attempt_def Let_def stop_report_def split: source_error.splits)
next
  case m: (Inr m)
  obtain r f where v: "verify_attempt v a m fs = (r, f)" by fastforce
  show thesis
  proof (cases r)
    case (Inr cs)
    obtain rs es s2 where p: "publish_checked v a publish_all (map pub_of_checked cs) s = (rs, es, s2)" by (metis prod_cases3)
    then have "s2 = s'" using assms m v Inr by (simp add: run_attempt_def Let_def)
    then show thesis using assms m v Inr p by (intro published [OF m]) (auto simp: run_attempt_def Let_def)
  next
    case (Inl e)
    consider "e = Src_Interrupted" | why where "e = Src_Refusal why" | why where "e = Src_Failed why" | why where "e = Src_Local why"
      by (cases e) auto
    then show thesis
    proof cases
      case 1
      then show thesis using assms m v Inl by (auto simp: run_attempt_def Let_def split: prod.splits intro!: all_failed [OF m])
    next
      case 3
      then show thesis using assms m v Inl by (auto simp: run_attempt_def Let_def split: prod.splits intro!: all_failed [OF m])
    qed (use assms m v Inl in \<open>auto simp: run_attempt_def Let_def intro!: stopped\<close>)
  qed
qed

lemma run_attempt_true:
  assumes "run_attempt v a (publish_each env p) fs s = (rep, evs, fs', s')"
  shows "true_report rep \<and> (rp_outcome rep = outcome_complete \<longrightarrow> (\<exists>m cs. read_manifest v a = Inr m
    \<and> verify_attempt v a m fs = (Inr cs, fs') \<and> list_all2 (verified_copy (av_verify v) fs fs') (am_packages m) cs
    \<and> names_of_manifest m rep))"
  using assms
proof (cases rule: run_attempt_cases)
  case stopped
  then show ?thesis using true_empty by auto
next
  case (all_failed m rep0 k why es)
  then have "true_report rep" using true_fail_all by blast
  moreover have "rp_outcome rep \<noteq> outcome_complete" using all_failed(4) by (auto simp: fail_all_def Let_def)
  ultimately show ?thesis by blast
next
  case (published m cs rep0 rs es)
  note vc = verify_attempt_Inr [OF published(2)]
  show ?thesis using checked_report_true [OF published(4) vc published(3)] published vc by blast
qed

text \<open>C30. The report of an attempt is true. Its counts are those of its packages and none is pending; it
  says complete exactly when the archive passed its checks and every package is published or
  present, refused only when nothing was handled; and a complete report lists exactly the manifest's
  packages, in order, each from a copy that passed the checks of the archive.\<close>

theorem attempt_report_true:
  assumes "run_attempt v a (publish_each env p) fs s = (rep, evs, fs', s')"
  shows "true_report rep \<and> (rp_outcome rep = outcome_complete \<longrightarrow> (\<exists>m cs. read_manifest v a = Inr m
    \<and> verify_attempt v a m fs = (Inr cs, fs') \<and> list_all2 (verified_copy (av_verify v) fs fs') (am_packages m) cs
    \<and> names_of_manifest m rep))"
  using assms by (rule run_attempt_true)

definition sample_attempt :: attempt_input where
  "sample_attempt = \<lparr>ai_url = ''https://nexus'', ai_http = False, ai_repository = ''npm'', ai_key = ''k'',
     ai_source = ''packages_npm.tar.gz'', ai_manifest = Inl (Src_Failed ''minio did not answer''),
     ai_archive = Inl (Src_Failed ''minio did not answer''), ai_expected = '''', ai_version = ''1'', ai_absolute = True,
     ai_plain_store = False, ai_publisher = None, ai_mkdir = None\<rparr>"

definition sample_attempt_env :: attempt_env where
  "sample_attempt_env = \<lparr>av_verify = sample_env, av_decode = (\<lambda>_. Inl ''not JSON''), av_runes = pe_runes sample_publish_env\<rparr>"

theorem attempt_report_true_witness:
  "\<exists>rep evs. run_attempt sample_attempt_env sample_attempt (publish_each sample_publish_env (honest_nexus sample_publish_env))
      Map.empty Map.empty = (rep, evs, Map.empty, Map.empty) \<and> true_report rep \<and> rp_outcome rep = outcome_incomplete"
proof -
  have r: "run_attempt sample_attempt_env sample_attempt (publish_each sample_publish_env (honest_nexus sample_publish_env))
      Map.empty Map.empty = (stop_report (av_runes sample_attempt_env) (Src_Failed ''minio did not answer'')
        (first_report sample_attempt), [], Map.empty, Map.empty)"
    by (simp add: run_attempt_def read_manifest_def sample_attempt_def Let_def)
  show ?thesis using attempt_report_true [OF r] r by (simp add: stop_report_def)
qed

end
