(* ===== verification/Service_Archives.thy ===== *)
theory Service_Archives
  imports Importer_Attempt
begin

text \<open>
  \<^verbatim>\<open>internal/importer/service/archives.go\<close>: which object keys may be imported, how a listing of a
  user's folder becomes the list of archives, and the list the user gets.
\<close>

subsection \<open>Keys\<close>

definition folder_prefix :: string where "folder_prefix = ''packages/npm/''"
definition archive_suffix :: string where "archive_suffix = ''.tar.gz''"
definition manifest_name :: string where "manifest_name = ''manifest.json''"
definition max_key_bytes :: nat where "max_key_bytes = 1024"
definition max_text_chars :: nat where "max_text_chars = 300"
definition max_folder_depth :: nat where "max_folder_depth = 1"

definition bucket_of :: "string \<Rightarrow> string" where
  "bucket_of user = ''user-'' @ user"

definition service_text :: "rune_api \<Rightarrow> string \<Rightarrow> string" where
  "service_text ru s = ru_text ru (take max_text_chars (filter (\<lambda>r. \<not> is_control r) (ru_valid ru s)))"

text \<open>\<^verbatim>\<open>url.PathUnescape\<close>: None when an escape is not two hex digits.\<close>

definition hex_any :: "char \<Rightarrow> nat option" where
  "hex_any c = (if is_digit c then Some (of_char c - 48)
     else if 97 \<le> (of_char c :: nat) \<and> (of_char c :: nat) \<le> 102 then Some (of_char c - 87)
     else if 65 \<le> (of_char c :: nat) \<and> (of_char c :: nat) \<le> 70 then Some (of_char c - 55) else None)"

fun path_unescape :: "string \<Rightarrow> string option" where
  "path_unescape [] = Some []"
| "path_unescape (c # cs) =
     (if c = CHR ''%'' then
        (case cs of x # y # rest \<Rightarrow>
           (case (hex_any x, hex_any y) of
              (Some h, Some l) \<Rightarrow> map_option (\<lambda>r. char_of (16 * h + l) # r) (path_unescape rest)
            | _ \<Rightarrow> None)
         | _ \<Rightarrow> None)
      else map_option (\<lambda>r. c # r) (path_unescape cs))"

definition check_segments :: "string \<Rightarrow> string + unit" where
  "check_segments key = (let segs = split_char CHR ''/'' (trim_prefix folder_prefix key) in
     if list_ex (\<lambda>s. s = '''' \<or> s = ''.'' \<or> s = ''..'') segs
     then Inl ''the key holds an empty, . or .. segment''
     else if max_folder_depth + 1 < length segs
     then Inl ''the key may sit at most one folder below packages/npm/''
     else Inr ())"

definition archive_key :: "rune_api \<Rightarrow> string \<Rightarrow> string + unit" where
  "archive_key ru key =
     (if max_key_bytes < length key then Inl ''the key is over 1024 bytes''
      else if \<not> ru_utf8 ru key then Inl ''the key is not valid UTF-8''
      else if list_ex is_control (ru_runes ru key) then Inl ''the key holds a control character''
      else if \<not> has_prefix folder_prefix key then Inl ''the key must start with packages/npm/''
      else if \<not> has_suffix archive_suffix key then Inl ''the key must end with .tar.gz''
      else try_bind (check_segments key) (\<lambda>_.
        case path_unescape key of
          None \<Rightarrow> Inr ()
        | Some decoded \<Rightarrow>
            if decoded = key then Inr ()
            else if \<not> has_prefix folder_prefix decoded then Inl ''the key must start with packages/npm/ once decoded''
            else check_segments decoded))"

subsection \<open>A listing\<close>

record s3_object =
  so_key :: string
  so_etag :: string
  so_size :: int
  so_modified :: time

record archive_item =
  ae_key :: string
  ae_size :: int
  ae_modified :: time
  ae_reason :: "string option"
  ae_latest :: "(string \<times> string) option"

definition importable :: "archive_item \<Rightarrow> bool" where
  "importable a \<longleftrightarrow> ae_reason a = None"

definition reason_name :: string where "reason_name = ''its name cannot be imported''"
definition reason_several :: string where "reason_several = ''the folder holds more than one archive''"
definition reason_no_manifest :: string where "reason_no_manifest = ''no manifest.json in its folder''"

text \<open>The folder, the file name, and whether the object is at most one folder down.\<close>

definition folder_of :: "string \<Rightarrow> string \<times> string \<times> bool" where
  "folder_of key = (let rel = trim_prefix folder_prefix key;
       (dir, name) = (case split_last CHR ''/'' rel of Some (d, n) \<Rightarrow> (d, n) | None \<Rightarrow> ('''', rel)) in
     (dir, name, length (filter (\<lambda>seg. seg \<noteq> '''') (split_char CHR ''/'' dir)) \<le> max_folder_depth))"

record folder_group =
  fg_archives :: "s3_object list"
  fg_manifest :: bool

definition group_at :: "(string, folder_group) gomap \<Rightarrow> string \<Rightarrow> folder_group" where
  "group_at fs dir = (case gm_get fs dir of None \<Rightarrow> \<lparr>fg_archives = [], fg_manifest = False\<rparr> | Some f \<Rightarrow> f)"

definition group_step :: "(string, folder_group) gomap \<Rightarrow> s3_object \<Rightarrow> (string, folder_group) gomap" where
  "group_step fs o1 = (case folder_of (so_key o1) of (dir, name, ok) \<Rightarrow>
     if \<not> ok \<or> \<not> has_prefix folder_prefix (so_key o1) then fs
     else if name = manifest_name then gm_put dir ((group_at fs dir)\<lparr>fg_manifest := True\<rparr>) fs
     else if has_suffix archive_suffix name
     then gm_put dir ((group_at fs dir)\<lparr>fg_archives := fg_archives (group_at fs dir) @ [o1]\<rparr>) fs
     else fs)"

definition item_of :: "rune_api \<Rightarrow> folder_group \<Rightarrow> s3_object \<Rightarrow> archive_item" where
  "item_of ru f o1 =
     (let bad = isl (archive_key ru (so_key o1)) in
      \<lparr>ae_key = (if bad then service_text ru (so_key o1) else so_key o1), ae_size = so_size o1, ae_modified = so_modified o1,
       ae_reason = (if bad then Some reason_name
         else if 1 < length (fg_archives f) then Some reason_several
         else if \<not> fg_manifest f then Some reason_no_manifest else None),
       ae_latest = None\<rparr>)"

text \<open>The map of folders is visited in any order; the result is sorted by key.\<close>

definition pair_archives :: "rune_api \<Rightarrow> s3_object list \<Rightarrow> archive_item list" where
  "pair_archives ru objs = (let fs = foldl group_step [] objs in
     sort_func (\<lambda>a b. go_compare (ae_key a) (ae_key b))
       (concat (map (\<lambda>(dir, f). map (item_of ru f) (fg_archives f)) fs)))"

subsection \<open>The answer\<close>

datatype minio_error = No_Bucket string | No_Such_Key | Object_Changed | Minio_Answer string | Timed_Out string | Was_Cancelled string
  | Not_Reached string

fun minio_message :: "minio_error \<Rightarrow> string" where
  "minio_message (No_Bucket e) = e"
| "minio_message No_Such_Key = ''s3: no such key''"
| "minio_message Object_Changed = ''s3: the object changed''"
| "minio_message (Minio_Answer e) = e"
| "minio_message (Timed_Out e) = e"
| "minio_message (Was_Cancelled e) = e"
| "minio_message (Not_Reached e) = e"

record archive_list =
  al_configured :: bool
  al_bucket :: string
  al_folder :: string
  al_plain :: "string list"
  al_missing :: bool
  al_message :: "string option"
  al_truncated :: bool
  al_archives :: "archive_item list"

text \<open>The newest import of the objects now in MinIO: the imports come newest first, and the map is filled
  from the oldest, so the newest stays.\<close>

definition latest_of :: "import_record list \<Rightarrow> string \<Rightarrow> string \<Rightarrow> string \<Rightarrow> (string \<times> string) option" where
  "latest_of imps archive_etag manifest_etag key =
     gm_get (foldl (\<lambda>m imp. gm_put (ob_etag (im_archive imp), ob_etag (im_manifest imp), ob_key (im_archive imp))
                                  (im_id imp, import_outcome imp) m) [] (rev imps))
            (archive_etag, manifest_etag, key)"

text \<open>\<^verbatim>\<open>path.Dir\<close> of a key that holds a slash.\<close>

definition dir_of :: "string \<Rightarrow> string" where
  "dir_of key = (case split_last CHR ''/'' key of Some (d, n) \<Rightarrow> d | None \<Rightarrow> ''.'')"

definition etag_in :: "s3_object list \<Rightarrow> string \<Rightarrow> string" where
  "etag_in objs key = (case gm_get (foldl (\<lambda>m o1. gm_put (so_key o1) (so_etag o1) m) [] objs) key of
     None \<Rightarrow> '''' | Some e \<Rightarrow> e)"

definition add_latest :: "import_record list \<Rightarrow> s3_object list \<Rightarrow> archive_item \<Rightarrow> archive_item" where
  "add_latest imps objs a = (case latest_of imps (etag_in objs (ae_key a))
        (etag_in objs (dir_of (ae_key a) @ ''/'' @ manifest_name)) (ae_key a) of
     None \<Rightarrow> a | Some li \<Rightarrow> a\<lparr>ae_latest := Some li\<rparr>)"

text \<open>\<open>listing\<close> is None without MinIO; \<open>imps\<close> is None when the store cannot be read.\<close>

definition list_archives :: "rune_api \<Rightarrow> string list \<Rightarrow> string \<Rightarrow> (minio_error + s3_object list \<times> bool) option
    \<Rightarrow> import_record list option \<Rightarrow> string + archive_list" where
  "list_archives ru links user listing imps =
     (let out = \<lparr>al_configured = listing \<noteq> None, al_bucket = bucket_of user, al_folder = folder_prefix, al_plain = links,
                 al_missing = False, al_message = None, al_truncated = False, al_archives = []\<rparr> in
      case listing of None \<Rightarrow> Inr out
      | Some (Inl (No_Bucket e)) \<Rightarrow>
          Inr (out\<lparr>al_missing := True, al_message := Some (''MinIO has no bucket '' @ bucket_of user @ '' yet: nothing to list'')\<rparr>)
      | Some (Inl e) \<Rightarrow> Inl (service_text ru (''MinIO could not list the archives: '' @ minio_message e))
      | Some (Inr (objs, truncated)) \<Rightarrow>
          let items = pair_archives ru objs in
          Inr (out\<lparr>al_truncated := truncated, al_archives := (case imps of None \<Rightarrow> items
            | Some is \<Rightarrow> map (add_latest is objs) items)\<rparr>))"

subsection \<open>What a key may be\<close>

definition plain_segments :: "string \<Rightarrow> bool" where
  "plain_segments rel \<longleftrightarrow> length (split_char CHR ''/'' rel) \<le> 2
     \<and> (\<forall>seg \<in> set (split_char CHR ''/'' rel). seg \<noteq> '''' \<and> seg \<noteq> ''.'' \<and> seg \<noteq> ''..'')"

lemma check_segments_Inr: "check_segments (folder_prefix @ rel) = Inr u \<longleftrightarrow> plain_segments rel"
  by (auto simp: check_segments_def plain_segments_def Let_def list_ex_iff max_folder_depth_def)

text \<open>C5. A key the service takes lies in the user's own folder: it is \<^verbatim>\<open>packages/npm/\<close> and at most one
  folder and a file name, ends in \<^verbatim>\<open>.tar.gz\<close>, has at most 1,024 bytes and no empty, dot or dot-dot
  segment, and the same holds of what a proxy sees that decodes its escapes once more.\<close>

theorem archive_key_safe:
  assumes "archive_key ru key = Inr u"
  shows "\<exists>rel. key = folder_prefix @ rel \<and> plain_segments rel \<and> has_suffix archive_suffix key \<and> length key \<le> max_key_bytes
    \<and> (\<forall>decoded. path_unescape key = Some decoded \<longrightarrow> (\<exists>rel'. decoded = folder_prefix @ rel' \<and> plain_segments rel'))"
proof -
  have c: "check_segments key = Inr ()" and p: "has_prefix folder_prefix key" and s: "has_suffix archive_suffix key"
    and l: "length key \<le> max_key_bytes"
    using assms by (auto simp: archive_key_def try_bind_Inr split: if_splits)
  obtain rel where rel: "key = folder_prefix @ rel" using p by (auto simp: has_prefix_iff)
  then have plain: "plain_segments rel" using c check_segments_Inr by blast
  have "\<exists>rel'. decoded = folder_prefix @ rel' \<and> plain_segments rel'" if d: "path_unescape key = Some decoded" for decoded
  proof (cases "decoded = key")
    case True
    then show ?thesis using rel plain by blast
  next
    case False
    then have "has_prefix folder_prefix decoded" "check_segments decoded = Inr ()"
      using assms c p s l d by (auto simp: archive_key_def split: if_splits)
    then show ?thesis using check_segments_Inr by (auto simp: has_prefix_iff)
  qed
  then show ?thesis using rel plain s l by blast
qed

theorem archive_key_safe_witness:
  "plain_segments ''team/a.tar.gz''"
proof -
  have "archive_key (pe_runes sample_publish_env) ''packages/npm/team/a.tar.gz'' = Inr ()"
    unfolding sample_publish_env_def by code_simp
  from archive_key_safe [OF this] show ?thesis by (auto simp: folder_prefix_def)
qed

subsection \<open>What a listing becomes\<close>

definition in_folder :: "string \<Rightarrow> s3_object \<Rightarrow> bool" where
  "in_folder dir o1 \<longleftrightarrow> has_prefix folder_prefix (so_key o1) \<and> fst (folder_of (so_key o1)) = dir \<and> snd (snd (folder_of (so_key o1)))"

definition is_manifest_object :: "string \<Rightarrow> s3_object \<Rightarrow> bool" where
  "is_manifest_object dir o1 \<longleftrightarrow> in_folder dir o1 \<and> fst (snd (folder_of (so_key o1))) = manifest_name"

definition is_archive_object :: "string \<Rightarrow> s3_object \<Rightarrow> bool" where
  "is_archive_object dir o1 \<longleftrightarrow> in_folder dir o1 \<and> has_suffix archive_suffix (fst (snd (folder_of (so_key o1))))"

lemma manifest_no_archive: "\<not> has_suffix archive_suffix manifest_name"
  by code_simp

lemma group_at_put [simp]: "group_at (gm_put d f fs) dir = (if dir = d then f else group_at fs dir)"
  by (simp add: group_at_def)

lemma group_step_at: "group_at (group_step fs o1) dir =
    \<lparr>fg_archives = fg_archives (group_at fs dir) @ (if is_archive_object dir o1 then [o1] else []),
     fg_manifest = fg_manifest (group_at fs dir) \<or> is_manifest_object dir o1\<rparr>"
  using manifest_no_archive
  by (auto simp: group_step_def is_archive_object_def is_manifest_object_def in_folder_def split: prod.splits)

lemma group_fold_at: "group_at (foldl group_step fs objs) dir =
    \<lparr>fg_archives = fg_archives (group_at fs dir) @ filter (is_archive_object dir) objs,
     fg_manifest = fg_manifest (group_at fs dir) \<or> list_ex (is_manifest_object dir) objs\<rparr>"
  by (induction objs arbitrary: fs) (auto simp: group_step_at)

lemma group_ok: "gm_ok fs \<Longrightarrow> gm_ok (foldl group_step fs objs)"
  by (induction objs arbitrary: fs) (auto simp: group_step_def split: prod.splits)

lemma group_absent: "gm_get fs dir = None \<Longrightarrow> fg_archives (group_at fs dir) = []"
  by (simp add: group_at_def)

lemma pair_set: "a \<in> set (pair_archives ru objs) \<longleftrightarrow> (\<exists>dir o1. o1 \<in> set objs \<and> is_archive_object dir o1
    \<and> a = item_of ru \<lparr>fg_archives = filter (is_archive_object dir) objs, fg_manifest = list_ex (is_manifest_object dir) objs\<rparr> o1)"
proof -
  let ?fs = "foldl group_step [] objs"
  have ok: "gm_ok ?fs" by (rule group_ok) simp
  have at: "group_at ?fs dir = \<lparr>fg_archives = filter (is_archive_object dir) objs, fg_manifest = list_ex (is_manifest_object dir) objs\<rparr>" for dir
    by (simp add: group_fold_at) (simp add: group_at_def)
  have "a \<in> set (pair_archives ru objs) \<longleftrightarrow> (\<exists>dir f o1. gm_get ?fs dir = Some f \<and> o1 \<in> set (fg_archives f) \<and> a = item_of ru f o1)"
    using ok by (auto simp: pair_archives_def Let_def gm_get_Some_iff image_iff)
  also have "\<dots> \<longleftrightarrow> (\<exists>dir o1. o1 \<in> set (fg_archives (group_at ?fs dir)) \<and> a = item_of ru (group_at ?fs dir) o1)"
  proof -
    have "gm_get ?fs dir = Some f \<Longrightarrow> group_at ?fs dir = f" for dir f by (simp add: group_at_def)
    then show ?thesis using group_absent [of ?fs] by (metis empty_iff empty_set not_None_eq)
  qed
  finally show ?thesis unfolding at by auto
qed

text \<open>An archive is offered for import exactly when its key may be imported, it is the only archive of
  its folder, and the folder holds a \<^verbatim>\<open>manifest.json\<close>; the order in which MinIO lists the objects
  does not matter.\<close>

theorem pair_importable:
  "(\<exists>a \<in> set (pair_archives ru objs). importable a \<and> ae_key a = key) \<longleftrightarrow>
     (let dir = fst (folder_of key) in \<not> isl (archive_key ru key)
       \<and> (\<exists>o1. filter (is_archive_object dir) objs = [o1] \<and> so_key o1 = key) \<and> list_ex (is_manifest_object dir) objs)"
    (is "?l \<longleftrightarrow> ?r")
proof
  assume ?l
  then obtain dir o1 where o1: "o1 \<in> set objs" "is_archive_object dir o1" and k: "\<not> isl (archive_key ru key)" "so_key o1 = key"
    and one: "length (filter (is_archive_object dir) objs) \<le> 1" and m: "list_ex (is_manifest_object dir) objs"
    by (auto simp: pair_set importable_def item_of_def Let_def split: if_splits)
  have "dir = fst (folder_of key)" using o1(2) k(2) by (auto simp: is_archive_object_def in_folder_def)
  moreover have "o1 \<in> set (filter (is_archive_object dir) objs)" using o1 by simp
  then have "filter (is_archive_object dir) objs = [o1]"
    using one by (cases "filter (is_archive_object dir) objs") auto
  ultimately show ?r using k m by (auto simp: Let_def)
next
  assume r: ?r
  define dir where "dir = fst (folder_of key)"
  from r obtain o1 where o1: "filter (is_archive_object dir) objs = [o1]" "so_key o1 = key"
    and k: "\<not> isl (archive_key ru key)" and m: "list_ex (is_manifest_object dir) objs"
    by (auto simp: dir_def Let_def)
  have "o1 \<in> set (filter (is_archive_object dir) objs)" by (simp add: o1)
  then have "o1 \<in> set objs" "is_archive_object dir o1" by auto
  then have "item_of ru \<lparr>fg_archives = [o1], fg_manifest = True\<rparr> o1 \<in> set (pair_archives ru objs)"
    unfolding pair_set using o1(1) m by (intro exI [of _ dir] exI [of _ o1]) simp
  then show ?l using o1 k by (intro bexI) (auto simp: importable_def item_of_def Let_def)
qed

end
