(* ===== verification/Service_Imports.thy ===== *)
theory Service_Imports
  imports Service_Archives
begin

text \<open>
  \<^verbatim>\<open>internal/importer/service/{imports,source,removal}.go\<close>: starting and retrying an import, running
  its attempt against the objects of MinIO, and removing them afterwards. MinIO is the record
  \<open>objects\<close> over a state of its own; the lock that covers the duplicate check makes each handler one
  step.
\<close>

subsection \<open>MinIO\<close>

datatype body_end = Got_End | Ctx_Ended | Idle_Cut | Body_Error string

record head_info =
  hi_etag :: string
  hi_size :: int

record body =
  bd_head :: head_info
  bd_bytes :: bytes
  bd_end :: body_end

record 'o objects =
  oj_list :: "string \<Rightarrow> string \<Rightarrow> nat \<Rightarrow> 'o \<Rightarrow> (minio_error + s3_object list \<times> bool) \<times> 'o"
  oj_head :: "string \<Rightarrow> string \<Rightarrow> 'o \<Rightarrow> (minio_error + head_info) \<times> 'o"
  oj_get :: "string \<Rightarrow> string \<Rightarrow> string \<Rightarrow> 'o \<Rightarrow> (minio_error + body) \<times> 'o"
  oj_delete :: "string \<Rightarrow> string \<Rightarrow> 'o \<Rightarrow> minio_error option \<times> 'o"

definition max_etag_bytes :: nat where "max_etag_bytes = 200"
definition max_listed :: nat where "max_listed = 1000"

definition valid_etag :: "string \<Rightarrow> bool" where
  "valid_etag etag \<longleftrightarrow> etag \<noteq> '''' \<and> length etag \<le> max_etag_bytes
     \<and> list_all (\<lambda>c. 32 \<le> (of_char c :: nat) \<and> (of_char c :: nat) \<le> 126) etag"

definition hex_sha256_any :: "string \<Rightarrow> bool" where
  "hex_sha256_any s \<longleftrightarrow> length s = 64 \<and> list_all (\<lambda>c. hex_any c \<noteq> None) s"

subsection \<open>Answers\<close>

record problem =
  pr_status :: nat
  pr_title :: string
  pr_detail :: string

datatype answer = Problem problem | Conflict string "string option" | Accepted import_record | Internal store_error

definition not_found :: problem where
  "not_found = \<lparr>pr_status = 404, pr_title = ''Not found'', pr_detail = ''no such archive in your folder''\<rparr>"

definition no_import :: problem where
  "no_import = \<lparr>pr_status = 404, pr_title = ''Not found'', pr_detail = ''no such import''\<rparr>"

definition bad_request :: "string \<Rightarrow> problem" where
  "bad_request detail = \<lparr>pr_status = 400, pr_title = ''Bad request'', pr_detail = detail\<rparr>"

definition minio_problem :: "rune_api \<Rightarrow> string \<Rightarrow> string \<Rightarrow> problem" where
  "minio_problem ru what e = \<lparr>pr_status = 502, pr_title = ''MinIO failed'',
     pr_detail = service_text ru (''MinIO could not '' @ what @ '': '' @ e)\<rparr>"

definition stopping_problem :: problem where
  "stopping_problem = \<lparr>pr_status = 503, pr_title = ''Service stopping'',
     pr_detail = ''the service is stopping and takes no new work''\<rparr>"

definition no_minio :: string where
  "no_minio = ''MinIO is not configured: the settings file has no minio section''"

subsection \<open>The check of an archive\<close>

text \<open>One of the two heads, with the object it records.\<close>

definition head_object :: "rune_api \<Rightarrow> 'o objects \<Rightarrow> string \<Rightarrow> string \<Rightarrow> 'o \<Rightarrow> (problem + object) \<times> 'o" where
  "head_object ru oj bucket key s = (case oj_head oj bucket key s of
     (Inl No_Such_Key, s') \<Rightarrow> (Inl not_found, s')
   | (Inl e, s') \<Rightarrow> (Inl (minio_problem ru ''read the archive's description'' (minio_message e)), s')
   | (Inr h, s') \<Rightarrow>
       if \<not> valid_etag (hi_etag h)
       then (Inl (minio_problem ru ''describe the archive'' ''it sent an ETag the service cannot use''), s')
       else (Inr \<lparr>ob_key = key, ob_etag = hi_etag h, ob_size = hi_size h\<rparr>, s'))"

definition check_archive :: "rune_api \<Rightarrow> 'o objects \<Rightarrow> string \<Rightarrow> string \<Rightarrow> 'o \<Rightarrow> (problem + object \<times> object) \<times> 'o" where
  "check_archive ru oj bucket key s = (let folder = dir_of key @ ''/'' in
     case oj_list oj bucket folder max_listed s of
       (Inl (No_Bucket e), s1) \<Rightarrow> (Inl not_found, s1)
     | (Inl e, s1) \<Rightarrow> (Inl (minio_problem ru ''list the archives'' (minio_message e)), s1)
     | (Inr (objs, truncated), s1) \<Rightarrow>
         (case find (\<lambda>a. ae_key a = key) (pair_archives ru objs) of
            None \<Rightarrow> (Inl not_found, s1)
          | Some a \<Rightarrow> (case ae_reason a of
              Some why \<Rightarrow> (Inl \<lparr>pr_status = 409, pr_title = ''Cannot start this import'', pr_detail = why\<rparr>, s1)
            | None \<Rightarrow> (case head_object ru oj bucket key s1 of
                (Inl p, s2) \<Rightarrow> (Inl p, s2)
              | (Inr arch, s2) \<Rightarrow> (case head_object ru oj bucket (folder @ manifest_name) s2 of
                  (Inl p, s3) \<Rightarrow> (Inl p, s3)
                | (Inr mani, s3) \<Rightarrow> (Inr (arch, mani), s3))))))"

subsection \<open>Starting an import\<close>

definition same_objects :: "object \<Rightarrow> object \<Rightarrow> import_record \<Rightarrow> bool" where
  "same_objects arch mani imp \<longleftrightarrow> ob_key (im_archive imp) = ob_key arch \<and> ob_etag (im_archive imp) = ob_etag arch
     \<and> ob_etag (im_manifest imp) = ob_etag mani"

definition finished_outcome :: "import_record \<Rightarrow> bool" where
  "finished_outcome imp \<longleftrightarrow> import_outcome imp = outcome_complete \<or> import_outcome imp = outcome_refused"

text \<open>What the surroundings answer: the directories of the user (or the error of reading them), the ids
  drawn, the faults of the store and the time.\<close>

record surroundings =
  su_dirs :: "string + string list"
  su_ids :: "string list"
  su_create :: store_faults
  su_abandon :: store_faults
  su_retry :: store_faults
  su_now :: time

definition stopping_reason :: string where
  "stopping_reason = ''the service was stopping and did not run this attempt''"

text \<open>The queue takes the attempt, or it is ended and the answer is 503.\<close>

definition submit_or_stop :: "surroundings \<Rightarrow> string \<Rightarrow> import_record \<Rightarrow> store \<Rightarrow> queue \<Rightarrow> answer \<times> store \<times> queue" where
  "submit_or_stop su user imp st q = (case submit q user (im_id imp) of
     (True, q') \<Rightarrow> (Accepted imp, st, q')
   | (False, q') \<Rightarrow> (Problem stopping_problem,
       snd (abandon (su_abandon su) st user (im_id imp) stopping_reason (su_now su)), q'))"

definition create_import :: "surroundings \<Rightarrow> string \<Rightarrow> object \<Rightarrow> object \<Rightarrow> string \<Rightarrow> store \<Rightarrow> queue \<Rightarrow> answer \<times> store \<times> queue" where
  "create_import su user arch mani expected st q = (case su_dirs su of
     Inl e \<Rightarrow> (Internal (Failure e), st, q)
   | Inr dirs \<Rightarrow> (case find (\<lambda>imp. same_objects arch mani imp \<and> \<not> finished_outcome imp) (list_imports st user dirs) of
       Some imp \<Rightarrow>
         (Conflict ''this archive already has an import that has not completed; read it or retry it'' (Some (im_id imp)), st, q)
     | None \<Rightarrow> (case create (su_create su) st user arch mani expected (su_now su) (su_ids su) of
         (Inl e, st') \<Rightarrow> (Internal e, st', q)
       | (Inr imp, st') \<Rightarrow> submit_or_stop su user imp st' q)))"

text \<open>\<open>req\<close> is the body, when there is one: the key and the expected sha256.\<close>

definition start_import :: "rune_api \<Rightarrow> 'o objects option \<Rightarrow> surroundings \<Rightarrow> string \<Rightarrow> (string \<times> string option) option
    \<Rightarrow> 'o \<Rightarrow> store \<Rightarrow> queue \<Rightarrow> answer \<times> 'o \<times> store \<times> queue" where
  "start_import ru oj su user req s st q = (case req of
     None \<Rightarrow> (Problem (bad_request ''the request needs an archive key''), s, st, q)
   | Some (key, expected) \<Rightarrow>
       let expected = (case expected of None \<Rightarrow> '''' | Some e \<Rightarrow> e) in
       if isl (archive_key ru key) then (Problem not_found, s, st, q)
       else if expected \<noteq> '''' \<and> \<not> hex_sha256_any expected
       then (Problem (bad_request ''expectedSha256 must be 64 hex digits''), s, st, q)
       else (case oj of None \<Rightarrow> (Conflict no_minio None, s, st, q)
         | Some oj \<Rightarrow> (case check_archive ru oj (bucket_of user) key s of
             (Inl p, s') \<Rightarrow> (if pr_status p = 409 then Conflict (pr_detail p) None else Problem p, s', st, q)
           | (Inr (arch, mani), s') \<Rightarrow>
               (case create_import su user arch mani (map lower_char expected) st q of
                  (a, st', q') \<Rightarrow> (a, s', st', q')))))"

subsection \<open>Retrying\<close>

definition busy_text :: string where "busy_text = ''an attempt of this import is queued or running''"

definition retry_import :: "rune_api \<Rightarrow> 'o objects option \<Rightarrow> surroundings \<Rightarrow> string \<Rightarrow> string
    \<Rightarrow> 'o \<Rightarrow> store \<Rightarrow> queue \<Rightarrow> answer \<times> 'o \<times> store \<times> queue" where
  "retry_import ru oj su user i s st q = (case get_import st user i of
     Inl Not_Found \<Rightarrow> (Problem no_import, s, st, q)
   | Inl e \<Rightarrow> (Internal e, s, st, q)
   | Inr imp \<Rightarrow> (case oj of None \<Rightarrow> (Conflict no_minio (Some (im_id imp)), s, st, q)
     | Some oj \<Rightarrow>
         if at_status (last (im_attempts imp)) \<noteq> Ended then (Conflict busy_text (Some (im_id imp)), s, st, q)
         else (case oj_head oj (bucket_of user) (ob_key (im_archive imp)) s of
           (Inl No_Such_Key, s') \<Rightarrow> (Conflict ''the archive is no longer in MinIO'' (Some (im_id imp)), s', st, q)
         | (Inl e, s') \<Rightarrow> (Problem (minio_problem ru ''check that the archive is still there'' (minio_message e)), s', st, q)
         | (Inr h, s') \<Rightarrow> (case retry (su_retry su) st user (im_id imp) (su_now su) of
             (Inl Busy, st') \<Rightarrow> (Conflict busy_text (Some (im_id imp)), s', st', q)
           | (Inl e, st') \<Rightarrow> (Internal e, s', st', q)
           | (Inr imp', st') \<Rightarrow> (case submit_or_stop su user imp' st' q of (a, st'', q') \<Rightarrow> (a, s', st'', q'))))))"

subsection \<open>Reading from MinIO\<close>

definition changed_text :: "string \<Rightarrow> string" where
  "changed_text what = what @ '' changed in MinIO; start a new import''"

definition source_prefix :: string where "source_prefix = ''the archive's source failed: ''"

text \<open>An interrupt stays recognisable, a changed object is a refusal, the rest a failure of the source.\<close>

definition source_error :: "string \<Rightarrow> minio_error \<Rightarrow> source_error" where
  "source_error what e = (case e of
     Object_Changed \<Rightarrow> Src_Refusal (changed_text what)
   | No_Such_Key \<Rightarrow> Src_Failed (source_prefix @ what @ '' is no longer in MinIO'')
   | Was_Cancelled m \<Rightarrow> Src_Interrupted
   | _ \<Rightarrow> Src_Failed (source_prefix @ minio_message e))"

text \<open>\<^verbatim>\<open>objectBody\<close>: how reading the object ends.\<close>

definition body_error :: "string \<Rightarrow> int \<Rightarrow> bytes \<Rightarrow> body_end \<Rightarrow> source_error option" where
  "body_error what len data fin = (case fin of
     Got_End \<Rightarrow> if int (length data) \<noteq> len
       then Some (Src_Failed (source_prefix @ what @ '' was cut short after '' @ show_nat (length data) @ '' of ''
         @ show_int len @ '' bytes'')) else None
   | Ctx_Ended \<Rightarrow> Some Src_Interrupted
   | Idle_Cut \<Rightarrow> Some (Src_Failed (source_prefix @ ''no data from MinIO for 1m0s while reading '' @ what))
   | Body_Error e \<Rightarrow> Some (Src_Failed (source_prefix @ ''reading '' @ what @ '': '' @ e)))"

definition open_object :: "'o objects \<Rightarrow> string \<Rightarrow> object \<Rightarrow> string \<Rightarrow> 'o \<Rightarrow> stream \<times> 'o" where
  "open_object oj bucket want what s = (case oj_get oj bucket (ob_key want) (ob_etag want) s of
     (Inl e, s') \<Rightarrow> (Inl (source_error what e), s')
   | (Inr b, s') \<Rightarrow>
       if hi_etag (bd_head b) \<noteq> ob_etag want then (Inl (Src_Refusal (changed_text what)), s')
       else (Inr (bd_bytes b, body_error what (hi_size (bd_head b)) (bd_bytes b) (bd_end b)), s'))"

subsection \<open>Running an attempt\<close>

text \<open>\<open>sv_base\<close> holds what the settings fix of an attempt.\<close>

record service =
  sv_links :: "string list"
  sv_version :: string
  sv_base :: attempt_input
  sv_env :: attempt_env

text \<open>\<^verbatim>\<open>path.Base\<close> of a key that ends in no slash.\<close>

definition base_of :: "string \<Rightarrow> string" where
  "base_of key = (case split_last CHR ''/'' key of Some (d, n) \<Rightarrow> n | None \<Rightarrow> key)"

definition attempt_of :: "service \<Rightarrow> import_record \<Rightarrow> attempt_input" where
  "attempt_of sv imp = (sv_base sv)\<lparr>ai_source := service_text (av_runes (sv_env sv)) (base_of (ob_key (im_archive imp))),
     ai_expected := im_expected imp, ai_version := sv_version sv, ai_plain_store := sv_links sv \<noteq> []\<rparr>"

definition stopped_report :: "service \<Rightarrow> import_record \<Rightarrow> string \<Rightarrow> string \<Rightarrow> report" where
  "stopped_report sv imp outcome reason = zero_report\<lparr>rp_outcome := outcome, rp_reason := reason,
     rp_unencrypted := sv_links sv \<noteq> [], rp_import_version := sv_version sv,
     rp_archive := \<lparr>ai_file = service_text (av_runes (sv_env sv)) (base_of (ob_key (im_archive imp))), ai_sha256 = '''', ai_size = 0\<rparr>,
     rp_nexus := \<lparr>ni_url = ai_url (sv_base sv), ni_repository = ai_repository (sv_base sv)\<rparr>, rp_checked := Some False\<rparr>"

text \<open>One turn of the loop of \<^verbatim>\<open>unchanged\<close>: the outcome and reason that stop the attempt, or None.\<close>

definition check_unchanged :: "service \<Rightarrow> 'o objects \<Rightarrow> string \<Rightarrow> string \<Rightarrow> object \<Rightarrow> 'o \<Rightarrow> (string \<times> string) option \<times> 'o" where
  "check_unchanged sv oj bucket what want s =
     (let ru = av_runes (sv_env sv); failed_with = (\<lambda>e. Some (outcome_incomplete,
            service_text ru (''could not check '' @ what @ '' in MinIO: '' @ e))) in
      case oj_head oj bucket (ob_key want) s of
        (Inr h, s') \<Rightarrow> (if hi_etag h = ob_etag want then None else Some (outcome_refused, changed_text what), s')
      | (Inl No_Such_Key, s') \<Rightarrow> (failed_with (what @ '' is no longer in MinIO''), s')
      | (Inl e, s') \<Rightarrow> (failed_with (minio_message e), s'))"

definition unchanged :: "service \<Rightarrow> 'o objects \<Rightarrow> string \<Rightarrow> import_record \<Rightarrow> 'o \<Rightarrow> report option \<times> 'o" where
  "unchanged sv oj bucket imp s = (case check_unchanged sv oj bucket ''the archive'' (im_archive imp) s of
     (Some (oc, why), s') \<Rightarrow> (Some (stopped_report sv imp oc why), s')
   | (None, s') \<Rightarrow> (case check_unchanged sv oj bucket ''the manifest'' (im_manifest imp) s' of
       (Some (oc, why), s'') \<Rightarrow> (Some (stopped_report sv imp oc why), s'')
     | (None, s'') \<Rightarrow> (None, s'')))"

definition every_package_in :: "report \<Rightarrow> bool" where
  "every_package_in rep \<longleftrightarrow> rp_outcome rep = outcome_complete \<and> ct_failed (rp_counts rep) = 0
     \<and> list_all (\<lambda>r. rs_state r = Published \<or> rs_state r = Present) (rp_packages rep)"

text \<open>The archive is opened only once its manifest could be read. \<open>mkdir\<close> is the error of making the
  working directory. The last component says whether the attempt may remove the archive.\<close>

definition run_import :: "service \<Rightarrow> 'o objects \<Rightarrow> string option \<Rightarrow> (pub_package list \<Rightarrow> 's \<Rightarrow> result list \<times> 's)
    \<Rightarrow> import_record \<Rightarrow> 'o \<Rightarrow> 's \<Rightarrow> report \<times> progress list \<times> 'o \<times> 's \<times> bool" where
  "run_import sv oj mkdir publish_all imp o1 s = (let bucket = bucket_of (im_user imp) in
     case unchanged sv oj bucket imp o1 of
       (Some rep, o2) \<Rightarrow> (rep, [], o2, s, False)
     | (None, o2) \<Rightarrow> (case mkdir of
         Some e \<Rightarrow> (stopped_report sv imp outcome_refused ''could not check the archive: no working directory'', [], o2, s, False)
       | None \<Rightarrow>
          (case open_object oj bucket (im_manifest imp) ''the manifest'' o2 of (mani, o3) \<Rightarrow>
           let a = (attempt_of sv imp)\<lparr>ai_manifest := mani\<rparr> in
           case (if isl (read_manifest (sv_env sv) a) then (Inl Src_Interrupted, o3)
                 else open_object oj bucket (im_archive imp) ''the archive'' o3) of (arch, o4) \<Rightarrow>
           case run_attempt (sv_env sv) (a\<lparr>ai_archive := arch\<rparr>) publish_all Map.empty s of (rep, evs, fs, s') \<Rightarrow>
             (rep, evs, o4, s', every_package_in rep))))"

subsection \<open>Removing the archive\<close>

definition minio_text :: "rune_api \<Rightarrow> minio_error \<Rightarrow> string" where
  "minio_text ru e = (case e of
     Minio_Answer msg \<Rightarrow> service_text ru msg
   | No_Bucket msg \<Rightarrow> service_text ru msg
   | Timed_Out m \<Rightarrow> ''MinIO did not answer in time''
   | Was_Cancelled m \<Rightarrow> ''the request was cancelled''
   | _ \<Rightarrow> ''MinIO could not be reached'')"

definition check_removable :: "rune_api \<Rightarrow> 'o objects \<Rightarrow> string \<Rightarrow> string \<Rightarrow> object \<Rightarrow> 'o \<Rightarrow> string option \<times> 'o" where
  "check_removable ru oj bucket what want s = (case oj_head oj bucket (ob_key want) s of
     (Inl No_Such_Key, s') \<Rightarrow> (Some (what @ '' is no longer in MinIO; nothing was removed''), s')
   | (Inl e, s') \<Rightarrow> (Some (''could not check '' @ what @ '' before removing it; nothing was removed: '' @ minio_text ru e), s')
   | (Inr h, s') \<Rightarrow> (if hi_etag h \<noteq> ob_etag want
       then Some (what @ '' changed in MinIO after the import read it; nothing was removed'') else None, s'))"

definition kept :: "rune_api \<Rightarrow> string \<Rightarrow> removal" where
  "kept ru reason = \<lparr>rm_removed = False, rm_reason = service_text ru reason\<rparr>"

definition remove_objects :: "rune_api \<Rightarrow> 'o objects \<Rightarrow> string \<Rightarrow> import_record \<Rightarrow> 'o \<Rightarrow> removal \<times> 'o" where
  "remove_objects ru oj bucket imp s = (case check_removable ru oj bucket ''the archive'' (im_archive imp) s of
     (Some why, s1) \<Rightarrow> (kept ru why, s1)
   | (None, s1) \<Rightarrow> (case check_removable ru oj bucket ''the manifest'' (im_manifest imp) s1 of
       (Some why, s2) \<Rightarrow> (kept ru why, s2)
     | (None, s2) \<Rightarrow> (case oj_delete oj bucket (ob_key (im_archive imp)) s2 of
         (Some e, s3) \<Rightarrow> (kept ru (''could not remove the archive: '' @ minio_text ru e), s3)
       | (None, s3) \<Rightarrow> (case oj_delete oj bucket (ob_key (im_manifest imp)) s3 of
           (Some e, s4) \<Rightarrow> (\<lparr>rm_removed = True, rm_reason = service_text ru
             (''the archive was removed, but the manifest could not be and stays in the folder: '' @ minio_text ru e)\<rparr>, s4)
         | (None, s4) \<Rightarrow> (\<lparr>rm_removed = True, rm_reason = ''''\<rparr>, s4)))))"

subsection \<open>What MinIO is asked\<close>

datatype minio_event = Mv_Head string string "minio_error + head_info" | Mv_Delete string string "minio_error option" | Mv_Read

definition watched :: "'o objects \<Rightarrow> ('o \<times> minio_event list) objects" where
  "watched oj =
     \<lparr>oj_list = (\<lambda>b p n (s, l). case oj_list oj b p n s of (r, s') \<Rightarrow> (r, s', l @ [Mv_Read])),
      oj_head = (\<lambda>b k (s, l). case oj_head oj b k s of (r, s') \<Rightarrow> (r, s', l @ [Mv_Head b k r])),
      oj_get = (\<lambda>b k e (s, l). case oj_get oj b k e s of (r, s') \<Rightarrow> (r, s', l @ [Mv_Read])),
      oj_delete = (\<lambda>b k (s, l). case oj_delete oj b k s of (r, s') \<Rightarrow> (r, s', l @ [Mv_Delete b k r]))\<rparr>"

lemma watched_simps [simp]:
  "oj_list (watched oj) b p n (s, l) = (case oj_list oj b p n s of (r, s') \<Rightarrow> (r, s', l @ [Mv_Read]))"
  "oj_head (watched oj) b k (s, l) = (case oj_head oj b k s of (r, s') \<Rightarrow> (r, s', l @ [Mv_Head b k r]))"
  "oj_get (watched oj) b k e (s, l) = (case oj_get oj b k e s of (r, s') \<Rightarrow> (r, s', l @ [Mv_Read]))"
  "oj_delete (watched oj) b k (s, l) = (case oj_delete oj b k s of (r, s') \<Rightarrow> (r, s', l @ [Mv_Delete b k r]))"
  by (simp_all add: watched_def)

definition no_deletes :: "minio_event list \<Rightarrow> bool" where
  "no_deletes l \<longleftrightarrow> (\<forall>b k r. Mv_Delete b k r \<notin> set l)"

lemma no_deletes_simps [simp]:
  "no_deletes []" "no_deletes (Mv_Head b k r # l) = no_deletes l" "no_deletes (Mv_Read # l) = no_deletes l"
  "\<not> no_deletes (Mv_Delete b k r' # l)" "no_deletes (l @ l') \<longleftrightarrow> no_deletes l \<and> no_deletes l'"
  by (auto simp: no_deletes_def)

lemma check_removable_watched:
  assumes "check_removable ru (watched oj) bucket what want (s, l) = (r, s', l')"
  shows "\<exists>h. l' = l @ [Mv_Head bucket (ob_key want) h] \<and> (r = None \<longleftrightarrow> (\<exists>i. h = Inr i \<and> hi_etag i = ob_etag want))"
  using assms by (auto simp: check_removable_def split: prod.splits sum.splits minio_error.splits if_splits)

text \<open>C11. Nothing of a user's is deleted on a guess. Removing an import deletes only in its user's bucket,
  only after both objects still carried the ETags the import recorded, the archive before the
  manifest, and the manifest only when the archive is gone; and it says removed exactly when the
  archive was deleted.\<close>

theorem removal_checked:
  assumes "remove_objects ru (watched oj) bucket imp (s, []) = (rm, s', log)"
  shows "(no_deletes log \<and> \<not> rm_removed rm) \<or> (\<exists>h1 h2 r rest.
     log = Mv_Head bucket (ob_key (im_archive imp)) (Inr h1) # Mv_Head bucket (ob_key (im_manifest imp)) (Inr h2)
       # Mv_Delete bucket (ob_key (im_archive imp)) r # rest
     \<and> hi_etag h1 = ob_etag (im_archive imp) \<and> hi_etag h2 = ob_etag (im_manifest imp) \<and> (rm_removed rm \<longleftrightarrow> r = None)
     \<and> (if r = None then \<exists>r2. rest = [Mv_Delete bucket (ob_key (im_manifest imp)) r2] else rest = []))"
proof -
  obtain q s1 l1 where a: "check_removable ru (watched oj) bucket ''the archive'' (im_archive imp) (s, []) = (q, s1, l1)"
    by (metis prod_cases3)
  obtain q2 s2 l2 where b: "check_removable ru (watched oj) bucket ''the manifest'' (im_manifest imp) (s1, l1) = (q2, s2, l2)"
    by (metis prod_cases3)
  note ha = check_removable_watched [OF a] and hb = check_removable_watched [OF b]
  show ?thesis
  proof (cases "q = None \<and> q2 = None")
    case False
    then have "no_deletes log \<and> \<not> rm_removed rm"
      using assms a b ha hb by (auto simp: remove_objects_def kept_def split: option.splits)
    then show ?thesis by blast
  next
    case True
    then obtain h1 h2 where l2: "l2 = [Mv_Head bucket (ob_key (im_archive imp)) (Inr h1),
        Mv_Head bucket (ob_key (im_manifest imp)) (Inr h2)]"
      and e: "hi_etag h1 = ob_etag (im_archive imp)" "hi_etag h2 = ob_etag (im_manifest imp)" using ha hb by auto
    obtain r s3 where d: "oj_delete oj bucket (ob_key (im_archive imp)) s2 = (r, s3)" by fastforce
    show ?thesis
    proof (cases r)
      case None
      obtain r2 s4 where "oj_delete oj bucket (ob_key (im_manifest imp)) s3 = (r2, s4)" by fastforce
      then have "log = l2 @ [Mv_Delete bucket (ob_key (im_archive imp)) None, Mv_Delete bucket (ob_key (im_manifest imp)) r2]
          \<and> rm_removed rm"
        using assms a b True l2 d None by (auto simp: remove_objects_def split: option.splits)
      then show ?thesis using l2 e by auto
    next
      case (Some x)
      then have "log = l2 @ [Mv_Delete bucket (ob_key (im_archive imp)) (Some x)] \<and> \<not> rm_removed rm"
        using assms a b True l2 d by (auto simp: remove_objects_def kept_def)
      then show ?thesis
        using l2 e by (intro disjI2 exI [of _ h1] exI [of _ h2] exI [of _ "Some x"] exI [of _ "[]"]) simp
    qed
  qed
qed

text \<open>A MinIO that always answers, for the instances.\<close>

definition calm_minio :: "unit objects" where
  "calm_minio = \<lparr>oj_list = (\<lambda>b p n s. (Inr ([\<lparr>so_key = ''packages/npm/a.tar.gz'', so_etag = ''e'', so_size = 1, so_modified = 0\<rparr>,
        \<lparr>so_key = ''packages/npm/manifest.json'', so_etag = ''e'', so_size = 1, so_modified = 0\<rparr>], False), s)),
     oj_head = (\<lambda>b k s. (Inr \<lparr>hi_etag = ''e'', hi_size = 1\<rparr>, s)),
     oj_get = (\<lambda>b k e s. (Inl (Timed_Out ''context deadline exceeded''), s)), oj_delete = (\<lambda>b k s. (None, s))\<rparr>"

lemma calm_minio_simps [simp]:
  "oj_head calm_minio b k s = (Inr \<lparr>hi_etag = ''e'', hi_size = 1\<rparr>, s)" "oj_delete calm_minio b k s = (None, s)"
  by (simp_all add: calm_minio_def)

lemma sample_import_etags [simp]: "ob_etag (im_archive sample_import) = ''e''" "ob_etag (im_manifest sample_import) = ''e''"
  by (simp_all add: sample_import_def sample_object_def)

theorem removal_checked_witness:
  "\<exists>rm log. remove_objects (pe_runes sample_publish_env) (watched calm_minio) ''user-ann'' sample_import ((), []) = (rm, (), log)
     \<and> rm_removed rm \<and> \<not> no_deletes log"
proof -
  have c: "check_removable (pe_runes sample_publish_env) (watched calm_minio) ''user-ann'' what want ((), l)
      = (None, (), l @ [Mv_Head ''user-ann'' (ob_key want) (Inr \<lparr>hi_etag = ''e'', hi_size = 1\<rparr>)])"
    if "ob_etag want = ''e''" for what want l
    using that by (simp add: check_removable_def)
  obtain log where r: "remove_objects (pe_runes sample_publish_env) (watched calm_minio) ''user-ann'' sample_import ((), [])
      = (\<lparr>rm_removed = True, rm_reason = ''''\<rparr>, (), log)"
    by (simp add: remove_objects_def c)
  have "\<not> no_deletes log" using removal_checked [OF r] by auto
  then show ?thesis using r by auto
qed

subsection \<open>Reports and starts\<close>

lemma stopped_true: "oc = outcome_incomplete \<or> oc = outcome_refused \<Longrightarrow> true_report (stopped_report sv imp oc why)"
  by (rule true_empty) (auto simp: stopped_report_def zero_report_def)

lemma check_unchanged_outcome: "check_unchanged sv oj bucket what want s = (Some (oc, why), s') \<Longrightarrow>
    oc = outcome_incomplete \<or> oc = outcome_refused"
  by (auto simp: check_unchanged_def Let_def split: prod.splits sum.splits minio_error.splits if_splits)

text \<open>The report of a run is true, and it may remove the archive only when every package is in Nexus.\<close>

definition manifest_read :: "service \<Rightarrow> 'o objects \<Rightarrow> import_record \<Rightarrow> archive_manifest \<Rightarrow> bool" where
  "manifest_read sv oj imp m \<longleftrightarrow> (\<exists>o1. read_manifest (sv_env sv) ((attempt_of sv imp)\<lparr>ai_manifest :=
     fst (open_object oj (bucket_of (im_user imp)) (im_manifest imp) ''the manifest'' o1)\<rparr>) = Inr m)"

lemma run_import_true:
  assumes "run_import sv oj mkdir (publish_each env p) imp o1 s = (rep, evs, o2, s', may)"
  shows "true_report rep \<and> (may \<longrightarrow> every_package_in rep \<and> (\<exists>m. manifest_read sv oj imp m \<and> names_of_manifest m rep))"
proof (cases "\<exists>oc why. (oc = outcome_incomplete \<or> oc = outcome_refused) \<and> rep = stopped_report sv imp oc why \<and> \<not> may")
  case True
  then show ?thesis using stopped_true by blast
next
  case False
  obtain q o3 where u: "unchanged sv oj (bucket_of (im_user imp)) imp o1 = (q, o3)" by fastforce
  have "q = None"
  proof (rule ccontr)
    assume "q \<noteq> None"
    then obtain oc why where "q = Some (stopped_report sv imp oc why)" "oc = outcome_incomplete \<or> oc = outcome_refused"
      using u check_unchanged_outcome by (fastforce simp: unchanged_def split: prod.splits option.splits)
    then show False using False assms u by (auto simp: run_import_def Let_def)
  qed
  moreover have "mkdir = None"
    using False assms u \<open>q = None\<close> by (auto simp: run_import_def Let_def split: option.splits)
  moreover obtain mani o4 where mani: "open_object oj (bucket_of (im_user imp)) (im_manifest imp) ''the manifest'' o3 = (mani, o4)"
    by fastforce
  ultimately obtain arch fs fs' where a: "run_attempt (sv_env sv) ((attempt_of sv imp)\<lparr>ai_manifest := mani, ai_archive := arch\<rparr>)
      (publish_each env p) fs s = (rep, evs, fs', s')" and may: "may = every_package_in rep"
    using assms u by (auto simp: run_import_def Let_def split: prod.splits)
  note run_attempt_true [OF a]
  moreover have "read_manifest (sv_env sv) ((attempt_of sv imp)\<lparr>ai_manifest := mani, ai_archive := arch\<rparr>) = Inr m
      \<Longrightarrow> manifest_read sv oj imp m" for m
    unfolding manifest_read_def using mani by (intro exI [of _ o3]) (simp add: read_manifest_def)
  moreover have "every_package_in rep \<Longrightarrow> rp_outcome rep = outcome_complete" by (simp add: every_package_in_def)
  ultimately show ?thesis using may by blast
qed

text \<open>What creating an import needs and does.\<close>

lemma create_ids_Inr:
  "create_ids ft st user arch mani expected now ids = (Inr imp, st') \<Longrightarrow>
   st_files st (user, im_id imp) = None \<and> im_user imp = user \<and> im_archive imp = arch \<and> im_manifest imp = mani
   \<and> im_expected imp = expected \<and> im_attempts imp = [new_attempt 1 now]
   \<and> st' = st\<lparr>st_files := (st_files st)((user, im_id imp) \<mapsto> Record imp)\<rparr>"
  by (induction ids) (auto simp: write_import_def Let_def split: if_splits option.splits)

lemma head_object_Inr: "head_object ru oj bucket key s = (Inr ob, s') \<Longrightarrow> ob_key ob = key \<and> valid_etag (ob_etag ob)"
  by (auto simp: head_object_def split: prod.splits sum.splits minio_error.splits if_splits)

lemma check_archive_Inr:
  assumes "check_archive ru oj bucket key s = (Inr (arch, mani), s')"
  shows "ob_key arch = key \<and> valid_etag (ob_etag arch) \<and> ob_key mani = dir_of key @ ''/'' @ manifest_name \<and> valid_etag (ob_etag mani)
    \<and> (\<exists>objs truncated s1. oj_list oj bucket (dir_of key @ ''/'') max_listed s = (Inr (objs, truncated), s1)
        \<and> (\<exists>a \<in> set (pair_archives ru objs). importable a \<and> ae_key a = key))"
proof -
  obtain objs truncated s1 where l: "oj_list oj bucket (dir_of key @ ''/'') max_listed s = (Inr (objs, truncated), s1)"
    using assms by (auto simp: check_archive_def Let_def split: prod.splits sum.splits minio_error.splits)
  obtain a where a: "find (\<lambda>a. ae_key a = key) (pair_archives ru objs) = Some a" "ae_reason a = None"
    using assms l by (auto simp: check_archive_def Let_def split: option.splits)
  obtain s2 where h: "head_object ru oj bucket key s1 = (Inr arch, s2)"
      "head_object ru oj bucket (dir_of key @ ''/'' @ manifest_name) s2 = (Inr mani, s')"
    using assms l a by (auto simp: check_archive_def Let_def split: prod.splits sum.splits)
  show ?thesis using l a head_object_Inr [OF h(1)] head_object_Inr [OF h(2)]
    by (auto simp: find_Some_iff importable_def in_set_conv_nth) (metis nth_mem)
qed

text \<open>C27. An import is started only for an archive of the user's own folder that MinIO lists as importable
  and describes with usable ETags, and only when no import of the same objects is still to complete.
  It is a new record with one queued attempt for exactly these objects, no other record changes, and
  it is the last item of the queue.\<close>

theorem start_import_sound:
  assumes "start_import ru (Some oj) su user (Some (key, expected)) s st q = (Accepted imp, s', st', q')"
    and "su_dirs su = Inr dirs"
  shows "\<not> isl (archive_key ru key) \<and> im_user imp = user \<and> ob_key (im_archive imp) = key
    \<and> ob_key (im_manifest imp) = dir_of key @ ''/'' @ manifest_name
    \<and> valid_etag (ob_etag (im_archive imp)) \<and> valid_etag (ob_etag (im_manifest imp))
    \<and> (\<exists>objs truncated s1. oj_list oj (bucket_of user) (dir_of key @ ''/'') max_listed s = (Inr (objs, truncated), s1)
        \<and> (\<exists>a \<in> set (pair_archives ru objs). importable a \<and> ae_key a = key))
    \<and> (\<forall>other \<in> set (list_imports st user dirs). same_objects (im_archive imp) (im_manifest imp) other \<longrightarrow> finished_outcome other)
    \<and> im_attempts imp = [new_attempt 1 (su_now su)]
    \<and> st_files st (user, im_id imp) = None \<and> st_files st' = (st_files st)((user, im_id imp) \<mapsto> Record imp)
    \<and> \<not> qu_closed q \<and> qu_items q' = qu_items q @ [(user, im_id imp)]"
proof -
  obtain arch mani where k: "\<not> isl (archive_key ru key)" and c: "check_archive ru oj (bucket_of user) key s = (Inr (arch, mani), s')"
    and i: "create_import su user arch mani (map lower_char (case expected of None \<Rightarrow> '''' | Some e \<Rightarrow> e)) st q = (Accepted imp, st', q')"
    using assms(1) by (auto simp: start_import_def Let_def split: if_splits prod.splits sum.splits)
  have n: "find (\<lambda>imp. same_objects arch mani imp \<and> \<not> finished_outcome imp) (list_imports st user dirs) = None"
    using i assms(2) by (auto simp: create_import_def split: option.splits)
  obtain st1 where cr: "create (su_create su) st user arch mani (map lower_char (case expected of None \<Rightarrow> '''' | Some e \<Rightarrow> e))
        (su_now su) (su_ids su) = (Inr imp, st1)" and sub: "submit_or_stop su user imp st1 q = (Accepted imp, st', q')"
    using i assms(2) n by (auto simp: create_import_def submit_or_stop_def split: prod.splits sum.splits if_splits bool.splits)
  have "st' = st1" "\<not> qu_closed q" "qu_items q' = qu_items q @ [(user, im_id imp)]"
    using sub by (auto simp: submit_or_stop_def submit_def split: prod.splits if_splits bool.splits)
  moreover have "create_ids (su_create su) st user arch mani (map lower_char (case expected of None \<Rightarrow> '''' | Some e \<Rightarrow> e))
      (su_now su) (take id_attempts (su_ids su)) = (Inr imp, st1)"
    using cr by (simp add: create_def split: if_splits)
  note create_ids_Inr [OF this]
  moreover have "\<forall>other \<in> set (list_imports st user dirs). same_objects arch mani other \<longrightarrow> finished_outcome other"
    using n by (auto simp: find_None_iff)
  moreover note check_archive_Inr [OF c]
  ultimately show ?thesis using k by simp
qed

definition calm_surroundings :: surroundings where
  "calm_surroundings = \<lparr>su_dirs = Inr [], su_ids = [sample_id], su_create = no_faults, su_abandon = no_faults,
     su_retry = no_faults, su_now = 7\<rparr>"

lemma calm_pairs: "pair_archives (pe_runes sample_publish_env) [\<lparr>so_key = ''packages/npm/a.tar.gz'', so_etag = ''e'', so_size = 1, so_modified = 0\<rparr>,
      \<lparr>so_key = ''packages/npm/manifest.json'', so_etag = ''e'', so_size = 1, so_modified = 0\<rparr>]
    = [item_of (pe_runes sample_publish_env) \<lparr>fg_archives = [\<lparr>so_key = ''packages/npm/a.tar.gz'', so_etag = ''e'', so_size = 1, so_modified = 0\<rparr>],
        fg_manifest = True\<rparr> \<lparr>so_key = ''packages/npm/a.tar.gz'', so_etag = ''e'', so_size = 1, so_modified = 0\<rparr>]"
  unfolding sample_publish_env_def by code_simp

theorem start_import_sound_witness:
  "\<exists>imp st' q'. start_import (pe_runes sample_publish_env) (Some calm_minio) calm_surroundings ''ann''
      (Some (''packages/npm/a.tar.gz'', None)) () empty_store \<lparr>qu_items = [], qu_closed = False\<rparr> = (Accepted imp, (), st', q')
    \<and> ob_key (im_archive imp) = ''packages/npm/a.tar.gz'' \<and> length (qu_items q') = 1"
proof -
  let ?a = "\<lparr>ob_key = ''packages/npm/a.tar.gz'', ob_etag = ''e'', ob_size = 1\<rparr>"
  let ?m = "\<lparr>ob_key = ''packages/npm/manifest.json'', ob_etag = ''e'', ob_size = 1\<rparr>"
  have c: "check_archive (pe_runes sample_publish_env) calm_minio (bucket_of ''ann'') ''packages/npm/a.tar.gz'' () = (Inr (?a, ?m), ())"
    unfolding sample_publish_env_def by code_simp
  obtain imp st' q' where i: "create_import calm_surroundings ''ann'' ?a ?m [] empty_store \<lparr>qu_items = [], qu_closed = False\<rparr>
      = (Accepted imp, st', q')"
  proof -
    have l: "list_imports empty_store ''ann'' [] = []" and v: "valid_user ''ann''" by code_simp+
    have t: "take id_attempts [sample_id] = [sample_id]" by (simp add: id_attempts_def)
    have "\<exists>imp st'. create no_faults empty_store ''ann'' ?a ?m [] 7 [sample_id] = (Inr imp, st')"
      using v by (simp add: create_def t write_import_def Let_def no_faults_def empty_store_def)
    then obtain imp st' where "create no_faults empty_store ''ann'' ?a ?m [] 7 [sample_id] = (Inr imp, st')" by blast
    then have "create_import calm_surroundings ''ann'' ?a ?m [] empty_store \<lparr>qu_items = [], qu_closed = False\<rparr>
        = (Accepted imp, st', \<lparr>qu_items = [(''ann'', im_id imp)], qu_closed = False\<rparr>)"
      by (simp add: create_import_def calm_surroundings_def l submit_or_stop_def submit_def)
    then show ?thesis using that by blast
  qed
  have "\<not> isl (archive_key (pe_runes sample_publish_env) ''packages/npm/a.tar.gz'')"
    unfolding sample_publish_env_def by code_simp
  then have s: "start_import (pe_runes sample_publish_env) (Some calm_minio) calm_surroundings ''ann''
      (Some (''packages/npm/a.tar.gz'', None)) () empty_store \<lparr>qu_items = [], qu_closed = False\<rparr> = (Accepted imp, (), st', q')"
    by (simp add: start_import_def Let_def c i)
  have d: "su_dirs calm_surroundings = Inr []" by (simp add: calm_surroundings_def)
  show ?thesis using start_import_sound [OF s d] s by auto
qed

subsection \<open>The run of the queue\<close>

text \<open>What \<^verbatim>\<open>RunAttempt\<close> gives the queue: the events and the report, and a remover only when every package
  of the report is in Nexus.\<close>

definition attempt_run :: "service \<Rightarrow> 'o objects \<Rightarrow> string option \<Rightarrow> (pub_package list \<Rightarrow> 's \<Rightarrow> result list \<times> 's)
    \<Rightarrow> 'o \<Rightarrow> 's \<Rightarrow> import_record \<Rightarrow> run_result" where
  "attempt_run sv oj mkdir publish_all o1 s imp = (case run_import sv oj mkdir publish_all imp o1 s of
     (rep, evs, o2, s', may) \<Rightarrow> \<lparr>rr_events = evs, rr_end = Returned rep
       (if may then Some (Some (fst (remove_objects (av_runes (sv_env sv)) oj (bucket_of (im_user imp)) imp o2))) else None)\<rparr>)"

lemma attempt_run_end:
  assumes "rr_end (attempt_run sv oj mkdir (publish_each env p) o1 s imp) = Returned rep rm"
  shows "true_report rep \<and> (rm \<noteq> None \<longrightarrow> every_package_in rep \<and> (\<exists>m. manifest_read sv oj imp m \<and> names_of_manifest m rep))"
proof -
  obtain rep' evs o2 s' may where r: "run_import sv oj mkdir (publish_each env p) imp o1 s = (rep', evs, o2, s', may)"
    by (metis prod_cases5)
  then show ?thesis using assms run_import_true [OF r] by (auto simp: attempt_run_def split: if_splits)
qed

end
