(* ===== verification/Token_Check.thy ===== *)
theory Token_Check
  imports Npm_Registry
begin

text \<open>
  \<^verbatim>\<open>internal/importer/token/{token,keyset}.go\<close>: the check of an access token against the keys of one
  realm, and the cache of these keys. JSON, the hash functions, the signature primitives, float64
  and the answers of the network are parameters. Times are nanoseconds.
\<close>

subsection \<open>Base64 without padding, and numbers\<close>

definition b64url_value :: "char \<Rightarrow> nat option" where
  "b64url_value c = (if c = CHR ''-'' then Some 62 else if c = CHR ''_'' then Some 63
     else if is_upper c then Some (of_char c - 65) else if is_lower c then Some (of_char c - 71)
     else if is_digit c then Some (of_char c + 4) else None)"

definition byte_of :: "nat \<Rightarrow> char" where
  "byte_of n = char_of (n mod 256)"

fun raw_url_groups :: "nat list \<Rightarrow> bytes option" where
  "raw_url_groups [] = Some []"
| "raw_url_groups [a] = None"
| "raw_url_groups [a, b] = Some [byte_of (a * 4 + b div 16)]"
| "raw_url_groups [a, b, c] = Some [byte_of (a * 4 + b div 16), byte_of (b * 16 + c div 4)]"
| "raw_url_groups (a # b # c # d # rest) = map_option
     (\<lambda>bs. byte_of (a * 4 + b div 16) # byte_of (b * 16 + c div 4) # byte_of (c * 64 + d) # bs) (raw_url_groups rest)"

text \<open>\<^verbatim>\<open>base64.RawURLEncoding.DecodeString\<close>, which skips line ends.\<close>

definition raw_url_decode :: "string \<Rightarrow> bytes option" where
  "raw_url_decode s = (let vs = map b64url_value (filter (\<lambda>c. of_char c \<noteq> (10::nat) \<and> of_char c \<noteq> (13::nat)) s) in
     if None \<in> set vs then None else raw_url_groups (map the vs))"

definition be_nat :: "bytes \<Rightarrow> nat" where
  "be_nat bs = foldl (\<lambda>n b. n * 256 + of_char b) 0 bs"

fun bit_len :: "nat \<Rightarrow> nat" where
  "bit_len n = (if n = 0 then 0 else bit_len (n div 2) + 1)"

declare bit_len.simps [simp del]

subsection \<open>Keys\<close>

datatype curve = P256 | P384 | P521

datatype public_key = RSA_Key nat nat | EC_Key curve bytes bytes

record held_key =
  hk_alg :: string
  hk_key :: public_key

record jwk =
  jw_kty :: string
  jw_kid :: string
  jw_alg :: string
  jw_use :: string
  jw_n :: string
  jw_e :: string
  jw_crv :: string
  jw_x :: string
  jw_y :: string

definition min_rsa_bits :: nat where "min_rsa_bits = 2048"
definition max_rsa_bits :: nat where "max_rsa_bits = 8192"
definition max_rsa_exponent :: nat where "max_rsa_exponent = 2 ^ 31 - 1"
definition max_key_set_keys :: nat where "max_key_set_keys = 100"
definition max_key_set_bytes :: nat where "max_key_set_bytes = 2 ^ 20"

definition parse_rsa :: "jwk \<Rightarrow> public_key option" where
  "parse_rsa j = (case (raw_url_decode (jw_n j), raw_url_decode (jw_e j)) of
     (Some n, Some e) \<Rightarrow>
       let md = be_nat n; ex = be_nat e in
       if bit_len md < min_rsa_bits \<or> max_rsa_bits < bit_len md then None
       else if 63 < bit_len ex \<or> ex < 3 \<or> max_rsa_exponent < ex \<or> even ex then None
       else Some (RSA_Key md ex)
   | _ \<Rightarrow> None)"

fun curve_of :: "string \<Rightarrow> curve option" where
  "curve_of s = (if s = ''P-256'' then Some P256 else if s = ''P-384'' then Some P384
     else if s = ''P-521'' then Some P521 else None)"

fun curve_bits :: "curve \<Rightarrow> nat" where
  "curve_bits P256 = 256"
| "curve_bits P384 = 384"
| "curve_bits P521 = 521"

definition coordinate_size :: "curve \<Rightarrow> nat" where
  "coordinate_size c = (curve_bits c + 7) div 8"

text \<open>\<open>on_curve\<close> is what \<^verbatim>\<open>ecdsa.ParseUncompressedPublicKey\<close> says of a point.\<close>

definition parse_ec :: "(curve \<Rightarrow> bytes \<Rightarrow> bytes \<Rightarrow> bool) \<Rightarrow> jwk \<Rightarrow> public_key option" where
  "parse_ec on_curve j = (case curve_of (jw_crv j) of None \<Rightarrow> None
   | Some c \<Rightarrow> (case (raw_url_decode (jw_x j), raw_url_decode (jw_y j)) of
       (Some x, Some y) \<Rightarrow>
         if length x \<noteq> coordinate_size c \<or> length y \<noteq> coordinate_size c \<or> \<not> on_curve c x y then None
         else Some (EC_Key c x y)
     | _ \<Rightarrow> None))"

text \<open>None stands for a key that is not a JSON object of texts.\<close>

definition parse_jwk :: "(curve \<Rightarrow> bytes \<Rightarrow> bytes \<Rightarrow> bool) \<Rightarrow> jwk option \<Rightarrow> (string \<times> held_key) option" where
  "parse_jwk on_curve raw = (case raw of None \<Rightarrow> None
   | Some j \<Rightarrow>
       if jw_kid j = '''' \<or> (jw_use j \<noteq> '''' \<and> jw_use j \<noteq> ''sig'') then None
       else map_option (\<lambda>k. (jw_kid j, \<lparr>hk_alg = jw_alg j, hk_key = k\<rparr>))
         (if jw_kty j = ''RSA'' then parse_rsa j else if jw_kty j = ''EC'' then parse_ec on_curve j else None))"

subsection \<open>The key set\<close>

text \<open>What one request for the key set gives.\<close>

datatype key_reply = Bad_Request | No_Answer bool | Answer int bytes bool

record key_env =
  ke_doc :: "bytes \<Rightarrow> jwk option list option"
  ke_on_curve :: "curve \<Rightarrow> bytes \<Rightarrow> bytes \<Rightarrow> bool"

definition key_set_ttl :: int where "key_set_ttl = 5 * 60 * 10 ^ 9"
definition refetch_every :: int where "refetch_every = 30 * 10 ^ 9"
definition key_set_stale :: int where "key_set_stale = 60 * 60 * 10 ^ 9"

definition add_key :: "key_env \<Rightarrow> (string, held_key) gomap \<Rightarrow> jwk option \<Rightarrow> (string, held_key) gomap" where
  "add_key env keys raw = (case parse_jwk (ke_on_curve env) raw of None \<Rightarrow> keys
     | Some (kid, k) \<Rightarrow> if gm_has keys kid then keys else gm_put kid k keys)"

text \<open>\<open>Answer status body failed\<close>: \<open>failed\<close> says that the body could not be read to the bound.\<close>

definition fetch_keys :: "key_env \<Rightarrow> key_reply \<Rightarrow> string + (string, held_key) gomap" where
  "fetch_keys env reply = (case reply of
     Bad_Request \<Rightarrow> Inl ''the request for the key set could not be built''
   | No_Answer certificate \<Rightarrow> Inl (if certificate then ''the key set server's certificate failed verification''
       else ''the key set could not be reached'')
   | Answer status body read_failed \<Rightarrow>
       if status \<noteq> 200 then Inl (''the key set answered HTTP '' @ show_nat (nat status))
       else if read_failed then Inl ''the key set could not be read''
       else if max_key_set_bytes < length body then Inl ''the key set is larger than 1048576 bytes''
       else (case ke_doc env body of None \<Rightarrow> Inl ''the key set is not a JSON key set''
         | Some raws \<Rightarrow> Inr (foldl (add_key env) [] (take max_key_set_keys raws))))"

record key_set =
  ks_keys :: "(string, held_key) gomap"
  ks_have :: bool
  ks_fetched :: int
  ks_attempt :: "int option"
  ks_fail :: "string option"

definition empty_key_set :: key_set where
  "empty_key_set = \<lparr>ks_keys = [], ks_have = False, ks_fetched = 0, ks_attempt = None, ks_fail = None\<rparr>"

text \<open>\<^verbatim>\<open>refresh\<close>: whether a fetch was attempted and why there is none, and the set afterwards.\<close>

definition refresh :: "key_env \<Rightarrow> key_reply \<Rightarrow> int \<Rightarrow> key_set \<Rightarrow> bool \<times> string option \<times> key_set" where
  "refresh env reply now s =
     (if (case ks_attempt s of None \<Rightarrow> False | Some t \<Rightarrow> now - t < refetch_every)
      then (False, Some (case ks_fail s of Some e \<Rightarrow> e
              | None \<Rightarrow> ''the last fetch of the key set was under 30 seconds ago''), s)
      else let s = s\<lparr>ks_attempt := Some now\<rparr> in
        (case fetch_keys env reply of
           Inl e \<Rightarrow> (True, Some e, s\<lparr>ks_fail := Some e\<rparr>)
         | Inr keys \<Rightarrow> (True, None, s\<lparr>ks_fail := None, ks_keys := keys, ks_have := True, ks_fetched := now\<rparr>)))"

definition drop_stale :: "int \<Rightarrow> key_set \<Rightarrow> key_set" where
  "drop_stale now s = (if ks_have s \<and> key_set_stale \<le> now - ks_fetched s then s\<lparr>ks_have := False, ks_keys := []\<rparr> else s)"

text \<open>The second half of \<^verbatim>\<open>lookup\<close>: the kid is looked for, and the set fetched once more for an
  unknown one.\<close>

definition find_key :: "key_env \<Rightarrow> key_reply \<Rightarrow> int \<Rightarrow> string \<Rightarrow> bool \<Rightarrow> key_set \<Rightarrow> (string + held_key option) \<times> key_set" where
  "find_key env reply now kid attempted s = (case gm_get (ks_keys s) kid of
     Some k \<Rightarrow> (Inr (Some k), s)
   | None \<Rightarrow>
       if attempted then (Inr None, s)
       else (case refresh env reply now s of (_, err, s') \<Rightarrow>
         if \<not> ks_have s' then (Inl (case err of Some e \<Rightarrow> e | None \<Rightarrow> ''''), s')
         else (Inr (gm_get (ks_keys s') kid), s')))"

text \<open>\<^verbatim>\<open>lookup\<close>. At most one of its two refreshes fetches, so one reply is enough.\<close>

definition lookup_key :: "key_env \<Rightarrow> key_reply \<Rightarrow> int \<Rightarrow> string \<Rightarrow> key_set \<Rightarrow> (string + held_key option) \<times> key_set" where
  "lookup_key env reply now kid s =
     (let s = drop_stale now s in
      if \<not> ks_have s \<or> key_set_ttl \<le> now - ks_fetched s then
        (case refresh env reply now s of (attempted, err, s') \<Rightarrow>
           if \<not> ks_have s' then (Inl (case err of Some e \<Rightarrow> e | None \<Rightarrow> ''''), s')
           else find_key env reply now kid attempted s')
      else find_key env reply now kid False s)"

subsection \<open>Tokens\<close>

datatype hash = SHA256 | SHA384 | SHA512

record algorithm =
  al_rsa :: bool
  al_hash :: hash
  al_pss :: bool
  al_curve :: "curve option"

definition rsa_alg :: "hash \<Rightarrow> bool \<Rightarrow> algorithm" where
  "rsa_alg h pss = \<lparr>al_rsa = True, al_hash = h, al_pss = pss, al_curve = None\<rparr>"

definition ec_alg :: "hash \<Rightarrow> curve \<Rightarrow> algorithm" where
  "ec_alg h c = \<lparr>al_rsa = False, al_hash = h, al_pss = False, al_curve = Some c\<rparr>"

text \<open>The allow-list.\<close>

definition algorithms :: "(string \<times> algorithm) list" where
  "algorithms = [(''RS256'', rsa_alg SHA256 False), (''RS384'', rsa_alg SHA384 False), (''RS512'', rsa_alg SHA512 False),
     (''PS256'', rsa_alg SHA256 True), (''PS384'', rsa_alg SHA384 True), (''PS512'', rsa_alg SHA512 True),
     (''ES256'', ec_alg SHA256 P256), (''ES384'', ec_alg SHA384 P384), (''ES512'', ec_alg SHA512 P521)]"

record token_head =
  th_alg :: string
  th_kid :: string
  th_crit :: bool

text \<open>A claim as the decoder reads it: as a text (None for null and for another type), as a text where
  null is empty, as a list of texts and as a number. \<open>'f\<close> are the floats.\<close>

record ('j, 'f) token_env =
  te_head :: "bytes \<Rightarrow> token_head option"
  te_claims :: "bytes \<Rightarrow> (string, 'j) gomap option"
  te_text :: "'j \<Rightarrow> string option"
  te_text_or_null :: "'j \<Rightarrow> string option"
  te_texts :: "'j \<Rightarrow> string list option"
  te_number :: "'j \<Rightarrow> 'f option"
  te_seconds :: "int \<Rightarrow> 'f"
  te_plus :: "'f \<Rightarrow> 'f \<Rightarrow> 'f"
  te_minus :: "'f \<Rightarrow> 'f \<Rightarrow> 'f"
  te_less :: "'f \<Rightarrow> 'f \<Rightarrow> bool"
  te_hash :: "hash \<Rightarrow> bytes \<Rightarrow> bytes"
  te_pss :: "nat \<Rightarrow> nat \<Rightarrow> hash \<Rightarrow> bytes \<Rightarrow> bytes \<Rightarrow> bool"
  te_pkcs1 :: "nat \<Rightarrow> nat \<Rightarrow> hash \<Rightarrow> bytes \<Rightarrow> bytes \<Rightarrow> bool"
  te_ecdsa :: "curve \<Rightarrow> bytes \<Rightarrow> bytes \<Rightarrow> bytes \<Rightarrow> nat \<Rightarrow> nat \<Rightarrow> bool"

record verifier =
  vf_issuer :: string
  vf_audience :: string

datatype token_error = Rejected string | Unavailable string

definition max_token_bytes :: nat where "max_token_bytes = 16384"
definition leeway :: int where "leeway = 60 * 10 ^ 9"

text \<open>A key of another type never verifies; \<open>verify_token\<close> has checked the type before.\<close>

definition verify_signature :: "('j, 'f) token_env \<Rightarrow> algorithm \<Rightarrow> public_key \<Rightarrow> string \<Rightarrow> bytes \<Rightarrow> bool" where
  "verify_signature env alg key input sig = (let digest = te_hash env (al_hash alg) input in
     case key of
       RSA_Key n e \<Rightarrow>
         if al_pss alg then te_pss env n e (al_hash alg) digest sig
         else al_rsa alg \<and> te_pkcs1 env n e (al_hash alg) digest sig
     | EC_Key c x y \<Rightarrow>
         let len = coordinate_size c in
         \<not> al_rsa alg \<and> length sig = 2 * len \<and> te_ecdsa env c x y digest (be_nat (take len sig)) (be_nat (drop len sig)))"

definition claim_text :: "('j, 'f) token_env \<Rightarrow> (string, 'j) gomap \<Rightarrow> string \<Rightarrow> string option" where
  "claim_text env claims name = (case gm_get claims name of None \<Rightarrow> None | Some v \<Rightarrow> te_text env v)"

definition has_audience :: "('j, 'f) token_env \<Rightarrow> string \<Rightarrow> 'j option \<Rightarrow> bool" where
  "has_audience env audience raw = (case raw of None \<Rightarrow> False
   | Some v \<Rightarrow> (case te_text_or_null env v of Some one \<Rightarrow> one = audience
     | None \<Rightarrow> (case te_texts env v of None \<Rightarrow> False | Some many \<Rightarrow> audience \<in> set many)))"

definition claim_number :: "('j, 'f) token_env \<Rightarrow> 'j option \<Rightarrow> 'f option" where
  "claim_number env raw = (case raw of None \<Rightarrow> None | Some v \<Rightarrow> te_number env v)"

definition check_claims :: "('j, 'f) token_env \<Rightarrow> verifier \<Rightarrow> int \<Rightarrow> (string, 'j) gomap \<Rightarrow> token_error + unit" where
  "check_claims env vf now claims =
     (if claim_text env claims ''iss'' \<noteq> Some (vf_issuer vf) then Inl (Rejected ''issuer'')
      else if \<not> has_audience env (vf_audience vf) (gm_get claims ''aud'') then Inl (Rejected ''audience'')
      else (case claim_number env (gm_get claims ''exp'') of
        None \<Rightarrow> Inl (Rejected ''expiry'')
      | Some ex \<Rightarrow>
          if te_less env (te_plus env ex (te_seconds env leeway)) (te_seconds env now) then Inl (Rejected ''expiry'')
          else (case gm_get claims ''nbf'' of
            None \<Rightarrow> Inr ()
          | Some raw \<Rightarrow> (case te_number env raw of
              None \<Rightarrow> Inl (Rejected ''not before'')
            | Some nbf \<Rightarrow>
                if te_less env (te_seconds env now) (te_minus env nbf (te_seconds env leeway))
                then Inl (Rejected ''not before'') else Inr ()))))"

definition key_fits :: "algorithm \<Rightarrow> string \<Rightarrow> held_key \<Rightarrow> bool" where
  "key_fits alg name k \<longleftrightarrow> (hk_alg k = '''' \<or> hk_alg k = name)
     \<and> (case hk_key k of RSA_Key n e \<Rightarrow> al_rsa alg | EC_Key c x y \<Rightarrow> \<not> al_rsa alg \<and> al_curve alg = Some c)"

text \<open>\<^verbatim>\<open>Verify\<close>: \<open>SplitN\<close> gives three parts exactly when the text holds two dots.\<close>

definition verify_token :: "('j, 'f) token_env \<Rightarrow> verifier \<Rightarrow> key_env \<Rightarrow> key_reply \<Rightarrow> int \<Rightarrow> string \<Rightarrow> key_set
    \<Rightarrow> (token_error + (string, 'j) gomap) \<times> key_set" where
  "verify_token env vf ke reply now raw s =
     (if raw = '''' then (Inl (Rejected ''absent''), s)
      else if max_token_bytes < length raw then (Inl (Rejected ''malformed''), s)
      else case split_char CHR ''.'' raw of
        [h, p, g] \<Rightarrow>
          (case (raw_url_decode h, raw_url_decode g) of
             (Some head_bytes, Some sig) \<Rightarrow>
               (case te_head env head_bytes of
                  None \<Rightarrow> (Inl (Rejected ''malformed''), s)
                | Some head \<Rightarrow>
                    if th_crit head then (Inl (Rejected ''malformed''), s)
                    else (case map_of algorithms (th_alg head) of
                      None \<Rightarrow> (Inl (Rejected ''algorithm''), s)
                    | Some alg \<Rightarrow>
                        if th_kid head = '''' then (Inl (Rejected ''key''), s)
                        else (case lookup_key ke reply now (th_kid head) s of
                          (Inl e, s') \<Rightarrow> (Inl (Unavailable e), s')
                        | (Inr None, s') \<Rightarrow> (Inl (Rejected ''key''), s')
                        | (Inr (Some k), s') \<Rightarrow>
                            (if \<not> key_fits alg (th_alg head) k then Inl (Rejected ''algorithm'')
                             else if \<not> verify_signature env alg (hk_key k) (h @ ''.'' @ p) sig then Inl (Rejected ''signature'')
                             else (case raw_url_decode p of None \<Rightarrow> Inl (Rejected ''malformed'')
                               | Some payload \<Rightarrow> (case te_claims env payload of None \<Rightarrow> Inl (Rejected ''malformed'')
                                 | Some claims \<Rightarrow> try_bind (check_claims env vf now claims) (\<lambda>_. Inr claims))), s'))))
           | _ \<Rightarrow> (Inl (Rejected ''malformed''), s))
      | _ \<Rightarrow> (Inl (Rejected ''malformed''), s))"

subsection \<open>The URL and the verifier\<close>

record url_parts =
  ur_scheme :: string
  ur_host :: string
  ur_user :: bool

text \<open>\<^verbatim>\<open>New\<close>: \<open>ca\<close> is the CA file, when one is named: its error, or whether it holds a certificate.\<close>

definition new_verifier :: "url_parts option \<Rightarrow> string \<Rightarrow> string \<Rightarrow> string \<Rightarrow> (string + bool) option \<Rightarrow> string + verifier" where
  "new_verifier u issuer audience ca_file ca =
     (case u of None \<Rightarrow> Inl ''token: the key set URL is required''
      | Some u \<Rightarrow>
          if ur_user u then Inl ''token: the key set URL must not carry credentials''
          else if (ur_scheme u \<noteq> ''http'' \<and> ur_scheme u \<noteq> ''https'') \<or> ur_host u = ''''
          then Inl ''token: the key set URL must be an http or https URL with a host''
          else if issuer = '''' then Inl ''token: the issuer is required''
          else if audience = '''' then Inl ''token: the audience is required''
          else (case ca of
            Some (Inl e) \<Rightarrow> Inl (''token: reading CA file '' @ ca_file @ '': '' @ e)
          | Some (Inr False) \<Rightarrow> Inl (''token: CA file '' @ ca_file @ '' holds no certificate'')
          | _ \<Rightarrow> Inr \<lparr>vf_issuer = issuer, vf_audience = audience\<rparr>))"

subsection \<open>The cache of keys\<close>

lemma refresh_attempt: "refresh env reply now s = (attempted, err, s') \<Longrightarrow>
    ks_attempt s' = (if attempted then Some now else ks_attempt s)
    \<and> (attempted \<longrightarrow> (\<forall>t. ks_attempt s = Some t \<longrightarrow> refetch_every \<le> now - t)) \<and> (\<not> attempted \<longrightarrow> s' = s)
    \<and> (attempted \<longrightarrow> ks_have s' \<longrightarrow> (ks_keys s' = ks_keys s \<and> ks_have s \<and> ks_fetched s' = ks_fetched s)
        \<or> (ks_fetched s' = now \<and> fetch_keys env reply = Inr (ks_keys s')))"
  by (auto simp: refresh_def Let_def split: if_splits option.splits sum.splits)

text \<open>The keys a lookup may use, and when it fetched.\<close>

definition fresh :: "int \<Rightarrow> key_set \<Rightarrow> bool" where
  "fresh now s \<longleftrightarrow> ks_have s \<and> now - ks_fetched s < key_set_stale"

lemma refresh_fresh:
  assumes "refresh env reply now s = (attempted, err, s')" "ks_have s \<Longrightarrow> fresh now s" "ks_have s'"
  shows "fresh now s'"
  using refresh_attempt [OF assms(1)] assms(2,3) by (cases attempted) (auto simp: fresh_def key_set_stale_def)

lemma drop_stale_fresh: "ks_have (drop_stale now s) \<Longrightarrow> fresh now (drop_stale now s)"
  by (auto simp: drop_stale_def fresh_def split: if_splits)

lemma find_key_cases:
  assumes "find_key env reply now kid attempted s = (r, s')" "fresh now s"
  shows "(\<forall>k. r = Inr (Some k) \<longrightarrow> fresh now s' \<and> gm_get (ks_keys s') kid = Some k)
    \<and> (s' = s \<or> (\<not> attempted \<and> ks_attempt s' = Some now \<and> (\<forall>t. ks_attempt s = Some t \<longrightarrow> refetch_every \<le> now - t)))"
proof (cases "gm_get (ks_keys s) kid \<noteq> None \<or> attempted")
  case True
  then show ?thesis using assms by (auto simp: find_key_def split: option.splits)
next
  case False
  obtain b err s1 where r: "refresh env reply now s = (b, err, s1)" by (metis prod_cases3)
  have "ks_have s1 \<Longrightarrow> fresh now s1" using refresh_fresh [OF r] assms(2) by blast
  then show ?thesis using assms r False refresh_attempt [OF r]
    by (cases b) (auto simp: find_key_def split: if_splits)
qed

lemma lookup_key_cases:
  assumes "lookup_key env reply now kid s = (r, s')"
  shows "(\<forall>k. r = Inr (Some k) \<longrightarrow> fresh now s' \<and> gm_get (ks_keys s') kid = Some k)
    \<and> (ks_attempt s' = ks_attempt s \<or> (ks_attempt s' = Some now \<and> (\<forall>t. ks_attempt s = Some t \<longrightarrow> refetch_every \<le> now - t)))"
proof -
  let ?s = "drop_stale now s"
  have a: "ks_attempt ?s = ks_attempt s" by (simp add: drop_stale_def)
  show ?thesis
  proof (cases "\<not> ks_have ?s \<or> key_set_ttl \<le> now - ks_fetched ?s")
    case False
    then have "find_key env reply now kid False ?s = (r, s')" using assms by (simp add: lookup_key_def Let_def)
    from find_key_cases [OF this drop_stale_fresh] False a show ?thesis by auto
  next
    case True
    obtain b err s1 where f: "refresh env reply now ?s = (b, err, s1)" by (metis prod_cases3)
    have s1: "ks_have s1 \<Longrightarrow> fresh now s1" using refresh_fresh [OF f] drop_stale_fresh by blast
    have "if ks_have s1 then find_key env reply now kid b s1 = (r, s') else isl r \<and> s' = s1"
      using assms True f by (auto simp: lookup_key_def Let_def split: if_splits)
    then show ?thesis
      using refresh_attempt [OF f] s1 a find_key_cases [of env reply now kid b s1 r s']
      by (cases b) (auto split: if_splits)
  qed
qed

text \<open>The times at which a sequence of lookups starts a fetch.\<close>

fun fetch_starts :: "key_env \<Rightarrow> (key_reply \<times> int \<times> string) list \<Rightarrow> key_set \<Rightarrow> int list" where
  "fetch_starts env [] s = []"
| "fetch_starts env ((reply, now, kid) # qs) s = (let s' = snd (lookup_key env reply now kid s) in
     (if ks_attempt s' \<noteq> ks_attempt s then [now] else []) @ fetch_starts env qs s')"

lemma starts_after: "ks_attempt s = Some t \<Longrightarrow> \<forall>u \<in> set (fetch_starts env qs s). t + refetch_every \<le> u"
proof (induction qs arbitrary: s t)
  case Nil
  then show ?case by simp
next
  case (Cons q qs)
  obtain reply now kid where q: "q = (reply, now, kid)" by (metis prod_cases3)
  obtain r s' where l: "lookup_key env reply now kid s = (r, s')" by fastforce
  have "ks_attempt s' = Some t \<or> (ks_attempt s' = Some now \<and> refetch_every \<le> now - t)"
    using lookup_key_cases [OF l] Cons.prems by auto
  then show ?case
  proof
    assume "ks_attempt s' = Some t"
    then show ?thesis using Cons.IH [of s' t] Cons.prems l q by simp
  next
    assume "ks_attempt s' = Some now \<and> refetch_every \<le> now - t"
    moreover have "0 < refetch_every" by (simp add: refetch_every_def)
    ultimately show ?thesis using Cons.IH [of s' now] Cons.prems l q by fastforce
  qed
qed

text \<open>The realm's key set server is asked at most once in 30 seconds, whatever tokens arrive and
  whatever the server answers: the times at which a sequence of lookups fetches are each at least 30
  seconds after the one before.\<close>

theorem fetches_spaced: "sorted_wrt (\<lambda>a b. a + refetch_every \<le> b) (fetch_starts env qs s)"
proof (induction qs arbitrary: s)
  case Nil
  then show ?case by simp
next
  case (Cons q qs)
  obtain reply now kid where q: "q = (reply, now, kid)" by (metis prod_cases3)
  obtain r s' where l: "lookup_key env reply now kid s = (r, s')" by fastforce
  have "ks_attempt s' = ks_attempt s \<or> ks_attempt s' = Some now" using lookup_key_cases [OF l] by blast
  then show ?case using Cons.IH [of s'] starts_after [of s' now env qs] l q by (auto simp: Let_def)
qed

subsection \<open>What an accepted token is\<close>

text \<open>C17. Verify accepts a token only when its three parts decode, its algorithm is one of the nine
  asymmetric ones, a key of the realm fetched less than an hour ago carries its key id, fits that
  algorithm and verifies the signature over exactly the header and payload it holds, and the claims
  it returns are that payload's, with the realm's issuer, the expected audience, an expiry that has
  not passed by more than the leeway and no later start.\<close>

theorem verify_token_sound:
  assumes "verify_token env vf ke reply now raw s = (Inr claims, s')"
  shows "\<exists>h p g head_bytes head sig alg k payload ex. raw = h @ ''.'' @ p @ ''.'' @ g \<and> length raw \<le> max_token_bytes
    \<and> raw_url_decode h = Some head_bytes \<and> te_head env head_bytes = Some head \<and> \<not> th_crit head
    \<and> map_of algorithms (th_alg head) = Some alg
    \<and> fresh now s' \<and> gm_get (ks_keys s') (th_kid head) = Some k \<and> key_fits alg (th_alg head) k
    \<and> raw_url_decode g = Some sig \<and> verify_signature env alg (hk_key k) (h @ ''.'' @ p) sig
    \<and> raw_url_decode p = Some payload \<and> te_claims env payload = Some claims
    \<and> claim_text env claims ''iss'' = Some (vf_issuer vf) \<and> has_audience env (vf_audience vf) (gm_get claims ''aud'')
    \<and> claim_number env (gm_get claims ''exp'') = Some ex
    \<and> \<not> te_less env (te_plus env ex (te_seconds env leeway)) (te_seconds env now)
    \<and> (\<forall>nbf. gm_get claims ''nbf'' = Some nbf \<longrightarrow> (\<exists>x. te_number env nbf = Some x
        \<and> \<not> te_less env (te_seconds env now) (te_minus env x (te_seconds env leeway))))"
proof -
  obtain h p g where parts: "split_char CHR ''.'' raw = [h, p, g]" and len: "length raw \<le> max_token_bytes"
    using assms by (auto simp: verify_token_def split: if_splits list.splits)
  have raw: "raw = h @ ''.'' @ p @ ''.'' @ g"
    using join_split [of "CHR ''.''" raw] unfolding parts by simp
  obtain head_bytes sig head where hd: "raw_url_decode h = Some head_bytes" "raw_url_decode g = Some sig"
    "te_head env head_bytes = Some head" "\<not> th_crit head"
    using assms parts by (auto simp: verify_token_def split: if_splits option.splits)
  obtain alg r where alg: "map_of algorithms (th_alg head) = Some alg"
    and l: "lookup_key ke reply now (th_kid head) s = (r, s')"
    using assms parts hd by (auto simp: verify_token_def split: if_splits option.splits prod.splits sum.splits)
  obtain k payload where r: "r = Inr (Some k)" and fits: "key_fits alg (th_alg head) k"
      "verify_signature env alg (hk_key k) (h @ ''.'' @ p) sig" "raw_url_decode p = Some payload"
      "te_claims env payload = Some claims" "check_claims env vf now claims = Inr ()"
    using assms parts hd alg l by (auto simp: verify_token_def try_bind_Inr split: if_splits option.splits sum.splits)
  have "fresh now s' \<and> gm_get (ks_keys s') (th_kid head) = Some k" using lookup_key_cases [OF l] r by blast
  moreover have "claim_text env claims ''iss'' = Some (vf_issuer vf) \<and> has_audience env (vf_audience vf) (gm_get claims ''aud'')
      \<and> (\<exists>ex. claim_number env (gm_get claims ''exp'') = Some ex
        \<and> \<not> te_less env (te_plus env ex (te_seconds env leeway)) (te_seconds env now))
      \<and> (\<forall>nbf. gm_get claims ''nbf'' = Some nbf \<longrightarrow> (\<exists>x. te_number env nbf = Some x
        \<and> \<not> te_less env (te_seconds env now) (te_minus env x (te_seconds env leeway))))"
    using fits(5) by (auto simp: check_claims_def split: if_splits option.splits)
  ultimately show ?thesis using raw len hd alg fits by blast
qed

definition sample_claims :: "(string, string) gomap" where
  "sample_claims = [(''iss'', ''realm''), (''aud'', ''sealift''), (''exp'', ''later'')]"

definition sample_token_env :: "(string, int) token_env" where
  "sample_token_env = \<lparr>te_head = (\<lambda>_. Some \<lparr>th_alg = ''RS256'', th_kid = ''k1'', th_crit = False\<rparr>),
     te_claims = (\<lambda>_. Some sample_claims), te_text = Some, te_text_or_null = Some, te_texts = (\<lambda>_. None),
     te_number = (\<lambda>_. Some 1000), te_seconds = (\<lambda>n. n), te_plus = (+), te_minus = (-), te_less = (<),
     te_hash = (\<lambda>_ b. b), te_pss = (\<lambda>_ _ _ _ _. False), te_pkcs1 = (\<lambda>_ _ _ _ _. True),
     te_ecdsa = (\<lambda>_ _ _ _ _ _. False)\<rparr>"

definition sample_key_set :: key_set where
  "sample_key_set = \<lparr>ks_keys = [(''k1'', \<lparr>hk_alg = '''', hk_key = RSA_Key 5 3\<rparr>)], ks_have = True, ks_fetched = 500,
     ks_attempt = Some 500, ks_fail = None\<rparr>"

definition sample_key_env :: key_env where
  "sample_key_env = \<lparr>ke_doc = (\<lambda>_. None), ke_on_curve = (\<lambda>_ _ _. False)\<rparr>"

lemma sample_lookup: "lookup_key sample_key_env Bad_Request 600 ''k1'' sample_key_set
    = (Inr (Some \<lparr>hk_alg = '''', hk_key = RSA_Key 5 3\<rparr>), sample_key_set)"
  by (simp add: lookup_key_def drop_stale_def find_key_def sample_key_set_def key_set_stale_def key_set_ttl_def Let_def
      gm_get_def)

lemma sample_token: "verify_token sample_token_env \<lparr>vf_issuer = ''realm'', vf_audience = ''sealift''\<rparr> sample_key_env
    Bad_Request 600 ''AA.AA.AA'' sample_key_set = (Inr sample_claims, sample_key_set)"
proof -
  have d: "raw_url_decode ''AA'' = Some [byte_of 0]" "split_char CHR ''.'' ''AA.AA.AA'' = [''AA'', ''AA'', ''AA'']" by code_simp+
  have alg: "map_of algorithms ''RS256'' = Some (rsa_alg SHA256 False)" by (simp add: algorithms_def)
  have c: "check_claims sample_token_env \<lparr>vf_issuer = ''realm'', vf_audience = ''sealift''\<rparr> 600 sample_claims = Inr ()"
    by (simp add: check_claims_def sample_token_env_def sample_claims_def claim_text_def has_audience_def claim_number_def
        gm_get_def leeway_def)
  have v: "key_fits (rsa_alg SHA256 False) ''RS256'' \<lparr>hk_alg = '''', hk_key = RSA_Key 5 3\<rparr>"
    "verify_signature sample_token_env (rsa_alg SHA256 False) (RSA_Key 5 3) i sg" for i sg
    by (simp_all add: key_fits_def verify_signature_def rsa_alg_def sample_token_env_def)
  have e: "te_head sample_token_env b = Some \<lparr>th_alg = ''RS256'', th_kid = ''k1'', th_crit = False\<rparr>"
    "te_claims sample_token_env b = Some sample_claims" for b
    by (simp_all add: sample_token_env_def)
  show ?thesis by (simp add: verify_token_def d max_token_bytes_def e alg sample_lookup v c)
qed

theorem verify_token_sound_witness:
  "fresh 600 sample_key_set \<and> has_audience sample_token_env ''sealift'' (gm_get sample_claims ''aud'')"
  using verify_token_sound [OF sample_token] by auto

end
