(* ===== verification/Store_Settings.thy ===== *)
theory Store_Settings
  imports Npm_Manifest
begin

text \<open>
  \<^verbatim>\<open>internal/store/{types,store}.go\<close> and the names of \<^verbatim>\<open>internal/store/project.go\<close>: the settings, what
  they may hold, identifiers taken from a request and the ids of projects. Files of JSON are absent,
  unreadable or decoded; a written file goes through a temporary one and a rename, so a failing write
  leaves the old one. Quoting (\<^verbatim>\<open>%q\<close>) and \<^verbatim>\<open>strings.ToLower\<close> work on Unicode tables and are arguments.
\<close>

subsection \<open>Settings\<close>

record platform_target =
  pt_os :: string
  pt_cpu :: string
  pt_libc :: string
  pt_node :: string
  pt_pnpm :: string

record settings =
  se_target :: platform_target
  se_key :: string
  se_min_age :: int
  se_resolve :: int
  se_download :: int

definition min_release_age_max :: int where "min_release_age_max = 90"
definition resolve_parallelism_max :: int where "resolve_parallelism_max = 16"
definition download_parallelism_max :: int where "download_parallelism_max = 32"

definition default_settings :: settings where
  "default_settings = \<lparr>se_target = \<lparr>pt_os = ''linux'', pt_cpu = ''x64'', pt_libc = ''glibc'', pt_node = ''22.17.1'',
     pt_pnpm = ''10.34.5''\<rparr>, se_key = '''', se_min_age = 14, se_resolve = 4, se_download = 16\<rparr>"

datatype volume_error = No_Entry | Still_Busy | Invalid_Target string | Invalid_Limits string | Disk string

definition limit_problem :: "string \<times> int \<times> int \<times> int \<Rightarrow> string list" where
  "limit_problem c = (case c of (name, val, low, high) \<Rightarrow>
     if val < low \<or> high < val
     then [name @ '' must be between '' @ show_int low @ '' and '' @ show_int high @ '', not '' @ show_int val] else [])"

definition limit_problems :: "settings \<Rightarrow> string list" where
  "limit_problems s = concat (map limit_problem
     [(''minimum release age'', se_min_age s, 1, min_release_age_max),
      (''resolve parallelism'', se_resolve s, 1, resolve_parallelism_max),
      (''download parallelism'', se_download s, 1, download_parallelism_max)])"

definition validate_limits :: "settings \<Rightarrow> volume_error + unit" where
  "validate_limits s = (let ps = limit_problems s in
     if ps \<noteq> [] then Inl (Invalid_Limits (''invalid limits: '' @ join_with ''; '' ps)) else Inr ())"

definition target_problems :: "(string \<Rightarrow> string) \<Rightarrow> platform_target \<Rightarrow> string list" where
  "target_problems quote t =
     concat (map (\<lambda>(name, val). if val = '''' then [name @ '' is empty''] else [])
       [(''os'', pt_os t), (''cpu'', pt_cpu t), (''node'', pt_node t), (''pnpm version'', pt_pnpm t)])
     @ (if pt_node t \<noteq> '''' \<and> \<not> is_exact_version (pt_node t)
        then [''node must be exact, such as 22.17.1, not '' @ quote (pt_node t)] else [])
     @ (if pt_pnpm t \<noteq> '''' \<and> \<not> is_exact_version (pt_pnpm t)
        then [''pnpm version must be exact, such as 10.34.5, not '' @ quote (pt_pnpm t)] else [])"

definition validate_target :: "(string \<Rightarrow> string) \<Rightarrow> platform_target \<Rightarrow> volume_error + unit" where
  "validate_target quote t = (let ps = target_problems quote t in
     if ps \<noteq> [] then Inl (Invalid_Target (''invalid target: '' @ join_with ''; '' ps)) else Inr ())"

text \<open>What a target and settings must be.\<close>

definition good_target :: "platform_target \<Rightarrow> bool" where
  "good_target t \<longleftrightarrow> pt_os t \<noteq> '''' \<and> pt_cpu t \<noteq> '''' \<and> is_exact_version (pt_node t) \<and> is_exact_version (pt_pnpm t)"

definition good_settings :: "settings \<Rightarrow> bool" where
  "good_settings s \<longleftrightarrow> good_target (se_target s) \<and> 1 \<le> se_min_age s \<and> se_min_age s \<le> min_release_age_max
     \<and> 1 \<le> se_resolve s \<and> se_resolve s \<le> resolve_parallelism_max
     \<and> 1 \<le> se_download s \<and> se_download s \<le> download_parallelism_max"

lemma exact_version_nonempty [simp]: "\<not> is_exact_version ''''"
  by code_simp

lemma target_problems_Nil: "target_problems quote t = [] \<longleftrightarrow> good_target t"
  by (auto simp: target_problems_def good_target_def)

lemma limit_problems_Nil: "limit_problems s = [] \<longleftrightarrow> 1 \<le> se_min_age s \<and> se_min_age s \<le> min_release_age_max
    \<and> 1 \<le> se_resolve s \<and> se_resolve s \<le> resolve_parallelism_max
    \<and> 1 \<le> se_download s \<and> se_download s \<le> download_parallelism_max"
  by (auto simp: limit_problems_def limit_problem_def)

lemma validate_Inr [simp]:
  "validate_target quote t = Inr u \<longleftrightarrow> good_target t"
  "validate_limits s = Inr u \<longleftrightarrow> limit_problems s = []"
  by (auto simp: validate_target_def validate_limits_def Let_def target_problems_Nil)

subsection \<open>Identifiers\<close>

definition id_char :: "char \<Rightarrow> bool" where
  "id_char c \<longleftrightarrow> is_alnum c \<or> c \<in> {CHR ''-'', CHR ''.'', CHR ''_''}"

definition valid_dir_id :: "string \<Rightarrow> bool" where
  "valid_dir_id s \<longleftrightarrow> \<not> (s = '''' \<or> s = ''.'' \<or> s = ''..'' \<or> list_ex (\<lambda>c. c \<in> {CHR ''/'', CHR 0x5C}) s \<or> contains_str ''..'' s)
     \<and> list_all id_char s"

text \<open>\<^verbatim>\<open>nonSlugRun.ReplaceAllString(s, "-")\<close>: each maximal run of other characters becomes one hyphen.\<close>

definition slug_char :: "char \<Rightarrow> bool" where
  "slug_char c \<longleftrightarrow> is_lower c \<or> is_digit c"

fun fold_runs :: "bool \<Rightarrow> string \<Rightarrow> string" where
  "fold_runs in_run [] = []"
| "fold_runs in_run (c # cs) = (if slug_char c then c # fold_runs False cs
     else if in_run then fold_runs True cs else CHR ''-'' # fold_runs True cs)"

definition trim_hyphens :: "string \<Rightarrow> string" where
  "trim_hyphens s = rev (dropWhile (\<lambda>c. c = CHR ''-'') (rev (dropWhile (\<lambda>c. c = CHR ''-'') s)))"

definition slug :: "(string \<Rightarrow> string) \<Rightarrow> string \<Rightarrow> string" where
  "slug to_lower name = trim_hyphens (fold_runs False
     (map (\<lambda>c. if c = CHR ''@'' \<or> c = CHR ''/'' then CHR ''-'' else c) (to_lower name)))"

lemma fold_runs_chars: "list_all (\<lambda>c. slug_char c \<or> c = CHR ''-'') (fold_runs b s)"
  by (induction b s rule: fold_runs.induct) auto

lemma trim_hyphens_set: "set (trim_hyphens s) \<subseteq> set s"
  unfolding trim_hyphens_def by (metis (no_types, lifting) set_dropWhileD set_rev subsetI)

lemma slug_chars: "list_all (\<lambda>c. slug_char c \<or> c = CHR ''-'') (slug to_lower name)"
  using fold_runs_chars trim_hyphens_set unfolding slug_def list_all_iff by fast

lemma slug_id_char: "slug_char c \<or> c = CHR ''-'' \<Longrightarrow> id_char c \<and> c \<noteq> CHR ''.'' \<and> c \<noteq> CHR ''/''"
  by (auto simp: slug_char_def id_char_def is_alnum_def is_lower_def is_digit_def)

end
