(* ===== verification/Store_Folders.thy ===== *)
theory Store_Folders
  imports Store_Settings
begin

text \<open>
  \<^verbatim>\<open>internal/store/{project,pending,analysis,export,sweep}.go\<close>: the folders of projects and, below each,
  of analyses and exports. A folder is an association list from names; what the file system answers to
  a write, a rename or a removal is an argument of the operation. A directory of a kind that is missing
  and an empty one answer alike. A failing removal leaves what its argument says.
\<close>

subsection \<open>Time stamps\<close>

record stamp =
  sm_year :: nat
  sm_month :: nat
  sm_day :: nat
  sm_hour :: nat
  sm_minute :: nat
  sm_second :: nat

definition pad2 :: "nat \<Rightarrow> string" where
  "pad2 n = [digit_char (n div 10 mod 10), digit_char (n mod 10)]"

text \<open>\<^verbatim>\<open>Format("20060102T150405Z")\<close>, for years of four digits.\<close>

definition format_stamp :: "stamp \<Rightarrow> string" where
  "format_stamp t = pad2 (sm_year t div 100) @ pad2 (sm_year t mod 100) @ pad2 (sm_month t) @ pad2 (sm_day t)
     @ ''T'' @ pad2 (sm_hour t) @ pad2 (sm_minute t) @ pad2 (sm_second t) @ ''Z''"

definition digit_value :: "char \<Rightarrow> nat" where
  "digit_value c = of_char c - 48"

text \<open>\<^verbatim>\<open>getnum\<close>: two digits; when they are not fixed, one will do.\<close>

fun getnum :: "bool \<Rightarrow> string \<Rightarrow> (nat \<times> string) option" where
  "getnum fixed (a # b # r) = (if \<not> is_digit a then None
     else if is_digit b then Some (10 * digit_value a + digit_value b, r)
     else if fixed then None else Some (digit_value a, b # r))"
| "getnum fixed [a] = (if is_digit a \<and> \<not> fixed then Some (digit_value a, []) else None)"
| "getnum fixed [] = None"

definition leap_year :: "nat \<Rightarrow> bool" where
  "leap_year y \<longleftrightarrow> 4 dvd y \<and> (\<not> 100 dvd y \<or> 400 dvd y)"

definition days_in :: "nat \<Rightarrow> nat \<Rightarrow> nat" where
  "days_in y m = (if m = 2 then (if leap_year y then 29 else 28) else if m \<in> {4, 6, 9, 11} then 30 else 31)"

text \<open>\<^verbatim>\<open>time.Parse\<close> for this layout. It takes an hour of one digit, and a fraction after the seconds.\<close>

definition skip_fraction :: "string \<Rightarrow> string" where
  "skip_fraction s = (case s of
     c # d # r \<Rightarrow> if (c = CHR ''.'' \<or> c = CHR '','') \<and> is_digit d then dropWhile is_digit r else s
   | _ \<Rightarrow> s)"

definition in_bounds :: "nat \<Rightarrow> nat \<Rightarrow> nat \<Rightarrow> bool" where
  "in_bounds low high n \<longleftrightarrow> low \<le> n \<and> n \<le> high"

definition parse_stamp :: "string \<Rightarrow> stamp option" where
  "parse_stamp s =
     Option.bind (getnum True s) (\<lambda>(c, s).
     Option.bind (getnum True s) (\<lambda>(y, s).
     Option.bind (getnum True s) (\<lambda>(mo, s). if \<not> in_bounds 1 12 mo then None else
     Option.bind (getnum True s) (\<lambda>(d, s). if \<not> has_prefix ''T'' s then None else
     Option.bind (getnum False (drop 1 s)) (\<lambda>(h, s). if \<not> in_bounds 0 23 h then None else
     Option.bind (getnum True s) (\<lambda>(mi, s). if \<not> in_bounds 0 59 mi then None else
     Option.bind (getnum True s) (\<lambda>(se, s). if \<not> in_bounds 0 59 se then None else
       if skip_fraction s \<noteq> ''Z'' \<or> \<not> in_bounds 1 (days_in (100 * c + y) mo) d then None
       else Some \<lparr>sm_year = 100 * c + y, sm_month = mo, sm_day = d, sm_hour = h, sm_minute = mi, sm_second = se\<rparr>)))))))"

definition good_stamp :: "stamp \<Rightarrow> bool" where
  "good_stamp t \<longleftrightarrow> sm_year t < 10000 \<and> in_bounds 1 12 (sm_month t) \<and> in_bounds 1 (days_in (sm_year t) (sm_month t)) (sm_day t)
     \<and> sm_hour t < 24 \<and> sm_minute t < 60 \<and> sm_second t < 60"

lemma getnum_pad2: "n < 100 \<Longrightarrow> getnum fixed (pad2 n @ r) = Some (n, r)"
  by (simp add: pad2_def digit_value_def)

lemma days_in_bound: "days_in y m \<le> 31"
  by (simp add: days_in_def)

lemma parse_format_tail: "good_stamp t \<Longrightarrow> parse_stamp (format_stamp t @ r) = (if r = [] then Some t else None)"
proof -
  assume g: "good_stamp t"
  have "sm_day t \<le> 31" using g days_in_bound order_trans by (fastforce simp: good_stamp_def in_bounds_def)
  then have n: "sm_year t div 100 < 100" "sm_year t mod 100 < 100" "sm_month t < 100" "sm_day t < 100" "sm_hour t < 100"
      "sm_minute t < 100" "sm_second t < 100"
    using g by (auto simp: good_stamp_def in_bounds_def)
  have e: "format_stamp t @ r = pad2 (sm_year t div 100) @ pad2 (sm_year t mod 100) @ pad2 (sm_month t) @ pad2 (sm_day t)
      @ (CHR ''T'' # (pad2 (sm_hour t) @ pad2 (sm_minute t) @ pad2 (sm_second t) @ CHR ''Z'' # r))"
    by (simp add: format_stamp_def)
  have z: "skip_fraction (CHR ''Z'' # r) = CHR ''Z'' # r" by (simp add: skip_fraction_def split: list.splits)
  show ?thesis
    using g unfolding e parse_stamp_def getnum_pad2 [OF n(1)] Option.bind.simps
    by (simp add: getnum_pad2 n z good_stamp_def in_bounds_def)
qed

subsection \<open>What the volume holds\<close>

type_synonym time = int
type_synonym bytes = string

datatype 'a json_file = Unreadable string | Decoded 'a

record step_row =
  sr_name :: string
  sr_state :: string
  sr_error :: string

text \<open>\<^verbatim>\<open>status.json\<close>: the state, when the object holds one, and what else is read back.\<close>

record status_file =
  sx_state :: "string option"
  sx_analysis :: string
  sx_trivy :: string
  sx_trivy_db :: time
  sx_pnpm :: string
  sx_steps :: "step_row list"

record export_manifest =
  em_analysis :: string
  em_created :: "time option"

record job_folder =
  jf_status :: "status_file json_file option"
  jf_ranking :: "(string + bytes) option"
  jf_manifest :: "export_manifest json_file option"
  jf_other :: "(string \<times> bool) list"

definition empty_folder :: job_folder where
  "empty_folder = \<lparr>jf_status = None, jf_ranking = None, jf_manifest = None, jf_other = []\<rparr>"

text \<open>The entries of a folder, each with whether it is a regular file.\<close>

definition folder_entries :: "job_folder \<Rightarrow> (string \<times> bool) list" where
  "folder_entries f = (if jf_status f = None then [] else [(''status.json'', True)])
     @ (if jf_ranking f = None then [] else [(''ranking.json'', True)])
     @ (if jf_manifest f = None then [] else [(''manifest.json'', True)]) @ jf_other f"

record project_file =
  pf_id :: string
  pf_name :: string
  pf_target :: platform_target
  pf_created :: time
  pf_hash :: string

type_synonym folders = "(string, job_folder) gomap"

record project_folder =
  pd_record :: "project_file json_file option"
  pd_package :: "(string + bytes) option"
  pd_analyses :: folders
  pd_exports :: folders

definition empty_project :: project_folder where
  "empty_project = \<lparr>pd_record = None, pd_package = None, pd_analyses = [], pd_exports = []\<rparr>"

record volume =
  vl_settings :: settings
  vl_stored :: "settings json_file option"
  vl_projects :: "(string, project_folder) gomap"

datatype job_kind = Analyses | Exports

definition kind_of_name :: "string \<Rightarrow> job_kind option" where
  "kind_of_name s = (if s = ''analyses'' then Some Analyses else if s = ''exports'' then Some Exports else None)"

fun kind_folders :: "job_kind \<Rightarrow> project_folder \<Rightarrow> folders" where
  "kind_folders Analyses pd = pd_analyses pd"
| "kind_folders Exports pd = pd_exports pd"

fun set_folders :: "job_kind \<Rightarrow> folders \<Rightarrow> project_folder \<Rightarrow> project_folder" where
  "set_folders Analyses f pd = pd\<lparr>pd_analyses := f\<rparr>"
| "set_folders Exports f pd = pd\<lparr>pd_exports := f\<rparr>"

definition project_at :: "volume \<Rightarrow> string \<Rightarrow> project_folder" where
  "project_at vol p = (case gm_get (vl_projects vol) p of None \<Rightarrow> empty_project | Some pd \<Rightarrow> pd)"

definition folders_at :: "volume \<Rightarrow> string \<Rightarrow> job_kind \<Rightarrow> folders" where
  "folders_at vol p k = kind_folders k (project_at vol p)"

definition put_folders :: "string \<Rightarrow> job_kind \<Rightarrow> folders \<Rightarrow> volume \<Rightarrow> volume" where
  "put_folders p k f vol = vol\<lparr>vl_projects := gm_put p (set_folders k f (project_at vol p)) (vl_projects vol)\<rparr>"

lemma kind_set_folders [simp]: "kind_folders k (set_folders k' f pd) = (if k = k' then f else kind_folders k pd)"
  by (cases k; cases k') auto

lemma set_folders_rest [simp]: "pd_record (set_folders k f pd) = pd_record pd" "pd_package (set_folders k f pd) = pd_package pd"
  by (cases k; simp)+

lemma project_at_put [simp]: "project_at (put_folders p k f vol) q = (if q = p then set_folders k f (project_at vol p) else project_at vol q)"
  by (simp add: project_at_def put_folders_def)

lemma folders_at_put [simp]: "folders_at (put_folders p k f vol) q j = (if q = p \<and> j = k then f else folders_at vol q j)"
  by (auto simp: folders_at_def)

definition tmp_suffix :: string where "tmp_suffix = ''.tmp''"

definition is_tmp :: "string \<Rightarrow> bool" where
  "is_tmp name = has_suffix tmp_suffix name"

lemma is_tmp_append [simp]: "is_tmp (i @ tmp_suffix)"
  by (auto simp: is_tmp_def has_suffix_iff)

text \<open>What the file system answers to one operation.\<close>

record folder_faults =
  vf_mkdirs :: "string option"
  vf_stat :: "string option"
  vf_mkdir :: "string option"
  vf_write :: "string option"
  vf_write2 :: "string option"
  vf_rename :: "string option"
  vf_list :: "string option"
  vf_parent :: "string option"

definition sound_disk :: folder_faults where
  "sound_disk = \<lparr>vf_mkdirs = None, vf_stat = None, vf_mkdir = None, vf_write = None, vf_write2 = None, vf_rename = None, vf_list = None, vf_parent = None\<rparr>"

lemma sound_disk_simps [simp]: "vf_mkdirs sound_disk = None" "vf_stat sound_disk = None" "vf_mkdir sound_disk = None"
    "vf_write sound_disk = None" "vf_write2 sound_disk = None" "vf_rename sound_disk = None" "vf_list sound_disk = None"
    "vf_parent sound_disk = None"
  by (simp_all add: sound_disk_def)

subsection \<open>Settings\<close>

text \<open>\<^verbatim>\<open>Open\<close> over what the volume held; an absent file gets the defaults.\<close>

definition save_settings :: "(string \<Rightarrow> string) \<Rightarrow> folder_faults \<Rightarrow> settings \<Rightarrow> volume \<Rightarrow> (volume_error + unit) \<times> volume" where
  "save_settings quote ft s vol =
     (case try_bind (validate_target quote (se_target s)) (\<lambda>_. validate_limits s) of
        Inl e \<Rightarrow> (Inl e, vol)
      | Inr _ \<Rightarrow> (case vf_write ft of Some e \<Rightarrow> (Inl (Disk e), vol)
        | None \<Rightarrow> (Inr (), vol\<lparr>vl_settings := s, vl_stored := Some (Decoded s)\<rparr>)))"

definition open_volume :: "(string \<Rightarrow> string) \<Rightarrow> folder_faults \<Rightarrow> volume \<Rightarrow> volume_error + volume" where
  "open_volume quote ft vol = (case vf_mkdirs ft of Some e \<Rightarrow> Inl (Disk e)
   | None \<Rightarrow> (case vf_stat ft of Some e \<Rightarrow> Inl (Disk (''store: stat settings: '' @ e))
     | None \<Rightarrow> (case vl_stored vol of
         None \<Rightarrow> (case save_settings quote ft default_settings vol of (Inl e, _) \<Rightarrow> Inl e | (Inr _, vol') \<Rightarrow> Inr vol')
       | Some (Unreadable e) \<Rightarrow> Inl (Disk (''store: read settings: '' @ e))
       | Some (Decoded s) \<Rightarrow> Inr (vol\<lparr>vl_settings := s\<rparr>))))"

subsection \<open>Pending folders\<close>

record pending =
  pn_project :: string
  pn_kind :: job_kind
  pn_id :: string

text \<open>\<open>ids\<close> are the names tried: the time stamp, then the stamp with a random suffix (or the error of
  drawing it), ten at most.\<close>

fun reserve_dir :: "folder_faults \<Rightarrow> folders \<Rightarrow> (string + string) list \<Rightarrow> volume_error + string" where
  "reserve_dir ft fs [] = Inl (Disk ''store: could not allocate an id'')"
| "reserve_dir ft fs (Inl e # ids) = Inl (Disk (''store: generate id: '' @ e))"
| "reserve_dir ft fs (Inr i # ids) =
     (case vf_stat ft of Some e \<Rightarrow> Inl (Disk (''store: stat: '' @ e))
      | None \<Rightarrow>
          if gm_has fs i then reserve_dir ft fs ids
          else if gm_has fs (i @ tmp_suffix) then reserve_dir ft fs ids
          else (case vf_mkdir ft of Some e \<Rightarrow> Inl (Disk (''store: create: '' @ e)) | None \<Rightarrow> Inr i))"

definition dir_names :: "stamp \<Rightarrow> (string + string) list \<Rightarrow> (string + string) list" where
  "dir_names now draws = take 10 (Inr (format_stamp now)
     # map (\<lambda>d. case d of Inl e \<Rightarrow> Inl e | Inr x \<Rightarrow> Inr (format_stamp now @ ''-'' @ x)) draws)"

definition new_dir :: "folder_faults \<Rightarrow> string \<Rightarrow> string \<Rightarrow> stamp \<Rightarrow> (string + string) list \<Rightarrow> volume
    \<Rightarrow> (volume_error + pending) \<times> volume" where
  "new_dir ft kind p now draws vol = (case kind_of_name kind of
     None \<Rightarrow> (Inl No_Entry, vol)
   | Some k \<Rightarrow>
       if \<not> valid_dir_id p then (Inl No_Entry, vol)
       else (case vf_mkdirs ft of Some e \<Rightarrow> (Inl (Disk e), vol)
         | None \<Rightarrow> let fs = folders_at vol p k in
             case reserve_dir ft fs (dir_names now draws) of
               Inl e \<Rightarrow> (Inl e, put_folders p k fs vol)
             | Inr i \<Rightarrow> (Inr \<lparr>pn_project = p, pn_kind = k, pn_id = i\<rparr>,
                 put_folders p k (gm_put (i @ tmp_suffix) empty_folder fs) vol)))"

text \<open>\<^verbatim>\<open>Commit\<close> renames. Renaming onto a folder that holds something fails.\<close>

definition pending_folders :: "pending \<Rightarrow> volume \<Rightarrow> folders" where
  "pending_folders pn vol = folders_at vol (pn_project pn) (pn_kind pn)"

definition commit :: "folder_faults \<Rightarrow> pending \<Rightarrow> volume \<Rightarrow> (volume_error + unit) \<times> volume" where
  "commit ft pn vol = (let fs = pending_folders pn vol; tmp = pn_id pn @ tmp_suffix in
     case vf_rename ft of Some e \<Rightarrow> (Inl (Disk e), vol)
     | None \<Rightarrow> (case gm_get fs tmp of
         None \<Rightarrow> (Inl (Disk ''no such file or directory''), vol)
       | Some f \<Rightarrow>
           if (case gm_get fs (pn_id pn) of None \<Rightarrow> False | Some g \<Rightarrow> folder_entries g \<noteq> [])
           then (Inl (Disk ''directory not empty''), vol)
           else (Inr (), put_folders (pn_project pn) (pn_kind pn) (gm_put (pn_id pn) f (gm_del tmp fs)) vol)))"

text \<open>A removal that fails gives its error and what it leaves of the folder.\<close>

type_synonym removal_fault = "(string \<times> job_folder option) option"

definition remove_folder :: "removal_fault \<Rightarrow> string \<Rightarrow> folders \<Rightarrow> (volume_error + unit) \<times> folders" where
  "remove_folder rf name fs = (case rf of
     None \<Rightarrow> (Inr (), gm_del name fs)
   | Some (e, None) \<Rightarrow> (Inl (Disk e), gm_del name fs)
   | Some (e, Some left) \<Rightarrow> (Inl (Disk e), if gm_has fs name then gm_put name left fs else fs))"

definition discard :: "removal_fault \<Rightarrow> pending \<Rightarrow> volume \<Rightarrow> (volume_error + unit) \<times> volume" where
  "discard rf pn vol = (case remove_folder rf (pn_id pn @ tmp_suffix) (pending_folders pn vol) of
     (r, fs) \<Rightarrow> (r, put_folders (pn_project pn) (pn_kind pn) fs vol))"

subsection \<open>Projects\<close>

record project =
  po_id :: string
  po_name :: string
  po_target :: platform_target
  po_hash :: string
  po_created :: time

text \<open>\<open>sha\<close> is the hexadecimal sha256. The hash of an old record without one is computed, not stored.\<close>

definition project_of :: "(bytes \<Rightarrow> string) \<Rightarrow> volume \<Rightarrow> string \<Rightarrow> volume_error + project" where
  "project_of sha vol i = (if \<not> valid_dir_id i then Inl No_Entry
     else let pd = project_at vol i in case pd_record pd of
       None \<Rightarrow> Inl No_Entry
     | Some (Unreadable e) \<Rightarrow> Inl (Disk e)
     | Some (Decoded r) \<Rightarrow> Inr \<lparr>po_id = pf_id r, po_name = pf_name r, po_target = pf_target r,
         po_hash = (if pf_hash r = '''' then (case pd_package pd of Some (Inr dat) \<Rightarrow> sha dat | _ \<Rightarrow> '''') else pf_hash r),
         po_created = pf_created r\<rparr>)"

definition cmp_project :: "project \<Rightarrow> project \<Rightarrow> int" where
  "cmp_project a b = cmp_or [go_compare (po_created b) (po_created a), go_compare (po_id a) (po_id b)]"

definition projects :: "(bytes \<Rightarrow> string) \<Rightarrow> folder_faults \<Rightarrow> volume \<Rightarrow> volume_error + project list" where
  "projects sha ft vol = (case vf_list ft of Some e \<Rightarrow> Inl (Disk e)
   | None \<Rightarrow> Inr (sort_func cmp_project (List.map_filter
       (\<lambda>name. if is_tmp name then None else case project_of sha vol name of Inl _ \<Rightarrow> None | Inr p \<Rightarrow> Some p)
       (map fst (vl_projects vol)))))"

definition projects_by_hash :: "(bytes \<Rightarrow> string) \<Rightarrow> folder_faults \<Rightarrow> string \<Rightarrow> volume \<Rightarrow> volume_error + project list" where
  "projects_by_hash sha ft h vol = try_bind (projects sha ft vol) (\<lambda>ps.
     Inr (sort_func (\<lambda>a b. go_compare (po_created b) (po_created a)) (filter (\<lambda>p. po_hash p = h) ps)))"

text \<open>\<open>suffixes\<close> are the random suffixes drawn, ten at most.\<close>

fun reserve_project :: "folder_faults \<Rightarrow> volume \<Rightarrow> string \<Rightarrow> (string + string) list \<Rightarrow> volume_error + string" where
  "reserve_project ft vol base [] = Inl (Disk ''store: could not allocate an id'')"
| "reserve_project ft vol base (Inl e # ds) = Inl (Disk (''store: generate project id: '' @ e))"
| "reserve_project ft vol base (Inr x # ds) = (let i = base @ ''-'' @ x in
     if gm_has (vl_projects vol) i then reserve_project ft vol base ds
     else case vf_mkdir ft of Some e \<Rightarrow> Inl (Disk (''store: create: '' @ e)) | None \<Rightarrow> Inr i)"

text \<open>A failing write removes the reserved folder again; \<open>rf\<close> is what is left when that fails too.\<close>

definition create_project :: "(string \<Rightarrow> string) \<Rightarrow> (bytes \<Rightarrow> string) \<Rightarrow> folder_faults \<Rightarrow> project_folder option
    \<Rightarrow> string \<Rightarrow> bytes \<Rightarrow> time \<Rightarrow> (string + string) list \<Rightarrow> volume \<Rightarrow> (volume_error + project) \<times> volume" where
  "create_project to_lower sha ft rf name package now draws vol = (let base = slug to_lower name in
     if base = '''' then (Inl (Disk ''store: no usable characters for a project id''), vol)
     else case reserve_project ft vol base (take 10 draws) of
       Inl e \<Rightarrow> (Inl e, vol)
     | Inr i \<Rightarrow>
         let t = se_target (vl_settings vol); h = sha package;
             r = \<lparr>pf_id = i, pf_name = name, pf_target = t, pf_created = now, pf_hash = h\<rparr>;
             left = (case rf of None \<Rightarrow> vol | Some pd \<Rightarrow> vol\<lparr>vl_projects := gm_put i pd (vl_projects vol)\<rparr>) in
         case vf_write ft of Some e \<Rightarrow> (Inl (Disk e), left)
         | None \<Rightarrow> (case vf_write2 ft of Some e \<Rightarrow> (Inl (Disk e), left)
           | None \<Rightarrow> (Inr \<lparr>po_id = i, po_name = name, po_target = t, po_hash = h, po_created = now\<rparr>,
               vol\<lparr>vl_projects := gm_put i (empty_project\<lparr>pd_record := Some (Decoded r), pd_package := Some (Inr package)\<rparr>)
                 (vl_projects vol)\<rparr>)))"

definition set_project_target :: "(string \<Rightarrow> string) \<Rightarrow> folder_faults \<Rightarrow> string \<Rightarrow> platform_target \<Rightarrow> volume
    \<Rightarrow> (volume_error + unit) \<times> volume" where
  "set_project_target quote ft i t vol =
     (if \<not> valid_dir_id i then (Inl No_Entry, vol)
      else case validate_target quote t of Inl e \<Rightarrow> (Inl e, vol)
      | Inr _ \<Rightarrow> (case pd_record (project_at vol i) of
          None \<Rightarrow> (Inl No_Entry, vol)
        | Some (Unreadable e) \<Rightarrow> (Inl (Disk e), vol)
        | Some (Decoded r) \<Rightarrow> (case vf_write ft of Some e \<Rightarrow> (Inl (Disk e), vol)
          | None \<Rightarrow> (Inr (), vol\<lparr>vl_projects := gm_put i ((project_at vol i)\<lparr>pd_record := Some (Decoded (r\<lparr>pf_target := t\<rparr>))\<rparr>)
              (vl_projects vol)\<rparr>))))"

definition delete_project :: "folder_faults \<Rightarrow> (string \<times> project_folder option) option \<Rightarrow> string \<Rightarrow> volume
    \<Rightarrow> (volume_error + unit) \<times> volume" where
  "delete_project ft rf i vol =
     (if \<not> valid_dir_id i then (Inl No_Entry, vol)
      else case vf_stat ft of Some e \<Rightarrow> (Inl (Disk e), vol)
      | None \<Rightarrow> (case gm_get (vl_projects vol) i of
          None \<Rightarrow> (Inl No_Entry, vol)
        | Some pd \<Rightarrow> (case vf_list ft of Some e \<Rightarrow> (Inl (Disk e), vol)
          | None \<Rightarrow>
              if list_ex (\<lambda>k. list_ex is_tmp (map fst (kind_folders k pd))) [Analyses, Exports] then (Inl Still_Busy, vol)
              else (case rf of
                None \<Rightarrow> (Inr (), vol\<lparr>vl_projects := gm_del i (vl_projects vol)\<rparr>)
              | Some (e, None) \<Rightarrow> (Inl (Disk e), vol\<lparr>vl_projects := gm_del i (vl_projects vol)\<rparr>)
              | Some (e, Some left) \<Rightarrow> (Inl (Disk e), vol\<lparr>vl_projects := gm_put i left (vl_projects vol)\<rparr>)))))"

subsection \<open>Reading analyses and exports\<close>

record job_info =
  ji_id :: string
  ji_project :: string
  ji_analysis :: string
  ji_state :: string
  ji_created :: "stamp + time"
  ji_result :: "bytes option"
  ji_trivy :: string
  ji_trivy_db :: time
  ji_pnpm :: string
  ji_failure :: "(string \<times> string) option"
  ji_files :: "string list"

definition state_done :: string where "state_done = ''done''"
definition state_failed :: string where "state_failed = ''failed''"
definition state_running :: string where "state_running = ''running''"
definition state_queued :: string where "state_queued = ''queued''"
definition state_cancelled :: string where "state_cancelled = ''cancelled''"
definition state_interrupted :: string where "state_interrupted = ''interrupted''"

definition first_failure :: "step_row list \<Rightarrow> (string \<times> string) option" where
  "first_failure steps = map_option (\<lambda>r. (sr_name r, sr_error r)) (find (\<lambda>r. sr_state r = state_failed) steps)"

definition state_text :: "status_file \<Rightarrow> string" where
  "state_text s = (case sx_state s of None \<Rightarrow> '''' | Some t \<Rightarrow> t)"

definition read_analysis_info :: "string \<Rightarrow> string \<Rightarrow> job_folder \<Rightarrow> volume_error + job_info" where
  "read_analysis_info p i f = (case parse_stamp i of
     None \<Rightarrow> Inl (Disk (''store: '' @ i @ '' is not a valid analysis id''))
   | Some t \<Rightarrow>
       let info = \<lparr>ji_id = i, ji_project = p, ji_analysis = '''', ji_state = state_interrupted, ji_created = Inl t, ji_result = None,
             ji_trivy = '''', ji_trivy_db = 0, ji_pnpm = '''', ji_failure = None, ji_files = []\<rparr> in
       try_bind (case jf_status f of
           None \<Rightarrow> Inr info
         | Some (Unreadable e) \<Rightarrow> Inl (Disk (''store: read status.json for '' @ i @ '': '' @ e))
         | Some (Decoded s) \<Rightarrow> Inr (info\<lparr>ji_state := state_text s, ji_trivy := sx_trivy s, ji_trivy_db := sx_trivy_db s,
             ji_pnpm := sx_pnpm s, ji_failure := first_failure (sx_steps s)\<rparr>)) (\<lambda>info.
       case jf_ranking f of
         None \<Rightarrow> Inr info
       | Some (Inl e) \<Rightarrow> Inl (Disk (''store: read ranking.json for '' @ i @ '': '' @ e))
       | Some (Inr raw) \<Rightarrow> Inr (info\<lparr>ji_result := Some raw\<rparr>)))"

definition read_export_info :: "folder_faults \<Rightarrow> string \<Rightarrow> string \<Rightarrow> job_folder \<Rightarrow> volume_error + job_info" where
  "read_export_info ft p i f = (case parse_stamp i of
     None \<Rightarrow> Inl (Disk (''store: '' @ i @ '' is not a valid export id''))
   | Some t \<Rightarrow>
       let info = \<lparr>ji_id = i, ji_project = p, ji_analysis = '''', ji_state = state_done, ji_created = Inl t, ji_result = None,
             ji_trivy = '''', ji_trivy_db = 0, ji_pnpm = '''', ji_failure = None, ji_files = []\<rparr> in
       try_bind (case jf_manifest f of
           None \<Rightarrow> Inr info
         | Some (Unreadable e) \<Rightarrow> Inl (Disk (''store: read manifest.json for '' @ i @ '': '' @ e))
         | Some (Decoded m) \<Rightarrow> Inr (info\<lparr>ji_analysis := em_analysis m,
             ji_created := (case em_created m of None \<Rightarrow> Inl t | Some c \<Rightarrow> Inr c)\<rparr>)) (\<lambda>info.
       try_bind (case jf_status f of
           None \<Rightarrow> Inr info
         | Some (Unreadable e) \<Rightarrow> Inl (Disk (''store: read status.json for '' @ i @ '': '' @ e))
         | Some (Decoded s) \<Rightarrow> Inr (info\<lparr>ji_state := state_text s,
             ji_analysis := (if sx_analysis s \<noteq> '''' then sx_analysis s else ji_analysis info),
             ji_failure := first_failure (sx_steps s)\<rparr>)) (\<lambda>info.
       case vf_list ft of Some e \<Rightarrow> Inl (Disk e)
       | None \<Rightarrow> Inr (info\<lparr>ji_files := sort_func go_compare
           (map fst (filter (\<lambda>(n, regular). regular \<and> n \<noteq> ''status.json'') (folder_entries f)))\<rparr>))))"

definition read_info :: "folder_faults \<Rightarrow> job_kind \<Rightarrow> string \<Rightarrow> string \<Rightarrow> job_folder \<Rightarrow> volume_error + job_info" where
  "read_info ft k = (case k of Analyses \<Rightarrow> read_analysis_info | Exports \<Rightarrow> read_export_info ft)"

definition cmp_newest :: "job_info \<Rightarrow> job_info \<Rightarrow> int" where
  "cmp_newest a b = go_compare (ji_id b) (ji_id a)"

definition job_infos :: "folder_faults \<Rightarrow> job_kind \<Rightarrow> string \<Rightarrow> volume \<Rightarrow> volume_error + job_info list" where
  "job_infos ft k p vol = (if \<not> valid_dir_id p then Inl No_Entry
     else case vf_parent ft of Some e \<Rightarrow> Inl (Disk (''store: list: '' @ e))
     | None \<Rightarrow> Inr (sort_func cmp_newest (List.map_filter
         (\<lambda>(name, f). if is_tmp name then None else case read_info ft k p name f of Inl _ \<Rightarrow> None | Inr info \<Rightarrow> Some info)
         (folders_at vol p k))))"

definition job_info_of :: "folder_faults \<Rightarrow> job_kind \<Rightarrow> string \<Rightarrow> string \<Rightarrow> volume \<Rightarrow> volume_error + job_info" where
  "job_info_of ft k p i vol = (if \<not> valid_dir_id p \<or> \<not> valid_dir_id i then Inl No_Entry
     else case vf_stat ft of Some e \<Rightarrow> Inl (Disk e)
     | None \<Rightarrow> (case gm_get (folders_at vol p k) i of None \<Rightarrow> Inl No_Entry | Some f \<Rightarrow> read_info ft k p i f))"

definition delete_job_dir :: "folder_faults \<Rightarrow> removal_fault \<Rightarrow> job_kind \<Rightarrow> string \<Rightarrow> string \<Rightarrow> volume
    \<Rightarrow> (volume_error + unit) \<times> volume" where
  "delete_job_dir ft rf k p i vol = (if \<not> valid_dir_id p \<or> \<not> valid_dir_id i then (Inl No_Entry, vol)
     else case vf_stat ft of Some e \<Rightarrow> (Inl (Disk e), vol)
     | None \<Rightarrow> (if \<not> gm_has (folders_at vol p k) i then (Inl No_Entry, vol)
         else case remove_folder rf i (folders_at vol p k) of (r, fs) \<Rightarrow> (r, put_folders p k fs vol)))"

text \<open>Which file a reader opens; the content is the operating system's.\<close>

definition export_file :: "folder_faults \<Rightarrow> string \<Rightarrow> string \<Rightarrow> string \<Rightarrow> volume \<Rightarrow> volume_error + string list" where
  "export_file ft p i name vol = (if \<not> valid_dir_id p \<or> \<not> valid_dir_id i \<or> \<not> valid_dir_id name then Inl No_Entry
     else case vf_stat ft of Some e \<Rightarrow> Inl (Disk e)
     | None \<Rightarrow> (case gm_get (folders_at vol p Exports) i of None \<Rightarrow> Inl No_Entry
       | Some f \<Rightarrow> if name \<in> fst ` set (folder_entries f) then Inr [''projects'', p, ''exports'', i, name] else Inl No_Entry))"

subsection \<open>The sweep at start\<close>

text \<open>\<open>write_fault p k i\<close> is the error of rewriting that status file.\<close>

definition mark_if_running :: "string option \<Rightarrow> status_file json_file option \<Rightarrow> (bool \<times> status_file) option" where
  "mark_if_running fault st = (case st of
     Some (Decoded s) \<Rightarrow>
       if sx_state s \<noteq> Some state_running then Some (False, s)
       else (case fault of Some e \<Rightarrow> None | None \<Rightarrow> Some (True, s\<lparr>sx_state := Some state_interrupted\<rparr>))
   | _ \<Rightarrow> None)"

definition mark_folder :: "string option \<Rightarrow> job_folder \<Rightarrow> job_folder" where
  "mark_folder fault f = (case mark_if_running fault (jf_status f) of
     Some (True, s) \<Rightarrow> f\<lparr>jf_status := Some (Decoded s)\<rparr> | _ \<Rightarrow> f)"

definition map_folders :: "(string \<Rightarrow> job_kind \<Rightarrow> folders \<Rightarrow> folders) \<Rightarrow> volume \<Rightarrow> volume" where
  "map_folders g vol = vol\<lparr>vl_projects := map (\<lambda>(p, pd). (p, pd\<lparr>pd_analyses := g p Analyses (pd_analyses pd),
     pd_exports := g p Exports (pd_exports pd)\<rparr>)) (vl_projects vol)\<rparr>"

definition mark_running :: "(string \<Rightarrow> job_kind \<Rightarrow> string \<Rightarrow> string option) \<Rightarrow> volume \<Rightarrow> nat \<times> volume" where
  "mark_running fault vol =
     (sum_list (map (\<lambda>(p, pd). sum_list (map (\<lambda>k. length (filter (\<lambda>(i, f). map_option fst (mark_if_running (fault p k i) (jf_status f))
          = Some True) (kind_folders k pd))) [Analyses, Exports])) (vl_projects vol)),
      map_folders (\<lambda>p k. map (\<lambda>(i, f). (i, mark_folder (fault p k i) f))) vol)"

definition remove_orphans :: "(string \<Rightarrow> job_kind \<Rightarrow> string \<Rightarrow> removal_fault) \<Rightarrow> volume \<Rightarrow> nat \<times> volume" where
  "remove_orphans fault vol =
     (sum_list (map (\<lambda>(p, pd). sum_list (map (\<lambda>k. length (filter (\<lambda>(i, f). is_tmp i \<and> fault p k i = None)
          (kind_folders k pd))) [Analyses, Exports])) (vl_projects vol)),
      map_folders (\<lambda>p k fs. List.map_filter (\<lambda>(i, f). if \<not> is_tmp i then Some (i, f)
        else (case fault p k i of None \<Rightarrow> None | Some (e, left) \<Rightarrow> map_option (\<lambda>g. (i, g)) left)) fs) vol)"

subsection \<open>Well-formed volumes\<close>

definition volume_ok :: "volume \<Rightarrow> bool" where
  "volume_ok vol \<longleftrightarrow> gm_ok (vl_projects vol) \<and> (\<forall>p k. gm_ok (folders_at vol p k))"

lemma empty_folders [simp]: "kind_folders k empty_project = []"
  by (cases k) (simp_all add: empty_project_def)

lemma project_at_maps: "project_at (map_folders g vol) p = (if gm_has (vl_projects vol) p
    then (project_at vol p)\<lparr>pd_analyses := g p Analyses (folders_at vol p Analyses), pd_exports := g p Exports (folders_at vol p Exports)\<rparr>
    else empty_project)"
proof -
  have "map_of (map (\<lambda>(p, pd). (p, h p pd)) m) p = map_option (h p) (map_of m p)" for h :: "string \<Rightarrow> project_folder \<Rightarrow> project_folder" and m
    by (induction m) auto
  then show ?thesis
    by (auto simp: project_at_def map_folders_def gm_get_def gm_has_def folders_at_def split: option.splits)
qed

lemma project_record_maps [simp]: "pd_record (project_at (map_folders g vol) p) = pd_record (project_at vol p)"
  by (simp add: project_at_maps) (simp add: project_at_def gm_has_def)

lemma folders_at_maps: "g p k [] = [] \<Longrightarrow> folders_at (map_folders g vol) p k = g p k (folders_at vol p k)"
proof -
  assume g: "g p k [] = []"
  have "project_at vol p = empty_project" if "\<not> gm_has (vl_projects vol) p"
    using that by (simp add: project_at_def gm_has_def)
  then show ?thesis using g by (cases k) (auto simp: folders_at_def project_at_maps empty_project_def)
qed

lemma volume_ok_put [simp, intro]: "volume_ok vol \<Longrightarrow> gm_ok fs \<Longrightarrow> volume_ok (put_folders p k fs vol)"
  by (auto simp: volume_ok_def put_folders_def [symmetric]) (simp add: put_folders_def)

lemma remove_folder_ok [intro]: "gm_ok fs \<Longrightarrow> remove_folder rf i fs = (r, fs') \<Longrightarrow> gm_ok fs'"
  by (auto simp: remove_folder_def split: option.splits if_splits)

subsection \<open>New folders\<close>

lemma reserve_dir_Inr: "reserve_dir ft fs ids = Inr i \<Longrightarrow> Inr i \<in> set ids \<and> \<not> gm_has fs i \<and> \<not> gm_has fs (i @ tmp_suffix)"
  by (induction ft fs ids rule: reserve_dir.induct) (auto split: option.splits if_splits)

lemma new_dir_Inr:
  assumes "new_dir ft kind p now draws vol = (Inr pn, vol')"
  shows "valid_dir_id p \<and> pn_project pn = p \<and> kind_of_name kind = Some (pn_kind pn) \<and> Inr (pn_id pn) \<in> set (dir_names now draws)
    \<and> gm_get (folders_at vol p (pn_kind pn)) (pn_id pn) = None \<and> gm_get (folders_at vol p (pn_kind pn)) (pn_id pn @ tmp_suffix) = None
    \<and> vol' = put_folders p (pn_kind pn) (gm_put (pn_id pn @ tmp_suffix) empty_folder (folders_at vol p (pn_kind pn))) vol"
  using assms reserve_dir_Inr
  by (auto simp: new_dir_def Let_def gm_has_def split: option.splits if_splits sum.splits)

lemma dir_names_Inr: "Inr i \<in> set (dir_names now draws) \<Longrightarrow> i = format_stamp now \<or> (\<exists>x. Inr x \<in> set draws \<and> i = format_stamp now @ ''-'' @ x)"
  unfolding dir_names_def by (auto dest!: in_set_takeD split: sum.splits)

lemma suffixed_unreadable: "good_stamp now \<Longrightarrow> parse_stamp (format_stamp now @ ''-'' @ x) = None"
  by (simp add: parse_format_tail del: append_assoc)

lemma dir_name_readable: "good_stamp now \<Longrightarrow> Inr i \<in> set (dir_names now draws) \<Longrightarrow> parse_stamp i \<noteq> None \<longleftrightarrow> i = format_stamp now"
  using dir_names_Inr [of i now draws] suffixed_unreadable parse_format_tail [of now "[]"] by auto

text \<open>A job gets a folder of its own. The id \<^verbatim>\<open>NewDir\<close> gives names no folder of that project and kind, neither
  committed nor pending; it adds one empty pending folder and changes no other; and once the job has
  written its files, committing puts exactly them under the id and leaves nothing pending.\<close>

theorem pending_published:
  assumes "new_dir ft kind p now draws vol = (Inr pn, vol')"
    and "gm_get (pending_folders pn later) (pn_id pn @ tmp_suffix) = Some f" and "gm_get (pending_folders pn later) (pn_id pn) = None"
    and "commit ft' pn later = (Inr u, committed)"
  shows "gm_get (folders_at vol p (pn_kind pn)) (pn_id pn) = None \<and> gm_get (folders_at vol p (pn_kind pn)) (pn_id pn @ tmp_suffix) = None
    \<and> gm_get (pending_folders pn vol') (pn_id pn @ tmp_suffix) = Some empty_folder
    \<and> (\<forall>q k i. (q, k, i) \<noteq> (p, pn_kind pn, pn_id pn @ tmp_suffix) \<longrightarrow> gm_get (folders_at vol' q k) i = gm_get (folders_at vol q k) i)
    \<and> gm_get (pending_folders pn committed) (pn_id pn) = Some f \<and> gm_get (pending_folders pn committed) (pn_id pn @ tmp_suffix) = None
    \<and> (\<forall>q k i. (q, k) \<noteq> (p, pn_kind pn) \<or> i \<notin> {pn_id pn, pn_id pn @ tmp_suffix} \<longrightarrow>
        gm_get (folders_at committed q k) i = gm_get (folders_at later q k) i)"
proof -
  note n = new_dir_Inr [OF assms(1)]
  have "committed = put_folders p (pn_kind pn) (gm_put (pn_id pn) f (gm_del (pn_id pn @ tmp_suffix) (pending_folders pn later))) later"
    using assms n by (auto simp: commit_def Let_def split: option.splits)
  moreover have "pn_id pn @ tmp_suffix \<noteq> pn_id pn" by (simp add: tmp_suffix_def)
  ultimately show ?thesis using n by (auto simp: pending_folders_def)
qed

lemma read_info_stamp: "read_info ft k p i f = Inr info \<Longrightarrow> parse_stamp i \<noteq> None \<and> ji_id info = i \<and> ji_project info = p"
  by (cases k; cases "jf_status f"; cases "the (jf_status f)"; cases "jf_manifest f"; cases "the (jf_manifest f)")
    (auto simp: read_info_def read_analysis_info_def read_export_info_def Let_def split: option.splits sum.splits)

lemma job_infos_set:
  assumes "job_infos ft k p vol = Inr infos" and "gm_ok (folders_at vol p k)"
  shows "info \<in> set infos \<longleftrightarrow> (\<exists>i f. gm_get (folders_at vol p k) i = Some f \<and> \<not> is_tmp i \<and> read_info ft k p i f = Inr info)"
proof -
  have "infos = sort_func cmp_newest (List.map_filter
         (\<lambda>(name, f). if is_tmp name then None else case read_info ft k p name f of Inl _ \<Rightarrow> None | Inr info \<Rightarrow> Some info) (folders_at vol p k))"
    using assms(1) by (auto simp: job_infos_def split: if_splits option.splits)
  then show ?thesis
    using assms(2) by (force simp: List.map_filter_def gm_get_Some_iff split: if_splits sum.splits)
qed

text \<open>C36. Only the first folder of a second can be read. The name a folder gets when another of its kind has the
  same second carries a suffix that the readers' time layout refuses: whatever the job commits there,
  no listing shows it and asking for it by its id is an error.\<close>

theorem suffixed_folder_lost:
  assumes "new_dir ft kind p now draws vol = (Inr pn, vol')" and "good_stamp now" and "pn_id pn \<noteq> format_stamp now"
    and "volume_ok later"
  shows "isl (job_info_of ft2 (pn_kind pn) p (pn_id pn) later)
    \<and> (\<forall>infos. job_infos ft3 (pn_kind pn) p later = Inr infos \<longrightarrow> pn_id pn \<notin> ji_id ` set infos)"
proof -
  have "parse_stamp (pn_id pn) = None"
    using new_dir_Inr [OF assms(1)] dir_name_readable assms(2,3) by blast
  then have lost: "read_info f k p (pn_id pn) g \<noteq> Inr info" for f k p g info
    using read_info_stamp [of f k p "pn_id pn" g info] by auto
  then have "isl (job_info_of ft2 (pn_kind pn) p (pn_id pn) later)"
    by (cases "job_info_of ft2 (pn_kind pn) p (pn_id pn) later") (auto simp: job_info_of_def split: if_splits option.splits)
  moreover have "pn_id pn \<notin> ji_id ` set infos" if "job_infos ft3 (pn_kind pn) p later = Inr infos" for infos
  proof -
    have "gm_ok (folders_at later p (pn_kind pn))" using assms(4) by (simp add: volume_ok_def)
    note member = job_infos_set [OF that this]
    show ?thesis
    proof
      assume "pn_id pn \<in> ji_id ` set infos"
      then obtain info i f where "info \<in> set infos" "ji_id info = pn_id pn" "read_info ft3 (pn_kind pn) p i f = Inr info"
        using member by (metis image_iff)
      then show False using read_info_stamp [of ft3 "pn_kind pn" p i f info] lost by metis
    qed
  qed
  ultimately show ?thesis by blast
qed

definition sample_stamp :: stamp where
  "sample_stamp = \<lparr>sm_year = 2026, sm_month = 1, sm_day = 2, sm_hour = 3, sm_minute = 4, sm_second = 5\<rparr>"

definition busy_volume :: volume where
  "busy_volume = \<lparr>vl_settings = default_settings, vl_stored = None, vl_projects = [(''app'',
     empty_project\<lparr>pd_analyses := [(format_stamp sample_stamp @ tmp_suffix, empty_folder)]\<rparr>)]\<rparr>"

lemma busy_ok: "volume_ok busy_volume"
proof -
  have "gm_ok (folders_at busy_volume p k)" for p k
    by (cases k) (auto simp: busy_volume_def folders_at_def project_at_def gm_get_def gm_ok_def empty_project_def)
  then show ?thesis by (simp add: volume_ok_def) (simp add: busy_volume_def gm_ok_def)
qed

lemma sample_stamp_good: "good_stamp sample_stamp"
  by code_simp

lemma sample_second: "\<exists>vol'. new_dir sound_disk ''analyses'' ''app'' sample_stamp [Inr ''a1b2c3''] busy_volume
    = (Inr \<lparr>pn_project = ''app'', pn_kind = Analyses, pn_id = format_stamp sample_stamp @ ''-a1b2c3''\<rparr>, vol')"
proof -
  have "reserve_dir sound_disk (folders_at busy_volume ''app'' Analyses) (dir_names sample_stamp [Inr ''a1b2c3''])
      = Inr (format_stamp sample_stamp @ ''-a1b2c3'')" by code_simp
  moreover have "valid_dir_id ''app''" by code_simp
  ultimately show ?thesis by (simp add: new_dir_def kind_of_name_def sound_disk_def Let_def)
qed

theorem suffixed_folder_lost_witness:
  "isl (job_info_of sound_disk Analyses ''app'' (format_stamp sample_stamp @ ''-a1b2c3'') busy_volume)"
proof -
  obtain vol' where n: "new_dir sound_disk ''analyses'' ''app'' sample_stamp [Inr ''a1b2c3''] busy_volume
    = (Inr \<lparr>pn_project = ''app'', pn_kind = Analyses, pn_id = format_stamp sample_stamp @ ''-a1b2c3''\<rparr>, vol')"
    using sample_second by blast
  show ?thesis using suffixed_folder_lost [OF n sample_stamp_good _ busy_ok, of sound_disk sound_disk] by simp
qed

theorem pending_published_witness:
  "\<exists>vol' committed. new_dir sound_disk ''analyses'' ''app'' sample_stamp [Inr ''a1b2c3''] busy_volume
    = (Inr \<lparr>pn_project = ''app'', pn_kind = Analyses, pn_id = format_stamp sample_stamp @ ''-a1b2c3''\<rparr>, vol')
    \<and> gm_get (folders_at committed ''app'' Analyses) (format_stamp sample_stamp @ ''-a1b2c3'') = Some empty_folder"
proof -
  let ?pn = "\<lparr>pn_project = ''app'', pn_kind = Analyses, pn_id = format_stamp sample_stamp @ ''-a1b2c3''\<rparr>"
  obtain vol' where n: "new_dir sound_disk ''analyses'' ''app'' sample_stamp [Inr ''a1b2c3''] busy_volume = (Inr ?pn, vol')"
    using sample_second by blast
  have t: "gm_get (pending_folders ?pn vol') (pn_id ?pn @ tmp_suffix) = Some empty_folder" "gm_get (pending_folders ?pn vol') (pn_id ?pn) = None"
    using new_dir_Inr [OF n] by (auto simp: pending_folders_def tmp_suffix_def)
  obtain r committed where c: "commit sound_disk ?pn vol' = (r, committed)" by fastforce
  then have "r = Inr ()" using t by (simp add: commit_def Let_def sound_disk_def)
  then show ?thesis using pending_published [OF n t] c n by (auto simp: pending_folders_def)
qed

subsection \<open>Listings\<close>

lemma comparator_newest: "comparator cmp_newest"
  unfolding cmp_newest_def by unfold_locales auto

text \<open>A listing shows exactly the committed folders that can be read, newest first and each once: no pending
  folder, no damaged one, and no other project's.\<close>

theorem job_infos_exact:
  assumes "job_infos ft k p vol = Inr infos" and "volume_ok vol"
  shows "sorted_wrt (\<lambda>a b. ji_id b < ji_id a) infos \<and> (\<forall>info. info \<in> set infos \<longleftrightarrow>
    ji_project info = p \<and> \<not> is_tmp (ji_id info)
    \<and> (\<exists>f. gm_get (folders_at vol p k) (ji_id info) = Some f \<and> read_info ft k p (ji_id info) f = Inr info))"
proof -
  let ?pick = "\<lambda>(name, f). if is_tmp name then None else case read_info ft k p name f of Inl _ \<Rightarrow> None | Inr info \<Rightarrow> Some info"
  have ok: "gm_ok (folders_at vol p k)" using assms(2) by (simp add: volume_ok_def)
  have infos: "infos = sort_func cmp_newest (List.map_filter ?pick (folders_at vol p k))"
    using assms(1) by (auto simp: job_infos_def split: if_splits option.splits)
  have sub: "ji_id x \<in> fst ` set fs" if "x \<in> set (List.map_filter ?pick fs)" for x fs
    using that by (induction fs) (auto simp: List.map_filter_simps split: if_splits sum.splits dest!: read_info_stamp)
  have ids: "distinct (map fst fs) \<Longrightarrow> distinct (map ji_id (List.map_filter ?pick fs))" for fs
  proof (induction fs)
    case (Cons e fs)
    obtain j f where e: "e = (j, f)" by fastforce
    have ne: "\<And>x. x \<in> set (List.map_filter ?pick fs) \<Longrightarrow> ji_id x \<noteq> j"
      using sub [of _ fs] Cons.prems e by auto
    have "ji_id x \<noteq> ji_id y \<and> ji_id y \<noteq> ji_id x" if h: "x \<in> set (List.map_filter ?pick fs)" "read_info ft k p j f = Inr y" for x y
    proof -
      have "ji_id y = j" using read_info_stamp [OF h(2)] by simp
      then show ?thesis using ne [OF h(1)] by simp
    qed
    then show ?case
      using Cons e by (cases "read_info ft k p j f") (auto simp: List.map_filter_simps)
  qed (simp add: List.map_filter_simps)
  have dist: "distinct (map ji_id infos)"
    using ids [of "folders_at vol p k"] ok unfolding infos by (simp add: gm_ok_def)
  have "sorted_wrt (\<lambda>a b. ji_id b \<le> ji_id a) infos"
    using comparator.sorted_sort_func [OF comparator_newest] unfolding infos by (simp add: cmp_newest_def)
  then have "sorted_wrt (\<lambda>a b. ji_id b < ji_id a) infos"
    using dist
  proof (induction infos)
    case (Cons a infos)
    then have "ji_id x \<noteq> ji_id a" if "x \<in> set infos" for x using that by (metis distinct.simps(2) image_eqI list.simps(9) set_map)
    then show ?case using Cons by (auto simp: order_less_le)
  qed simp
  moreover have "info \<in> set infos \<longleftrightarrow> ji_project info = p \<and> \<not> is_tmp (ji_id info)
    \<and> (\<exists>f. gm_get (folders_at vol p k) (ji_id info) = Some f \<and> read_info ft k p (ji_id info) f = Inr info)" for info
    unfolding job_infos_set [OF assms(1) ok] using read_info_stamp [of ft k p] by blast
  ultimately show ?thesis by blast
qed

theorem job_infos_exact_witness:
  "\<exists>infos. job_infos sound_disk Analyses ''app'' busy_volume = Inr infos \<and> infos = []"
proof -
  have "valid_dir_id ''app''" by code_simp
  then obtain infos where i: "job_infos sound_disk Analyses ''app'' busy_volume = Inr infos"
    by (auto simp: job_infos_def sound_disk_def)
  note exact = job_infos_exact [OF i busy_ok]
  have tmp: "gm_get (folders_at busy_volume ''app'' Analyses) j = Some f \<Longrightarrow> is_tmp j" for j f
    by (auto simp: busy_volume_def folders_at_def project_at_def gm_get_def split: if_splits)
  have "info \<notin> set infos" for info
    using exact tmp [of "ji_id info"] by auto
  then have "infos = []" by (cases infos) auto
  then show ?thesis using i by simp
qed

subsection \<open>Starting again\<close>

lemma gm_get_map: "gm_get (map (\<lambda>(i, f). (i, h i f)) fs) i = map_option (h i) (gm_get fs i)"
  unfolding gm_get_def by (induction fs) auto

lemma mark_running_at: "folders_at (snd (mark_running fw vol)) p k = map (\<lambda>(i, f). (i, mark_folder (fw p k i) f)) (folders_at vol p k)"
  by (simp add: mark_running_def folders_at_maps)

lemma remove_orphans_at: "folders_at (snd (remove_orphans rf vol)) p k = List.map_filter (\<lambda>(i, f). if \<not> is_tmp i then Some (i, f)
    else (case rf p k i of None \<Rightarrow> None | Some (e, left) \<Rightarrow> map_option (\<lambda>g. (i, g)) left)) (folders_at vol p k)"
  by (simp add: remove_orphans_def folders_at_maps List.map_filter_simps)

lemma map_filter_get:
  "gm_get (List.map_filter (\<lambda>(i, f). map_option (Pair i) (h i f)) fs) i = (case gm_get fs i of None \<Rightarrow> None | Some f \<Rightarrow> h i f)"
  if "distinct (map fst fs)" for h :: "string \<Rightarrow> job_folder \<Rightarrow> job_folder option"
  using that
proof (induction fs)
  case Nil
  then show ?case by (simp add: List.map_filter_simps)
next
  case (Cons e fs)
  obtain j f where e: "e = (j, f)" by fastforce
  have "gm_get fs j = None" using Cons.prems e by (auto simp: gm_get_None_iff)
  then show ?case
    using Cons e by (cases "h j f") (auto simp: List.map_filter_simps gm_get_def)
qed

definition start_up :: "(string \<Rightarrow> job_kind \<Rightarrow> string \<Rightarrow> string option) \<Rightarrow> (string \<Rightarrow> job_kind \<Rightarrow> string \<Rightarrow> removal_fault)
    \<Rightarrow> volume \<Rightarrow> volume" where
  "start_up fw rf vol = snd (remove_orphans rf (snd (mark_running fw vol)))"

lemma start_up_at:
  assumes "volume_ok vol"
  shows "gm_get (folders_at (start_up fw rf vol) p k) i = (case gm_get (folders_at vol p k) i of None \<Rightarrow> None
    | Some f \<Rightarrow> if \<not> is_tmp i then Some (mark_folder (fw p k i) f) else case rf p k i of None \<Rightarrow> None | Some (e, left) \<Rightarrow> left)"
proof -
  let ?m = "map (\<lambda>(i, f). (i, mark_folder (fw p k i) f)) (folders_at vol p k)"
  let ?h = "\<lambda>i f. if \<not> is_tmp i then Some f else case rf p k i of None \<Rightarrow> None | Some (e, left) \<Rightarrow> left"
  have fst: "map fst ?m = map fst (folders_at vol p k)" by (simp add: case_prod_beta comp_def)
  have d: "distinct (map fst ?m)" unfolding fst using assms by (simp add: volume_ok_def gm_ok_def)
  have "folders_at (start_up fw rf vol) p k = List.map_filter (\<lambda>(i, f). map_option (Pair i) (?h i f)) ?m"
    unfolding start_up_def remove_orphans_at mark_running_at
    by (intro arg_cong2 [where f = List.map_filter] ext) (auto split: option.splits prod.splits)
  then show ?thesis
    using map_filter_get [OF d, of ?h] by (simp add: gm_get_map split: option.splits)
qed

text \<open>After a restart nothing claims to run. Once the sweep is through, whatever it could not write or remove,
  every folder it could rewrite has a status other than running, every pending folder it could remove
  is gone, a committed folder changed at most its state from running to interrupted, and no project,
  setting or folder name is new.\<close>

theorem start_up_settles:
  assumes "volume_ok vol"
  shows "(\<forall>p k i f s. gm_get (folders_at (start_up fw rf vol) p k) i = Some f \<longrightarrow> \<not> is_tmp i \<longrightarrow> fw p k i = None
      \<longrightarrow> jf_status f = Some (Decoded s) \<longrightarrow> sx_state s \<noteq> Some state_running)
    \<and> (\<forall>p k i. is_tmp i \<longrightarrow> rf p k i = None \<longrightarrow> gm_get (folders_at (start_up fw rf vol) p k) i = None)
    \<and> (\<forall>p k i. \<not> is_tmp i \<longrightarrow> (case gm_get (folders_at vol p k) i of
        None \<Rightarrow> gm_get (folders_at (start_up fw rf vol) p k) i = None
      | Some f \<Rightarrow> gm_get (folders_at (start_up fw rf vol) p k) i = Some f
          \<or> (\<exists>s. jf_status f = Some (Decoded s) \<and> sx_state s = Some state_running
              \<and> gm_get (folders_at (start_up fw rf vol) p k) i
                = Some (f\<lparr>jf_status := Some (Decoded (s\<lparr>sx_state := Some state_interrupted\<rparr>))\<rparr>))))
    \<and> map fst (vl_projects (start_up fw rf vol)) = map fst (vl_projects vol)
    \<and> (\<forall>p. pd_record (project_at (start_up fw rf vol) p) = pd_record (project_at vol p))
    \<and> vl_settings (start_up fw rf vol) = vl_settings vol"
proof (intro conjI allI impI)
  have mark: "mark_folder w f = f \<or> (\<exists>s. jf_status f = Some (Decoded s) \<and> sx_state s = Some state_running
      \<and> mark_folder w f = f\<lparr>jf_status := Some (Decoded (s\<lparr>sx_state := Some state_interrupted\<rparr>))\<rparr>)" for w f
    by (auto simp: mark_folder_def mark_if_running_def split: option.splits json_file.splits if_splits)
  have marked: "jf_status (mark_folder None f) = Some (Decoded s) \<Longrightarrow> sx_state s \<noteq> Some state_running" for f s
    by (auto simp: mark_folder_def mark_if_running_def state_interrupted_def state_running_def
        split: option.splits json_file.splits if_splits)
  fix p k i
  show "sx_state s \<noteq> Some state_running" if "gm_get (folders_at (start_up fw rf vol) p k) i = Some f" "\<not> is_tmp i" "fw p k i = None"
      "jf_status f = Some (Decoded s)" for f s
    using that marked by (auto simp: start_up_at [OF assms] split: option.splits)
  show "gm_get (folders_at (start_up fw rf vol) p k) i = None" if "is_tmp i" "rf p k i = None"
    using that by (simp add: start_up_at [OF assms] split: option.splits)
  show "case gm_get (folders_at vol p k) i of
        None \<Rightarrow> gm_get (folders_at (start_up fw rf vol) p k) i = None
      | Some f \<Rightarrow> gm_get (folders_at (start_up fw rf vol) p k) i = Some f
          \<or> (\<exists>s. jf_status f = Some (Decoded s) \<and> sx_state s = Some state_running
              \<and> gm_get (folders_at (start_up fw rf vol) p k) i
                = Some (f\<lparr>jf_status := Some (Decoded (s\<lparr>sx_state := Some state_interrupted\<rparr>))\<rparr>))"
    if "\<not> is_tmp i"
    using that mark by (simp add: start_up_at [OF assms] split: option.splits)
next
  show "map fst (vl_projects (start_up fw rf vol)) = map fst (vl_projects vol)"
    by (simp add: start_up_def remove_orphans_def mark_running_def map_folders_def case_prod_beta)
  show "vl_settings (start_up fw rf vol) = vl_settings vol"
    by (simp add: start_up_def remove_orphans_def mark_running_def map_folders_def)
  fix p
  show "pd_record (project_at (start_up fw rf vol) p) = pd_record (project_at vol p)"
    unfolding start_up_def remove_orphans_def mark_running_def snd_conv by simp
qed

theorem start_up_settles_witness:
  "gm_get (folders_at (start_up (\<lambda>_ _ _. None) (\<lambda>_ _ _. None) busy_volume) ''app'' Analyses) (format_stamp sample_stamp @ tmp_suffix) = None"
  using start_up_settles [OF busy_ok, of "\<lambda>_ _ _. None" "\<lambda>_ _ _. None"] by simp

subsection \<open>Projects\<close>

lemma reserve_project_Inr: "reserve_project ft vol base ds = Inr i \<Longrightarrow> (\<exists>x. Inr x \<in> set ds \<and> i = base @ ''-'' @ x) \<and> \<not> gm_has (vl_projects vol) i"
  by (induction ft vol base ds rule: reserve_project.induct) (auto simp: Let_def split: option.splits if_splits)

lemma create_project_Inr:
  assumes "create_project to_lower sha ft rf name package now draws vol = (Inr po, vol')"
  shows "slug to_lower name \<noteq> '''' \<and> (\<exists>x. Inr x \<in> set draws \<and> po_id po = slug to_lower name @ ''-'' @ x)
    \<and> gm_get (vl_projects vol) (po_id po) = None
    \<and> po = \<lparr>po_id = po_id po, po_name = name, po_target = se_target (vl_settings vol), po_hash = sha package, po_created = now\<rparr>
    \<and> vol' = vol\<lparr>vl_projects := gm_put (po_id po) (empty_project\<lparr>pd_record := Some (Decoded \<lparr>pf_id = po_id po, pf_name = name,
        pf_target = se_target (vl_settings vol), pf_created = now, pf_hash = sha package\<rparr>), pd_package := Some (Inr package)\<rparr>)
        (vl_projects vol)\<rparr>"
  using assms
  by (auto simp: create_project_def Let_def gm_has_def split: if_splits sum.splits option.splits
      dest!: reserve_project_Inr dest: in_set_takeD)

lemma no_dots: "list_all (\<lambda>c. c \<noteq> CHR ''.'') s \<Longrightarrow> \<not> contains_str ''..'' s"
proof
  assume a: "list_all (\<lambda>c. c \<noteq> CHR ''.'') s" and "contains_str ''..'' s"
  then obtain t where "suffix t s" "has_prefix ''..'' t" by (auto simp: contains_str_def list_ex_iff)
  then have "CHR ''.'' \<in> set s" using set_mono_suffix by (fastforce simp: has_prefix_iff)
  then show False using a by (auto simp: list_all_iff)
qed

lemma valid_dir_idI: "s \<noteq> '''' \<Longrightarrow> list_all (\<lambda>c. slug_char c \<or> c = CHR ''-'') s \<Longrightarrow> valid_dir_id s"
proof -
  assume ne: "s \<noteq> ''''" and c: "list_all (\<lambda>c. slug_char c \<or> c = CHR ''-'') s"
  have dots: "c \<noteq> CHR ''.'' \<and> c \<noteq> CHR ''/'' \<and> c \<noteq> CHR 0x5C \<and> id_char c" if "c \<in> set s" for c
  proof -
    have "slug_char c \<or> c = CHR ''-''" using c that by (auto simp: list_all_iff)
    then show ?thesis using slug_id_char [of c] by (auto simp: slug_char_def is_lower_def is_digit_def)
  qed
  then have "\<not> contains_str ''..'' s" using no_dots [of s] by (auto simp: list_all_iff)
  moreover have "s \<noteq> ''.''" "s \<noteq> ''..''" using dots [of "CHR ''.''"] by auto
  ultimately show ?thesis using ne dots by (auto simp: valid_dir_id_def list_all_iff list_ex_iff)
qed

text \<open>A created project can be read back. Its id is new, valid as a path parameter and made of the slug of its name,
  a hyphen and the suffix drawn; reading it gives what creating it answered, with the target of the settings
  and the hash of the uploaded bytes; it has no analysis and no export, and no other project changed.\<close>

theorem create_project_roundtrip:
  assumes "create_project to_lower sha ft rf name package now draws vol = (Inr po, vol')"
    and "\<forall>x. Inr x \<in> set draws \<longrightarrow> list_all is_hex x"
  shows "valid_dir_id (po_id po) \<and> (\<exists>x. Inr x \<in> set draws \<and> po_id po = slug to_lower name @ ''-'' @ x)
    \<and> gm_get (vl_projects vol) (po_id po) = None
    \<and> project_of sha vol' (po_id po) = Inr po \<and> po_name po = name \<and> po_target po = se_target (vl_settings vol) \<and> po_hash po = sha package
    \<and> folders_at vol' (po_id po) Analyses = [] \<and> folders_at vol' (po_id po) Exports = []
    \<and> (\<forall>q. q \<noteq> po_id po \<longrightarrow> project_of sha vol' q = project_of sha vol q \<and> (\<forall>k. folders_at vol' q k = folders_at vol q k))"
proof -
  note c = create_project_Inr [OF assms(1)]
  then obtain x where x: "Inr x \<in> set draws" "po_id po = slug to_lower name @ ''-'' @ x" by blast
  have "list_all is_hex x" using assms(2) x(1) by blast
  then have "list_all slug_char x" by (auto simp: list_all_iff is_hex_def slug_char_def is_lower_def)
  then have "list_all (\<lambda>c. slug_char c \<or> c = CHR ''-'') (po_id po)"
    using slug_chars [of to_lower name] x(2) by (auto simp: list_all_iff)
  then have v: "valid_dir_id (po_id po)" using valid_dir_idI x(2) by simp
  have at: "project_at vol' q = (if q = po_id po then empty_project\<lparr>pd_record := Some (Decoded \<lparr>pf_id = po_id po, pf_name = name,
        pf_target = se_target (vl_settings vol), pf_created = now, pf_hash = sha package\<rparr>), pd_package := Some (Inr package)\<rparr>
      else project_at vol q)" for q
    using c by (auto simp: project_at_def)
  have "pd_record (project_at vol' (po_id po)) = Some (Decoded \<lparr>pf_id = po_id po, pf_name = name,
      pf_target = se_target (vl_settings vol), pf_created = now, pf_hash = sha package\<rparr>)"
    "pd_package (project_at vol' (po_id po)) = Some (Inr package)" by (simp_all add: at)
  then have "project_of sha vol' (po_id po) = Inr \<lparr>po_id = po_id po, po_name = name, po_target = se_target (vl_settings vol),
      po_hash = sha package, po_created = now\<rparr>" using v by (simp add: project_of_def Let_def)
  moreover have "po = \<lparr>po_id = po_id po, po_name = name, po_target = se_target (vl_settings vol), po_hash = sha package,
      po_created = now\<rparr>" using c by blast
  ultimately have "project_of sha vol' (po_id po) = Inr po" by simp
  moreover have "project_of sha vol' q = project_of sha vol q" "folders_at vol' q k = folders_at vol q k" if "q \<noteq> po_id po" for q k
    using that by (simp_all add: project_of_def folders_at_def at)
  moreover have "folders_at vol' (po_id po) Analyses = []" "folders_at vol' (po_id po) Exports = []"
    by (simp_all add: folders_at_def at empty_project_def)
  moreover have "po_name po = name" "po_target po = se_target (vl_settings vol)" "po_hash po = sha package"
    using c by (cases po; simp)+
  ultimately show ?thesis using v c x by blast
qed

theorem create_project_roundtrip_witness:
  "\<exists>po vol'. create_project (map lower_char) (\<lambda>b. ''h'') sound_disk None ''@my/App'' ''{}'' 5 [Inr ''a1b2c3''] busy_volume = (Inr po, vol')
    \<and> project_of (\<lambda>b. ''h'') vol' ''my-app-a1b2c3'' = Inr po"
proof -
  have s: "slug (map lower_char) ''@my/App'' = ''my-app''" by code_simp
  have r: "reserve_project sound_disk busy_volume ''my-app'' (take 10 [Inr ''a1b2c3'']) = Inr ''my-app-a1b2c3''" by code_simp
  obtain po vol' where c: "create_project (map lower_char) (\<lambda>b. ''h'') sound_disk None ''@my/App'' ''{}'' 5 [Inr ''a1b2c3''] busy_volume
      = (Inr po, vol')" and i: "po_id po = ''my-app-a1b2c3''"
    unfolding create_project_def s Let_def r by simp
  have h: "list_all is_hex ''a1b2c3''" by code_simp
  show ?thesis using create_project_roundtrip [OF c] c i h by auto
qed

subsection \<open>Every operation keeps a volume well-formed\<close>

definition readable_target :: "project_folder \<Rightarrow> bool" where
  "readable_target pd \<longleftrightarrow> (\<forall>r. pd_record pd = Some (Decoded r) \<longrightarrow> good_target (pf_target r))"

lemma readable_empty [simp]: "readable_target empty_project"
  by (simp add: readable_target_def empty_project_def)

definition volume_wf :: "volume \<Rightarrow> bool" where
  "volume_wf vol \<longleftrightarrow> volume_ok vol \<and> good_settings (vl_settings vol)
     \<and> (\<forall>s. vl_stored vol = Some (Decoded s) \<longrightarrow> good_settings s) \<and> (\<forall>p. readable_target (project_at vol p))"

text \<open>The operations of the store, and a job that writes into its pending folder. What a failing removal of a
  project leaves has the target it had, if any.\<close>

inductive volume_step :: "volume \<Rightarrow> volume \<Rightarrow> bool" where
  open_step: "open_volume quote ft vol = Inr vol' \<Longrightarrow> volume_step vol vol'"
| save_step: "save_settings quote ft s vol = (r, vol') \<Longrightarrow> volume_step vol vol'"
| create_step: "create_project lo sha ft rf name package now draws vol = (r, vol') \<Longrightarrow>
    (\<And>pd. rf = Some pd \<Longrightarrow> readable_target pd \<and> pd_analyses pd = [] \<and> pd_exports pd = []) \<Longrightarrow> volume_step vol vol'"
| target_step: "set_project_target quote ft i t vol = (r, vol') \<Longrightarrow> volume_step vol vol'"
| delete_step: "delete_project ft rf i vol = (r, vol') \<Longrightarrow>
    (\<And>e pd. rf = Some (e, Some pd) \<Longrightarrow> readable_target pd \<and> (\<forall>k. gm_ok (kind_folders k pd))) \<Longrightarrow> volume_step vol vol'"
| new_dir_step: "new_dir ft kind p now draws vol = (r', vol') \<Longrightarrow> volume_step vol vol'"
| write_step: "gm_has (folders_at vol p k) (i @ tmp_suffix) \<Longrightarrow>
    volume_step vol (put_folders p k (gm_put (i @ tmp_suffix) f (folders_at vol p k)) vol)"
| commit_step: "commit ft pn vol = (r, vol') \<Longrightarrow> volume_step vol vol'"
| discard_step: "discard rf' pn vol = (r, vol') \<Longrightarrow> volume_step vol vol'"
| delete_job_step: "delete_job_dir ft rf' k p i vol = (r, vol') \<Longrightarrow> volume_step vol vol'"

lemma validate_settings: "try_bind (validate_target quote (se_target s)) (\<lambda>_. validate_limits s) = Inr u \<Longrightarrow> good_settings s"
  by (auto simp: try_bind_Inr good_settings_def limit_problems_Nil)

lemma default_good: "good_settings default_settings"
  by code_simp

lemma project_at_settings [simp]: "project_at (vol\<lparr>vl_settings := s\<rparr>) p = project_at vol p"
    "project_at (vol\<lparr>vl_stored := st\<rparr>) p = project_at vol p"
  by (simp_all add: project_at_def)

lemma save_settings_wf:
  assumes "volume_wf vol" "save_settings quote ft s vol = (r, vol')"
  shows "volume_wf vol'"
proof (cases "try_bind (validate_target quote (se_target s)) (\<lambda>_. validate_limits s)")
  case (Inl e)
  then show ?thesis using assms by (simp add: save_settings_def)
next
  case (Inr u)
  then have "good_settings s" by (rule validate_settings)
  then show ?thesis using assms Inr
    by (auto simp: save_settings_def volume_wf_def volume_ok_def folders_at_def split: option.splits)
qed

lemma open_volume_wf:
  assumes "volume_wf vol" "open_volume quote ft vol = Inr vol'"
  shows "volume_wf vol'"
proof -
  consider (save) u where "save_settings quote ft default_settings vol = (Inr u, vol')"
    | (load) s where "vl_stored vol = Some (Decoded s)" "vol' = vol\<lparr>vl_settings := s\<rparr>"
    using assms(2) by (auto simp: open_volume_def split: option.splits json_file.splits prod.splits sum.splits)
  then show ?thesis
  proof cases
    case save
    then show ?thesis using save_settings_wf assms(1) by blast
  next
    case load
    then show ?thesis using assms(1) by (simp add: volume_wf_def volume_ok_def folders_at_def)
  qed
qed

lemma volume_wf_put [simp, intro]: "volume_wf vol \<Longrightarrow> gm_ok fs \<Longrightarrow> volume_wf (put_folders p k fs vol)"
  by (auto simp: volume_wf_def readable_target_def) (simp_all add: put_folders_def)

lemma folders_wf [simp, intro]: "volume_wf vol \<Longrightarrow> gm_ok (folders_at vol p k)"
  by (simp add: volume_wf_def volume_ok_def)

lemma project_put_wf:
  assumes "volume_wf vol" and "readable_target pd" and "\<And>k. gm_ok (kind_folders k pd)"
  shows "volume_wf (vol\<lparr>vl_projects := gm_put i pd (vl_projects vol)\<rparr>)"
proof -
  have at: "project_at (vol\<lparr>vl_projects := gm_put i pd (vl_projects vol)\<rparr>) p = (if p = i then pd else project_at vol p)" for p
    by (simp add: project_at_def)
  show ?thesis using assms by (auto simp: volume_wf_def volume_ok_def folders_at_def at)
qed

lemma project_del_wf: "volume_wf vol \<Longrightarrow> volume_wf (vol\<lparr>vl_projects := gm_del i (vl_projects vol)\<rparr>)"
proof -
  assume w: "volume_wf vol"
  have at: "project_at (vol\<lparr>vl_projects := gm_del i (vl_projects vol)\<rparr>) p = (if p = i then empty_project else project_at vol p)" for p
    by (simp add: project_at_def)
  show ?thesis using w by (auto simp: volume_wf_def volume_ok_def folders_at_def at)
qed

lemma volume_step_wf:
  assumes "volume_step vol vol'" "volume_wf vol"
  shows "volume_wf vol'"
  using assms
proof (induction rule: volume_step.induct)
  case (open_step quote ft vol vol')
  then show ?case using open_volume_wf by blast
next
  case (save_step quote ft s vol r vol')
  then show ?case using save_settings_wf by blast
next
  case (create_step lo sha ft rf name package now draws vol r vol')
  have target: "good_target (se_target (vl_settings vol))" using create_step.prems by (simp add: volume_wf_def good_settings_def)
  have kinds: "gm_ok (kind_folders k pd)" if "pd_analyses pd = []" "pd_exports pd = []" for k pd using that by (cases k) simp_all
  show ?case
    using create_step project_put_wf [OF create_step.prems] target kinds
    by (auto simp: create_project_def Let_def readable_target_def empty_project_def split: if_splits sum.splits option.splits)
next
  case (target_step quote ft i t vol r vol')
  have "gm_ok (kind_folders k ((project_at vol i)\<lparr>pd_record := x\<rparr>))" for k x
    using folders_wf [OF target_step.prems, of i k] by (cases k) (simp_all add: folders_at_def)
  then show ?case
    using target_step project_put_wf [OF target_step.prems]
    by (auto simp: set_project_target_def readable_target_def split: if_splits sum.splits option.splits json_file.splits)
next
  case (delete_step ft rf i vol r vol')
  then show ?case
    using project_put_wf [OF delete_step.prems] project_del_wf [OF delete_step.prems]
    by (auto simp: delete_project_def split: if_splits option.splits)
next
  case (new_dir_step ft kind p now draws vol r' vol')
  then show ?case by (auto simp: new_dir_def Let_def split: option.splits if_splits sum.splits)
next
  case (write_step vol p k i f)
  then show ?case by auto
next
  case (commit_step ft pn vol r vol')
  then show ?case by (auto simp: commit_def Let_def pending_folders_def split: option.splits if_splits)
next
  case (discard_step rf' pn vol r vol')
  then show ?case by (auto simp: discard_def pending_folders_def split: prod.splits)
next
  case (delete_job_step ft rf' k p i vol r vol')
  then show ?case by (auto simp: delete_job_dir_def split: option.splits if_splits prod.splits)
qed

definition fresh_volume :: volume where
  "fresh_volume = \<lparr>vl_settings = default_settings, vl_stored = None, vl_projects = []\<rparr>"

text \<open>C34. In every volume reached from an empty one, whatever operations were tried and whatever failed, the
  settings in force and those stored name an exact node and pnpm version and keep their limits, every
  project that can be read has such a target, and no folder holds two entries of one name.\<close>

theorem volume_invariant:
  "volume_step\<^sup>*\<^sup>* fresh_volume vol \<Longrightarrow> volume_wf vol"
proof (induction rule: rtranclp_induct)
  case base
  have "volume_wf fresh_volume"
    using default_good by (simp add: volume_wf_def volume_ok_def fresh_volume_def folders_at_def project_at_def)
  then show ?case .
next
  case (step a b)
  then show ?case using volume_step_wf by blast
qed

theorem volume_invariant_witness:
  "\<exists>vol. volume_step\<^sup>*\<^sup>* fresh_volume vol \<and> vl_stored vol \<noteq> None \<and> volume_wf vol"
proof -
  let ?vol = "fresh_volume\<lparr>vl_settings := default_settings, vl_stored := Some (Decoded default_settings)\<rparr>"
  have "try_bind (validate_target id (se_target default_settings)) (\<lambda>_. validate_limits default_settings) = Inr ()" by code_simp
  then have "save_settings id sound_disk default_settings fresh_volume = (Inr (), ?vol)" by (simp add: save_settings_def)
  then have r: "volume_step\<^sup>*\<^sup>* fresh_volume ?vol" by (blast intro: save_step)
  then show ?thesis using volume_invariant [OF r] by (intro exI [of _ ?vol]) simp
qed

end
