(* ===== verification/Jobs_Queue.thy ===== *)
theory Jobs_Queue
  imports Store_Folders
begin

text \<open>
  \<^verbatim>\<open>internal/jobs/queue.go\<close>: one job at a time, in the order of submission, with a replay of its events and
  one finalize call per job. Each critical section of the mutex is one operation; between them the
  operations of other goroutines may come in any order, which the step relation at the end allows. What a
  job does is what it emits and the error it returns.
\<close>

subsection \<open>Events and jobs\<close>

definition replay_limit :: nat where "replay_limit = 128"
definition step_headroom :: nat where "step_headroom = 32"
definition subscriber_headroom :: nat where "subscriber_headroom = 2"

definition channel_size :: nat where
  "channel_size = replay_limit + step_headroom + subscriber_headroom"

datatype event_data = Raw_Data string | State_Data string | Line_Data string

record event =
  ev_kind :: string
  ev_job :: string
  ev_store :: string
  ev_data :: event_data

record job =
  jb_kind :: string
  jb_store :: string

record entry =
  en_id :: string
  en_job :: job

text \<open>A channel holds what its subscriber has not read yet.\<close>

record subscriber =
  sb_chan :: "event list"
  sb_notified :: bool

text \<open>How far the worker is with the current job: it runs, its state is known, its hook was called.\<close>

datatype phase = Runs | Ended_As string | Hooked string

text \<open>
  The queue, and what its operations did so far: \<open>jq_done\<close> the calls of the finalize hook, \<open>jq_drained\<close>
  what Close dropped, \<open>jq_dropping\<close> jobs a Cancel took out of the queue and has not finalized yet,
  \<open>jq_started\<close> the ids the worker took, \<open>jq_submitted\<close> what was queued, \<open>jq_published\<close> the events
  published since the current job started.
\<close>

record job_queue =
  jq_pending :: "entry list"
  jq_closed :: bool
  jq_current :: "(entry \<times> phase) option"
  jq_cancel :: bool
  jq_context :: bool
  jq_history :: "event list"
  jq_subs :: "(nat, subscriber) gomap"
  jq_next_sub :: nat
  jq_next :: nat
  jq_stopped :: bool
  jq_dropping :: "entry list"
  jq_done :: "(string \<times> string) list"
  jq_drained :: "entry list"
  jq_started :: "string list"
  jq_submitted :: "entry list"
  jq_published :: "event list"

definition new_queue :: job_queue where
  "new_queue = \<lparr>jq_pending = [], jq_closed = False, jq_current = None, jq_cancel = False, jq_context = False, jq_history = [],
     jq_subs = [], jq_next_sub = 0, jq_next = 0, jq_stopped = False, jq_dropping = [], jq_done = [], jq_drained = [], jq_started = [],
     jq_submitted = [], jq_published = []\<rparr>"

subsection \<open>Delivery and replay\<close>

text \<open>\<^verbatim>\<open>deliverLocked\<close> tries to send the event and, when the channel is full, the notice. \<open>reads\<close> is how many
  events the subscriber takes between the two attempts; the mutex does not keep it from reading.\<close>

definition dropped_notice :: "event \<Rightarrow> event" where
  "dropped_notice e = \<lparr>ev_kind = ''log'', ev_job = ev_job e, ev_store = '''',
     ev_data = Line_Data ''dropped events: a subscriber fell behind''\<rparr>"

definition deliver :: "nat \<Rightarrow> event \<Rightarrow> subscriber \<Rightarrow> subscriber" where
  "deliver reads e s =
     (if length (sb_chan s) < channel_size then \<lparr>sb_chan = sb_chan s @ [e], sb_notified = False\<rparr>
      else if sb_notified s then s
      else let c = drop reads (sb_chan s) in
        if length c < channel_size then \<lparr>sb_chan = c @ [dropped_notice e], sb_notified = True\<rparr>
        else s\<lparr>sb_chan := c\<rparr>)"

definition is_step :: "event \<Rightarrow> bool" where
  "is_step e \<longleftrightarrow> ev_kind e = ''step''"

fun drop_oldest :: "nat \<Rightarrow> event list \<Rightarrow> event list" where
  "drop_oldest n [] = []"
| "drop_oldest n (h # hs) = (if \<not> is_step h \<and> 0 < n then drop_oldest (n - 1) hs else h # drop_oldest n hs)"

definition append_history :: "event list \<Rightarrow> event \<Rightarrow> event list" where
  "append_history hist e = (let h = hist @ [e]; other = length (filter (\<lambda>x. \<not> is_step x) h) in
     if other \<le> replay_limit then h else drop_oldest (other - replay_limit) h)"

definition publish :: "(nat \<Rightarrow> nat) \<Rightarrow> event \<Rightarrow> job_queue \<Rightarrow> job_queue" where
  "publish reads e q = q\<lparr>jq_history := append_history (jq_history q) e, jq_published := jq_published q @ [e],
     jq_subs := map (\<lambda>(i, s). (i, deliver (reads i) e s)) (jq_subs q)\<rparr>"

definition end_event :: "entry \<Rightarrow> string \<Rightarrow> event" where
  "end_event en st = \<lparr>ev_kind = ''end'', ev_job = en_id en, ev_store = jb_store (en_job en), ev_data = State_Data st\<rparr>"

subsection \<open>Operations\<close>

definition queue_id :: "job \<Rightarrow> nat \<Rightarrow> string" where
  "queue_id j n = jb_kind j @ ''-'' @ show_nat n"

text \<open>\<^verbatim>\<open>SubmitWith\<close>; the callback runs with the id this gives, in the same critical section.\<close>

definition submit_with :: "job \<Rightarrow> job_queue \<Rightarrow> string option \<times> job_queue" where
  "submit_with j q = (if jq_closed q then (None, q)
     else let n = jq_next q + 1; i = queue_id j n in
       (Some i, q\<lparr>jq_next := n, jq_pending := jq_pending q @ [\<lparr>en_id = i, en_job = j\<rparr>],
          jq_submitted := jq_submitted q @ [\<lparr>en_id = i, en_job = j\<rparr>]\<rparr>))"

definition current_job :: "job_queue \<Rightarrow> (string \<times> string) option" where
  "current_job q = map_option (\<lambda>(en, _). (en_id en, jb_kind (en_job en))) (jq_current q)"

text \<open>\<^verbatim>\<open>Cancel\<close>: the running job's context is cancelled; a queued job leaves the queue and is finalized next.\<close>

definition cancel_job :: "string \<Rightarrow> job_queue \<Rightarrow> bool \<times> job_queue" where
  "cancel_job i q =
     (if (case jq_current q of None \<Rightarrow> False | Some (en, _) \<Rightarrow> en_id en = i)
      then (True, q\<lparr>jq_cancel := True, jq_context := True\<rparr>)
      else case find (\<lambda>en. en_id en = i) (jq_pending q) of
        None \<Rightarrow> (False, q)
      | Some en \<Rightarrow> (True, q\<lparr>jq_pending := remove1 en (jq_pending q), jq_dropping := jq_dropping q @ [en]\<rparr>))"

text \<open>\<^verbatim>\<open>publishCancelled\<close>, of a job that a Cancel took out.\<close>

definition publish_cancelled :: "(nat \<Rightarrow> nat) \<Rightarrow> entry \<Rightarrow> job_queue \<Rightarrow> job_queue" where
  "publish_cancelled reads en q = publish reads (end_event en state_cancelled)
     (q\<lparr>jq_dropping := remove1 en (jq_dropping q), jq_done := jq_done q @ [(en_id en, state_cancelled)]\<rparr>)"

definition subscribe :: "job_queue \<Rightarrow> nat \<times> job_queue" where
  "subscribe q = (jq_next_sub q, q\<lparr>jq_next_sub := jq_next_sub q + 1,
     jq_subs := gm_put (jq_next_sub q) \<lparr>sb_chan = take channel_size (jq_history q), sb_notified = False\<rparr> (jq_subs q)\<rparr>)"

definition unsubscribe :: "nat \<Rightarrow> job_queue \<Rightarrow> job_queue" where
  "unsubscribe i q = q\<lparr>jq_subs := gm_del i (jq_subs q)\<rparr>"

definition receive :: "nat \<Rightarrow> job_queue \<Rightarrow> event option \<times> job_queue" where
  "receive i q = (case gm_get (jq_subs q) i of None \<Rightarrow> (None, q)
   | Some s \<Rightarrow> (case sb_chan s of [] \<Rightarrow> (None, q)
     | e # es \<Rightarrow> (Some e, q\<lparr>jq_subs := gm_put i (s\<lparr>sb_chan := es\<rparr>) (jq_subs q)\<rparr>)))"

definition close_jobs :: "job_queue \<Rightarrow> job_queue" where
  "close_jobs q = (if jq_closed q then q
     else q\<lparr>jq_closed := True, jq_drained := jq_drained q @ jq_pending q, jq_pending := [], jq_context := True\<rparr>)"

subsection \<open>The worker\<close>

text \<open>None: it waits, or it has stopped.\<close>

definition start_next :: "job_queue \<Rightarrow> job_queue option" where
  "start_next q = (if jq_stopped q \<or> jq_current q \<noteq> None then None
     else case jq_pending q of
       [] \<Rightarrow> if jq_closed q then Some (q\<lparr>jq_stopped := True\<rparr>) else None
     | en # rest \<Rightarrow> Some (q\<lparr>jq_pending := rest, jq_current := Some (en, Runs), jq_cancel := False, jq_context := False,
         jq_history := [], jq_published := [], jq_started := jq_started q @ [en_id en]\<rparr>))"

definition emit :: "(nat \<Rightarrow> nat) \<Rightarrow> event \<Rightarrow> job_queue \<Rightarrow> job_queue option" where
  "emit reads e q = (case jq_current q of
     Some (en, Runs) \<Rightarrow> Some (publish reads (e\<lparr>ev_job := en_id en, ev_store := jb_store (en_job en)\<rparr>) q)
   | _ \<Rightarrow> None)"

text \<open>What \<^verbatim>\<open>runJob\<close> returns; a panic is an error.\<close>

datatype job_end = Run_Ok | Run_Canceled | Run_Error

definition end_state :: "bool \<Rightarrow> job_end \<Rightarrow> string" where
  "end_state cancel r = (if cancel \<and> r = Run_Canceled then state_cancelled else if r \<noteq> Run_Ok then state_failed else state_done)"

definition job_returned :: "job_end \<Rightarrow> job_queue \<Rightarrow> job_queue option" where
  "job_returned r q = (case jq_current q of
     Some (en, Runs) \<Rightarrow> Some (q\<lparr>jq_current := Some (en, Ended_As (end_state (jq_cancel q) r))\<rparr>)
   | _ \<Rightarrow> None)"

definition run_hook :: "job_queue \<Rightarrow> job_queue option" where
  "run_hook q = (case jq_current q of
     Some (en, Ended_As st) \<Rightarrow> Some (q\<lparr>jq_current := Some (en, Hooked st), jq_done := jq_done q @ [(en_id en, st)]\<rparr>)
   | _ \<Rightarrow> None)"

definition end_current :: "(nat \<Rightarrow> nat) \<Rightarrow> job_queue \<Rightarrow> job_queue option" where
  "end_current reads q = (case jq_current q of
     Some (en, Hooked st) \<Rightarrow> Some ((publish reads (end_event en st) q)\<lparr>jq_current := None, jq_history := [], jq_published := []\<rparr>)
   | _ \<Rightarrow> None)"

subsection \<open>The replay\<close>

lemma drop_oldest_parts: "filter is_step (drop_oldest n h) = filter is_step h"
    "filter (\<lambda>x. \<not> is_step x) (drop_oldest n h) = drop n (filter (\<lambda>x. \<not> is_step x) h)"
    "subseq (drop_oldest n h) h"
  by (induction n h rule: drop_oldest.induct) (auto simp: drop_Cons' intro: subseq_order.trans)

lemma append_history_parts:
  "filter is_step (append_history h e) = filter is_step (h @ [e])"
  "filter (\<lambda>x. \<not> is_step x) (append_history h e) = (let f = filter (\<lambda>x. \<not> is_step x) (h @ [e]) in drop (length f - replay_limit) f)"
  "subseq (append_history h e) (h @ [e])"
  unfolding append_history_def Let_def using drop_oldest_parts by (auto split: if_splits)

lemma last_of_last: "drop (length (drop (length f - n) f @ [x]) - n) (drop (length f - n) f @ [x]) = drop (length (f @ [x]) - n) (f @ [x])"
proof (cases "length f < n")
  case True
  then show ?thesis by simp
next
  case False
  then show ?thesis by (simp add: Suc_diff_le)
qed

text \<open>The replay of events: every step, the last others, in the order they came.\<close>

definition replay_of :: "event list \<Rightarrow> event list \<Rightarrow> bool" where
  "replay_of es h \<longleftrightarrow> subseq h es \<and> filter is_step h = filter is_step es
     \<and> (let f = filter (\<lambda>x. \<not> is_step x) es in filter (\<lambda>x. \<not> is_step x) h = drop (length f - replay_limit) f)"

lemma replay_append: "replay_of es h \<Longrightarrow> replay_of (es @ [e]) (append_history h e)"
proof -
  assume r: "replay_of es h"
  let ?f = "filter (\<lambda>x. \<not> is_step x) es"
  have h: "filter (\<lambda>x. \<not> is_step x) h = drop (length ?f - replay_limit) ?f"
    using r by (simp add: replay_of_def Let_def)
  have "filter (\<lambda>x. \<not> is_step x) (append_history h e)
      = (let f = filter (\<lambda>x. \<not> is_step x) (es @ [e]) in drop (length f - replay_limit) f)"
  proof (cases "is_step e")
    case True
    then show ?thesis using h append_history_parts(2) [of h e] by (simp add: Let_def)
  next
    case False
    then show ?thesis
      using h append_history_parts(2) [of h e] last_of_last [of ?f replay_limit e] by (simp add: Let_def)
  qed
  moreover have "subseq (append_history h e) (es @ [e])"
    using r append_history_parts(3) [of h e] by (auto simp: replay_of_def intro: subseq_order.trans list_emb_append_mono)
  ultimately show ?thesis using r append_history_parts(1) [of h e] by (simp add: replay_of_def)
qed

lemma replay_length: "replay_of es h \<Longrightarrow> length h = length (filter is_step es) + min replay_limit (length (filter (\<lambda>x. \<not> is_step x) es))"
proof -
  assume r: "replay_of es h"
  have "length h = length (filter is_step h) + length (filter (\<lambda>x. \<not> is_step x) h)"
    by (induction h) auto
  then show ?thesis using r by (simp add: replay_of_def Let_def)
qed

subsection \<open>Steps\<close>

text \<open>Submissions, cancellations, subscribers, Close and the worker, in any order.\<close>

inductive queue_step :: "job_queue \<Rightarrow> job_queue \<Rightarrow> bool" where
  submit_step: "submit_with j q = (r, q') \<Longrightarrow> queue_step q q'"
| cancel_step: "cancel_job i q = (b, q') \<Longrightarrow> queue_step q q'"
| cancelled_step: "en \<in> set (jq_dropping q) \<Longrightarrow> queue_step q (publish_cancelled reads en q)"
| subscribe_step: "subscribe q = (n, q') \<Longrightarrow> queue_step q q'"
| unsubscribe_step: "queue_step q (unsubscribe n q)"
| receive_step: "receive n q = (e, q') \<Longrightarrow> queue_step q q'"
| close_step: "queue_step q (close_jobs q)"
| start_step: "start_next q = Some q' \<Longrightarrow> queue_step q q'"
| emit_step: "emit reads e q = Some q' \<Longrightarrow> queue_step q q'"
| returned_step: "job_returned je q = Some q' \<Longrightarrow> queue_step q q'"
| hook_step: "run_hook q = Some q' \<Longrightarrow> queue_step q q'"
| end_step: "end_current reads q = Some q' \<Longrightarrow> queue_step q q'"

text \<open>The entries no hook was called for: those waiting, the current one until its hook, those being cancelled and
  those Close dropped.\<close>

fun hook_due :: "(entry \<times> phase) option \<Rightarrow> entry list" where
  "hook_due (Some (en, Runs)) = [en]"
| "hook_due (Some (en, Ended_As st)) = [en]"
| "hook_due (Some (en, Hooked st)) = []"
| "hook_due None = []"

definition unfinished :: "job_queue \<Rightarrow> entry list" where
  "unfinished q = hook_due (jq_current q) @ jq_pending q @ jq_dropping q @ jq_drained q"

definition numbered :: "entry list \<Rightarrow> nat \<Rightarrow> bool" where
  "numbered ens n \<longleftrightarrow> length ens = n \<and> (\<forall>k < n. en_id (ens ! k) = queue_id (en_job (ens ! k)) (k + 1))"

definition jobs_ok :: "job_queue \<Rightarrow> bool" where
  "jobs_ok q \<longleftrightarrow> numbered (jq_submitted q) (jq_next q)
     \<and> mset (map en_id (jq_submitted q)) = mset (map en_id (unfinished q)) + mset (map fst (jq_done q))
     \<and> set (unfinished q) \<subseteq> set (jq_submitted q)
     \<and> subseq (jq_started q @ map en_id (jq_pending q)) (map en_id (jq_submitted q))
     \<and> replay_of (jq_published q) (jq_history q)
     \<and> (jq_closed q \<longrightarrow> jq_pending q = [])"

lemma digits_no_hyphen: "CHR ''-'' \<notin> set (show_nat n)"
  using show_nat_digits [of n] by (auto simp: list_all_iff is_digit_def)

lemma queue_id_inj: "queue_id j m = queue_id k n \<Longrightarrow> m = n"
proof -
  assume "queue_id j m = queue_id k n"
  then have "split_last CHR ''-'' (queue_id j m) = split_last CHR ''-'' (queue_id k n)" by simp
  then show "m = n" using digits_no_hyphen by (simp add: queue_id_def)
qed

lemma numbered_distinct: "numbered ens n \<Longrightarrow> distinct (map en_id ens)"
  by (auto simp: numbered_def distinct_conv_nth dest: queue_id_inj)

lemma numbered_snoc: "numbered ens n \<Longrightarrow> numbered (ens @ [\<lparr>en_id = queue_id j (n + 1), en_job = j\<rparr>]) (n + 1)"
  by (auto simp: numbered_def nth_append less_Suc_eq)

lemma publish_simps [simp]:
  "jq_pending (publish reads e q) = jq_pending q" "jq_closed (publish reads e q) = jq_closed q"
  "jq_current (publish reads e q) = jq_current q" "jq_next (publish reads e q) = jq_next q"
  "jq_dropping (publish reads e q) = jq_dropping q" "jq_done (publish reads e q) = jq_done q"
  "jq_drained (publish reads e q) = jq_drained q" "jq_started (publish reads e q) = jq_started q"
  "jq_submitted (publish reads e q) = jq_submitted q" "jq_stopped (publish reads e q) = jq_stopped q"
  "jq_cancel (publish reads e q) = jq_cancel q" "jq_context (publish reads e q) = jq_context q"
  "jq_history (publish reads e q) = append_history (jq_history q) e" "jq_published (publish reads e q) = jq_published q @ [e]"
  by (simp_all add: publish_def)

lemma replay_empty [simp]: "replay_of [] []"
  by (simp add: replay_of_def)

lemma subseq_remove1: "subseq (a @ map f (remove1 x ys)) zs" if "subseq (a @ map f ys) zs"
proof -
  have "subseq (remove1 x ys) ys" by (induction ys) auto
  then have "subseq (a @ map f (remove1 x ys)) (a @ map f ys)" by (intro list_emb_append_mono subseq_map) auto
  then show ?thesis using that subseq_order.trans by blast
qed

lemma ids_remove1: "en \<in> set ens \<Longrightarrow> mset (map en_id ens) = add_mset (en_id en) (mset (map en_id (remove1 en ens)))"
  by (induction ens) auto

lemma set_remove1_in: "x \<in> set (remove1 y ys) \<Longrightarrow> x \<in> set ys"
  using set_remove1_subset by fastforce

lemma new_queue_ok: "jobs_ok new_queue"
  by (simp add: jobs_ok_def new_queue_def numbered_def unfinished_def)

lemma subseq_snoc: "subseq (xs @ ys) zs \<Longrightarrow> subseq (xs @ ys @ [x]) (zs @ [x])"
  using list_emb_append_mono [of "(=)" "xs @ ys" zs "[x]" "[x]"] by simp

lemma submit_ok: "jobs_ok q \<Longrightarrow> submit_with j q = (r, q') \<Longrightarrow> jobs_ok q'"
  using numbered_snoc [of "jq_submitted q" "jq_next q" j]
    subseq_snoc [of "jq_started q" "map en_id (jq_pending q)" "map en_id (jq_submitted q)" "queue_id j (Suc (jq_next q))"]
  by (auto simp: submit_with_def jobs_ok_def unfinished_def Let_def split: if_splits)

lemma cancel_ok:
  assumes "jobs_ok q" "cancel_job i q = (b, q')"
  shows "jobs_ok q'"
proof (cases "b \<and> q' \<noteq> q\<lparr>jq_cancel := True, jq_context := True\<rparr>")
  case False
  then have "q' = q \<or> q' = q\<lparr>jq_cancel := True, jq_context := True\<rparr>"
    using assms(2) by (auto simp: cancel_job_def split: if_splits option.splits)
  then show ?thesis using assms(1) by (auto simp: jobs_ok_def unfinished_def)
next
  case True
  then obtain en where f: "find (\<lambda>en. en_id en = i) (jq_pending q) = Some en"
    and q': "q' = q\<lparr>jq_pending := remove1 en (jq_pending q), jq_dropping := jq_dropping q @ [en]\<rparr>"
    using assms(2) by (auto simp: cancel_job_def split: if_splits option.splits)
  have en: "en \<in> set (jq_pending q)" using f by (auto simp: find_Some_iff)
  show ?thesis
    using assms(1) en ids_remove1 [OF en] subseq_remove1 [of "jq_started q" en_id "jq_pending q" "map en_id (jq_submitted q)" en]
    by (auto simp: jobs_ok_def unfinished_def q' dest: set_remove1_in)
qed

lemma cancelled_ok:
  assumes "jobs_ok q" "en \<in> set (jq_dropping q)"
  shows "jobs_ok (publish_cancelled reads en q)"
  using assms ids_remove1 [OF assms(2)] replay_append
  by (auto simp: jobs_ok_def unfinished_def publish_cancelled_def dest: set_remove1_in)

lemma start_ok: "jobs_ok q \<Longrightarrow> start_next q = Some q' \<Longrightarrow> jobs_ok q'"
  by (cases "jq_current q") (auto simp: start_next_def jobs_ok_def unfinished_def split: if_splits list.splits)

lemma emit_ok:
  assumes "jobs_ok q" "emit reads e q = Some q'"
  shows "jobs_ok q'"
proof -
  obtain en where c: "jq_current q = Some (en, Runs)"
    and q': "q' = publish reads (e\<lparr>ev_job := en_id en, ev_store := jb_store (en_job en)\<rparr>) q"
    using assms(2) by (cases "jq_current q"; cases "snd (the (jq_current q))") (auto simp: emit_def)
  show ?thesis using assms(1) by (simp add: q' c jobs_ok_def unfinished_def replay_append)
qed

lemma returned_ok:
  assumes "jobs_ok q" "job_returned je q = Some q'"
  shows "jobs_ok q'"
proof -
  obtain en where c: "jq_current q = Some (en, Runs)" and q': "q' = q\<lparr>jq_current := Some (en, Ended_As (end_state (jq_cancel q) je))\<rparr>"
    using assms(2) by (cases "jq_current q"; cases "snd (the (jq_current q))") (auto simp: job_returned_def)
  show ?thesis using assms(1) by (simp add: q' c jobs_ok_def unfinished_def)
qed

lemma hook_ok:
  assumes "jobs_ok q" "run_hook q = Some q'"
  shows "jobs_ok q'"
proof -
  obtain en st where c: "jq_current q = Some (en, Ended_As st)"
    and q': "q' = q\<lparr>jq_current := Some (en, Hooked st), jq_done := jq_done q @ [(en_id en, st)]\<rparr>"
    using assms(2) by (cases "jq_current q"; cases "snd (the (jq_current q))") (auto simp: run_hook_def)
  show ?thesis using assms(1) by (simp add: q' c jobs_ok_def unfinished_def)
qed

lemma end_ok:
  assumes "jobs_ok q" "end_current reads q = Some q'"
  shows "jobs_ok q'"
proof -
  obtain en st where c: "jq_current q = Some (en, Hooked st)"
    and q': "q' = (publish reads (end_event en st) q)\<lparr>jq_current := None, jq_history := [], jq_published := []\<rparr>"
    using assms(2) by (cases "jq_current q"; cases "snd (the (jq_current q))") (auto simp: end_current_def)
  show ?thesis using assms(1) by (simp add: q' c jobs_ok_def unfinished_def)
qed

lemma step_ok: "queue_step q q' \<Longrightarrow> jobs_ok q \<Longrightarrow> jobs_ok q'"
proof (induction rule: queue_step.induct)
  case (close_step q)
  then show ?case
    by (auto simp: close_jobs_def jobs_ok_def unfinished_def intro: subseq_order.trans [of _ "jq_started q @ _"])
next
  case (subscribe_step q n q')
  then show ?case by (auto simp: subscribe_def jobs_ok_def unfinished_def)
next
  case (unsubscribe_step q n)
  then show ?case by (simp add: unsubscribe_def jobs_ok_def unfinished_def)
next
  case (receive_step n q e q')
  then show ?case by (auto simp: receive_def jobs_ok_def unfinished_def split: option.splits list.splits)
qed (blast intro: submit_ok cancel_ok cancelled_ok start_ok emit_ok returned_ok hook_ok end_ok)+

lemma reachable_ok: "queue_step\<^sup>*\<^sup>* new_queue q \<Longrightarrow> jobs_ok q"
  by (induction rule: rtranclp_induct) (auto intro: new_queue_ok step_ok)

lemmas jobs_ok_parts = jobs_ok_def [THEN iffD1]

text \<open>C22. No job is lost, repeated or overtaken. In every state of the queue, whatever callers do and however jobs
  end, the ids are distinct, the finalize hook was called at most once for each, and each submitted job
  either had its call or is still waiting, running, being cancelled or dropped by Close; jobs start in
  the order of their submission, and after Close none waits.\<close>

theorem jobs_conserved:
  assumes "queue_step\<^sup>*\<^sup>* new_queue q"
  shows "distinct (map en_id (jq_submitted q)) \<and> distinct (map fst (jq_done q))
    \<and> (\<forall>en \<in> set (jq_submitted q). en_id en \<in> fst ` set (jq_done q) \<longleftrightarrow> en \<notin> set (unfinished q))
    \<and> set (unfinished q) \<subseteq> set (jq_submitted q) \<and> fst ` set (jq_done q) \<subseteq> en_id ` set (jq_submitted q)
    \<and> subseq (jq_started q @ map en_id (jq_pending q)) (map en_id (jq_submitted q))
    \<and> (jq_closed q \<longrightarrow> jq_pending q = [])"
proof -
  have ok: "jobs_ok q" using reachable_ok [OF assms] .
  then have d: "distinct (map en_id (jq_submitted q))" using numbered_distinct by (auto simp: jobs_ok_def)
  have m: "mset (map en_id (jq_submitted q)) = mset (map en_id (unfinished q) @ map fst (jq_done q))"
    using ok by (simp add: jobs_ok_def)
  then have d2: "distinct (map en_id (unfinished q) @ map fst (jq_done q))" using d mset_eq_imp_distinct_iff by blast
  have s: "en_id ` set (jq_submitted q) = en_id ` set (unfinished q) \<union> fst ` set (jq_done q)"
    using mset_eq_setD [OF m] by simp
  have u: "set (unfinished q) \<subseteq> set (jq_submitted q)" using ok by (simp add: jobs_ok_def)
  have inj: "inj_on en_id (set (jq_submitted q))" using d by (simp add: distinct_map)
  have "en_id en \<in> fst ` set (jq_done q) \<longleftrightarrow> en \<notin> set (unfinished q)" if "en \<in> set (jq_submitted q)" for en
  proof
    assume "en_id en \<in> fst ` set (jq_done q)"
    then show "en \<notin> set (unfinished q)" using d2 by (auto simp: distinct_append image_iff)
  next
    assume n: "en \<notin> set (unfinished q)"
    have "en_id en \<notin> en_id ` set (unfinished q)"
    proof
      assume "en_id en \<in> en_id ` set (unfinished q)"
      then obtain x where "x \<in> set (unfinished q)" "en_id x = en_id en" by auto
      then show False using n u inj that by (metis inj_onD subsetD)
    qed
    then show "en_id en \<in> fst ` set (jq_done q)" using s that by blast
  qed
  then show ?thesis using d d2 s u ok by (auto simp: jobs_ok_def)
qed

definition sample_job :: job where
  "sample_job = \<lparr>jb_kind = ''analysis'', jb_store = ''20260102T030405Z''\<rparr>"

lemma sample_run: "queue_step\<^sup>*\<^sup>* new_queue (snd (submit_with sample_job new_queue))"
    "jq_submitted (snd (submit_with sample_job new_queue)) = [\<lparr>en_id = ''analysis-1'', en_job = sample_job\<rparr>]"
proof -
  have "queue_step new_queue (snd (submit_with sample_job new_queue))"
    by (rule submit_step [of sample_job new_queue "fst (submit_with sample_job new_queue)"]) simp
  then show "queue_step\<^sup>*\<^sup>* new_queue (snd (submit_with sample_job new_queue))" by blast
  have "queue_id sample_job 1 = ''analysis-1''" by code_simp
  then show "jq_submitted (snd (submit_with sample_job new_queue)) = [\<lparr>en_id = ''analysis-1'', en_job = sample_job\<rparr>]"
    by (simp add: submit_with_def new_queue_def Let_def)
qed

theorem jobs_conserved_witness:
  "\<exists>q. jq_submitted q = [\<lparr>en_id = ''analysis-1'', en_job = sample_job\<rparr>] \<and> set (unfinished q) \<subseteq> set (jq_submitted q)"
  using jobs_conserved [OF sample_run(1)] sample_run(2) by blast

text \<open>A subscriber that comes late sees where the job is. Its channel starts with every step the current job
  reported, however long ago, and its last 128 other events, in the order they came; as long as a job
  has at most 32 steps nothing of this is cut and there is room for two more events.\<close>

theorem late_subscriber_replay:
  assumes "queue_step\<^sup>*\<^sup>* new_queue q" and "subscribe q = (n, q')"
    and "length (filter is_step (jq_published q)) \<le> step_headroom"
  shows "\<exists>s. gm_get (jq_subs q') n = Some s \<and> \<not> sb_notified s \<and> length (sb_chan s) + subscriber_headroom \<le> channel_size
    \<and> subseq (sb_chan s) (jq_published q) \<and> filter is_step (sb_chan s) = filter is_step (jq_published q)
    \<and> (let others = filter (\<lambda>e. \<not> is_step e) (jq_published q) in
        filter (\<lambda>e. \<not> is_step e) (sb_chan s) = drop (length others - replay_limit) others)"
proof -
  have r: "replay_of (jq_published q) (jq_history q)" using reachable_ok [OF assms(1)] by (simp add: jobs_ok_def)
  then have len: "length (jq_history q) + subscriber_headroom \<le> channel_size"
    using replay_length [OF r] assms(3) by (simp add: channel_size_def)
  then have "take channel_size (jq_history q) = jq_history q" by (simp add: subscriber_headroom_def)
  then show ?thesis using r len assms(2) by (auto simp: subscribe_def replay_of_def)
qed

theorem late_subscriber_replay_witness:
  "\<exists>s. gm_get (jq_subs (snd (subscribe new_queue))) 0 = Some s \<and> sb_chan s = []"
proof -
  have s: "subscribe new_queue = (0, snd (subscribe new_queue))" by (simp add: subscribe_def new_queue_def)
  have p: "jq_published new_queue = []" by (simp add: new_queue_def)
  show ?thesis using late_subscriber_replay [OF rtranclp.rtrancl_refl s] by (auto simp: p)
qed

text \<open>Nothing tells a subscriber that events were dropped, unless it reads exactly between the two attempts.\<close>

lemma notice_needs_a_read: "deliver 0 e s = s \<or> deliver 0 e s = \<lparr>sb_chan = sb_chan s @ [e], sb_notified = False\<rparr>"
  by (simp add: deliver_def Let_def)

text \<open>A job is recorded as cancelled only when a Cancel named it while it was current and its own error says so.\<close>

lemma end_state_cancelled: "end_state c r = state_cancelled \<longleftrightarrow> c \<and> r = Run_Canceled"
  by (simp add: end_state_def state_cancelled_def state_failed_def state_done_def)

end
