(* ===== verification/Jobs_Candidates.thy ===== *)
theory Jobs_Candidates
  imports Npm_Lockfile Npm_Registry Rank_Candidates Store_Settings
begin

text \<open>
  The computations of \<^verbatim>\<open>internal/jobs/analysis{,_candidates,_helpers,_rank}.go\<close>: which versions of a
  dependency are resolved and in which order, the package.json of each resolution, the pool of workers, the
  facts and the ranking of a dependency, and the peer warning. Ranges over Go maps take the list order of the
  model; the registry, pnpm and Trivy answer as arguments.
\<close>

subsection \<open>The manifests pnpm resolves\<close>

text \<open>A package.json the code writes; an empty group is left out of the JSON.\<close>

record project_doc =
  pd_name :: string
  pd_dependencies :: "(string, string) gomap"
  pd_dev :: "(string, string) gomap"
  pd_optional :: "(string, string) gomap"

definition pin_peer :: "(string, string) gomap \<Rightarrow> (string, string) gomap \<Rightarrow> string \<times> string \<Rightarrow> (string, string) gomap" where
  "pin_peer versions deps p = (case gm_get versions (fst p) of None \<Rightarrow> deps | Some v \<Rightarrow> gm_put (fst p) v deps)"

definition build_probe_manifest :: "string \<Rightarrow> string \<Rightarrow> (string, string) gomap \<Rightarrow> (string, string) gomap \<Rightarrow> project_doc" where
  "build_probe_manifest name version peers versions = \<lparr>pd_name = ''probe'',
     pd_dependencies = foldl (pin_peer versions) [(name, version)] peers, pd_dev = [], pd_optional = []\<rparr>"

definition override_of :: "(string, string) gomap \<Rightarrow> dependency \<Rightarrow> string" where
  "override_of overrides d = (case gm_get overrides (dep_name d) of
     Some v \<Rightarrow> if v \<noteq> '''' then v else dep_version d
   | None \<Rightarrow> dep_version d)"

definition add_dependency :: "(string, string) gomap \<Rightarrow> project_doc \<Rightarrow> dependency \<Rightarrow> project_doc" where
  "add_dependency overrides p d = (let v = override_of overrides d in (case dep_kind d of
     Dev \<Rightarrow> p\<lparr>pd_dev := gm_put (dep_name d) v (pd_dev p)\<rparr>
   | Optional \<Rightarrow> p\<lparr>pd_optional := gm_put (dep_name d) v (pd_optional p)\<rparr>
   | Prod \<Rightarrow> p\<lparr>pd_dependencies := gm_put (dep_name d) v (pd_dependencies p)\<rparr>))"

definition build_full_manifest :: "manifest \<Rightarrow> (string, string) gomap \<Rightarrow> project_doc" where
  "build_full_manifest m overrides = foldl (add_dependency overrides)
     \<lparr>pd_name = ''project'', pd_dependencies = [], pd_dev = [], pd_optional = []\<rparr> (mf_dependencies m)"

definition project_versions_of :: "manifest \<Rightarrow> (string, string) gomap" where
  "project_versions_of m = foldl (\<lambda>vs d. gm_put (dep_name d) (dep_version d) vs) [] (mf_dependencies m)"

subsection \<open>Candidates and their tasks\<close>

record dep_info =
  di_dep :: dependency
  di_packument :: packument
  di_newer :: "string list"
  di_warning :: string

text \<open>The lines it logs, and the information.\<close>

definition list_one_candidate :: "'v semver \<Rightarrow> string + packument \<Rightarrow> dependency \<Rightarrow> string list \<times> dep_info" where
  "list_one_candidate sv answer d = (case answer of
     Inl e \<Rightarrow> ([dep_name d @ '': metadata unreachable: '' @ e],
       \<lparr>di_dep = d, di_packument = empty_packument, di_newer = [], di_warning = ''metadata unreachable: '' @ e\<rparr>)
   | Inr pk \<Rightarrow> (case newer_stable sv (dep_version d) (map fst (pm_versions pk)) of
       Inl e \<Rightarrow> ([], \<lparr>di_dep = d, di_packument = pk, di_newer = [], di_warning = ''current version: '' @ e\<rparr>)
     | Inr newer \<Rightarrow> ([], \<lparr>di_dep = d, di_packument = pk, di_newer = newer, di_warning = ''''\<rparr>)))"

record candidate_task =
  ct_dep :: dependency
  ct_version :: string
  ct_key :: bool
  ct_current :: bool

definition fixed_versions_of :: "index \<Rightarrow> string \<Rightarrow> string \<Rightarrow> string list" where
  "fixed_versions_of ix name version =
     filter (\<lambda>v. v \<noteq> '''') (map (\<lambda>e. fd_fixed (snd e)) (finding_set ix [name @ ''@'' @ version]))"

definition order_key_first :: "string list \<Rightarrow> string list \<Rightarrow> string list" where
  "order_key_first newer keys = keys @ filter (\<lambda>v. v \<notin> set keys) newer"

definition current_task :: "dependency \<Rightarrow> candidate_task" where
  "current_task d = \<lparr>ct_dep = d, ct_version = dep_version d, ct_key = False, ct_current = True\<rparr>"

definition add_task :: "dependency \<Rightarrow> string list \<Rightarrow> candidate_task list \<times> candidate_task list \<Rightarrow> string
    \<Rightarrow> candidate_task list \<times> candidate_task list" where
  "add_task d keys pr v = (let key = v \<in> set keys; task = \<lparr>ct_dep = d, ct_version = v, ct_key = key, ct_current = False\<rparr> in
     if key then (fst pr @ [task], snd pr) else (fst pr, snd pr @ [task]))"

definition add_tasks :: "'v semver \<Rightarrow> index \<Rightarrow> candidate_task list \<times> candidate_task list \<Rightarrow> dep_info
    \<Rightarrow> candidate_task list \<times> candidate_task list" where
  "add_tasks sv ix pr d = (if di_warning d \<noteq> '''' then pr
     else (let dep = di_dep d;
               fixed = fixed_versions_of ix (dep_name dep) (dep_version dep);
               keys = key_versions sv (dep_version dep) (di_newer d) fixed
           in foldl (add_task dep keys) (fst pr @ [current_task dep], snd pr) (order_key_first (di_newer d) keys)))"

definition build_candidate_tasks :: "'v semver \<Rightarrow> dep_info list \<Rightarrow> index \<Rightarrow> candidate_task list" where
  "build_candidate_tasks sv deps ix = (case foldl (add_tasks sv ix) ([], []) deps of (primary, rest) \<Rightarrow> primary @ rest)"

subsection \<open>The pool of workers\<close>

record candidate_outcome =
  co_task :: candidate_task
  co_pkgs :: "lock_package list"
  co_lock :: string
  co_output :: string
  co_err :: "string option"

text \<open>What one resolution answers: pnpm's output with an error, or with a lockfile and what the YAML decoder
  makes of it.\<close>

record resolve_answer =
  ra_output :: string
  ra_lock :: "string + string \<times> (string + raw_lockfile)"

definition peers_of :: "(string, packument) gomap \<Rightarrow> candidate_task \<Rightarrow> (string, string) gomap" where
  "peers_of packuments t = (case gm_get packuments (dep_name (ct_dep t)) of
     None \<Rightarrow> [] | Some pk \<Rightarrow> vm_peers (meta_of pk (ct_version t)))"

definition resolve_task :: "platform \<Rightarrow> (project_doc \<Rightarrow> resolve_answer) \<Rightarrow> (string, packument) gomap \<Rightarrow> (string, string) gomap
    \<Rightarrow> candidate_task \<Rightarrow> candidate_outcome" where
  "resolve_task pl pnpm packuments versions t =
     (let a = pnpm (build_probe_manifest (dep_name (ct_dep t)) (ct_version t) (peers_of packuments t) versions);
          o0 = \<lparr>co_task = t, co_pkgs = [], co_lock = '''', co_output = ra_output a, co_err = None\<rparr>
      in case ra_lock a of
           Inl e \<Rightarrow> o0\<lparr>co_err := Some e\<rparr>
         | Inr (raw, decoded) \<Rightarrow> (case parse_lockfile decoded of
             Inl e \<Rightarrow> o0\<lparr>co_err := Some e\<rparr>
           | Inr pkgs \<Rightarrow> o0\<lparr>co_pkgs := filter_platform pl pkgs, co_lock := raw\<rparr>))"

text \<open>The workers end in any order: \<open>order\<close> lists the indices as they do. Each writes its own cell, and tells
  the progress after it left the lock.\<close>

record pool =
  pl_outcomes :: "candidate_outcome option list"
  pl_ended :: nat
  pl_progress :: "nat list"

definition end_task :: "(nat \<Rightarrow> candidate_outcome) \<Rightarrow> pool \<Rightarrow> nat \<Rightarrow> pool" where
  "end_task outcome p i = p\<lparr>pl_outcomes := (pl_outcomes p)[i := Some (outcome i)], pl_ended := pl_ended p + 1,
     pl_progress := pl_progress p @ [pl_ended p + 1]\<rparr>"

definition resolve_candidate_tasks :: "nat list \<Rightarrow> (nat \<Rightarrow> candidate_outcome) \<Rightarrow> nat \<Rightarrow> pool" where
  "resolve_candidate_tasks order outcome n = foldl (end_task outcome)
     \<lparr>pl_outcomes = replicate n None, pl_ended = 0, pl_progress = []\<rparr> order"

text \<open>An estimate of the time left, in the int64 of a \<^verbatim>\<open>time.Duration\<close>.\<close>

definition remaining :: "int \<Rightarrow> int \<Rightarrow> int \<Rightarrow> int" where
  "remaining elapsed ended tot = (if ended \<le> 0 \<or> tot \<le> ended then 0
     else go_div (int64 (elapsed * (tot - ended))) ended)"

subsection \<open>Scans\<close>

definition keys_of :: "lock_package list \<Rightarrow> string list" where
  "keys_of pkgs = map lp_key pkgs"

definition platform_of :: "platform_target \<Rightarrow> platform" where
  "platform_of t = \<lparr>pf_os = pt_os t, pf_cpu = pt_cpu t, pf_libc = pt_libc t\<rparr>"

text \<open>The components of a CycloneDX document, in order.\<close>

definition components_of :: "lock_package list \<Rightarrow> (string \<times> string) list" where
  "components_of pkgs = map (\<lambda>p. (lp_name p, lp_version p)) pkgs"

text \<open>What the disk and Trivy do to one scan; Trivy reads the components.\<close>

record scan_answer =
  sa_create :: "string option"
  sa_write :: "string option"
  sa_trivy :: "(string \<times> string) list \<Rightarrow> string option"
  sa_open :: "string option"
  sa_report :: "(string \<times> string) list \<Rightarrow> string + trivy_report"

definition scan_packages :: "scan_answer \<Rightarrow> lock_package list \<Rightarrow> string + finding list" where
  "scan_packages a pkgs = (case sa_create a of Some e \<Rightarrow> Inl e | None \<Rightarrow>
     (case sa_write a of Some e \<Rightarrow> Inl (''write sbom: '' @ e) | None \<Rightarrow>
     (case sa_trivy a (components_of pkgs) of Some e \<Rightarrow> Inl (''trivy scan: '' @ e) | None \<Rightarrow>
     (case sa_open a of Some e \<Rightarrow> Inl e | None \<Rightarrow> read_trivy (sa_report a (components_of pkgs))))))"

text \<open>Each file of the merge cannot be read, is no report, or is one.\<close>

datatype report_file = Unread string | No_Report string | A_Report trivy_report

fun merge_results :: "(string \<times> report_file) list \<Rightarrow> vulnerability list list \<Rightarrow> string + vulnerability list list" where
  "merge_results [] acc = Inr acc"
| "merge_results ((p, Unread e) # fs) acc = Inl (''read '' @ p @ '': '' @ e)"
| "merge_results ((p, No_Report e) # fs) acc = Inl (''parse '' @ p @ '': '' @ e)"
| "merge_results ((p, A_Report r) # fs) acc = merge_results fs (acc @ tr_results r)"

definition merge_trivy_reports :: "(string \<times> report_file) list \<Rightarrow> string + trivy_report" where
  "merge_trivy_reports files = try_bind (merge_results files []) (\<lambda>rs. Inr \<lparr>tr_schema = 2, tr_results = rs\<rparr>)"

subsection \<open>The ranking of a dependency\<close>

record cve =
  cv_id :: string
  cv_severity :: string

record signal_info =
  si_name :: string
  si_evidence :: evidence
  si_blocking :: bool

text \<open>\<open>da_\<close> for the fields of the job's own \<^verbatim>\<open>Candidate\<close>; a publication time comes formatted.\<close>

record candidate_result =
  da_version :: string
  da_vector :: vector
  da_cves :: "cve list"
  da_signals :: "signal_info list"
  da_key :: bool
  da_resolved :: bool
  da_published :: string

record dependency_result =
  dr_name :: string
  dr_current :: string
  dr_best :: string
  dr_vector :: vector
  dr_cves :: "cve list"
  dr_candidates :: "candidate_result list"

definition zero_vector :: vector where "zero_vector = [0, 0, 0, 0, 0]"

definition severity_text :: "severity \<Rightarrow> string" where
  "severity_text s = (case marshal_text s of Inl e \<Rightarrow> severity_string s | Inr t \<Rightarrow> t)"

definition cmp_cve :: "finding \<Rightarrow> finding \<Rightarrow> int" where
  "cmp_cve a b = cmp_or [go_compare (fd_severity a) (fd_severity b), go_compare (fd_id a) (fd_id b)]"

definition cves_of :: "finding_set \<Rightarrow> cve list" where
  "cves_of s = map (\<lambda>f. \<lparr>cv_id = fd_id f, cv_severity = severity_text (fd_severity f)\<rparr>) (sort_func cmp_cve (map snd s))"

text \<open>\<^verbatim>\<open>rank.VectorOf\<close> panics on a severity out of range, which no finding of a report has.\<close>

definition set_vector :: "finding_set \<Rightarrow> vector" where
  "set_vector s = (case vector_of s of Some v \<Rightarrow> v | None \<Rightarrow> zero_vector)"

definition facts_of :: "'v semver \<Rightarrow> string \<Rightarrow> version_meta \<Rightarrow> packument \<Rightarrow> platform_target \<Rightarrow> facts" where
  "facts_of sv version m pk t =
     (let range = (case gm_get (vm_engines m) ''node'' of None \<Rightarrow> '''' | Some r \<Rightarrow> r) in
      \<lparr>fc_version = version, fc_published = fst (published pk version), fc_deprecated = vm_deprecated m,
       fc_node_range = range, fc_node_compatible = (case satisfies_node sv range (pt_node t) of Inr b \<Rightarrow> b | Inl e \<Rightarrow> False),
       fc_resolves = False, fc_install_script = has_install_script m, fc_provenance = has_provenance m,
       fc_publisher = vm_publisher m\<rparr>)"

definition to_signals :: "hit list \<Rightarrow> signal_info list" where
  "to_signals hits = map (\<lambda>h. \<lparr>si_name = signal_name (ht_signal h), si_evidence = ht_evidence h,
     si_blocking = blocking (ht_signal h)\<rparr>) hits"

definition outcomes_of :: "candidate_outcome list \<Rightarrow> string \<Rightarrow> candidate_outcome list" where
  "outcomes_of outcomes name = filter (\<lambda>out. dep_name (ct_dep (co_task out)) = name) outcomes"

text \<open>The map from a version to its index in an ascending list; an absent one reads as 0.\<close>

definition position_of :: "string list \<Rightarrow> string \<Rightarrow> int" where
  "position_of vs v = (case map_of (rev (zip vs [0..<length vs])) v of Some i \<Rightarrow> int i | None \<Rightarrow> 0)"

definition candidate_hits :: "'v semver \<Rightarrow> platform_target \<Rightarrow> policy \<Rightarrow> packument \<Rightarrow> facts \<Rightarrow> candidate_outcome \<Rightarrow> hit list" where
  "candidate_hits sv t pol pk current out =
     (let v = ct_version (co_task out);
          f = (facts_of sv v (meta_of pk v) pk t)\<lparr>fc_resolves := (co_err out = None)\<rparr>;
          hits = signals sv current f pol
      in (case co_err out of None \<Rightarrow> hits | Some e \<Rightarrow> \<lparr>ht_signal = Unresolvable, ht_evidence = Text e\<rparr> # hits))"

definition rank_outcome :: "(int \<Rightarrow> string) \<Rightarrow> packument \<Rightarrow> index \<Rightarrow> (candidate_outcome \<Rightarrow> hit list) \<Rightarrow> candidate_outcome
    \<Rightarrow> candidate_result" where
  "rank_outcome fmt pk ix hits out =
     (let v = ct_version (co_task out); s = finding_set ix (keys_of (co_pkgs out)) in
      \<lparr>da_version = v,
       da_vector = (if co_err out = None then set_vector s else zero_vector),
       da_cves = (if co_err out = None then cves_of s else []),
       da_signals = to_signals (hits out),
       da_key = ct_key (co_task out),
       da_resolved = (co_err out = None),
       da_published = (case published pk v of (t, ok) \<Rightarrow> if ok then fmt t else '''')\<rparr>)"

definition to_candidate :: "(candidate_outcome \<Rightarrow> hit list) \<Rightarrow> (candidate_outcome \<Rightarrow> candidate_result) \<Rightarrow> candidate_outcome \<Rightarrow> candidate" where
  "to_candidate hits res out = \<lparr>cd_version = ct_version (co_task out), cd_vector = da_vector (res out), cd_hits = hits out\<rparr>"

text \<open>The last outcome of the current version; none leaves the zero value.\<close>

definition no_task :: candidate_task where
  "no_task = \<lparr>ct_dep = \<lparr>dep_name = '''', dep_version = '''', dep_kind = Prod\<rparr>, ct_version = '''', ct_key = False, ct_current = False\<rparr>"

definition current_of :: "candidate_outcome list \<Rightarrow> candidate_outcome" where
  "current_of outs = foldl (\<lambda>c out. if ct_current (co_task out) then out else c)
     \<lparr>co_task = no_task, co_pkgs = [], co_lock = '''', co_output = '''', co_err = None\<rparr> outs"

definition others_of :: "string list \<Rightarrow> candidate_outcome list \<Rightarrow> candidate_outcome list" where
  "others_of newer outs = sort_func (\<lambda>a b. position_of newer (ct_version (co_task a)) - position_of newer (ct_version (co_task b)))
     (filter (\<lambda>out. \<not> ct_current (co_task out)) outs)"

text \<open>The warning it adds, if any, and the filled result. The events of the candidates follow from it.\<close>

definition rank_dependency :: "'v semver \<Rightarrow> (int \<Rightarrow> string) \<Rightarrow> platform_target \<Rightarrow> policy \<Rightarrow> index \<Rightarrow> dep_info
    \<Rightarrow> candidate_outcome list \<Rightarrow> string list \<times> dependency_result" where
  "rank_dependency sv fmt t pol ix d grp =
     (let dep = di_dep d; pk = di_packument d;
          current = current_of grp;
          facts = (facts_of sv (dep_version dep) (meta_of pk (dep_version dep)) pk t)\<lparr>fc_resolves := (co_err current = None)\<rparr>;
          others = others_of (di_newer d) grp;
          hits = candidate_hits sv t pol pk facts;
          res = rank_outcome fmt pk ix hits;
          s = finding_set ix (keys_of (co_pkgs current));
          dr = \<lparr>dr_name = dep_name dep, dr_current = dep_version dep, dr_best = '''',
            dr_vector = (if co_err current = None then set_vector s else zero_vector),
            dr_cves = (if co_err current = None then cves_of s else []),
            dr_candidates = map res others\<rparr>
      in (case co_err current of
            Some e \<Rightarrow> ([dep_name dep @ '': the current version '' @ dep_version dep @ '' does not resolve: '' @ e], dr)
          | None \<Rightarrow> ([], (case best sv (dep_version dep) (dr_vector dr) (map (to_candidate hits res) others) of
              None \<Rightarrow> dr | Some b \<Rightarrow> dr\<lparr>dr_best := cd_version b\<rparr>))))"

definition rank_one :: "'v semver \<Rightarrow> (int \<Rightarrow> string) \<Rightarrow> platform_target \<Rightarrow> policy \<Rightarrow> index \<Rightarrow> candidate_outcome list \<Rightarrow> dep_info
    \<Rightarrow> string list \<times> dependency_result" where
  "rank_one sv fmt t pol ix outcomes d =
     (let name = dep_name (di_dep d) in
      if di_warning d \<noteq> '''' then ([name @ '': '' @ di_warning d],
        \<lparr>dr_name = name, dr_current = dep_version (di_dep d), dr_best = '''', dr_vector = zero_vector, dr_cves = [], dr_candidates = []\<rparr>)
      else rank_dependency sv fmt t pol ix d (outcomes_of outcomes name))"

subsection \<open>Peer dependencies\<close>

definition tee_mark :: string where "tee_mark = map (char_of :: nat \<Rightarrow> char) [0xE2, 0x94, 0x80, 0xE2, 0x94, 0xAC, 0x20]"
definition cross_mark :: string where "cross_mark = map (char_of :: nat \<Rightarrow> char) [0xE2, 0x9C, 0x95, 0x20]"

text \<open>One line of pnpm's output, with the package above it and the issues so far.\<close>

definition peer_line :: "string \<times> string list \<Rightarrow> string \<Rightarrow> string \<times> string list" where
  "peer_line s l = (case cut_str tee_mark l of
     Some (_, rest) \<Rightarrow> (trim_space rest, snd s)
   | None \<Rightarrow> (case cut_str cross_mark l of
       Some (_, rest) \<Rightarrow> if contains_str ''peer'' rest then (fst s, snd s @ [fst s @ '': '' @ trim_space rest]) else s
     | None \<Rightarrow> s))"

definition peer_issues :: "string \<Rightarrow> string list" where
  "peer_issues output = (let issues = snd (foldl peer_line ('''', []) (split_char (CHR 0x0A) output)) in
     if issues = [] \<and> contains_str ''Issues with peer dependencies found'' output
     then [''pnpm reports peer dependency issues''] else issues)"

definition cut_last_if :: "char \<Rightarrow> string \<Rightarrow> string" where
  "cut_last_if c s = (case split_last c s of Some (a, b) \<Rightarrow> if a \<noteq> [] then a else s | None \<Rightarrow> s)"

definition peer_key :: "string \<Rightarrow> string" where
  "peer_key issue =
     (let (parent, rest) = (case cut_str '': '' issue of Some pr \<Rightarrow> pr | None \<Rightarrow> (issue, '''')) in
      (case cut_str '' peer '' rest of
         None \<Rightarrow> issue
       | Some (kind, spec) \<Rightarrow> cut_last_if CHR '' '' parent @ '' '' @ kind @ '' ''
           @ cut_last_if CHR ''@'' (case cut CHR '':'' spec of (a, _, _) \<Rightarrow> a)))"

definition peer_warning :: "string \<Rightarrow> string \<Rightarrow> string" where
  "peer_warning project combined =
     (let before = map peer_key (peer_issues project);
          added = filter (\<lambda>i. peer_key i \<notin> set before) (peer_issues combined)
      in if added = [] then '''' else ''the best candidates together leave peer dependencies unmet: '' @ join_with ''; '' added)"

subsection \<open>The list of tasks\<close>

lemma fold_add_task: "foldl (add_task d keys) pr vs
    = (fst pr @ map (\<lambda>v. \<lparr>ct_dep = d, ct_version = v, ct_key = True, ct_current = False\<rparr>) (filter (\<lambda>v. v \<in> set keys) vs),
       snd pr @ map (\<lambda>v. \<lparr>ct_dep = d, ct_version = v, ct_key = False, ct_current = False\<rparr>) (filter (\<lambda>v. v \<notin> set keys) vs))"
  by (induction vs arbitrary: pr) (auto simp: add_task_def Let_def)

abbreviation keys_for :: "'v semver \<Rightarrow> index \<Rightarrow> dep_info \<Rightarrow> string list" where
  "keys_for sv ix d \<equiv> key_versions sv (dep_version (di_dep d)) (di_newer d)
     (fixed_versions_of ix (dep_name (di_dep d)) (dep_version (di_dep d)))"

definition first_tasks :: "'v semver \<Rightarrow> index \<Rightarrow> dep_info \<Rightarrow> candidate_task list" where
  "first_tasks sv ix d = (if di_warning d \<noteq> '''' then [] else current_task (di_dep d)
     # map (\<lambda>v. \<lparr>ct_dep = di_dep d, ct_version = v, ct_key = True, ct_current = False\<rparr>) (keys_for sv ix d))"

definition later_tasks :: "'v semver \<Rightarrow> index \<Rightarrow> dep_info \<Rightarrow> candidate_task list" where
  "later_tasks sv ix d = (if di_warning d \<noteq> '''' then [] else
     map (\<lambda>v. \<lparr>ct_dep = di_dep d, ct_version = v, ct_key = False, ct_current = False\<rparr>)
       (filter (\<lambda>v. v \<notin> set (keys_for sv ix d)) (di_newer d)))"

lemma order_key_first_split:
  "filter (\<lambda>v. v \<in> set keys) (order_key_first newer keys) = keys"
  "filter (\<lambda>v. v \<notin> set keys) (order_key_first newer keys) = filter (\<lambda>v. v \<notin> set keys) newer"
  by (simp_all add: order_key_first_def filter_empty_conv)

lemma add_tasks_split: "add_tasks sv ix pr d = (fst pr @ first_tasks sv ix d, snd pr @ later_tasks sv ix d)"
  by (simp add: add_tasks_def Let_def fold_add_task order_key_first_split first_tasks_def later_tasks_def)

lemma build_candidate_tasks_split: "build_candidate_tasks sv deps ix
    = concat (map (first_tasks sv ix) deps) @ concat (map (later_tasks sv ix) deps)"
proof -
  have "foldl (add_tasks sv ix) pr deps
      = (fst pr @ concat (map (first_tasks sv ix) deps), snd pr @ concat (map (later_tasks sv ix) deps))" for pr
    by (induction deps arbitrary: pr) (simp_all add: add_tasks_split)
  then show ?thesis by (simp add: build_candidate_tasks_def)
qed

text \<open>What \<open>list_one_candidate\<close> makes: with no warning, the newer versions are those of the packument.\<close>

definition good_info :: "'v semver \<Rightarrow> dep_info \<Rightarrow> bool" where
  "good_info sv d \<longleftrightarrow> di_warning d \<noteq> '''' \<or> gm_ok (pm_versions (di_packument d))
     \<and> newer_stable sv (dep_version (di_dep d)) (map fst (pm_versions (di_packument d))) = Inr (di_newer d)"

lemma list_one_good: "(\<And>pk. answer = Inr pk \<Longrightarrow> gm_ok (pm_versions pk)) \<Longrightarrow> good_info sv (snd (list_one_candidate sv answer d))"
  by (auto simp: list_one_candidate_def good_info_def split: sum.splits)

context semver_laws
begin

lemma good_info_newer:
  assumes "good_info sv d" "di_warning d = ''''"
  shows "distinct (di_newer d)" "\<forall>v \<in> set (di_newer d). sv_ok sv v"
proof -
  let ?vs = "map fst (pm_versions (di_packument d))"
  from assms have ok: "distinct ?vs" and n: "newer_stable sv (dep_version (di_dep d)) ?vs = Inr (di_newer d)"
    by (auto simp: good_info_def gm_ok_def)
  from n obtain cur where "map (sv_original sv) (sort_func (sv_compare sv) (List.map_filter (is_newer_stable sv cur) ?vs)) = di_newer d"
    unfolding newer_stable_def by (cases "sv_strict sv (dep_version (di_dep d))") auto
  then have "mset (di_newer d) = mset (map (sv_original sv) (List.map_filter (is_newer_stable sv cur) ?vs))"
    by (metis mset_map mset_sort_func)
  then have "mset (di_newer d) = mset (filter (\<lambda>s. is_newer_stable sv cur s \<noteq> None) ?vs)" by (simp only: newer_mset mset_filter)
  then show "distinct (di_newer d)" using ok by (metis distinct_filter mset_eq_imp_distinct_iff)
  show "\<forall>v \<in> set (di_newer d). sv_ok sv v" using newer_in_range [OF n] by blast
qed

end

lemma later_keys:
  assumes "distinct newer"
  shows "mset (key_versions sv c newer fixed) + mset (filter (\<lambda>v. v \<notin> set (key_versions sv c newer fixed)) newer) = mset newer"
proof -
  let ?k = "key_versions sv c newer fixed"
  have k: "distinct ?k" "set ?k \<subseteq> set newer" using key_versions_in by blast+
  then have "mset (filter (\<lambda>v. v \<in> set ?k) newer) = mset ?k"
    using assms by (intro set_eq_iff_mset_eq_distinct [THEN iffD1]) auto
  then show ?thesis using multiset_partition [of "mset newer" "\<lambda>v. v \<in> set ?k"] by simp
qed

lemma sum_list_mset_map: "mset (map f (concat (map g xs))) = sum_list (map (\<lambda>x. mset (map f (g x))) xs)"
  by (induction xs) auto

lemma task_versions:
  assumes "semver_laws sv" "good_info sv d"
  shows "mset (map (\<lambda>t. (ct_dep t, ct_version t, ct_current t)) (first_tasks sv ix d @ later_tasks sv ix d))
    = (if di_warning d \<noteq> '''' then {#} else mset ((di_dep d, dep_version (di_dep d), True) # map (\<lambda>v. (di_dep d, v, False)) (di_newer d)))"
proof (cases "di_warning d = ''''")
  case True
  let ?k = "keys_for sv ix d" and ?f = "\<lambda>v. (di_dep d, v, False)"
  have "mset (map ?f ?k) + mset (map ?f (filter (\<lambda>v. v \<notin> set ?k) (di_newer d))) = mset (map ?f (di_newer d))"
    using later_keys [OF semver_laws.good_info_newer(1) [OF assms True], of sv "dep_version (di_dep d)"]
    by (metis image_mset_union mset_map)
  then show ?thesis using True
    by (simp add: first_tasks_def later_tasks_def current_task_def comp_def)
qed (simp add: first_tasks_def later_tasks_def)

subsection \<open>The pool\<close>

lemma end_tasks:
  assumes "length (pl_outcomes p) = n" "set order \<subseteq> {..<n}"
  shows "length (pl_outcomes (foldl (end_task outcome) p order)) = n
    \<and> (\<forall>i < n. pl_outcomes (foldl (end_task outcome) p order) ! i = (if i \<in> set order then Some (outcome i) else pl_outcomes p ! i))
    \<and> pl_ended (foldl (end_task outcome) p order) = pl_ended p + length order
    \<and> pl_progress (foldl (end_task outcome) p order) = pl_progress p @ map (\<lambda>k. pl_ended p + k + 1) [0..<length order]"
  using assms
proof (induction order rule: rev_induct)
  case (snoc i order)
  then show ?case by (auto simp: end_task_def nth_list_update)
qed simp

lemma resolve_any_order:
  assumes "distinct order" "set order = {..<n}"
  shows "pl_outcomes (resolve_candidate_tasks order outcome n) = map Some (map outcome [0..<n])"
    and "pl_progress (resolve_candidate_tasks order outcome n) = [1..<n + 1]"
proof -
  let ?p = "\<lparr>pl_outcomes = replicate n None, pl_ended = 0, pl_progress = []\<rparr>"
  have len: "length order = n" using assms by (metis card_lessThan distinct_card)
  note e = end_tasks [of ?p n order outcome]
  show "pl_outcomes (resolve_candidate_tasks order outcome n) = map Some (map outcome [0..<n])"
    by (rule nth_equalityI) (use e assms(2) in \<open>auto simp: resolve_candidate_tasks_def\<close>)
  have "map Suc [0..<n] = [1..<n + 1]" by (simp add: map_Suc_upt)
  then show "pl_progress (resolve_candidate_tasks order outcome n) = [1..<n + 1]"
    using e assms(2) len by (simp add: resolve_candidate_tasks_def)
qed

subsection \<open>The outcomes of one dependency\<close>

lemma task_dep: "t \<in> set (first_tasks sv ix d) \<union> set (later_tasks sv ix d) \<Longrightarrow> ct_dep t = di_dep d"
  by (auto simp: first_tasks_def later_tasks_def current_task_def split: if_splits)

lemma filter_one_dep:
  assumes "distinct (map (\<lambda>d. dep_name (di_dep d)) deps)" "d \<in> set deps"
    and "\<And>d t. t \<in> set (g d) \<Longrightarrow> ct_dep t = di_dep d"
  shows "filter (\<lambda>t. dep_name (ct_dep t) = dep_name (di_dep d)) (concat (map g deps)) = g d"
proof -
  let ?P = "\<lambda>t. dep_name (ct_dep t) = dep_name (di_dep d)"
  have other: "filter ?P (concat (map g ds)) = []" if "\<forall>e \<in> set ds. dep_name (di_dep e) \<noteq> dep_name (di_dep d)" for ds
    using that by (induction ds) (auto simp: filter_empty_conv dest: assms(3))
  obtain as bs where s: "deps = as @ d # bs" using assms(2) by (meson split_list)
  from assms(1) have "dep_name (di_dep d) \<notin> (\<lambda>d. dep_name (di_dep d)) ` (set as \<union> set bs)" unfolding s by auto
  then have "\<forall>e \<in> set as. dep_name (di_dep e) \<noteq> dep_name (di_dep d)" "\<forall>e \<in> set bs. dep_name (di_dep e) \<noteq> dep_name (di_dep d)"
    by (metis UnI1 UnI2 image_eqI)+
  then have "filter ?P (concat (map g as)) = []" "filter ?P (concat (map g bs)) = []" using other by blast+
  moreover have "filter ?P (g d) = g d" using assms(3) [of _ d] by simp
  ultimately show ?thesis by (simp add: s)
qed

lemma tasks_of_dep:
  assumes "distinct (map (\<lambda>d. dep_name (di_dep d)) deps)" "d \<in> set deps"
    and "map co_task outs = build_candidate_tasks sv deps ix"
  shows "map co_task (outcomes_of outs (dep_name (di_dep d))) = first_tasks sv ix d @ later_tasks sv ix d"
proof -
  have "map co_task (outcomes_of outs (dep_name (di_dep d)))
      = filter (\<lambda>t. dep_name (ct_dep t) = dep_name (di_dep d)) (map co_task outs)"
    by (simp add: outcomes_of_def filter_map comp_def)
  then show ?thesis
    using filter_one_dep [OF assms(1,2), of "first_tasks sv ix"] filter_one_dep [OF assms(1,2), of "later_tasks sv ix"]
      task_dep [of _ sv ix] by (simp add: assms(3) build_candidate_tasks_split)
qed

lemma position_nth: "distinct vs \<Longrightarrow> i < length vs \<Longrightarrow> position_of vs (vs ! i) = int i"
proof -
  assume d: "distinct vs" and i: "i < length vs"
  have "distinct (map fst (rev (zip vs [0..<length vs])))" using d by (simp flip: rev_map)
  moreover have "(vs ! i, i) \<in> set (rev (zip vs [0..<length vs]))" using i by (auto simp: set_zip intro!: exI [of _ i])
  ultimately show ?thesis by (simp add: position_of_def map_of_is_SomeI)
qed

lemma comparator_difference [intro]: "comparator (\<lambda>a b. key a - key b :: int)"
  by unfold_locales auto

lemma sorted_by_position:
  assumes "distinct newer" "mset (map ver outs) = mset newer"
  shows "map ver (sort_func (\<lambda>a b. position_of newer (ver a) - position_of newer (ver b)) outs) = newer"
    (is "map ver ?s = newer")
proof (rule comparator.sorted_perm_unique [OF comparator_difference [of "position_of newer"]])
  have m: "mset (map ver ?s) = mset newer" using assms(2) by (metis mset_map mset_sort_func)
  then show "mset (map ver ?s) = mset newer" .
  show "sorted_wrt (\<lambda>x y. position_of newer x - position_of newer y \<le> 0) (map ver ?s)"
    using comparator.sorted_sort_func [OF comparator_difference [of "\<lambda>a. position_of newer (ver a)"]]
    by (simp add: sorted_wrt_map)
  show "sorted_wrt (\<lambda>x y. position_of newer x - position_of newer y \<le> 0) newer"
    by (simp add: sorted_wrt_iff_nth_less position_nth assms(1))
  fix x y assume "x \<in> set (map ver ?s)" "y \<in> set (map ver ?s)" "position_of newer x - position_of newer y = 0"
  then show "x = y" using mset_eq_setD [OF m] assms(1)
    by (auto simp: in_set_conv_nth position_nth)
qed

lemma current_kept: "\<forall>out \<in> set outs. \<not> ct_current (co_task out) \<Longrightarrow>
    foldl (\<lambda>c out. if ct_current (co_task out) then out else c) c outs = c"
  by (induction outs) auto

text \<open>The outcomes of a dependency: its current version, and the others in ascending order.\<close>

lemma outcomes_split:
  assumes "semver_laws sv" "good_info sv d" "di_warning d = ''''"
    and "map co_task grp = first_tasks sv ix d @ later_tasks sv ix d"
  obtains c where "c \<in> set grp" "current_of grp = c" "map (\<lambda>out. ct_version (co_task out)) (others_of (di_newer d) grp) = di_newer d"
    "co_task c = current_task (di_dep d)" "\<forall>out \<in> set grp. ct_current (co_task out) \<longrightarrow> out = c"
proof -
  let ?ver = "\<lambda>out. ct_version (co_task out)"
  from assms(3,4) obtain c os where g: "grp = c # os" and c: "co_task c = current_task (di_dep d)"
    and os: "map co_task os = tl (first_tasks sv ix d) @ later_tasks sv ix d"
    by (cases grp) (auto simp: first_tasks_def)
  have "\<forall>t \<in> set (map co_task os). \<not> ct_current t"
    unfolding os using assms(3) by (auto simp: first_tasks_def later_tasks_def)
  then have not: "\<forall>out \<in> set os. \<not> ct_current (co_task out)" by simp
  then have f: "filter (\<lambda>out. \<not> ct_current (co_task out)) grp = os" and cur: "current_of grp = c"
    using c current_kept [OF not] by (simp_all add: g current_task_def current_of_def filter_id_conv)
  have "mset (map ?ver os) = mset (map ct_version (map co_task os))" by (simp add: comp_def)
  also have "\<dots> = mset (di_newer d)"
    unfolding os using assms(3) later_keys [OF semver_laws.good_info_newer(1) [OF assms(1-3)], of sv "dep_version (di_dep d)"]
    by (simp add: first_tasks_def later_tasks_def comp_def)
  finally have "mset (map ?ver os) = mset (di_newer d)" .
  from sorted_by_position [OF semver_laws.good_info_newer(1) [OF assms(1-3)] this]
  have "map ?ver (others_of (di_newer d) grp) = di_newer d" by (simp add: others_of_def f)
  then show thesis by - (rule that [of c], use cur c not in \<open>simp_all add: g\<close>)
qed

text \<open>A result the analysis would propose: no signal on it blocks.\<close>

definition open_result :: "candidate_result \<Rightarrow> bool" where
  "open_result c \<longleftrightarrow> list_all (\<lambda>s. \<not> si_blocking s) (da_signals c)"

lemma open_result_blocked: "open_result (rank_outcome fmt pk ix hits out) \<longleftrightarrow> \<not> blocked (to_candidate hits res out)"
  by (auto simp: open_result_def rank_outcome_def Let_def to_signals_def to_candidate_def blocked_def list_all_iff list_ex_iff)

lemma unresolved_hits: "co_err out = Some e \<Longrightarrow>
    2 \<le> length (filter (\<lambda>h. ht_signal h = Unresolvable) (candidate_hits sv t pol pk current out))"
  by (simp add: candidate_hits_def Let_def signals_def hit_when_def)

lemma signal_name_inj [simp]: "signal_name s = signal_name s' \<longleftrightarrow> s = s'"
  by (cases s; cases s') simp_all

lemma unresolved_signals:
  assumes "co_err out = Some e" "hits out = candidate_hits sv t pol pk current out"
  shows "2 \<le> length (filter (\<lambda>s. si_name s = signal_name Unresolvable \<and> si_blocking s)
     (da_signals (rank_outcome fmt pk ix hits out)))"
proof -
  have "ht_signal h = Unresolvable \<and> blocking (ht_signal h) \<longleftrightarrow> ht_signal h = Unresolvable" for h :: hit
    by (auto simp: blocking_def)
  then show ?thesis
    using unresolved_hits [OF assms(1), of sv t pol pk current]
    by (simp add: rank_outcome_def Let_def to_signals_def filter_map comp_def assms(2) del: signal_name.simps)
qed

text \<open>What the ranking of a dependency with no warning promises.\<close>

definition ranked_well :: "dep_info \<Rightarrow> candidate_outcome list \<Rightarrow> string list \<Rightarrow> dependency_result \<Rightarrow> bool" where
  "ranked_well d outs ws dr \<longleftrightarrow> map da_version (dr_candidates dr) = di_newer d
    \<and> (\<forall>c \<in> set (dr_candidates dr). \<not> da_resolved c \<longrightarrow>
        2 \<le> length (filter (\<lambda>s. si_name s = signal_name Unresolvable \<and> si_blocking s) (da_signals c)))
    \<and> (if ws = [] \<and> (\<exists>c \<in> set (dr_candidates dr). open_result c \<and> da_vector c < dr_vector dr)
       then (\<exists>c \<in> set (dr_candidates dr). dr_best dr = da_version c \<and> da_resolved c \<and> open_result c \<and> da_vector c < dr_vector dr
          \<and> (\<forall>c' \<in> set (dr_candidates dr). open_result c' \<longrightarrow> da_vector c \<le> da_vector c'))
       else dr_best dr = '''')
    \<and> (ws \<noteq> [] \<longleftrightarrow> (\<exists>out \<in> set outs. co_task out = current_task (di_dep d) \<and> co_err out \<noteq> None))"

text \<open>What it promises of any dependency, also when another section of the package.json has its name: then the outcomes of
  both are ranked together, and the current version is that of the last. \<open>best_of\<close> is its choice.\<close>

definition best_of :: "string list \<Rightarrow> dependency_result \<Rightarrow> bool" where
  "best_of ws dr \<longleftrightarrow> (if ws = [] \<and> (\<exists>c \<in> set (dr_candidates dr). open_result c \<and> da_vector c < dr_vector dr)
       then (\<exists>c \<in> set (dr_candidates dr). dr_best dr = da_version c \<and> da_resolved c \<and> open_result c \<and> da_vector c < dr_vector dr
          \<and> (\<forall>c' \<in> set (dr_candidates dr). open_result c' \<longrightarrow> da_vector c \<le> da_vector c'))
       else dr_best dr = '''')"

definition namesakes :: "dep_info list \<Rightarrow> dep_info \<Rightarrow> dep_info list" where
  "namesakes deps d = filter (\<lambda>e. dep_name (di_dep e) = dep_name (di_dep d) \<and> di_warning e = '''') deps"

definition ranked_together :: "dep_info list \<Rightarrow> dep_info \<Rightarrow> string list \<Rightarrow> dependency_result \<Rightarrow> bool" where
  "ranked_together deps d ws dr \<longleftrightarrow> mset (map da_version (dr_candidates dr)) = sum_list (map (mset \<circ> di_newer) (namesakes deps d))
    \<and> (\<forall>c \<in> set (dr_candidates dr). \<not> da_resolved c \<longrightarrow>
        2 \<le> length (filter (\<lambda>s. si_name s = signal_name Unresolvable \<and> si_blocking s) (da_signals c)))
    \<and> best_of ws dr"

text \<open>The other versions among the outcomes of a name.\<close>

lemma others_versions:
  assumes "semver_laws sv" "\<forall>d \<in> set deps. good_info sv d" "map co_task outs = build_candidate_tasks sv deps ix"
  shows "mset (map (\<lambda>out. ct_version (co_task out)) (others_of newer (outcomes_of outs (dep_name (di_dep d)))))
    = sum_list (map (mset \<circ> di_newer) (namesakes deps d))"
proof -
  let ?n = "dep_name (di_dep d)"
  let ?P = "\<lambda>t. dep_name (ct_dep t) = ?n \<and> \<not> ct_current t"
  have "mset (map (\<lambda>out. ct_version (co_task out)) (others_of newer (outcomes_of outs ?n)))
      = image_mset ct_version (filter_mset ?P (image_mset co_task (mset outs)))"
    by (simp add: others_of_def outcomes_of_def filter_mset_image_mset image_mset.compositionality comp_def flip: filter_filter_mset)
  also have "\<dots> = image_mset ct_version (filter_mset ?P (mset (build_candidate_tasks sv deps ix)))"
    by (simp flip: assms(3))
  also have "\<dots> = sum_list (map (\<lambda>e. image_mset ct_version (filter_mset ?P (mset (first_tasks sv ix e @ later_tasks sv ix e)))) deps)"
    unfolding build_candidate_tasks_split by (induction deps) (simp_all add: ac_simps)
  also have "\<dots> = sum_list (map (\<lambda>e. if dep_name (di_dep e) = ?n \<and> di_warning e = '''' then mset (di_newer e) else {#}) deps)"
  proof (intro arg_cong [where f = sum_list] map_cong refl)
    fix e assume "e \<in> set deps"
    then have good: "good_info sv e" using assms(2) by blast
    let ?ts = "first_tasks sv ix e @ later_tasks sv ix e"
    have dep: "ct_dep t = di_dep e" if "t \<in> set ?ts" for t using task_dep [of t sv ix e] that by simp
    show "image_mset ct_version (filter_mset ?P (mset ?ts)) = (if dep_name (di_dep e) = ?n \<and> di_warning e = '''' then mset (di_newer e) else {#})"
    proof (cases "dep_name (di_dep e) = ?n")
      case True
      let ?f = "\<lambda>t. (ct_dep t, ct_version t, ct_current t)"
      have "filter_mset ?P (mset ?ts) = filter_mset (\<lambda>t. \<not> snd (snd (?f t))) (mset ?ts)"
        using dep True by (intro filter_mset_cong refl) auto
      then have "image_mset ct_version (filter_mset ?P (mset ?ts)) = image_mset ct_version (filter_mset (\<lambda>t. \<not> ct_current t) (mset ?ts))"
        by simp
      also have "\<dots> = image_mset (\<lambda>x. fst (snd x)) (filter_mset (\<lambda>x. \<not> snd (snd x)) (mset (map ?f ?ts)))"
        unfolding mset_map filter_mset_image_mset image_mset.compositionality by (simp add: comp_def)
      also have "mset (map ?f ?ts) = (if di_warning e \<noteq> '''' then {#} else
          mset ((di_dep e, dep_version (di_dep e), True) # map (\<lambda>v. (di_dep e, v, False)) (di_newer e)))"
        by (rule task_versions [OF assms(1) good])
      finally show ?thesis using True by (simp add: filter_mset_image_mset image_mset.compositionality comp_def)
    next
      case False
      then have "filter_mset ?P (mset ?ts) = {#}" using dep by (auto simp: filter_mset_eq_conv)
      then show ?thesis using False by simp
    qed
  qed
  also have "\<dots> = sum_list (map (mset \<circ> di_newer) (namesakes deps d))"
    unfolding namesakes_def by (induction deps) simp_all
  finally show ?thesis .
qed

lemma in_sum_list: "x \<in># sum_list (map (mset \<circ> f) xs) \<longleftrightarrow> (\<exists>y \<in> set xs. x \<in> set (f y))"
  by (induction xs) auto

lemma rank_one_together:
  assumes "semver_laws sv" and "\<forall>d \<in> set deps. good_info sv d" "map co_task outs = build_candidate_tasks sv deps ix0" and "di_warning d = ''''"
    and "rank_one sv fmt t pol ix outs d = (ws, dr)"
  shows "ranked_together deps d ws dr \<and> (ws = [] \<longleftrightarrow> co_err (current_of (outcomes_of outs (dep_name (di_dep d)))) = None)
    \<and> map da_version (dr_candidates dr) = map (\<lambda>out. ct_version (co_task out)) (others_of (di_newer d) (outcomes_of outs (dep_name (di_dep d))))"
proof -
  let ?grp = "outcomes_of outs (dep_name (di_dep d))"
  define c where "c = current_of ?grp"
  define fa where "fa = (facts_of sv (dep_version (di_dep d)) (meta_of (di_packument d) (dep_version (di_dep d))) (di_packument d) t)
    \<lparr>fc_resolves := (co_err c = None)\<rparr>"
  define hits where "hits = candidate_hits sv t pol (di_packument d) fa"
  define res where "res = rank_outcome fmt (di_packument d) ix hits"
  let ?os = "others_of (di_newer d) ?grp" and ?cs = "map (to_candidate hits res) (others_of (di_newer d) ?grp)"
  have cands: "dr_candidates dr = map res ?os"
    and ws: "ws = [] \<longleftrightarrow> co_err c = None"
    and best: "dr_best dr = (if ws = [] then case best sv (dep_version (di_dep d)) (dr_vector dr) ?cs of None \<Rightarrow> '''' | Some b \<Rightarrow> cd_version b else '''')"
    using assms(4,5)
    by (auto simp: c_def rank_one_def rank_dependency_def Let_def fa_def hits_def res_def split: option.splits if_splits)
  have ver: "da_version (res out) = ct_version (co_task out)" and vec: "cd_vector (to_candidate hits res out) = da_vector (res out)"
    and rs: "da_resolved (res out) \<longleftrightarrow> co_err out = None" for out
    by (simp_all add: res_def rank_outcome_def Let_def to_candidate_def)
  have op: "open_result (res out) \<longleftrightarrow> \<not> blocked (to_candidate hits res out)" for out
    unfolding res_def by (rule open_result_blocked)
  have twice: "2 \<le> length (filter (\<lambda>s. si_name s = signal_name Unresolvable \<and> si_blocking s) (da_signals (res out)))"
    if un: "\<not> da_resolved (res out)" for out
  proof -
    obtain e where "co_err out = Some e" using un [unfolded rs] by blast
    from unresolved_signals [OF this, of hits sv t pol "di_packument d" fa] show ?thesis by (simp add: res_def hits_def)
  qed
  have resolved: "da_resolved (res out)" if "open_result (res out)" for out
  proof (rule ccontr)
    assume "\<not> da_resolved (res out)"
    from twice [OF this] have "filter (\<lambda>s. si_name s = signal_name Unresolvable \<and> si_blocking s) (da_signals (res out)) \<noteq> []" by auto
    then show False using that by (auto simp: open_result_def list_all_iff filter_empty_conv)
  qed
  note vers = others_versions [OF assms(1-3), of "di_newer d" d]
  have parsed: "\<forall>x \<in> set ?cs. \<not> blocked x \<longrightarrow> sv_ok sv (cd_version x)"
  proof -
    have "set (map cd_version ?cs) = set_mset (sum_list (map (mset \<circ> di_newer) (namesakes deps d)))"
      unfolding vers [symmetric] by (simp add: to_candidate_def comp_def image_image)
    then have "\<forall>x \<in> set ?cs. \<exists>e \<in> set deps. di_warning e = '''' \<and> cd_version x \<in> set (di_newer e)"
      unfolding set_eq_iff in_sum_list by (auto simp: namesakes_def)
    then show ?thesis using semver_laws.good_info_newer(2) [OF assms(1)] assms(2) by blast
  qed
  note bc = best_cases [OF assms(1) parsed, of "dep_version (di_dep d)" "dr_vector dr"]
  have cver: "map da_version (dr_candidates dr) = map (\<lambda>out. ct_version (co_task out)) ?os"
    by (simp add: cands ver comp_def)
  have "if ws = [] \<and> (\<exists>c \<in> set (dr_candidates dr). open_result c \<and> da_vector c < dr_vector dr)
     then (\<exists>c \<in> set (dr_candidates dr). dr_best dr = da_version c \<and> da_resolved c \<and> open_result c \<and> da_vector c < dr_vector dr
        \<and> (\<forall>c' \<in> set (dr_candidates dr). open_result c' \<longrightarrow> da_vector c \<le> da_vector c'))
     else dr_best dr = ''''"
  proof (cases "ws = []")
    case True
    from bc show ?thesis
    proof (elim disjE exE conjE)
      fix x assume x: "x \<in> set ?cs" "\<not> blocked x" "\<forall>o' \<in> set ?cs. \<not> blocked o' \<longrightarrow> cmp_candidate sv (dep_version (di_dep d)) x o' \<le> 0"
        and b: "best sv (dep_version (di_dep d)) (dr_vector dr) ?cs = (if cd_vector x < dr_vector dr then Some x else None)"
      then obtain out where out: "out \<in> set ?os" "x = to_candidate hits res out" by auto
      have least: "da_vector (res out) \<le> da_vector (res out')" if "out' \<in> set ?os" "open_result (res out')" for out'
        using x(3) that cmp_candidate_vector [of sv _ x "to_candidate hits res out'"] by (auto simp: op out(2) vec)
      show ?thesis
      proof (cases "cd_vector x < dr_vector dr")
        case less: True
        then have "dr_best dr = da_version (res out)" using True best b by (simp add: out(2) ver to_candidate_def)
        moreover have "open_result (res out)" "da_vector (res out) < dr_vector dr" using x(2) less by (simp_all add: op out(2) vec)
        ultimately show ?thesis using True resolved least out(1) by (auto simp: cands)
      next
        case False
        then have "\<not> (\<exists>c \<in> set (dr_candidates dr). open_result c \<and> da_vector c < dr_vector dr)"
          using least by (auto simp: cands out(2) vec dest: le_less_trans)
        then show ?thesis using True best b False by auto
      qed
    next
      assume "\<forall>x \<in> set ?cs. blocked x" "best sv (dep_version (di_dep d)) (dr_vector dr) ?cs = None"
      then show ?thesis using best by (auto simp: cands op)
    qed
  qed (simp add: best)
  then have "best_of ws dr" unfolding best_of_def .
  moreover have "\<forall>x \<in> set (dr_candidates dr). \<not> da_resolved x \<longrightarrow>
      2 \<le> length (filter (\<lambda>s. si_name s = signal_name Unresolvable \<and> si_blocking s) (da_signals x))"
    using twice by (simp add: cands)
  moreover have "ws = [] \<longleftrightarrow> co_err (current_of ?grp) = None" using ws by (simp add: c_def)
  ultimately show ?thesis unfolding ranked_together_def cver vers by blast
qed

lemma rank_one_well:
  assumes "semver_laws sv" and "\<forall>d \<in> set deps. good_info sv d" "distinct (map (\<lambda>d. dep_name (di_dep d)) deps)"
    and "map co_task outs = build_candidate_tasks sv deps ix0" and "d \<in> set deps" "di_warning d = ''''"
    and "rank_one sv fmt t pol ix outs d = (ws, dr)"
  shows "ranked_well d outs ws dr"
proof -
  let ?grp = "outcomes_of outs (dep_name (di_dep d))"
  have good: "good_info sv d" using assms(2,5) by blast
  note tasks = tasks_of_dep [OF assms(3,5,4)]
  from outcomes_split [OF assms(1) good assms(6) tasks] obtain c
    where c: "c \<in> set ?grp" "current_of ?grp = c" "co_task c = current_task (di_dep d)"
        "\<forall>out \<in> set ?grp. ct_current (co_task out) \<longrightarrow> out = c"
      and vers: "map (\<lambda>out. ct_version (co_task out)) (others_of (di_newer d) ?grp) = di_newer d"
    by metis
  note any = rank_one_together [OF assms(1,2,4,6,7)]
  have "ws \<noteq> [] \<longleftrightarrow> (\<exists>out \<in> set outs. co_task out = current_task (di_dep d) \<and> co_err out \<noteq> None)"
    using c any by (auto simp: outcomes_of_def current_task_def)
  then show ?thesis using any vers unfolding ranked_well_def ranked_together_def best_of_def by simp
qed

subsection \<open>Properties\<close>

text \<open>C29. The tasks of an analysis are exactly the current version and each newer stable version of every
  dependency without a warning, each once. The current and the key versions of all dependencies come before
  the first version that is neither. And whatever order the workers end in, each outcome lands in the place
  of its task.\<close>

theorem tasks_complete_key_first:
  assumes "semver_laws sv" and "\<forall>d \<in> set deps. good_info sv d"
    and "distinct order" "set order = {..<length (build_candidate_tasks sv deps ix)}"
  shows "mset (map (\<lambda>t. (ct_dep t, ct_version t, ct_current t)) (build_candidate_tasks sv deps ix))
      = sum_list (map (\<lambda>d. mset ((di_dep d, dep_version (di_dep d), True) # map (\<lambda>v. (di_dep d, v, False)) (di_newer d)))
          (filter (\<lambda>d. di_warning d = '''') deps))
    \<and> (\<exists>first later. build_candidate_tasks sv deps ix = first @ later
        \<and> (\<forall>t \<in> set first. ct_key t \<or> ct_current t) \<and> (\<forall>t \<in> set later. \<not> ct_key t \<and> \<not> ct_current t))
    \<and> pl_outcomes (resolve_candidate_tasks order (\<lambda>i. outcome (build_candidate_tasks sv deps ix ! i)) (length (build_candidate_tasks sv deps ix)))
      = map (\<lambda>t. Some (outcome t)) (build_candidate_tasks sv deps ix)"
proof (intro conjI)
  let ?f = "\<lambda>t. (ct_dep t, ct_version t, ct_current t)"
  let ?w = "\<lambda>d. mset ((di_dep d, dep_version (di_dep d), True) # map (\<lambda>v. (di_dep d, v, False)) (di_newer d))"
  have "mset (map ?f (build_candidate_tasks sv deps ix))
      = sum_list (map (\<lambda>d. mset (map ?f (first_tasks sv ix d @ later_tasks sv ix d))) deps)"
    unfolding build_candidate_tasks_split by (induction deps) (simp_all add: ac_simps)
  also have "\<dots> = sum_list (map (\<lambda>d. if di_warning d \<noteq> '''' then {#} else ?w d) deps)"
    using task_versions [OF assms(1)] assms(2) by (intro arg_cong [where f = sum_list] map_cong) blast+
  also have "\<dots> = sum_list (map ?w (filter (\<lambda>d. di_warning d = '''') deps))"
    by (induction deps) auto
  finally show "mset (map ?f (build_candidate_tasks sv deps ix)) = sum_list (map ?w (filter (\<lambda>d. di_warning d = '''') deps))" .
  show "\<exists>first later. build_candidate_tasks sv deps ix = first @ later
        \<and> (\<forall>t \<in> set first. ct_key t \<or> ct_current t) \<and> (\<forall>t \<in> set later. \<not> ct_key t \<and> \<not> ct_current t)"
    by (intro exI conjI, rule build_candidate_tasks_split)
      (auto simp: first_tasks_def later_tasks_def current_task_def split: if_splits)
  show "pl_outcomes (resolve_candidate_tasks order (\<lambda>i. outcome (build_candidate_tasks sv deps ix ! i)) (length (build_candidate_tasks sv deps ix)))
      = map (\<lambda>t. Some (outcome t)) (build_candidate_tasks sv deps ix)"
    by (rule nth_equalityI) (simp_all add: resolve_any_order(1) [OF assms(3,4)])
qed

text \<open>C28. The ranking of a dependency proposes a version exactly when it gives no warning and a candidate without a
  blocking signal has a smaller vector than the current version; what it proposes is such a candidate, resolved, of the
  smallest vector. A candidate that did not resolve always carries a blocking signal, and carries it twice.
  Its candidates are the newer versions of all dependencies of that name, each as often as it is newer. So when no
  two dependencies share a name, they are its own newer versions, once each, ascending, and there is a warning exactly
  when its current version did not resolve.\<close>

theorem ranking_proposes_best:
  assumes "semver_laws sv" and "\<forall>d \<in> set deps. good_info sv d"
    and "map co_task outs = build_candidate_tasks sv deps ix0" and "d \<in> set deps" "di_warning d = ''''"
    and "rank_one sv fmt t pol ix outs d = (ws, dr)"
  shows "ranked_together deps d ws dr \<and> (distinct (map (\<lambda>d. dep_name (di_dep d)) deps) \<longrightarrow> ranked_well d outs ws dr)"
  using rank_one_together [OF assms(1-3,5,6)] rank_one_well [OF assms(1,2) _ assms(3-6)] by blast

text \<open>A probe pins the package to the version it probes and each peer the project declares to the
  project's own version. A package that lists itself as its peer is the exception: the peer wins, and
  the project's version is resolved in place of the candidate.\<close>

theorem probe_manifest_pins:
  "gm_get (pd_dependencies (build_probe_manifest name v peers versions)) k
    = (if gm_has peers k \<and> gm_has versions k then gm_get versions k else if k = name then Some v else None)
   \<and> pd_dev (build_probe_manifest name v peers versions) = [] \<and> pd_optional (build_probe_manifest name v peers versions) = []"
proof -
  have "gm_get (foldl (pin_peer versions) deps ps) k
      = (if gm_has ps k \<and> gm_has versions k then gm_get versions k else gm_get deps k)" for deps ps
    by (induction ps arbitrary: deps) (auto simp: pin_peer_def gm_has_def gm_get_def gm_put_def update_conv' split: option.splits)
  then show ?thesis by (simp add: build_probe_manifest_def gm_get_def)
qed

text \<open>The merged report reads back as the findings of its parts, in order.\<close>

lemma merge_reads_back:
  assumes "read_trivy (Inr a) = Inr fs" "read_trivy (Inr b) = Inr gs"
  shows "\<exists>merged. merge_trivy_reports [(p, A_Report a), (q, A_Report b)] = Inr merged \<and> read_trivy (Inr merged) = Inr (fs @ gs)"
  using assms by (auto simp: merge_trivy_reports_def read_trivy_def split: if_splits)

subsection \<open>Samples\<close>

definition sample_meta :: "string \<Rightarrow> version_meta" where
  "sample_meta v = empty_meta\<lparr>vm_version := v\<rparr>"

definition sample_packument :: packument where
  "sample_packument = \<lparr>pm_name = ''ms'', pm_versions = [(''2.0.0'', sample_meta ''2.0.0''), (''2.1.0'', sample_meta ''2.1.0''),
     (''1.9.0'', sample_meta ''1.9.0'')], pm_time = [(''2.0.0'', Some 100), (''2.1.0'', Some 200)]\<rparr>"

definition sample_dep :: dependency where
  "sample_dep = \<lparr>dep_name = ''ms'', dep_version = ''2.0.0'', dep_kind = Prod\<rparr>"

definition sample_info :: dep_info where
  "sample_info = \<lparr>di_dep = sample_dep, di_packument = sample_packument, di_newer = [''2.1.0''], di_warning = ''''\<rparr>"

definition sample_index :: index where
  "sample_index = new_index [\<lparr>fd_id = ''CVE-1'', fd_package = ''ms'', fd_version = ''2.0.0'', fd_severity = 0, fd_fixed = ''2.1.0'', fd_title = ''''\<rparr>]"

definition sample_pkg :: "string \<Rightarrow> lock_package" where
  "sample_pkg v = \<lparr>lp_name = ''ms'', lp_version = v, lp_integrity = ''sha512-x'', lp_os = [], lp_cpu = [], lp_libc = [], lp_engines = []\<rparr>"

definition sample_outcomes :: "candidate_outcome list" where
  "sample_outcomes = map (\<lambda>t. \<lparr>co_task = t, co_pkgs = [sample_pkg (ct_version t)], co_lock = '''', co_output = '''', co_err = None\<rparr>)
     [current_task sample_dep, \<lparr>ct_dep = sample_dep, ct_version = ''2.1.0'', ct_key = True, ct_current = False\<rparr>]"

lemma sample_good: "good_info semver_spec sample_info"
proof -
  have "gm_ok (pm_versions sample_packument)" by code_simp
  moreover have "newer_stable semver_spec ''2.0.0'' (map fst (pm_versions sample_packument)) = Inr [''2.1.0'']" by code_simp
  ultimately show ?thesis by (simp add: good_info_def sample_info_def sample_dep_def)
qed

lemma sample_tasks: "build_candidate_tasks semver_spec [sample_info] sample_index = map co_task sample_outcomes"
  by code_simp

theorem tasks_complete_key_first_witness:
  "mset (map (\<lambda>t. (ct_dep t, ct_version t, ct_current t)) (build_candidate_tasks semver_spec [sample_info] sample_index))
     = {#(sample_dep, ''2.0.0'', True), (sample_dep, ''2.1.0'', False)#}"
proof -
  have l: "length (build_candidate_tasks semver_spec [sample_info] sample_index) = 2"
    by (simp add: sample_tasks sample_outcomes_def)
  have o: "distinct [1::nat, 0]" "set [1::nat, 0] = {..<length (build_candidate_tasks semver_spec [sample_info] sample_index)}"
    by (auto simp: l)
  have "\<forall>d \<in> set [sample_info]. good_info semver_spec d" by (simp add: sample_good)
  from conjunct1 [OF tasks_complete_key_first [OF spec.semver_laws_axioms this o]]
  show ?thesis by (simp add: sample_info_def sample_dep_def)
qed

theorem ranking_proposes_best_witness:
  "\<exists>ws dr. rank_one semver_spec (\<lambda>t. ''t'') (se_target default_settings) \<lparr>po_now = 1000, po_min_age = 10, po_target_node = ''22.17.1''\<rparr>
      sample_index sample_outcomes sample_info = (ws, dr) \<and> map da_version (dr_candidates dr) = [''2.1.0'']"
proof -
  obtain ws dr where r: "rank_one semver_spec (\<lambda>t. ''t'') (se_target default_settings) \<lparr>po_now = 1000, po_min_age = 10, po_target_node = ''22.17.1''\<rparr>
      sample_index sample_outcomes sample_info = (ws, dr)" by fastforce
  have "\<forall>d \<in> set [sample_info]. good_info semver_spec d" by (simp add: sample_good)
  from ranking_proposes_best [OF spec.semver_laws_axioms this sample_tasks [symmetric] _ _ r]
  have "ranked_well sample_info sample_outcomes ws dr" by (simp add: sample_info_def)
  then have "map da_version (dr_candidates dr) = di_newer sample_info" by (simp add: ranked_well_def)
  then show ?thesis using r by (auto simp: sample_info_def)
qed

text \<open>A name in two sections: the dependency that is at 2.1.0 is proposed the older 2.0.9 of its namesake at 2.0.0.\<close>

definition twice_packument :: packument where
  "twice_packument = \<lparr>pm_name = ''ms'', pm_versions = [(''2.0.0'', sample_meta ''2.0.0''), (''2.0.9'', sample_meta ''2.0.9''),
     (''2.1.0'', sample_meta ''2.1.0'')], pm_time = [(''2.0.9'', Some 100), (''2.1.0'', Some 200)]\<rparr>"

definition at_version :: "string \<Rightarrow> dependency_kind \<Rightarrow> string list \<Rightarrow> dep_info" where
  "at_version v k newer = \<lparr>di_dep = \<lparr>dep_name = ''ms'', dep_version = v, dep_kind = k\<rparr>, di_packument = twice_packument, di_newer = newer, di_warning = []\<rparr>"

definition twice_index :: index where
  "twice_index = new_index [\<lparr>fd_id = ''CVE-1'', fd_package = ''ms'', fd_version = ''2.1.0'', fd_severity = 0, fd_fixed = [], fd_title = []\<rparr>]"

lemma repeated_name_downgrades:
  "newer_stable semver_spec ''2.1.0'' (map fst (pm_versions twice_packument)) = Inr []"
  "newer_stable semver_spec ''2.0.0'' (map fst (pm_versions twice_packument)) = Inr [''2.0.9'', ''2.1.0'']"
  "(let deps = [at_version ''2.0.0'' Prod [''2.0.9'', ''2.1.0''], at_version ''2.1.0'' Dev []];
        outs = map (\<lambda>t. \<lparr>co_task = t, co_pkgs = [sample_pkg (ct_version t)], co_lock = [], co_output = [], co_err = None\<rparr>)
          (build_candidate_tasks semver_spec deps twice_index)
    in dr_best (snd (rank_one semver_spec (\<lambda>t. ''t'') (se_target default_settings) \<lparr>po_now = 1000, po_min_age = 0, po_target_node = ''22.17.1''\<rparr>
      twice_index outs (at_version ''2.1.0'' Dev [])))) = ''2.0.9''"
  by code_simp+

end
