(* ===== verification/Jobs_Analysis.thy ===== *)
theory Jobs_Analysis
  imports Jobs_Candidates Store_Folders
begin

text \<open>
  \<^verbatim>\<open>internal/jobs/analysis{,_steps,_candidates,_rank}.go\<close>: the nine steps of an analysis, from package.json to
  ranking.json, and \<^verbatim>\<open>Run\<close>, which commits the folder whatever happened. pnpm, Trivy, the registry, the disk,
  the clock and the context answer through a record; a body of a step takes and returns the state of the run.
  Durations are left out of the records. What the run wrote is the list of its successful writes, in order.
\<close>

subsection \<open>State and surroundings\<close>

datatype job_event = Step_Event step_row | Log_Event string
  | Progress_Event string int int "int option"
  | Candidate_Event string string vector "string list"

record analysis_result =
  an_before :: vector
  an_after :: "vector option"
  an_dependencies :: "dependency_result list"
  an_warnings :: "string list"

datatype job_doc = Status_Doc status_file | Raw_Doc string | Result_Doc analysis_result | Report_Doc trivy_report

record analysis_run =
  ru_result :: analysis_result
  ru_steps :: "step_row list"
  ru_events :: "job_event list"
  ru_log :: "string list"
  ru_output :: string
  ru_trivy :: string
  ru_trivy_db :: int
  ru_writes :: "(string \<times> job_doc) list"

record analysis_env =
  ae_cancelled :: "string \<Rightarrow> bool"
  ae_write :: "string \<Rightarrow> string option"
  ae_package :: "string + string \<times> (json_error + raw_manifest)"
  ae_pnpm :: "string option"
  ae_tools :: "nat \<Rightarrow> (string \<times> int) option"
  ae_update :: "string option"
  ae_resolve :: "string \<Rightarrow> project_doc \<Rightarrow> resolve_answer"
  ae_probe :: "nat \<Rightarrow> project_doc \<Rightarrow> resolve_answer"
  ae_order :: "nat \<Rightarrow> nat list"
  ae_elapsed :: "nat \<Rightarrow> int"
  ae_scan :: "string \<Rightarrow> scan_answer"
  ae_reread :: "string \<Rightarrow> string option"
  ae_registry :: "string \<Rightarrow> string + packument"
  ae_now :: int
  ae_rfc3339 :: "int \<Rightarrow> string"
  ae_date :: "int \<Rightarrow> string"
  ae_quote :: "string \<Rightarrow> string"
  ae_open_log :: "string option"
  ae_first :: "string option"
  ae_rename :: "string option"

record analysis_job =
  aj_target :: platform_target
  aj_min_age :: int

subsection \<open>Steps\<close>

definition and_then :: "('e + 'a) \<times> 's \<Rightarrow> ('a \<Rightarrow> 's \<Rightarrow> ('e + 'b) \<times> 's) \<Rightarrow> ('e + 'b) \<times> 's" where
  "and_then p f = (case p of (Inl e, s) \<Rightarrow> (Inl e, s) | (Inr x, s) \<Rightarrow> f x s)"

definition wrapped :: "string \<Rightarrow> (string + 'a) \<times> 's \<Rightarrow> (string + 'a) \<times> 's" where
  "wrapped what p = (case p of (Inl e, s) \<Rightarrow> (Inl (what @ e), s) | (Inr x, s) \<Rightarrow> (Inr x, s))"

definition run_step :: "analysis_env \<Rightarrow> string \<Rightarrow> (analysis_run \<Rightarrow> (string + 'a) \<times> analysis_run) \<Rightarrow> analysis_run
    \<Rightarrow> (string + 'a) \<times> analysis_run" where
  "run_step env name fn r = (case fn r of (res, r') \<Rightarrow>
     let state = (if ae_cancelled env name then state_cancelled else case res of Inl e \<Rightarrow> state_failed | Inr _ \<Rightarrow> state_done);
         message = (if state = state_failed then case res of Inl e \<Rightarrow> e | Inr _ \<Rightarrow> '''' else '''');
         row = \<lparr>sr_name = name, sr_state = state, sr_error = message\<rparr>
     in (res, r'\<lparr>ru_steps := ru_steps r' @ [row], ru_events := ru_events r' @ [Step_Event row]\<rparr>))"

definition log_line :: "string \<Rightarrow> analysis_run \<Rightarrow> analysis_run" where
  "log_line l r = r\<lparr>ru_log := ru_log r @ [l], ru_events := ru_events r @ [Log_Event l]\<rparr>"

definition progress :: "string \<Rightarrow> nat \<Rightarrow> nat \<Rightarrow> analysis_run \<Rightarrow> analysis_run" where
  "progress step k n r = r\<lparr>ru_events := ru_events r @ [Progress_Event step (int k) (int n) None]\<rparr>"

text \<open>\<^verbatim>\<open>Milliseconds\<close> of what is left, when something is done.\<close>

definition progress_with_remaining :: "string \<Rightarrow> nat \<Rightarrow> nat \<Rightarrow> int \<Rightarrow> analysis_run \<Rightarrow> analysis_run" where
  "progress_with_remaining step k n elapsed r = r\<lparr>ru_events := ru_events r @ [Progress_Event step (int k) (int n)
     (if 0 < k then Some (go_div (remaining elapsed (int k) (int n)) 1000000) else None)]\<rparr>"

definition warn :: "string \<Rightarrow> analysis_run \<Rightarrow> analysis_run" where
  "warn w r = r\<lparr>ru_result := (ru_result r)\<lparr>an_warnings := an_warnings (ru_result r) @ [w]\<rparr>\<rparr>"

definition write_doc :: "analysis_env \<Rightarrow> string \<Rightarrow> job_doc \<Rightarrow> analysis_run \<Rightarrow> (string + unit) \<times> analysis_run" where
  "write_doc env path doc r = (case ae_write env path of Some e \<Rightarrow> (Inl e, r)
     | None \<Rightarrow> (Inr (), r\<lparr>ru_writes := ru_writes r @ [(path, doc)]\<rparr>))"

definition make_dir :: "analysis_env \<Rightarrow> string \<Rightarrow> analysis_run \<Rightarrow> (string + unit) \<times> analysis_run" where
  "make_dir env path r = (case ae_write env path of Some e \<Rightarrow> (Inl e, r) | None \<Rightarrow> (Inr (), r))"

subsection \<open>Validate\<close>

definition format_problem :: "(string \<Rightarrow> string) \<Rightarrow> problem \<Rightarrow> string" where
  "format_problem quote p = (if pr_name p = '''' then pr_field p @ '': '' @ pr_reason p
     else pr_field p @ ''.'' @ pr_name p @ '' = '' @ quote (pr_value p) @ '': '' @ pr_reason p)"

definition validate_body :: "analysis_env \<Rightarrow> analysis_run \<Rightarrow> (string + manifest) \<times> analysis_run" where
  "validate_body env r = (case ae_package env of
     Inl e \<Rightarrow> (Inl (''read package.json: '' @ e), r)
   | Inr (raw, decoded) \<Rightarrow> (case parse_manifest decoded of
       Inl e \<Rightarrow> (Inl (''parse package.json: '' @ e), r)
     | Inr m \<Rightarrow>
         if validate m \<noteq> []
         then (Inl (show_nat (length (validate m)) @ '' problem(s) in package.json, see the log''),
           fold (\<lambda>p. log_line (format_problem (ae_quote env) p)) (validate m) r)
         else and_then (wrapped ''copy package.json: '' (write_doc env ''package.json'' (Raw_Doc raw) r)) (\<lambda>_ r. (Inr m, r))))"

subsection \<open>Tools\<close>

definition db_date_label :: "analysis_env \<Rightarrow> int \<Rightarrow> string" where
  "db_date_label env t = (if t = 0 then ''an unknown date'' else ae_date env t)"

definition note_tools :: "(string \<times> int) option \<Rightarrow> analysis_run \<Rightarrow> analysis_run" where
  "note_tools state r = (case state of None \<Rightarrow> r | Some (v, t) \<Rightarrow> r\<lparr>ru_trivy := v, ru_trivy_db := t\<rparr>)"

definition tools_body :: "analysis_env \<Rightarrow> analysis_job \<Rightarrow> analysis_run \<Rightarrow> (string + unit) \<times> analysis_run" where
  "tools_body env j r = (case ae_pnpm env of
     Some e \<Rightarrow> (Inl (''install pnpm '' @ pt_pnpm (aj_target j) @ '': '' @ e), r)
   | None \<Rightarrow> let r = note_tools (ae_tools env 1) r in (case ae_update env of
       Some e \<Rightarrow> (Inr (), log_line (''trivy database update failed: '' @ e)
         (warn (''could not refresh the vulnerability database: '' @ e @ ''; using the database from ''
            @ db_date_label env (ru_trivy_db r)) r))
     | None \<Rightarrow> (Inr (), note_tools (ae_tools env 2) r)))"

subsection \<open>The project as given\<close>

definition resolve_project_body :: "analysis_env \<Rightarrow> analysis_job \<Rightarrow> manifest \<Rightarrow> analysis_run
    \<Rightarrow> (string + lock_package list) \<times> analysis_run" where
  "resolve_project_body env j m r = (let a = ae_resolve env ''project'' (build_full_manifest m []) in
     case ra_lock a of
       Inl e \<Rightarrow> (Inl (''resolve project: '' @ e), log_line (''pnpm: '' @ ra_output a) r)
     | Inr (raw, decoded) \<Rightarrow>
         and_then (make_dir env ''project'' (r\<lparr>ru_output := ra_output a\<rparr>)) (\<lambda>_ r.
         and_then (write_doc env ''project/pnpm-lock.yaml'' (Raw_Doc raw) r) (\<lambda>_ r.
         case parse_lockfile decoded of
           Inl e \<Rightarrow> (Inl (''parse project lockfile: '' @ e), r)
         | Inr pkgs \<Rightarrow> (Inr (filter_platform (platform_of (aj_target j)) pkgs), r))))"

definition scan_project_body :: "analysis_env \<Rightarrow> lock_package list \<Rightarrow> analysis_run \<Rightarrow> (string + index) \<times> analysis_run" where
  "scan_project_body env pkgs r = (case scan_packages (ae_scan env ''project.trivy.json'') pkgs of
     Inl e \<Rightarrow> (Inl (''scan project: '' @ e), r)
   | Inr fs \<Rightarrow> let ix = new_index fs in
       (Inr ix, r\<lparr>ru_result := (ru_result r)\<lparr>an_before := set_vector (finding_set ix (keys_of pkgs))\<rparr>\<rparr>))"

subsection \<open>Candidates\<close>

fun list_each :: "'v semver \<Rightarrow> analysis_env \<Rightarrow> nat \<Rightarrow> nat \<Rightarrow> dependency list \<Rightarrow> analysis_run \<Rightarrow> dep_info list \<times> analysis_run" where
  "list_each sv env i n [] r = ([], r)"
| "list_each sv env i n (d # ds) r = (case list_one_candidate sv (ae_registry env (dep_name d)) d of (lines, info) \<Rightarrow>
     (case list_each sv env (i + 1) n ds (progress ''list-candidates'' (i + 1) n (fold log_line lines r)) of
        (infos, r) \<Rightarrow> (info # infos, r)))"

definition list_body :: "'v semver \<Rightarrow> analysis_env \<Rightarrow> manifest \<Rightarrow> analysis_run \<Rightarrow> (string + dep_info list) \<times> analysis_run" where
  "list_body sv env m r = (case list_each sv env 0 (length (mf_dependencies m)) (mf_dependencies m) r of (infos, r) \<Rightarrow> (Inr infos, r))"

definition candidate_dir :: "candidate_task \<Rightarrow> string" where
  "candidate_dir t = ''candidates/'' @ dep_name (ct_dep t) @ ''@'' @ ct_version t"

fun write_outcomes :: "analysis_env \<Rightarrow> candidate_outcome list \<Rightarrow> analysis_run \<Rightarrow> (string + unit) \<times> analysis_run" where
  "write_outcomes env [] r = (Inr (), r)"
| "write_outcomes env (out # outs) r = (case co_err out of
     Some e \<Rightarrow> write_outcomes env outs
       (log_line (dep_name (ct_dep (co_task out)) @ ''@'' @ ct_version (co_task out) @ '' does not resolve: '' @ e) r)
   | None \<Rightarrow> and_then (make_dir env (candidate_dir (co_task out)) r) (\<lambda>_ r.
       and_then (write_doc env (candidate_dir (co_task out) @ ''/pnpm-lock.yaml'') (Raw_Doc (co_lock out)) r) (\<lambda>_ r.
       write_outcomes env outs r)))"

definition packuments_of :: "dep_info list \<Rightarrow> (string, packument) gomap" where
  "packuments_of deps = foldl (\<lambda>m d. gm_put (dep_name (di_dep d)) (di_packument d) m) [] deps"

definition resolve_candidates_body :: "'v semver \<Rightarrow> analysis_env \<Rightarrow> analysis_job \<Rightarrow> dep_info list \<Rightarrow> manifest \<Rightarrow> index
    \<Rightarrow> analysis_run \<Rightarrow> (string + candidate_outcome list) \<times> analysis_run" where
  "resolve_candidates_body sv env j deps m ix r =
     (let tasks = build_candidate_tasks sv deps ix;
          resolve = (\<lambda>i. resolve_task (platform_of (aj_target j)) (ae_probe env i) (packuments_of deps) (project_versions_of m) (tasks ! i));
          p = resolve_candidate_tasks (ae_order env (length tasks)) resolve (length tasks);
          outs = map the (pl_outcomes p);
          r = fold (\<lambda>k. progress_with_remaining ''resolve-candidates'' k (length tasks) (ae_elapsed env k)) (pl_progress p) r
      in and_then (write_outcomes env outs r) (\<lambda>_ r. (Inr outs, r)))"

definition split_pkgs :: "candidate_outcome list \<Rightarrow> lock_package list \<times> lock_package list" where
  "split_pkgs outs = foldl (\<lambda>pr out. if co_err out \<noteq> None then pr
     else if ct_key (co_task out) \<or> ct_current (co_task out) then (fst pr @ co_pkgs out, snd pr)
     else (fst pr, snd pr @ co_pkgs out)) ([], []) outs"

text \<open>The report file of a scan, read again for the merge.\<close>

definition report_at :: "analysis_env \<Rightarrow> string \<Rightarrow> lock_package list \<Rightarrow> string \<times> report_file" where
  "report_at env path pkgs = (path, case ae_reread env path of Some e \<Rightarrow> Unread e
     | None \<Rightarrow> (case sa_report (ae_scan env path) (components_of pkgs) of Inl e \<Rightarrow> No_Report e | Inr rep \<Rightarrow> A_Report rep))"

definition scan_candidates_body :: "analysis_env \<Rightarrow> candidate_outcome list \<Rightarrow> analysis_run \<Rightarrow> (string + index) \<times> analysis_run" where
  "scan_candidates_body env outs r =
     (let (key, rest) = split_pkgs outs; kp = ''candidates.trivy.key.json''; rp = ''candidates.trivy.rest.json'' in
      case scan_packages (ae_scan env kp) key of
        Inl e \<Rightarrow> (Inl (''scan key candidates: '' @ e), r)
      | Inr fs \<Rightarrow> let r = progress ''scan-candidates'' 1 2 r in (case scan_packages (ae_scan env rp) rest of
          Inl e \<Rightarrow> (Inl (''scan remaining candidates: '' @ e), r)
        | Inr gs \<Rightarrow> let r = progress ''scan-candidates'' 2 2 r in
            (case merge_trivy_reports [report_at env kp key, report_at env rp rest] of
               Inl e \<Rightarrow> (Inl e, r)
             | Inr merged \<Rightarrow> and_then (write_doc env ''candidates.trivy.json'' (Report_Doc merged) r) (\<lambda>_ r.
                 (Inr (new_index (fs @ gs)), r)))))"

subsection \<open>Ranking\<close>

definition candidate_event :: "string \<Rightarrow> candidate_result \<Rightarrow> job_event" where
  "candidate_event name c = Candidate_Event name (da_version c) (da_vector c) (map si_name (da_signals c))"

definition add_ranked :: "string list \<times> dependency_result \<Rightarrow> analysis_run \<Rightarrow> analysis_run" where
  "add_ranked res r = (case res of (ws, dr) \<Rightarrow>
     r\<lparr>ru_result := (ru_result r)\<lparr>an_warnings := an_warnings (ru_result r) @ ws,
          an_dependencies := an_dependencies (ru_result r) @ [dr]\<rparr>,
       ru_events := ru_events r @ map (candidate_event (dr_name dr)) (dr_candidates dr)\<rparr>)"

definition analysis_policy :: "analysis_env \<Rightarrow> analysis_job \<Rightarrow> policy" where
  "analysis_policy env j = \<lparr>po_now = ae_now env, po_min_age = int64 (aj_min_age j * 24 * 3600000000000),
     po_target_node = pt_node (aj_target j)\<rparr>"

definition rank_body :: "'v semver \<Rightarrow> analysis_env \<Rightarrow> analysis_job \<Rightarrow> dep_info list \<Rightarrow> candidate_outcome list \<Rightarrow> index
    \<Rightarrow> analysis_run \<Rightarrow> (string + unit) \<times> analysis_run" where
  "rank_body sv env j deps outs ix r =
     (let r = fold (\<lambda>d. add_ranked (rank_one sv (ae_rfc3339 env) (aj_target j) (analysis_policy env j) ix outs d)) deps r
      in write_doc env ''candidates.json'' (Result_Doc (ru_result r)) r)"

definition best_overrides :: "dependency_result list \<Rightarrow> (string, string) gomap" where
  "best_overrides drs = foldl (\<lambda>m dr. if dr_best dr \<noteq> '''' then gm_put (dr_name dr) (dr_best dr) m else m) [] drs"

definition check_combined_body :: "analysis_env \<Rightarrow> analysis_job \<Rightarrow> manifest \<Rightarrow> analysis_run \<Rightarrow> (string + unit) \<times> analysis_run" where
  "check_combined_body env j m r =
     (let a = ae_resolve env ''combined'' (build_full_manifest m (best_overrides (an_dependencies (ru_result r)))) in
      case ra_lock a of
        Inl e \<Rightarrow> (Inr (), warn (''the best candidates together do not resolve: '' @ e) (log_line (''pnpm: '' @ ra_output a) r))
      | Inr (raw, decoded) \<Rightarrow>
          let w = peer_warning (ru_output r) (ra_output a);
              r = (if w \<noteq> '''' then warn w (log_line (''pnpm: '' @ ra_output a) r) else r) in
          and_then (make_dir env ''combined'' r) (\<lambda>_ r.
          and_then (write_doc env ''combined/pnpm-lock.yaml'' (Raw_Doc raw) r) (\<lambda>_ r.
          case parse_lockfile decoded of
            Inl e \<Rightarrow> (Inl (''parse combined lockfile: '' @ e), r)
          | Inr all \<Rightarrow> let pkgs = filter_platform (platform_of (aj_target j)) all in
              (case scan_packages (ae_scan env ''combined.trivy.json'') pkgs of
                 Inl e \<Rightarrow> (Inl (''scan combined: '' @ e), r)
               | Inr fs \<Rightarrow> (Inr (), r\<lparr>ru_result := (ru_result r)
                   \<lparr>an_after := Some (set_vector (finding_set (new_index fs) (keys_of pkgs)))\<rparr>\<rparr>)))))"

subsection \<open>Run\<close>

definition ignore_result :: "('e + 'a) \<times> 's \<Rightarrow> 's" where
  "ignore_result p = snd p"

definition analysis_steps :: "'v semver \<Rightarrow> analysis_env \<Rightarrow> analysis_job \<Rightarrow> analysis_run \<Rightarrow> (string + unit) \<times> analysis_run" where
  "analysis_steps sv env j r =
     and_then (run_step env ''validate'' (validate_body env) r) (\<lambda>m r.
     and_then (run_step env ''prepare-tools'' (tools_body env j) r) (\<lambda>_ r.
     and_then (run_step env ''resolve-project'' (resolve_project_body env j m) r) (\<lambda>pkgs r.
     and_then (run_step env ''scan-project'' (scan_project_body env pkgs) r) (\<lambda>before r.
     and_then (run_step env ''list-candidates'' (list_body sv env m) r) (\<lambda>deps r.
     and_then (run_step env ''resolve-candidates'' (resolve_candidates_body sv env j deps m before) r) (\<lambda>outs r.
     and_then (run_step env ''scan-candidates'' (scan_candidates_body env outs) r) (\<lambda>ix r.
     and_then (run_step env ''rank'' (rank_body sv env j deps outs ix) r) (\<lambda>_ r.
     let r = ignore_result (run_step env ''check-combined'' (check_combined_body env j m) r) in
     wrapped ''jobs: write ranking.json: '' (write_doc env ''ranking.json'' (Result_Doc (ru_result r)) r)))))))))"

definition new_run :: analysis_run where
  "new_run = \<lparr>ru_result = \<lparr>an_before = zero_vector, an_after = None, an_dependencies = [], an_warnings = []\<rparr>, ru_steps = [],
     ru_events = [], ru_log = [], ru_output = '''', ru_trivy = '''', ru_trivy_db = 0, ru_writes = []\<rparr>"

definition running_status :: status_file where
  "running_status = \<lparr>sx_state = Some state_running, sx_analysis = '''', sx_trivy = '''', sx_trivy_db = 0, sx_pnpm = '''', sx_steps = []\<rparr>"

definition end_status :: "analysis_env \<Rightarrow> analysis_job \<Rightarrow> string + unit \<Rightarrow> analysis_run \<Rightarrow> status_file" where
  "end_status env j res r = \<lparr>sx_state = Some (if ae_cancelled env ''end'' then state_cancelled
       else case res of Inl e \<Rightarrow> state_failed | Inr _ \<Rightarrow> state_done),
     sx_analysis = '''', sx_trivy = ru_trivy r, sx_trivy_db = ru_trivy_db r, sx_pnpm = pt_pnpm (aj_target j), sx_steps = ru_steps r\<rparr>"

text \<open>The error Run returns, what it left of the run, and whether the folder got its name.\<close>

record analysis_end =
  nd_err :: "string option"
  nd_run :: analysis_run
  nd_committed :: bool

definition join_errors :: "string + unit \<Rightarrow> string option \<Rightarrow> string option" where
  "join_errors res ce = (case (res, ce) of
     (Inl e, Some c) \<Rightarrow> Some (e @ [CHR 0x0A] @ c)
   | (Inl e, None) \<Rightarrow> Some e
   | (Inr _, c) \<Rightarrow> c)"

definition commit_analysis :: "analysis_env \<Rightarrow> status_file \<Rightarrow> analysis_run \<Rightarrow> string option \<times> analysis_run \<times> bool" where
  "commit_analysis env s r = (case write_doc env ''status.json'' (Status_Doc s) r of
     (Inl e, r) \<Rightarrow> (Some (''jobs: write status.json: '' @ e), r, False)
   | (Inr _, r) \<Rightarrow> (case ae_rename env of
       Some e \<Rightarrow> (Some (''jobs: commit analysis directory: '' @ e), r, False)
     | None \<Rightarrow> (None, r, True)))"

definition run_analysis :: "'v semver \<Rightarrow> analysis_env \<Rightarrow> analysis_job \<Rightarrow> analysis_end" where
  "run_analysis sv env j = (case ae_open_log env of
     Some e \<Rightarrow> \<lparr>nd_err = Some (''jobs: open log.txt: '' @ e), nd_run = new_run, nd_committed = False\<rparr>
   | None \<Rightarrow>
       (case ae_first env of
         Some e \<Rightarrow> \<lparr>nd_err = Some (''jobs: write initial status.json: '' @ e), nd_run = new_run, nd_committed = False\<rparr>
       | None \<Rightarrow> (case analysis_steps sv env j (new_run\<lparr>ru_writes := [(''status.json'', Status_Doc running_status)]\<rparr>) of (res, r) \<Rightarrow>
         case commit_analysis env (end_status env j res r) r of (ce, r, ok) \<Rightarrow>
           \<lparr>nd_err = join_errors res ce, nd_run = r, nd_committed = ok\<rparr>)))"

subsection \<open>What a body leaves alone\<close>

definition job_paths :: "string list" where
  "job_paths = [''status.json'', ''ranking.json'']"

text \<open>Everything a body does between two steps is one of these operations, so whatever they keep every body
  keeps; only the ranking adds results.\<close>

locale step_invariant =
  fixes P :: "analysis_run \<Rightarrow> bool"
  assumes keep_log: "P s \<Longrightarrow> P (log_line l s)"
    and keep_progress: "P s \<Longrightarrow> P (progress st k n s)"
    and keep_remaining: "P s \<Longrightarrow> P (progress_with_remaining st k n e s)"
    and keep_warn: "P s \<Longrightarrow> P (warn w s)"
    and keep_tools: "P s \<Longrightarrow> P (note_tools ts s)"
    and keep_output: "P s \<Longrightarrow> P (s\<lparr>ru_output := out\<rparr>)"
    and keep_before: "P s \<Longrightarrow> P (s\<lparr>ru_result := (ru_result s)\<lparr>an_before := v\<rparr>\<rparr>)"
    and keep_after: "P s \<Longrightarrow> P (s\<lparr>ru_result := (ru_result s)\<lparr>an_after := va\<rparr>\<rparr>)"
    and keep_write: "P s \<Longrightarrow> path \<notin> set job_paths \<Longrightarrow> P (snd (write_doc env path doc s))"
begin

named_theorems keep \<open>what keeps the invariant, by the shape of a body\<close>

lemmas [keep] = keep_log keep_progress keep_remaining keep_warn keep_tools keep_output keep_before keep_after keep_write

lemma keep_fold [keep]: "P s \<Longrightarrow> (\<And>x s. P s \<Longrightarrow> P (f x s)) \<Longrightarrow> P (fold f xs s)"
  by (induction xs arbitrary: s) auto

lemma keep_make_dir [keep]: "P s \<Longrightarrow> P (snd (make_dir env path s))"
  by (auto simp: make_dir_def split: option.splits)

lemma keep_and_then [keep]: "P (snd p) \<Longrightarrow> (\<And>x s. P s \<Longrightarrow> P (snd (f x s))) \<Longrightarrow> P (snd (and_then p f))"
  by (auto simp: and_then_def split: prod.splits sum.splits)

lemma keep_cases [keep]:
  "P s \<Longrightarrow> P (snd (x, s))"
  "(\<And>e. P (snd (f e))) \<Longrightarrow> (\<And>x. P (snd (g x))) \<Longrightarrow> P (snd (case p of Inl e \<Rightarrow> f e | Inr x \<Rightarrow> g x))"
  "P (snd a) \<Longrightarrow> (\<And>x. P (snd (b x))) \<Longrightarrow> P (snd (case q of None \<Rightarrow> a | Some x \<Rightarrow> b x))"
  "(\<And>x y. P (snd (h x y))) \<Longrightarrow> P (snd (case pr of (x, y) \<Rightarrow> h x y))"
  "P (snd a) \<Longrightarrow> P (snd a') \<Longrightarrow> P (snd (if c then a else a'))"
  "P s \<Longrightarrow> P s' \<Longrightarrow> P (if c then s else s')"
  by (simp_all split: sum.splits option.splits prod.splits)

lemma keep_let: "(\<And>x. P (snd (f x))) \<Longrightarrow> P (snd (Let v f))"
  by (simp add: Let_def)

lemma keep_let_run: "P v \<Longrightarrow> (\<And>s. P s \<Longrightarrow> P (snd (f s))) \<Longrightarrow> P (snd (Let v f))"
  by (simp add: Let_def)

lemma keep_wrapped [keep]: "P (snd p) \<Longrightarrow> P (snd (wrapped what p))"
  by (auto simp: wrapped_def split: prod.splits sum.splits)

lemma candidate_dir_path [simp]: "candidate_dir t @ s \<notin> set job_paths"
  by (simp add: candidate_dir_def job_paths_def)

lemma keep_validate: "P s \<Longrightarrow> P (snd (validate_body env s))"
  unfolding validate_body_def Let_def by (intro keep) (assumption | simp add: job_paths_def)+

lemma keep_prepare: "P s \<Longrightarrow> P (snd (tools_body env j s))"
  unfolding tools_body_def Let_def by (intro keep) (assumption | simp add: job_paths_def)+

lemma keep_resolve_project: "P s \<Longrightarrow> P (snd (resolve_project_body env j m s))"
  unfolding resolve_project_body_def Let_def by (intro keep) (assumption | simp add: job_paths_def)+

lemma keep_scan_project: "P s \<Longrightarrow> P (snd (scan_project_body env pkgs s))"
  unfolding scan_project_body_def Let_def by (intro keep) (assumption | simp add: job_paths_def)+

lemma keep_list_each: "P s \<Longrightarrow> P (snd (list_each sv env i n ds s))"
proof (induction ds arbitrary: i s)
  case (Cons d ds)
  obtain lines info where l: "list_one_candidate sv (ae_registry env (dep_name d)) d = (lines, info)" by fastforce
  have "P (progress ''list-candidates'' (i + 1) n (fold log_line lines s))"
    using Cons.prems by (intro keep)
  from Cons.IH [OF this, of "i + 1"] show ?case by (simp add: l case_prod_beta)
qed simp

lemma keep_list: "P s \<Longrightarrow> P (snd (list_body sv env m s))"
  using keep_list_each by (simp add: list_body_def case_prod_beta)

lemma keep_write_outcomes [keep]: "P s \<Longrightarrow> P (snd (write_outcomes env outs s))"
  by (induction outs arbitrary: s) (auto split: option.splits intro!: keep)

lemma keep_resolve_candidates: "P s \<Longrightarrow> P (snd (resolve_candidates_body sv env j deps m ix s))"
  unfolding resolve_candidates_body_def Let_def by (intro keep) simp_all

lemma keep_scan_candidates: "P s \<Longrightarrow> P (snd (scan_candidates_body env outs s))"
  unfolding scan_candidates_body_def by (intro keep_let_run keep_let keep) (assumption | simp add: job_paths_def)+

lemma keep_check_combined: "P s \<Longrightarrow> P (snd (check_combined_body env j m s))"
  unfolding check_combined_body_def by (intro keep_let_run keep_let keep) (assumption | simp add: job_paths_def)+

end

text \<open>The rows of the step events, and the writes no body makes.\<close>

fun step_rows :: "job_event list \<Rightarrow> step_row list" where
  "step_rows [] = []"
| "step_rows (Step_Event row # es) = row # step_rows es"
| "step_rows (e # es) = step_rows es"

lemma step_rows_append [simp]: "step_rows (es @ fs) = step_rows es @ step_rows fs"
  by (induction es rule: step_rows.induct) auto

lemma step_rows_candidates [simp]: "step_rows (map (candidate_event name) cs) = []"
  by (induction cs) (auto simp: candidate_event_def)

definition quiet :: "analysis_run \<Rightarrow> analysis_run \<Rightarrow> bool" where
  "quiet r r' \<longleftrightarrow> ru_steps r' = ru_steps r \<and> step_rows (ru_events r') = step_rows (ru_events r)
     \<and> (\<exists>ws. ru_writes r' = ru_writes r @ ws \<and> fst ` set ws \<inter> set job_paths = {})"

lemma quiet_refl [simp]: "quiet r r"
  by (simp add: quiet_def)

lemmas run_updates = log_line_def progress_def progress_with_remaining_def warn_def note_tools_def write_doc_def

interpretation q: step_invariant "quiet r" for r
  by unfold_locales (auto simp: quiet_def run_updates split: prod.splits option.splits)

lemma quiet_ranked: "quiet r s \<Longrightarrow> quiet r (add_ranked res s)"
  by (auto simp: quiet_def add_ranked_def split: prod.splits)

lemma quiet_rank: "quiet r s \<Longrightarrow> quiet r (snd (rank_body sv env j deps outs ix s))"
  unfolding rank_body_def Let_def
  by (intro q.keep_write q.keep_fold quiet_ranked) (assumption | simp add: job_paths_def)+

lemmas quiet_bodies = q.keep_validate q.keep_prepare q.keep_resolve_project q.keep_scan_project q.keep_list
  q.keep_resolve_candidates q.keep_scan_candidates quiet_rank q.keep_check_combined

text \<open>The results so far, which only the ranking adds to.\<close>

interpretation kept: step_invariant "\<lambda>s. an_dependencies (ru_result s) = drs" for drs
  by unfold_locales (auto simp: run_updates split: prod.splits option.splits)

subsection \<open>The chain of steps\<close>

definition good_row :: "step_row \<Rightarrow> bool" where
  "good_row row \<longleftrightarrow> sr_state row \<in> {state_done, state_failed, state_cancelled} \<and> (sr_error row \<noteq> '''' \<longrightarrow> sr_state row = state_failed)"

text \<open>From \<open>r0\<close>, the steps \<open>ns\<close> were run as far as one failed, each recorded once and told once; \<open>ranking.json\<close>
  was written exactly when all of it returned no error.\<close>

definition chain :: "string list \<Rightarrow> analysis_run \<Rightarrow> (string + unit) \<times> analysis_run \<Rightarrow> bool" where
  "chain ns r0 p \<longleftrightarrow> (\<exists>rows ws. ru_steps (snd p) = ru_steps r0 @ rows
     \<and> step_rows (ru_events (snd p)) = step_rows (ru_events r0) @ rows
     \<and> prefix (map sr_name rows) ns \<and> list_all good_row rows
     \<and> (\<forall>row \<in> set (butlast rows). sr_state row \<noteq> state_failed)
     \<and> (case fst p of Inr _ \<Rightarrow> map sr_name rows = ns
        | Inl e \<Rightarrow> map sr_name rows \<noteq> ns \<longrightarrow> rows \<noteq> [] \<and> (last rows = \<lparr>sr_name = sr_name (last rows), sr_state = state_failed, sr_error = e\<rparr>
            \<or> sr_state (last rows) = state_cancelled))
     \<and> ru_writes (snd p) = ru_writes r0 @ ws \<and> ''status.json'' \<notin> fst ` set ws
     \<and> (''ranking.json'' \<in> fst ` set ws \<longleftrightarrow> fst p = Inr ()))"

lemma states_distinct [simp]: "state_done \<noteq> state_failed" "state_cancelled \<noteq> state_failed" "state_done \<noteq> state_cancelled"
    "state_running \<noteq> state_done" "state_running \<noteq> state_failed" "state_running \<noteq> state_cancelled"
    "state_failed \<noteq> state_done" "state_failed \<noteq> state_cancelled" "state_cancelled \<noteq> state_done"
  by (simp_all add: state_done_def state_failed_def state_cancelled_def state_running_def)

lemma run_step_row:
  assumes "quiet r (snd (fn r))"
  obtains row where "sr_name row = name" "good_row row"
    "ru_steps (snd (run_step env name fn r)) = ru_steps r @ [row]"
    "step_rows (ru_events (snd (run_step env name fn r))) = step_rows (ru_events r) @ [row]"
    "ru_writes (snd (run_step env name fn r)) = ru_writes (snd (fn r))" "fst (run_step env name fn r) = fst (fn r)"
    "\<And>x. fst (fn r) = Inr x \<Longrightarrow> sr_state row \<noteq> state_failed"
    "\<And>e. fst (fn r) = Inl e \<Longrightarrow> row = \<lparr>sr_name = name, sr_state = state_failed, sr_error = e\<rparr> \<or> sr_state row = state_cancelled"
proof -
  obtain res r' where f: "fn r = (res, r')" by fastforce
  define st where "st = (if ae_cancelled env name then state_cancelled else case res of Inl e \<Rightarrow> state_failed | Inr _ \<Rightarrow> state_done)"
  define row where "row = \<lparr>sr_name = name, sr_state = st, sr_error = (if st = state_failed then case res of Inl e \<Rightarrow> e | Inr _ \<Rightarrow> [] else [])\<rparr>"
  have s: "run_step env name fn r = (res, r'\<lparr>ru_steps := ru_steps r' @ [row], ru_events := ru_events r' @ [Step_Event row]\<rparr>)"
    by (simp add: run_step_def f Let_def row_def st_def)
  show thesis
    by (rule that [of row]) (use assms in \<open>auto simp: s f row_def st_def good_row_def quiet_def split: sum.splits if_splits\<close>)
qed

lemma chain_step:
  assumes quiet: "quiet r (snd (fn r))" and rest: "\<And>x s. chain ns s (f x s)" and "ns \<noteq> []"
  shows "chain (n # ns) r (and_then (run_step env n fn r) f)"
proof -
  obtain row where row: "sr_name row = n" "good_row row"
    and steps: "ru_steps (snd (run_step env n fn r)) = ru_steps r @ [row]"
      "step_rows (ru_events (snd (run_step env n fn r))) = step_rows (ru_events r) @ [row]"
    and writes: "ru_writes (snd (run_step env n fn r)) = ru_writes (snd (fn r))"
    and res: "fst (run_step env n fn r) = fst (fn r)"
      "\<And>x. fst (fn r) = Inr x \<Longrightarrow> sr_state row \<noteq> state_failed"
      "\<And>e. fst (fn r) = Inl e \<Longrightarrow> row = \<lparr>sr_name = n, sr_state = state_failed, sr_error = e\<rparr> \<or> sr_state row = state_cancelled"
    using run_step_row [where fn = fn and r = r and name = n and env = env, OF quiet] by blast
  obtain ws where ws: "ru_writes (snd (fn r)) = ru_writes r @ ws" "fst ` set ws \<inter> set job_paths = {}"
    using quiet by (auto simp: quiet_def)
  obtain q s where q: "run_step env n fn r = (q, s)" by fastforce
  show ?thesis
  proof (cases q)
    case (Inl e)
    then have "and_then (run_step env n fn r) f = (Inl e, s)" by (simp add: and_then_def q)
    moreover have "map sr_name [row] = [n]" "last [row] = row" using row by simp_all
    ultimately show ?thesis
      using steps writes res row ws Inl q assms(3) unfolding chain_def
      by (intro exI [of _ "[row]"] exI [of _ ws]) (auto simp: job_paths_def)
  next
    case (Inr x)
    then have a: "and_then (run_step env n fn r) f = f x s" by (simp add: and_then_def q)
    from rest [of s x] obtain rows ws' where c:
      "ru_steps (snd (f x s)) = ru_steps s @ rows" "step_rows (ru_events (snd (f x s))) = step_rows (ru_events s) @ rows"
      "prefix (map sr_name rows) ns" "list_all good_row rows" "\<forall>row \<in> set (butlast rows). sr_state row \<noteq> state_failed"
      "case fst (f x s) of Inr _ \<Rightarrow> map sr_name rows = ns
        | Inl e \<Rightarrow> map sr_name rows \<noteq> ns \<longrightarrow> rows \<noteq> [] \<and> (last rows = \<lparr>sr_name = sr_name (last rows), sr_state = state_failed, sr_error = e\<rparr>
            \<or> sr_state (last rows) = state_cancelled)"
      "ru_writes (snd (f x s)) = ru_writes s @ ws'" "''status.json'' \<notin> fst ` set ws'"
      "''ranking.json'' \<in> fst ` set ws' \<longleftrightarrow> fst (f x s) = Inr ()"
      unfolding chain_def by auto
    have s: "ru_steps s = ru_steps r @ [row]" "step_rows (ru_events s) = step_rows (ru_events r) @ [row]" "ru_writes s = ru_writes r @ ws"
      using steps writes ws q by simp_all
    have "fst (fn r) = Inr x" using res(1) q Inr by simp
    then have "sr_state row \<noteq> state_failed" by (rule res(2))
    then have b: "\<forall>w \<in> set (butlast (row # rows)). sr_state w \<noteq> state_failed" using c(5) by simp
    have l: "case fst (f x s) of Inr _ \<Rightarrow> map sr_name (row # rows) = n # ns
        | Inl e \<Rightarrow> map sr_name (row # rows) \<noteq> n # ns \<longrightarrow> row # rows \<noteq> []
            \<and> (last (row # rows) = \<lparr>sr_name = sr_name (last (row # rows)), sr_state = state_failed, sr_error = e\<rparr>
            \<or> sr_state (last (row # rows)) = state_cancelled)"
      using c(6) row(1) by (auto split: sum.splits)
    have w: "''status.json'' \<notin> fst ` set (ws @ ws')" "''ranking.json'' \<in> fst ` set (ws @ ws') \<longleftrightarrow> fst (f x s) = Inr ()"
      using ws(2) c(8,9) by (auto simp: job_paths_def)
    show ?thesis
      unfolding chain_def a
      by (intro exI [of _ "row # rows"] exI [of _ "ws @ ws'"] conjI) (use c(1-4,7) s row b l w in simp_all)
  qed
qed

lemma chain_end:
  assumes "quiet r (snd (fn r))"
  shows "chain [n] r (let r = ignore_result (run_step env n fn r) in
    wrapped what (write_doc env ''ranking.json'' (Result_Doc (ru_result r)) r))"
proof -
  obtain row where row: "sr_name row = n" "good_row row"
    "ru_steps (snd (run_step env n fn r)) = ru_steps r @ [row]"
    "step_rows (ru_events (snd (run_step env n fn r))) = step_rows (ru_events r) @ [row]"
    "ru_writes (snd (run_step env n fn r)) = ru_writes (snd (fn r))"
    using run_step_row [where fn = fn and r = r and name = n and env = env, OF assms] by blast
  obtain ws where ws: "ru_writes (snd (fn r)) = ru_writes r @ ws" "fst ` set ws \<inter> set job_paths = {}"
    using assms by (auto simp: quiet_def)
  let ?s = "snd (run_step env n fn r)"
  show ?thesis
  proof (cases "ae_write env ''ranking.json''")
    case None
    then show ?thesis using row ws unfolding chain_def
      by (intro exI [of _ "[row]"] exI [of _ "ws @ [(''ranking.json'', Result_Doc (ru_result ?s))]"])
        (auto simp: ignore_result_def write_doc_def wrapped_def job_paths_def Let_def)
  next
    case (Some e)
    then show ?thesis using row ws unfolding chain_def
      by (intro exI [of _ "[row]"] exI [of _ ws]) (auto simp: ignore_result_def write_doc_def wrapped_def job_paths_def Let_def)
  qed
qed

definition step_names :: "string list" where
  "step_names = [''validate'', ''prepare-tools'', ''resolve-project'', ''scan-project'', ''list-candidates'',
     ''resolve-candidates'', ''scan-candidates'', ''rank'', ''check-combined'']"

lemma analysis_chain: "chain step_names r (analysis_steps sv env j r)"
  unfolding analysis_steps_def step_names_def
  by (intro chain_step chain_end quiet_bodies quiet_refl) simp_all

subsection \<open>The folder of a job\<close>

text \<open>What the writes leave in its folder.\<close>

definition put_doc :: "(job_doc \<Rightarrow> bytes) \<Rightarrow> string \<times> job_doc \<Rightarrow> job_folder \<Rightarrow> job_folder" where
  "put_doc enc w f =
     (if fst w = ''status.json'' then f\<lparr>jf_status := Some (case snd w of Status_Doc s \<Rightarrow> Decoded s | _ \<Rightarrow> Unreadable '''')\<rparr>
      else if fst w = ''ranking.json'' then f\<lparr>jf_ranking := Some (Inr (enc (snd w)))\<rparr>
      else f\<lparr>jf_other := jf_other f @ [(fst w, True)]\<rparr>)"

definition folder_of :: "(job_doc \<Rightarrow> bytes) \<Rightarrow> (string \<times> job_doc) list \<Rightarrow> job_folder" where
  "folder_of enc ws = fold (put_doc enc) ws empty_folder"

lemma fold_put_status: "''status.json'' \<notin> fst ` set ws \<Longrightarrow> jf_status (fold (put_doc enc) ws f) = jf_status f"
  by (induction ws arbitrary: f) (auto simp: put_doc_def)

lemma folder_of_running:
  assumes "0 < k" "''status.json'' \<notin> fst ` set ws"
  shows "jf_status (folder_of enc (take k ((''status.json'', Status_Doc s) # ws))) = Some (Decoded s)"
proof -
  obtain n where n: "k = Suc n" using assms(1) by (cases k) auto
  have "''status.json'' \<notin> fst ` set (take n ws)" using assms(2) by (auto dest: in_set_takeD)
  then show ?thesis by (simp add: n folder_of_def fold_put_status) (simp add: put_doc_def)
qed

lemma folder_of_last: "jf_status (folder_of enc (ws @ [(''status.json'', Status_Doc s)])) = Some (Decoded s)"
  by (simp add: folder_of_def put_doc_def)

subsection \<open>Where the results come from\<close>

lemma and_then_Inr: "and_then p f = (Inr y, s') \<longleftrightarrow> (\<exists>x s. p = (Inr x, s) \<and> f x s = (Inr y, s'))"
  by (auto simp: and_then_def split: prod.splits sum.splits)

lemma run_step_Inr: "run_step env n fn r = (Inr x, s) \<Longrightarrow> \<exists>s0. fn r = (Inr x, s0) \<and> ru_result s = ru_result s0"
  by (auto simp: run_step_def Let_def split: prod.splits)

abbreviation results :: "analysis_run \<Rightarrow> dependency_result list" where
  "results r \<equiv> an_dependencies (ru_result r)"

lemma fold_ranked: "results (fold (\<lambda>d. add_ranked (g d)) deps r) = results r @ map (\<lambda>d. snd (g d)) deps"
  by (induction deps arbitrary: r) (auto simp: add_ranked_def split: prod.splits)

lemma list_each_infos: "fst (list_each sv env i n ds r) = map (\<lambda>d. snd (list_one_candidate sv (ae_registry env (dep_name d)) d)) ds"
  by (induction ds arbitrary: i r) (simp_all add: case_prod_beta)

lemma list_one_dep [simp]: "di_dep (snd (list_one_candidate sv a d)) = d"
  by (simp add: list_one_candidate_def split: sum.splits)

text \<open>The pieces of a run that got through.\<close>

definition infos_of :: "'v semver \<Rightarrow> analysis_env \<Rightarrow> manifest \<Rightarrow> dep_info list" where
  "infos_of sv env m = map (\<lambda>d. snd (list_one_candidate sv (ae_registry env (dep_name d)) d)) (mf_dependencies m)"

definition project_of_env :: "analysis_env \<Rightarrow> manifest \<Rightarrow> bool" where
  "project_of_env env m \<longleftrightarrow> (\<exists>raw decoded. ae_package env = Inr (raw, decoded) \<and> parse_manifest decoded = Inr m \<and> validate m = [])"

lemma keep_result:
  assumes "run_step env n fn r = (x, s)" "\<And>drs. results r = drs \<Longrightarrow> results (snd (fn r)) = drs"
  shows "results s = results r"
  using assms(1) assms(2) [of "results r"] by (auto simp: run_step_def Let_def split: prod.splits)

lemma run_order:
  assumes "\<forall>n. distinct (ae_order env n) \<and> set (ae_order env n) = {..<n}"
  shows "map the (pl_outcomes (resolve_candidate_tasks (ae_order env n) f n)) = map f [0..<n]"
  using resolve_any_order(1) [of "ae_order env n" n f] assms by simp

lemma resolve_task_task [simp]: "co_task (resolve_task pl pnpm pks vs t) = t"
  by (auto simp: resolve_task_def Let_def split: sum.splits prod.splits)

lemma steps_results:
  assumes "analysis_steps sv env j r = (Inr (), r')" "results r = []"
    and "\<forall>n. distinct (ae_order env n) \<and> set (ae_order env n) = {..<n}"
  obtains m ix0 outs ix where "project_of_env env m"
    "map co_task outs = build_candidate_tasks sv (infos_of sv env m) ix0"
    "results r' = map (\<lambda>d. snd (rank_one sv (ae_rfc3339 env) (aj_target j) (analysis_policy env j) ix outs d)) (infos_of sv env m)"
proof -
  from assms(1) obtain m r1 u r2 pkgs r3 ix0 r4 deps r5 outs r6 ix r7 u' r8 where
    s1: "run_step env ''validate'' (validate_body env) r = (Inr m, r1)" and
    s2: "run_step env ''prepare-tools'' (tools_body env j) r1 = (Inr u, r2)" and
    s3: "run_step env ''resolve-project'' (resolve_project_body env j m) r2 = (Inr pkgs, r3)" and
    s4: "run_step env ''scan-project'' (scan_project_body env pkgs) r3 = (Inr ix0, r4)" and
    s5: "run_step env ''list-candidates'' (list_body sv env m) r4 = (Inr deps, r5)" and
    s6: "run_step env ''resolve-candidates'' (resolve_candidates_body sv env j deps m ix0) r5 = (Inr outs, r6)" and
    s7: "run_step env ''scan-candidates'' (scan_candidates_body env outs) r6 = (Inr ix, r7)" and
    s8: "run_step env ''rank'' (rank_body sv env j deps outs ix) r7 = (Inr u', r8)" and
    s9: "wrapped ''jobs: write ranking.json: '' (write_doc env ''ranking.json''
        (Result_Doc (ru_result (ignore_result (run_step env ''check-combined'' (check_combined_body env j m) r8))))
        (ignore_result (run_step env ''check-combined'' (check_combined_body env j m) r8))) = (Inr (), r')"
    unfolding analysis_steps_def and_then_Inr Let_def by blast
  have "results r7 = []"
    using assms(2) keep_result [OF s1 kept.keep_validate] keep_result [OF s2 kept.keep_prepare]
      keep_result [OF s3 kept.keep_resolve_project] keep_result [OF s4 kept.keep_scan_project] keep_result [OF s5 kept.keep_list]
      keep_result [OF s6 kept.keep_resolve_candidates] keep_result [OF s7 kept.keep_scan_candidates] by simp
  moreover obtain r80 where "rank_body sv env j deps outs ix r7 = (Inr u', r80)" "ru_result r8 = ru_result r80"
    using run_step_Inr [OF s8] by blast
  ultimately have r8: "results r8 = map (\<lambda>d. snd (rank_one sv (ae_rfc3339 env) (aj_target j) (analysis_policy env j) ix outs d)) deps"
    by (auto simp: rank_body_def Let_def write_doc_def fold_ranked split: option.splits)
  obtain q r9 where r9: "run_step env ''check-combined'' (check_combined_body env j m) r8 = (q, r9)" by fastforce
  have "results r9 = results r8" by (rule keep_result [OF r9 kept.keep_check_combined])
  moreover have "ru_result r' = ru_result r9"
    using s9 by (auto simp: r9 ignore_result_def wrapped_def write_doc_def split: option.splits)
  ultimately have res: "results r' = map (\<lambda>d. snd (rank_one sv (ae_rfc3339 env) (aj_target j) (analysis_policy env j) ix outs d)) deps"
    using r8 by simp
  have deps: "deps = infos_of sv env m"
    using run_step_Inr [OF s5] list_each_infos [of sv env 0 "length (mf_dependencies m)" "mf_dependencies m" r4]
    by (auto simp: list_body_def infos_of_def split: prod.splits)
  have outs: "map co_task outs = build_candidate_tasks sv deps ix0"
    using run_step_Inr [OF s6]
    by (auto simp: resolve_candidates_body_def Let_def and_then_Inr run_order [OF assms(3)] intro: nth_equalityI)
  have m: "project_of_env env m"
    using run_step_Inr [OF s1]
    by (auto simp: validate_body_def project_of_env_def and_then_Inr split: sum.splits prod.splits if_splits)
  show thesis by (rule that [OF m]) (use outs res deps in auto)
qed

subsection \<open>Properties\<close>

text \<open>What a run records, over the rows of its steps and the writes of its bodies.\<close>

definition run_record :: "analysis_env \<Rightarrow> analysis_job \<Rightarrow> analysis_end \<Rightarrow> step_row list \<Rightarrow> (string \<times> job_doc) list \<Rightarrow> bool" where
  "run_record env j e rows ws \<longleftrightarrow> ru_steps (nd_run e) = rows \<and> step_rows (ru_events (nd_run e)) = rows
     \<and> prefix (map sr_name rows) step_names \<and> list_all good_row rows
     \<and> (\<forall>row \<in> set (butlast rows). sr_state row \<noteq> state_failed)
     \<and> ''status.json'' \<notin> fst ` set ws
     \<and> (''ranking.json'' \<in> fst ` set ws \<longrightarrow> map sr_name rows = step_names)
     \<and> ru_writes (nd_run e) = (''status.json'', Status_Doc running_status) # ws
         @ (if ae_write env ''status.json'' = None then [(''status.json'', Status_Doc
              \<lparr>sx_state = Some (if ae_cancelled env ''end'' then state_cancelled
                  else if ''ranking.json'' \<in> fst ` set ws then state_done else state_failed),
               sx_analysis = '''', sx_trivy = ru_trivy (nd_run e), sx_trivy_db = ru_trivy_db (nd_run e),
               sx_pnpm = pt_pnpm (aj_target j), sx_steps = rows\<rparr>)] else [])
     \<and> (nd_committed e \<longleftrightarrow> ae_write env ''status.json'' = None \<and> ae_rename env = None)
     \<and> (nd_err e = None \<longleftrightarrow> ''ranking.json'' \<in> fst ` set ws \<and> nd_committed e)"

lemma run_analysis_record:
  assumes "ae_open_log env = None" "ae_first env = None"
  shows "\<exists>rows ws. run_record env j (run_analysis sv env j) rows ws"
proof -
  let ?r0 = "new_run\<lparr>ru_writes := [(''status.json'', Status_Doc running_status)]\<rparr>"
  obtain res r where a: "analysis_steps sv env j ?r0 = (res, r)" by fastforce
  from analysis_chain [of ?r0 sv env j] obtain rows ws where c: "ru_steps r = rows" "step_rows (ru_events r) = rows"
    "prefix (map sr_name rows) step_names" "list_all good_row rows" "\<forall>row \<in> set (butlast rows). sr_state row \<noteq> state_failed"
    "res = Inr () \<longrightarrow> map sr_name rows = step_names"
    "ru_writes r = (''status.json'', Status_Doc running_status) # ws" "''status.json'' \<notin> fst ` set ws"
    "''ranking.json'' \<in> fst ` set ws \<longleftrightarrow> res = Inr ()"
    unfolding chain_def a by (auto simp: new_run_def split: sum.splits)
  have e: "run_analysis sv env j = (case commit_analysis env (end_status env j res r) r of (ce, r, ok) \<Rightarrow>
      \<lparr>nd_err = join_errors res ce, nd_run = r, nd_committed = ok\<rparr>)"
    using assms a by (simp add: run_analysis_def)
  have "run_record env j (run_analysis sv env j) rows ws"
    unfolding e run_record_def
    using c by (cases res; cases "ae_write env ''status.json''"; cases "ae_rename env")
      (simp_all add: commit_analysis_def write_doc_def join_errors_def end_status_def)
  then show ?thesis by blast
qed

text \<open>A run's own account of itself: its status says running from its first write on, until its last one says how it
  ended; it commits its folder only with that.\<close>

lemma run_status_writes:
  assumes "ae_open_log env = None" "ae_first env = None"
  obtains ws s where "ru_writes (nd_run (run_analysis sv env j)) = (''status.json'', Status_Doc running_status) # ws
        @ (if ae_write env ''status.json'' = None then [(''status.json'', Status_Doc s)] else [])"
    and "''status.json'' \<notin> fst ` set ws" and "sx_state s \<in> {Some state_cancelled, Some state_done, Some state_failed}"
    and "nd_committed (run_analysis sv env j) \<longrightarrow> ae_write env ''status.json'' = None"
proof -
  obtain rows ws where "run_record env j (run_analysis sv env j) rows ws"
    using run_analysis_record [OF assms] by blast
  then show thesis unfolding run_record_def by (intro that) (auto split: if_splits)
qed

lemma run_folder_status:
  assumes "ae_open_log env = None" "ae_first env = None"
  shows "0 < k \<Longrightarrow> k < length (ru_writes (nd_run (run_analysis sv env j))) \<Longrightarrow>
      jf_status (folder_of enc (take k (ru_writes (nd_run (run_analysis sv env j))))) = Some (Decoded running_status)"
    and "ae_write env ''status.json'' \<noteq> None \<Longrightarrow> \<not> nd_committed (run_analysis sv env j)
      \<and> jf_status (folder_of enc (ru_writes (nd_run (run_analysis sv env j)))) = Some (Decoded running_status)"
    and "ae_write env ''status.json'' = None \<Longrightarrow> \<exists>s. sx_state s \<in> {Some state_cancelled, Some state_done, Some state_failed}
      \<and> jf_status (folder_of enc (ru_writes (nd_run (run_analysis sv env j)))) = Some (Decoded s)"
proof -
  let ?ws = "ru_writes (nd_run (run_analysis sv env j))"
  obtain ws s where w: "?ws = (''status.json'', Status_Doc running_status) # ws
        @ (if ae_write env ''status.json'' = None then [(''status.json'', Status_Doc s)] else [])"
      "''status.json'' \<notin> fst ` set ws" "sx_state s \<in> {Some state_cancelled, Some state_done, Some state_failed}"
      "nd_committed (run_analysis sv env j) \<longrightarrow> ae_write env ''status.json'' = None"
    by (rule run_status_writes [OF assms])
  let ?head = "(''status.json'', Status_Doc running_status) # ws"
  show "jf_status (folder_of enc (take k ?ws)) = Some (Decoded running_status)" if "0 < k" "k < length ?ws"
  proof -
    have "take k ?ws = take k ?head" using that w(1) by (auto split: if_splits simp: take_Cons')
    then show ?thesis using folder_of_running [OF that(1) w(2)] by simp
  qed
  show "\<not> nd_committed (run_analysis sv env j) \<and> jf_status (folder_of enc ?ws) = Some (Decoded running_status)"
    if "ae_write env ''status.json'' \<noteq> None"
  proof -
    have "?ws = take (length ?head) ?head" using w(1) that by simp
    then show ?thesis using folder_of_running [of "length ?head" ws enc running_status] w(2,4) that by simp
  qed
  show "\<exists>s. sx_state s \<in> {Some state_cancelled, Some state_done, Some state_failed} \<and> jf_status (folder_of enc ?ws) = Some (Decoded s)"
    if "ae_write env ''status.json'' = None"
    using w(1,3) that folder_of_last [of enc ?head s] by auto
qed


text \<open>A proposal that is safe to take, for a registry and the dependencies of the package.json: the dependency whose newer
  version it is has the name of the one it is for, and is that one unless another section has the name too.\<close>

definition sound_proposal :: "'v semver \<Rightarrow> analysis_env \<Rightarrow> dependency list \<Rightarrow> dependency_result \<Rightarrow> bool" where
  "sound_proposal sv env deps dr \<longleftrightarrow> (\<exists>c \<in> set (dr_candidates dr). da_version c = dr_best dr \<and> da_resolved c \<and> open_result c \<and> da_vector c < dr_vector dr
            \<and> (\<forall>c' \<in> set (dr_candidates dr). open_result c' \<longrightarrow> da_vector c \<le> da_vector c'))
        \<and> (\<exists>dep pk cur v. dep \<in> set deps \<and> dep_name dep = dr_name dr \<and> (distinct (map dep_name deps) \<longrightarrow> dep_version dep = dr_current dr)
            \<and> ae_registry env (dr_name dr) = Inr pk \<and> dr_best dr \<in> fst ` set (pm_versions pk)
            \<and> sv_strict sv (dep_version dep) = Inr cur \<and> sv_strict sv (dr_best dr) = Inr v
            \<and> sv_prerelease sv v = '''' \<and> sv_less sv cur v)"

text \<open>C3. What an analysis proposes is safe to take. When a run returns no error, its results are one for each
  dependency of the valid package.json, in order. Each version it proposes is listed by the registry and stable,
  it resolved, no blocking signal is on it, and the vector of what it resolves to is smaller than the current version's
  and at most that of any other candidate without a blocking signal. It is above the current version of a dependency of
  that name: of the one it is proposed for, when no name is in two sections of the package.json (with one in two, see
  \<open>repeated_name_downgrades\<close>). This holds whatever order the workers end in and whatever pnpm, Trivy and the disk
  answer, for a semver package that keeps its laws and registry documents whose versions are named once.\<close>

theorem analysis_proposals_sound:
  assumes "semver_laws sv" and "\<forall>n. distinct (ae_order env n) \<and> set (ae_order env n) = {..<n}"
    and "\<forall>name pk. ae_registry env name = Inr pk \<longrightarrow> gm_ok (pm_versions pk)"
    and "nd_err (run_analysis sv env j) = None"
  shows "\<exists>m. project_of_env env m
    \<and> map (\<lambda>dr. (dr_name dr, dr_current dr)) (results (nd_run (run_analysis sv env j)))
      = map (\<lambda>d. (dep_name d, dep_version d)) (mf_dependencies m)
    \<and> (\<forall>dr \<in> set (results (nd_run (run_analysis sv env j))). dr_best dr \<noteq> '''' \<longrightarrow>
        sound_proposal sv env (mf_dependencies m) dr)"
proof -
  let ?r0 = "new_run\<lparr>ru_writes := [(''status.json'', Status_Doc running_status)]\<rparr>"
  obtain res r where a: "analysis_steps sv env j ?r0 = (res, r)" by fastforce
  have "ae_open_log env = None" "ae_first env = None"
    using assms(4) by (auto simp: run_analysis_def split: option.splits)
  then have e: "run_analysis sv env j = (case commit_analysis env (end_status env j res r) r of (ce, r, ok) \<Rightarrow>
      \<lparr>nd_err = join_errors res ce, nd_run = r, nd_committed = ok\<rparr>)"
    using a by (simp add: run_analysis_def)
  have r0: "results ?r0 = []" by (simp add: new_run_def)
  have "res = Inr ()" using assms(4) by (auto simp: e join_errors_def split: prod.splits option.splits sum.splits)
  have same: "results (nd_run (run_analysis sv env j)) = results r"
    by (auto simp: e commit_analysis_def write_doc_def split: prod.splits sum.splits option.splits)
  obtain m ix0 outs ix where m: "project_of_env env m"
    and outs: "map co_task outs = build_candidate_tasks sv (infos_of sv env m) ix0"
    and rs: "results r = map (\<lambda>d. snd (rank_one sv (ae_rfc3339 env) (aj_target j) (analysis_policy env j) ix outs d)) (infos_of sv env m)"
    by (rule steps_results [OF a [unfolded \<open>res = Inr ()\<close>] r0 assms(2)])
  have good: "\<forall>d \<in> set (infos_of sv env m). good_info sv d"
    using assms(3) by (auto simp: infos_of_def intro!: list_one_good)
  have names: "dr_name (snd (rank_one sv fmt t pol ix outs d)) = dep_name (di_dep d)
      \<and> dr_current (snd (rank_one sv fmt t pol ix outs d)) = dep_version (di_dep d)" for fmt t pol d
    by (auto simp: rank_one_def rank_dependency_def Let_def case_prod_beta split: option.split)
  have "dr_best dr \<noteq> '''' \<longrightarrow>
        sound_proposal sv env (mf_dependencies m) dr"
    if dr: "dr \<in> set (results r)" for dr
  proof
    assume best: "dr_best dr \<noteq> ''''"
    from dr obtain d where d: "d \<in> set (infos_of sv env m)"
      and one: "dr = snd (rank_one sv (ae_rfc3339 env) (aj_target j) (analysis_policy env j) ix outs d)" by (auto simp: rs)
    obtain ws where ws: "rank_one sv (ae_rfc3339 env) (aj_target j) (analysis_policy env j) ix outs d = (ws, dr)"
      using one by (metis prod.collapse)
    have w: "di_warning d = ''''"
      using best one by (auto simp: rank_one_def Let_def split: if_splits)
    note r = conjunct1 [OF rank_one_together [OF assms(1) good outs w ws]]
    then obtain c where c: "c \<in> set (dr_candidates dr)" "da_version c = dr_best dr" "da_resolved c" "open_result c"
      "da_vector c < dr_vector dr" "\<forall>c' \<in> set (dr_candidates dr). open_result c' \<longrightarrow> da_vector c \<le> da_vector c'"
      using best unfolding ranked_together_def best_of_def by (metis (no_types, lifting))
    have "dr_best dr \<in># mset (map da_version (dr_candidates dr))" using c(1) by (simp flip: c(2))
    then have "dr_best dr \<in># sum_list (map (mset \<circ> di_newer) (namesakes (infos_of sv env m) d))"
      using r unfolding ranked_together_def by metis
    then obtain e where e: "e \<in> set (infos_of sv env m)" "dep_name (di_dep e) = dep_name (di_dep d)" "di_warning e = ''''" "dr_best dr \<in> set (di_newer e)"
      unfolding in_sum_list by (auto simp: namesakes_def)
    from e(1) obtain dep where dep: "e = snd (list_one_candidate sv (ae_registry env (dep_name dep)) dep)" "di_dep e = dep" "dep \<in> set (mf_dependencies m)"
      by (auto simp: infos_of_def)
    then obtain pk where pk: "ae_registry env (dep_name dep) = Inr pk"
      "newer_stable sv (dep_version dep) (map fst (pm_versions pk)) = Inr (di_newer e)"
      using e(3) by (auto simp: list_one_candidate_def split: sum.splits)
    then have up: "\<exists>cur v. sv_strict sv (dep_version dep) = Inr cur \<and> sv_strict sv (dr_best dr) = Inr v
        \<and> dr_best dr \<in> set (map fst (pm_versions pk)) \<and> sv_prerelease sv v = '''' \<and> sv_less sv cur v"
      using semver_laws.newer_in_range [OF assms(1) pk(2), of "dr_best dr"] e(4) by metis
    have dr': "dr_name dr = dep_name dep" "dr_current dr = dep_version (di_dep d)" using names one e(2) dep(2) by metis+
    have own: "dep_version dep = dr_current dr" if "distinct (map dep_name (mf_dependencies m))"
    proof -
      have "distinct (map (\<lambda>d. dep_name (di_dep d)) (infos_of sv env m))" using that by (simp add: infos_of_def comp_def)
      then have "e = d" using e(1,2) d by (simp add: distinct_map inj_on_def)
      then show ?thesis using dep(2) dr'(2) by simp
    qed
    show "sound_proposal sv env (mf_dependencies m) dr"
      unfolding sound_proposal_def using c up own dep(3) dr'(1) pk(1) by (intro conjI) (blast, auto)
  qed
  then show ?thesis
    using m rs names by (intro exI [of _ m]) (simp add: same infos_of_def comp_def)
qed

subsection \<open>A sample run\<close>

definition sample_lockfile :: "string \<Rightarrow> raw_lockfile" where
  "sample_lockfile v = \<lparr>rl_version = ''9.0'', rl_packages =
     [(''ms@'' @ v, \<lparr>rp_integrity = ''sha512-x'', rp_engines = [], rp_os = [], rp_cpu = [], rp_libc = []\<rparr>)]\<rparr>"

definition sample_answer :: "project_doc \<Rightarrow> resolve_answer" where
  "sample_answer doc = (let v = (case gm_get (pd_dependencies doc) ''ms'' of Some v \<Rightarrow> v | None \<Rightarrow> '''') in
     \<lparr>ra_output = '''', ra_lock = Inr (v, Inr (sample_lockfile v))\<rparr>)"

definition sample_scan :: scan_answer where
  "sample_scan = \<lparr>sa_create = None, sa_write = None, sa_trivy = (\<lambda>_. None), sa_open = None,
     sa_report = (\<lambda>cs. Inr \<lparr>tr_schema = 2, tr_results = [if (''ms'', ''2.0.0'') \<in> set cs then
       [\<lparr>vu_id = ''CVE-1'', vu_pkg = ''ms'', vu_installed = ''2.0.0'', vu_fixed = ''2.1.0'', vu_severity = ''HIGH'', vu_title = ''t''\<rparr>]
       else []]\<rparr>)\<rparr>"

definition sample_env :: analysis_env where
  "sample_env = \<lparr>ae_cancelled = (\<lambda>_. False), ae_write = (\<lambda>_. None),
     ae_package = Inr (''json'', Inr \<lparr>rm_name = ''p'', rm_dependencies = [(''ms'', ''2.0.0'')], rm_dev = [], rm_optional = [],
       rm_overrides = '''', rm_resolutions = '''', rm_pnpm_overrides = '''', rm_pnpm_patched = ''''\<rparr>),
     ae_pnpm = None, ae_tools = (\<lambda>_. Some (''0.58.1'', 1)), ae_update = None, ae_resolve = (\<lambda>_. sample_answer),
     ae_probe = (\<lambda>_. sample_answer), ae_order = (\<lambda>n. rev [0..<n]), ae_elapsed = (\<lambda>_. 5), ae_scan = (\<lambda>_. sample_scan),
     ae_reread = (\<lambda>_. None), ae_registry = (\<lambda>_. Inr sample_packument), ae_now = 2000000000000000, ae_rfc3339 = (\<lambda>_. ''t''),
     ae_date = (\<lambda>_. ''d''), ae_quote = (\<lambda>s. s), ae_open_log = None, ae_first = None, ae_rename = None\<rparr>"

definition sample_job :: analysis_job where
  "sample_job = \<lparr>aj_target = se_target default_settings, aj_min_age = 1\<rparr>"

definition sample_manifest :: manifest where
  "sample_manifest = \<lparr>mf_name = ''p'', mf_dependencies = [sample_dep], mf_unsupported = []\<rparr>"

lemma sample_env_simps [simp]:
  "ae_write sample_env p = None" "ae_open_log sample_env = None" "ae_first sample_env = None" "ae_rename sample_env = None"
  "ae_order sample_env n = rev [0..<n]" "ae_registry sample_env name = Inr sample_packument" "ae_pnpm sample_env = None"
  "ae_scan sample_env p = sample_scan" "ae_reread sample_env p = None" "ae_resolve sample_env l = sample_answer"
  "ae_package sample_env = Inr (''json'', Inr \<lparr>rm_name = ''p'', rm_dependencies = [(''ms'', ''2.0.0'')], rm_dev = [], rm_optional = [],
       rm_overrides = '''', rm_resolutions = '''', rm_pnpm_overrides = '''', rm_pnpm_patched = ''''\<rparr>)"
  by (simp_all add: sample_env_def)

lemma sample_parse: "parse_manifest (Inr \<lparr>rm_name = ''p'', rm_dependencies = [(''ms'', ''2.0.0'')], rm_dev = [], rm_optional = [],
       rm_overrides = '''', rm_resolutions = '''', rm_pnpm_overrides = '''', rm_pnpm_patched = ''''\<rparr>) = Inr sample_manifest"
  by code_simp

lemma sample_validate: "validate sample_manifest = []"
  by code_simp

lemma sample_project: "project_of_env sample_env m \<longleftrightarrow> m = sample_manifest"
  by (auto simp: project_of_env_def sample_parse sample_validate)

lemma and_then_ok: "fst p = Inr x \<Longrightarrow> (\<And>s. fst (f x s) = Inr y) \<Longrightarrow> fst (and_then p f) = Inr y"
  by (cases p) (simp add: and_then_def)

lemma and_then_unit: "fst p = Inr () \<Longrightarrow> (\<And>s. fst (f () s) = Inr y) \<Longrightarrow> fst (and_then p f) = Inr y"
  by (rule and_then_ok)

lemma fst_run_step [simp]: "fst (run_step env n fn r) = fst (fn r)"
  by (simp add: run_step_def Let_def case_prod_beta)

lemma sample_writes [simp]: "fst (write_doc sample_env p d r) = Inr ()" "fst (make_dir sample_env p r) = Inr ()"
    "fst (wrapped w q) = Inr x \<longleftrightarrow> fst q = Inr x"
  by (auto simp: write_doc_def make_dir_def wrapped_def split: prod.splits sum.splits)

lemma sample_outcomes_written: "fst (write_outcomes sample_env outs r) = Inr ()"
  by (induction outs arbitrary: r) (auto intro!: and_then_unit split: option.splits)

lemma sample_scans: "\<exists>fs. scan_packages sample_scan pkgs = Inr fs"
  by (simp add: scan_packages_def sample_scan_def read_trivy_def)

lemma sample_bodies:
  "fst (validate_body sample_env r) = Inr sample_manifest"
  "fst (tools_body sample_env j r) = Inr ()"
  "\<exists>pkgs. \<forall>r. fst (resolve_project_body sample_env sample_job sample_manifest r) = Inr pkgs"
  "\<exists>ix. \<forall>r. fst (scan_project_body sample_env pkgs r) = Inr ix"
  "\<exists>deps. \<forall>r. fst (list_body sv sample_env m r) = Inr deps"
  "\<exists>outs. \<forall>r. fst (resolve_candidates_body sv sample_env j deps m ix r) = Inr outs"
  "\<exists>ix. \<forall>r. fst (scan_candidates_body sample_env outs r) = Inr ix"
  "fst (rank_body sv sample_env j deps outs ix r) = Inr ()"
proof -
  show "fst (validate_body sample_env r) = Inr sample_manifest"
    by (simp add: validate_body_def sample_parse sample_validate and_then_unit)
  show "fst (tools_body sample_env j r) = Inr ()"
    by (simp add: tools_body_def Let_def split: option.split)
  have "sample_answer (build_full_manifest sample_manifest []) = \<lparr>ra_output = '''', ra_lock = Inr (''2.0.0'', Inr (sample_lockfile ''2.0.0''))\<rparr>"
    by code_simp
  moreover have "parse_lockfile (Inr (sample_lockfile ''2.0.0'')) = Inr [sample_pkg ''2.0.0'']" by code_simp
  ultimately show "\<exists>pkgs. \<forall>r. fst (resolve_project_body sample_env sample_job sample_manifest r) = Inr pkgs"
    by (auto simp: resolve_project_body_def intro!: and_then_unit)
  show "\<exists>ix. \<forall>r. fst (scan_project_body sample_env pkgs r) = Inr ix"
    using sample_scans [of pkgs] by (auto simp: scan_project_body_def Let_def)
  show "\<exists>deps. \<forall>r. fst (list_body sv sample_env m r) = Inr deps"
    by (auto simp: list_body_def case_prod_beta list_each_infos)
  show "\<exists>outs. \<forall>r. fst (resolve_candidates_body sv sample_env j deps m ix r) = Inr outs"
    by (auto simp: resolve_candidates_body_def Let_def sample_outcomes_written intro!: and_then_unit)
  obtain fs gs where "scan_packages sample_scan (fst (split_pkgs outs)) = Inr fs" "scan_packages sample_scan (snd (split_pkgs outs)) = Inr gs"
    using sample_scans by metis
  moreover obtain merged where "merge_trivy_reports [report_at sample_env ''candidates.trivy.key.json'' (fst (split_pkgs outs)),
      report_at sample_env ''candidates.trivy.rest.json'' (snd (split_pkgs outs))] = Inr merged"
    by (simp add: report_at_def merge_trivy_reports_def sample_scan_def)
  ultimately show "\<exists>ix. \<forall>r. fst (scan_candidates_body sample_env outs r) = Inr ix"
    by (auto simp: scan_candidates_body_def Let_def case_prod_beta intro!: exI [of _ "new_index (fs @ gs)"] and_then_unit)
  show "fst (rank_body sv sample_env j deps outs ix r) = Inr ()"
    by (simp add: rank_body_def Let_def)
qed

lemma sample_returns: "nd_err (run_analysis semver_spec sample_env sample_job) = None"
proof -
  let ?m = sample_manifest
  obtain pkgs where 3: "\<And>r. fst (resolve_project_body sample_env sample_job ?m r) = Inr pkgs" using sample_bodies(3) by blast
  obtain ix where 4: "\<And>r. fst (scan_project_body sample_env pkgs r) = Inr ix" using sample_bodies(4) by blast
  obtain deps where 5: "\<And>r. fst (list_body semver_spec sample_env ?m r) = Inr deps" using sample_bodies(5) by blast
  obtain outs where 6: "\<And>r. fst (resolve_candidates_body semver_spec sample_env sample_job deps ?m ix r) = Inr outs"
    using sample_bodies(6) by blast
  obtain ix' where 7: "\<And>r. fst (scan_candidates_body sample_env outs r) = Inr ix'" using sample_bodies(7) by blast
  have "fst (analysis_steps semver_spec sample_env sample_job r) = Inr ()" for r
    unfolding analysis_steps_def
    by (rule and_then_ok, simp only: fst_run_step sample_bodies(1), rule and_then_unit, simp only: fst_run_step sample_bodies(2),
        rule and_then_ok, simp only: fst_run_step 3, rule and_then_ok, simp only: fst_run_step 4,
        rule and_then_ok, simp only: fst_run_step 5, rule and_then_ok, simp only: fst_run_step 6,
        rule and_then_ok, simp only: fst_run_step 7, rule and_then_unit, simp only: fst_run_step sample_bodies(8))
      (simp add: Let_def)
  then show ?thesis
    by (simp add: run_analysis_def case_prod_beta commit_analysis_def write_doc_def join_errors_def)
qed

theorem analysis_proposals_sound_witness:
  "map (\<lambda>dr. (dr_name dr, dr_current dr)) (results (nd_run (run_analysis semver_spec sample_env sample_job))) = [(''ms'', ''2.0.0'')]"
proof -
  have "gm_ok (pm_versions sample_packument)" by code_simp
  then have r: "\<forall>name pk. ae_registry sample_env name = Inr pk \<longrightarrow> gm_ok (pm_versions pk)" by simp
  have o: "\<forall>n. distinct (ae_order sample_env n) \<and> set (ae_order sample_env n) = {..<n}" by auto
  from analysis_proposals_sound [OF spec.semver_laws_axioms o r sample_returns]
  show ?thesis by (simp add: sample_project sample_manifest_def sample_dep_def)
qed


end
