(* ===== verification/Go_Paths.thy ===== *)
theory Go_Paths
  imports Npm_Tarball
begin

text \<open>
  What the code uses of \<^verbatim>\<open>path/filepath\<close> and \<^verbatim>\<open>net/url\<close> to name files: \<^verbatim>\<open>filepath.Join\<close> and \<^verbatim>\<open>url.PathEscape\<close>,
  and when two names they build are different.
\<close>

subsection \<open>Join and PathEscape\<close>

definition path_join :: "string list \<Rightarrow> string" where
  "path_join parts = (let ps = dropWhile (\<lambda>p. p = '''') parts in
     if ps = [] then '''' else path_clean (join_with ''/'' ps))"

definition escaped :: "char \<Rightarrow> string" where
  "escaped c = (if is_alnum c \<or> c \<in> set ''-_.~$&+:=@'' then [c]
     else [CHR ''%'', upper_char (hex_digit (of_char c div 16)), upper_char (hex_digit (of_char c mod 16))])"

definition path_escape :: "string \<Rightarrow> string" where
  "path_escape s = concat (map escaped s)"

subsection \<open>Clean directories\<close>

definition plain_seg :: "string \<Rightarrow> bool" where
  "plain_seg s \<longleftrightarrow> s \<notin> {'''', ''.'', ''..''} \<and> CHR ''/'' \<notin> set s"

definition clean_dir :: "string \<Rightarrow> bool" where
  "clean_dir d \<longleftrightarrow> path_clean d = d \<and> d \<notin> {''/'', ''.''}"

lemma path_clean_Nil [simp]: "path_clean [] = ''.''"
  by (simp add: path_clean_def clean_seg_def)

lemma split_char_snoc: "split_char c (a @ c # b) = split_char c a @ split_char c b"
  by (induction a) (auto split: list.splits)

lemma path_clean_seg:
  assumes "clean_dir d" "plain_seg s"
  shows "path_clean (d @ ''/'' @ s) = d @ ''/'' @ s"
proof -
  let ?out = "foldl (clean_seg (has_prefix ''/'' d)) [] (split_char CHR ''/'' d)"
  have ne: "d \<noteq> ''''" using assms(1) by (auto simp: clean_dir_def)
  then have pre: "has_prefix ''/'' (d @ ''/'' @ s) = has_prefix ''/'' d" by (cases d) auto
  have out: "?out \<noteq> []" using assms(1) by (auto simp: clean_dir_def path_clean_def Let_def split: if_splits)
  have "foldl (clean_seg (has_prefix ''/'' d)) [] (split_char CHR ''/'' (d @ ''/'' @ s)) = s # ?out"
    using assms(2) split_char_single [of "CHR ''/''" s]
    by (auto simp: split_char_snoc plain_seg_def clean_seg_def)
  moreover have "join_with ''/'' (rev ?out @ [s]) = join_with ''/'' (rev ?out) @ ''/'' @ s"
  proof -
    have "xs \<noteq> [] \<Longrightarrow> join_with ''/'' (xs @ [s]) = join_with ''/'' xs @ ''/'' @ s" for xs
    proof (induction xs)
      case (Cons x xs)
      then show ?case by (cases xs) auto
    qed simp
    then show ?thesis using out by simp
  qed
  moreover have "d = (if has_prefix ''/'' d then ''/'' @ join_with ''/'' (rev ?out)
      else if join_with ''/'' (rev ?out) = '''' then ''.'' else join_with ''/'' (rev ?out))"
    using assms(1) by (simp add: clean_dir_def path_clean_def Let_def)
  ultimately show ?thesis using assms(1)
    unfolding path_clean_def [of "d @ ''/'' @ s"] pre Let_def
    by (simp split: if_splits) (auto simp: clean_dir_def)
qed

lemma clean_dir_seg: "clean_dir d \<Longrightarrow> plain_seg s \<Longrightarrow> clean_dir (d @ ''/'' @ s)"
  using path_clean_seg [of d s] by (cases d) (auto simp: clean_dir_def plain_seg_def path_clean_def)

lemma path_join_segs:
  assumes "clean_dir d" "plain_seg s"
  shows "path_join [d, s] = d @ ''/'' @ s"
    and "plain_seg t \<Longrightarrow> path_join [d, s, t] = d @ ''/'' @ s @ ''/'' @ t"
    and "plain_seg t \<Longrightarrow> plain_seg u \<Longrightarrow> path_join [d, s, t, u] = d @ ''/'' @ s @ ''/'' @ t @ ''/'' @ u"
proof -
  have ne: "d \<noteq> ''''" using assms(1) by (auto simp: clean_dir_def)
  note cs = path_clean_seg [OF assms] clean_dir_seg [OF assms]
  show "path_join [d, s] = d @ ''/'' @ s" using ne cs by (simp add: path_join_def)
  show "plain_seg t \<Longrightarrow> path_join [d, s, t] = d @ ''/'' @ s @ ''/'' @ t"
    using ne path_clean_seg [OF cs(2), of t] by (simp add: path_join_def)
  show "plain_seg t \<Longrightarrow> plain_seg u \<Longrightarrow> path_join [d, s, t, u] = d @ ''/'' @ s @ ''/'' @ t @ ''/'' @ u"
    using ne path_clean_seg [OF clean_dir_seg [OF cs(2)], of t u] by (simp add: path_join_def)
qed

text \<open>The last segment tells two paths apart.\<close>

lemma last_segs: "CHR ''/'' \<notin> set s \<Longrightarrow> CHR ''/'' \<notin> set t \<Longrightarrow> a @ ''/'' @ s = b @ ''/'' @ t \<longleftrightarrow> a = b \<and> s = t"
  by (auto simp: append_eq_append_conv2 append_eq_Cons_conv Cons_eq_append_conv)

lemma hex_digits: "map hex_digit [0..<16] = ''0123456789abcdef''" "map (\<lambda>n. upper_char (hex_digit n)) [0..<16] = ''0123456789ABCDEF''"
proof -
  have "[0..<16] = [0, 1, 2, 3, 4, 5, 6, 7, 8, 9, 10, 11, 12, 13, 14, 15]" by code_simp
  then show "map hex_digit [0..<16] = ''0123456789abcdef''" "map (\<lambda>n. upper_char (hex_digit n)) [0..<16] = ''0123456789ABCDEF''"
    by (simp_all add: hex_digit_def digit_char_def upper_char_def is_lower_def char_of_def bit_iff_odd)
qed

lemma nth_upt_map: "map f [0..<16] = s \<Longrightarrow> n < 16 \<Longrightarrow> f n = s ! n"
  by (metis add_0 diff_zero length_upt nth_map nth_upt)

lemma hex_digit_facts:
  "n < 16 \<Longrightarrow> hex_digit n \<in> set ''0123456789abcdef''"
  "n < 16 \<Longrightarrow> m < 16 \<Longrightarrow> hex_digit n = hex_digit m \<longleftrightarrow> n = m"
  "n < 16 \<Longrightarrow> m < 16 \<Longrightarrow> upper_char (hex_digit n) = upper_char (hex_digit m) \<longleftrightarrow> n = m"
  "n < 16 \<Longrightarrow> upper_char (hex_digit n) \<notin> set ''/@''"
proof -
  note at = nth_upt_map [OF hex_digits(1)]
  show "n < 16 \<Longrightarrow> hex_digit n \<in> set ''0123456789abcdef''" unfolding at by (rule nth_mem) simp
  show "n < 16 \<Longrightarrow> m < 16 \<Longrightarrow> hex_digit n = hex_digit m \<longleftrightarrow> n = m"
    unfolding at by (rule nth_eq_iff_index_eq) simp_all
  show "n < 16 \<Longrightarrow> m < 16 \<Longrightarrow> upper_char (hex_digit n) = upper_char (hex_digit m) \<longleftrightarrow> n = m"
    unfolding nth_upt_map [OF hex_digits(2)] by (rule nth_eq_iff_index_eq) simp_all
  assume "n < 16"
  then have "upper_char (hex_digit n) \<in> set ''0123456789ABCDEF''" by (simp add: nth_upt_map [OF hex_digits(2)] del: set_simps)
  then show "upper_char (hex_digit n) \<notin> set ''/@''" by auto
qed

lemma nibbles: "(of_char c :: nat) div 16 < 16" "(of_char c :: nat) mod 16 < 16"
  using of_char_mod_256 [of c, where ?'a = nat] by (simp_all add: less_mult_imp_div_less)

text \<open>The two digits of a byte.\<close>

lemma digits_inj: "hex_digit (of_char c div 16) = hex_digit (of_char d div 16) \<and> hex_digit (of_char c mod 16) = hex_digit (of_char d mod 16)
    \<longleftrightarrow> c = d"
  "upper_char (hex_digit (of_char c div 16)) = upper_char (hex_digit (of_char d div 16))
     \<and> upper_char (hex_digit (of_char c mod 16)) = upper_char (hex_digit (of_char d mod 16)) \<longleftrightarrow> c = d"
proof -
  have "(of_char c :: nat) div 16 = of_char d div 16 \<and> (of_char c :: nat) mod 16 = of_char d mod 16 \<longleftrightarrow> c = d"
    by (metis div_mult_mod_eq of_char_eq_iff)
  then show "hex_digit (of_char c div 16) = hex_digit (of_char d div 16) \<and> hex_digit (of_char c mod 16) = hex_digit (of_char d mod 16)
      \<longleftrightarrow> c = d"
    "upper_char (hex_digit (of_char c div 16)) = upper_char (hex_digit (of_char d div 16))
     \<and> upper_char (hex_digit (of_char c mod 16)) = upper_char (hex_digit (of_char d mod 16)) \<longleftrightarrow> c = d"
    by (simp_all only: hex_digit_facts nibbles)
qed

lemma hex_encode_Cons: "hex_encode (b # bs) = hex_digit (of_char b div 16) # hex_digit (of_char b mod 16) # hex_encode bs"
  by (simp add: hex_encode_def)

lemma hex_encode_inj: "hex_encode a = hex_encode b \<longleftrightarrow> a = b"
proof (induction a arbitrary: b)
  case Nil
  then show ?case by (cases b) (simp_all add: hex_encode_def)
next
  case (Cons c a)
  show ?case
  proof (cases b)
    case (Cons d b')
    have "hex_encode (c # a) = hex_encode b \<longleftrightarrow> c = d \<and> hex_encode a = hex_encode b'"
      unfolding Cons hex_encode_Cons list.inject using digits_inj(1) [of c d] by blast
    then show ?thesis using Cons.IH Cons by simp
  qed (simp add: hex_encode_def)
qed

lemma hex_encode_plain: "plain_seg (hex_encode b @ ''.tgz'')"
proof -
  have "set (hex_encode b) \<subseteq> set ''0123456789abcdef''"
  proof (induction b)
    case (Cons c b)
    then show ?case unfolding hex_encode_Cons using hex_digit_facts(1) [OF nibbles(1)] hex_digit_facts(1) [OF nibbles(2)] by simp
  qed (simp add: hex_encode_def)
  then show ?thesis by (auto simp: plain_seg_def append_eq_Cons_conv)
qed

text \<open>Percent encoding of every byte but those allowed.\<close>

definition percent :: "char \<Rightarrow> string" where
  "percent c = [CHR ''%'', upper_char (hex_digit (of_char c div 16)), upper_char (hex_digit (of_char c mod 16))]"

definition escape_with :: "(char \<Rightarrow> bool) \<Rightarrow> string \<Rightarrow> string" where
  "escape_with ok s = concat (map (\<lambda>c. if ok c then [c] else percent c) s)"

lemma escape_with_simps [simp]:
  "escape_with ok [] = []" "escape_with ok (c # s) = (if ok c then [c] else percent c) @ escape_with ok s"
  "escape_with ok (s @ t) = escape_with ok s @ escape_with ok t"
  by (simp_all add: escape_with_def)

lemma escape_with_inj: "\<not> ok CHR ''%'' \<Longrightarrow> escape_with ok s = escape_with ok t \<longleftrightarrow> s = t"
proof (induction s arbitrary: t)
  case Nil
  then show ?case by (cases t) (auto simp: percent_def)
next
  case (Cons c s)
  show ?case
  proof (cases t)
    case (Cons d t')
    have "percent c @ x = percent d @ y \<longleftrightarrow> c = d \<and> x = y" for x y
      using digits_inj(2) [of c d] by (auto simp: percent_def)
    moreover have "percent c @ x \<noteq> d # y" "percent d @ x \<noteq> c # y" if "ok d" "ok c" for x y
      using Cons.prems that by (auto simp: percent_def)
    ultimately show ?thesis using Cons Cons.IH [OF Cons.prems, of t'] Cons.prems by (auto simp: percent_def)
  qed (simp add: percent_def)
qed

lemma escape_with_set: "c \<in> set (escape_with ok s) \<Longrightarrow> ok c \<or> c = CHR ''%'' \<or> c \<in> set ''0123456789ABCDEF''"
proof (induction s)
  case (Cons d s)
  have "n < 16 \<Longrightarrow> upper_char (hex_digit n) \<in> set ''0123456789ABCDEF''" for n
    unfolding nth_upt_map [OF hex_digits(2)] by (rule nth_mem) simp
  then have h: "{upper_char (hex_digit (of_char d div 16)), upper_char (hex_digit (of_char d mod 16))} \<subseteq> set ''0123456789ABCDEF''"
    using nibbles [of d] by blast
  have p: "set (percent d) = insert CHR ''%'' {upper_char (hex_digit (of_char d div 16)), upper_char (hex_digit (of_char d mod 16))}"
    by (auto simp: percent_def)
  have hex: "c \<in> set (percent d) \<Longrightarrow> c = CHR ''%'' \<or> c \<in> set ''0123456789ABCDEF''" unfolding p using h by blast
  have "ok d \<and> c = d \<or> \<not> ok d \<and> c \<in> set (percent d) \<or> c \<in> set (escape_with ok s)"
    using Cons.prems by (simp split: if_splits)
  then show ?case using hex Cons.IH by blast
qed simp

lemma path_escape_simps: "path_escape [] = []" "path_escape (c # s) = escaped c @ path_escape s"
  by (simp_all add: path_escape_def)

lemma escaped_prefix_free: "escaped c @ s = escaped d @ t \<longleftrightarrow> c = d \<and> s = t"
proof -
  have pc: "\<not> is_alnum CHR ''%''" "CHR ''%'' \<notin> set ''-_.~$&+:=@''" by code_simp+
  show ?thesis
    unfolding escaped_def using digits_inj(2) [of c d] pc
    by (cases "is_alnum c \<or> c \<in> set ''-_.~$&+:=@''"; cases "is_alnum d \<or> d \<in> set ''-_.~$&+:=@''")
      (simp_all only: if_True if_False append.simps list.inject, blast+)
qed

lemma escaped_not_Nil: "escaped c \<noteq> []"
  by (simp add: escaped_def)

lemma path_escape_inj: "path_escape s = path_escape t \<longleftrightarrow> s = t"
proof (induction s arbitrary: t)
  case Nil
  then show ?case by (cases t) (auto simp: path_escape_simps escaped_not_Nil)
next
  case (Cons c s)
  then show ?case by (cases t) (auto simp: path_escape_simps escaped_prefix_free escaped_not_Nil)
qed

lemma path_escape_no_slash: "CHR ''/'' \<notin> set (path_escape s)"
proof (induction s)
  case (Cons c s)
  have "\<not> is_alnum CHR ''/''" by code_simp
  then have "CHR ''/'' \<notin> set (escaped c)"
    using hex_digit_facts(4) [OF nibbles(1), of c] hex_digit_facts(4) [OF nibbles(2), of c] by (auto simp: escaped_def)
  then show ?case using Cons by (simp add: path_escape_simps)
qed (simp add: path_escape_simps)

end
