(* ===== verification/Archive_Write.thy ===== *)
theory Archive_Write
  imports Archive_Verify
begin

text \<open>
  \<^verbatim>\<open>archive/archive.go\<close>: \<^verbatim>\<open>WriteTarGz\<close>, entry by entry, with what the tar writer of the standard
  library refuses: a body longer than its header says, and one that ends short, seen at the next header
  or at the end. The other errors of the writers below are a parameter. Then the round trip: Verify
  accepts what it wrote.
\<close>

subsection \<open>Writing\<close>

text \<open>\<open>we_open\<close> is what opening and reading the entry gives, when it is its turn.\<close>

record write_entry =
  we_name :: string
  we_size :: int
  we_open :: "string + bytes"

record write_faults =
  wx_root :: "string option"
  wx_header :: "string \<Rightarrow> string option"
  wx_copy :: "string \<Rightarrow> string option"
  wx_tar :: "string option"
  wx_gzip :: "string option"

definition cmp_entry :: "write_entry \<Rightarrow> write_entry \<Rightarrow> int" where
  "cmp_entry a b = go_compare (we_name a) (we_name b)"

fun duplicate_name :: "write_entry list \<Rightarrow> string option" where
  "duplicate_name (a # b # es) = (if we_name b = we_name a then Some (we_name b) else duplicate_name (b # es))"
| "duplicate_name _ = None"

text \<open>\<open>missing\<close> is what the body before is short of.\<close>

definition missed_writing :: "int \<Rightarrow> string" where
  "missed_writing missing = ''archive/tar: missed writing '' @ show_int missing @ '' bytes''"

definition root_entry :: "string \<Rightarrow> tar_entry" where
  "root_entry root = \<lparr>te_name = root @ ''/'', te_type = Directory, te_size = 0, te_pax = [], te_body = [], te_body_err = None\<rparr>"

definition file_entry :: "string \<Rightarrow> int \<Rightarrow> bytes \<Rightarrow> tar_entry" where
  "file_entry name n body = \<lparr>te_name = name, te_type = Reg_File, te_size = n, te_pax = [], te_body = body, te_body_err = None\<rparr>"

text \<open>One entry: the tar entry, and what its body is short of.\<close>

definition write_entry_at :: "write_faults \<Rightarrow> string \<Rightarrow> int \<Rightarrow> write_entry \<Rightarrow> string + tar_entry \<times> int" where
  "write_entry_at wx name missing e =
     (if 0 < missing then Inl (name @ '': '' @ missed_writing missing)
      else case wx_header wx name of Some x \<Rightarrow> Inl (name @ '': '' @ x)
      | None \<Rightarrow> (case we_open e of Inl x \<Rightarrow> Inl (name @ '': '' @ x)
        | Inr body \<Rightarrow> (case wx_copy wx name of Some x \<Rightarrow> Inl (name @ '': '' @ x)
          | None \<Rightarrow> if we_size e < int (length body) then Inl (name @ '': archive/tar: write too long'')
              else Inr (file_entry name (we_size e) body, we_size e - int (length body)))))"

fun write_rest :: "write_faults \<Rightarrow> string \<Rightarrow> int \<Rightarrow> write_entry list \<Rightarrow> string + tar_entry list" where
  "write_rest wx root missing [] =
     (if 0 < missing then Inl (missed_writing missing)
      else case wx_tar wx of Some x \<Rightarrow> Inl x | None \<Rightarrow> (case wx_gzip wx of Some x \<Rightarrow> Inl x | None \<Rightarrow> Inr []))"
| "write_rest wx root missing (e # es) =
     try_bind (write_entry_at wx (root @ ''/'' @ we_name e) missing e) (\<lambda>(h, short).
     try_bind (write_rest wx root short es) (\<lambda>hs. Inr (h # hs)))"

definition write_tar_gz :: "write_faults \<Rightarrow> string \<Rightarrow> write_entry list \<Rightarrow> string + tar_entry list" where
  "write_tar_gz wx root es =
     (let sorted_es = sort_func cmp_entry es in
      case duplicate_name sorted_es of
        Some n \<Rightarrow> Inl (''duplicate archive entry '' @ n)
      | None \<Rightarrow> (case wx_root wx of Some x \<Rightarrow> Inl x
        | None \<Rightarrow> try_bind (write_rest wx root 0 sorted_es) (\<lambda>hs. Inr (root_entry root # hs))))"

subsection \<open>What was written\<close>

interpretation entry: comparator cmp_entry
  unfolding cmp_entry_def [abs_def] by (rule comparator_key)

definition entry_of :: "string \<Rightarrow> write_entry \<Rightarrow> tar_entry" where
  "entry_of root e = file_entry (root @ ''/'' @ we_name e) (we_size e) (projr (we_open e))"

text \<open>The bodies have the sizes of their headers.\<close>

definition full_body :: "write_entry \<Rightarrow> bool" where
  "full_body e \<longleftrightarrow> (\<exists>body. we_open e = Inr body \<and> we_size e = int (length body))"

lemma duplicate_name_None:
  "sorted_wrt (\<lambda>a b. cmp_entry a b \<le> 0) es \<Longrightarrow> duplicate_name es = None \<Longrightarrow> distinct (map we_name es)"
proof (induction es rule: duplicate_name.induct)
  case (1 a b es)
  then have "\<forall>e \<in> set (b # es). we_name a < we_name e"
    by (auto simp: cmp_entry_def split: if_splits)
  then show ?case using 1 by (auto split: if_splits)
qed simp_all

lemma duplicate_name_distinct: "distinct (map we_name es) \<Longrightarrow> duplicate_name es = None"
  by (induction es rule: duplicate_name.induct) auto

lemma write_rest_Inr: "write_rest wx root missing es = Inr hs \<Longrightarrow>
    missing \<le> 0 \<and> (\<forall>e \<in> set es. full_body e) \<and> hs = map (entry_of root) es"
proof (induction es arbitrary: missing hs)
  case Nil
  then show ?case by (auto split: if_splits option.splits)
next
  case (Cons e es)
  then obtain h short hs' where h: "write_entry_at wx (root @ ''/'' @ we_name e) missing e = Inr (h, short)"
      "write_rest wx root short es = Inr hs'" "hs = h # hs'"
    by (auto simp: go_err)
  then obtain body where b: "missing \<le> 0" "we_open e = Inr body" "int (length body) \<le> we_size e"
      "short = we_size e - int (length body)" "h = entry_of root e"
    by (auto simp: write_entry_at_def entry_of_def split: if_splits option.splits sum.splits)
  with Cons.IH [OF h(2)] have "short = 0" by simp
  then show ?case using Cons.IH [OF h(2)] b h(3) by (auto simp: full_body_def)
qed

lemma write_tar_gz_Inr:
  assumes "write_tar_gz wx root es = Inr hs"
  shows "distinct (map we_name es) \<and> (\<forall>e \<in> set es. full_body e)
    \<and> hs = root_entry root # map (entry_of root) (sort_func cmp_entry es)"
proof -
  from assms obtain rest where r: "duplicate_name (sort_func cmp_entry es) = None"
      "write_rest wx root 0 (sort_func cmp_entry es) = Inr rest" "hs = root_entry root # rest"
    by (auto simp: write_tar_gz_def Let_def go_err split: option.splits)
  have "distinct (map we_name (sort_func cmp_entry es))"
    by (rule duplicate_name_None [OF entry.sorted_sort_func r(1)])
  then show ?thesis using write_rest_Inr [OF r(2)] r(3) by simp
qed

lemma write_rest_full:
  assumes "\<And>n. wx_header wx n = None \<and> wx_copy wx n = None" "wx_tar wx = None" "wx_gzip wx = None" "\<forall>e \<in> set es. full_body e"
  shows "write_rest wx root 0 es = Inr (map (entry_of root) es)"
  using assms(4) by (induction es) (auto simp: assms(1-3) write_entry_at_def full_body_def entry_of_def)

subsection \<open>Verify accepts what was written\<close>

definition good_copy :: "verify_env \<Rightarrow> package \<Rightarrow> bytes \<Rightarrow> bool" where
  "good_copy env p body \<longleftrightarrow> hex_decode (pk_sha512 p) = Some (ve_hash env Sha512 body)
     \<and> (\<not> pk_stripped p \<longrightarrow> (\<exists>alg d. parse_integrity (pk_integrity p) = Inr (alg, d) \<and> ve_hash env alg body = d))"

definition calm_disk :: "verify_env \<Rightarrow> bool" where
  "calm_disk env \<longleftrightarrow> (\<forall>f. ve_faults env f = \<lparr>ff_open = None, ff_write = None, ff_close = None\<rparr>)"

definition plain_file :: "string \<Rightarrow> bool" where
  "plain_file f \<longleftrightarrow> f \<noteq> '''' \<and> f \<noteq> ''..'' \<and> f \<noteq> key_entry \<and> CHR ''/'' \<notin> set f"

text \<open>The entry of a package or of the key.\<close>

definition fitting :: "bytes \<Rightarrow> package list \<Rightarrow> (package \<Rightarrow> bytes) \<Rightarrow> tar_entry \<Rightarrow> bool" where
  "fitting key ps content h \<longleftrightarrow> (\<exists>name body. h = file_entry (out_root @ name) (int (length body)) body
     \<and> (name = key_entry \<and> body = key \<or> (\<exists>p \<in> set ps. name = pk_file p \<and> body = content p)))"

text \<open>What the pass keeps as long as every entry fits.\<close>

definition on_course :: "limits \<Rightarrow> package list \<Rightarrow> scan_state \<Rightarrow> bool" where
  "on_course l ps s \<longleftrightarrow> 0 \<le> ss_unpacked s \<and> length (ss_checked s) = length ps
     \<and> (\<forall>p \<in> set ps. out_root @ pk_file p \<notin> set (ss_seen s) \<longrightarrow> ss_files s (pk_file p) = None)
     \<and> (\<forall>i < length ps. out_root @ pk_file (ps ! i) \<in> set (ss_seen s) \<longrightarrow> ss_checked s ! i \<noteq> None)
     \<and> (out_root @ key_entry \<in> set (ss_seen s) \<longrightarrow> ss_key s)"

lemma foldl_put_has: "f \<in> k ` set qs \<or> gm_get m f \<noteq> None \<Longrightarrow> gm_get (foldl (\<lambda>m p. gm_put (k p) p m) m qs) f \<noteq> None"
  by (induction qs arbitrary: m) auto

lemma listed_of_good:
  assumes "\<forall>p \<in> set ps. \<exists>body. good_copy env p body"
  shows "\<exists>listed. listed_of ps = Inr listed \<and> (\<forall>p \<in> set ps. gm_get listed (pk_file p) \<noteq> None)"
proof -
  have "\<exists>qs. map_err pending_of (List.enumerate k ps) = Inr qs \<and> map (\<lambda>q. pn_package q) qs = ps" for k
    using assms
  proof (induction ps arbitrary: k)
    case (Cons p ps)
    from Cons.prems obtain body where "good_copy env p body" by auto
    then obtain q where "pending_of (k, p) = Inr q" "pn_package q = p"
      by (cases "pk_stripped p"; cases "parse_integrity (pk_integrity p)") (auto simp: good_copy_def pending_of_def)
    moreover from Cons obtain qs where "map_err pending_of (List.enumerate (Suc k) ps) = Inr qs" "map (\<lambda>q. pn_package q) qs = ps"
      by (metis list.set_intros(2))
    ultimately show ?case by simp
  qed simp
  then obtain qs where qs: "map_err pending_of (List.enumerate 0 ps) = Inr qs" "map (\<lambda>q. pn_package q) qs = ps" by blast
  have "gm_get (foldl (\<lambda>m q. gm_put (pk_file (pn_package q)) q m) [] qs) (pk_file p) \<noteq> None" if "p \<in> set ps" for p
    by (rule foldl_put_has) (use that qs(2) in auto)
  then show ?thesis using qs(1) by (simp add: listed_of_def)
qed

text \<open>What the manifest, the importer's disk and the limits owe.\<close>

definition ready :: "verify_env \<Rightarrow> bytes \<Rightarrow> package list \<Rightarrow> (package \<Rightarrow> bytes) \<Rightarrow> limits \<Rightarrow> (string, pending) gomap \<Rightarrow> bool" where
  "ready env key ps content l listed \<longleftrightarrow> listed_of ps = Inr listed \<and> (\<forall>p \<in> set ps. gm_get listed (pk_file p) \<noteq> None)
     \<and> distinct (map pk_file ps) \<and> (\<forall>p \<in> set ps. plain_file (pk_file p) \<and> good_copy env p (content p))
     \<and> calm_disk env \<and> length key \<le> max_key_size \<and> lm_unpacked l \<le> max_int64"

lemma copy_fitting:
  assumes ready: "ready env key ps content l listed" and "i < length ps" "fs (pk_file (ps ! i)) = None"
  shows "\<exists>q c. gm_get listed (pk_file (ps ! i)) = Some q \<and> pn_index q = i
    \<and> copy_package env (file_entry name n (content (ps ! i))) q fs = (Inr c, fs(pk_file (ps ! i) \<mapsto> content (ps ! i)))"
proof -
  from ready have listed: "listed_of ps = Inr listed" and listing: "\<forall>p \<in> set ps. gm_get listed (pk_file p) \<noteq> None"
    and distinct: "distinct (map pk_file ps)" and files: "\<forall>p \<in> set ps. plain_file (pk_file p) \<and> good_copy env p (content p)"
    and calm: "calm_disk env" and key: "length key \<le> max_key_size" and unpacked: "lm_unpacked l \<le> max_int64"
    by (simp_all add: ready_def)
  let ?p = "ps ! i"
  have p: "?p \<in> set ps" using assms(2) by simp
  with listing obtain q where q: "gm_get listed (pk_file ?p) = Some q" by fastforce
  from listed_of_get [OF listed q] have at: "pk_file (pn_package q) = pk_file ?p" "pn_index q < length ps"
    "pending_of (pn_index q, ps ! pn_index q) = Inr q" by blast+
  from at(3) have "pn_package q = ps ! pn_index q" by (simp add: pending_of_Inr)
  with at(1,2) distinct assms(2) have i: "pn_index q = i" by (simp add: distinct_conv_nth) metis
  with at(3) have pn: "pn_package q = ?p" "hex_decode (pk_sha512 ?p) = Some (pn_want q)"
    "if pk_stripped ?p then pn_sri q = None else (\<exists>sri. parse_integrity (pk_integrity ?p) = Inr sri \<and> pn_sri q = Some sri)"
    using at(3) unfolding i pending_of_Inr by blast+
  have "good_copy env ?p (content ?p)" using files p by blast
  then have "pn_want q = ve_hash env Sha512 (content ?p)"
    "\<forall>alg d. pn_sri q = Some (alg, d) \<longrightarrow> ve_hash env alg (content ?p) = d"
    using pn(2,3) by (auto simp: good_copy_def split: if_splits)
  then show ?thesis using q i calm assms(3) pn(1)
    by (auto simp: copy_package_def Let_def calm_disk_def file_entry_def split: option.splits)
qed

lemma scan_entry_fitting:
  assumes ready: "ready env key ps content l listed"
    and "fitting key ps content h" "te_name h \<notin> set (ss_seen s)" "on_course l ps s" "n \<le> lm_entries l"
    and "int (length (te_name h)) \<le> lm_name_bytes l" "ss_unpacked s + te_size h \<le> lm_unpacked l"
  shows "\<exists>s'. scan_entry env l key listed n h s = (None, s') \<and> on_course l ps s'
    \<and> ss_seen s' = te_name h # ss_seen s \<and> ss_unpacked s' = ss_unpacked s + te_size h"
proof -
  from ready have listed: "listed_of ps = Inr listed" and listing: "\<forall>p \<in> set ps. gm_get listed (pk_file p) \<noteq> None"
    and distinct: "distinct (map pk_file ps)" and files: "\<forall>p \<in> set ps. plain_file (pk_file p) \<and> good_copy env p (content p)"
    and calm: "calm_disk env" and key: "length key \<le> max_key_size" and unpacked: "lm_unpacked l \<le> max_int64"
    by (simp_all add: ready_def)
  from assms(2) obtain name body where h: "h = file_entry (out_root @ name) (int (length body)) body"
    and nb: "name = key_entry \<and> body = key \<or> (\<exists>p \<in> set ps. name = pk_file p \<and> body = content p)"
    by (auto simp: fitting_def)
  have plain: "plain_file (pk_file p)" if "p \<in> set ps" for p using files that by blast
  have "name \<noteq> '''' \<and> name \<noteq> ''..'' \<and> CHR ''/'' \<notin> set name"
    using nb plain by (auto simp: plain_file_def key_entry_def)
  then have ok: "check_entry_name (ve_text env) h (ss_seen s) = Inr ()"
    using assms(3) by (auto simp: check_entry_name_Inr h file_entry_def)
  have bounds: "int64 (lm_unpacked l - ss_unpacked s) = lm_unpacked l - ss_unpacked s"
    "int64 (ss_unpacked s + int (length body)) = ss_unpacked s + int (length body)"
    using assms(4,7) unpacked by (auto intro!: int64_id simp: on_course_def h file_entry_def)
  have small: "int (length (te_name h)) \<le> lm_name_bytes l" "ss_unpacked s + int (length body) \<le> lm_unpacked l" "n \<le> lm_entries l"
    using assms(5-7) by (simp_all add: h file_entry_def)
  have fields: "te_type h = Reg_File" "te_pax h = []" "te_size h = int (length body)" "trim_prefix out_root (te_name h) = name"
    by (simp_all add: h file_entry_def)
  let ?s = "s\<lparr>ss_seen := te_name h # ss_seen s, ss_unpacked := ss_unpacked s + int (length body)\<rparr>"
  have at: "scan_entry env l key listed n h s = (if name = key_entry
      then (case check_key h key of Inl e \<Rightarrow> (Some e, ?s) | Inr _ \<Rightarrow> (None, ?s\<lparr>ss_key := True\<rparr>))
      else (case gm_get listed name of
        None \<Rightarrow> (Some (Refused (shown (ve_text env) (te_name h) @ '' is not listed in the manifest'')), ?s)
      | Some p \<Rightarrow> (case copy_package env h p (ss_files s) of
          (Inl e, fs) \<Rightarrow> (Some e, ?s\<lparr>ss_files := fs\<rparr>)
        | (Inr c, fs) \<Rightarrow> (None, ?s\<lparr>ss_files := fs, ss_checked := (ss_checked s)[pn_index p := Some c]\<rparr>))))"
    using small by (auto simp: scan_entry_def Let_def fields ok bounds split: option.splits sum.splits prod.splits)
  show ?thesis
  proof (cases "name = key_entry")
    case True
    then have body: "body = key" using nb plain by (metis plain_file_def)
    have ck: "check_key h key = Inr ()" using key by (simp add: check_key_def h file_entry_def body)
    have "on_course l ps (?s\<lparr>ss_key := True\<rparr>)"
      using assms(4) True plain by (auto simp: on_course_def h file_entry_def plain_file_def in_set_conv_nth)
    then show ?thesis using at True ck by (simp add: h file_entry_def)
  next
    case False
    then obtain i where i: "i < length ps" "name = pk_file (ps ! i)" "body = content (ps ! i)"
      using nb by (metis in_set_conv_nth)
    have "ss_files s (pk_file (ps ! i)) = None"
      using assms(3,4) i by (auto simp: on_course_def h file_entry_def)
    from copy_fitting [where i = i and fs = "ss_files s" and name = "te_name h" and n = "int (length body)", OF ready i(1) this] obtain q c where
      q: "gm_get listed name = Some q" "pn_index q = i"
        "copy_package env h q (ss_files s) = (Inr c, (ss_files s)(name \<mapsto> body))"
      using i h by (auto simp: file_entry_def)
    let ?s' = "?s\<lparr>ss_files := (ss_files s)(name \<mapsto> body), ss_checked := (ss_checked s)[i := Some c]\<rparr>"
    have same: "pk_file (ps ! j) = name \<longleftrightarrow> j = i" if "j < length ps" for j
      using distinct i that by (metis length_map nth_eq_iff_index_eq nth_map)
    have "on_course l ps ?s'"
      using assms(4) False i same by (auto simp: on_course_def h file_entry_def nth_list_update)
    then show ?thesis using at False q by (simp add: h file_entry_def)
  qed
qed

lemma scan_entries_fitting:
  assumes ready: "ready env key ps content l listed"
    and "\<forall>h \<in> set hs. fitting key ps content h \<and> int (length (te_name h)) \<le> lm_name_bytes l"
    and "distinct (map te_name hs)" "set (map te_name hs) \<inter> set (ss_seen s) = {}" "on_course l ps s"
    and "n + int (length hs) \<le> lm_entries l + 1" "ss_unpacked s + sum_list (map te_size hs) \<le> lm_unpacked l"
  shows "\<exists>s'. scan_entries env l key listed n hs End_Of_Tar s = (None, s') \<and> on_course l ps s'
    \<and> set (ss_seen s') = set (map te_name hs) \<union> set (ss_seen s)"
  using assms(2-)
proof (induction hs arbitrary: n s)
  case (Cons h hs)
  have pos: "0 \<le> sum_list (map te_size hs)"
    by (rule sum_list_nonneg) (use Cons.prems(1) in \<open>auto simp: fitting_def file_entry_def\<close>)
  obtain s1 where s1: "scan_entry env l key listed n h s = (None, s1)" "on_course l ps s1"
      "ss_seen s1 = te_name h # ss_seen s" "ss_unpacked s1 = ss_unpacked s + te_size h"
    using scan_entry_fitting [OF ready, of h s n] Cons.prems pos by auto
  have "\<exists>s'. scan_entries env l key listed (n + 1) hs End_Of_Tar s1 = (None, s') \<and> on_course l ps s'
      \<and> set (ss_seen s') = set (map te_name hs) \<union> set (ss_seen s1)"
    by (rule Cons.IH) (use Cons.prems s1 in auto)
  then show ?case using s1 by auto
qed auto

text \<open>The entries an export hands over: the packages in order, then the key.\<close>

definition package_entry :: "(package \<Rightarrow> bytes) \<Rightarrow> package \<Rightarrow> write_entry" where
  "package_entry content p = \<lparr>we_name = pk_file p, we_size = int (length (content p)), we_open = Inr (content p)\<rparr>"

definition signature_entry :: "bytes \<Rightarrow> write_entry" where
  "signature_entry key = \<lparr>we_name = key_entry, we_size = int (length key), we_open = Inr key\<rparr>"

text \<open>The readers give back what was written, up to a stream of the size the limits allow, and only zeros after
  it.\<close>

definition reads_back :: "verify_env \<Rightarrow> limits \<Rightarrow> tar_entry list \<Rightarrow> bytes \<Rightarrow> bool" where
  "reads_back env l hs input \<longleftrightarrow> (\<exists>opn. ve_open env input = opn \<and> op_gzip opn = Gzip_Ok
     \<and> op_entries opn (stream_bound l) = (hs, End_Of_Tar) \<and> check_trailing opn = Inr ())"

definition within_limits :: "limits \<Rightarrow> bytes \<Rightarrow> package list \<Rightarrow> (package \<Rightarrow> bytes) \<Rightarrow> bool" where
  "within_limits l key ps content \<longleftrightarrow> int (length ps) + 2 \<le> lm_entries l
     \<and> (\<forall>f \<in> set (key_entry # map pk_file ps). int (length (out_root @ f)) \<le> lm_name_bytes l)
     \<and> int (length key) + sum_list (map (\<lambda>p. int (length (content p))) ps) \<le> lm_unpacked l
     \<and> lm_unpacked l \<le> max_int64 \<and> length key \<le> max_key_size"

lemma scan_written:
  assumes written: "write_tar_gz wx ''out'' (map (package_entry content) (am_packages m) @ [signature_entry (vo_key opts)]) = Inr hs"
    and good: "\<forall>p \<in> set (am_packages m). plain_file (pk_file p) \<and> good_copy env p (content p)"
    and calm: "calm_disk env" and limits: "within_limits (or_default (vo_limits opts)) (vo_key opts) (am_packages m) content"
    and readback: "reads_back env (or_default (vo_limits opts)) hs input"
    and absent: "\<forall>p \<in> set (am_packages m). fs (pk_file p) = None"
  shows "\<exists>cs fs'. scan env m opts input fs = (Inr cs, fs')"
proof -
  let ?ps = "am_packages m" and ?l = "or_default (vo_limits opts)" and ?key = "vo_key opts"
  let ?es = "map (package_entry content) ?ps @ [signature_entry ?key]"
  let ?s0 = "\<lparr>ss_checked = replicate (length ?ps) None, ss_seen = [], ss_key = False, ss_unpacked = 0, ss_files = fs\<rparr>"
  note w = write_tar_gz_Inr [OF written]
  obtain listed where listed: "listed_of ?ps = Inr listed" "\<forall>p \<in> set ?ps. gm_get listed (pk_file p) \<noteq> None"
    using listed_of_good [of ?ps env] good by blast
  have distinct: "distinct (map pk_file ?ps)" using w by (auto simp: package_entry_def comp_def)
  have ready: "ready env ?key ?ps content ?l listed"
    using listed good calm limits distinct by (simp add: ready_def within_limits_def)
  let ?ws = "map (entry_of ''out'') (sort_func cmp_entry ?es)"
  have hs: "hs = root_entry ''out'' # ?ws" using w by simp
  have entries: "te_name (entry_of ''out'' e) = out_root @ we_name e" "te_size (entry_of ''out'' e) = we_size e" for e
    by (simp_all add: entry_of_def file_entry_def out_root_def)
  have fit: "\<forall>h \<in> set ?ws. fitting ?key ?ps content h \<and> int (length (te_name h)) \<le> lm_name_bytes ?l"
    using limits by (auto simp: fitting_def entry_of_def package_entry_def signature_entry_def within_limits_def file_entry_def out_root_def)
  have names: "distinct (map te_name ?ws)"
  proof -
    have "distinct (map we_name (sort_func cmp_entry ?es))" using w by simp
    then have "distinct (map (append out_root) (map we_name (sort_func cmp_entry ?es)))" by (subst distinct_map) (simp add: inj_on_def)
    then show ?thesis by (simp add: entries comp_def)
  qed
  have files: "set (map te_name ?ws) = (\<lambda>e. out_root @ we_name e) ` set ?es" by (auto simp: entries)
  have sum: "sum_list (map te_size ?ws) \<le> lm_unpacked ?l"
  proof -
    have "sum_list (map te_size ?ws) = sum_list (map we_size (sort_func cmp_entry ?es))" by (simp add: entries comp_def)
    also have "\<dots> = sum_list (map we_size ?es)"
      by (metis mset_map mset_sort_func sum_mset_sum_list)
    finally show ?thesis using limits by (simp add: within_limits_def package_entry_def signature_entry_def comp_def)
  qed
  have plain: "\<forall>e \<in> set ?es. we_name e \<noteq> ''''"
    using good by (auto simp: plain_file_def package_entry_def signature_entry_def key_entry_def)
  let ?s1 = "?s0\<lparr>ss_seen := [out_root]\<rparr>"
  have root: "scan_entry env ?l ?key listed 1 (root_entry ''out'') ?s0 = (None, ?s1)"
  proof -
    have "check_entry_name (ve_text env) (root_entry ''out'') [] = Inr ()"
      by (simp add: check_entry_name_Inr root_entry_def out_root_def)
    then show ?thesis using limits by (simp add: scan_entry_def Let_def root_entry_def within_limits_def out_root_def key_entry_def)
  qed
  have course: "on_course ?l ?ps ?s1" using absent good by (auto simp: on_course_def plain_file_def key_entry_def)
  have apart: "set (map te_name ?ws) \<inter> set (ss_seen ?s1) = {}" using plain unfolding files by auto
  have count: "2 + int (length ?ws) \<le> lm_entries ?l + 1" using limits by (simp add: within_limits_def)
  have unp: "ss_unpacked ?s1 + sum_list (map te_size ?ws) \<le> lm_unpacked ?l" using sum by simp
  obtain s where s: "scan_entries env ?l ?key listed 2 ?ws End_Of_Tar ?s1 = (None, s)" "on_course ?l ?ps s"
      "set (ss_seen s) = set (map te_name ?ws) \<union> set (ss_seen ?s1)"
    using scan_entries_fitting [OF ready fit names apart course count unp] by blast
  have seen: "out_root @ pk_file p \<in> set (ss_seen s)" if "p \<in> set ?ps" for p
    using s(3) that unfolding files by (force simp: package_entry_def)
  have key: "ss_key s" using s(2,3) unfolding files by (force simp: on_course_def signature_entry_def)
  have "first_absent ?ps (ss_checked s) = None"
    using s(2) seen by (auto simp: first_absent_def find_None_iff on_course_def in_set_zip)
  then show ?thesis
    using readback listed(1) root s(1) key
    by (auto simp: scan_def Let_def reads_back_def hs)
qed

lemma verify_written:
  assumes "write_tar_gz wx ''out'' (map (package_entry content) (am_packages m) @ [signature_entry (vo_key opts)]) = Inr hs"
    and "\<forall>p \<in> set (am_packages m). plain_file (pk_file p) \<and> good_copy env p (content p)"
    and "calm_disk env" "within_limits (or_default (vo_limits opts)) (vo_key opts) (am_packages m) content"
    and "reads_back env (or_default (vo_limits opts)) hs input"
    and "\<forall>p \<in> set (am_packages m). fs (pk_file p) = None"
    and "vo_absolute opts" "vo_key opts \<noteq> []" "am_size m = int (length input)" "am_size m < max_int64"
    and "am_sha256 m = hex_encode (ve_sha256 env input)"
    and "vo_expected opts = '''' \<or> map lower_char (vo_expected opts) = am_sha256 m"
  shows "\<exists>cs fs'. verify env m opts None input fs = (Inr cs, fs')"
proof -
  have "int64 (am_size m + 1) = am_size m + 1" using assms(9,10) by (intro int64_id) auto
  then have whole: "take (nat (int64 (am_size m + 1))) input = input" using assms(9) by simp
  from scan_written [OF assms(1-6)] obtain cs fs' where "scan env m opts input fs = (Inr cs, fs')" by blast
  then have "verify env m opts None input fs = (Inr cs, fs')"
    using assms(7-9,11,12) by (auto simp: verify_def Let_def whole [unfolded assms(9)])
  then show ?thesis by blast
qed

end
