(* ===== verification/Report_Export.thy ===== *)
theory Report_Export
  imports Rank_Candidates Store_Settings
begin

text \<open>
  \<^verbatim>\<open>internal/report/{csv,summary,manifest}.go\<close>: the rows and the text of findings.csv, the text of
  summary.md, and the shape of manifest.json. \<^verbatim>\<open>encoding/csv\<close> is written out; dates come formatted. Text
  goes to a writer that may fail.
\<close>

subsection \<open>Rows\<close>

record findings_row =
  fw_dependency :: string
  fw_current :: string
  fw_selected :: string
  fw_package :: string
  fw_package_version :: string
  fw_id :: string
  fw_severity :: severity
  fw_status :: status
  fw_fixed :: string
  fw_title :: string

record resolution =
  rn_name :: string
  rn_current :: string
  rn_selected :: string
  rn_current_keys :: "string list"
  rn_selected_keys :: "string list"

definition row_of :: "resolution \<Rightarrow> status \<Rightarrow> finding \<Rightarrow> findings_row" where
  "row_of d st f = \<lparr>fw_dependency = rn_name d, fw_current = rn_current d, fw_selected = rn_selected d,
     fw_package = fd_package f, fw_package_version = fd_version f, fw_id = fd_id f, fw_severity = fd_severity f,
     fw_status = st, fw_fixed = fd_fixed f, fw_title = fd_title f\<rparr>"

definition change_rows :: "index \<Rightarrow> resolution \<Rightarrow> change \<Rightarrow> findings_row list" where
  "change_rows ix d c = (let keys = (if ch_status c = Fixed then rn_current_keys d else rn_selected_keys d) in
     concat (map (\<lambda>key. map (row_of d (ch_status c)) (filter (\<lambda>f. fd_id f = fd_id (ch_finding c)) (ix_get ix key))) keys))"

definition findings_rows :: "index \<Rightarrow> resolution list \<Rightarrow> findings_row list" where
  "findings_rows ix deps = concat (map (\<lambda>d. concat (map (change_rows ix d)
     (diff (finding_set ix (rn_current_keys d)) (finding_set ix (rn_selected_keys d))))) deps)"

definition findings_header :: "string list" where
  "findings_header = [''dependency'', ''current_version'', ''selected_version'', ''package'', ''package_version'',
     ''vulnerability_id'', ''severity'', ''status'', ''fixed_version'', ''title'']"

fun status_text :: "status \<Rightarrow> string" where
  "status_text Fixed = ''fixed''"
| "status_text Remaining = ''remaining''"
| "status_text Introduced = ''introduced''"

definition row_record :: "findings_row \<Rightarrow> string list" where
  "row_record r = [fw_dependency r, fw_current r, fw_selected r, fw_package r, fw_package_version r, fw_id r,
     severity_string (fw_severity r), status_text (fw_status r), fw_fixed r, fw_title r]"

definition cmp_row :: "findings_row \<Rightarrow> findings_row \<Rightarrow> int" where
  "cmp_row a b = cmp_or [go_compare (fw_dependency a) (fw_dependency b), go_compare (fw_id a) (fw_id b),
     go_compare (fw_package a) (fw_package b), go_compare (fw_package_version a) (fw_package_version b)]"

subsection \<open>CSV\<close>

abbreviation quote_char :: char where "quote_char \<equiv> CHR 0x22"
abbreviation line_feed :: char where "line_feed \<equiv> CHR 0x0A"
abbreviation carriage_return :: char where "carriage_return \<equiv> CHR 0x0D"

text \<open>\<^verbatim>\<open>unicode.IsSpace\<close> of the first rune, in UTF-8.\<close>

definition space_runes :: "string list" where
  "space_runes = map (map (char_of :: nat \<Rightarrow> char))
     ([[9], [10], [11], [12], [13], [32], [0xC2, 0x85], [0xC2, 0xA0], [0xE1, 0x9A, 0x80]]
      @ map (\<lambda>n. [0xE2, 0x80, n]) ([0x80..<0x8B] @ [0xA8, 0xA9, 0xAF]) @ [[0xE2, 0x81, 0x9F], [0xE3, 0x80, 0x80]])"

definition needs_quotes :: "string \<Rightarrow> bool" where
  "needs_quotes field \<longleftrightarrow> field \<noteq> '''' \<and> (field = [CHR 0x5C, CHR ''.'']
     \<or> list_ex (\<lambda>c. c \<in> {CHR '','', quote_char, carriage_return, line_feed}) field
     \<or> list_ex (\<lambda>r. has_prefix r field) space_runes)"

definition csv_field :: "string \<Rightarrow> string" where
  "csv_field field = (if needs_quotes field
     then [quote_char] @ concat (map (\<lambda>c. if c = quote_char then [c, c] else [c]) field) @ [quote_char] else field)"

definition csv_record :: "string list \<Rightarrow> string" where
  "csv_record fs = join_with '','' (map csv_field fs) @ [line_feed]"

definition findings_csv :: "findings_row list \<Rightarrow> string" where
  "findings_csv rows = concat (map csv_record (findings_header # map row_record (sort_func cmp_row rows)))"

text \<open>A reader of RFC 4180, the reference: the fields of a record so far, the field so far, and whether it is inside
  quotes or just after a quote in them.\<close>

datatype csv_mode = At_Start | In_Plain | In_Quotes | After_Quote

fun csv_read :: "csv_mode \<Rightarrow> string \<Rightarrow> string list \<Rightarrow> string \<Rightarrow> string list list option" where
  "csv_read m f fs [] = (if m = At_Start \<and> fs = [] then Some [] else if m = In_Quotes then None else Some [rev (rev f # fs)])"
| "csv_read m f fs (c # s) =
     (if m = In_Quotes then (if c = quote_char then csv_read After_Quote f fs s else csv_read In_Quotes (c # f) fs s)
      else if c = CHR '','' then csv_read At_Start [] (rev f # fs) s
      else if c = line_feed then map_option ((#) (rev (rev f # fs))) (csv_read At_Start [] [] s)
      else if m = At_Start \<and> c = quote_char then csv_read In_Quotes f fs s
      else if m = After_Quote then (if c = quote_char then csv_read In_Quotes (c # f) fs s else None)
      else if c = quote_char then None
      else csv_read In_Plain (c # f) fs s)"

lemma read_quoted: "csv_read In_Quotes f fs (concat (map (\<lambda>c. if c = quote_char then [c, c] else [c]) s) @ quote_char # t)
    = csv_read After_Quote (rev s @ f) fs t"
  by (induction s arbitrary: f) auto

lemma read_plain: "list_all (\<lambda>c. c \<noteq> CHR '','' \<and> c \<noteq> quote_char \<and> c \<noteq> line_feed) s \<Longrightarrow> m = At_Start \<or> m = In_Plain \<Longrightarrow>
    csv_read m f fs (s @ t) = csv_read (if s = [] then m else In_Plain) (rev s @ f) fs t"
proof (induction s arbitrary: m f)
  case (Cons c s)
  then have "csv_read m f fs ((c # s) @ t) = csv_read In_Plain (c # f) fs (s @ t)" by auto
  then show ?case using Cons by simp
qed simp

lemma read_field: "\<exists>m. m \<noteq> In_Quotes \<and> csv_read At_Start [] fs (csv_field field @ t) = csv_read m (rev field) fs t"
proof (cases "needs_quotes field")
  case True
  have "csv_read At_Start [] fs (csv_field field @ t) = csv_read After_Quote (rev field) fs t"
    using True read_quoted [of "[]" fs field t] by (simp add: csv_field_def)
  then show ?thesis by blast
next
  case False
  then have "field = '''' \<or> list_all (\<lambda>c. c \<noteq> CHR '','' \<and> c \<noteq> quote_char \<and> c \<noteq> line_feed) field"
    by (auto simp: needs_quotes_def list_ex_iff list_all_iff)
  then have "list_all (\<lambda>c. c \<noteq> CHR '','' \<and> c \<noteq> quote_char \<and> c \<noteq> line_feed) field" by auto
  then show ?thesis
    using False read_plain [of field At_Start "[]" fs t] by (auto simp: csv_field_def)
qed

lemma read_record_go: "fs \<noteq> [] \<Longrightarrow> csv_read At_Start [] acc (join_with '','' (map csv_field fs) @ line_feed # t)
    = map_option ((#) (rev acc @ fs)) (csv_read At_Start [] [] t)"
proof (induction fs arbitrary: acc rule: induct_list012)
  case (2 x)
  obtain m where "m \<noteq> In_Quotes" "csv_read At_Start [] acc (csv_field x @ line_feed # t) = csv_read m (rev x) acc (line_feed # t)"
    using read_field by blast
  then show ?case by simp
next
  case (3 x y zs)
  obtain m where "m \<noteq> In_Quotes" "csv_read At_Start [] acc (csv_field x @ '','' @ join_with '','' (map csv_field (y # zs)) @ line_feed # t)
      = csv_read m (rev x) acc ('','' @ join_with '','' (map csv_field (y # zs)) @ line_feed # t)"
    using read_field by blast
  then show ?case using "3.IH"(2) [of "x # acc"] by simp
qed simp

lemma read_records: "list_all (\<lambda>r. r \<noteq> []) rs \<Longrightarrow> csv_read At_Start [] [] (concat (map csv_record rs)) = Some rs"
  by (induction rs) (auto simp: csv_record_def read_record_go)

lemma row_record_not_Nil [simp]: "row_record r \<noteq> []"
  by (simp add: row_record_def)

interpretation row: comparator cmp_row
  unfolding cmp_row_def [abs_def] by (intro comparator_or_Cons comparator_or_Nil comparator_key)

subsection \<open>summary.md\<close>

record dependency_change =
  dh_name :: string
  dh_current :: string
  dh_selected :: string
  dh_before :: vector
  dh_after :: vector

record signal_note =
  no_dependency :: string
  no_version :: string
  no_signal :: string
  no_evidence :: string

text \<open>The two dates are those formatted texts; \<open>so_\<close> for the fields of a \<^verbatim>\<open>Summary\<close>.\<close>

record export_summary =
  so_analysis_date :: string
  so_trivy_date :: string
  so_trivy :: string
  so_tool :: string
  so_target :: platform_target
  so_before :: vector
  so_after :: "vector option"
  so_dependencies :: "dependency_change list"
  so_critical :: "finding list"
  so_high :: "finding list"
  so_signals :: "signal_note list"
  so_size :: int
  so_sha256 :: string
  so_count :: int

text \<open>A writer answers its n-th call with the bytes it took and an error, if any. \<^verbatim>\<open>errWriter\<close>
  remembers the first error and writes nothing after it.\<close>

record err_writer =
  ew_calls :: nat
  ew_text :: string
  ew_err :: "string option"

type_synonym writer = "nat \<Rightarrow> string \<Rightarrow> nat \<times> string option"

definition ew_write :: "writer \<Rightarrow> string \<Rightarrow> err_writer \<Rightarrow> err_writer" where
  "ew_write w p e = (if ew_err e \<noteq> None then e
     else (case w (ew_calls e) p of (n, err) \<Rightarrow>
       e\<lparr>ew_calls := Suc (ew_calls e), ew_text := ew_text e @ take n p, ew_err := err\<rparr>))"

definition println :: "string \<Rightarrow> string" where
  "println s = s @ [CHR 0x0A]"

definition show_signed :: "int \<Rightarrow> string" where
  "show_signed d = (if d < 0 then show_int d else ''+'' @ show_int d)"

text \<open>The loop over the five severities, with the text so far.\<close>

fun delta_step :: "string \<Rightarrow> (int \<times> int) \<times> string \<Rightarrow> string" where
  "delta_step s ((b, a), name) = (let d = a - b in
     if d \<noteq> 0 then (if s \<noteq> '''' then s @ '', '' else s) @ show_signed d @ '' '' @ name else s)"

definition vector_delta :: "vector \<Rightarrow> vector \<Rightarrow> string" where
  "vector_delta before after = (let s = foldl delta_step '''' (zip (zip before after) severity_names) in
     if s = '''' then ''no change'' else s)"

definition finding_line :: "string \<Rightarrow> finding \<Rightarrow> string" where
  "finding_line label f = println (''- ['' @ label @ ''] '' @ fd_id f @ '' in '' @ fd_package f @ ''@'' @ fd_version f
     @ '': '' @ fd_title f)"

definition finding_list :: "finding list \<Rightarrow> finding list \<Rightarrow> string list" where
  "finding_list critical high = (if critical = [] \<and> high = [] then [println ''None.'']
     else map (finding_line ''critical'') critical @ map (finding_line ''high'') high)"

definition vector_row :: "string \<Rightarrow> vector \<Rightarrow> string" where
  "vector_row label v = println (''| '' @ label @ concat (map (\<lambda>n. '' | '' @ show_int n) v) @ '' |'')"

text \<open>What each call of \<^verbatim>\<open>Fprintf\<close> and \<^verbatim>\<open>Fprintln\<close> writes, in order.\<close>

definition summary_head :: "export_summary \<Rightarrow> string list" where
  "summary_head s = [println ''# Export summary'', println '''',
     println (''- Analysis date: '' @ so_analysis_date s),
     println (''- Trivy DB date: '' @ so_trivy_date s),
     println (''- Trivy version: '' @ so_trivy s),
     println (''- Tool version: '' @ so_tool s),
     println (''- Target: '' @ pt_os (so_target s) @ ''/'' @ pt_cpu (so_target s) @ '' '' @ pt_libc (so_target s)
       @ '', Node '' @ pt_node (so_target s) @ '', pnpm '' @ pt_pnpm (so_target s)),
     println '''']"

definition summary_counts :: "export_summary \<Rightarrow> string list" where
  "summary_counts s = [println ''## CVE counts'', println '''',
     println ''| | Critical | High | Medium | Low | Unknown |'',
     println ''| --- | --- | --- | --- | --- | --- |'',
     vector_row ''Before'' (so_before s),
     (case so_after s of Some v \<Rightarrow> vector_row ''After'' v
      | None \<Rightarrow> println ''| After | the combined check did not run | | | | |''),
     println '''']"

definition summary_dependencies :: "export_summary \<Rightarrow> string list" where
  "summary_dependencies s = [println ''## Updated dependencies'', println '''']
     @ (if so_dependencies s = [] then [println ''None.'']
        else [println ''| Dependency | Current | Selected | CVE change |'', println ''| --- | --- | --- | --- |'']
          @ map (\<lambda>d. println (''| '' @ dh_name d @ '' | '' @ dh_current d @ '' | '' @ dh_selected d @ '' | ''
              @ vector_delta (dh_before d) (dh_after d) @ '' |'')) (so_dependencies s))
     @ [println '''']"

definition summary_signals :: "export_summary \<Rightarrow> string list" where
  "summary_signals s = [println ''## Non-blocking signals on selected versions'', println '''']
     @ (if so_signals s = [] then [println ''None.'']
        else map (\<lambda>n. println (''- '' @ no_dependency n @ '' '' @ no_version n @ '': '' @ no_signal n
              @ '' ('' @ no_evidence n @ '')'')) (so_signals s))
     @ [println '''']"

definition summary_lines :: "export_summary \<Rightarrow> string list" where
  "summary_lines s = summary_head s @ summary_counts s @ summary_dependencies s
     @ [println ''## Remaining critical and high CVEs'', println '''']
     @ finding_list (so_critical s) (so_high s) @ [println '''']
     @ summary_signals s
     @ [println ''## Archive'', println '''',
        println (''- Size: '' @ show_int (so_size s) @ '' bytes''),
        println (''- SHA-256: '' @ so_sha256 s),
        println (''- Packages: '' @ show_int (so_count s))]"

definition write_summary :: "writer \<Rightarrow> export_summary \<Rightarrow> err_writer" where
  "write_summary w s = fold (ew_write w) (summary_lines s) \<lparr>ew_calls = 0, ew_text = '''', ew_err = None\<rparr>"

lemma ew_write_stops: "ew_err e \<noteq> None \<Longrightarrow> fold (ew_write w) ps e = e"
  by (induction ps) (auto simp: ew_write_def)

text \<open>What \<^verbatim>\<open>io.Writer\<close> demands: less than all of a piece comes with an error.\<close>

definition full_writes :: "writer \<Rightarrow> bool" where
  "full_writes w \<longleftrightarrow> (\<forall>n p m. w n p = (m, None) \<longrightarrow> m = length p)"

text \<open>The n-th of the pieces is the first the writer refuses.\<close>

definition refused_at :: "writer \<Rightarrow> nat \<Rightarrow> string list \<Rightarrow> nat \<Rightarrow> nat \<Rightarrow> string \<Rightarrow> bool" where
  "refused_at w c ps k m err \<longleftrightarrow> k < length ps \<and> w (c + k) (ps ! k) = (m, Some err)
     \<and> (\<forall>j < k. snd (w (c + j) (ps ! j)) = None)"

definition wrote_all :: "writer \<Rightarrow> nat \<Rightarrow> string list \<Rightarrow> bool" where
  "wrote_all w c ps \<longleftrightarrow> (\<forall>j < length ps. snd (w (c + j) (ps ! j)) = None)"

lemma refused_Suc: "snd (w c p) = None \<Longrightarrow> refused_at w (Suc c) ps k m err \<Longrightarrow> refused_at w c (p # ps) (Suc k) m err"
  by (auto simp: refused_at_def less_Suc_eq_0_disj)

lemma wrote_all_Cons: "wrote_all w c (p # ps) \<longleftrightarrow> snd (w c p) = None \<and> wrote_all w (Suc c) ps"
  by (auto simp: wrote_all_def less_Suc_eq_0_disj)

lemma fold_ew_write:
  assumes "full_writes w"
  shows "ew_err e = None \<Longrightarrow> r = fold (ew_write w) ps e \<Longrightarrow>
    wrote_all w (ew_calls e) ps \<and> ew_err r = None \<and> ew_text r = ew_text e @ concat ps
    \<or> (\<exists>k m err. refused_at w (ew_calls e) ps k m err \<and> ew_err r = Some err
        \<and> ew_text r = ew_text e @ concat (take k ps) @ take m (ps ! k) \<and> ew_calls r = ew_calls e + Suc k)"
proof (induction ps arbitrary: e)
  case (Cons p ps)
  obtain m err where wp: "w (ew_calls e) p = (m, err)" by fastforce
  let ?e = "e\<lparr>ew_calls := Suc (ew_calls e), ew_text := ew_text e @ take m p, ew_err := err\<rparr>"
  have e: "ew_write w p e = ?e" using wp Cons.prems by (simp add: ew_write_def)
  show ?case
  proof (cases err)
    case (Some x)
    then have "r = ?e" using Cons.prems e ew_write_stops [of ?e w ps] by simp
    then have "refused_at w (ew_calls e) (p # ps) 0 m x \<and> ew_err r = Some x
        \<and> ew_text r = ew_text e @ concat (take 0 (p # ps)) @ take m ((p # ps) ! 0) \<and> ew_calls r = ew_calls e + Suc 0"
      using wp Some by (simp add: refused_at_def)
    then show ?thesis by blast
  next
    case None
    then have m: "m = length p" and ok: "snd (w (ew_calls e) p) = None" using assms wp by (auto simp: full_writes_def)
    have "r = fold (ew_write w) ps ?e" "ew_err ?e = None" using Cons.prems e None by simp_all
    from Cons.IH [OF this(2,1)] show ?thesis
    proof
      assume "wrote_all w (ew_calls ?e) ps \<and> ew_err r = None \<and> ew_text r = ew_text ?e @ concat ps"
      then show ?thesis using ok m by (simp add: wrote_all_Cons)
    next
      assume "\<exists>k n x. refused_at w (ew_calls ?e) ps k n x \<and> ew_err r = Some x
        \<and> ew_text r = ew_text ?e @ concat (take k ps) @ take n (ps ! k) \<and> ew_calls r = ew_calls ?e + Suc k"
      then obtain k n x where k: "refused_at w (Suc (ew_calls e)) ps k n x" "ew_err r = Some x"
        "ew_text r = ew_text e @ concat (take (Suc k) (p # ps)) @ take n ((p # ps) ! Suc k)"
        "ew_calls r = ew_calls e + Suc (Suc k)"
        using m by auto
      then show ?thesis using refused_Suc [OF ok k(1)] by blast
    qed
  qed
qed (simp add: wrote_all_def)

subsection \<open>The rows of a diff\<close>

definition ids_under :: "index \<Rightarrow> string list \<Rightarrow> string set" where
  "ids_under ix keys = {fd_id f |f key. key \<in> set keys \<and> f \<in> set (ix_get ix key)}"

lemma finding_set_none: "gm_get (finding_set ix keys) k = None \<longleftrightarrow> k \<notin> ids_under ix keys"
  using finding_set_worst(2) [of ix keys k]
  by (auto simp: worst_of_def ids_under_def split: option.splits)

text \<open>The status of a vulnerability of a dependency, as the readers of findings.csv are told.\<close>

definition status_at :: "index \<Rightarrow> resolution \<Rightarrow> string \<Rightarrow> status option" where
  "status_at ix d k =
     (if k \<in> ids_under ix (rn_selected_keys d)
      then Some (if k \<in> ids_under ix (rn_current_keys d) then Remaining else Introduced)
      else if k \<in> ids_under ix (rn_current_keys d) then Some Fixed else None)"

definition status_keys :: "resolution \<Rightarrow> status \<Rightarrow> string list" where
  "status_keys d st = (if st = Fixed then rn_current_keys d else rn_selected_keys d)"

lemma change_at_status:
  "(\<exists>c. change_at (finding_set ix (rn_current_keys d)) (finding_set ix (rn_selected_keys d)) k = Some c
      \<and> ch_status c = st) \<longleftrightarrow> status_at ix d k = Some st"
  using finding_set_none [of ix "rn_current_keys d" k] finding_set_none [of ix "rn_selected_keys d" k]
  by (auto simp: change_at_def status_at_def split: option.splits)

lemma change_at_id:
  assumes "change_at (finding_set ix ks) (finding_set ix ls) k = Some c"
  shows "fd_id (ch_finding c) = k"
  using assms finding_set_worst(2) [of ix ks k] finding_set_worst(2) [of ix ls k]
  by (auto simp: change_at_def worst_of_def split: option.splits)

lemma change_rows_set: "set (change_rows ix d c)
    = {row_of d (ch_status c) f |f key. key \<in> set (status_keys d (ch_status c)) \<and> f \<in> set (ix_get ix key) \<and> fd_id f = fd_id (ch_finding c)}"
  by (auto simp: change_rows_def status_keys_def)

lemma findings_rows_of:
  "set (concat (map (change_rows ix d) (diff (finding_set ix (rn_current_keys d)) (finding_set ix (rn_selected_keys d)))))
   = {row_of d st f |st f key. status_at ix d (fd_id f) = Some st \<and> key \<in> set (status_keys d st) \<and> f \<in> set (ix_get ix key)}"
    (is "set (concat (map _ (diff ?b ?a))) = ?r")
proof (intro set_eqI iffI)
  note members = diff_members [OF finding_set_worst(1) finding_set_worst(1)]
  fix r assume "r \<in> set (concat (map (change_rows ix d) (diff ?b ?a)))"
  then obtain c k where c: "change_at ?b ?a k = Some c" "r \<in> set (change_rows ix d c)"
    by (auto simp: members)
  then have "status_at ix d k = Some (ch_status c)" using change_at_status by blast
  moreover obtain f key where "r = row_of d (ch_status c) f" "key \<in> set (status_keys d (ch_status c))"
    "f \<in> set (ix_get ix key)" "fd_id f = k"
    using c(2) change_at_id [OF c(1)] by (auto simp: change_rows_set)
  ultimately show "r \<in> ?r" by blast
next
  note members = diff_members [OF finding_set_worst(1) finding_set_worst(1)]
  fix r assume "r \<in> ?r"
  then obtain st f key where r: "r = row_of d st f" "status_at ix d (fd_id f) = Some st"
    "key \<in> set (status_keys d st)" "f \<in> set (ix_get ix key)" by blast
  obtain c where c: "change_at ?b ?a (fd_id f) = Some c" "ch_status c = st"
    using r(2) change_at_status by blast
  have "r \<in> set (change_rows ix d c)"
    using r c(2) change_at_id [OF c(1)] by (auto simp: change_rows_set)
  then show "r \<in> set (concat (map (change_rows ix d) (diff ?b ?a)))" using c(1) members by auto
qed

subsection \<open>Properties\<close>

text \<open>C38. findings.csv reads back, by the rules of RFC 4180, as its header and then every row, field by
  field, in the order of dependency, vulnerability, package and version, whatever characters the
  titles and names hold. And the rows of an export are exactly the affected packages of each
  dependency: a package of the current keys for a vulnerability the update fixes, one of the selected
  keys for a vulnerability that remains or is introduced.\<close>

theorem findings_csv_reads_back:
  "(\<exists>sorted. csv_read At_Start [] [] (findings_csv (findings_rows ix deps)) = Some (findings_header # map row_record sorted)
      \<and> mset sorted = mset (findings_rows ix deps) \<and> sorted_wrt (\<lambda>a b. cmp_row a b \<le> 0) sorted)
    \<and> set (findings_rows ix deps) = {row_of d st f |d st f key. d \<in> set deps \<and> status_at ix d (fd_id f) = Some st
        \<and> key \<in> set (status_keys d st) \<and> f \<in> set (ix_get ix key)}"
proof (intro conjI exI)
  have "list_all (\<lambda>r. r \<noteq> []) (findings_header # map row_record (sort_func cmp_row (findings_rows ix deps)))"
    by (simp add: findings_header_def list_all_iff)
  then show "csv_read At_Start [] [] (findings_csv (findings_rows ix deps)) = Some (findings_header # map row_record (sort_func cmp_row (findings_rows ix deps)))"
    unfolding findings_csv_def by (rule read_records)
  show "sorted_wrt (\<lambda>a b. cmp_row a b \<le> 0) (sort_func cmp_row (findings_rows ix deps))" by (rule row.sorted_sort_func)
  show "set (findings_rows ix deps) = {row_of d st f |d st f key. d \<in> set deps \<and> status_at ix d (fd_id f) = Some st
        \<and> key \<in> set (status_keys d st) \<and> f \<in> set (ix_get ix key)}"
    unfolding findings_rows_def set_concat set_map
    using findings_rows_of [of ix] by (simp add: image_image) blast
qed simp

text \<open>WriteSummary answers no error exactly when the writer took every piece of the summary, and then
  the text is complete. At the first piece it refuses WriteSummary answers that error, and writes nothing
  after it.\<close>

theorem summary_stops_at_error:
  assumes "full_writes w"
  shows "wrote_all w 0 (summary_lines s) \<and> ew_err (write_summary w s) = None
      \<and> ew_text (write_summary w s) = concat (summary_lines s)
    \<or> (\<exists>k m err. refused_at w 0 (summary_lines s) k m err
        \<and> ew_err (write_summary w s) = Some err
        \<and> ew_text (write_summary w s) = concat (take k (summary_lines s)) @ take m (summary_lines s ! k)
        \<and> ew_calls (write_summary w s) = Suc k)"
  using fold_ew_write [where w = w and e = "\<lparr>ew_calls = 0, ew_text = [], ew_err = None\<rparr>" and r = "write_summary w s"
      and ps = "summary_lines s", OF assms]
  by (simp add: write_summary_def)

definition sample_summary :: export_summary where
  "sample_summary = \<lparr>so_analysis_date = ''2025-01-02T03:04:05Z'', so_trivy_date = ''2025-01-01'', so_trivy = ''0.58.1'',
     so_tool = ''1.0.0'', so_target = se_target default_settings, so_before = [1, 0, 0, 0, 0], so_after = None,
     so_dependencies = [\<lparr>dh_name = ''ms'', dh_current = ''2.1.2'', dh_selected = ''2.1.3'',
       dh_before = [1, 0, 0, 0, 0], dh_after = [0, 2, 0, 0, 0]\<rparr>],
     so_critical = [], so_high = [], so_signals = [], so_size = 10, so_sha256 = ''00'', so_count = 1\<rparr>"

text \<open>A disk with room for two lines and seven bytes more.\<close>

definition short_disk :: writer where
  "short_disk n p = (if n < 2 then (length p, None) else (7, Some ''disk full''))"

theorem summary_stops_at_error_witness:
  "\<exists>k m err. refused_at short_disk 0 (summary_lines sample_summary) k m err"
proof -
  have w: "full_writes short_disk" by (simp add: full_writes_def short_disk_def)
  have "2 < length (summary_lines sample_summary)" by code_simp
  then have "\<not> wrote_all short_disk 0 (summary_lines sample_summary)"
    by (auto simp: wrote_all_def short_disk_def intro!: exI [of _ "2::nat"])
  then show ?thesis using summary_stops_at_error [OF w, of sample_summary] by blast
qed

end
