(* ===== verification/Export_Download.thy ===== *)
theory Export_Download
  imports Jobs_Analysis Go_Paths Archive_Write Report_Export
begin

text \<open>
  \<^verbatim>\<open>internal/jobs/export.go\<close>, its first two steps: the packages an export ships, and their download into the
  cache of tarballs. The downloads run at the same time; a worker is a phase, a step takes one worker from one
  phase to the next over the shared files, and a schedule says which worker steps. The files of the volume are
  one map from paths to bytes; the registry, the disk and the context answer through a record.
\<close>

subsection \<open>State and surroundings\<close>

datatype export_error = Signature_Key_Missing | Unknown_Selection "string list" | Tampered string | Export_Failed string

record export_job =
  xj_root :: string
  xj_dir :: string
  xj_target :: platform_target
  xj_settings :: settings
  xj_analysis :: string
  xj_analysis_dir :: string
  xj_result :: analysis_result
  xj_selection :: "(string, string list) gomap"
  xj_project :: bool

text \<open>\<^verbatim>\<open>xe_fault\<close> gives the error of an operation of the file system, by its name here and its path;
  \<^verbatim>\<open>xe_ctx\<close> the error of the context where the code asks for it.\<close>

record analysis_summary =
  as_created :: string
  as_trivy :: string
  as_trivy_db :: string

record export_env =
  xe_lockfile :: "string \<Rightarrow> string + string + raw_lockfile"
  xe_fault :: "string \<Rightarrow> string \<Rightarrow> string option"
  xe_ctx :: "string \<Rightarrow> nat \<Rightarrow> string option"
  xe_hash :: "hash_alg \<Rightarrow> bytes \<Rightarrow> bytes"
  xe_sha256 :: "bytes \<Rightarrow> bytes"
  xe_attempts :: int
  xe_waited :: "string \<Rightarrow> nat \<Rightarrow> bool"
  xe_ended :: "string \<Rightarrow> nat \<Rightarrow> bool"
  xe_fetches :: "string \<Rightarrow> nat \<Rightarrow> fetch"
  xe_removed :: "string \<Rightarrow> bool"
  xe_schedule :: "nat list"
  xe_tar_bytes :: "tball_entry list \<Rightarrow> bytes"
  xe_partial :: "string \<Rightarrow> bytes"
  xe_archive_bytes :: "tar_entry list \<Rightarrow> bytes"
  xe_write_faults :: write_faults
  xe_scan :: scan_answer
  xe_convert :: "string option"
  xe_candidates :: "string + string + trivy_report"
  xe_status :: "string + analysis_summary"
  xe_writer :: writer
  xe_evidence :: "evidence \<Rightarrow> string"
  xe_now :: string
  xe_tool :: string

subsection \<open>The selection\<close>

definition selected_versions :: "(string, string list) gomap \<Rightarrow> string \<Rightarrow> string list" where
  "selected_versions sel name = (case gm_get sel name of None \<Rightarrow> [] | Some vs \<Rightarrow> vs)"

definition valid_selections :: "analysis_result \<Rightarrow> string list" where
  "valid_selections r = concat (map (\<lambda>d. (dr_name d @ ''@'' @ dr_current d)
     # map (\<lambda>c. dr_name d @ ''@'' @ da_version c) (dr_candidates d)) (an_dependencies r))"

definition validate_selection :: "analysis_result \<Rightarrow> (string, string list) gomap \<Rightarrow> string list" where
  "validate_selection r sel = concat (map (\<lambda>name. filter (\<lambda>k. k \<notin> set (valid_selections r))
     (map (\<lambda>v. name @ ''@'' @ v) (selected_versions sel name))) (sorted_keys sel))"

definition selects_any_version :: "(string, string list) gomap \<Rightarrow> bool" where
  "selects_any_version sel = list_ex (\<lambda>e. snd e \<noteq> []) sel"

subsection \<open>The packages\<close>

definition candidate_lockfile_path :: "export_job \<Rightarrow> string \<Rightarrow> string \<Rightarrow> string" where
  "candidate_lockfile_path j name version =
     path_join [xj_analysis_dir j, ''candidates'', name @ ''@'' @ version, ''pnpm-lock.yaml'']"

definition project_lockfile_path :: "export_job \<Rightarrow> string" where
  "project_lockfile_path j = path_join [xj_analysis_dir j, ''project'', ''pnpm-lock.yaml'']"

definition read_lockfile :: "export_env \<Rightarrow> string \<Rightarrow> export_error + lock_package list" where
  "read_lockfile env path = (case xe_lockfile env path of
     Inl e \<Rightarrow> Inl (Export_Failed (''jobs: read '' @ path @ '': '' @ e))
   | Inr decoded \<Rightarrow> (case parse_lockfile decoded of
       Inl e \<Rightarrow> Inl (Export_Failed (''jobs: '' @ path @ '': '' @ e))
     | Inr pkgs \<Rightarrow> Inr pkgs))"

definition add_package :: "(string, lock_package) gomap \<Rightarrow> lock_package \<Rightarrow> (string, lock_package) gomap" where
  "add_package m p = (if gm_has m (lp_key p) then m else gm_put (lp_key p) p m)"

definition add_lockfile :: "platform \<Rightarrow> (string, lock_package) gomap \<Rightarrow> lock_package list \<Rightarrow> (string, lock_package) gomap" where
  "add_lockfile pl m pkgs = foldl add_package m (filter_platform pl pkgs)"

text \<open>The lockfiles in the order they are read.\<close>

definition lockfile_paths :: "export_job \<Rightarrow> string list" where
  "lockfile_paths j = concat (map (\<lambda>name. map (candidate_lockfile_path j name) (selected_versions (xj_selection j) name))
     (sorted_keys (xj_selection j))) @ (if xj_project j then [project_lockfile_path j] else [])"

fun add_lockfiles :: "export_env \<Rightarrow> platform \<Rightarrow> (string, lock_package) gomap \<Rightarrow> string list
    \<Rightarrow> export_error + (string, lock_package) gomap" where
  "add_lockfiles env pl m [] = Inr m"
| "add_lockfiles env pl m (path # paths) =
     try_bind (read_lockfile env path) (\<lambda>pkgs. add_lockfiles env pl (add_lockfile pl m pkgs) paths)"

definition package_list :: "export_env \<Rightarrow> export_job \<Rightarrow> export_error + lock_package list" where
  "package_list env j = (let bad = validate_selection (xj_result j) (xj_selection j) in
     if bad \<noteq> [] then Inl (Unknown_Selection bad)
     else try_bind (add_lockfiles env (platform_of (xj_target j)) [] (lockfile_paths j)) (\<lambda>m.
       Inr (map (\<lambda>k. the (gm_get m k)) (sorted_keys m))))"

subsection \<open>What is shipped\<close>

lemma add_package_get: "gm_get (add_package m p) k = (if lp_key p = k \<and> gm_get m k = None then Some p else gm_get m k)"
  by (auto simp: add_package_def gm_has_def)

lemma add_packages_get: "gm_get (foldl add_package m ps) k =
    (case gm_get m k of Some p \<Rightarrow> Some p | None \<Rightarrow> find (\<lambda>p. lp_key p = k) ps)"
  by (induction ps arbitrary: m) (auto simp: add_package_get split: option.splits)

lemma add_packages_ok: "gm_ok m \<Longrightarrow> gm_ok (foldl add_package m ps)"
  by (induction ps arbitrary: m) (auto simp: add_package_def)

lemma add_lockfiles_Inr: "add_lockfiles env pl m paths = Inr m' \<longleftrightarrow>
    (\<exists>locks. map_err (read_lockfile env) paths = Inr locks \<and> m' = foldl add_package m (concat (map (filter_platform pl) locks)))"
  by (induction paths arbitrary: m) (auto simp: try_bind_Inr add_lockfile_def)

definition shipped_set :: "export_env \<Rightarrow> export_job \<Rightarrow> lock_package list list \<Rightarrow> lock_package list \<Rightarrow> bool" where
  "shipped_set env j locks pkgs \<longleftrightarrow> sorted_wrt (<) (map lp_key pkgs)
     \<and> (\<forall>p. p \<in> set pkgs \<longleftrightarrow> find (\<lambda>q. lp_key q = lp_key p) (concat (map (filter_platform (platform_of (xj_target j))) locks)) = Some p)"

lemma validate_selection_Nil: "validate_selection r sel = [] \<longleftrightarrow>
    (\<forall>name v. v \<in> set (selected_versions sel name) \<longrightarrow> name @ ''@'' @ v \<in> set (valid_selections r))"
proof -
  have "name \<in> set (sorted_keys sel)" if "v \<in> set (selected_versions sel name)" for name v
  proof -
    from that obtain vs where "gm_get sel name = Some vs" by (cases "gm_get sel name") (auto simp: selected_versions_def)
    then show ?thesis by (auto simp: sorted_keys_def gm_get_def dest!: map_of_SomeD intro: rev_image_eqI)
  qed
  moreover have "validate_selection r sel = [] \<longleftrightarrow> (\<forall>name \<in> set (sorted_keys sel).
      \<forall>v \<in> set (selected_versions sel name). name @ ''@'' @ v \<in> set (valid_selections r))"
    by (simp add: validate_selection_def filter_empty_conv)
  ultimately show ?thesis by blast
qed

lemma packages_of_map:
  assumes "gm_ok m" and keys: "\<And>k p. gm_get m k = Some p \<Longrightarrow> lp_key p = k"
  shows "sorted_wrt (<) (map lp_key (map (\<lambda>k. the (gm_get m k)) (sorted_keys m)))
      \<and> (\<forall>p. p \<in> set (map (\<lambda>k. the (gm_get m k)) (sorted_keys m)) \<longleftrightarrow> gm_get m (lp_key p) = Some p)"
proof -
  have get: "gm_get m k \<noteq> None \<longleftrightarrow> k \<in> set (sorted_keys m)" for k
    by (simp add: sorted_keys_def gm_get_def map_of_eq_None_iff)
  have "map lp_key (map (\<lambda>k. the (gm_get m k)) (sorted_keys m)) = sorted_keys m"
    by (rule trans [OF map_map map_idI]) (use get keys in fastforce)
  moreover have "p \<in> set (map (\<lambda>k. the (gm_get m k)) (sorted_keys m)) \<longleftrightarrow> gm_get m (lp_key p) = Some p" for p
  proof
    assume p: "gm_get m (lp_key p) = Some p"
    have "lp_key p \<in> set (sorted_keys m)" by (rule iffD1 [OF get]) (simp add: p)
    then show "p \<in> set (map (\<lambda>k. the (gm_get m k)) (sorted_keys m))" using p by (simp add: image_iff) force
  next
    assume "p \<in> set (map (\<lambda>k. the (gm_get m k)) (sorted_keys m))"
    then obtain k where k: "k \<in> set (sorted_keys m)" "p = the (gm_get m k)" by auto
    then have "gm_get m k = Some p" using get [of k] by force
    then show "gm_get m (lp_key p) = Some p" using keys by simp
  qed
  ultimately show ?thesis using sorted_keys_sorted [OF assms(1)] by simp
qed

lemma shipped_set_unique:
  assumes "shipped_set env j locks ps" "shipped_set env j locks qs"
  shows "ps = qs"
proof (rule map_sorted_distinct_set_unique [where f = lp_key])
  show "set ps = set qs" using assms by (auto simp: shipped_set_def)
  then show "inj_on lp_key (set ps \<union> set qs)" using assms by (auto simp: shipped_set_def inj_on_def)
qed (use assms in \<open>simp_all add: shipped_set_def strict_sorted_iff\<close>)

lemma package_list_Inr: "package_list env j = Inr pkgs \<longleftrightarrow> validate_selection (xj_result j) (xj_selection j) = []
    \<and> (\<exists>locks. map_err (read_lockfile env) (lockfile_paths j) = Inr locks \<and> shipped_set env j locks pkgs)"
proof -
  let ?of = "\<lambda>m :: (string, lock_package) gomap. map (\<lambda>k. the (gm_get m k)) (sorted_keys m)"
  have ok: "shipped_set env j locks (?of (foldl add_package [] (concat (map (filter_platform (platform_of (xj_target j))) locks))))" for locks
  proof -
    let ?ps = "concat (map (filter_platform (platform_of (xj_target j))) locks)"
    have get: "gm_get (foldl add_package [] ?ps) k = find (\<lambda>q. lp_key q = k) ?ps" for k
      by (simp only: add_packages_get gm_get_Nil option.case)
    have "gm_ok (foldl add_package [] ?ps)" by (intro add_packages_ok gm_ok_Nil)
    moreover have "lp_key p = k" if "gm_get (foldl add_package [] ?ps) k = Some p" for k p
      using that unfolding get find_Some_iff by blast
    ultimately have "sorted_wrt (<) (map lp_key (?of (foldl add_package [] ?ps)))
        \<and> (\<forall>p. p \<in> set (?of (foldl add_package [] ?ps)) \<longleftrightarrow> gm_get (foldl add_package [] ?ps) (lp_key p) = Some p)"
      by (rule packages_of_map)
    then show ?thesis unfolding shipped_set_def get .
  qed
  have "package_list env j = Inr pkgs \<longleftrightarrow> validate_selection (xj_result j) (xj_selection j) = []
      \<and> (\<exists>locks. map_err (read_lockfile env) (lockfile_paths j) = Inr locks
          \<and> pkgs = ?of (foldl add_package [] (concat (map (filter_platform (platform_of (xj_target j))) locks))))"
    by (cases "validate_selection (xj_result j) (xj_selection j) = []")
      (auto simp add: package_list_def try_bind_Inr add_lockfiles_Inr simp del: map_err_Inr)
  moreover have "pkgs = ?of (foldl add_package [] (concat (map (filter_platform (platform_of (xj_target j))) locks)))
      \<longleftrightarrow> shipped_set env j locks pkgs" for locks
    using ok [of locks] shipped_set_unique by blast
  ultimately show ?thesis by simp
qed

text \<open>C18. An export packs a list exactly when every selected version is the current one or a candidate of the
  analysis and every lockfile of the selection, and the project's when asked for, is read; the list is then the
  packages npm would install on the target, one per name and version, in strictly ascending order of that key,
  as the first lockfile that holds it has it.\<close>

theorem package_list_exact: "package_list env j = Inr pkgs \<longleftrightarrow>
    (\<forall>name v. v \<in> set (selected_versions (xj_selection j) name) \<longrightarrow> name @ ''@'' @ v \<in> set (valid_selections (xj_result j)))
    \<and> (\<exists>locks. map_err (read_lockfile env) (lockfile_paths j) = Inr locks \<and> sorted_wrt (<) (map lp_key pkgs)
        \<and> (\<forall>p. p \<in> set pkgs \<longleftrightarrow>
             find (\<lambda>q. lp_key q = lp_key p) (concat (map (filter_platform (platform_of (xj_target j))) locks)) = Some p))"
  unfolding package_list_Inr validate_selection_Nil shipped_set_def by (rule refl)

subsection \<open>One download\<close>

record downloaded =
  dd_pkg :: lock_package
  dd_path :: string
  dd_sha512 :: string

datatype export_event = Export_Step step_row | Export_Progress nat nat nat

definition cache_path :: "export_job \<Rightarrow> string \<Rightarrow> string" where
  "cache_path j key = path_join [xj_root j, ''cache'', ''tarballs'', key @ ''.tgz'']"

definition download_path :: "export_job \<Rightarrow> lock_package \<Rightarrow> string" where
  "download_path j p = path_join [xj_dir j, ''downloads'', path_escape (lp_name p) @ ''@'' @ lp_version p @ ''.tgz'']"

definition sha512_cache_key :: "string \<Rightarrow> string option" where
  "sha512_cache_key integrity = (case go_fields integrity of [] \<Rightarrow> None
     | field # _ \<Rightarrow> (case cut CHR ''-'' field of (algo, encoded, ok) \<Rightarrow>
         if \<not> ok \<or> algo \<noteq> ''sha512'' then None
         else map_option hex_encode (b64_decode encoded)))"

text \<open>None when the file cannot be read or is no regular file.\<close>

definition file_sha512 :: "export_env \<Rightarrow> files \<Rightarrow> string \<Rightarrow> string option" where
  "file_sha512 env fs path = (if xe_fault env ''hash'' path \<noteq> None then None
     else map_option (\<lambda>b. hex_encode (xe_hash env Sha512 b)) (fs path))"

text \<open>Where a worker is. The counters are three atomic operations, and the event is sent after them.\<close>

datatype dl_phase = Dl_Cache | Dl_Drop string | Dl_Fetch | Dl_Store string
  | Dl_Hits downloaded bool | Dl_Count downloaded | Dl_Load downloaded nat | Dl_Tell downloaded nat nat
  | Dl_Ended downloaded | Dl_Failed export_error

definition try_error_text :: "try_error \<Rightarrow> string" where
  "try_error_text e = (case e of Not_Found \<Rightarrow> ''not found in registry'' | Integrity_Mismatch \<Rightarrow> ''integrity mismatch''
     | Ctx_Done \<Rightarrow> ''context canceled'' | Failed m \<Rightarrow> m)"

definition download_error :: "lock_package \<Rightarrow> try_error \<Rightarrow> export_error" where
  "download_error p e = (if e = Integrity_Mismatch then Tampered (lp_key p @ '': '' @ try_error_text e)
     else Export_Failed (''jobs: download '' @ lp_key p @ '': '' @ try_error_text e))"

definition fetch_tarball :: "export_env \<Rightarrow> export_job \<Rightarrow> lock_package \<Rightarrow> files \<Rightarrow> (try_error + string) \<times> files" where
  "fetch_tarball env j p fs = download_file (xe_hash env) (xe_attempts env) (xe_waited env (lp_key p)) (xe_ended env (lp_key p))
     (xe_fetches env (lp_key p)) (xe_removed env (lp_key p)) (lp_integrity p) (download_path j p) fs"

text \<open>The steps of \<^verbatim>\<open>downloadOne\<close>: the look into the cache, the removal of a corrupt entry, the download into a file of
  its own, and its move into the cache.\<close>

definition look_in_cache :: "export_env \<Rightarrow> export_job \<Rightarrow> lock_package \<Rightarrow> files \<Rightarrow> dl_phase" where
  "look_in_cache env j p fs = (case sha512_cache_key (lp_integrity p) of None \<Rightarrow> Dl_Fetch
     | Some key \<Rightarrow> (case file_sha512 env fs (cache_path j key) of None \<Rightarrow> Dl_Fetch
       | Some got \<Rightarrow> if got = key then Dl_Hits \<lparr>dd_pkg = p, dd_path = cache_path j key, dd_sha512 = key\<rparr> True
           else Dl_Drop key))"

definition drop_entry :: "export_env \<Rightarrow> export_job \<Rightarrow> lock_package \<Rightarrow> string \<Rightarrow> files \<Rightarrow> dl_phase \<times> files" where
  "drop_entry env j p key fs = (let path = cache_path j key in
     if fs path = None then (Dl_Fetch, fs)
     else case xe_fault env ''remove'' path of
       Some e \<Rightarrow> (Dl_Failed (Export_Failed (''jobs: drop corrupt cache entry for '' @ lp_key p @ '': '' @ e)), fs)
     | None \<Rightarrow> (Dl_Fetch, fs(path := None)))"

definition store_tarball :: "export_env \<Rightarrow> export_job \<Rightarrow> lock_package \<Rightarrow> string \<Rightarrow> files \<Rightarrow> dl_phase \<times> files" where
  "store_tarball env j p hex fs = (let path = cache_path j hex; tmp = download_path j p;
       failed = (\<lambda>e. (Dl_Failed (Export_Failed (''jobs: cache '' @ lp_key p @ '': '' @ e)), fs)) in
     case fs tmp of None \<Rightarrow> failed ''no such file or directory''
     | Some body \<Rightarrow> (case xe_fault env ''rename'' path of Some e \<Rightarrow> failed e
       | None \<Rightarrow> (Dl_Hits \<lparr>dd_pkg = p, dd_path = path, dd_sha512 = hex\<rparr> False, fs(tmp := None, path \<mapsto> body))))"

fun download_step :: "export_env \<Rightarrow> export_job \<Rightarrow> lock_package \<Rightarrow> dl_phase \<Rightarrow> files \<Rightarrow> dl_phase \<times> files" where
  "download_step env j p Dl_Cache fs = (look_in_cache env j p fs, fs)"
| "download_step env j p (Dl_Drop key) fs = drop_entry env j p key fs"
| "download_step env j p Dl_Fetch fs = (case fetch_tarball env j p fs of
     (Inl e, fs') \<Rightarrow> (Dl_Failed (download_error p e), fs')
   | (Inr hex, fs') \<Rightarrow> (Dl_Store hex, fs'))"
| "download_step env j p (Dl_Store hex) fs = store_tarball env j p hex fs"
| "download_step env j p ph fs = (ph, fs)"

subsection \<open>The pool\<close>

text \<open>A worker that did not start yet is None. They start in order, at most \<open>width\<close> at a time.\<close>

record dl_pool =
  dp_phases :: "dl_phase option list"
  dp_files :: files
  dp_err :: "export_error option"
  dp_done :: nat
  dp_hits :: nat
  dp_events :: "export_event list"

fun at_end :: "dl_phase option \<Rightarrow> bool" where
  "at_end (Some (Dl_Ended d)) = True"
| "at_end (Some (Dl_Failed e)) = True"
| "at_end ph = False"

definition in_flight :: "dl_pool \<Rightarrow> nat" where
  "in_flight p = length (filter (\<lambda>ph. ph \<noteq> None \<and> \<not> at_end ph) (dp_phases p))"

definition may_start :: "nat \<Rightarrow> dl_pool \<Rightarrow> nat \<Rightarrow> bool" where
  "may_start width p i \<longleftrightarrow> (\<forall>k < i. dp_phases p ! k \<noteq> None) \<and> in_flight p < width"

definition download_width :: "settings \<Rightarrow> nat" where
  "download_width st = (if se_download st \<le> 0 then 16 else nat (se_download st))"

definition set_phase :: "nat \<Rightarrow> dl_phase \<Rightarrow> dl_pool \<Rightarrow> dl_pool" where
  "set_phase i ph p = p\<lparr>dp_phases := (dp_phases p)[i := Some ph]\<rparr>"

text \<open>The first error is kept, by a worker that fails.\<close>

definition note_failure :: "dl_phase \<Rightarrow> dl_pool \<Rightarrow> dl_pool" where
  "note_failure ph p = (case ph of Dl_Failed e \<Rightarrow> (if dp_err p = None then p\<lparr>dp_err := Some e\<rparr> else p) | _ \<Rightarrow> p)"

fun worker_step :: "export_env \<Rightarrow> export_job \<Rightarrow> lock_package list \<Rightarrow> nat \<Rightarrow> dl_phase \<Rightarrow> dl_pool \<Rightarrow> dl_pool" where
  "worker_step env j pkgs i (Dl_Hits d hit) p = set_phase i (Dl_Count d) (if hit then p\<lparr>dp_hits := dp_hits p + 1\<rparr> else p)"
| "worker_step env j pkgs i (Dl_Count d) p = set_phase i (Dl_Load d (dp_done p + 1)) (p\<lparr>dp_done := dp_done p + 1\<rparr>)"
| "worker_step env j pkgs i (Dl_Load d k) p = set_phase i (Dl_Tell d k (dp_hits p)) p"
| "worker_step env j pkgs i (Dl_Tell d k h) p =
     set_phase i (Dl_Ended d) (p\<lparr>dp_events := dp_events p @ [Export_Progress k (length pkgs) h]\<rparr>)"
| "worker_step env j pkgs i (Dl_Ended d) p = p"
| "worker_step env j pkgs i (Dl_Failed e) p = p"
| "worker_step env j pkgs i ph p = (case download_step env j (pkgs ! i) ph (dp_files p) of
     (ph', fs) \<Rightarrow> note_failure ph' (set_phase i ph' (p\<lparr>dp_files := fs\<rparr>)))"

definition pool_step :: "export_env \<Rightarrow> export_job \<Rightarrow> lock_package list \<Rightarrow> nat \<Rightarrow> dl_pool \<Rightarrow> dl_pool" where
  "pool_step env j pkgs i p = (if length pkgs \<le> i then p else case dp_phases p ! i of
     None \<Rightarrow> if may_start (download_width (xj_settings j)) p i then set_phase i Dl_Cache p else p
   | Some ph \<Rightarrow> worker_step env j pkgs i ph p)"

definition new_pool :: "lock_package list \<Rightarrow> files \<Rightarrow> dl_pool" where
  "new_pool pkgs fs = \<lparr>dp_phases = replicate (length pkgs) None, dp_files = fs, dp_err = None, dp_done = 0, dp_hits = 0, dp_events = []\<rparr>"

text \<open>Nine steps take a worker to its end. After any schedule, taking one worker after the other to its end ends
  the pool; a schedule that did so already makes these steps idle.\<close>

definition to_the_end :: "nat \<Rightarrow> nat list" where
  "to_the_end n = concat (map (replicate 9) [0..<n])"

definition run_pool :: "export_env \<Rightarrow> export_job \<Rightarrow> lock_package list \<Rightarrow> files \<Rightarrow> dl_pool" where
  "run_pool env j pkgs fs = fold (pool_step env j pkgs) (xe_schedule env @ to_the_end (length pkgs)) (new_pool pkgs fs)"

text \<open>The cells of the results start as zero values.\<close>

definition no_download :: downloaded where
  "no_download = \<lparr>dd_pkg = \<lparr>lp_name = '''', lp_version = '''', lp_integrity = '''', lp_os = [], lp_cpu = [], lp_libc = [],
     lp_engines = []\<rparr>, dd_path = '''', dd_sha512 = ''''\<rparr>"

definition results_of :: "dl_pool \<Rightarrow> downloaded list" where
  "results_of p = map (\<lambda>ph. case ph of Some (Dl_Ended d) \<Rightarrow> d | _ \<Rightarrow> no_download) (dp_phases p)"

subsection \<open>A sample export\<close>

definition sample_sri :: string where
  "sample_sri = ''sha512-'' @ replicate 86 CHR ''A'' @ ''==''"

definition sample_shipped :: lock_package where
  "sample_shipped = \<lparr>lp_name = ''ms'', lp_version = ''1.0.0'', lp_integrity = sample_sri, lp_os = [], lp_cpu = [], lp_libc = [],
     lp_engines = []\<rparr>"

text \<open>Every digest is zero.\<close>

definition zero_hash :: "hash_alg \<Rightarrow> bytes \<Rightarrow> bytes" where
  "zero_hash alg b = (case alg of Sha512 \<Rightarrow> replicate 64 (CHR 0x00) | Sha1 \<Rightarrow> replicate 20 (CHR 0x00))"

text \<open>The archive a run on the sample writes, and no other, has the bytes the importer's sample expects.\<close>

definition sample_entries :: "tar_entry list" where
  "sample_entries = [root_entry ''out'', file_entry ''out/ms-1.0.0.tgz'' 1 ''J'', file_entry ''out/signature.key'' 3 ''key'']"

definition calm_export :: export_env where
  "calm_export = \<lparr>xe_lockfile = (\<lambda>_. Inr (Inr \<lparr>rl_version = ''9.0'', rl_packages =
       [(''ms@1.0.0'', \<lparr>rp_integrity = sample_sri, rp_engines = [], rp_os = [], rp_cpu = [], rp_libc = []\<rparr>)]\<rparr>)),
     xe_fault = (\<lambda>_ _. None), xe_ctx = (\<lambda>_ _. None), xe_hash = zero_hash, xe_sha256 = (\<lambda>_. replicate 32 (CHR 0x00)),
     xe_attempts = 0, xe_waited = (\<lambda>_ _. False), xe_ended = (\<lambda>_ _. False),
     xe_fetches = (\<lambda>_ _. \<lparr>ft_reply = Reply 200 ''J'', ft_create_err = None, ft_copy_err = None, ft_rename_err = None\<rparr>),
     xe_removed = (\<lambda>_. True), xe_schedule = [], xe_tar_bytes = (\<lambda>_. ''T''), xe_partial = (\<lambda>_. []), xe_archive_bytes = (\<lambda>hs. if hs = sample_entries then ''gz'' else ''g''),
     xe_write_faults = \<lparr>wx_root = None, wx_header = (\<lambda>_. None), wx_copy = (\<lambda>_. None), wx_tar = None, wx_gzip = None\<rparr>,
     xe_scan = sample_scan, xe_convert = None, xe_candidates = Inr (Inr \<lparr>tr_schema = 2, tr_results = []\<rparr>), xe_status = Inl ''e'',
     xe_writer = (\<lambda>_ s. (length s, None)), xe_evidence = (\<lambda>_. ''e''), xe_now = ''t'', xe_tool = ''1.0.0''\<rparr>"

definition sample_export :: export_job where
  "sample_export = \<lparr>xj_root = ''/v'', xj_dir = ''/v/e'', xj_target = se_target default_settings,
     xj_settings = default_settings\<lparr>se_key := ''key''\<rparr>, xj_analysis = ''a'', xj_analysis_dir = ''/v/a'',
     xj_result = \<lparr>an_before = zero_vector, an_after = None, an_dependencies = [\<lparr>dr_name = ''ms'', dr_current = ''1.0.0'', dr_best = '''',
       dr_vector = zero_vector, dr_cves = [], dr_candidates = []\<rparr>], an_warnings = []\<rparr>,
     xj_selection = [(''ms'', [''1.0.0''])], xj_project = False\<rparr>"

lemma calm_export_simps [simp]:
  "xe_fault calm_export op p = None" "xe_ctx calm_export op n = None" "xe_hash calm_export = zero_hash"
  "xe_sha256 calm_export b = replicate 32 (CHR 0x00)" "xe_schedule calm_export = []" "xe_archive_bytes calm_export hs = (if hs = sample_entries then ''gz'' else ''g'')"
  "xe_write_faults calm_export = \<lparr>wx_root = None, wx_header = (\<lambda>_. None), wx_copy = (\<lambda>_. None), wx_tar = None, wx_gzip = None\<rparr>"
  "xe_scan calm_export = sample_scan" "xe_convert calm_export = None" "xe_writer calm_export = (\<lambda>_ s. (length s, None))"
  by (simp_all add: calm_export_def)

lemma sample_read: "read_lockfile calm_export path = Inr [sample_shipped]"
  by (simp add: read_lockfile_def calm_export_def parse_lockfile_def lock_entry_def sample_shipped_def split_key_def split_last_def cut_def
      sort_func_def go_err sample_sri_def)

lemma sample_selection: "selected_versions (xj_selection sample_export) ''ms'' = [''1.0.0'']" "sorted_keys (xj_selection sample_export) = [''ms'']"
  by code_simp+

lemma sample_package_list: "package_list calm_export sample_export = Inr [sample_shipped]"
proof -
  have "validate_selection (xj_result sample_export) (xj_selection sample_export) = []" by code_simp
  moreover have "filter_platform (platform_of (xj_target sample_export)) [sample_shipped] = [sample_shipped]" by code_simp
  moreover have "lp_key sample_shipped = ''ms@1.0.0''" by code_simp
  moreover have "lockfile_paths sample_export = [candidate_lockfile_path sample_export ''ms'' ''1.0.0'']"
    by (simp add: lockfile_paths_def sample_selection) (simp add: sample_export_def)
  moreover have "sorted_keys (gm_put ''ms@1.0.0'' sample_shipped []) = [''ms@1.0.0'']" by (simp add: sorted_keys_def sort_func_def gm_put_def gm_has_def)
  ultimately show ?thesis
    by (simp add: package_list_def sample_read add_lockfile_def add_package_def gm_has_def)
qed

theorem package_list_exact_witness:
  "package_list calm_export sample_export = Inr [sample_shipped]
    \<and> ''ms@1.0.0'' \<in> set (valid_selections (xj_result sample_export))"
proof -
  have "''1.0.0'' \<in> set (selected_versions (xj_selection sample_export) ''ms'')" by code_simp
  then show ?thesis
    using package_list_exact [of calm_export sample_export "[sample_shipped]"] sample_package_list by fastforce
qed

end
