(* ===== verification/Export_Pool.thy ===== *)
theory Export_Pool
  imports Export_Download
begin

text \<open>
  The pool of downloads of \<^verbatim>\<open>internal/jobs/export.go\<close>: every worker ends whatever the schedule, never more run
  than the settings allow, and when none failed the cache holds, at the end, the bytes every result names.
\<close>

subsection \<open>Every worker ends, and never too many run\<close>

lemma phases_length [simp]:
  "length (dp_phases (set_phase i ph p)) = length (dp_phases p)"
  "dp_phases (note_failure ph p) = dp_phases p"
  by (auto simp: set_phase_def note_failure_def split: dl_phase.splits)

lemma worker_step_phases: "\<exists>ph'. dp_phases (worker_step env j pkgs i ph p) = (dp_phases p)[i := Some ph'] \<or> dp_phases (worker_step env j pkgs i ph p) = dp_phases p"
  by (cases ph) (auto simp: set_phase_def note_failure_def split: prod.splits dl_phase.splits)

text \<open>How many steps a worker has left at most.\<close>

fun steps_left :: "dl_phase option \<Rightarrow> nat" where
  "steps_left None = 9"
| "steps_left (Some Dl_Cache) = 8"
| "steps_left (Some (Dl_Drop key)) = 7"
| "steps_left (Some Dl_Fetch) = 6"
| "steps_left (Some (Dl_Store hex)) = 5"
| "steps_left (Some (Dl_Hits d hit)) = 4"
| "steps_left (Some (Dl_Count d)) = 3"
| "steps_left (Some (Dl_Load d k)) = 2"
| "steps_left (Some (Dl_Tell d k h)) = 1"
| "steps_left (Some ph) = 0"

lemma steps_left_0: "steps_left ph = 0 \<longleftrightarrow> at_end ph"
  by (cases ph rule: steps_left.cases) auto

lemma worker_step_phase:
  assumes "i < length (dp_phases p)" "dp_phases p ! i = Some ph"
  shows "steps_left (dp_phases (worker_step env j pkgs i ph p) ! i) \<le> steps_left (Some ph) - 1"
    and "dp_phases (worker_step env j pkgs i ph p) ! i \<noteq> None"
    and "k \<noteq> i \<Longrightarrow> dp_phases (worker_step env j pkgs i ph p) ! k = dp_phases p ! k"
    and "length (dp_phases (worker_step env j pkgs i ph p)) = length (dp_phases p)"
  using assms
  by (cases ph; auto simp: set_phase_def look_in_cache_def drop_entry_def store_tarball_def Let_def
      split: prod.splits option.splits sum.splits)+

definition started_in_order :: "dl_pool \<Rightarrow> bool" where
  "started_in_order p \<longleftrightarrow> (\<forall>k i. k < i \<longrightarrow> i < length (dp_phases p) \<longrightarrow> dp_phases p ! i \<noteq> None \<longrightarrow> dp_phases p ! k \<noteq> None)"

lemma in_flight_update:
  assumes "i < length (dp_phases p)"
  shows "length (filter (\<lambda>ph. ph \<noteq> None \<and> \<not> at_end ph) ((dp_phases p)[i := x]))
    + (if dp_phases p ! i \<noteq> None \<and> \<not> at_end (dp_phases p ! i) then 1 else 0)
    = in_flight p + (if x \<noteq> None \<and> \<not> at_end x then 1 else 0)"
proof -
  let ?P = "\<lambda>ph. ph \<noteq> None \<and> \<not> at_end ph" and ?xs = "dp_phases p"
  have split: "?xs = take i ?xs @ ?xs ! i # drop (Suc i) ?xs" using assms by (rule id_take_nth_drop)
  have "length (filter ?P (?xs[i := x])) = length (filter ?P (take i ?xs @ x # drop (Suc i) ?xs))"
    using assms by (simp add: upd_conv_take_nth_drop)
  moreover have "in_flight p = length (filter ?P (take i ?xs @ ?xs ! i # drop (Suc i) ?xs))"
    unfolding in_flight_def by (subst split [symmetric]) (rule refl)
  ultimately show ?thesis by simp
qed

lemma pool_step_order:
  assumes "started_in_order p" "in_flight p \<le> download_width (xj_settings j)" "length (dp_phases p) = length pkgs"
  shows "started_in_order (pool_step env j pkgs i p) \<and> in_flight (pool_step env j pkgs i p) \<le> download_width (xj_settings j)
    \<and> length (dp_phases (pool_step env j pkgs i p)) = length pkgs"
proof (cases "i < length pkgs")
  case True
  show ?thesis
  proof (cases "dp_phases p ! i")
    case None
    show ?thesis
    proof (cases "may_start (download_width (xj_settings j)) p i")
      case start: True
      then have "in_flight (set_phase i Dl_Cache p) \<le> download_width (xj_settings j)"
        using in_flight_update [of i p "Some Dl_Cache"] None True assms(3)
        by (simp add: set_phase_def in_flight_def may_start_def)
      moreover have "started_in_order (set_phase i Dl_Cache p)"
        using assms(1,3) start True by (auto simp: started_in_order_def set_phase_def may_start_def nth_list_update)
      ultimately show ?thesis using assms(3) None True start by (simp add: pool_step_def)
    qed (use assms None True in \<open>simp add: pool_step_def\<close>)
  next
    case (Some ph)
    let ?q = "worker_step env j pkgs i ph p"
    note facts = worker_step_phase [where i = i and p = p and ph = ph and env = env and j = j and pkgs = pkgs, OF _ Some]
    obtain ph' where q: "dp_phases ?q = (dp_phases p)[i := dp_phases ?q ! i]"
      using worker_step_phases [of env j pkgs i ph p] facts(4) True assms(3) by (metis list_update_id nth_list_update_eq)
    have "in_flight ?q \<le> in_flight p"
      using in_flight_update [of i p "dp_phases ?q ! i"] Some facts(1) True assms(3) q steps_left_0 [of "Some ph"] steps_left_0 [of "dp_phases ?q ! i"]
      by (fastforce simp: in_flight_def split: if_splits)
    moreover have "started_in_order ?q"
      using assms(1,3) facts(2,3,4) True Some unfolding started_in_order_def by (metis option.distinct(1))
    ultimately show ?thesis using assms True Some facts(4) by (simp add: pool_step_def)
  qed
qed (use assms in \<open>simp add: pool_step_def\<close>)

definition pool_ok :: "export_job \<Rightarrow> lock_package list \<Rightarrow> dl_pool \<Rightarrow> bool" where
  "pool_ok j pkgs p \<longleftrightarrow> started_in_order p \<and> in_flight p \<le> download_width (xj_settings j) \<and> length (dp_phases p) = length pkgs"

lemma pool_ok_step: "pool_ok j pkgs p \<Longrightarrow> pool_ok j pkgs (pool_step env j pkgs i p)"
  using pool_step_order [of p j pkgs env i] by (simp add: pool_ok_def)

lemma pool_ok_steps: "pool_ok j pkgs p \<Longrightarrow> pool_ok j pkgs (fold (pool_step env j pkgs) is p)"
  by (induction "is" arbitrary: p) (auto intro: pool_ok_step)

lemma pool_ok_new: "pool_ok j pkgs (new_pool pkgs fs)"
  by (simp add: pool_ok_def new_pool_def started_in_order_def in_flight_def)

lemma pool_step_stable:
  assumes "length (dp_phases p) = length pkgs" "k < length pkgs" "at_end (dp_phases p ! k)"
  shows "at_end (dp_phases (pool_step env j pkgs i p) ! k)"
proof (cases "i < length pkgs")
  case True
  show ?thesis
  proof (cases "dp_phases p ! i")
    case None
    then have "k \<noteq> i" using assms(3) by auto
    then show ?thesis using None assms by (simp add: pool_step_def set_phase_def)
  next
    case (Some ph)
    show ?thesis
    proof (cases "k = i")
      case True
      then show ?thesis using Some assms by (cases ph) (simp_all add: pool_step_def)
    next
      case False
      then show ?thesis
        using worker_step_phase(3) [of i p ph k env j pkgs, OF _ Some] Some assms True by (simp add: pool_step_def)
    qed
  qed
qed (use assms in \<open>simp add: pool_step_def\<close>)

lemma pool_step_progress:
  assumes "pool_ok j pkgs p" "i < length pkgs" "\<forall>k < i. at_end (dp_phases p ! k)"
  shows "steps_left (dp_phases (pool_step env j pkgs i p) ! i) \<le> steps_left (dp_phases p ! i) - 1"
proof (cases "dp_phases p ! i")
  case None
  have len: "length (dp_phases p) = length pkgs" using assms(1) by (simp add: pool_ok_def)
  have none: "dp_phases p ! k = None" if "i \<le> k" "k < length pkgs" for k
  proof (rule ccontr)
    assume k: "dp_phases p ! k \<noteq> None"
    then have "i < k" using that(1) None by (cases "k = i") auto
    then have "dp_phases p ! i \<noteq> None"
      using assms(1) k that(2) len unfolding pool_ok_def started_in_order_def by metis
    then show False using None by contradiction
  qed
  have "\<not> (dp_phases p ! k \<noteq> None \<and> \<not> at_end (dp_phases p ! k))" if "k < length pkgs" for k
  proof (cases "k < i")
    case True
    then show ?thesis using assms(3) by blast
  next
    case False
    then show ?thesis using none [of k] that by simp
  qed
  then have "\<forall>ph \<in> set (dp_phases p). \<not> (ph \<noteq> None \<and> \<not> at_end ph)" using len by (metis in_set_conv_nth)
  then have "in_flight p = 0" unfolding in_flight_def by (simp only: filter_False list.size)
  moreover have "0 < download_width (xj_settings j)" by (simp add: download_width_def)
  moreover have "\<forall>k < i. dp_phases p ! k \<noteq> None" using assms(3) at_end.simps(3) by metis
  ultimately have "may_start (download_width (xj_settings j)) p i" by (simp add: may_start_def)
  then show ?thesis using None assms(2) len by (simp add: pool_step_def set_phase_def)
next
  case (Some ph)
  then show ?thesis
    using worker_step_phase(1) [of i p ph env j pkgs, OF _ Some] assms by (simp add: pool_step_def pool_ok_def)
qed

lemma worker_to_its_end:
  assumes "pool_ok j pkgs p" "i < length pkgs" "\<forall>k < i. at_end (dp_phases p ! k)"
  shows "steps_left (dp_phases (fold (pool_step env j pkgs) (replicate m i) p) ! i) \<le> steps_left (dp_phases p ! i) - m
    \<and> (\<forall>k < i. at_end (dp_phases (fold (pool_step env j pkgs) (replicate m i) p) ! k))"
  using assms
proof (induction m arbitrary: p)
  case (Suc m)
  let ?q = "pool_step env j pkgs i p"
  have ends: "\<forall>k < i. at_end (dp_phases ?q ! k)"
    using Suc.prems pool_step_stable [of p pkgs _ env j i] by (simp add: pool_ok_def)
  have "steps_left (dp_phases ?q ! i) \<le> steps_left (dp_phases p ! i) - 1" by (rule pool_step_progress [OF Suc.prems])
  with Suc.IH [OF pool_ok_step [OF Suc.prems(1)] Suc.prems(2) ends] show ?case by simp arith
qed simp

lemma steps_left_9: "steps_left ph \<le> 9"
  by (cases ph rule: steps_left.cases) auto

lemma all_to_their_ends:
  assumes "pool_ok j pkgs p" "m \<le> length pkgs"
  shows "\<forall>k < m. at_end (dp_phases (fold (pool_step env j pkgs) (to_the_end m) p) ! k)"
  using assms(2)
proof (induction m)
  case (Suc m)
  let ?q = "fold (pool_step env j pkgs) (to_the_end m) p"
  have ends: "\<forall>k < m. at_end (dp_phases ?q ! k)" using Suc by simp
  have "to_the_end (Suc m) = to_the_end m @ replicate 9 m" by (simp add: to_the_end_def)
  moreover from worker_to_its_end [OF pool_ok_steps [OF assms(1)] _ ends, where m = 9] Suc.prems
  have "steps_left (dp_phases (fold (pool_step env j pkgs) (replicate 9 m) ?q) ! m) \<le> steps_left (dp_phases ?q ! m) - 9
      \<and> (\<forall>k < m. at_end (dp_phases (fold (pool_step env j pkgs) (replicate 9 m) ?q) ! k))"
    by simp
  ultimately show ?case
    using steps_left_9 [of "dp_phases ?q ! m"] by (auto simp: less_Suc_eq steps_left_0)
qed simp

lemma pool_ends:
  "length (dp_phases (fold (pool_step env j pkgs) (sched @ to_the_end (length pkgs)) (new_pool pkgs fs))) = length pkgs
    \<and> (\<forall>k < length pkgs. at_end (dp_phases (fold (pool_step env j pkgs) (sched @ to_the_end (length pkgs)) (new_pool pkgs fs)) ! k))"
  using all_to_their_ends [OF pool_ok_steps [OF pool_ok_new], of "length pkgs" pkgs]
    pool_ok_steps [OF pool_ok_new, of j pkgs env "sched @ to_the_end (length pkgs)" fs]
  by (simp add: pool_ok_def)

text \<open>C26. Whatever the order in which the workers of a download step, never more run than the settings allow and
  they start in the order of the packages; none waits for ever: nine more steps of each in turn take every worker
  to its result or its failure.\<close>

theorem downloads_end:
  "in_flight (fold (pool_step env j pkgs) sched (new_pool pkgs fs)) \<le> download_width (xj_settings j)
   \<and> started_in_order (fold (pool_step env j pkgs) sched (new_pool pkgs fs))
   \<and> list_all at_end (dp_phases (fold (pool_step env j pkgs) (sched @ to_the_end (length pkgs)) (new_pool pkgs fs)))"
  using pool_ok_steps [OF pool_ok_new, of j pkgs env sched fs] pool_ends [of env j pkgs sched fs]
  by (simp add: pool_ok_def list_all_length)

subsection \<open>What the files hold while workers interleave\<close>

text \<open>The key of a sha512 integrity is the digest the download is checked against.\<close>

lemma b64_value_mark: "b64_value CHR ''?'' = None"
  by (simp add: b64_value_def is_upper_def is_lower_def is_digit_def)

lemma b64_groups_no_mark: "b64_groups s = Some d \<Longrightarrow> CHR ''?'' \<notin> set s"
  by (induction s arbitrary: d rule: b64_groups.induct) (auto simp: b64_value_mark split: option.splits if_splits)

lemma b64_decode_no_mark: "b64_decode s = Some d \<Longrightarrow> CHR ''?'' \<notin> set s"
  using b64_groups_no_mark by (fastforce simp: b64_decode_def)

lemma cache_key_integrity:
  assumes "sha512_cache_key sri = Some key"
  shows "\<exists>d. key = hex_encode d \<and> (length d = 64 \<longrightarrow> parse_integrity sri = Inr (Sha512, d))
    \<and> (\<forall>alg want. parse_integrity sri = Inr (alg, want) \<longrightarrow> alg = Sha512 \<and> want = d)"
proof -
  from assms obtain field rest where f: "go_fields sri = field # rest" by (auto simp: sha512_cache_key_def split: list.splits)
  with assms obtain encoded d where c: "cut CHR ''-'' field = (''sha512'', encoded, True)" "b64_decode encoded = Some d" "key = hex_encode d"
    by (auto simp: sha512_cache_key_def split: prod.splits if_splits)
  have "field = ''sha512-'' @ encoded"
    using c(1) takeWhile_dropWhile_id [of "\<lambda>d. d \<noteq> CHR ''-''" field] hd_dropWhile [of "\<lambda>d. d \<noteq> CHR ''-''" field]
    by (cases "dropWhile (\<lambda>d. d \<noteq> CHR ''-'') field") (auto simp: cut_def split: if_splits)
  then have "CHR ''?'' \<notin> set field" using b64_decode_no_mark [OF c(2)] by auto
  then have "sri_entry field = Some (''sha512'', encoded)" using c(1) by (simp add: sri_entry_def cut_def)
  then have "parse_integrity sri = try_bind (decode_digest sri encoded 64) (\<lambda>dig. Inr (Sha512, dig))"
    by (simp add: parse_integrity_def f)
  then show ?thesis using c by (auto simp: decode_digest_def go_err split: if_splits)
qed

text \<open>Bytes that fit a package, and their key.\<close>

definition fits_package :: "export_env \<Rightarrow> lock_package \<Rightarrow> bytes \<Rightarrow> string \<Rightarrow> bool" where
  "fits_package env p body hex \<longleftrightarrow> hex = hex_encode (xe_hash env Sha512 body)
     \<and> (\<exists>alg want. parse_integrity (lp_integrity p) = Inr (alg, want) \<and> xe_hash env alg body = want)"

definition digests_of_64 :: "export_env \<Rightarrow> bool" where
  "digests_of_64 env \<longleftrightarrow> (\<forall>body. length (xe_hash env Sha512 body) = 64)"

definition separate_paths :: "export_job \<Rightarrow> lock_package list \<Rightarrow> bool" where
  "separate_paths j pkgs \<longleftrightarrow> clean_dir (xj_root j) \<and> clean_dir (xj_dir j) \<and> distinct (map lp_key pkgs)
     \<and> (\<forall>p \<in> set pkgs. CHR ''/'' \<notin> set (lp_version p) \<and> CHR ''@'' \<notin> set (lp_version p))"

lemma cache_path_at: "clean_dir (xj_root j) \<Longrightarrow> cache_path j (hex_encode b) = xj_root j @ ''/cache/tarballs/'' @ hex_encode b @ ''.tgz''"
  unfolding cache_path_def
  by (subst path_join_segs(3)) (auto simp: hex_encode_plain, auto simp: plain_seg_def)

lemma download_path_at:
  assumes "clean_dir (xj_dir j)" "CHR ''/'' \<notin> set (lp_version p)"
  shows "download_path j p = xj_dir j @ ''/downloads/'' @ path_escape (lp_name p) @ ''@'' @ lp_version p @ ''.tgz''"
proof -
  have "plain_seg (path_escape (lp_name p) @ ''@'' @ lp_version p @ ''.tgz'')"
    using assms(2) path_escape_no_slash [of "lp_name p"] by (auto simp: plain_seg_def append_eq_Cons_conv)
  then show ?thesis using path_join_segs(2) [OF assms(1), of "''downloads''"] by (simp add: download_path_def plain_seg_def)
qed

lemma paths_apart:
  assumes sep: "separate_paths j pkgs" and i: "i < length pkgs"
  shows "cache_path j (hex_encode a) = cache_path j (hex_encode b) \<longleftrightarrow> hex_encode a = hex_encode b"
    and "cache_path j (hex_encode a) \<noteq> download_path j (pkgs ! i)"
    and "cache_path j (hex_encode a) \<noteq> download_path j (pkgs ! i) @ ''.part''"
    and "k < length pkgs \<Longrightarrow> k \<noteq> i \<Longrightarrow> download_path j (pkgs ! i) \<noteq> download_path j (pkgs ! k)"
    and "k < length pkgs \<Longrightarrow> download_path j (pkgs ! i) \<noteq> download_path j (pkgs ! k) @ ''.part''"
proof -
  have at: "clean_dir (xj_root j)" "clean_dir (xj_dir j)" "\<And>k. k < length pkgs \<Longrightarrow> CHR ''/'' \<notin> set (lp_version (pkgs ! k)) \<and> CHR ''@'' \<notin> set (lp_version (pkgs ! k))"
    using sep by (simp_all add: separate_paths_def)
  note cp = cache_path_at [OF at(1)] and dp = download_path_at [OF at(2)]
  let ?seg = "\<lambda>k. path_escape (lp_name (pkgs ! k)) @ ''@'' @ lp_version (pkgs ! k) @ ''.tgz''"
  have noseg: "CHR ''/'' \<notin> set (?seg k)" if "k < length pkgs" for k using at(3) [OF that] path_escape_no_slash by simp
  have nohex: "CHR ''/'' \<notin> set (hex_encode a @ ''.tgz'')" for a using hex_encode_plain [of a] by (auto simp: plain_seg_def)
  have dirs: "d @ ''/cache/tarballs/'' @ s \<noteq> e @ ''/downloads/'' @ t" if "CHR ''/'' \<notin> set s" "CHR ''/'' \<notin> set t" for d e s t :: string
  proof
    assume "d @ ''/cache/tarballs/'' @ s = e @ ''/downloads/'' @ t"
    then have "(d @ ''/cache/tarballs'') @ ''/'' @ s = (e @ ''/downloads'') @ ''/'' @ t" by simp
    then have "d @ ''/cache/tarballs'' = e @ ''/downloads''" using last_segs that by blast
    then have "(d @ ''/cache'') @ ''/'' @ ''tarballs'' = e @ ''/'' @ ''downloads''" by simp
    then have "''tarballs'' = ''downloads''" using last_segs [of "''tarballs''" "''downloads''"] by fastforce
    then show False by simp
  qed
  show "cache_path j (hex_encode a) = cache_path j (hex_encode b) \<longleftrightarrow> hex_encode a = hex_encode b" by (simp add: cp)
  show "cache_path j (hex_encode a) \<noteq> download_path j (pkgs ! i)"
    using dirs [OF nohex noseg [OF i], of "xj_root j" a "xj_dir j"] at(3) [OF i] by (simp add: cp dp)
  show "cache_path j (hex_encode a) \<noteq> download_path j (pkgs ! i) @ ''.part''"
    using dirs [OF nohex, of "?seg i @ ''.part''" "xj_root j" a "xj_dir j"] noseg [OF i] at(3) [OF i] by (simp add: cp dp)
  assume k: "k < length pkgs"
  show "k \<noteq> i \<Longrightarrow> download_path j (pkgs ! i) \<noteq> download_path j (pkgs ! k)"
  proof
    assume "k \<noteq> i" "download_path j (pkgs ! i) = download_path j (pkgs ! k)"
    then have eq: "(path_escape (lp_name (pkgs ! i)) @ ''@'' @ lp_version (pkgs ! i)) = (path_escape (lp_name (pkgs ! k)) @ ''@'' @ lp_version (pkgs ! k))"
      using dp at(3) [OF i] at(3) [OF k] by simp
    have snoc: "x @ ''@'' @ v = y @ ''@'' @ w \<Longrightarrow> CHR ''@'' \<notin> set v \<Longrightarrow> CHR ''@'' \<notin> set w \<Longrightarrow> x = y \<and> v = w" for x y v w :: string
      by (auto simp: append_eq_append_conv2 append_eq_Cons_conv Cons_eq_append_conv)
    from snoc [OF eq] at(3) [OF i] at(3) [OF k] have "lp_key (pkgs ! i) = lp_key (pkgs ! k)"
      by (simp add: path_escape_inj lp_key_def)
    then show False using sep i k \<open>k \<noteq> i\<close> by (simp add: separate_paths_def distinct_conv_nth)
  qed
  show "download_path j (pkgs ! i) \<noteq> download_path j (pkgs ! k) @ ''.part''"
  proof
    assume "download_path j (pkgs ! i) = download_path j (pkgs ! k) @ ''.part''"
    then have "rev (download_path j (pkgs ! i)) = rev (download_path j (pkgs ! k) @ ''.part'')" by simp
    then show False using dp at(3) [OF i] at(3) [OF k] by simp
  qed
qed

fun result_of :: "dl_phase \<Rightarrow> downloaded option" where
  "result_of (Dl_Hits d hit) = Some d"
| "result_of (Dl_Count d) = Some d"
| "result_of (Dl_Load d k) = Some d"
| "result_of (Dl_Tell d k h) = Some d"
| "result_of (Dl_Ended d) = Some d"
| "result_of ph = None"

text \<open>What a phase knows: its result fits its package, the file it is about to store does.\<close>

definition phase_ok :: "export_env \<Rightarrow> export_job \<Rightarrow> lock_package \<Rightarrow> files \<Rightarrow> dl_phase \<Rightarrow> bool" where
  "phase_ok env j p fs ph \<longleftrightarrow>
     (\<forall>d. result_of ph = Some d \<longrightarrow> dd_pkg d = p \<and> dd_path d = cache_path j (dd_sha512 d) \<and> (\<exists>body. fits_package env p body (dd_sha512 d)))
     \<and> (\<forall>key. ph = Dl_Drop key \<longrightarrow> sha512_cache_key (lp_integrity p) = Some key)
     \<and> (\<forall>hex. ph = Dl_Store hex \<longrightarrow> (\<exists>body. fs (download_path j p) = Some body \<and> fits_package env p body hex))"

text \<open>The cache holds, under a key, bytes with that digest.\<close>

definition cached :: "export_env \<Rightarrow> export_job \<Rightarrow> files \<Rightarrow> string \<Rightarrow> bool" where
  "cached env j fs hex \<longleftrightarrow> (\<exists>c. fs (cache_path j hex) = Some c \<and> hex_encode (xe_hash env Sha512 c) = hex)"

text \<open>A worker that dropped a corrupt entry brings it back before it ends.\<close>

definition restoring :: "lock_package \<Rightarrow> dl_phase option \<Rightarrow> string \<Rightarrow> bool" where
  "restoring p ph hex \<longleftrightarrow> (ph = Some Dl_Fetch \<or> (\<exists>h. ph = Some (Dl_Store h))) \<and> sha512_cache_key (lp_integrity p) = Some hex"

definition pool_inv :: "export_env \<Rightarrow> export_job \<Rightarrow> lock_package list \<Rightarrow> dl_pool \<Rightarrow> bool" where
  "pool_inv env j pkgs p \<longleftrightarrow> length (dp_phases p) = length pkgs
     \<and> (\<forall>i < length pkgs. \<forall>ph. dp_phases p ! i = Some ph \<longrightarrow> phase_ok env j (pkgs ! i) (dp_files p) ph
          \<and> (\<forall>e. ph = Dl_Failed e \<longrightarrow> dp_err p \<noteq> None)
          \<and> (\<forall>d. result_of ph = Some d \<longrightarrow> cached env j (dp_files p) (dd_sha512 d) \<or> dp_err p \<noteq> None
               \<or> (\<exists>k < length pkgs. restoring (pkgs ! k) (dp_phases p ! k) (dd_sha512 d))))"

lemma pool_inv_update:
  assumes inv: "pool_inv env j pkgs p" and i: "i < length pkgs"
    and ok: "phase_ok env j (pkgs ! i) (dp_files q) ph"
    and phases: "dp_phases q = (dp_phases p)[i := Some ph]"
    and err: "dp_err p \<noteq> None \<Longrightarrow> dp_err q \<noteq> None" "\<And>e. ph = Dl_Failed e \<Longrightarrow> dp_err q \<noteq> None"
    and others: "\<And>k. k < length pkgs \<Longrightarrow> k \<noteq> i \<Longrightarrow> dp_files q (download_path j (pkgs ! k)) = dp_files p (download_path j (pkgs ! k))"
    and kept: "\<And>b. cached env j (dp_files p) (hex_encode b) \<Longrightarrow>
        cached env j (dp_files q) (hex_encode b) \<or> dp_err q \<noteq> None \<or> restoring (pkgs ! i) (Some ph) (hex_encode b)"
    and restored: "\<And>hex. restoring (pkgs ! i) (dp_phases p ! i) hex \<Longrightarrow>
        cached env j (dp_files q) hex \<or> dp_err q \<noteq> None \<or> restoring (pkgs ! i) (Some ph) hex"
    and new: "\<And>d. result_of ph = Some d \<Longrightarrow> (\<exists>old. dp_phases p ! i = Some old \<and> result_of old = Some d) \<or> cached env j (dp_files q) (dd_sha512 d)"
  shows "pool_inv env j pkgs q"
proof -
  have len: "length (dp_phases p) = length pkgs" using inv by (simp add: pool_inv_def)
  let ?safe = "\<lambda>q hex. cached env j (dp_files q) hex \<or> dp_err q \<noteq> None \<or> (\<exists>k < length pkgs. restoring (pkgs ! k) (dp_phases q ! k) hex)"
  have old: "phase_ok env j (pkgs ! k) (dp_files p) o'" "\<And>e. o' = Dl_Failed e \<Longrightarrow> dp_err p \<noteq> None"
    "\<And>d. result_of o' = Some d \<Longrightarrow> ?safe p (dd_sha512 d)" if "k < length pkgs" "dp_phases p ! k = Some o'" for k o'
    using inv that unfolding pool_inv_def by blast+
  have hex: "\<exists>b. dd_sha512 d = hex_encode b" if "k < length pkgs" "dp_phases p ! k = Some o'" "result_of o' = Some d" for k o' d
    using old(1) [OF that(1,2)] that(3) unfolding phase_ok_def fits_package_def by blast
  have safe: "?safe q (hex_encode b)" if "?safe p (hex_encode b)" for b
    using that
  proof (elim disjE exE conjE)
    assume "cached env j (dp_files p) (hex_encode b)"
    then show ?thesis using kept [of b] i phases len by auto
  next
    fix k assume k: "k < length pkgs" "restoring (pkgs ! k) (dp_phases p ! k) (hex_encode b)"
    show ?thesis
    proof (cases "k = i")
      case True
      then show ?thesis using restored [of "hex_encode b"] k(2) i phases len by auto
    next
      case False
      then have "restoring (pkgs ! k) (dp_phases q ! k) (hex_encode b)" using k(2) phases by simp
      then show ?thesis using k(1) by blast
    qed
  qed (use err(1) in blast)
  have "phase_ok env j (pkgs ! k) (dp_files q) x \<and> (\<forall>e. x = Dl_Failed e \<longrightarrow> dp_err q \<noteq> None)
      \<and> (\<forall>d. result_of x = Some d \<longrightarrow> ?safe q (dd_sha512 d))"
    if k: "k < length pkgs" and x: "dp_phases q ! k = Some x" for k x
  proof (cases "k = i")
    case True
    then have "x = ph" using x phases i len by simp
    moreover have "?safe q (dd_sha512 d)" if d: "result_of ph = Some d" for d
      using new [OF d] hex [OF i] old(3) [OF i] safe by metis
    ultimately show ?thesis using ok err(2) True by blast
  next
    case False
    then have o': "dp_phases p ! k = Some x" using x phases by simp
    have "phase_ok env j (pkgs ! k) (dp_files q) x"
      using old(1) [OF k o'] others [OF k False] unfolding phase_ok_def by simp
    moreover have "?safe q (dd_sha512 d)" if d: "result_of x = Some d" for d
      using hex [OF k o' d] old(3) [OF k o' d] safe by metis
    ultimately show ?thesis using old(2) [OF k o'] err(1) by blast
  qed
  then show ?thesis using len phases unfolding pool_inv_def by simp
qed

lemma phase_ok_result: "phase_ok env j p fs (Dl_Hits d hit) \<longleftrightarrow> phase_ok env j p fs (Dl_Ended d)"
  "phase_ok env j p fs (Dl_Count d) \<longleftrightarrow> phase_ok env j p fs (Dl_Ended d)"
  "phase_ok env j p fs (Dl_Load d k) \<longleftrightarrow> phase_ok env j p fs (Dl_Ended d)"
  "phase_ok env j p fs (Dl_Tell d k h) \<longleftrightarrow> phase_ok env j p fs (Dl_Ended d)"
  by (simp_all add: phase_ok_def)

lemma phase_ok_idle: "phase_ok env j p fs Dl_Cache" "phase_ok env j p fs Dl_Fetch" "phase_ok env j p fs (Dl_Failed e)"
  by (simp_all add: phase_ok_def)

text \<open>A step that leaves the files alone and keeps the result, or has none yet.\<close>

lemma pool_inv_quiet:
  assumes "pool_inv env j pkgs p" "i < length pkgs" "dp_phases q = (dp_phases p)[i := Some ph]" "dp_files q = dp_files p" "dp_err q = dp_err p"
    and "phase_ok env j (pkgs ! i) (dp_files p) ph" "\<And>e. ph \<noteq> Dl_Failed e" "\<And>hex. \<not> restoring (pkgs ! i) (dp_phases p ! i) hex"
    and "\<And>d. result_of ph = Some d \<Longrightarrow> (\<exists>old. dp_phases p ! i = Some old \<and> result_of old = Some d) \<or> cached env j (dp_files p) (dd_sha512 d)"
  shows "pool_inv env j pkgs q"
  by (rule pool_inv_update [OF assms(1,2) _ assms(3)]) (use assms(4-) in \<open>simp_all, blast?\<close>)

lemma cache_hit:
  assumes "digests_of_64 env" "sha512_cache_key (lp_integrity p) = Some key" "file_sha512 env fs (cache_path j key) = Some key"
  shows "cached env j fs key \<and> phase_ok env j p fs (Dl_Hits \<lparr>dd_pkg = p, dd_path = cache_path j key, dd_sha512 = key\<rparr> True)"
proof -
  from assms(3) obtain b where b: "fs (cache_path j key) = Some b" "hex_encode (xe_hash env Sha512 b) = key"
    by (auto simp: file_sha512_def split: if_splits)
  from cache_key_integrity [OF assms(2)] obtain d where d: "key = hex_encode d" "length d = 64 \<longrightarrow> parse_integrity (lp_integrity p) = Inr (Sha512, d)"
    by blast
  have "xe_hash env Sha512 b = d" using b(2) d(1) by (simp add: hex_encode_inj)
  moreover from this have "length d = 64" using assms(1) by (auto simp: digests_of_64_def)
  ultimately have "fits_package env p b key" using d by (simp add: fits_package_def)
  then show ?thesis using b by (auto simp: cached_def phase_ok_def)
qed

lemma look_inv:
  assumes inv: "pool_inv env j pkgs p" and i: "i < length pkgs" and at: "dp_phases p ! i = Some Dl_Cache" and "digests_of_64 env"
  shows "pool_inv env j pkgs (set_phase i (look_in_cache env j (pkgs ! i) (dp_files p)) p)"
proof (rule pool_inv_quiet [OF inv i])
  let ?ph = "look_in_cache env j (pkgs ! i) (dp_files p)"
  have hit: "phase_ok env j (pkgs ! i) (dp_files p) ?ph \<and> (\<forall>d. result_of ?ph = Some d \<longrightarrow> cached env j (dp_files p) (dd_sha512 d)) \<and> (\<forall>e. ?ph \<noteq> Dl_Failed e)"
    using cache_hit [OF assms(4), of "pkgs ! i" _ "dp_files p" j]
    by (auto simp: look_in_cache_def phase_ok_idle split: option.splits) (simp_all add: phase_ok_def)
  show "phase_ok env j (pkgs ! i) (dp_files p) ?ph" "\<And>e. ?ph \<noteq> Dl_Failed e"
    "\<And>d. result_of ?ph = Some d \<Longrightarrow> (\<exists>old. dp_phases p ! i = Some old \<and> result_of old = Some d) \<or> cached env j (dp_files p) (dd_sha512 d)"
    using hit by blast+
qed (use at in \<open>simp_all add: set_phase_def restoring_def\<close>)

text \<open>A phase with its files and its failure, put into the pool.\<close>

definition put_phase :: "nat \<Rightarrow> dl_phase \<times> files \<Rightarrow> dl_pool \<Rightarrow> dl_pool" where
  "put_phase i r p = note_failure (fst r) (set_phase i (fst r) (p\<lparr>dp_files := snd r\<rparr>))"

lemma put_phase_simps:
  "dp_phases (put_phase i r p) = (dp_phases p)[i := Some (fst r)]" "dp_files (put_phase i r p) = snd r"
  "dp_err p \<noteq> None \<Longrightarrow> dp_err (put_phase i r p) \<noteq> None" "fst r = Dl_Failed e \<Longrightarrow> dp_err (put_phase i r p) \<noteq> None"
  by (auto simp: put_phase_def note_failure_def set_phase_def split: dl_phase.splits)

lemma drop_inv:
  assumes inv: "pool_inv env j pkgs p" and i: "i < length pkgs" and at: "dp_phases p ! i = Some (Dl_Drop key)" and sep: "separate_paths j pkgs"
  shows "pool_inv env j pkgs (put_phase i (drop_entry env j (pkgs ! i) key (dp_files p)) p)"
proof -
  let ?r = "drop_entry env j (pkgs ! i) key (dp_files p)" and ?q = "put_phase i (drop_entry env j (pkgs ! i) key (dp_files p)) p"
  have key: "sha512_cache_key (lp_integrity (pkgs ! i)) = Some key"
    using inv i at by (auto simp: pool_inv_def phase_ok_def)
  then obtain a where a: "key = hex_encode a" using cache_key_integrity by blast
  have cases: "fst ?r = Dl_Fetch \<and> (snd ?r = dp_files p \<or> snd ?r = (dp_files p)(cache_path j key := None)) \<or> (\<exists>e. fst ?r = Dl_Failed e) \<and> snd ?r = dp_files p"
    by (auto simp: drop_entry_def Let_def split: option.splits)
  show ?thesis
  proof (rule pool_inv_update [OF inv i _ put_phase_simps(1)])
    show "phase_ok env j (pkgs ! i) (dp_files ?q) (fst ?r)" using cases by (auto simp: phase_ok_idle)
    show "dp_err p \<noteq> None \<Longrightarrow> dp_err ?q \<noteq> None" "\<And>e. fst ?r = Dl_Failed e \<Longrightarrow> dp_err ?q \<noteq> None" by (fact put_phase_simps)+
    show "dp_files ?q (download_path j (pkgs ! k)) = dp_files p (download_path j (pkgs ! k))" if "k < length pkgs" for k
      using cases paths_apart(2) [OF sep that, of a] a by (auto simp: put_phase_simps)
    show "cached env j (dp_files ?q) (hex_encode b) \<or> dp_err ?q \<noteq> None \<or> restoring (pkgs ! i) (Some (fst ?r)) (hex_encode b)"
      if "cached env j (dp_files p) (hex_encode b)" for b
      using cases that key paths_apart(1) [OF sep i, of b a] a
      by (cases "hex_encode b = key") (auto simp: put_phase_simps restoring_def cached_def)
    show "(\<exists>old. dp_phases p ! i = Some old \<and> result_of old = Some d) \<or> cached env j (dp_files ?q) (dd_sha512 d)" if "result_of (fst ?r) = Some d" for d
      using cases that by auto
  qed (use at in \<open>simp add: restoring_def\<close>)
qed

lemma fetch_inv:
  assumes inv: "pool_inv env j pkgs p" and i: "i < length pkgs" and at: "dp_phases p ! i = Some Dl_Fetch" and sep: "separate_paths j pkgs"
  shows "pool_inv env j pkgs (put_phase i (download_step env j (pkgs ! i) Dl_Fetch (dp_files p)) p)"
proof -
  let ?r = "download_step env j (pkgs ! i) Dl_Fetch (dp_files p)" and ?tmp = "download_path j (pkgs ! i)"
  let ?q = "put_phase i ?r p"
  obtain res fs where f: "fetch_tarball env j (pkgs ! i) (dp_files p) = (res, fs)" by fastforce
  have own: "(\<forall>x. x \<noteq> ?tmp \<longrightarrow> x \<noteq> ?tmp @ ''.part'' \<longrightarrow> snd ?r x = dp_files p x)
      \<and> ((\<exists>e. fst ?r = Dl_Failed e) \<or> (\<exists>hex body. fst ?r = Dl_Store hex \<and> snd ?r ?tmp = Some body \<and> fits_package env (pkgs ! i) body hex))"
  proof (cases "parse_integrity (lp_integrity (pkgs ! i))")
    case (Inl e)
    then show ?thesis using f by (auto simp: fetch_tarball_def download_file_def)
  next
    case (Inr aw)
    obtain alg want where aw: "aw = (alg, want)" by fastforce
    from download_file_result [OF f [unfolded fetch_tarball_def] Inr [unfolded aw]] f Inr aw show ?thesis
      by (cases res) (auto simp: fits_package_def)
  qed
  have cache: "snd ?r (cache_path j (hex_encode b)) = dp_files p (cache_path j (hex_encode b))" for b
    using own paths_apart(2,3) [OF sep i, of b] by blast
  show ?thesis
  proof (rule pool_inv_update [OF inv i _ put_phase_simps(1)])
    show "phase_ok env j (pkgs ! i) (dp_files ?q) (fst ?r)"
      using conjunct2 [OF own] unfolding put_phase_simps(2) by (elim disjE exE conjE) (simp_all add: phase_ok_def)
    show "dp_err p \<noteq> None \<Longrightarrow> dp_err ?q \<noteq> None" "\<And>e. fst ?r = Dl_Failed e \<Longrightarrow> dp_err ?q \<noteq> None" by (fact put_phase_simps)+
    show "dp_files ?q (download_path j (pkgs ! k)) = dp_files p (download_path j (pkgs ! k))" if "k < length pkgs" "k \<noteq> i" for k
      using conjunct1 [OF own] paths_apart(4,5) [OF sep that(1), of i] i that(2) unfolding put_phase_simps(2) by metis
    show "cached env j (dp_files ?q) (hex_encode b) \<or> dp_err ?q \<noteq> None \<or> restoring (pkgs ! i) (Some (fst ?r)) (hex_encode b)"
      if "cached env j (dp_files p) (hex_encode b)" for b
      using that cache [of b] by (simp add: cached_def put_phase_simps)
    show "cached env j (dp_files ?q) hex \<or> dp_err ?q \<noteq> None \<or> restoring (pkgs ! i) (Some (fst ?r)) hex"
      if "restoring (pkgs ! i) (dp_phases p ! i) hex" for hex
      using conjunct2 [OF own] that put_phase_simps(4) [of ?r _ i p] unfolding restoring_def by blast
    show "(\<exists>old. dp_phases p ! i = Some old \<and> result_of old = Some d) \<or> cached env j (dp_files ?q) (dd_sha512 d)" if "result_of (fst ?r) = Some d" for d
      using conjunct2 [OF own] that by (elim disjE exE conjE) simp_all
  qed
qed

lemma store_inv:
  assumes inv: "pool_inv env j pkgs p" and i: "i < length pkgs" and at: "dp_phases p ! i = Some (Dl_Store hex)" and sep: "separate_paths j pkgs"
  shows "pool_inv env j pkgs (put_phase i (store_tarball env j (pkgs ! i) hex (dp_files p)) p)"
proof -
  let ?r = "store_tarball env j (pkgs ! i) hex (dp_files p)" and ?tmp = "download_path j (pkgs ! i)" and ?path = "cache_path j hex"
  let ?d = "\<lparr>dd_pkg = pkgs ! i, dd_path = ?path, dd_sha512 = hex\<rparr>"
  let ?q = "put_phase i ?r p"
  obtain body where body: "dp_files p ?tmp = Some body" "fits_package env (pkgs ! i) body hex"
    using inv i at unfolding pool_inv_def phase_ok_def by blast
  then have hex: "hex = hex_encode (xe_hash env Sha512 body)" by (simp add: fits_package_def)
  have cases: "(\<exists>e. fst ?r = Dl_Failed e) \<and> snd ?r = dp_files p
      \<or> fst ?r = Dl_Hits ?d False \<and> snd ?r = (dp_files p)(?tmp := None, ?path \<mapsto> body)"
    by (auto simp: store_tarball_def Let_def body(1) split: option.splits)
  have stored: "cached env j (snd ?r) (hex_encode b)" if "cached env j (dp_files p) (hex_encode b)" for b
    using cases that paths_apart(1) [OF sep i, of b "xe_hash env Sha512 body"] paths_apart(2) [OF sep i, of b] hex
    by (cases "hex_encode b = hex") (auto simp: cached_def)
  have mine: "(\<exists>e. fst ?r = Dl_Failed e) \<or> cached env j (snd ?r) hex" using cases hex by (auto simp: cached_def)
  show ?thesis
  proof (rule pool_inv_update [OF inv i _ put_phase_simps(1)])
    show "phase_ok env j (pkgs ! i) (dp_files ?q) (fst ?r)"
      using cases body(2) by (auto simp: phase_ok_def) blast
    show "dp_err p \<noteq> None \<Longrightarrow> dp_err ?q \<noteq> None" "\<And>e. fst ?r = Dl_Failed e \<Longrightarrow> dp_err ?q \<noteq> None" by (fact put_phase_simps)+
    show "dp_files ?q (download_path j (pkgs ! k)) = dp_files p (download_path j (pkgs ! k))" if "k < length pkgs" "k \<noteq> i" for k
      using cases paths_apart(2) [OF sep that(1), of "xe_hash env Sha512 body"] paths_apart(4) [OF sep that(1) i] that(2) hex
      by (auto simp: put_phase_simps)
    show "cached env j (dp_files ?q) (hex_encode b) \<or> dp_err ?q \<noteq> None \<or> restoring (pkgs ! i) (Some (fst ?r)) (hex_encode b)"
      if "cached env j (dp_files p) (hex_encode b)" for b
      using stored [OF that] by (simp add: put_phase_simps)
    show "cached env j (dp_files ?q) key \<or> dp_err ?q \<noteq> None \<or> restoring (pkgs ! i) (Some (fst ?r)) key"
      if again: "restoring (pkgs ! i) (dp_phases p ! i) key" for key
    proof -
      obtain d where d: "key = hex_encode d" "\<forall>alg want. parse_integrity (lp_integrity (pkgs ! i)) = Inr (alg, want) \<longrightarrow> alg = Sha512 \<and> want = d"
        using again cache_key_integrity unfolding restoring_def by blast
      then have "key = hex" using body(2) by (auto simp: fits_package_def)
      then show ?thesis using mine put_phase_simps(2,4) by metis
    qed
    show "(\<exists>old. dp_phases p ! i = Some old \<and> result_of old = Some d) \<or> cached env j (dp_files ?q) (dd_sha512 d)" if "result_of (fst ?r) = Some d" for d
      using mine that cases unfolding put_phase_simps(2) by auto
  qed
qed

lemma worker_step_put: "(\<exists>key. ph = Dl_Drop key) \<or> ph = Dl_Fetch \<or> (\<exists>hex. ph = Dl_Store hex) \<Longrightarrow>
    worker_step env j pkgs i ph p = put_phase i (download_step env j (pkgs ! i) ph (dp_files p)) p"
  by (auto simp: put_phase_def split: prod.splits)

lemma pool_inv_step:
  assumes inv: "pool_inv env j pkgs p" and sep: "separate_paths j pkgs" and dig: "digests_of_64 env"
  shows "pool_inv env j pkgs (pool_step env j pkgs i p)"
proof (cases "i < length pkgs")
  case i: True
  show ?thesis
  proof (cases "dp_phases p ! i")
    case None
    have "pool_inv env j pkgs (set_phase i Dl_Cache p)"
      by (rule pool_inv_quiet [OF inv i, where ph = Dl_Cache]) (simp_all add: set_phase_def phase_ok_idle restoring_def None)
    then show ?thesis using None i inv by (simp add: pool_step_def)
  next
    case (Some ph)
    have quiet: "pool_inv env j pkgs q" if "dp_phases q = (dp_phases p)[i := Some x]" "dp_files q = dp_files p" "dp_err q = dp_err p"
      "result_of ph = Some d" "result_of x = Some d" for q x d
    proof (rule pool_inv_quiet [OF inv i that(1-3)])
      have "phase_ok env j (pkgs ! i) (dp_files p) ph" using inv i Some by (auto simp: pool_inv_def)
      then show "phase_ok env j (pkgs ! i) (dp_files p) x"
        using that(4,5) by (cases ph; cases x) (simp_all add: phase_ok_def)
      show "x \<noteq> Dl_Failed e" for e using that(5) by auto
      show "\<not> restoring (pkgs ! i) (dp_phases p ! i) hex" for hex using that(4) Some by (auto simp: restoring_def)
      show "(\<exists>old. dp_phases p ! i = Some old \<and> result_of old = Some d') \<or> cached env j (dp_files p) (dd_sha512 d')" if "result_of x = Some d'" for d'
        using that \<open>result_of x = Some d\<close> \<open>result_of ph = Some d\<close> Some by simp
    qed
    have "pool_inv env j pkgs (worker_step env j pkgs i ph p)"
    proof (cases ph)
      case Dl_Cache
      have "worker_step env j pkgs i Dl_Cache p = set_phase i (look_in_cache env j (pkgs ! i) (dp_files p)) p"
        by (auto simp: note_failure_def set_phase_def look_in_cache_def split: dl_phase.splits option.splits if_splits)
      then show ?thesis using look_inv [OF inv i _ dig] Some Dl_Cache by simp
    next
      case (Dl_Drop key)
      then show ?thesis using drop_inv [OF inv i _ sep, of key] Some worker_step_put [of ph env j pkgs i p] by simp
    next
      case Dl_Fetch
      then show ?thesis using fetch_inv [OF inv i _ sep] Some worker_step_put [of ph env j pkgs i p] by simp
    next
      case (Dl_Store hex)
      then show ?thesis using store_inv [OF inv i _ sep, of hex] Some worker_step_put [of ph env j pkgs i p] by simp
    next
      case (Dl_Hits d hit)
      then show ?thesis by (intro quiet [of _ "Dl_Count d" d]) (simp_all add: set_phase_def)
    next
      case (Dl_Count d)
      then show ?thesis by (intro quiet [of _ "Dl_Load d (dp_done p + 1)" d]) (simp_all add: set_phase_def)
    next
      case (Dl_Load d k)
      then show ?thesis by (intro quiet [of _ "Dl_Tell d k (dp_hits p)" d]) (simp_all add: set_phase_def)
    next
      case (Dl_Tell d k h)
      then show ?thesis by (intro quiet [of _ "Dl_Ended d" d]) (simp_all add: set_phase_def)
    qed (use inv in simp_all)
    then show ?thesis using Some i by (simp add: pool_step_def)
  qed
qed (use inv in \<open>simp add: pool_step_def\<close>)

lemma pool_inv_new: "pool_inv env j pkgs (new_pool pkgs fs)"
  by (simp add: pool_inv_def new_pool_def)

lemma pool_inv_steps: "pool_inv env j pkgs p \<Longrightarrow> separate_paths j pkgs \<Longrightarrow> digests_of_64 env \<Longrightarrow>
    pool_inv env j pkgs (fold (pool_step env j pkgs) sched p)"
  by (induction sched arbitrary: p) (auto intro: pool_inv_step)

text \<open>A result and what the files hold for it.\<close>

definition verified_download :: "export_env \<Rightarrow> export_job \<Rightarrow> files \<Rightarrow> lock_package \<Rightarrow> downloaded \<Rightarrow> bool" where
  "verified_download env j fs p d \<longleftrightarrow> dd_pkg d = p \<and> dd_path d = cache_path j (dd_sha512 d)
     \<and> (\<exists>c. fs (dd_path d) = Some c \<and> dd_sha512 d = hex_encode (xe_hash env Sha512 c)
          \<and> (\<exists>body alg want. parse_integrity (lp_integrity p) = Inr (alg, want) \<and> xe_hash env alg body = want
               \<and> xe_hash env Sha512 body = xe_hash env Sha512 c))"

lemma run_pool_verified:
  assumes "separate_paths j pkgs" "digests_of_64 env" "dp_err (run_pool env j pkgs fs) = None"
  shows "list_all2 (verified_download env j (dp_files (run_pool env j pkgs fs))) pkgs (results_of (run_pool env j pkgs fs))"
proof -
  let ?p = "run_pool env j pkgs fs"
  have inv: "pool_inv env j pkgs ?p"
    unfolding run_pool_def by (rule pool_inv_steps [OF pool_inv_new assms(1,2)])
  have ends: "length (dp_phases ?p) = length pkgs" "\<And>k. k < length pkgs \<Longrightarrow> at_end (dp_phases ?p ! k)"
    using pool_ends [of env j pkgs "xe_schedule env" fs] unfolding run_pool_def by blast+
  have ended: "\<exists>d. dp_phases ?p ! k = Some (Dl_Ended d) \<and> verified_download env j (dp_files ?p) (pkgs ! k) d" if k: "k < length pkgs" for k
  proof -
    have idle: "\<not> restoring (pkgs ! m) (dp_phases ?p ! m) hex" if "m < length pkgs" for m hex
      using ends(2) [OF that] by (auto simp: restoring_def)
    from ends(2) [OF k] obtain ph where ph: "dp_phases ?p ! k = Some ph" "(\<exists>d. ph = Dl_Ended d) \<or> (\<exists>e. ph = Dl_Failed e)"
      by (cases "dp_phases ?p ! k" rule: at_end.cases) auto
    from inv k ph(1) have facts: "phase_ok env j (pkgs ! k) (dp_files ?p) ph" "\<forall>e. ph = Dl_Failed e \<longrightarrow> dp_err ?p \<noteq> None"
      "\<forall>d. result_of ph = Some d \<longrightarrow> cached env j (dp_files ?p) (dd_sha512 d) \<or> dp_err ?p \<noteq> None
         \<or> (\<exists>m < length pkgs. restoring (pkgs ! m) (dp_phases ?p ! m) (dd_sha512 d))"
      unfolding pool_inv_def by blast+
    from ph(2) facts(2) assms(3) obtain d where d: "ph = Dl_Ended d" by blast
    then have "cached env j (dp_files ?p) (dd_sha512 d)" using facts(3) assms(3) idle by auto
    then obtain c where c: "dp_files ?p (cache_path j (dd_sha512 d)) = Some c" "hex_encode (xe_hash env Sha512 c) = dd_sha512 d"
      by (auto simp: cached_def)
    from facts(1) d obtain body where "dd_pkg d = pkgs ! k" "dd_path d = cache_path j (dd_sha512 d)" "fits_package env (pkgs ! k) body (dd_sha512 d)"
      by (auto simp: phase_ok_def)
    with c have "verified_download env j (dp_files ?p) (pkgs ! k) d"
      unfolding verified_download_def fits_package_def by (metis hex_encode_inj)
    then show ?thesis using ph(1) d by blast
  qed
  show ?thesis
    using ended ends(1) by (fastforce simp: list_all2_conv_all_nth results_of_def)
qed

text \<open>C7. However the downloads interleave over the shared cache, when none failed each package has a result whose
  cache file holds, at the end, bytes of the sha512 the result names, which is the sha512 of bytes that pass the
  package's integrity. A corrupt cache entry is never kept, and one that a worker drops is there again.\<close>

theorem downloads_verified:
  assumes "separate_paths j pkgs" "digests_of_64 env" "dp_err (run_pool env j pkgs fs) = None"
  shows "list_all2 (verified_download env j (dp_files (run_pool env j pkgs fs))) pkgs (results_of (run_pool env j pkgs fs))"
  by (rule run_pool_verified [OF assms])

subsection \<open>A sample download\<close>

lemma sample_integrity: "parse_integrity sample_sri = Inr (Sha512, replicate 64 (CHR 0x00))"
  by code_simp

lemma sample_cache_key: "sha512_cache_key sample_sri = Some (hex_encode (replicate 64 (CHR 0x00)))"
  by code_simp

definition sample_download :: downloaded where
  "sample_download = (let hex = hex_encode (replicate 64 (CHR 0x00)) in
     \<lparr>dd_pkg = sample_shipped, dd_path = cache_path sample_export hex, dd_sha512 = hex\<rparr>)"

lemma sample_fetches: "\<exists>fs. fetch_tarball calm_export sample_export sample_shipped Map.empty = (Inr (hex_encode (replicate 64 (CHR 0x00))), fs)
    \<and> fs (download_path sample_export sample_shipped) = Some ''J''"
  by (simp add: fetch_tarball_def download_file_def sample_integrity do_request_def attempts_or_default_def numeral_eq_Suc sample_shipped_def
      try_fetch_def save_body_def Let_def calm_export_def zero_hash_def)

lemma sample_pool: "\<exists>p. run_pool calm_export sample_export [sample_shipped] Map.empty = p \<and> dp_err p = None
    \<and> results_of p = [sample_download] \<and> dp_files p (dd_path sample_download) = Some ''J''"
proof -
  obtain fs where fs: "fetch_tarball calm_export sample_export sample_shipped Map.empty = (Inr (hex_encode (replicate 64 (CHR 0x00))), fs)"
    "fs (download_path sample_export sample_shipped) = Some ''J''" using sample_fetches by blast
  have sri: "lp_integrity sample_shipped = sample_sri" by (simp add: sample_shipped_def)
  have look: "look_in_cache calm_export sample_export sample_shipped Map.empty = Dl_Fetch"
    by (simp add: look_in_cache_def sri sample_cache_key file_sha512_def)
  have width: "0 < download_width (xj_settings sample_export)" by (simp add: sample_export_def download_width_def default_settings_def)
  have "to_the_end 1 = replicate 9 0" by (simp add: to_the_end_def)
  then have "run_pool calm_export sample_export [sample_shipped] Map.empty
      = fold (pool_step calm_export sample_export [sample_shipped]) (replicate 9 0) (new_pool [sample_shipped] Map.empty)"
    by (simp add: run_pool_def)
  also have "\<exists>p. \<dots> = p \<and> dp_err p = None \<and> results_of p = [sample_download] \<and> dp_files p (dd_path sample_download) = Some ''J''"
    by (simp add: numeral_eq_Suc new_pool_def pool_step_def may_start_def in_flight_def width set_phase_def look fs note_failure_def
        store_tarball_def Let_def results_of_def sample_download_def)
  finally show ?thesis .
qed

lemma sample_separate: "separate_paths sample_export [sample_shipped]" "digests_of_64 calm_export"
proof -
  have "clean_dir (xj_root sample_export)" "clean_dir (xj_dir sample_export)" by code_simp+
  then show "separate_paths sample_export [sample_shipped]" by (simp add: separate_paths_def sample_shipped_def)
qed (simp add: digests_of_64_def zero_hash_def)

theorem downloads_verified_witness:
  "verified_download calm_export sample_export (dp_files (run_pool calm_export sample_export [sample_shipped] Map.empty))
     sample_shipped sample_download"
proof -
  have "dp_err (run_pool calm_export sample_export [sample_shipped] Map.empty) = None" using sample_pool by blast
  from downloads_verified [OF sample_separate this] show ?thesis using sample_pool by auto
qed

end
