(* ===== verification/Jobs_Export.thy ===== *)
theory Jobs_Export
  imports Export_Pool
begin

text \<open>
  \<^verbatim>\<open>internal/jobs/export.go\<close>, from the downloaded tarballs to the end of \<^verbatim>\<open>Run\<close>: the rewriting of tarballs that hold
  a publishConfig, the archive, the reports beside it, and what a failed run leaves. A body of a step takes and
  returns the state of the run: the files of the volume, the documents of the export's folder by name, and the
  events. Durations are left out.
\<close>

subsection \<open>State\<close>

datatype export_doc = Manifest_Json archive_manifest | Findings_Csv string | Summary_Md string | Trivy_Json trivy_report
  | Scan_Input | Cdx_Json | Export_Status string string "step_row list"

record export_run =
  xr_files :: files
  xr_docs :: "(string, export_doc) gomap"
  xr_events :: "export_event list"

definition export_error_text :: "export_error \<Rightarrow> string" where
  "export_error_text e = (case e of
     Signature_Key_Missing \<Rightarrow> ''jobs: signatureKey is empty, set it in settings before exporting''
   | Unknown_Selection bad \<Rightarrow> ''jobs: selection names a version the analysis did not resolve: '' @ join_with '', '' bad
   | Tampered m \<Rightarrow> ''jobs: downloaded tarball does not match its recorded integrity, possible tampering: '' @ m
   | Export_Failed m \<Rightarrow> m)"

definition emit_row :: "string \<Rightarrow> string \<Rightarrow> string \<Rightarrow> export_run \<Rightarrow> export_run" where
  "emit_row name state err r = r\<lparr>xr_events := xr_events r @ [Export_Step \<lparr>sr_name = name, sr_state = state, sr_error = err\<rparr>]\<rparr>"

text \<open>Every step says it runs, and then that it is done, or that it failed and why.\<close>

definition export_step :: "string \<Rightarrow> (export_run \<Rightarrow> (export_error + 'a) \<times> export_run) \<Rightarrow> export_run \<Rightarrow> (export_error + 'a) \<times> export_run" where
  "export_step name body r = (case body (emit_row name state_running '''' r) of
     (Inl e, r') \<Rightarrow> (Inl e, emit_row name state_failed (export_error_text e) r')
   | (Inr x, r') \<Rightarrow> (Inr x, emit_row name state_done '''' r'))"

definition fail_with :: "string \<Rightarrow> string option \<Rightarrow> export_error + unit" where
  "fail_with what err = (case err of None \<Rightarrow> Inr () | Some e \<Rightarrow> Inl (Export_Failed (what @ e)))"

text \<open>A check before the rest of a body.\<close>

definition unless_failed :: "export_error + unit \<Rightarrow> (export_run \<Rightarrow> (export_error + 'a) \<times> export_run) \<Rightarrow> export_run
    \<Rightarrow> (export_error + 'a) \<times> export_run" where
  "unless_failed c body r = (case c of Inl e \<Rightarrow> (Inl e, r) | Inr _ \<Rightarrow> body r)"

definition put_file :: "string \<Rightarrow> bytes \<Rightarrow> export_run \<Rightarrow> export_run" where
  "put_file path b r = r\<lparr>xr_files := (xr_files r)(path \<mapsto> b)\<rparr>"

definition put_export_doc :: "string \<Rightarrow> export_doc \<Rightarrow> export_run \<Rightarrow> export_run" where
  "put_export_doc name d r = r\<lparr>xr_docs := gm_put name d (xr_docs r)\<rparr>"

definition open_file :: "export_env \<Rightarrow> string \<Rightarrow> files \<Rightarrow> string \<Rightarrow> string + bytes" where
  "open_file env what fs path = (case xe_fault env what path of Some e \<Rightarrow> Inl e
     | None \<Rightarrow> (case fs path of None \<Rightarrow> Inl (''open '' @ path @ '': no such file or directory'') | Some b \<Rightarrow> Inr b))"

subsection \<open>Packages and downloads\<close>

definition list_step :: "export_env \<Rightarrow> export_job \<Rightarrow> export_run \<Rightarrow> (export_error + lock_package list) \<times> export_run" where
  "list_step env j r = (package_list env j, r)"

definition download_all :: "export_env \<Rightarrow> export_job \<Rightarrow> lock_package list \<Rightarrow> export_run \<Rightarrow> (export_error + downloaded list) \<times> export_run" where
  "download_all env j pkgs =
     unless_failed (fail_with ''jobs: create downloads dir: '' (xe_fault env ''mkdir'' (path_join [xj_dir j, ''downloads''])))
    (unless_failed (fail_with ''jobs: create tarball cache: '' (xe_fault env ''mkdir'' (path_join [xj_root j, ''cache'', ''tarballs''])))
    (\<lambda>r. let p = run_pool env j pkgs (xr_files r);
             r = r\<lparr>xr_files := dp_files p, xr_events := xr_events r @ dp_events p\<rparr>
         in (case dp_err p of Some e \<Rightarrow> (Inl e, r) | None \<Rightarrow> (Inr (results_of p), r))))"

subsection \<open>Stripping\<close>

record shipped =
  sh_pkg :: lock_package
  sh_file :: string
  sh_path :: string
  sh_size :: int
  sh_sha512 :: string
  sh_original :: string
  sh_stripped :: bool

definition stripped_path :: "export_job \<Rightarrow> string \<Rightarrow> string" where
  "stripped_path j name = path_join [path_join [xj_dir j, ''stripped''], name]"

definition pack_name :: "lock_package \<Rightarrow> string" where
  "pack_name p = pack_file_name (lp_name p) (lp_version p)"

text \<open>The second half of \<^verbatim>\<open>stripOne\<close>: the rewritten tarball and its hash, both from the writes.\<close>

definition write_stripped :: "export_env \<Rightarrow> 'j tar_api \<Rightarrow> export_job \<Rightarrow> downloaded \<Rightarrow> bytes \<Rightarrow> export_run \<Rightarrow> (export_error + shipped) \<times> export_run" where
  "write_stripped env ta j d b =
     (let p = dd_pkg d; name = pack_name p; out = stripped_path j name; dir = path_join [xj_dir j, ''stripped''];
          failed = (\<lambda>e. Inl (Export_Failed (''jobs: strip publishConfig from '' @ lp_key p @ '': '' @ e))) in
      unless_failed (fail_with (''jobs: create '' @ dir @ '': '') (xe_fault env ''mkdir'' dir))
     (unless_failed (fail_with (''jobs: create '' @ out @ '': '') (xe_fault env ''create'' out))
     (\<lambda>r. case xe_fault env ''rewind'' (dd_path d) of
        Some e \<Rightarrow> (Inl (Export_Failed (''jobs: rewind '' @ dd_path d @ '': '' @ e)), put_file out [] r)
      | None \<Rightarrow> (case strip_publish_config ta b of
          Inl f \<Rightarrow> (failed (fault_text f), put_file out (xe_partial env out) r)
        | Inr es \<Rightarrow> (case xe_fault env ''write'' out of
            Some e \<Rightarrow> (failed e, put_file out (xe_partial env out) r)
          | None \<Rightarrow>
             (let data = xe_tar_bytes env es; r = put_file out data r in
              case xe_fault env ''close'' out of Some e \<Rightarrow> (failed e, r)
              | None \<Rightarrow> unless_failed (fail_with (''jobs: stat '' @ out @ '': '') (xe_fault env ''stat'' out))
                  (\<lambda>r. (Inr \<lparr>sh_pkg = p, sh_file = name, sh_path = out, sh_size = int (length data),
                     sh_sha512 = hex_encode (xe_hash env Sha512 data), sh_original = dd_sha512 d, sh_stripped = True\<rparr>, r)) r))))))"

definition strip_one :: "export_env \<Rightarrow> 'j tar_api \<Rightarrow> export_job \<Rightarrow> nat \<Rightarrow> downloaded \<Rightarrow> export_run \<Rightarrow> (export_error + shipped) \<times> export_run" where
  "strip_one env ta j i d =
     unless_failed (fail_with '''' (xe_ctx env ''strip'' i))
     (\<lambda>r. case open_file env ''open'' (xr_files r) (dd_path d) of
        Inl e \<Rightarrow> (Inl (Export_Failed (''jobs: open '' @ dd_path d @ '': '' @ e)), r)
      | Inr b \<Rightarrow> (case inspect_tarball ta b of
          Inl f \<Rightarrow> (Inl (Export_Failed (''jobs: inspect '' @ lp_key (dd_pkg d) @ '': '' @ fault_text f)), r)
        | Inr info \<Rightarrow>
            if tf_publish_config info then write_stripped env ta j d b r
            else unless_failed (fail_with (''jobs: stat '' @ dd_path d @ '': '') (xe_fault env ''stat'' (dd_path d)))
              (\<lambda>r. (Inr \<lparr>sh_pkg = dd_pkg d, sh_file = pack_name (dd_pkg d), sh_path = dd_path d, sh_size = int (length b),
                 sh_sha512 = dd_sha512 d, sh_original = dd_sha512 d, sh_stripped = False\<rparr>, r)) r))"

fun strip_each :: "export_env \<Rightarrow> 'j tar_api \<Rightarrow> export_job \<Rightarrow> nat \<Rightarrow> downloaded list \<Rightarrow> export_run
    \<Rightarrow> (export_error + shipped list) \<times> export_run" where
  "strip_each env ta j i [] r = (Inr [], r)"
| "strip_each env ta j i (d # ds) r = and_then (strip_one env ta j i d r) (\<lambda>s r.
     and_then (strip_each env ta j (i + 1) ds r) (\<lambda>ss r. (Inr (s # ss), r)))"

subsection \<open>The archive\<close>

record archive_facts =
  ac_sha256 :: string
  ac_size :: int

text \<open>The context is asked when an entry is opened.\<close>

definition archive_entry :: "export_env \<Rightarrow> files \<Rightarrow> shipped \<Rightarrow> write_entry" where
  "archive_entry env fs s = \<lparr>we_name = sh_file s, we_size = sh_size s,
     we_open = (case xe_ctx env (sh_file s) 0 of Some e \<Rightarrow> Inl e | None \<Rightarrow> open_file env ''pack'' fs (sh_path s))\<rparr>"

definition key_file_entry :: "export_env \<Rightarrow> string \<Rightarrow> write_entry" where
  "key_file_entry env key = \<lparr>we_name = ''signature.key'', we_size = int (length key),
     we_open = (case xe_ctx env ''signature.key'' 0 of Some e \<Rightarrow> Inl e | None \<Rightarrow> Inr key)\<rparr>"

definition archive_path :: "export_job \<Rightarrow> string" where
  "archive_path j = path_join [xj_dir j, ''packages_npm.tar.gz'']"

definition write_archive :: "export_env \<Rightarrow> export_job \<Rightarrow> shipped list \<Rightarrow> export_run \<Rightarrow> (export_error + archive_facts) \<times> export_run" where
  "write_archive env j ss =
     (let path = archive_path j; failed = (\<lambda>e. Inl (Export_Failed (''jobs: write archive: '' @ e))) in
      unless_failed (fail_with ''jobs: create archive: '' (xe_fault env ''create'' path))
     (\<lambda>r. case write_tar_gz (xe_write_faults env) ''out''
            (map (archive_entry env (xr_files r)) ss @ [key_file_entry env (se_key (xj_settings j))]) of
        Inl e \<Rightarrow> (failed e, put_file path (xe_partial env path) r)
      | Inr hs \<Rightarrow> (let data = xe_archive_bytes env hs; r = put_file path data r in
          case xe_fault env ''close'' path of Some e \<Rightarrow> (failed e, r)
          | None \<Rightarrow> unless_failed (fail_with ''jobs: stat archive: '' (xe_fault env ''stat'' path))
              (\<lambda>r. (Inr \<lparr>ac_sha256 = hex_encode (xe_sha256 env data), ac_size = int (length data)\<rparr>, r)) r)))"

subsection \<open>The reports\<close>

definition package_record :: "shipped \<Rightarrow> package" where
  "package_record s = \<lparr>pk_name = lp_name (sh_pkg s), pk_version = lp_version (sh_pkg s), pk_file = sh_file s,
     pk_integrity = lp_integrity (sh_pkg s), pk_sha512 = sh_sha512 s, pk_stripped = sh_stripped s\<rparr>"

definition target_record :: "platform_target \<Rightarrow> target" where
  "target_record t = \<lparr>tg_os = pt_os t, tg_cpu = pt_cpu t, tg_libc = pt_libc t, tg_node = pt_node t, tg_pnpm = pt_pnpm t\<rparr>"

definition export_manifest_of :: "export_env \<Rightarrow> export_job \<Rightarrow> shipped list \<Rightarrow> archive_facts \<Rightarrow> archive_manifest" where
  "export_manifest_of env j ss arch = \<lparr>am_tool = xe_tool env, am_analysis = xj_analysis j, am_created = xe_now env,
     am_target = target_record (xj_target j), am_sha256 = ac_sha256 arch, am_size = ac_size arch,
     am_packages = map package_record ss\<rparr>"

text \<open>One of the JSON and text files, written whole or not at all.\<close>

definition write_export_doc :: "export_env \<Rightarrow> export_job \<Rightarrow> string \<Rightarrow> export_doc \<Rightarrow> export_run \<Rightarrow> (export_error + unit) \<times> export_run" where
  "write_export_doc env j name d = unless_failed (fail_with '''' (xe_fault env ''write'' (path_join [xj_dir j, name])))
     (\<lambda>r. (Inr (), put_export_doc name d r))"

text \<open>A file that is created first and then written: a failed write leaves it, as it was created.\<close>

definition create_doc :: "export_env \<Rightarrow> export_job \<Rightarrow> string \<Rightarrow> string \<Rightarrow> string \<Rightarrow> export_doc \<Rightarrow> export_doc \<Rightarrow> string option
    \<Rightarrow> export_run \<Rightarrow> (export_error + unit) \<times> export_run" where
  "create_doc env j what wrap name partial whole err =
     unless_failed (fail_with what (xe_fault env ''create'' (path_join [xj_dir j, name])))
     (\<lambda>r. case err of Some e \<Rightarrow> (Inl (Export_Failed (wrap @ e)), put_export_doc name partial r)
      | None \<Rightarrow> unless_failed (fail_with wrap (xe_fault env ''close'' (path_join [xj_dir j, name])))
          (\<lambda>r. (Inr (), r)) (put_export_doc name whole r))"

definition shipped_components :: "shipped list \<Rightarrow> (string \<times> string) list" where
  "shipped_components ss = map (\<lambda>s. (lp_name (sh_pkg s), lp_version (sh_pkg s))) ss"

definition write_trivy_reports :: "export_env \<Rightarrow> export_job \<Rightarrow> shipped list \<Rightarrow> export_run \<Rightarrow> (export_error + unit) \<times> export_run" where
  "write_trivy_reports env j ss r =
     (let cs = shipped_components ss; a = xe_scan env in
      and_then (create_doc env j (''jobs: create '' @ path_join [xj_dir j, ''export.cdx-input.json''] @ '': '') ''jobs: write exported sbom: ''
          ''export.cdx-input.json'' Scan_Input Scan_Input (sa_write a) r) (\<lambda>_.
      unless_failed (fail_with ''jobs: scan exported set: '' (sa_trivy a cs)) (\<lambda>r.
      let r = (case sa_report a cs of Inl e \<Rightarrow> r | Inr rep \<Rightarrow> put_export_doc ''report.trivy.json'' (Trivy_Json rep) r) in
      unless_failed (fail_with ''jobs: convert exported report to cyclonedx: '' (xe_convert env))
        (\<lambda>r. (Inr (), put_export_doc ''report.cdx.json'' Cdx_Json r)) r)))"

definition current_version_of :: "analysis_result \<Rightarrow> string \<Rightarrow> string" where
  "current_version_of res name = (case find (\<lambda>d. dr_name d = name) (an_dependencies res) of None \<Rightarrow> '''' | Some d \<Rightarrow> dr_current d)"

definition lockfile_keys :: "export_env \<Rightarrow> export_job \<Rightarrow> string \<Rightarrow> string \<Rightarrow> export_error + string list" where
  "lockfile_keys env j name version = try_bind (read_lockfile env (candidate_lockfile_path j name version))
     (\<lambda>pkgs. Inr (map lp_key (filter_platform (platform_of (xj_target j)) pkgs)))"

definition resolutions_of :: "export_env \<Rightarrow> export_job \<Rightarrow> string \<Rightarrow> export_error + resolution list" where
  "resolutions_of env j name = (let vs = selected_versions (xj_selection j) name; current = current_version_of (xj_result j) name in
     if vs = [] then Inr []
     else try_bind (lockfile_keys env j name current) (\<lambda>cks.
       map_err (\<lambda>v. try_bind (lockfile_keys env j name v) (\<lambda>sks.
         Inr \<lparr>rn_name = name, rn_current = current, rn_selected = v, rn_current_keys = cks, rn_selected_keys = sks\<rparr>)) vs))"

definition read_candidates :: "export_env \<Rightarrow> export_error + finding list" where
  "read_candidates env = (case xe_candidates env of
     Inl e \<Rightarrow> Inl (Export_Failed (''jobs: read candidates.trivy.json: '' @ e))
   | Inr decoded \<Rightarrow> (case read_trivy decoded of
       Inl e \<Rightarrow> Inl (Export_Failed (''jobs: parse candidates.trivy.json: '' @ e)) | Inr fs \<Rightarrow> Inr fs))"

definition write_findings_csv :: "export_env \<Rightarrow> export_job \<Rightarrow> export_run \<Rightarrow> (export_error + unit) \<times> export_run" where
  "write_findings_csv env j r =
     (case try_bind (read_candidates env) (\<lambda>fs. try_bind (map_err (resolutions_of env j) (sorted_keys (xj_selection j)))
             (\<lambda>rss. Inr (findings_csv (findings_rows (new_index fs) (concat rss))))) of
        Inl e \<Rightarrow> (Inl e, r)
      | Inr csv \<Rightarrow> create_doc env j ''jobs: create findings.csv: '' '''' ''findings.csv'' (Findings_Csv '''') (Findings_Csv csv)
          (xe_fault env ''write'' (path_join [xj_dir j, ''findings.csv''])) r)"

text \<open>The zero values when status.json of the analysis cannot be read.\<close>

definition read_analysis_status :: "export_env \<Rightarrow> analysis_summary" where
  "read_analysis_status env = (case xe_status env of Inl e \<Rightarrow> \<lparr>as_created = '''', as_trivy = '''', as_trivy_db = ''''\<rparr> | Inr s \<Rightarrow> s)"

definition find_candidate :: "candidate_result list \<Rightarrow> string \<Rightarrow> candidate_result option" where
  "find_candidate cs version = find (\<lambda>c. da_version c = version) cs"

definition changes_of :: "export_env \<Rightarrow> export_job \<Rightarrow> dependency_result \<Rightarrow> (dependency_change \<times> signal_note list) list" where
  "changes_of env j d = map (\<lambda>v. (case find_candidate (dr_candidates d) v of
        None \<Rightarrow> (\<lparr>dh_name = dr_name d, dh_current = dr_current d, dh_selected = v, dh_before = dr_vector d, dh_after = dr_vector d\<rparr>, [])
      | Some c \<Rightarrow> (\<lparr>dh_name = dr_name d, dh_current = dr_current d, dh_selected = v, dh_before = dr_vector d, dh_after = da_vector c\<rparr>,
          map (\<lambda>s. \<lparr>no_dependency = dr_name d, no_version = v, no_signal = si_name s, no_evidence = xe_evidence env (si_evidence s)\<rparr>)
            (filter (\<lambda>s. \<not> si_blocking s) (da_signals c)))))
     (filter (\<lambda>v. v \<noteq> dr_current d) (selected_versions (xj_selection j) (dr_name d)))"

definition remaining_findings :: "export_env \<Rightarrow> shipped list \<Rightarrow> export_error + finding list \<times> finding list" where
  "remaining_findings env ss = (case sa_open (xe_scan env) of
     Some e \<Rightarrow> Inl (Export_Failed (''jobs: read report.trivy.json: '' @ e))
   | None \<Rightarrow> (case read_trivy (sa_report (xe_scan env) (shipped_components ss)) of
       Inl e \<Rightarrow> Inl (Export_Failed (''jobs: parse report.trivy.json: '' @ e))
     | Inr fs \<Rightarrow> Inr (filter (\<lambda>f. fd_severity f = Critical) fs, filter (\<lambda>f. fd_severity f = High) fs)))"

definition summary_of :: "export_env \<Rightarrow> export_job \<Rightarrow> shipped list \<Rightarrow> archive_facts \<Rightarrow> finding list \<times> finding list \<Rightarrow> export_summary" where
  "summary_of env j ss arch rem = (let st = read_analysis_status env;
       changes = concat (map (changes_of env j) (an_dependencies (xj_result j))) in
     \<lparr>so_analysis_date = as_created st, so_trivy_date = as_trivy_db st, so_trivy = as_trivy st, so_tool = xe_tool env,
      so_target = xj_target j, so_before = an_before (xj_result j), so_after = an_after (xj_result j),
      so_dependencies = map fst changes, so_critical = fst rem, so_high = snd rem, so_signals = concat (map snd changes),
      so_size = ac_size arch, so_sha256 = ac_sha256 arch, so_count = int (length ss)\<rparr>)"

definition write_export_summary :: "export_env \<Rightarrow> export_job \<Rightarrow> shipped list \<Rightarrow> archive_facts \<Rightarrow> export_run
    \<Rightarrow> (export_error + unit) \<times> export_run" where
  "write_export_summary env j ss arch r = (case remaining_findings env ss of
     Inl e \<Rightarrow> (Inl e, r)
   | Inr rem \<Rightarrow> (let w = write_summary (xe_writer env) (summary_of env j ss arch rem) in
       create_doc env j ''jobs: create summary.md: '' '''' ''summary.md'' (Summary_Md (ew_text w)) (Summary_Md (ew_text w)) (ew_err w) r))"

definition write_reports :: "export_env \<Rightarrow> export_job \<Rightarrow> shipped list \<Rightarrow> archive_facts \<Rightarrow> export_run \<Rightarrow> (export_error + unit) \<times> export_run" where
  "write_reports env j ss arch r =
     and_then (write_export_doc env j ''manifest.json'' (Manifest_Json (export_manifest_of env j ss arch)) r) (\<lambda>_ r.
     and_then (write_trivy_reports env j ss r) (\<lambda>_ r.
     and_then (write_findings_csv env j r) (\<lambda>_ r. write_export_summary env j ss arch r)))"

subsection \<open>Run\<close>

text \<open>\<^verbatim>\<open>os.RemoveAll\<close> of an entry of the export's folder: a file of the model, a document, or all below it.\<close>

definition remove_tree :: "export_job \<Rightarrow> string \<Rightarrow> export_run \<Rightarrow> export_run" where
  "remove_tree j name r = (let path = path_join [xj_dir j, name] in
     r\<lparr>xr_files := (\<lambda>p. if p = path \<or> has_prefix (path @ ''/'') p then None else xr_files r p), xr_docs := gm_del name (xr_docs r)\<rparr>)"

fun prune_each :: "export_env \<Rightarrow> export_job \<Rightarrow> string list \<Rightarrow> export_run \<Rightarrow> (export_error + unit) \<times> export_run" where
  "prune_each env j [] r = (Inr (), r)"
| "prune_each env j (n # ns) r = unless_failed (fail_with (''jobs: remove '' @ n @ '': '') (xe_fault env ''prune'' (path_join [xj_dir j, n])))
     (\<lambda>r. prune_each env j ns (remove_tree j n r)) r"

definition prune_working_files :: "export_env \<Rightarrow> export_job \<Rightarrow> export_run \<Rightarrow> (export_error + unit) \<times> export_run" where
  "prune_working_files env j = prune_each env j [''downloads'', ''stripped'', ''export.cdx-input.json'']"

definition clean_one :: "export_env \<Rightarrow> export_job \<Rightarrow> string \<Rightarrow> export_run \<Rightarrow> export_run" where
  "clean_one env j name r = (if xe_fault env ''clean'' (path_join [xj_dir j, name]) \<noteq> None then r else remove_tree j name r)"

definition working_names :: "string list" where
  "working_names = [''downloads'', ''stripped'', ''export.cdx-input.json'', ''packages_npm.tar.gz'']"

fun recorded_steps :: "export_event list \<Rightarrow> step_row list" where
  "recorded_steps [] = []"
| "recorded_steps (Export_Step row # es) = row # recorded_steps es"
| "recorded_steps (Export_Progress k n h # es) = recorded_steps es"

definition failed_export :: "export_env \<Rightarrow> export_job \<Rightarrow> export_run \<Rightarrow> export_run" where
  "failed_export env j r = (let state = (if xe_ctx env ''end'' 0 \<noteq> None then state_cancelled else state_failed);
       r' = fold (clean_one env j) working_names r in
     if xe_fault env ''write status'' (path_join [xj_dir j, ''status.json'']) \<noteq> None then r'
     else put_export_doc ''status.json'' (Export_Status state (xj_analysis j) (recorded_steps (xr_events r))) r')"

definition export_steps :: "export_env \<Rightarrow> 'j tar_api \<Rightarrow> export_job \<Rightarrow> export_run \<Rightarrow> (export_error + unit) \<times> export_run" where
  "export_steps env ta j r = (if se_key (xj_settings j) = '''' then (Inl Signature_Key_Missing, r)
     else and_then (export_step ''package-list'' (list_step env j) r) (\<lambda>pkgs r.
       and_then (export_step ''download'' (download_all env j pkgs) r) (\<lambda>ds r.
       and_then (export_step ''strip'' (strip_each env ta j 0 ds) r) (\<lambda>ss r.
       and_then (export_step ''archive'' (write_archive env j ss) r) (\<lambda>arch r.
       and_then (export_step ''reports'' (write_reports env j ss arch) r) (\<lambda>_ r.
       prune_working_files env j r))))))"

text \<open>\<open>r\<close> is a run that starts on the files of the volume, without a document and without an event.\<close>

definition run_export :: "export_env \<Rightarrow> 'j tar_api \<Rightarrow> export_job \<Rightarrow> files \<Rightarrow> export_error option \<times> export_run" where
  "run_export env ta j fs = (case export_steps env ta j \<lparr>xr_files = fs, xr_docs = [], xr_events = []\<rparr> of
     (Inl e, r) \<Rightarrow> (Some e, failed_export env j r)
   | (Inr _, r) \<Rightarrow> (None, r))"

subsection \<open>What a successful run went through\<close>

named_theorems export_ok \<open>when an operation of the export succeeds\<close>

lemma fail_with_Inr [export_ok]: "fail_with what err = Inr u \<longleftrightarrow> err = None"
  by (auto simp: fail_with_def split: option.splits)

lemma unless_failed_Inr [export_ok]: "unless_failed c body r = (Inr x, r') \<longleftrightarrow> c = Inr () \<and> body r = (Inr x, r')"
  by (cases c) (auto simp: unless_failed_def)

lemma export_step_Inr [export_ok]: "export_step name body r = (Inr x, r') \<longleftrightarrow>
    (\<exists>r1. body (emit_row name state_running '''' r) = (Inr x, r1) \<and> r' = emit_row name state_done '''' r1)"
  by (auto simp: export_step_def split: prod.splits sum.splits)

lemma emit_row_simps [simp]: "xr_files (emit_row n s e r) = xr_files r" "xr_docs (emit_row n s e r) = xr_docs r"
  by (simp_all add: emit_row_def)

lemma put_export_doc_simps [simp]: "xr_files (put_export_doc n d r) = xr_files r" "xr_events (put_export_doc n d r) = xr_events r"
  "gm_get (xr_docs (put_export_doc n d r)) m = (if m = n then Some d else gm_get (xr_docs r) m)"
  by (simp_all add: put_export_doc_def)

lemma put_file_simps [simp]: "xr_files (put_file p b r) = (xr_files r)(p \<mapsto> b)" "xr_docs (put_file p b r) = xr_docs r"
  "xr_events (put_file p b r) = xr_events r"
  by (simp_all add: put_file_def)

lemma open_file_Inr [export_ok]: "open_file env what fs path = Inr b \<longleftrightarrow> xe_fault env what path = None \<and> fs path = Some b"
  by (auto simp: open_file_def split: option.splits)

lemma download_all_Inr: "download_all env j pkgs r = (Inr ds, r') \<Longrightarrow>
    dp_err (run_pool env j pkgs (xr_files r)) = None \<and> ds = results_of (run_pool env j pkgs (xr_files r))
    \<and> xr_files r' = dp_files (run_pool env j pkgs (xr_files r))"
  by (auto simp: download_all_def Let_def export_ok split: option.splits)

lemma create_doc_Inr: "create_doc env j what wrap name partial whole err r = (Inr u, r') \<Longrightarrow> r' = put_export_doc name whole r \<and> err = None"
  by (auto simp: create_doc_def export_ok split: option.splits)

lemma write_reports_Inr:
  assumes "write_reports env j ss arch r = (Inr u, r')"
  shows "xr_files r' = xr_files r \<and> gm_get (xr_docs r') ''manifest.json'' = Some (Manifest_Json (export_manifest_of env j ss arch))
    \<and> gm_get (xr_docs r') ''status.json'' = gm_get (xr_docs r) ''status.json''"
proof -
  from assms obtain r1 r2 r3 u1 u2 u3 where
    1: "write_export_doc env j ''manifest.json'' (Manifest_Json (export_manifest_of env j ss arch)) r = (Inr u1, r1)" and
    2: "write_trivy_reports env j ss r1 = (Inr u2, r2)" and 3: "write_findings_csv env j r2 = (Inr u3, r3)" and
    4: "write_export_summary env j ss arch r3 = (Inr u, r')"
    by (auto simp: write_reports_def and_then_Inr)
  have "r1 = put_export_doc ''manifest.json'' (Manifest_Json (export_manifest_of env j ss arch)) r"
    using 1 by (auto simp: write_export_doc_def export_ok)
  moreover have "xr_files r2 = xr_files r1 \<and> gm_get (xr_docs r2) ''manifest.json'' = gm_get (xr_docs r1) ''manifest.json''
      \<and> gm_get (xr_docs r2) ''status.json'' = gm_get (xr_docs r1) ''status.json''"
  proof -
    obtain s what where s: "create_doc env j what ''jobs: write exported sbom: '' ''export.cdx-input.json'' Scan_Input Scan_Input (sa_write (xe_scan env)) r1 = (Inr (), s)"
      "r2 = put_export_doc ''report.cdx.json'' Cdx_Json (case sa_report (xe_scan env) (shipped_components ss) of Inl e \<Rightarrow> s
        | Inr rep \<Rightarrow> put_export_doc ''report.trivy.json'' (Trivy_Json rep) s)"
      using 2 unfolding write_trivy_reports_def Let_def and_then_Inr unless_failed_Inr by auto
    then show ?thesis using create_doc_Inr [OF s(1)] by (cases "sa_report (xe_scan env) (shipped_components ss)") simp_all
  qed
  moreover have "\<exists>d. r3 = put_export_doc ''findings.csv'' d r2"
    using 3 by (auto simp: write_findings_csv_def dest!: create_doc_Inr split: sum.splits)
  moreover have "\<exists>d. r' = put_export_doc ''summary.md'' d r3"
    using 4 by (auto simp: write_export_summary_def Let_def dest!: create_doc_Inr split: sum.splits)
  ultimately show ?thesis by auto
qed

lemma prune_each_Inr: "prune_each env j ns r = (Inr u, r') \<Longrightarrow> r' = fold (remove_tree j) ns r"
  by (induction ns arbitrary: r) (auto simp: export_ok)

lemma remove_trees:
  "xr_files (fold (remove_tree j) ns r) p = (if \<exists>n \<in> set ns. p = path_join [xj_dir j, n] \<or> has_prefix (path_join [xj_dir j, n] @ ''/'') p
     then None else xr_files r p)"
  "gm_get (xr_docs (fold (remove_tree j) ns r)) m = (if m \<in> set ns then None else gm_get (xr_docs r) m)"
  "xr_events (fold (remove_tree j) ns r) = xr_events r"
  by (induction ns arbitrary: r) (auto simp: remove_tree_def Let_def)

lemma write_archive_Inr: "write_archive env j ss r = (Inr arch, r') \<Longrightarrow>
    \<exists>hs. write_tar_gz (xe_write_faults env) ''out'' (map (archive_entry env (xr_files r)) ss @ [key_file_entry env (se_key (xj_settings j))]) = Inr hs
      \<and> r' = put_file (archive_path j) (xe_archive_bytes env hs) r
      \<and> arch = \<lparr>ac_sha256 = hex_encode (xe_sha256 env (xe_archive_bytes env hs)), ac_size = int (length (xe_archive_bytes env hs))\<rparr>"
  by (auto simp: write_archive_def Let_def export_ok split: sum.splits option.splits)

lemma run_export_None:
  assumes "run_export env ta j fs = (None, r)" and dir: "clean_dir (xj_dir j)"
  shows "\<exists>pkgs ss r1 r2 hs. package_list env j = Inr pkgs \<and> dp_err (run_pool env j pkgs fs) = None
    \<and> strip_each env ta j 0 (results_of (run_pool env j pkgs fs)) r1 = (Inr ss, r2) \<and> xr_files r1 = dp_files (run_pool env j pkgs fs)
    \<and> write_tar_gz (xe_write_faults env) ''out'' (map (archive_entry env (xr_files r2)) ss @ [key_file_entry env (se_key (xj_settings j))]) = Inr hs
    \<and> xr_files r (archive_path j) = Some (xe_archive_bytes env hs) \<and> se_key (xj_settings j) \<noteq> ''''
    \<and> gm_get (xr_docs r) ''manifest.json'' = Some (Manifest_Json (export_manifest_of env j ss
        \<lparr>ac_sha256 = hex_encode (xe_sha256 env (xe_archive_bytes env hs)), ac_size = int (length (xe_archive_bytes env hs))\<rparr>))"
proof -
  from assms(1) have key: "se_key (xj_settings j) \<noteq> ''''"
    and run: "export_steps env ta j \<lparr>xr_files = fs, xr_docs = [], xr_events = []\<rparr> = (Inr (), r)"
    by (auto simp: run_export_def export_steps_def split: prod.splits sum.splits if_splits)
  let ?r0 = "\<lparr>xr_files = fs, xr_docs = [], xr_events = []\<rparr> :: export_run"
  from run key obtain pkgs ds ss arch u r1 r2 r3 r4 r5 where
    1: "export_step ''package-list'' (list_step env j) ?r0 = (Inr pkgs, r1)" and 2: "export_step ''download'' (download_all env j pkgs) r1 = (Inr ds, r2)" and
    3: "export_step ''strip'' (strip_each env ta j 0 ds) r2 = (Inr ss, r3)" and 4: "export_step ''archive'' (write_archive env j ss) r3 = (Inr arch, r4)" and
    5: "export_step ''reports'' (write_reports env j ss arch) r4 = (Inr u, r5)" and 6: "prune_working_files env j r5 = (Inr (), r)"
    unfolding export_steps_def by (auto simp: and_then_Inr)
  from 1 have pkgs: "package_list env j = Inr pkgs" "xr_files r1 = fs" by (auto simp: export_ok list_step_def)
  from 2 pkgs(2) have dl: "dp_err (run_pool env j pkgs fs) = None" "ds = results_of (run_pool env j pkgs fs)"
    "xr_files r2 = dp_files (run_pool env j pkgs fs)"
    by (auto simp: export_ok dest!: download_all_Inr)
  from 3 obtain r3' where st: "strip_each env ta j 0 ds (emit_row ''strip'' state_running '''' r2) = (Inr ss, r3')" "xr_files r3 = xr_files r3'"
    by (auto simp: export_ok)
  from 4 obtain hs where ar: "write_tar_gz (xe_write_faults env) ''out'' (map (archive_entry env (xr_files r3)) ss @ [key_file_entry env (se_key (xj_settings j))]) = Inr hs"
    "xr_files r4 = (xr_files r3)(archive_path j \<mapsto> xe_archive_bytes env hs)"
    "arch = \<lparr>ac_sha256 = hex_encode (xe_sha256 env (xe_archive_bytes env hs)), ac_size = int (length (xe_archive_bytes env hs))\<rparr>"
    by (auto simp: export_ok dest!: write_archive_Inr)
  from 5 have rp: "xr_files r5 = xr_files r4" "gm_get (xr_docs r5) ''manifest.json'' = Some (Manifest_Json (export_manifest_of env j ss arch))"
    by (auto simp: export_ok dest!: write_reports_Inr)
  have pr: "r = fold (remove_tree j) [''downloads'', ''stripped'', ''export.cdx-input.json''] r5"
    using 6 prune_each_Inr unfolding prune_working_files_def by blast
  have seg: "plain_seg n" if "n \<in> {''downloads'', ''stripped'', ''export.cdx-input.json'', ''packages_npm.tar.gz''}" for n
    using that by (auto simp: plain_seg_def)
  have keep: "\<not> (archive_path j = path_join [xj_dir j, n] \<or> has_prefix (path_join [xj_dir j, n] @ ''/'') (archive_path j))"
    if "n \<in> {''downloads'', ''stripped'', ''export.cdx-input.json''}" for n
    using that path_join_segs(1) [OF dir seg, of n] path_join_segs(1) [OF dir seg, of "''packages_npm.tar.gz''"]
    by (auto simp: archive_path_def has_prefix_iff)
  have "xr_files r (archive_path j) = Some (xe_archive_bytes env hs)"
    using keep ar(2) rp(1) unfolding pr remove_trees by simp
  moreover have "gm_get (xr_docs r) ''manifest.json'' = Some (Manifest_Json (export_manifest_of env j ss arch))"
    using rp(2) unfolding pr remove_trees by simp
  ultimately show ?thesis using pkgs(1) dl(1,3) st ar(1,3) key dl(2) by (metis emit_row_simps(1))
qed

subsection \<open>The shipped files\<close>

text \<open>A shipped file holds what its hash and size say; one that was not rewritten is the cached tarball.\<close>

definition shipped_from :: "export_env \<Rightarrow> files \<Rightarrow> downloaded \<Rightarrow> shipped \<Rightarrow> bool" where
  "shipped_from env fs d s \<longleftrightarrow> sh_pkg s = dd_pkg d \<and> sh_file s = pack_name (dd_pkg d)
     \<and> (\<exists>b. fs (sh_path s) = Some b \<and> sh_size s = int (length b)
          \<and> (if sh_stripped s then sh_sha512 s = hex_encode (xe_hash env Sha512 b)
             else sh_path s = dd_path d \<and> sh_sha512 s = dd_sha512 d))"

lemma write_stripped_Inr: "write_stripped env ta j d b r = (Inr s, r') \<Longrightarrow>
    \<exists>data. r' = put_file (stripped_path j (sh_file s)) data r \<and> sh_pkg s = dd_pkg d \<and> sh_file s = pack_name (dd_pkg d)
      \<and> sh_path s = stripped_path j (sh_file s) \<and> sh_size s = int (length data) \<and> sh_sha512 s = hex_encode (xe_hash env Sha512 data)
      \<and> sh_stripped s"
  by (auto simp: write_stripped_def Let_def export_ok split: option.splits sum.splits)

lemma strip_one_Inr:
  assumes "strip_one env ta j i d r = (Inr s, r')"
  shows "shipped_from env (xr_files r') d s \<and> (\<forall>p. p \<noteq> stripped_path j (sh_file s) \<longrightarrow> xr_files r' p = xr_files r p)
    \<and> (sh_stripped s \<longrightarrow> sh_path s = stripped_path j (sh_file s))"
proof -
  let ?stat = "unless_failed (fail_with (''jobs: stat '' @ dd_path d @ '': '') (xe_fault env ''stat'' (dd_path d)))"
  let ?kept = "\<lambda>b. \<lparr>sh_pkg = dd_pkg d, sh_file = pack_name (dd_pkg d), sh_path = dd_path d, sh_size = int (length b),
           sh_sha512 = dd_sha512 d, sh_original = dd_sha512 d, sh_stripped = False\<rparr>"
  have "\<exists>b c. xr_files r (dd_path d) = Some b
      \<and> (if c then write_stripped env ta j d b r else ?stat (\<lambda>r. (Inr (?kept b), r)) r) = (Inr s, r')"
  proof (cases "open_file env ''open'' (xr_files r) (dd_path d)")
    case (Inl e)
    then show ?thesis using assms by (simp add: strip_one_def unless_failed_Inr)
  next
    case (Inr b)
    note opened = Inr
    show ?thesis
    proof (cases "inspect_tarball ta b")
      case (Inl f)
      then show ?thesis using assms opened by (simp add: strip_one_def unless_failed_Inr)
    next
      case (Inr info)
      then have "(if tf_publish_config info then write_stripped env ta j d b r else ?stat (\<lambda>r. (Inr (?kept b), r)) r) = (Inr s, r')"
        using assms opened unfolding strip_one_def unless_failed_Inr [of "fail_with [] _"] by simp
      moreover have "xr_files r (dd_path d) = Some b" using opened by (simp add: open_file_Inr)
      ultimately have "xr_files r (dd_path d) = Some b \<and> (if tf_publish_config info then write_stripped env ta j d b r
          else ?stat (\<lambda>r. (Inr (?kept b), r)) r) = (Inr s, r')" by (rule conjI [rotated])
      then show ?thesis by (intro exI [of _ b] exI [of _ "tf_publish_config info"])
    qed
  qed
  then obtain b c where b: "xr_files r (dd_path d) = Some b"
    and rest: "(if c then write_stripped env ta j d b r else ?stat (\<lambda>r. (Inr (?kept b), r)) r) = (Inr s, r')"
    by blast
  show ?thesis
  proof (cases c)
    case True
    then show ?thesis using rest write_stripped_Inr [of env ta j d b r s r'] by (auto simp: shipped_from_def)
  next
    case False
    then show ?thesis using rest b by (auto simp: export_ok shipped_from_def)
  qed
qed

lemma list_all2_in2: "list_all2 P xs ys \<Longrightarrow> y \<in> set ys \<Longrightarrow> \<exists>x \<in> set xs. P x y"
  by (induction rule: list_all2_induct) auto

lemma strip_each_files: "strip_each env ta j i ds r = (Inr ss, r') \<Longrightarrow> p \<notin> stripped_path j ` sh_file ` set ss \<Longrightarrow> xr_files r' p = xr_files r p"
proof (induction ds arbitrary: i r ss)
  case (Cons d ds)
  then obtain s ss' r1 where s: "strip_one env ta j i d r = (Inr s, r1)" "strip_each env ta j (i + 1) ds r1 = (Inr ss', r')" "ss = s # ss'"
    by (auto simp: and_then_Inr)
  then show ?case using Cons.IH [OF s(2)] strip_one_Inr [OF s(1)] Cons.prems(2) by auto
qed simp

lemma strip_each_Inr:
  assumes "strip_each env ta j i ds r = (Inr ss, r')" "distinct (map (stripped_path j) (map sh_file ss))"
    and "\<And>d f. d \<in> set ds \<Longrightarrow> f \<in> pack_name ` dd_pkg ` set ds \<Longrightarrow> dd_path d \<noteq> stripped_path j f"
  shows "list_all2 (shipped_from env (xr_files r')) ds ss"
  using assms
proof (induction ds arbitrary: i r ss)
  case (Cons d ds)
  then obtain s ss' r1 where s: "strip_one env ta j i d r = (Inr s, r1)" "strip_each env ta j (i + 1) ds r1 = (Inr ss', r')" "ss = s # ss'"
    by (auto simp: and_then_Inr)
  have rest: "list_all2 (shipped_from env (xr_files r')) ds ss'"
    by (rule Cons.IH [OF s(2)]) (use Cons.prems s(3) in auto)
  have files: "sh_file ` set ss' \<subseteq> pack_name ` dd_pkg ` set ds"
  proof
    fix f assume "f \<in> sh_file ` set ss'"
    then obtain s' where s': "s' \<in> set ss'" "f = sh_file s'" by blast
    from list_all2_in2 [OF rest s'(1)] obtain d' where "d' \<in> set ds" "sh_file s' = pack_name (dd_pkg d')"
      unfolding shipped_from_def by blast
    then show "f \<in> pack_name ` dd_pkg ` set ds" using s'(2) by blast
  qed
  note one = strip_one_Inr [OF s(1)]
  have "sh_path s \<notin> stripped_path j ` sh_file ` set ss'"
  proof (cases "sh_stripped s")
    case True
    then show ?thesis using one Cons.prems(2) s(3) by auto
  next
    case False
    then have own: "sh_path s = dd_path d" using one by (auto simp: shipped_from_def)
    have "dd_path d \<noteq> stripped_path j f" if f: "f \<in> sh_file ` set ss'" for f
    proof (rule Cons.prems(3))
      show "f \<in> pack_name ` dd_pkg ` set (d # ds)" using subsetD [OF files f] by simp
    qed simp
    then show ?thesis unfolding own by blast
  qed
  then have "xr_files r' (sh_path s) = xr_files r1 (sh_path s)" by (rule strip_each_files [OF s(2)])
  then have "shipped_from env (xr_files r') d s" using one by (simp add: shipped_from_def)
  then show ?case using rest s(3) by simp
qed simp

lemma stripped_path_at: "clean_dir (xj_dir j) \<Longrightarrow> plain_seg f \<Longrightarrow> stripped_path j f = xj_dir j @ ''/stripped/'' @ f"
proof -
  assume d: "clean_dir (xj_dir j)" and f: "plain_seg f"
  have seg: "plain_seg ''stripped''" by (simp add: plain_seg_def)
  show ?thesis
    unfolding stripped_path_def path_join_segs(1) [OF d seg] path_join_segs(1) [OF clean_dir_seg [OF d seg] f] by simp
qed

lemma pack_name_plain: "CHR ''/'' \<notin> set (lp_version p) \<Longrightarrow> plain_seg (pack_name p)"
  by (auto simp: pack_name_def pack_file_name_def plain_seg_def append_eq_Cons_conv split: if_splits)

end
