(* ===== verification/Export_Record.thy ===== *)
theory Export_Record
  imports Jobs_Export
begin

text \<open>
  What a failed or cancelled export leaves (\<^verbatim>\<open>Run\<close> and \<^verbatim>\<open>failed\<close> of \<^verbatim>\<open>internal/jobs/export.go\<close>): its steps as they
  were told, and none of its working files.
\<close>

subsection \<open>The events of a run\<close>

definition rows_of :: "export_run \<Rightarrow> step_row list" where
  "rows_of r = recorded_steps (xr_events r)"

definition quiet :: "(export_run \<Rightarrow> 'a \<times> export_run) \<Rightarrow> bool" where
  "quiet body \<longleftrightarrow> (\<forall>r. rows_of (snd (body r)) = rows_of r
     \<and> gm_get (xr_docs (snd (body r))) ''status.json'' = gm_get (xr_docs r) ''status.json'')"

named_theorems quiet_intros \<open>bodies that tell no step and write no status\<close>

lemma recorded_steps_append: "recorded_steps (es @ fs) = recorded_steps es @ recorded_steps fs"
  by (induction es rule: recorded_steps.induct) simp_all

lemma rows_of_simps [simp]:
  "rows_of (emit_row n s e r) = rows_of r @ [\<lparr>sr_name = n, sr_state = s, sr_error = e\<rparr>]"
  "rows_of (put_export_doc m d r) = rows_of r" "rows_of (put_file p b r) = rows_of r" "rows_of (remove_tree j m r) = rows_of r"
  by (simp_all add: rows_of_def emit_row_def recorded_steps_append put_export_doc_def put_file_def remove_tree_def Let_def)

lemma quiet_unless_failed [quiet_intros]: "quiet body \<Longrightarrow> quiet (unless_failed c body)"
  by (auto simp: quiet_def unless_failed_def split: sum.splits)

lemma quiet_pair [quiet_intros]: "quiet (Pair x)"
  by (simp add: quiet_def)

lemma quiet_list [quiet_intros]: "quiet (list_step env j)"
  by (simp add: quiet_def list_step_def)

lemma worker_step_events: "recorded_steps (dp_events (worker_step env j pkgs i ph p)) = recorded_steps (dp_events p)"
  by (cases ph) (auto simp: set_phase_def note_failure_def recorded_steps_append split: prod.splits dl_phase.splits)

lemma pool_step_events: "recorded_steps (dp_events (pool_step env j pkgs i p)) = recorded_steps (dp_events p)"
  by (auto simp: pool_step_def worker_step_events set_phase_def split: option.splits)

lemma pool_events: "recorded_steps (dp_events (fold (pool_step env j pkgs) is p)) = recorded_steps (dp_events p)"
  by (induction "is" arbitrary: p) (simp_all add: pool_step_events)

lemma quiet_download [quiet_intros]: "quiet (download_all env j pkgs)"
proof -
  have "recorded_steps (dp_events (run_pool env j pkgs fs)) = []" for fs
    unfolding run_pool_def pool_events by (simp add: new_pool_def)
  then show ?thesis
    unfolding download_all_def Let_def
    by (intro quiet_unless_failed) (auto simp: quiet_def rows_of_def recorded_steps_append split: option.splits)
qed

lemma quiet_strip_one [quiet_intros]: "quiet (strip_one env ta j i d)"
  by (auto simp: quiet_def strip_one_def write_stripped_def unless_failed_def Let_def split: sum.splits option.splits)

lemma quiet_and_then: "quiet a \<Longrightarrow> (\<And>x. quiet (f x)) \<Longrightarrow> quiet (\<lambda>r. and_then (a r) f)"
  unfolding quiet_def and_then_def by (auto split: prod.splits sum.splits) (metis snd_conv)+

lemma quiet_strip [quiet_intros]: "quiet (strip_each env ta j i ds)"
proof (induction ds arbitrary: i)
  case (Cons d ds)
  have "strip_each env ta j i (d # ds) = (\<lambda>r. and_then (strip_one env ta j i d r) (\<lambda>s r.
     and_then (strip_each env ta j (i + 1) ds r) (\<lambda>ss r. (Inr (s # ss), r))))" by (simp add: fun_eq_iff)
  then show ?case by (simp only:) (intro quiet_and_then quiet_strip_one Cons.IH quiet_pair)
qed (simp add: quiet_def)

lemma quiet_archive [quiet_intros]: "quiet (write_archive env j ss)"
  by (auto simp: quiet_def write_archive_def unless_failed_def Let_def split: sum.splits option.splits)

lemma quiet_prune [quiet_intros]: "''status.json'' \<notin> set ns \<Longrightarrow> quiet (prune_each env j ns)"
proof (induction ns)
  case (Cons n ns)
  have "prune_each env j (n # ns) = unless_failed (fail_with (''jobs: remove '' @ n @ '': '') (xe_fault env ''prune'' (path_join [xj_dir j, n])))
     (\<lambda>r. prune_each env j ns (remove_tree j n r))" by (simp add: fun_eq_iff)
  moreover have "quiet (\<lambda>r. prune_each env j ns (remove_tree j n r))" using Cons by (simp add: quiet_def) (simp add: remove_tree_def Let_def)
  ultimately show ?case by (simp add: quiet_unless_failed)
qed (simp add: quiet_def)

lemma quiet_create_doc [quiet_intros]: "name \<noteq> ''status.json'' \<Longrightarrow> quiet (create_doc env j what wrap name partial whole err)"
  by (auto simp: quiet_def create_doc_def unless_failed_def split: sum.splits option.splits)

lemma quiet_reports [quiet_intros]: "quiet (write_reports env j ss arch)"
proof -
  have 1: "quiet (write_export_doc env j ''manifest.json'' d)" for d
    by (auto simp: quiet_def write_export_doc_def unless_failed_def split: sum.splits)
  have 2: "quiet (write_trivy_reports env j ss)"
    unfolding write_trivy_reports_def Let_def
    by (rule quiet_and_then) (auto simp: quiet_def unless_failed_def create_doc_def split: sum.splits option.splits)
  have 3: "quiet (write_findings_csv env j)"
    using quiet_create_doc by (auto simp: quiet_def write_findings_csv_def split: sum.splits)
  have 4: "quiet (write_export_summary env j ss arch)"
    using quiet_create_doc by (auto simp: quiet_def write_export_summary_def Let_def split: sum.splits)
  show ?thesis
    unfolding write_reports_def by (intro quiet_and_then 1 2 3 4)
qed

subsection \<open>A failed run\<close>

definition export_step_names :: "string list" where
  "export_step_names = [''package-list'', ''download'', ''strip'', ''archive'', ''reports'']"

definition finished_rows :: "string list \<Rightarrow> step_row list" where
  "finished_rows ns = concat (map (\<lambda>n. [\<lparr>sr_name = n, sr_state = state_running, sr_error = ''''\<rparr>,
     \<lparr>sr_name = n, sr_state = state_done, sr_error = ''''\<rparr>]) ns)"

text \<open>The first \<open>k\<close> steps ended, and the next one, when there is one, failed.\<close>

definition rows_until :: "string list \<Rightarrow> nat \<Rightarrow> export_error \<Rightarrow> step_row list" where
  "rows_until ns k e = finished_rows (take k ns) @ (if k < length ns
     then [\<lparr>sr_name = ns ! k, sr_state = state_running, sr_error = ''''\<rparr>,
       \<lparr>sr_name = ns ! k, sr_state = state_failed, sr_error = export_error_text e\<rparr>] else [])"

lemma rows_until_Cons: "rows_until (n # ns) (Suc k) e = finished_rows [n] @ rows_until ns k e"
  by (simp add: rows_until_def finished_rows_def)

lemma rows_until_not_Nil: "ns \<noteq> [] \<Longrightarrow> rows_until ns k e \<noteq> []"
  by (cases ns) (auto simp: rows_until_def finished_rows_def)

lemma step_fails:
  assumes "quiet body" and "and_then (export_step n body r) f = (Inl e, r')"
    and rest: "\<And>x r1. f x r1 = (Inl e, r') \<Longrightarrow> \<exists>k \<le> length ns. rows_of r' = rows_of r1 @ rows_until ns k e"
  shows "\<exists>k \<le> length (n # ns). rows_of r' = rows_of r @ rows_until (n # ns) k e"
proof -
  obtain a r1 where b: "body (emit_row n state_running '''' r) = (a, r1)" by fastforce
  have rows: "rows_of r1 = rows_of r @ [\<lparr>sr_name = n, sr_state = state_running, sr_error = ''''\<rparr>]"
    using assms(1) b unfolding quiet_def by (metis rows_of_simps(1) snd_conv)
  show ?thesis
  proof (cases a)
    case (Inl e1)
    then have "e1 = e" "r' = emit_row n state_failed (export_error_text e) r1"
      using assms(2) b by (auto simp: and_then_def export_step_def)
    then show ?thesis using rows by (intro exI [of _ 0]) (simp add: rows_until_def finished_rows_def)
  next
    case (Inr x)
    then have "f x (emit_row n state_done '''' r1) = (Inl e, r')"
      using assms(2) b by (simp add: and_then_def export_step_def)
    from rest [OF this] obtain k where "k \<le> length ns" "rows_of r' = rows_of (emit_row n state_done '''' r1) @ rows_until ns k e"
      by blast
    then show ?thesis using rows by (intro exI [of _ "Suc k"]) (simp add: rows_until_Cons, simp add: finished_rows_def)
  qed
qed

lemma export_steps_Inl:
  assumes "export_steps env ta j r = (Inl e, r')" and key: "se_key (xj_settings j) \<noteq> ''''"
  shows "\<exists>k \<le> length export_step_names. rows_of r' = rows_of r @ rows_until export_step_names k e"
proof -
  note run = assms(1) [unfolded export_steps_def if_not_P [OF key]]
  have prune: "\<exists>k \<le> length []. rows_of r' = rows_of r5 @ rows_until [] k e" if p: "prune_working_files env j r5 = (Inl e, r')" for r5
  proof -
    have "rows_of (snd (prune_working_files env j r5)) = rows_of r5"
      using quiet_prune [of "[''downloads'', ''stripped'', ''export.cdx-input.json'']" env j]
      unfolding quiet_def prune_working_files_def by simp
    then show ?thesis unfolding p by (simp add: rows_until_def finished_rows_def)
  qed
  show ?thesis
    unfolding export_step_names_def
    by (rule step_fails [OF quiet_list run], erule step_fails [OF quiet_download], erule step_fails [OF quiet_strip],
        erule step_fails [OF quiet_archive], erule step_fails [OF quiet_reports], erule prune)
qed

text \<open>No step writes status.json.\<close>

definition no_status :: "(export_run \<Rightarrow> 'a \<times> export_run) \<Rightarrow> bool" where
  "no_status body \<longleftrightarrow> (\<forall>r. gm_get (xr_docs (snd (body r))) ''status.json'' = gm_get (xr_docs r) ''status.json'')"

lemma no_status_step: "quiet body \<Longrightarrow> no_status (export_step n body)"
  by (auto simp: no_status_def quiet_def export_step_def split: prod.splits sum.splits) (metis emit_row_simps(2) snd_conv)+

lemma no_status_and_then: "no_status a \<Longrightarrow> (\<And>x. no_status (f x)) \<Longrightarrow> no_status (\<lambda>r. and_then (a r) f)"
  unfolding no_status_def and_then_def by (auto split: prod.splits sum.splits) (metis snd_conv)+

lemma no_status_steps: "gm_get (xr_docs (snd (export_steps env ta j r))) ''status.json'' = gm_get (xr_docs r) ''status.json''"
proof (cases "se_key (xj_settings j) = []")
  case False
  have prune: "no_status (prune_working_files env j)"
    using quiet_prune [of "[''downloads'', ''stripped'', ''export.cdx-input.json'']" env j]
    by (simp add: quiet_def no_status_def prune_working_files_def)
  have "no_status (\<lambda>r. and_then (export_step ''package-list'' (list_step env j) r) (\<lambda>pkgs r.
       and_then (export_step ''download'' (download_all env j pkgs) r) (\<lambda>ds r.
       and_then (export_step ''strip'' (strip_each env ta j 0 ds) r) (\<lambda>ss r.
       and_then (export_step ''archive'' (write_archive env j ss) r) (\<lambda>arch r.
       and_then (export_step ''reports'' (write_reports env j ss arch) r) (\<lambda>_ r.
       prune_working_files env j r))))))"
    by (intro no_status_and_then no_status_step quiet_list quiet_download quiet_strip quiet_archive quiet_reports prune)
  then show ?thesis using False by (simp add: export_steps_def no_status_def)
qed (simp add: export_steps_def)

lemma clean_trees:
  "xr_files (fold (clean_one env j) ns r) p =
    (if \<exists>n \<in> set ns. xe_fault env ''clean'' (path_join [xj_dir j, n]) = None
        \<and> (p = path_join [xj_dir j, n] \<or> has_prefix (path_join [xj_dir j, n] @ ''/'') p) then None else xr_files r p)"
  "gm_get (xr_docs (fold (clean_one env j) ns r)) m =
    (if m \<in> set ns \<and> xe_fault env ''clean'' (path_join [xj_dir j, m]) = None then None else gm_get (xr_docs r) m)"
  "xr_events (fold (clean_one env j) ns r) = xr_events r"
  by (induction ns arbitrary: r) (auto simp: clean_one_def remove_tree_def Let_def)

lemma run_status:
  assumes "run_export env ta j fs = (res, r)"
  shows "gm_get (xr_docs r) ''status.json'' = (if res = None \<or> xe_fault env ''write status'' (path_join [xj_dir j, ''status.json'']) \<noteq> None
    then None else Some (Export_Status (if xe_ctx env ''end'' 0 \<noteq> None then state_cancelled else state_failed) (xj_analysis j) (rows_of r)))"
proof -
  let ?r0 = "\<lparr>xr_files = fs, xr_docs = [], xr_events = []\<rparr> :: export_run"
  obtain x r1 where run: "export_steps env ta j ?r0 = (x, r1)" by fastforce
  have none: "gm_get (xr_docs r1) ''status.json'' = None"
    using no_status_steps [of env ta j ?r0] by (simp add: run)
  then show ?thesis
    using assms by (cases x) (auto simp: run_export_def run failed_export_def Let_def rows_of_def clean_trees)
qed

lemma failed_rows:
  assumes "run_export env ta j fs = (Some e, r)"
  shows "se_key (xj_settings j) = '''' \<and> e = Signature_Key_Missing \<and> rows_of r = []
      \<or> (\<exists>k \<le> length export_step_names. rows_of r = rows_until export_step_names k e)"
proof -
  let ?r0 = "\<lparr>xr_files = fs, xr_docs = [], xr_events = []\<rparr> :: export_run"
  from assms obtain r1 where run: "export_steps env ta j ?r0 = (Inl e, r1)" and r: "r = failed_export env j r1"
    by (auto simp: run_export_def split: prod.splits sum.splits)
  have rows: "rows_of r = rows_of r1"
    unfolding r failed_export_def Let_def rows_of_def by (simp add: clean_trees)
  show ?thesis
  proof (cases "se_key (xj_settings j) = ''''")
    case True
    then have "e = Signature_Key_Missing \<and> r1 = ?r0" using run by (auto simp: export_steps_def)
    then show ?thesis using True rows by (simp add: rows_of_def)
  next
    case False
    have "rows_of ?r0 = []" by (simp add: rows_of_def)
    then show ?thesis using export_steps_Inl [OF run False] rows by simp
  qed
qed

lemma failed_run_cleaned:
  assumes "run_export env ta j fs = (Some e, r)"
    and "n \<in> {''downloads'', ''stripped'', ''export.cdx-input.json'', ''packages_npm.tar.gz''}"
    and "xe_fault env ''clean'' (path_join [xj_dir j, n]) = None"
  shows "gm_get (xr_docs r) n = None
    \<and> (\<forall>p. p = path_join [xj_dir j, n] \<or> has_prefix (path_join [xj_dir j, n] @ ''/'') p \<longrightarrow> xr_files r p = None)"
proof -
  let ?r0 = "\<lparr>xr_files = fs, xr_docs = [], xr_events = []\<rparr> :: export_run"
  from assms(1) obtain r1 where run: "export_steps env ta j ?r0 = (Inl e, r1)" and r: "r = failed_export env j r1"
    by (auto simp: run_export_def split: prod.splits sum.splits)
  have n: "n \<in> set working_names" using assms(2) unfolding working_names_def by simp
  have ne: "n \<noteq> ''status.json''" using assms(2) by (elim insertE) simp_all
  have docs: "gm_get (xr_docs (fold (clean_one env j) working_names r1)) n = None"
    unfolding clean_trees(2) using n assms(3) by simp
  have files: "xr_files (fold (clean_one env j) working_names r1) p = None"
    if "p = path_join [xj_dir j, n] \<or> has_prefix (path_join [xj_dir j, n] @ ''/'') p" for p
    unfolding clean_trees(1) by (rule if_P, rule bexI [OF _ n], intro conjI that assms(3))
  have same: "xr_files r = xr_files (fold (clean_one env j) working_names r1)
      \<and> gm_get (xr_docs r) n = gm_get (xr_docs (fold (clean_one env j) working_names r1)) n"
    unfolding r failed_export_def Let_def using ne by simp
  show ?thesis unfolding conjunct1 [OF same] conjunct2 [OF same] using docs files by (intro conjI allI impI)
qed

text \<open>C20. A failed export tells how far it came. When a run returns an error, its status.json, absent only when it cannot
  be written, names the analysis, says cancelled when the context ended and failed otherwise, and holds exactly the
  steps as they were told: the steps before the failure ran and ended, in their order, and the one that failed says
  why, in the words of the error; only a missing key fails before the first step, and only the removal of working
  files after the last. And of the downloads, the rewritten tarballs, the scan's input and the archive nothing is
  left, unless the disk refused to remove it.\<close>

theorem failed_export_recorded:
  assumes "run_export env ta j fs = (Some e, r)"
  shows "(se_key (xj_settings j) = '''' \<and> e = Signature_Key_Missing \<and> rows_of r = []
      \<or> (\<exists>k \<le> length export_step_names. rows_of r = rows_until export_step_names k e))
    \<and> gm_get (xr_docs r) ''status.json'' = (if xe_fault env ''write status'' (path_join [xj_dir j, ''status.json'']) = None
        then Some (Export_Status (if xe_ctx env ''end'' 0 \<noteq> None then state_cancelled else state_failed) (xj_analysis j) (rows_of r))
        else None)
    \<and> (\<forall>n \<in> {''downloads'', ''stripped'', ''export.cdx-input.json'', ''packages_npm.tar.gz''}.
        xe_fault env ''clean'' (path_join [xj_dir j, n]) = None \<longrightarrow> gm_get (xr_docs r) n = None
        \<and> (\<forall>p. p = path_join [xj_dir j, n] \<or> has_prefix (path_join [xj_dir j, n] @ ''/'') p \<longrightarrow> xr_files r p = None))"
proof (intro conjI)
  show "\<forall>n \<in> {''downloads'', ''stripped'', ''export.cdx-input.json'', ''packages_npm.tar.gz''}.
      xe_fault env ''clean'' (path_join [xj_dir j, n]) = None \<longrightarrow> gm_get (xr_docs r) n = None
      \<and> (\<forall>p. p = path_join [xj_dir j, n] \<or> has_prefix (path_join [xj_dir j, n] @ ''/'') p \<longrightarrow> xr_files r p = None)"
    by (rule ballI, rule impI, rule failed_run_cleaned [OF assms])
qed (rule failed_rows [OF assms], use run_status [OF assms] in simp)

definition unknown_version :: export_job where
  "unknown_version = sample_export\<lparr>xj_selection := [(''ms'', [''9.0.0''])]\<rparr>"

theorem failed_export_recorded_witness:
  "\<exists>e r. run_export calm_export sample_tar_api unknown_version Map.empty = (Some e, r) \<and> e = Unknown_Selection [''ms@9.0.0'']
    \<and> gm_get (xr_docs r) ''status.json'' = Some (Export_Status state_failed ''a'' (rows_of r)) \<and> rows_of r \<noteq> []"
proof -
  have "validate_selection (xj_result unknown_version) (xj_selection unknown_version) = [''ms@9.0.0'']" by code_simp
  then have "package_list calm_export unknown_version = Inl (Unknown_Selection [''ms@9.0.0''])" by (simp add: package_list_def)
  moreover have key: "se_key (xj_settings unknown_version) \<noteq> ''''" "xj_analysis unknown_version = ''a''" by code_simp+
  ultimately have "fst (run_export calm_export sample_tar_api unknown_version Map.empty) = Some (Unknown_Selection [''ms@9.0.0''])"
    by (simp add: run_export_def export_steps_def export_step_def list_step_def and_then_def)
  then obtain r where run: "run_export calm_export sample_tar_api unknown_version Map.empty = (Some (Unknown_Selection [''ms@9.0.0'']), r)"
    by (metis surjective_pairing)
  note recorded = failed_export_recorded [OF run]
  have "gm_get (xr_docs r) ''status.json'' = Some (Export_Status state_failed ''a'' (rows_of r))"
    using conjunct1 [OF conjunct2 [OF recorded]] key(2) by simp
  moreover have "rows_of r \<noteq> []"
    using conjunct1 [OF recorded] key(1) rows_until_not_Nil [of export_step_names] by (metis export_step_names_def list.distinct(1))
  ultimately show ?thesis using run by blast
qed

end
