(* ===== verification/Jobs_Service.thy ===== *)
theory Jobs_Service
  imports Jobs_Queue Export_Record
begin

text \<open>
  \<^verbatim>\<open>internal/jobs/service.go\<close>: the service between the HTTP handlers, the job queue and the volume. Three indexes name
  the jobs it submitted and has not finalized. The pointer of a tracked job is its value: its queue id is never
  given twice. \<open>service_step\<close> interleaves its requests, the store's other requests (deletes included), the steps of the
  queue, the writes of the running job and the finalize hooks, which deal with the folder, with its status and with the
  indexes in three steps; \<open>world_ok\<close> is the invariant of the states they reach.
\<close>

subsection \<open>State\<close>

record tracked_job =
  tj_queue :: string
  tj_kind :: string
  tj_store :: string
  tj_project :: string
  tj_analysis :: string
  tj_pending :: Store_Folders.pending

type_synonym job_key = "string \<times> string \<times> string"

record job_index =
  ix_queue :: "(string, tracked_job) gomap"
  ix_key :: "(job_key, tracked_job) gomap"
  ix_project :: "(string, tracked_job) gomap"

definition new_index :: job_index where
  "new_index = \<lparr>ix_queue = [], ix_key = [], ix_project = []\<rparr>"

record job_service =
  js_index :: job_index
  js_queue :: job_queue
  js_volume :: volume

datatype service_error = Store_Problem volume_error | Analysis_Not_Done string string | Unusable_Result string string
  | Invalid_Selection "string list" | Export_Key_Missing | Nothing_To_Export | Queue_Closed | No_Such_Job | Not_Queued string

subsection \<open>The indexes\<close>

definition key_of :: "tracked_job \<Rightarrow> job_key" where
  "key_of tj = (tj_project tj, tj_kind tj, tj_store tj)"

definition track :: "tracked_job \<Rightarrow> job_index \<Rightarrow> job_index" where
  "track tj ix = \<lparr>ix_queue = gm_put (tj_queue tj) tj (ix_queue ix), ix_key = gm_put (key_of tj) tj (ix_key ix),
     ix_project = gm_put (tj_project tj) tj (ix_project ix)\<rparr>"

definition forget_project :: "tracked_job \<Rightarrow> string \<Rightarrow> (string, tracked_job) gomap \<Rightarrow> (string, tracked_job) gomap" where
  "forget_project tj p m = (if gm_get m p = Some tj then gm_del p m else m)"

definition untrack_pending :: "string \<Rightarrow> string \<Rightarrow> string \<Rightarrow> job_index \<Rightarrow> job_index" where
  "untrack_pending p kind i ix = (case gm_get (ix_key ix) (p, kind, i) of None \<Rightarrow> ix
   | Some tj \<Rightarrow> \<lparr>ix_queue = gm_del (tj_queue tj) (ix_queue ix), ix_key = gm_del (p, kind, i) (ix_key ix),
       ix_project = forget_project tj p (ix_project ix)\<rparr>)"

text \<open>The end of \<^verbatim>\<open>finalize\<close>, by the id the queue called it with.\<close>

definition untrack :: "string \<Rightarrow> tracked_job \<Rightarrow> job_index \<Rightarrow> job_index" where
  "untrack i tj ix = \<lparr>ix_queue = gm_del i (ix_queue ix), ix_key = gm_del (key_of tj) (ix_key ix),
     ix_project = forget_project tj (tj_project tj) (ix_project ix)\<rparr>"

subsection \<open>Finalizing\<close>

definition finalize_pending :: "folder_faults \<Rightarrow> removal_fault \<Rightarrow> Store_Folders.pending \<Rightarrow> volume \<Rightarrow> (volume_error + unit) \<times> volume" where
  "finalize_pending ft rf pn vol = (case (vf_list ft, gm_get (pending_folders pn vol) (pn_id pn @ tmp_suffix)) of
     (None, Some f) \<Rightarrow> if folder_entries f = [] then discard rf pn vol else commit ft pn vol
   | _ \<Rightarrow> (Inr (), vol))"

definition reconcile_status :: "folder_faults \<Rightarrow> Store_Folders.pending \<Rightarrow> string \<Rightarrow> volume \<Rightarrow> volume" where
  "reconcile_status ft pn state vol = (case gm_get (pending_folders pn vol) (pn_id pn) of None \<Rightarrow> vol
   | Some f \<Rightarrow> (case (vf_stat ft, jf_status f, vf_write ft) of
       (None, Some (Decoded s), None) \<Rightarrow> put_folders (pn_project pn) (pn_kind pn)
         (gm_put (pn_id pn) (f\<lparr>jf_status := Some (Decoded (s\<lparr>sx_state := Some state\<rparr>))\<rparr>) (pending_folders pn vol)) vol
     | _ \<Rightarrow> vol))"

text \<open>The error goes to the queue, which logs it.\<close>

definition finalize_job :: "folder_faults \<Rightarrow> removal_fault \<Rightarrow> string \<Rightarrow> string \<Rightarrow> job_index \<times> volume
    \<Rightarrow> (volume_error + unit) \<times> job_index \<times> volume" where
  "finalize_job ft rf i state s = (case s of (ix, vol) \<Rightarrow> (case gm_get (ix_queue ix) i of None \<Rightarrow> (Inr (), ix, vol)
   | Some tj \<Rightarrow> (case finalize_pending ft rf (tj_pending tj) vol of (r, vol1) \<Rightarrow>
       let vol2 = (if tj_kind tj = ''analysis'' \<or> tj_kind tj = ''export'' then reconcile_status ft (tj_pending tj) state vol1 else vol1)
       in (r, untrack i tj ix, vol2))))"

subsection \<open>Queueing\<close>

text \<open>The folder is reserved, the job submitted and, in the queue's critical section, tracked; a closed queue gives the
  folder back.\<close>

definition submit_tracked :: "removal_fault \<Rightarrow> string \<Rightarrow> string \<Rightarrow> string \<Rightarrow> Store_Folders.pending \<Rightarrow> job_service \<Rightarrow> (service_error + string) \<times> job_service" where
  "submit_tracked rf kind p analysis pn st = (case submit_with \<lparr>jb_kind = kind, jb_store = pn_id pn\<rparr> (js_queue st) of
     (None, q) \<Rightarrow> (Inl Queue_Closed, st\<lparr>js_index := untrack_pending p kind (pn_id pn) (js_index st), js_queue := q,
         js_volume := snd (discard rf pn (js_volume st))\<rparr>)
   | (Some i, q) \<Rightarrow> (Inr (pn_id pn), st\<lparr>js_index := track \<lparr>tj_queue = i, tj_kind = kind, tj_store = pn_id pn, tj_project = p,
         tj_analysis = analysis, tj_pending = pn\<rparr> (js_index st), js_queue := q\<rparr>))"

text \<open>What the store answers: the hash of a manifest, the clock and the suffixes for the new folder, the faults.\<close>

record service_env =
  sn_sha :: "bytes \<Rightarrow> string"
  sn_now :: stamp
  sn_draws :: "(string + string) list"
  sn_faults :: folder_faults
  sn_removal :: removal_fault
  sn_read :: folder_faults
  sn_decode :: "bytes \<Rightarrow> string + analysis_result"

definition reserve_and_submit :: "service_env \<Rightarrow> string \<Rightarrow> string \<Rightarrow> string \<Rightarrow> string \<Rightarrow> job_service \<Rightarrow> (service_error + string) \<times> job_service" where
  "reserve_and_submit se folder kind p analysis st = (case new_dir (sn_faults se) folder p (sn_now se) (sn_draws se) (js_volume st) of
     (Inl e, vol) \<Rightarrow> (Inl (Store_Problem e), st\<lparr>js_volume := vol\<rparr>)
   | (Inr pn, vol) \<Rightarrow> submit_tracked (sn_removal se) kind p analysis pn (st\<lparr>js_volume := vol\<rparr>))"

definition queue_analysis :: "service_env \<Rightarrow> string \<Rightarrow> job_service \<Rightarrow> (service_error + string) \<times> job_service" where
  "queue_analysis se p st = (case project_of (sn_sha se) (js_volume st) p of
     Inl e \<Rightarrow> (Inl (Store_Problem e), st)
   | Inr project \<Rightarrow> reserve_and_submit se ''analyses'' ''analysis'' p '''' st)"

text \<open>The checks of \<^verbatim>\<open>QueueExport\<close>, before anything is reserved. An absent result decodes as no bytes.\<close>

definition check_export :: "service_env \<Rightarrow> string \<Rightarrow> string \<Rightarrow> (string, string list) gomap \<Rightarrow> bool \<Rightarrow> volume \<Rightarrow> service_error + unit" where
  "check_export se p analysis sel whole vol =
     (case project_of (sn_sha se) vol p of Inl e \<Rightarrow> Inl (Store_Problem e)
      | Inr project \<Rightarrow> (case job_info_of (sn_read se) Analyses p analysis vol of Inl e \<Rightarrow> Inl (Store_Problem e)
      | Inr info \<Rightarrow> if ji_state info \<noteq> state_done then Inl (Analysis_Not_Done analysis (ji_state info))
          else (case sn_decode se (case ji_result info of None \<Rightarrow> [] | Some b \<Rightarrow> b) of Inl e \<Rightarrow> Inl (Unusable_Result analysis e)
          | Inr res \<Rightarrow> (let bad = validate_selection res sel in
              if bad \<noteq> [] then Inl (Invalid_Selection bad)
              else if se_key (vl_settings vol) = '''' then Inl Export_Key_Missing
              else if \<not> whole \<and> \<not> selects_any_version sel then Inl Nothing_To_Export
              else Inr ()))))"

definition queue_export :: "service_env \<Rightarrow> string \<Rightarrow> string \<Rightarrow> (string, string list) gomap \<Rightarrow> bool \<Rightarrow> job_service
    \<Rightarrow> (service_error + string) \<times> job_service" where
  "queue_export se p analysis sel whole st = (case check_export se p analysis sel whole (js_volume st) of
     Inl e \<Rightarrow> (Inl e, st)
   | Inr _ \<Rightarrow> reserve_and_submit se ''exports'' ''export'' p analysis st)"

subsection \<open>Live jobs\<close>

definition cancel_tracked :: "string \<Rightarrow> string \<Rightarrow> string \<Rightarrow> job_service \<Rightarrow> (service_error + string) \<times> job_service" where
  "cancel_tracked p kind i st = (case gm_get (ix_key (js_index st)) (p, kind, i) of None \<Rightarrow> (Inl No_Such_Job, st)
   | Some tj \<Rightarrow> (case cancel_job (tj_queue tj) (js_queue st) of
       (False, q) \<Rightarrow> (Inl (Not_Queued (tj_queue tj)), st\<lparr>js_queue := q\<rparr>)
     | (True, q) \<Rightarrow> (Inr (tj_analysis tj), st\<lparr>js_queue := q\<rparr>)))"

definition state_queued :: string where "state_queued = ''queued''"

definition live_state :: "job_service \<Rightarrow> string \<Rightarrow> string \<Rightarrow> string \<Rightarrow> (string \<times> string) option" where
  "live_state st p kind i = (case gm_get (ix_key (js_index st)) (p, kind, i) of None \<Rightarrow> None
   | Some tj \<Rightarrow> if map_option fst (current_job (js_queue st)) = Some (tj_queue tj) then Some (state_running, tj_analysis tj)
       else Some (state_queued, tj_analysis tj))"

definition live_for_project :: "job_service \<Rightarrow> string \<Rightarrow> (string \<times> string \<times> string \<times> string) option" where
  "live_for_project st p = (case gm_get (ix_project (js_index st)) p of None \<Rightarrow> None
   | Some tj \<Rightarrow> (case live_state st (tj_project tj) (tj_kind tj) (tj_store tj) of None \<Rightarrow> None
     | Some (state, analysis) \<Rightarrow> Some (tj_store tj, tj_kind tj, state, analysis)))"

text \<open>\<^verbatim>\<open>Subscribe\<close> passes an event on with the folder's id; \<open>known\<close> are the ids it saw.\<close>

definition relay_event :: "job_index \<Rightarrow> event \<Rightarrow> (string, string) gomap \<Rightarrow> event \<times> (string, string) gomap" where
  "relay_event ix e known = (if ev_store e \<noteq> '''' then (e, known)
     else let known' = (case gm_get (ix_queue ix) (ev_job e) of None \<Rightarrow> known | Some tj \<Rightarrow> gm_put (ev_job e) (tj_store tj) known) in
       (e\<lparr>ev_store := (case gm_get known' (ev_job e) of None \<Rightarrow> '''' | Some i \<Rightarrow> i)\<rparr>, known'))"

subsection \<open>Steps\<close>

text \<open>The steps of the queue that concern no folder and no index.\<close>

inductive idle_step :: "job_queue \<Rightarrow> job_queue \<Rightarrow> bool" where
  idle_subscribe: "subscribe q = (n, q') \<Longrightarrow> idle_step q q'"
| idle_unsubscribe: "idle_step q (unsubscribe n q)"
| idle_receive: "receive n q = (e, q') \<Longrightarrow> idle_step q q'"
| idle_close: "idle_step q (close_jobs q)"
| idle_start: "start_next q = Some q' \<Longrightarrow> idle_step q q'"
| idle_emit: "emit reads e q = Some q' \<Longrightarrow> idle_step q q'"
| idle_returned: "job_returned je q = Some q' \<Longrightarrow> idle_step q q'"
| idle_end: "end_current reads q = Some q' \<Longrightarrow> idle_step q q'"

definition due :: "job_queue \<Rightarrow> string set" where
  "due q = en_id ` set (unfinished q)"

text \<open>How far the finalize hook of a job is: it found the job and dealt with its folder, then with its status. It keeps
  the tracked job it found.\<close>

datatype hook_phase = Not_Called | Filed tracked_job | Stated tracked_job

text \<open>
  The service among its requests. \<open>sw_reserved\<close> are the folders of requests that have not submitted their job, with the
  job's kind and analysis; \<open>sw_sent\<close> the jobs submitted so far. \<open>sw_contested\<close> are the names (project, kind, id) under
  which a delete request took a folder in use, or a folder was reserved while a job that is being finalized had the name.
\<close>

record service_world =
  sw_service :: job_service
  sw_reserved :: "(string \<times> string \<times> Store_Folders.pending) list"
  sw_sent :: "tracked_job list"
  sw_hook :: "string \<Rightarrow> hook_phase"
  sw_contested :: "job_key set"

definition reserved_key :: "string \<times> string \<times> Store_Folders.pending \<Rightarrow> job_key" where
  "reserved_key x = (case x of (kind, analysis, pn) \<Rightarrow> (pn_project pn, kind, pn_id pn))"

definition unended :: "service_world \<Rightarrow> tracked_job list" where
  "unended w = filter (\<lambda>tj. tj_queue tj \<in> due (js_queue (sw_service w))) (sw_sent w)"

definition on_volume :: "volume \<Rightarrow> service_world \<Rightarrow> service_world" where
  "on_volume vol w = w\<lparr>sw_service := (sw_service w)\<lparr>js_volume := vol\<rparr>\<rparr>"

abbreviation the_queue :: "service_world \<Rightarrow> job_queue" where "the_queue w \<equiv> js_queue (sw_service w)"
abbreviation the_index :: "service_world \<Rightarrow> job_index" where "the_index w \<equiv> js_index (sw_service w)"
abbreviation the_volume :: "service_world \<Rightarrow> volume" where "the_volume w \<equiv> js_volume (sw_service w)"

definition holds_folder :: "volume \<Rightarrow> Store_Folders.pending \<Rightarrow> bool" where
  "holds_folder vol pn \<longleftrightarrow> gm_has (pending_folders pn vol) (pn_id pn) \<or> gm_has (pending_folders pn vol) (pn_id pn @ tmp_suffix)"

definition taken_names :: "service_world \<Rightarrow> volume \<Rightarrow> job_key set" where
  "taken_names w vol = key_of ` set (filter (\<lambda>tj. holds_folder (the_volume w) (tj_pending tj) \<and> \<not> holds_folder vol (tj_pending tj)) (unended w))
     \<union> reserved_key ` set (filter (\<lambda>(kind, analysis, pn). holds_folder (the_volume w) pn \<and> \<not> holds_folder vol pn) (sw_reserved w))"

definition reused_names :: "service_world \<Rightarrow> job_key \<Rightarrow> job_key set" where
  "reused_names w k = (if \<exists>tj \<in> set (unended w). key_of tj = k \<and> sw_hook w (tj_queue tj) \<noteq> Not_Called then {k} else {})"

definition folder_kind :: "string \<Rightarrow> job_kind option" where
  "folder_kind kind = (if kind = ''analysis'' then Some Analyses else if kind = ''export'' then Some Exports else None)"

text \<open>The hook of a job that ended as \<open>s\<close> is due: it is the current one, or a Cancel took it out of the queue.\<close>

definition hook_due_for :: "job_queue \<Rightarrow> string \<Rightarrow> string \<Rightarrow> bool" where
  "hook_due_for q i s \<longleftrightarrow> (\<exists>en. jq_current q = Some (en, Ended_As s) \<and> en_id en = i) \<or> (s = state_cancelled \<and> i \<in> en_id ` set (jq_dropping q))"

text \<open>
  One step of a request, of the queue, of the running job, or of a finalize hook. A request to queue a job checks (which
  changes nothing), reserves a folder and submits. No name that is tried for a folder ends in .tmp. The running job
  writes into its pending folder, which it may have to make again, and may commit it. The hooks of the current job and
  of jobs that were cancelled while they waited run in parallel, in three steps each.
\<close>

inductive service_step :: "service_world \<Rightarrow> service_world \<Rightarrow> bool" where
  dir_reserved: "new_dir ft folder p now draws (the_volume w) = (Inr pn, vol) \<Longrightarrow> kind_of_name folder = folder_kind kind
    \<Longrightarrow> \<forall>i. Inr i \<in> set (dir_names now draws) \<longrightarrow> \<not> is_tmp i
    \<Longrightarrow> service_step w ((on_volume vol w)\<lparr>sw_reserved := sw_reserved w @ [(kind, analysis, pn)],
          sw_contested := sw_contested w \<union> reused_names w (p, kind, pn_id pn)\<rparr>)"
| dir_refused: "new_dir ft folder p now draws (the_volume w) = (Inl e, vol) \<Longrightarrow> service_step w (on_volume vol w)"
| job_submitted: "(kind, analysis, pn) \<in> set (sw_reserved w)
    \<Longrightarrow> submit_tracked rf kind (pn_project pn) analysis pn (sw_service w) = (Inr i, st)
    \<Longrightarrow> gm_get (ix_key (js_index st)) (pn_project pn, kind, pn_id pn) = Some tj
    \<Longrightarrow> service_step w (w\<lparr>sw_service := st, sw_reserved := remove1 (kind, analysis, pn) (sw_reserved w), sw_sent := sw_sent w @ [tj]\<rparr>)"
| submit_refused: "(kind, analysis, pn) \<in> set (sw_reserved w)
    \<Longrightarrow> submit_tracked rf kind (pn_project pn) analysis pn (sw_service w) = (Inl e, st)
    \<Longrightarrow> service_step w (w\<lparr>sw_service := st, sw_reserved := remove1 (kind, analysis, pn) (sw_reserved w)\<rparr>)"
| job_cancelled: "cancel_tracked p kind i (sw_service w) = (r, st) \<Longrightarrow> service_step w (w\<lparr>sw_service := st\<rparr>)"
| queue_moved: "idle_step (the_queue w) q \<Longrightarrow> service_step w (w\<lparr>sw_service := (sw_service w)\<lparr>js_queue := q\<rparr>\<rparr>)"
| job_wrote: "tj \<in> set (sw_sent w) \<Longrightarrow> jq_current (the_queue w) = Some (en, Runs) \<Longrightarrow> en_id en = tj_queue tj \<Longrightarrow> pn = tj_pending tj
    \<Longrightarrow> service_step w (on_volume (put_folders (pn_project pn) (pn_kind pn)
          (gm_put (pn_id pn @ tmp_suffix) f (pending_folders pn (the_volume w))) (the_volume w)) w)"
| job_committed: "tj \<in> set (sw_sent w) \<Longrightarrow> jq_current (the_queue w) = Some (en, Runs) \<Longrightarrow> en_id en = tj_queue tj
    \<Longrightarrow> commit ft (tj_pending tj) (the_volume w) = (r, vol) \<Longrightarrow> service_step w (on_volume vol w)"
| hook_filed: "hook_due_for (the_queue w) i s \<Longrightarrow> sw_hook w i = Not_Called \<Longrightarrow> gm_get (ix_queue (the_index w)) i = Some tj
    \<Longrightarrow> finalize_pending ft rf (tj_pending tj) (the_volume w) = (r, vol)
    \<Longrightarrow> service_step w ((on_volume vol w)\<lparr>sw_hook := (sw_hook w)(i := Filed tj)\<rparr>)"
| hook_stated: "hook_due_for (the_queue w) i s \<Longrightarrow> sw_hook w i = Filed tj
    \<Longrightarrow> vol = (if tj_kind tj = ''analysis'' \<or> tj_kind tj = ''export'' then reconcile_status ft (tj_pending tj) s (the_volume w) else the_volume w)
    \<Longrightarrow> service_step w ((on_volume vol w)\<lparr>sw_hook := (sw_hook w)(i := Stated tj)\<rparr>)"
| hook_ended: "jq_current (the_queue w) = Some (en, Ended_As s) \<Longrightarrow> run_hook (the_queue w) = Some q
    \<Longrightarrow> (case sw_hook w (en_id en) of Not_Called \<Rightarrow> gm_get (ix_queue (the_index w)) (en_id en) = None \<and> ix = the_index w
         | Filed tj \<Rightarrow> False | Stated tj \<Rightarrow> ix = untrack (en_id en) tj (the_index w))
    \<Longrightarrow> service_step w (w\<lparr>sw_service := (sw_service w)\<lparr>js_index := ix, js_queue := q\<rparr>, sw_hook := (sw_hook w)(en_id en := Not_Called)\<rparr>)"
| dropped_ended: "en \<in> set (jq_dropping (the_queue w))
    \<Longrightarrow> (case sw_hook w (en_id en) of Not_Called \<Rightarrow> gm_get (ix_queue (the_index w)) (en_id en) = None \<and> ix = the_index w
         | Filed tj \<Rightarrow> False | Stated tj \<Rightarrow> ix = untrack (en_id en) tj (the_index w))
    \<Longrightarrow> service_step w (w\<lparr>sw_service := (sw_service w)\<lparr>js_index := ix, js_queue := publish_cancelled reads en (the_queue w)\<rparr>,
          sw_hook := (sw_hook w)(en_id en := Not_Called)\<rparr>)"
| job_dir_deleted: "delete_job_dir ft rf k p i (the_volume w) = (r, vol)
    \<Longrightarrow> service_step w ((on_volume vol w)\<lparr>sw_contested := sw_contested w \<union> taken_names w vol\<rparr>)"
| project_deleted: "delete_project ft prf p (the_volume w) = (r, vol)
    \<Longrightarrow> service_step w ((on_volume vol w)\<lparr>sw_contested := sw_contested w \<union> taken_names w vol\<rparr>)"
| project_created: "create_project to_lower sha ft left name package time draws (the_volume w) = (r, vol) \<Longrightarrow> service_step w (on_volume vol w)"
| target_set: "set_project_target quote ft p t (the_volume w) = (r, vol) \<Longrightarrow> service_step w (on_volume vol w)"
| settings_saved: "save_settings quote ft settings (the_volume w) = (r, vol) \<Longrightarrow> service_step w (on_volume vol w)"

definition new_service :: "volume \<Rightarrow> job_service" where
  "new_service vol = \<lparr>js_index = new_index, js_queue = new_queue, js_volume = vol\<rparr>"

definition new_world :: "volume \<Rightarrow> service_world" where
  "new_world vol = \<lparr>sw_service = new_service vol, sw_reserved = [], sw_sent = [], sw_hook = (\<lambda>_. Not_Called), sw_contested = {}\<rparr>"

subsection \<open>The ids whose hook is due\<close>

lemma due_distinct: "jobs_ok q \<Longrightarrow> distinct (map en_id (unfinished q))"
  using numbered_distinct [of "jq_submitted q" "jq_next q"]
  unfolding jobs_ok_def by (metis distinct_append mset_append mset_eq_imp_distinct_iff)

lemma due_submit:
  assumes "jobs_ok q" "submit_with j q = (Some i, q')"
  shows "due q' = insert i (due q) \<and> i \<notin> due q"
proof -
  have q': "q' = q\<lparr>jq_next := jq_next q + 1, jq_pending := jq_pending q @ [\<lparr>en_id = i, en_job = j\<rparr>],
          jq_submitted := jq_submitted q @ [\<lparr>en_id = i, en_job = j\<rparr>]\<rparr>"
    using assms(2) by (auto simp: submit_with_def Let_def split: if_splits)
  have "distinct (map en_id (unfinished q'))" by (rule due_distinct [OF submit_ok [OF assms]])
  then show ?thesis by (auto simp: due_def unfinished_def q' image_iff)
qed

lemma cancel_job_cases: "cancel_job i q = (b, q') \<Longrightarrow> q' = q \<or> q' = q\<lparr>jq_cancel := True, jq_context := True\<rparr>
    \<or> (\<exists>en \<in> set (jq_pending q). q' = q\<lparr>jq_pending := remove1 en (jq_pending q), jq_dropping := jq_dropping q @ [en]\<rparr>)"
  unfolding cancel_job_def by (auto simp: find_Some_iff split: if_splits option.splits)

lemma due_cancel:
  assumes "cancel_job i q = (b, q')"
  shows "due q' = due q"
proof -
  have split: "insert en (set (remove1 en ens)) = set ens" if "en \<in> set ens" for en and ens :: "entry list"
    using that by (induction ens) auto
  show ?thesis
  proof (cases "\<exists>en \<in> set (jq_pending q). q' = q\<lparr>jq_pending := remove1 en (jq_pending q), jq_dropping := jq_dropping q @ [en]\<rparr>")
    case True
    then obtain en where en: "en \<in> set (jq_pending q)" "q' = q\<lparr>jq_pending := remove1 en (jq_pending q), jq_dropping := jq_dropping q @ [en]\<rparr>"
      by blast
    have "set (unfinished q') = set (unfinished q)"
      unfolding unfinished_def en(2) using split [OF en(1)] by simp blast
    then show ?thesis by (simp add: due_def)
  next
    case False
    then have "q' = q \<or> q' = q\<lparr>jq_cancel := True, jq_context := True\<rparr>" using cancel_job_cases [OF assms] by blast
    then show ?thesis by (auto simp: due_def unfinished_def)
  qed
qed

lemma due_idle: "idle_step q q' \<Longrightarrow> due q' = due q"
proof (induction rule: idle_step.induct)
  case (idle_close q)
  then show ?case by (auto simp: due_def unfinished_def close_jobs_def)
next
  case (idle_start q q')
  then have "hook_due (jq_current q) = []" "set (hook_due (jq_current q') @ jq_pending q') = set (jq_pending q)"
    "jq_dropping q' = jq_dropping q" "jq_drained q' = jq_drained q"
    by (cases "jq_current q"; auto simp: start_next_def split: if_splits list.splits)+
  then show ?case by (auto simp: due_def unfinished_def)
next
  case (idle_emit reads e q q')
  then obtain en where "jq_current q = Some (en, Runs)" by (cases "jq_current q"; cases "snd (the (jq_current q))") (auto simp: emit_def)
  then show ?case using idle_emit by (auto simp: emit_def due_def unfinished_def)
next
  case (idle_returned je q q')
  then obtain en where "jq_current q = Some (en, Runs)" by (cases "jq_current q"; cases "snd (the (jq_current q))") (auto simp: job_returned_def)
  then show ?case using idle_returned by (auto simp: job_returned_def due_def unfinished_def)
next
  case (idle_end reads q q')
  then obtain en st where "jq_current q = Some (en, Hooked st)" by (cases "jq_current q"; cases "snd (the (jq_current q))") (auto simp: end_current_def)
  then show ?case using idle_end by (auto simp: end_current_def due_def unfinished_def)
qed (auto simp: due_def unfinished_def subscribe_def unsubscribe_def receive_def split: option.splits list.splits)

lemma idle_is_step: "idle_step q q' \<Longrightarrow> queue_step q q'"
  by (induction rule: idle_step.induct) (auto intro: queue_step.intros)

lemma due_hook:
  assumes "jobs_ok q" "jq_current q = Some (en, Ended_As s)" "run_hook q = Some q'"
  shows "due q' = due q - {en_id en} \<and> en_id en \<in> due q"
proof -
  have "q' = q\<lparr>jq_current := Some (en, Hooked s), jq_done := jq_done q @ [(en_id en, s)]\<rparr>"
    using assms(2,3) by (simp add: run_hook_def)
  then have "unfinished q = en # unfinished q'" using assms(2) by (simp add: unfinished_def)
  then show ?thesis using due_distinct [OF assms(1)] by (auto simp: due_def)
qed

lemma due_cancelled:
  assumes "jobs_ok q" "en \<in> set (jq_dropping q)"
  shows "due (publish_cancelled reads en q) = due q - {en_id en} \<and> en_id en \<in> due q"
proof -
  have "mset (map en_id (jq_dropping q)) = add_mset (en_id en) (mset (map en_id (remove1 en (jq_dropping q))))" by (rule ids_remove1 [OF assms(2)])
  then have "mset (map en_id (unfinished q)) = add_mset (en_id en) (mset (map en_id (unfinished (publish_cancelled reads en q))))"
    by (simp add: unfinished_def publish_cancelled_def)
  then have "mset (map en_id (unfinished q)) = mset (en_id en # map en_id (unfinished (publish_cancelled reads en q)))" by simp
  then have "distinct (en_id en # map en_id (unfinished (publish_cancelled reads en q)))"
    "set (map en_id (unfinished q)) = set (en_id en # map en_id (unfinished (publish_cancelled reads en q)))"
    using due_distinct [OF assms(1)] by (metis mset_eq_imp_distinct_iff, metis mset_eq_setD)
  then show ?thesis by (auto simp: due_def)
qed

subsection \<open>The invariant\<close>

text \<open>A tracked job is named as its folder is.\<close>

definition own_folder :: "tracked_job \<Rightarrow> bool" where
  "own_folder tj \<longleftrightarrow> tj_store tj = pn_id (tj_pending tj) \<and> tj_project tj = pn_project (tj_pending tj)
     \<and> folder_kind (tj_kind tj) = Some (pn_kind (tj_pending tj)) \<and> \<not> is_tmp (tj_store tj)"

definition own_reserved :: "string \<times> string \<times> Store_Folders.pending \<Rightarrow> bool" where
  "own_reserved x \<longleftrightarrow> (case x of (kind, analysis, pn) \<Rightarrow> folder_kind kind = Some (pn_kind pn) \<and> \<not> is_tmp (pn_id pn))"

definition tracks :: "job_index \<Rightarrow> tracked_job \<Rightarrow> bool" where
  "tracks ix tj \<longleftrightarrow> gm_get (ix_queue ix) (tj_queue tj) = Some tj"

text \<open>What an index names is tracked, under its own name.\<close>

definition index_sound :: "job_index \<Rightarrow> bool" where
  "index_sound ix \<longleftrightarrow> (\<forall>i tj. gm_get (ix_queue ix) i = Some tj \<longrightarrow> tj_queue tj = i)
     \<and> (\<forall>k tj. gm_get (ix_key ix) k = Some tj \<longrightarrow> key_of tj = k \<and> tracks ix tj)
     \<and> (\<forall>p tj. gm_get (ix_project ix) p = Some tj \<longrightarrow> tj_project tj = p \<and> tracks ix tj)"

text \<open>The names in use, with repetitions, and the folders that wait for their hook under an uncontested name.\<close>

definition used_names :: "service_world \<Rightarrow> job_key multiset" where
  "used_names w = mset (map key_of (unended w)) + mset (map reserved_key (sw_reserved w))"

definition waiting :: "service_world \<Rightarrow> job_key \<Rightarrow> Store_Folders.pending \<Rightarrow> bool" where
  "waiting w k pn \<longleftrightarrow> (\<exists>tj \<in> set (unended w). k = key_of tj \<and> pn = tj_pending tj \<and> sw_hook w (tj_queue tj) = Not_Called)
     \<or> (\<exists>x \<in> set (sw_reserved w). k = reserved_key x \<and> pn = snd (snd x))"

definition jobs_found :: "service_world \<Rightarrow> bool" where
  "jobs_found w \<longleftrightarrow> (\<forall>tj \<in> set (unended w). key_of tj \<notin> sw_contested w \<longrightarrow>
     tracks (the_index w) tj \<and> gm_get (ix_key (the_index w)) (key_of tj) = Some tj)"

definition folders_held :: "service_world \<Rightarrow> bool" where
  "folders_held w \<longleftrightarrow> (\<forall>k pn. waiting w k pn \<longrightarrow> k \<notin> sw_contested w \<longrightarrow> holds_folder (the_volume w) pn)"

definition names_unique :: "service_world \<Rightarrow> bool" where
  "names_unique w \<longleftrightarrow> (\<forall>k. k \<notin> sw_contested w \<longrightarrow> count (used_names w) k \<le> 1)"

text \<open>The parts that no volume concerns: the queue, what was sent, the soundness of the indexes, the hooks under way.\<close>

definition jobs_sound :: "service_world \<Rightarrow> bool" where
  "jobs_sound w \<longleftrightarrow> jobs_ok (the_queue w) \<and> map tj_queue (sw_sent w) = map en_id (jq_submitted (the_queue w))
     \<and> (\<forall>tj \<in> set (sw_sent w). own_folder tj) \<and> (\<forall>x \<in> set (sw_reserved w). own_reserved x)
     \<and> index_sound (the_index w) \<and> (\<forall>tj. tracks (the_index w) tj \<longrightarrow> tj \<in> set (unended w))
     \<and> (\<forall>i tj. sw_hook w i = Filed tj \<or> sw_hook w i = Stated tj \<longrightarrow> tj \<in> set (unended w) \<and> tj_queue tj = i)"

definition world_ok :: "service_world \<Rightarrow> bool" where
  "world_ok w \<longleftrightarrow> jobs_sound w \<and> jobs_found w \<and> folders_held w \<and> names_unique w"

lemma world_okD:
  assumes "world_ok w"
  shows "jobs_sound w" and "tj \<in> set (unended w) \<Longrightarrow> key_of tj \<notin> sw_contested w \<Longrightarrow>
      tracks (the_index w) tj \<and> gm_get (ix_key (the_index w)) (key_of tj) = Some tj"
    and "waiting w k pn \<Longrightarrow> k \<notin> sw_contested w \<Longrightarrow> holds_folder (the_volume w) pn"
    and "k \<notin> sw_contested w \<Longrightarrow> count (used_names w) k \<le> 1"
  using assms unfolding world_ok_def jobs_found_def folders_held_def names_unique_def by blast+

lemma world_okI:
  assumes "jobs_sound w" and "\<And>tj. tj \<in> set (unended w) \<Longrightarrow> key_of tj \<notin> sw_contested w \<Longrightarrow>
      tracks (the_index w) tj \<and> gm_get (ix_key (the_index w)) (key_of tj) = Some tj"
    and "\<And>k pn. waiting w k pn \<Longrightarrow> k \<notin> sw_contested w \<Longrightarrow> holds_folder (the_volume w) pn"
    and "\<And>k. k \<notin> sw_contested w \<Longrightarrow> count (used_names w) k \<le> 1"
  shows "world_ok w"
  using assms unfolding world_ok_def jobs_found_def folders_held_def names_unique_def by blast

lemma on_volume_simps [simp]:
  "the_queue (on_volume vol w) = the_queue w" "the_index (on_volume vol w) = the_index w" "the_volume (on_volume vol w) = vol"
  "sw_reserved (on_volume vol w) = sw_reserved w" "sw_sent (on_volume vol w) = sw_sent w" "sw_hook (on_volume vol w) = sw_hook w"
  "sw_contested (on_volume vol w) = sw_contested w"
  by (simp_all add: on_volume_def)

lemma world_parts [simp]:
  "unended (on_volume vol w) = unended w" "unended (w\<lparr>sw_hook := h\<rparr>) = unended w" "unended (w\<lparr>sw_contested := c\<rparr>) = unended w"
  "unended (w\<lparr>sw_reserved := rs\<rparr>) = unended w"
  "used_names (on_volume vol w) = used_names w" "used_names (w\<lparr>sw_hook := h\<rparr>) = used_names w"
  "used_names (w\<lparr>sw_contested := c\<rparr>) = used_names w"
  "waiting (on_volume vol w) = waiting w" "waiting (w\<lparr>sw_contested := c\<rparr>) = waiting w"
  by (auto simp: unended_def used_names_def waiting_def fun_eq_iff on_volume_def)

text \<open>Two users of one name, under a name that is used once, are one.\<close>

lemma counted_twice: "x \<in> set xs \<Longrightarrow> y \<in> set xs \<Longrightarrow> x \<noteq> y \<Longrightarrow> f x = f y \<Longrightarrow> 2 \<le> count (mset (map f xs)) (f x)"
proof (induction xs)
  case (Cons z xs)
  have at: "a \<in> set xs \<Longrightarrow> f a = k \<Longrightarrow> 1 \<le> count (mset (map f xs)) k" for a k
    by (metis count_greater_eq_one_iff image_eqI set_map set_mset_mset)
  show ?case using Cons at [of x "f x"] at [of y "f x"] by auto
qed simp

lemma one_user:
  assumes "names_unique w" "k \<notin> sw_contested w"
  shows "tj \<in> set (unended w) \<Longrightarrow> tj' \<in> set (unended w) \<Longrightarrow> key_of tj = k \<Longrightarrow> key_of tj' = k \<Longrightarrow> tj = tj'"
    and "tj \<in> set (unended w) \<Longrightarrow> x \<in> set (sw_reserved w) \<Longrightarrow> key_of tj = k \<Longrightarrow> reserved_key x = k \<Longrightarrow> False"
proof -
  have one: "count (mset (map key_of (unended w))) k + count (mset (map reserved_key (sw_reserved w))) k \<le> 1"
    using assms unfolding names_unique_def used_names_def by (metis count_union)
  show "tj = tj'" if "tj \<in> set (unended w)" "tj' \<in> set (unended w)" "key_of tj = k" "key_of tj' = k"
    using counted_twice [OF that(1,2), of key_of] that(3,4) one by fastforce
  show False if "tj \<in> set (unended w)" "x \<in> set (sw_reserved w)" "key_of tj = k" "reserved_key x = k"
  proof -
    have "0 < count (mset (map key_of (unended w))) k" "0 < count (mset (map reserved_key (sw_reserved w))) k"
      using that unfolding count_greater_zero_iff by (auto intro: rev_image_eqI)
    then show False using one by linarith
  qed
qed

text \<open>The folder of a name is that of its kind, so folders in use under different names are different.\<close>

lemma waiting_own:
  assumes "jobs_sound w" "waiting w k pn"
  shows "\<not> is_tmp (pn_id pn) \<and> (\<exists>kind. k = (pn_project pn, kind, pn_id pn) \<and> folder_kind kind = Some (pn_kind pn))"
  using assms by (auto simp: waiting_def jobs_sound_def own_folder_def own_reserved_def key_of_def reserved_key_def unended_def)

lemma folder_kind_inj: "folder_kind a = Some k \<Longrightarrow> folder_kind b = Some k \<Longrightarrow> a = b"
  by (auto simp: folder_kind_def split: if_splits)

lemma world_volume:
  assumes ok: "world_ok w" and "\<And>k pn. waiting w k pn \<Longrightarrow> k \<notin> sw_contested w \<union> c \<Longrightarrow> holds_folder (the_volume w) pn \<Longrightarrow> holds_folder vol pn"
  shows "world_ok ((on_volume vol w)\<lparr>sw_contested := sw_contested w \<union> c\<rparr>)" (is "world_ok ?w")
proof (rule world_okI)
  have "unended ?w = unended w" "the_index ?w = the_index w" "the_queue ?w = the_queue w" by simp_all
  then show "jobs_sound ?w" using world_okD(1) [OF ok] by (simp add: jobs_sound_def)
  show "holds_folder (the_volume ?w) pn" if "waiting ?w k pn" "k \<notin> sw_contested ?w" for k pn
  proof -
    have k: "waiting w k pn" "k \<notin> sw_contested w \<union> c" using that by simp_all
    then show ?thesis using assms(2) [OF k] world_okD(3) [OF ok k(1)] by simp
  qed
qed (use world_okD(2,4) [OF ok] in \<open>simp_all\<close>)

lemma world_waiting:
  assumes "world_ok w" and "\<And>k pn. waiting w k pn \<Longrightarrow> k \<notin> sw_contested w \<Longrightarrow> holds_folder (the_volume w) pn \<Longrightarrow> holds_folder vol pn"
  shows "world_ok (on_volume vol w)"
proof -
  have eq: "(on_volume vol w)\<lparr>sw_contested := sw_contested w \<union> {}\<rparr> = on_volume vol w" by (simp add: on_volume_def)
  have "world_ok ((on_volume vol w)\<lparr>sw_contested := sw_contested w \<union> {}\<rparr>)"
    by (rule world_volume [OF assms(1)]) (use assms(2) in simp)
  then show ?thesis unfolding eq .
qed

lemma world_volume_same: "world_ok w \<Longrightarrow> (\<And>pn. holds_folder (the_volume w) pn \<Longrightarrow> holds_folder vol pn) \<Longrightarrow> world_ok (on_volume vol w)"
  by (rule world_waiting)

lemma world_queue:
  assumes "world_ok w" "jobs_ok q" "due q = due (the_queue w)" "jq_submitted q = jq_submitted (the_queue w)"
  shows "world_ok (w\<lparr>sw_service := (sw_service w)\<lparr>js_queue := q\<rparr>\<rparr>)"
proof -
  let ?w = "w\<lparr>sw_service := (sw_service w)\<lparr>js_queue := q\<rparr>\<rparr>"
  have u: "unended ?w = unended w" by (simp add: unended_def assms(3))
  then have "used_names ?w = used_names w" "waiting ?w = waiting w" by (auto simp: used_names_def waiting_def fun_eq_iff)
  then show ?thesis using assms u by (simp add: world_ok_def jobs_sound_def jobs_found_def folders_held_def names_unique_def)
qed

lemma idle_submitted: "idle_step q q' \<Longrightarrow> jq_submitted q' = jq_submitted q"
proof (induction rule: idle_step.induct)
  case (idle_start q q')
  then show ?case by (cases "jq_current q") (auto simp: start_next_def split: if_splits list.splits)
next
  case (idle_emit reads e q q')
  then show ?case by (auto simp: emit_def split: option.splits prod.splits phase.splits)
next
  case (idle_returned je q q')
  then show ?case by (auto simp: job_returned_def split: option.splits prod.splits phase.splits)
next
  case (idle_end reads q q')
  then show ?case by (auto simp: end_current_def split: option.splits prod.splits phase.splits)
qed (auto simp: subscribe_def unsubscribe_def receive_def close_jobs_def split: option.splits list.splits)

subsection \<open>Steps keep it\<close>

text \<open>Folders that the hook of a job leaves to the others.\<close>

lemma finalize_others:
  assumes "holds_folder vol pn'" "\<not> is_tmp (pn_id pn)" "\<not> is_tmp (pn_id pn')"
    and "(pn_project pn', pn_kind pn', pn_id pn') \<noteq> (pn_project pn, pn_kind pn, pn_id pn)"
    and "finalize_pending ft rf pn vol = (r, vol')"
  shows "holds_folder vol' pn'"
proof -
  have "pn_id pn' \<noteq> pn_id pn @ tmp_suffix" using assms(3) by auto
  then show ?thesis
    using assms(1,4,5)
    by (auto simp: finalize_pending_def discard_def commit_def remove_folder_def Let_def holds_folder_def pending_folders_def gm_has_def
        split: option.splits if_splits prod.splits)
qed

lemma discard_others:
  assumes "holds_folder vol pn'" "\<not> is_tmp (pn_id pn')" "(pn_project pn', pn_kind pn', pn_id pn') \<noteq> (pn_project pn, pn_kind pn, pn_id pn)"
  shows "holds_folder (snd (discard rf pn vol)) pn'"
proof -
  have "pn_id pn' \<noteq> pn_id pn @ tmp_suffix" using assms(2) by auto
  then show ?thesis using assms(1,3)
    by (auto simp: discard_def remove_folder_def holds_folder_def pending_folders_def gm_has_def split: option.splits prod.splits)
qed

lemma reconcile_holds: "holds_folder vol pn' \<Longrightarrow> holds_folder (reconcile_status ft pn s vol) pn'"
  by (auto simp: reconcile_status_def holds_folder_def pending_folders_def gm_has_def split: option.splits json_file.splits)

lemma commit_holds:
  assumes "holds_folder vol pn'" "\<not> is_tmp (pn_id pn')" "commit ft pn vol = (r, vol')"
  shows "holds_folder vol' pn'"
proof -
  have "pn_id pn' \<noteq> pn_id pn @ tmp_suffix" using assms(2) by auto
  then show ?thesis using assms(1,3)
    by (auto simp: commit_def Let_def holds_folder_def pending_folders_def gm_has_def split: option.splits if_splits)
qed

lemma write_holds: "holds_folder vol pn' \<Longrightarrow> holds_folder (put_folders p k (gm_put i f (folders_at vol p k)) vol) pn'"
  by (auto simp: holds_folder_def pending_folders_def gm_has_def)

lemma new_dir_holds: "new_dir ft folder p now draws vol = (r, vol') \<Longrightarrow> holds_folder vol pn' \<Longrightarrow> holds_folder vol' pn'"
proof (cases r)
  case (Inl e)
  moreover assume "new_dir ft folder p now draws vol = (r, vol')" "holds_folder vol pn'"
  ultimately show ?thesis
    by (auto simp: new_dir_def Let_def holds_folder_def pending_folders_def gm_has_def split: option.splits if_splits sum.splits)
next
  case (Inr pn)
  assume "new_dir ft folder p now draws vol = (r, vol')" "holds_folder vol pn'"
  then show ?thesis using new_dir_Inr [of ft folder p now draws vol pn vol'] Inr
    by (auto simp: holds_folder_def pending_folders_def gm_has_def)
qed

lemma reserve_project_new: "reserve_project ft vol base ds = Inr i \<Longrightarrow> gm_get (vl_projects vol) i = None"
  by (induction ft vol base ds rule: reserve_project.induct) (auto simp: Let_def gm_has_def split: if_splits option.splits)

lemma create_project_holds:
  assumes "create_project lowered sha ft left name package now draws vol = (r, vol')" "holds_folder vol pn"
  shows "holds_folder vol' pn"
proof -
  have held: "gm_get (vl_projects vol) (pn_project pn) \<noteq> None"
  proof
    assume "gm_get (vl_projects vol) (pn_project pn) = None"
    then have "folders_at vol (pn_project pn) (pn_kind pn) = []" by (simp add: folders_at_def project_at_def)
    then show False using assms(2) by (simp add: holds_folder_def pending_folders_def gm_has_def)
  qed
  have put: "holds_folder (vol\<lparr>vl_projects := gm_put i pd (vl_projects vol)\<rparr>) pn" if "gm_get (vl_projects vol) i = None" for i pd
  proof -
    have "pn_project pn \<noteq> i" using held that by auto
    then have "pending_folders pn (vol\<lparr>vl_projects := gm_put i pd (vl_projects vol)\<rparr>) = pending_folders pn vol"
      by (simp add: pending_folders_def folders_at_def project_at_def)
    then show ?thesis using assms(2) by (simp add: holds_folder_def)
  qed
  from assms(1) have "vol' = vol \<or> (\<exists>i pd. gm_get (vl_projects vol) i = None \<and> vol' = vol\<lparr>vl_projects := gm_put i pd (vl_projects vol)\<rparr>)"
    by (auto simp: create_project_def Let_def split: if_splits sum.splits option.splits dest!: reserve_project_new)
  then show ?thesis using put assms(2) by blast
qed

lemma set_target_holds:
  assumes "set_project_target quote ft p t vol = (r, vol')" "holds_folder vol pn"
  shows "holds_folder vol' pn"
proof -
  have "pending_folders pn vol' = pending_folders pn vol"
    using assms(1) by (cases "pn_kind pn")
      (auto simp: set_project_target_def pending_folders_def folders_at_def project_at_def Let_def split: if_splits sum.splits option.splits json_file.splits)
  then show ?thesis using assms(2) by (simp add: holds_folder_def)
qed

lemma save_settings_holds: "save_settings quote ft s vol = (r, vol') \<Longrightarrow> holds_folder vol pn \<Longrightarrow> holds_folder vol' pn"
  by (auto simp: save_settings_def holds_folder_def pending_folders_def folders_at_def project_at_def split: sum.splits option.splits)

lemma index_sound_track:
  assumes "index_sound ix" "gm_get (ix_queue ix) (tj_queue tj) = None"
  shows "index_sound (track tj ix) \<and> (\<forall>t. tracks (track tj ix) t \<longleftrightarrow> t = tj \<or> tracks ix t)"
proof -
  have tr: "tracks (track tj ix) t \<longleftrightarrow> t = tj \<or> tracks ix t" for t
    using assms by (auto simp: tracks_def track_def index_sound_def)
  have old: "gm_get (ix_queue ix) i = Some t \<Longrightarrow> tj_queue t = i" "gm_get (ix_key ix) k = Some t \<Longrightarrow> key_of t = k \<and> tracks ix t"
    "gm_get (ix_project ix) p = Some t \<Longrightarrow> tj_project t = p \<and> tracks ix t" for i k p t
    using assms(1) unfolding index_sound_def by blast+
  have "gm_get (ix_queue (track tj ix)) i = Some t \<Longrightarrow> tj_queue t = i" for i t using old(1) [of i t] by (auto simp: track_def split: if_splits)
  moreover have "gm_get (ix_key (track tj ix)) k = Some t \<Longrightarrow> key_of t = k \<and> (t = tj \<or> tracks ix t)" for k t
    using old(2) [of k t] by (auto simp: track_def split: if_splits)
  moreover have "gm_get (ix_project (track tj ix)) p = Some t \<Longrightarrow> tj_project t = p \<and> (t = tj \<or> tracks ix t)" for p t
    using old(3) [of p t] by (auto simp: track_def split: if_splits)
  ultimately show ?thesis unfolding index_sound_def tr by blast
qed

text \<open>Whatever job is deleted from the indexes, they name no job that is not tracked.\<close>

lemma index_sound_untrack:
  assumes ix: "index_sound ix" and q: "tj_queue tj = i" and only: "\<And>t. tracks ix t \<Longrightarrow> tj_queue t = i \<Longrightarrow> t = tj"
  shows "index_sound (untrack i tj ix) \<and> (\<forall>t. tracks (untrack i tj ix) t \<longleftrightarrow> tj_queue t \<noteq> i \<and> tracks ix t)
    \<and> (\<forall>k. k \<noteq> key_of tj \<longrightarrow> gm_get (ix_key (untrack i tj ix)) k = gm_get (ix_key ix) k)"
proof -
  have tr: "tracks (untrack i tj ix) t \<longleftrightarrow> tj_queue t \<noteq> i \<and> tracks ix t" for t
    by (auto simp: tracks_def untrack_def)
  have "tj_queue t = j" if "gm_get (ix_queue (untrack i tj ix)) j = Some t" for j t
    using that ix by (auto simp: untrack_def index_sound_def split: if_splits)
  moreover have "key_of t = k \<and> tj_queue t \<noteq> i \<and> tracks ix t" if k: "gm_get (ix_key (untrack i tj ix)) k = Some t" for k t
  proof -
    have "gm_get (ix_key ix) k = Some t" "k \<noteq> key_of tj" using k by (auto simp: untrack_def split: if_splits)
    then have "key_of t = k" "tracks ix t" "t \<noteq> tj" using ix unfolding index_sound_def by blast+
    then show ?thesis using only by blast
  qed
  moreover have "tj_project t = p \<and> tj_queue t \<noteq> i \<and> tracks ix t" if p: "gm_get (ix_project (untrack i tj ix)) p = Some t" for p t
  proof -
    have at: "gm_get (ix_project ix) p = Some t" "p = tj_project tj \<longrightarrow> t \<noteq> tj"
      using p by (auto simp: untrack_def forget_project_def split: if_splits)
    then have "tj_project t = p" "tracks ix t" "t \<noteq> tj" using ix unfolding index_sound_def by blast+
    then show ?thesis using only by blast
  qed
  moreover have "\<forall>k. k \<noteq> key_of tj \<longrightarrow> gm_get (ix_key (untrack i tj ix)) k = gm_get (ix_key ix) k" by (simp add: untrack_def)
  ultimately show ?thesis unfolding index_sound_def tr by blast
qed

lemma index_sound_untrack_pending:
  assumes ix: "index_sound ix"
  shows "index_sound (untrack_pending p kind i ix) \<and> (\<forall>t. tracks (untrack_pending p kind i ix) t \<longrightarrow> tracks ix t)
    \<and> (\<forall>t. key_of t \<noteq> (p, kind, i) \<longrightarrow> tracks ix t \<longrightarrow> tracks (untrack_pending p kind i ix) t)
    \<and> (\<forall>k. k \<noteq> (p, kind, i) \<longrightarrow> gm_get (ix_key (untrack_pending p kind i ix)) k = gm_get (ix_key ix) k)"
proof (cases "gm_get (ix_key ix) (p, kind, i)")
  case None
  then show ?thesis using ix by (simp add: untrack_pending_def)
next
  case (Some tj)
  then have tj: "key_of tj = (p, kind, i)" "tracks ix tj" using ix unfolding index_sound_def by blast+
  have "untrack_pending p kind i ix = untrack (tj_queue tj) tj ix"
    using Some tj(1) by (simp add: untrack_pending_def untrack_def key_of_def)
  then show ?thesis using index_sound_untrack [OF ix refl, of tj] tj by (auto simp: tracks_def)
qed

text \<open>What was sent and not finalized, after the queue moved.\<close>

lemma sent_ids:
  assumes "jobs_sound w"
  shows "distinct (map tj_queue (sw_sent w))" and "set (unended w) \<subseteq> set (sw_sent w)"
  using assms numbered_distinct [of "jq_submitted (the_queue w)" "jq_next (the_queue w)"]
  by (auto simp: jobs_sound_def jobs_ok_def unended_def)

lemma same_job: "jobs_sound w \<Longrightarrow> tj \<in> set (sw_sent w) \<Longrightarrow> t \<in> set (sw_sent w) \<Longrightarrow> tj_queue tj = tj_queue t \<Longrightarrow> tj = t"
  using sent_ids(1) by (metis distinct_map inj_onD)

lemma world_hook:
  assumes ok: "world_ok w" and "tj \<in> set (unended w)" "tj_queue tj = i" "h = Filed tj \<or> h = Stated tj"
  shows "world_ok (w\<lparr>sw_hook := (sw_hook w)(i := h)\<rparr>)" (is "world_ok ?w")
proof (rule world_okI)
  show "jobs_sound ?w" using world_okD(1) [OF ok] assms(2-4) by (auto simp: jobs_sound_def)
  show "holds_folder (the_volume ?w) pn" if "waiting ?w k pn" "k \<notin> sw_contested ?w" for k pn
  proof -
    have "waiting w k pn" using that(1) assms(4) by (auto simp: waiting_def split: if_splits)
    then show ?thesis using world_okD(3) [OF ok] that(2) by simp
  qed
qed (use world_okD(2,4) [OF ok] in \<open>simp_all\<close>)

text \<open>A name that no user waits under is free when its folder is.\<close>

lemma free_name:
  assumes ok: "world_ok w" and k: "(p, kind, i) \<notin> sw_contested w \<union> reused_names w (p, kind, i)"
    and fk: "folder_kind kind = Some fk" and free: "gm_get (folders_at (the_volume w) p fk) i = None" "gm_get (folders_at (the_volume w) p fk) (i @ tmp_suffix) = None"
  shows "count (used_names w) (p, kind, i) = 0"
proof (rule ccontr)
  assume "count (used_names w) (p, kind, i) \<noteq> 0"
  then have "(p, kind, i) \<in># used_names w" by (simp add: not_in_iff)
  then consider tj where "tj \<in> set (unended w)" "key_of tj = (p, kind, i)" | x where "x \<in> set (sw_reserved w)" "reserved_key x = (p, kind, i)"
    by (auto simp: used_names_def)
  then have "\<exists>pn. waiting w (p, kind, i) pn"
  proof cases
    case 1
    then have "sw_hook w (tj_queue tj) = Not_Called" using k by (auto simp: reused_names_def split: if_splits)
    then show ?thesis using 1 unfolding waiting_def by metis
  next
    case 2
    then show ?thesis unfolding waiting_def by metis
  qed
  then obtain pn where u: "waiting w (p, kind, i) pn" by blast
  then have "holds_folder (the_volume w) pn" using world_okD(3) [OF ok] k by simp
  moreover have "pn_project pn = p \<and> pn_id pn = i \<and> pn_kind pn = fk"
    using waiting_own [of w "(p, kind, i)" pn] ok u fk by (auto simp: world_ok_def)
  ultimately show False using free by (auto simp: holds_folder_def pending_folders_def gm_has_def)
qed

lemma reserved_ok:
  assumes ok: "world_ok w" and new: "new_dir ft folder p now draws (the_volume w) = (Inr pn, vol)"
    and kind: "kind_of_name folder = folder_kind kind" and names: "\<forall>i. Inr i \<in> set (dir_names now draws) \<longrightarrow> \<not> is_tmp i"
  shows "world_ok ((on_volume vol w)\<lparr>sw_reserved := sw_reserved w @ [(kind, analysis, pn)],
    sw_contested := sw_contested w \<union> reused_names w (p, kind, pn_id pn)\<rparr>)" (is "world_ok ?w")
proof -
  note n = new_dir_Inr [OF new]
  have own: "own_reserved (kind, analysis, pn)" using n kind names by (auto simp: own_reserved_def)
  have key: "reserved_key (kind, analysis, pn) = (p, kind, pn_id pn)" using n by (simp add: reserved_key_def)
  have held: "holds_folder vol pn" using n by (auto simp: holds_folder_def pending_folders_def gm_has_def)
  have u: "unended ?w = unended w" by (simp add: unended_def on_volume_def)
  have used: "used_names ?w = add_mset (p, kind, pn_id pn) (used_names w)" by (simp add: used_names_def u key)
  have wait: "waiting ?w k q \<Longrightarrow> waiting w k q \<or> q = pn" for k q by (auto simp: waiting_def u)
  have "jobs_sound ?w" using ok own by (auto simp: world_ok_def jobs_sound_def u)
  moreover have "jobs_found ?w" using ok by (simp add: world_ok_def jobs_found_def u)
  moreover have "folders_held ?w"
    unfolding folders_held_def
  proof (intro allI impI)
    fix k q assume k: "waiting ?w k q" "k \<notin> sw_contested ?w"
    then have "k \<notin> sw_contested w" by simp
    then have "waiting w k q \<Longrightarrow> holds_folder (the_volume w) q" using world_okD(3) [OF ok] by blast
    then have "q = pn \<or> holds_folder (the_volume w) q" using wait [OF k(1)] by blast
    then show "holds_folder (the_volume ?w) q" using held new_dir_holds [OF new] by auto
  qed
  moreover have "names_unique ?w"
    unfolding names_unique_def used
  proof (intro allI impI)
    fix k assume k: "k \<notin> sw_contested ?w"
    have fk: "folder_kind kind = Some (pn_kind pn)" using n kind by simp
    have "count (used_names w) (p, kind, pn_id pn) = 0" if "k = (p, kind, pn_id pn)"
      using free_name [OF ok _ fk, of p "pn_id pn"] k n that by simp
    moreover have "count (used_names w) k \<le> 1" using world_okD(4) [OF ok, of k] k by simp
    ultimately show "count (add_mset (p, kind, pn_id pn) (used_names w)) k \<le> 1" by auto
  qed
  ultimately show ?thesis by (simp add: world_ok_def)
qed

lemma submitted_ok:
  assumes ok: "world_ok w" and x: "(kind, analysis, pn) \<in> set (sw_reserved w)"
    and sub: "submit_tracked rf kind (pn_project pn) analysis pn (sw_service w) = (Inr i, st)"
    and tj: "gm_get (ix_key (js_index st)) (pn_project pn, kind, pn_id pn) = Some tj"
  shows "world_ok (w\<lparr>sw_service := st, sw_reserved := remove1 (kind, analysis, pn) (sw_reserved w), sw_sent := sw_sent w @ [tj]\<rparr>)"
    (is "world_ok ?w")
proof -
  let ?x = "(kind, analysis, pn)"
  have js: "jobs_sound w" and found: "jobs_found w" and folders: "folders_held w" and unique: "names_unique w"
    using ok by (simp_all add: world_ok_def)
  obtain j q where q: "submit_with \<lparr>jb_kind = kind, jb_store = pn_id pn\<rparr> (the_queue w) = (Some j, q)"
    using sub by (auto simp: submit_tracked_def split: prod.splits option.splits)
  define t0 where "t0 = \<lparr>tj_queue = j, tj_kind = kind, tj_store = pn_id pn, tj_project = pn_project pn, tj_analysis = analysis, tj_pending = pn\<rparr>"
  have st: "st = (sw_service w)\<lparr>js_index := track t0 (the_index w), js_queue := q\<rparr>"
    using sub q by (auto simp: submit_tracked_def t0_def)
  have key0: "key_of t0 = (pn_project pn, kind, pn_id pn)" by (simp add: t0_def key_of_def)
  then have t0: "tj = t0" using tj by (simp add: st track_def)
  have jq: "jobs_ok q" "due q = insert j (due (the_queue w))" "j \<notin> due (the_queue w)"
    using submit_ok [OF _ q] due_submit [OF _ q] js by (auto simp: jobs_sound_def)
  have sent: "jq_submitted q = jq_submitted (the_queue w) @ [\<lparr>en_id = j, en_job = \<lparr>jb_kind = kind, jb_store = pn_id pn\<rparr>\<rparr>]"
    using q by (auto simp: submit_with_def Let_def split: if_splits)
  have ids: "map tj_queue (sw_sent w @ [t0]) = map en_id (jq_submitted q)" using js sent by (simp add: jobs_sound_def t0_def)
  then have "distinct (map tj_queue (sw_sent w @ [t0]))"
    using numbered_distinct [of "jq_submitted q" "jq_next q"] jq(1) by (simp add: jobs_ok_def)
  then have fresh: "tj_queue t \<noteq> j" if "t \<in> set (sw_sent w)" for t using that by (auto simp: t0_def)
  have u: "unended ?w = unended w @ [t0]"
  proof -
    have "unended ?w = filter (\<lambda>t. tj_queue t \<in> due q) (sw_sent w @ [t0])" by (simp add: unended_def st t0)
    moreover have "filter (\<lambda>t. tj_queue t \<in> due q) (sw_sent w) = unended w"
      unfolding unended_def jq(2) by (rule filter_cong [OF refl]) (use fresh in blast)
    moreover have "tj_queue t0 \<in> due q" by (simp add: jq(2) t0_def)
    ultimately show ?thesis by simp
  qed
  have "gm_get (ix_queue (the_index w)) j = None"
  proof (rule ccontr)
    assume "gm_get (ix_queue (the_index w)) j \<noteq> None"
    then obtain t where t: "gm_get (ix_queue (the_index w)) j = Some t" by blast
    then have "tj_queue t = j" using js by (simp add: jobs_sound_def index_sound_def)
    then have "t \<in> set (unended w)" "tj_queue t = j" using js t by (auto simp: jobs_sound_def tracks_def)
    then show False using fresh by (auto simp: unended_def)
  qed
  then have tr: "index_sound (track t0 (the_index w))" "tracks (track t0 (the_index w)) t \<longleftrightarrow> t = t0 \<or> tracks (the_index w) t" for t
    using index_sound_track [of "the_index w" t0] js by (auto simp: jobs_sound_def t0_def)
  have own: "own_folder t0" using x js by (auto simp: jobs_sound_def own_reserved_def own_folder_def t0_def)
  have "mset (sw_reserved w) = add_mset ?x (mset (remove1 ?x (sw_reserved w)))" using x by simp
  then have moved: "image_mset reserved_key (mset (sw_reserved w)) = add_mset (reserved_key ?x) (image_mset reserved_key (mset (remove1 ?x (sw_reserved w))))"
    by (metis image_mset_add_mset)
  have "key_of t0 = reserved_key ?x" by (simp add: key0 reserved_key_def)
  then have used: "used_names ?w = used_names w"
    unfolding used_names_def u mset_map moved by (simp del: mset_remove1)
  have wait: "waiting w k q" if "waiting ?w k q" for k q
  proof -
    from that consider t where "t \<in> set (unended w)" "k = key_of t" "q = tj_pending t" "sw_hook w (tj_queue t) = Not_Called"
      | "k = key_of t0" "q = pn" | y where "y \<in> set (remove1 ?x (sw_reserved w))" "k = reserved_key y" "q = snd (snd y)"
      by (auto simp: waiting_def u t0_def simp del: mset_remove1)
    then show ?thesis
    proof cases
      case 1
      then show ?thesis unfolding waiting_def by blast
    next
      case 2
      then have "k = reserved_key ?x" "q = snd (snd ?x)" by (simp_all add: key0 reserved_key_def)
      then show ?thesis using x unfolding waiting_def by blast
    next
      case 3
      then show ?thesis using set_remove1_subset [of ?x "sw_reserved w"] unfolding waiting_def by blast
    qed
  qed
  have "jobs_sound ?w"
    using js ids own jq(1) tr u by (auto simp: jobs_sound_def st t0 dest: set_remove1_subset [THEN subsetD])
  moreover have "jobs_found ?w"
    unfolding jobs_found_def u
  proof (intro ballI impI)
    fix t assume t: "t \<in> set (unended w @ [t0])" "key_of t \<notin> sw_contested ?w"
    show "tracks (the_index ?w) t \<and> gm_get (ix_key (the_index ?w)) (key_of t) = Some t"
    proof (cases "t = t0")
      case True
      then show ?thesis using tr by (simp add: st track_def)
    next
      case False
      then have old: "t \<in> set (unended w)" "key_of t \<notin> sw_contested w" using t by simp_all
      moreover have "key_of t \<noteq> key_of t0"
        using one_user(2) [OF unique old(2,1) x] by (auto simp: key0 reserved_key_def)
      ultimately show ?thesis using found tr by (simp add: jobs_found_def st) (simp add: track_def)
    qed
  qed
  moreover have "folders_held ?w"
    unfolding folders_held_def
  proof (intro allI impI)
    fix k pn' assume k: "waiting ?w k pn'" "k \<notin> sw_contested ?w"
    then have "holds_folder (the_volume w) pn'" using world_okD(3) [OF ok wait [OF k(1)]] by simp
    then show "holds_folder (the_volume ?w) pn'" by (simp add: st)
  qed
  moreover have "names_unique ?w" using unique by (simp add: names_unique_def used)
  ultimately show ?thesis by (simp add: world_ok_def)
qed

lemma refused_ok:
  assumes ok: "world_ok w" and x: "(kind, analysis, pn) \<in> set (sw_reserved w)"
    and sub: "submit_tracked rf kind (pn_project pn) analysis pn (sw_service w) = (Inl e, st)"
  shows "world_ok (w\<lparr>sw_service := st, sw_reserved := remove1 (kind, analysis, pn) (sw_reserved w)\<rparr>)" (is "world_ok ?w")
proof -
  let ?x = "(kind, analysis, pn)" and ?ix = "untrack_pending (pn_project pn) kind (pn_id pn) (the_index w)"
  have js: "jobs_sound w" and unique: "names_unique w" using ok by (simp_all add: world_ok_def)
  have st: "st = (sw_service w)\<lparr>js_index := ?ix, js_volume := snd (discard rf pn (the_volume w))\<rparr>"
    using sub by (auto simp: submit_tracked_def submit_with_def Let_def split: if_splits)
  have key: "reserved_key ?x = (pn_project pn, kind, pn_id pn)" by (simp add: reserved_key_def)
  have u: "unended ?w = unended w" "unended (w\<lparr>sw_service := st\<rparr>) = unended w" by (simp_all add: unended_def st)
  note un = index_sound_untrack_pending [of "the_index w" "pn_project pn" kind "pn_id pn"]
  have un: "index_sound ?ix" "\<And>t. tracks ?ix t \<Longrightarrow> tracks (the_index w) t"
      "\<And>t. key_of t \<noteq> (pn_project pn, kind, pn_id pn) \<Longrightarrow> tracks (the_index w) t \<Longrightarrow> tracks ?ix t"
      "\<And>k. k \<noteq> (pn_project pn, kind, pn_id pn) \<Longrightarrow> gm_get (ix_key ?ix) k = gm_get (ix_key (the_index w)) k"
    using un js unfolding jobs_sound_def by blast+
  have "mset (sw_reserved w) = add_mset ?x (mset (remove1 ?x (sw_reserved w)))" using x by simp
  then have moved: "image_mset reserved_key (mset (sw_reserved w)) = add_mset (reserved_key ?x) (image_mset reserved_key (mset (remove1 ?x (sw_reserved w))))"
    by (metis image_mset_add_mset)
  have used: "used_names w = add_mset (reserved_key ?x) (used_names ?w)"
    unfolding used_names_def u(1) mset_map moved by (simp del: mset_remove1)
  have sub: "set (remove1 ?x (sw_reserved w)) \<subseteq> set (sw_reserved w)" by (rule set_remove1_subset)
  show ?thesis
  proof (rule world_okI)
    show "jobs_sound ?w" using js sub un(1,2) by (auto simp: jobs_sound_def u) (auto simp: st)
  next
    fix tj assume tj: "tj \<in> set (unended ?w)" "key_of tj \<notin> sw_contested ?w"
    have old: "tj \<in> set (unended w)" using tj(1) unfolding u(1) .
    have old': "key_of tj \<notin> sw_contested w" using tj(2) by simp
    note old = old old'
    have "key_of tj \<noteq> (pn_project pn, kind, pn_id pn)" using one_user(2) [OF unique old(2,1) x] key by auto
    then show "tracks (the_index ?w) tj \<and> gm_get (ix_key (the_index ?w)) (key_of tj) = Some tj"
      using world_okD(2) [OF ok old] un(3,4) by (simp add: st)
  next
    fix k q assume k: "waiting ?w k q" "k \<notin> sw_contested ?w"
    have wait: "waiting w k q" using k(1) sub by (auto simp: waiting_def u)
    have k': "k \<notin> sw_contested w" using k(2) by simp
    have in_use: "k \<in># used_names ?w"
      using k(1) unfolding waiting_def used_names_def set_mset_union set_mset_mset set_map Un_iff by (auto simp del: mset_remove1)
    have "k \<noteq> reserved_key ?x"
    proof
      assume "k = reserved_key ?x"
      then have "2 \<le> count (used_names w) k" using in_use by (simp add: used Suc_le_eq)
      then show False using world_okD(4) [OF ok k'] by simp
    qed
    moreover obtain kind' where "k = (pn_project q, kind', pn_id q)" "folder_kind kind' = Some (pn_kind q)" "\<not> is_tmp (pn_id q)"
      using waiting_own [OF js wait] by blast
    moreover have "folder_kind kind = Some (pn_kind pn)" using js x by (auto simp: jobs_sound_def own_reserved_def)
    ultimately have "(pn_project q, pn_kind q, pn_id q) \<noteq> (pn_project pn, pn_kind pn, pn_id pn)" "\<not> is_tmp (pn_id q)"
      using folder_kind_inj [of kind' _ kind] by (auto simp: key)
    then show "holds_folder (the_volume ?w) q"
      using discard_others [of "the_volume w" q pn rf] world_okD(3) [OF ok wait k'] by (simp add: st)
  next
    fix k assume "k \<notin> sw_contested ?w"
    then have "count (used_names w) k \<le> 1" using world_okD(4) [OF ok, of k] by simp
    then show "count (used_names ?w) k \<le> 1" by (simp add: used split: if_splits)
  qed
qed

lemma volume_hook: "on_volume vol (w\<lparr>sw_hook := h\<rparr>) = (on_volume vol w)\<lparr>sw_hook := h\<rparr>"
  by (cases w) (simp add: on_volume_def)

lemma filed_ok:
  assumes ok: "world_ok w" and tj: "gm_get (ix_queue (the_index w)) i = Some tj"
    and fin: "finalize_pending ft rf (tj_pending tj) (the_volume w) = (r, vol)"
  shows "world_ok ((on_volume vol w)\<lparr>sw_hook := (sw_hook w)(i := Filed tj)\<rparr>)"
proof -
  have js: "jobs_sound w" and unique: "names_unique w" using ok by (simp_all add: world_ok_def)
  then have q: "tj_queue tj = i" using tj by (simp add: jobs_sound_def index_sound_def)
  then have u: "tj \<in> set (unended w)" using js tj by (auto simp: jobs_sound_def tracks_def)
  then have own: "own_folder tj" using js sent_ids(2) [OF js] by (auto simp: jobs_sound_def)
  define w1 where "w1 = w\<lparr>sw_hook := (sw_hook w)(i := Filed tj)\<rparr>"
  have ok1: "world_ok w1" unfolding w1_def by (rule world_hook [OF ok u q]) simp
  have "world_ok (on_volume vol w1)"
  proof (rule world_waiting [OF ok1])
    fix k pn assume k: "waiting w1 k pn" "k \<notin> sw_contested w1" and held: "holds_folder (the_volume w1) pn"
    have c: "k \<notin> sw_contested w" using k(2) by (simp add: w1_def)
    obtain kind where own': "k = (pn_project pn, kind, pn_id pn)" "folder_kind kind = Some (pn_kind pn)" "\<not> is_tmp (pn_id pn)"
      using waiting_own [OF world_okD(1) [OF ok1] k(1)] by blast
    have "k \<noteq> key_of tj"
    proof
      assume kt: "k = key_of tj"
      have parts: "unended w1 = unended w" "sw_reserved w1 = sw_reserved w" by (simp_all add: w1_def)
      consider t where "t \<in> set (unended w)" "k = key_of t" "sw_hook w1 (tj_queue t) = Not_Called"
        | x where "x \<in> set (sw_reserved w)" "k = reserved_key x" using k(1) unfolding waiting_def parts by blast
      then show False
      proof cases
        case 1
        have "t = tj" by (rule one_user(1) [OF unique c 1(1) u 1(2) [symmetric] kt [symmetric]])
        then have "sw_hook w1 i = Not_Called" using 1(3) q by blast
        then show ?thesis by (simp add: w1_def)
      next
        case 2
        show ?thesis by (rule one_user(2) [OF unique c u 2(1) kt [symmetric] 2(2) [symmetric]])
      qed
    qed
    then have "(pn_project pn, pn_kind pn, pn_id pn) \<noteq> (pn_project (tj_pending tj), pn_kind (tj_pending tj), pn_id (tj_pending tj))"
      using own own' folder_kind_inj by (auto simp: own_folder_def key_of_def)
    moreover have "\<not> is_tmp (pn_id (tj_pending tj))" using own by (auto simp: own_folder_def)
    ultimately show "holds_folder vol pn"
      using finalize_others [OF _ _ own'(3) _ fin] held by (simp add: w1_def)
  qed
  then show ?thesis unfolding w1_def volume_hook .
qed

lemma stated_ok:
  assumes ok: "world_ok w" and h: "sw_hook w i = Filed tj" and vol: "\<And>pn. holds_folder (the_volume w) pn \<Longrightarrow> holds_folder vol pn"
  shows "world_ok ((on_volume vol w)\<lparr>sw_hook := (sw_hook w)(i := Stated tj)\<rparr>)"
proof -
  have "tj \<in> set (unended w)" "tj_queue tj = i" using world_okD(1) [OF ok] h by (simp_all add: jobs_sound_def)
  then have "world_ok (w\<lparr>sw_hook := (sw_hook w)(i := Stated tj)\<rparr>)" by (intro world_hook [OF ok]) simp_all
  then have "world_ok (on_volume vol (w\<lparr>sw_hook := (sw_hook w)(i := Stated tj)\<rparr>))" by (rule world_volume_same) (simp add: vol)
  then show ?thesis unfolding volume_hook .
qed

lemma world_done:
  assumes ok: "world_ok w" and q: "jobs_ok q" "due q = due (the_queue w) - {i}" "jq_submitted q = jq_submitted (the_queue w)"
    and hook: "case sw_hook w i of Not_Called \<Rightarrow> gm_get (ix_queue (the_index w)) i = None \<and> ix = the_index w
         | Filed tj \<Rightarrow> False | Stated tj \<Rightarrow> ix = untrack i tj (the_index w)"
  shows "world_ok (w\<lparr>sw_service := (sw_service w)\<lparr>js_index := ix, js_queue := q\<rparr>, sw_hook := (sw_hook w)(i := Not_Called)\<rparr>)"
    (is "world_ok ?w")
proof -
  have js: "jobs_sound w" and unique: "names_unique w" using ok by (simp_all add: world_ok_def)
  have u: "unended ?w = filter (\<lambda>t. tj_queue t \<noteq> i) (unended w)"
    unfolding unended_def filter_filter by (rule filter_cong) (auto simp: q(2))
  have old: "index_sound (the_index w)" "\<And>t. tracks (the_index w) t \<Longrightarrow> t \<in> set (unended w)"
    "\<And>j t. sw_hook w j = Filed t \<or> sw_hook w j = Stated t \<Longrightarrow> t \<in> set (unended w) \<and> tj_queue t = j"
    using js unfolding jobs_sound_def by blast+
  have ix: "index_sound ix \<and> (\<forall>t. tracks ix t \<longleftrightarrow> tj_queue t \<noteq> i \<and> tracks (the_index w) t)
      \<and> (\<forall>t. t \<in> set (unended ?w) \<longrightarrow> key_of t \<notin> sw_contested w \<longrightarrow> gm_get (ix_key ix) (key_of t) = gm_get (ix_key (the_index w)) (key_of t))"
  proof (cases "sw_hook w i")
    case Not_Called
    then have "ix = the_index w" "gm_get (ix_queue (the_index w)) i = None" using hook by simp_all
    then show ?thesis using old(1) by (auto simp: tracks_def)
  next
    case (Filed tj)
    then show ?thesis using hook by simp
  next
    case (Stated tj)
    then have ix: "ix = untrack i tj (the_index w)" and tj: "tj \<in> set (unended w)" "tj_queue tj = i" using hook old(3) by auto
    have only: "t = tj" if "tracks (the_index w) t" "tj_queue t = i" for t
      using same_job [OF js, of t tj] old(2) [OF that(1)] tj that(2) sent_ids(2) [OF js] by blast
    note un = index_sound_untrack [OF old(1) tj(2) only]
    have "key_of t \<noteq> key_of tj" if t: "t \<in> set (unended ?w)" "key_of t \<notin> sw_contested w" for t
    proof
      assume k: "key_of t = key_of tj"
      have t': "t \<in> set (unended w)" "tj_queue t \<noteq> i" using t(1) unfolding u by simp_all
      have "t = tj" by (rule one_user(1) [OF unique t(2) t'(1) tj(1) refl k [symmetric]])
      then show False using t'(2) tj(2) by simp
    qed
    then show ?thesis using un unfolding ix by blast
  qed
  show ?thesis
  proof (rule world_okI)
    have sent: "set (unended ?w) = {t \<in> set (unended w). tj_queue t \<noteq> i}" unfolding u by auto
    have "index_sound (the_index ?w)" "\<forall>t. tracks (the_index ?w) t \<longrightarrow> t \<in> set (unended ?w)"
      using ix old(2) unfolding sent by auto
    moreover have "\<forall>j t. sw_hook ?w j = Filed t \<or> sw_hook ?w j = Stated t \<longrightarrow> t \<in> set (unended ?w) \<and> tj_queue t = j"
      using old(3) unfolding sent by auto
    ultimately show "jobs_sound ?w" using js q(1,3) unfolding jobs_sound_def by simp
  next
    fix t assume t: "t \<in> set (unended ?w)" "key_of t \<notin> sw_contested ?w"
    have t': "t \<in> set (unended w)" "tj_queue t \<noteq> i" using t(1) unfolding u by simp_all
    have c: "key_of t \<notin> sw_contested w" using t(2) by simp
    show "tracks (the_index ?w) t \<and> gm_get (ix_key (the_index ?w)) (key_of t) = Some t"
      using world_okD(2) [OF ok t'(1) c] ix t(1) c t'(2) by simp
  next
    fix k pn assume k: "waiting ?w k pn" "k \<notin> sw_contested ?w"
    have "waiting w k pn" using k(1) unfolding waiting_def u by auto
    then show "holds_folder (the_volume ?w) pn" using world_okD(3) [OF ok] k(2) by simp
  next
    fix k assume "k \<notin> sw_contested ?w"
    then have "count (used_names w) k \<le> 1" using world_okD(4) [OF ok, of k] by simp
    moreover have "used_names ?w \<subseteq># used_names w"
      unfolding used_names_def u mset_map mset_filter by (simp add: image_mset_subseteq_mono)
    ultimately show "count (used_names ?w) k \<le> 1" using mset_subset_eq_count [of "used_names ?w" "used_names w" k] by linarith
  qed
qed

lemma deleted_ok:
  assumes "world_ok w"
  shows "world_ok ((on_volume vol w)\<lparr>sw_contested := sw_contested w \<union> taken_names w vol\<rparr>)"
proof (rule world_volume [OF assms])
  fix k pn assume k: "waiting w k pn" "k \<notin> sw_contested w \<union> taken_names w vol" "holds_folder (the_volume w) pn"
  show "holds_folder vol pn"
  proof (rule ccontr)
    assume lost: "\<not> holds_folder vol pn"
    from k(1) consider tj where "tj \<in> set (unended w)" "k = key_of tj" "pn = tj_pending tj"
      | x where "x \<in> set (sw_reserved w)" "k = reserved_key x" "pn = snd (snd x)" unfolding waiting_def by blast
    then have "k \<in> taken_names w vol"
    proof cases
      case 1
      then show ?thesis using k(3) lost unfolding taken_names_def by simp
    next
      case 2
      then have "x \<in> set (filter (\<lambda>(kind, analysis, pn). holds_folder (the_volume w) pn \<and> \<not> holds_folder vol pn) (sw_reserved w))"
        using k(3) lost by (simp add: case_prod_beta)
      then show ?thesis unfolding taken_names_def 2(2) by blast
    qed
    then show False using k(2) by blast
  qed
qed

lemma cancel_submitted: "cancel_job i q = (b, q') \<Longrightarrow> jq_submitted q' = jq_submitted q"
  using cancel_job_cases [of i q b q'] by auto

lemma hook_submitted: "run_hook q = Some q' \<Longrightarrow> jq_submitted q' = jq_submitted q"
  by (auto simp: run_hook_def split: option.splits prod.splits phase.splits)

lemma service_step_ok: "service_step w w' \<Longrightarrow> world_ok w \<Longrightarrow> world_ok w'"
proof (induction rule: service_step.induct)
  case (dir_reserved ft folder p now draws w pn vol kind analysis)
  then show ?case by (intro reserved_ok)
next
  case (dir_refused ft folder p now draws w e vol)
  then show ?case by (intro world_volume_same) (auto intro: new_dir_holds)
next
  case (job_submitted kind analysis pn w rf i st tj)
  then show ?case by (intro submitted_ok)
next
  case (submit_refused kind analysis pn w rf e st)
  then show ?case by (intro refused_ok)
next
  case (job_cancelled p kind i w r st)
  then have "st = sw_service w \<or> (\<exists>j b q. cancel_job j (the_queue w) = (b, q) \<and> st = (sw_service w)\<lparr>js_queue := q\<rparr>)"
    by (auto simp: cancel_tracked_def split: option.splits prod.splits bool.splits)
  then show ?case
  proof
    assume "st = sw_service w"
    then show ?thesis using job_cancelled(2) by simp
  next
    assume "\<exists>j b q. cancel_job j (the_queue w) = (b, q) \<and> st = (sw_service w)\<lparr>js_queue := q\<rparr>"
    then obtain j b q where q: "cancel_job j (the_queue w) = (b, q)" and st: "st = (sw_service w)\<lparr>js_queue := q\<rparr>" by blast
    have "jobs_ok (the_queue w)" using world_okD(1) [OF job_cancelled(2)] by (simp add: jobs_sound_def)
    then have "jobs_ok q" by (rule cancel_ok [OF _ q])
    then show ?thesis unfolding st by (rule world_queue [OF job_cancelled(2) _ due_cancel [OF q] cancel_submitted [OF q]])
  qed
next
  case (queue_moved w q)
  have "jobs_ok (the_queue w)" using world_okD(1) [OF queue_moved(2)] by (simp add: jobs_sound_def)
  then have "jobs_ok q" by (rule step_ok [OF idle_is_step [OF queue_moved(1)]])
  then show ?case by (rule world_queue [OF queue_moved(2) _ due_idle [OF queue_moved(1)] idle_submitted [OF queue_moved(1)]])
next
  case (job_wrote tj w en pn f)
  then show ?case unfolding pending_folders_def by (intro world_volume_same write_holds)
next
  case (job_committed tj w en ft r vol)
  have "jobs_sound w" by (rule world_okD(1) [OF job_committed(5)])
  then have "\<not> is_tmp (pn_id pn)" if "waiting w k pn" for k pn using waiting_own that by blast
  then show ?case by (intro world_waiting job_committed(5)) (use commit_holds [OF _ _ job_committed(4)] in blast)
next
  case (hook_filed w i s tj ft rf r vol)
  then show ?case by (intro filed_ok)
next
  case (hook_stated w i s tj vol ft)
  then show ?case by (intro stated_ok) (auto intro: reconcile_holds)
next
  case (hook_ended w en s q ix)
  have ok: "jobs_ok (the_queue w)" using world_okD(1) [OF hook_ended(4)] by (simp add: jobs_sound_def)
  show ?case by (rule world_done [OF hook_ended(4) hook_ok [OF ok hook_ended(2)] conjunct1 [OF due_hook [OF ok hook_ended(1,2)]]
      hook_submitted [OF hook_ended(2)] hook_ended(3)])
next
  case (dropped_ended en w ix reads)
  have ok: "jobs_ok (the_queue w)" using world_okD(1) [OF dropped_ended(3)] by (simp add: jobs_sound_def)
  show ?case by (rule world_done [OF dropped_ended(3) cancelled_ok [OF ok dropped_ended(1)] conjunct1 [OF due_cancelled [OF ok dropped_ended(1)]]
      _ dropped_ended(2)]) (simp add: publish_cancelled_def)
next
  case (job_dir_deleted ft rf k p i w r vol)
  then show ?case by (intro deleted_ok)
next
  case (project_deleted ft dead p w r vol)
  then show ?case by (intro deleted_ok)
next
  case (project_created to_lower sha ft left name package time draws w r vol)
  show ?case by (rule world_volume_same [OF project_created(2)]) (rule create_project_holds [OF project_created(1)])
next
  case (target_set quote ft p t w r vol)
  show ?case by (rule world_volume_same [OF target_set(2)]) (rule set_target_holds [OF target_set(1)])
next
  case (settings_saved quote ft settings w r vol)
  show ?case by (rule world_volume_same [OF settings_saved(2)]) (rule save_settings_holds [OF settings_saved(1)])
qed

lemma new_world_ok: "world_ok (new_world vol)"
  using new_queue_ok
  by (simp add: world_ok_def jobs_sound_def jobs_found_def folders_held_def names_unique_def new_world_def new_service_def
        new_index_def index_sound_def tracks_def unended_def waiting_def used_names_def due_def new_queue_def)

lemma world_reachable: "service_step\<^sup>*\<^sup>* (new_world vol) w \<Longrightarrow> world_ok w"
  by (induction rule: rtranclp_induct) (auto intro: new_world_ok service_step_ok)

text \<open>A request to queue a job is at most two steps, and a finalize hook that nothing comes between three.\<close>

lemma reserve_and_submit_steps:
  assumes run: "reserve_and_submit se folder kind p analysis (sw_service w) = (r, st)"
    and kind: "kind_of_name folder = folder_kind kind" and names: "\<forall>i. Inr i \<in> set (dir_names (sn_now se) (sn_draws se)) \<longrightarrow> \<not> is_tmp i"
    and quiet: "sw_hook w = (\<lambda>_. Not_Called)"
  shows "\<exists>w'. service_step\<^sup>*\<^sup>* w w' \<and> sw_service w' = st \<and> sw_hook w' = sw_hook w \<and> sw_contested w' = sw_contested w"
proof -
  obtain d vol where d: "new_dir (sn_faults se) folder p (sn_now se) (sn_draws se) (the_volume w) = (d, vol)" by fastforce
  show ?thesis
  proof (cases d)
    case (Inl e)
    then have "st = (sw_service w)\<lparr>js_volume := vol\<rparr>" using run d by (simp add: reserve_and_submit_def)
    moreover have "service_step w (on_volume vol w)" using d Inl by (auto intro: dir_refused)
    ultimately show ?thesis by (intro exI [of _ "on_volume vol w"]) (simp add: on_volume_def r_into_rtranclp)
  next
    case (Inr pn)
    let ?x = "(kind, analysis, pn)"
    define w1 where "w1 = (on_volume vol w)\<lparr>sw_reserved := sw_reserved w @ [?x], sw_contested := sw_contested w \<union> reused_names w (p, kind, pn_id pn)\<rparr>"
    have one: "service_step w w1" unfolding w1_def by (rule dir_reserved [OF d [unfolded Inr] kind names])
    have w1: "sw_service w1 = (sw_service w)\<lparr>js_volume := vol\<rparr>" "?x \<in> set (sw_reserved w1)" "sw_hook w1 = sw_hook w" "sw_contested w1 = sw_contested w"
      by (simp_all add: w1_def on_volume_def reused_names_def quiet)
    have p: "pn_project pn = p" using new_dir_Inr [OF d [unfolded Inr]] by blast
    have sub: "submit_tracked (sn_removal se) kind (pn_project pn) analysis pn (sw_service w1) = (r, st)"
      using run d Inr by (simp add: reserve_and_submit_def w1(1) p)
    have "\<exists>w'. service_step w1 w' \<and> sw_service w' = st \<and> sw_hook w' = sw_hook w1 \<and> sw_contested w' = sw_contested w1"
    proof (cases r)
      case (Inl e)
      show ?thesis by (intro exI conjI, rule submit_refused [OF w1(2) sub [unfolded Inl]]) simp_all
    next
      case (Inr i)
      have "\<exists>tj. gm_get (ix_key (js_index st)) (pn_project pn, kind, pn_id pn) = Some tj"
        using sub Inr by (auto simp: submit_tracked_def track_def key_of_def split: prod.splits option.splits)
      then obtain tj where tj: "gm_get (ix_key (js_index st)) (pn_project pn, kind, pn_id pn) = Some tj" by blast
      show ?thesis by (intro exI conjI, rule job_submitted [OF w1(2) sub [unfolded Inr] tj]) simp_all
    qed
    then obtain w' where w': "service_step w1 w'" "sw_service w' = st" "sw_hook w' = sw_hook w1" "sw_contested w' = sw_contested w1" by blast
    have "service_step\<^sup>*\<^sup>* w w'" using one w'(1) by (meson converse_rtranclp_into_rtranclp rtranclp.rtrancl_refl)
    then show ?thesis using w'(2-4) w1(3,4) by metis
  qed
qed

lemma finalize_job_steps:
  assumes cur: "jq_current (the_queue w) = Some (en, Ended_As s)" and q: "run_hook (the_queue w) = Some q"
    and fresh: "sw_hook w (en_id en) = Not_Called" and run: "finalize_job ft rf (en_id en) s (the_index w, the_volume w) = (r, ix, vol)"
  shows "service_step\<^sup>*\<^sup>* w (w\<lparr>sw_service := \<lparr>js_index = ix, js_queue = q, js_volume = vol\<rparr>\<rparr>)"
proof (cases "gm_get (ix_queue (the_index w)) (en_id en)")
  case None
  have "sw_service w = \<lparr>js_index = the_index w, js_queue = the_queue w, js_volume = the_volume w\<rparr>" by simp
  then have "w\<lparr>sw_service := \<lparr>js_index = ix, js_queue = q, js_volume = vol\<rparr>\<rparr>
      = w\<lparr>sw_service := (sw_service w)\<lparr>js_index := the_index w, js_queue := q\<rparr>, sw_hook := (sw_hook w)(en_id en := Not_Called)\<rparr>"
    using run None fresh by (simp add: finalize_job_def fun_upd_idem)
  then show ?thesis using hook_ended [OF cur q, of "the_index w"] fresh None by simp
next
  case (Some tj)
  let ?i = "en_id en"
  obtain vol1 where v1: "finalize_pending ft rf (tj_pending tj) (the_volume w) = (r, vol1)" and ix: "ix = untrack ?i tj (the_index w)"
    and vol: "vol = (if tj_kind tj = ''analysis'' \<or> tj_kind tj = ''export'' then reconcile_status ft (tj_pending tj) s vol1 else vol1)"
    using run Some by (auto simp: finalize_job_def Let_def split: prod.splits)
  have due: "hook_due_for (the_queue w) ?i s" using cur by (simp add: hook_due_for_def)
  define w1 where "w1 = (on_volume vol1 w)\<lparr>sw_hook := (sw_hook w)(?i := Filed tj)\<rparr>"
  define w2 where "w2 = (on_volume vol w1)\<lparr>sw_hook := (sw_hook w1)(?i := Stated tj)\<rparr>"
  have "service_step w w1" unfolding w1_def by (rule hook_filed [OF due fresh Some v1])
  moreover have "service_step w1 w2" unfolding w2_def by (rule hook_stated [of w1 ?i s tj _ ft]) (simp_all add: w1_def due vol)
  moreover have "service_step w2 (w2\<lparr>sw_service := (sw_service w2)\<lparr>js_index := ix, js_queue := q\<rparr>, sw_hook := (sw_hook w2)(?i := Not_Called)\<rparr>)"
    by (rule hook_ended) (simp_all add: w1_def w2_def cur q ix)
  moreover have "w2\<lparr>sw_service := (sw_service w2)\<lparr>js_index := ix, js_queue := q\<rparr>, sw_hook := (sw_hook w2)(?i := Not_Called)\<rparr>
      = w\<lparr>sw_service := \<lparr>js_index = ix, js_queue = q, js_volume = vol\<rparr>\<rparr>"
    using fresh by (cases w) (simp add: w1_def w2_def on_volume_def fun_upd_idem)
  ultimately show ?thesis by (metis converse_rtranclp_into_rtranclp rtranclp.rtrancl_refl)
qed

lemma due_submitted: "jobs_ok q \<Longrightarrow> due q \<subseteq> set (map en_id (jq_submitted q))"
  by (auto simp: jobs_ok_def due_def)


text \<open>A state as the service sees it: no hook under way, and no name contested.\<close>

definition index_ok :: "job_index \<Rightarrow> bool" where
  "index_ok ix \<longleftrightarrow> (\<forall>i tj. gm_get (ix_queue ix) i = Some tj \<longrightarrow> tj_queue tj = i)
     \<and> (\<forall>k tj. gm_get (ix_key ix) k = Some tj \<longleftrightarrow> key_of tj = k \<and> tracks ix tj)
     \<and> (\<forall>p tj. gm_get (ix_project ix) p = Some tj \<longrightarrow> tj_project tj = p \<and> tracks ix tj)"

definition service_ok :: "job_service \<Rightarrow> bool" where
  "service_ok st \<longleftrightarrow> jobs_ok (js_queue st) \<and> index_ok (js_index st)
     \<and> (\<forall>i. gm_get (ix_queue (js_index st)) i \<noteq> None \<longleftrightarrow> i \<in> due (js_queue st))
     \<and> (\<forall>tj. tracks (js_index st) tj \<longrightarrow> own_folder tj \<and> holds_folder (js_volume st) (tj_pending tj))"

lemma world_service_ok:
  assumes ok: "world_ok w" and quiet: "sw_contested w = {}" "sw_hook w = (\<lambda>_. Not_Called)"
  shows "service_ok (sw_service w)"
proof -
  have js: "jobs_sound w" by (rule world_okD(1) [OF ok])
  have old: "jobs_ok (the_queue w)" "index_sound (the_index w)" "\<And>t. tracks (the_index w) t \<Longrightarrow> t \<in> set (unended w)"
    "\<And>t. t \<in> set (sw_sent w) \<Longrightarrow> own_folder t" "map tj_queue (sw_sent w) = map en_id (jq_submitted (the_queue w))"
    using js unfolding jobs_sound_def by blast+
  have all: "tracks (the_index w) t \<longleftrightarrow> t \<in> set (unended w)" "t \<in> set (unended w) \<Longrightarrow> gm_get (ix_key (the_index w)) (key_of t) = Some t" for t
    using world_okD(2) [OF ok, of t] old(3) [of t] quiet(1) by auto
  have "gm_get (ix_key (the_index w)) k = Some t \<longleftrightarrow> key_of t = k \<and> tracks (the_index w) t" for k t
    using old(2) all [of t] unfolding index_sound_def by blast
  then have "index_ok (the_index w)" using old(2) unfolding index_sound_def index_ok_def by blast
  moreover have "gm_get (ix_queue (the_index w)) i \<noteq> None \<longleftrightarrow> i \<in> due (the_queue w)" for i
  proof
    assume "gm_get (ix_queue (the_index w)) i \<noteq> None"
    then obtain t where t: "gm_get (ix_queue (the_index w)) i = Some t" by blast
    then have "tj_queue t = i" using old(2) unfolding index_sound_def by blast
    then show "i \<in> due (the_queue w)" using all(1) [of t] t by (auto simp: tracks_def unended_def)
  next
    assume i: "i \<in> due (the_queue w)"
    then have "i \<in> set (map tj_queue (sw_sent w))" using due_submitted [OF old(1)] unfolding old(5) by blast
    then obtain t where "t \<in> set (unended w)" "tj_queue t = i" using i by (auto simp: unended_def)
    then show "gm_get (ix_queue (the_index w)) i \<noteq> None" using all(1) [of t] by (auto simp: tracks_def)
  qed
  moreover have "own_folder t \<and> holds_folder (the_volume w) (tj_pending t)" if "tracks (the_index w) t" for t
  proof -
    have t: "t \<in> set (unended w)" using old(3) [OF that] .
    then have "waiting w (key_of t) (tj_pending t)" unfolding waiting_def using quiet(2) by auto
    then show ?thesis using world_okD(3) [OF ok] quiet(1) t old(4) sent_ids(2) [OF js] by blast
  qed
  ultimately show ?thesis using old(1) unfolding service_ok_def by blast
qed

subsection \<open>What an export that ended is listed as\<close>

text \<open>The folder of a run, as the store reads it; \<open>parse\<close> reads a time.\<close>

definition export_folder :: "(string \<Rightarrow> time option) \<Rightarrow> export_job \<Rightarrow> export_run \<Rightarrow> job_folder" where
  "export_folder parse j r = \<lparr>
     jf_status = (case gm_get (xr_docs r) ''status.json'' of
         Some (Export_Status s a rows) \<Rightarrow> Some (Decoded \<lparr>sx_state = Some s, sx_analysis = a, sx_trivy = '''', sx_trivy_db = 0, sx_pnpm = '''', sx_steps = rows\<rparr>)
       | _ \<Rightarrow> None),
     jf_ranking = None,
     jf_manifest = (case gm_get (xr_docs r) ''manifest.json'' of
         Some (Manifest_Json m) \<Rightarrow> Some (Decoded \<lparr>em_analysis = am_analysis m, em_created = parse (am_created m)\<rparr>) | _ \<Rightarrow> None),
     jf_other = map (\<lambda>n. (n, True)) (filter (\<lambda>n. n \<notin> {''status.json'', ''manifest.json''}) (map fst (xr_docs r)))
       @ (if xr_files r (archive_path j) = None then [] else [(''packages_npm.tar.gz'', True)])\<rparr>"

lemma first_failure_rows: "first_failure (finished_rows ns @ rows) = first_failure rows"
  by (induction ns) (simp_all add: finished_rows_def first_failure_def state_failed_def state_done_def state_running_def)

lemma first_failure_Nil [simp]: "first_failure [] = None"
  by (simp add: first_failure_def)

lemma first_failure_until: "first_failure (rows_until ns k e) = (if k < length ns then Some (ns ! k, export_error_text e) else None)"
  using first_failure_rows [of ns "[]"]
  by (simp add: rows_until_def first_failure_rows) (simp add: first_failure_def state_failed_def state_running_def)

lemma read_export_plain:
  assumes "parse_stamp i = Some t" "\<And>e. jf_manifest f \<noteq> Some (Store_Folders.Unreadable e)"
  shows "jf_status f = None \<Longrightarrow> \<exists>info. read_export_info sound_disk p i f = Inr info \<and> ji_state info = state_done \<and> ji_failure info = None"
    and "jf_status f = Some (Decoded s) \<Longrightarrow> \<exists>info. read_export_info sound_disk p i f = Inr info \<and> ji_state info = state_text s
      \<and> ji_failure info = first_failure (sx_steps s)"
proof -
  have m: "jf_manifest f = None \<or> (\<exists>m. jf_manifest f = Some (Decoded m))"
    using assms(2) by (cases "jf_manifest f"; cases "the (jf_manifest f)") auto
  show "jf_status f = None \<Longrightarrow> \<exists>info. read_export_info sound_disk p i f = Inr info \<and> ji_state info = state_done \<and> ji_failure info = None"
    using m by (auto simp: read_export_info_def assms(1) Let_def)
  show "jf_status f = Some (Decoded s) \<Longrightarrow> \<exists>info. read_export_info sound_disk p i f = Inr info \<and> ji_state info = state_text s
      \<and> ji_failure info = first_failure (sx_steps s)"
    using m by (auto simp: read_export_info_def assms(1) Let_def)
qed

lemma export_folder_manifest: "jf_manifest (export_folder parse j r) \<noteq> Some (Store_Folders.Unreadable e)"
  by (simp add: export_folder_def split: option.split export_doc.split)

lemma finalize_commits:
  assumes "gm_get (ix_queue ix) i = Some tj" "tj_kind tj = ''export''" "pn = tj_pending tj"
    and "gm_get (pending_folders pn vol) (pn_id pn @ tmp_suffix) = Some f" "gm_get (pending_folders pn vol) (pn_id pn) = None"
    and "folder_entries f \<noteq> []" "finalize_job sound_disk None i state (ix, vol) = (q, ix', vol')"
  shows "q = Inr () \<and> gm_get (ix_queue ix') i = None
    \<and> gm_get (pending_folders pn vol') (pn_id pn) = Some (case jf_status f of
        Some (Decoded s) \<Rightarrow> f\<lparr>jf_status := Some (Decoded (s\<lparr>sx_state := Some state\<rparr>))\<rparr> | _ \<Rightarrow> f)"
proof -
  have "pn_id pn @ tmp_suffix \<noteq> pn_id pn" by (simp add: tmp_suffix_def)
  then show ?thesis
    using assms by (auto simp: finalize_job_def finalize_pending_def commit_def Let_def reconcile_status_def pending_folders_def untrack_def
        split: option.splits json_file.splits)
qed

lemma failed_archive_gone:
  assumes "run_export env ta j fs = (Some e, r)" "xe_fault env ''clean'' (archive_path j) = None"
  shows "xr_files r (archive_path j) = None \<and> ''packages_npm.tar.gz'' \<notin> fst ` set (jf_other (export_folder parse j r))"
proof -
  have clean: "xe_fault env ''clean'' (path_join [xj_dir j, ''packages_npm.tar.gz'']) = None"
    using assms(2) by (simp add: archive_path_def)
  have gone: "gm_get (xr_docs r) ''packages_npm.tar.gz'' = None" "xr_files r (archive_path j) = None"
    using failed_run_cleaned [OF assms(1) _ clean] by (simp_all add: archive_path_def)
  then show ?thesis by (auto simp: export_folder_def gm_get_None_iff image_iff)
qed

text \<open>C19. How an export that ended is listed. When its folder holds something, under a name the API takes, and the disk
  works for the finalizer, the folder is committed and the job forgotten; after a successful run the listing says done.
  After a failed run it says what the queue says, with the step that failed and why; but when that run could not write
  its status.json the listing says done, without a failure, whatever made it fail. And after any failed run the
  committed folder holds no archive, unless the disk refused to remove it.\<close>

theorem export_end_listed:
  assumes "run_export env ta j fs = (res, r)" and "gm_get (ix_queue ix) i = Some tj" "tj_kind tj = ''export''" "pn = tj_pending tj"
    and "pn_kind pn = Exports" "valid_dir_id (pn_project pn)" "valid_dir_id (pn_id pn)" "parse_stamp (pn_id pn) = Some t"
    and "gm_get (pending_folders pn vol) (pn_id pn @ tmp_suffix) = Some (export_folder parse j r)" "gm_get (pending_folders pn vol) (pn_id pn) = None"
    and "folder_entries (export_folder parse j r) \<noteq> []" "finalize_job sound_disk None i state (ix, vol) = (q, ix', vol')"
  shows "q = Inr () \<and> gm_get (ix_queue ix') i = None
    \<and> (\<exists>info. job_info_of sound_disk Exports (pn_project pn) (pn_id pn) vol' = Inr info
      \<and> (if res = None \<or> xe_fault env ''write status'' (path_join [xj_dir j, ''status.json'']) \<noteq> None
         then ji_state info = state_done \<and> ji_failure info = None
         else ji_state info = state \<and> ji_failure info = first_failure (rows_of r)
           \<and> (\<forall>step why. ji_failure info = Some (step, why) \<longrightarrow> step \<in> set export_step_names \<and> Some why = map_option export_error_text res)))
    \<and> (res \<noteq> None \<and> xe_fault env ''clean'' (archive_path j) = None \<longrightarrow> xr_files r (archive_path j) = None
      \<and> (\<exists>f. gm_get (folders_at vol' (pn_project pn) Exports) (pn_id pn) = Some f \<and> ''packages_npm.tar.gz'' \<notin> fst ` set (jf_other f)))"
    (is "?committed \<and> ?forgotten \<and> ?listed \<and> ?gone")
proof -
  note com = finalize_commits [OF assms(2-4,9-12)]
  note st = run_status [OF assms(1)]
  have fails: "step \<in> set export_step_names \<and> Some why = map_option export_error_text res"
    if first: "first_failure (rows_of r) = Some (step, why)" and some: "res \<noteq> None" for step why
  proof -
    obtain e where e: "res = Some e" using some by blast
    from failed_rows [OF assms(1) [unfolded e]] first show ?thesis
      by (auto simp: e first_failure_until split: if_splits)
  qed
  have at: "gm_get (folders_at vol' (pn_project pn) Exports) (pn_id pn) = Some (case jf_status (export_folder parse j r) of
        Some (Decoded s) \<Rightarrow> (export_folder parse j r)\<lparr>jf_status := Some (Decoded (s\<lparr>sx_state := Some state\<rparr>))\<rparr> | _ \<Rightarrow> export_folder parse j r)"
    using com assms(5) by (simp add: pending_folders_def)
  have gone: ?gone
  proof (intro impI conjI exI)
    assume failed: "res \<noteq> None \<and> xe_fault env ''clean'' (archive_path j) = None"
    then obtain e where "res = Some e" by blast
    then have run: "run_export env ta j fs = (Some e, r)" using assms(1) by simp
    note none = failed_archive_gone [OF run conjunct2 [OF failed], of parse]
    show "xr_files r (archive_path j) = None" using none by blast
    show "''packages_npm.tar.gz'' \<notin> fst ` set (jf_other (case jf_status (export_folder parse j r) of
        Some (Decoded s) \<Rightarrow> (export_folder parse j r)\<lparr>jf_status := Some (Decoded (s\<lparr>sx_state := Some state\<rparr>))\<rparr> | _ \<Rightarrow> export_folder parse j r))"
      using none by (auto split: option.splits json_file.splits)
  qed (rule at)
  have ?listed
  proof (cases "res = None \<or> xe_fault env ''write status'' (path_join [xj_dir j, ''status.json'']) \<noteq> None")
    case True
    then have "gm_get (xr_docs r) ''status.json'' = None" unfolding st by (rule if_P)
    then have none: "jf_status (export_folder parse j r) = None" by (simp add: export_folder_def)
    obtain info where info: "read_export_info sound_disk (pn_project pn) (pn_id pn) (export_folder parse j r) = Inr info"
        "ji_state info = state_done" "ji_failure info = None"
      using read_export_plain(1) [OF assms(8) export_folder_manifest none] by blast
    have "job_info_of sound_disk Exports (pn_project pn) (pn_id pn) vol' = Inr info"
      using at none info(1) assms(6,7) by (simp add: job_info_of_def read_info_def)
    then show ?thesis using info(2,3) unfolding if_P [OF True] by blast
  next
    case False
    let ?s = "\<lparr>sx_state = Some (if xe_ctx env ''end'' 0 \<noteq> None then state_cancelled else state_failed), sx_analysis = xj_analysis j,
      sx_trivy = '''', sx_trivy_db = 0, sx_pnpm = '''', sx_steps = rows_of r\<rparr>"
    have some: "jf_status (export_folder parse j r) = Some (Decoded ?s)"
      using st False by (simp add: export_folder_def)
    let ?f = "(export_folder parse j r)\<lparr>jf_status := Some (Decoded (?s\<lparr>sx_state := Some state\<rparr>))\<rparr>"
    have "jf_manifest ?f \<noteq> Some (Store_Folders.Unreadable x)" for x using export_folder_manifest by simp
    from read_export_plain(2) [OF assms(8) this, of "?s\<lparr>sx_state := Some state\<rparr>"] obtain info where
      info: "read_export_info sound_disk (pn_project pn) (pn_id pn) ?f = Inr info" "ji_state info = state"
        "ji_failure info = first_failure (rows_of r)" by (auto simp: state_text_def)
    have "job_info_of sound_disk Exports (pn_project pn) (pn_id pn) vol' = Inr info"
      using at some info(1) assms(6,7) by (simp add: job_info_of_def read_info_def)
    moreover have "\<forall>step why. ji_failure info = Some (step, why) \<longrightarrow> step \<in> set export_step_names \<and> Some why = map_option export_error_text res"
      using fails False info(3) by auto
    ultimately show ?thesis using info(2,3) unfolding if_not_P [OF False] by blast
  qed
  then show ?thesis using com gone by blast
qed

subsection \<open>What is left of an analysis that was cut off\<close>

lemma finalize_analysis_folder:
  assumes "gm_get (ix_queue ix) i = Some tj" "tj_kind tj = ''analysis''" "pn = tj_pending tj"
    and "finalize_job ft rf i state (ix, vol) = (q, ix', vol')"
  obtains vol1 where "finalize_pending ft rf pn vol = (q, vol1)" "vol' = reconcile_status ft pn state vol1"
  using assms by (auto simp: finalize_job_def Let_def split: prod.splits)

lemma reconcile_at:
  "gm_get (pending_folders pn (reconcile_status ft pn state vol)) (pn_id pn) = (case gm_get (pending_folders pn vol) (pn_id pn) of None \<Rightarrow> None
    | Some f \<Rightarrow> (case (vf_stat ft, jf_status f, vf_write ft) of
        (None, Some (Decoded s), None) \<Rightarrow> Some (f\<lparr>jf_status := Some (Decoded (s\<lparr>sx_state := Some state\<rparr>))\<rparr>) | _ \<Rightarrow> Some f))"
  by (auto simp: reconcile_status_def pending_folders_def split: option.split json_file.split)

lemma state_texts: "state_interrupted \<noteq> state_running" "state_interrupted \<noteq> state_done" "state_interrupted \<noteq> state_failed"
    "state_interrupted \<noteq> state_cancelled"
  by (simp_all add: state_interrupted_def state_running_def state_done_def state_failed_def state_cancelled_def)

lemma reconcile_volume_ok: "volume_ok vol \<Longrightarrow> volume_ok (reconcile_status ft pn state vol)"
  by (auto simp: reconcile_status_def pending_folders_def split: option.split json_file.split intro!: volume_ok_put gm_ok_put)
    (simp_all add: volume_ok_def)

lemma finalize_pending_at:
  assumes "finalize_pending ft rf pn vol = (q, vol1)" "volume_ok vol" "gm_get (pending_folders pn vol) (pn_id pn) = None"
    and "gm_get (pending_folders pn vol) (pn_id pn @ tmp_suffix) = Some f" "folder_entries f \<noteq> []"
  shows "volume_ok vol1 \<and> gm_get (pending_folders pn vol1) (pn_id pn) = (if q = Inr () \<and> vf_list ft = None then Some f else None)"
proof -
  have ne: "pn_id pn @ tmp_suffix \<noteq> pn_id pn" by (simp add: tmp_suffix_def)
  have "gm_ok (pending_folders pn vol)" using assms(2) by (simp add: volume_ok_def pending_folders_def)
  then show ?thesis
    using assms ne by (auto simp: finalize_pending_def commit_def Let_def pending_folders_def split: option.splits)
qed

lemma swept_status:
  assumes "volume_ok vol" "\<not> is_tmp i" "gm_get (folders_at vol p k) i = Some f" "jf_status f = Some (Decoded s)"
    and "sx_state s \<noteq> Some state_interrupted"
  shows "(\<exists>g s'. gm_get (folders_at (start_up fw rf vol) p k) i = Some g \<and> jf_status g = Some (Decoded s') \<and> sx_state s' = Some state_interrupted)
    \<longleftrightarrow> sx_state s = Some state_running \<and> fw p k i = None"
  using assms by (auto simp: start_up_at mark_folder_def mark_if_running_def split: option.splits)

text \<open>C25. What is left of an analysis that was cut off. At any point of a crash while it runs its status says running; but
  its folder is then a pending one, which the sweep at start removes, so nothing of it is kept. When the run ended and
  its job is finalized, the sweep of the next start keeps it as interrupted exactly when the run could not write its
  last status, the finalizer did commit the folder, could not correct the status in it (a fault of the disk, or a
  crash between the two), and the sweep can write. The folder that a run committed itself is never taken for
  interrupted.\<close>

theorem interrupted_analysis_kept:
  assumes env: "ae_open_log env = None" "ae_first env = None" and e: "e = run_analysis sv env j"
    and pn: "gm_get (ix_queue ix) i = Some tj" "tj_kind tj = ''analysis''" "pn = tj_pending tj" "pn_kind pn = Analyses" "\<not> is_tmp (pn_id pn)"
    and state: "state \<in> {state_done, state_failed, state_cancelled}"
  shows "(\<forall>k vol. 0 < k \<and> k < length (ru_writes (nd_run e)) \<longrightarrow> volume_ok vol \<longrightarrow> rf (pn_project pn) Analyses (pn_id pn @ tmp_suffix) = None
        \<longrightarrow> gm_get (folders_at vol (pn_project pn) Analyses) (pn_id pn) = None
        \<longrightarrow> gm_get (folders_at vol (pn_project pn) Analyses) (pn_id pn @ tmp_suffix) = Some (folder_of enc (take k (ru_writes (nd_run e))))
        \<longrightarrow> jf_status (folder_of enc (take k (ru_writes (nd_run e)))) = Some (Decoded running_status)
          \<and> gm_get (folders_at (start_up fw rf vol) (pn_project pn) Analyses) (pn_id pn) = None
          \<and> gm_get (folders_at (start_up fw rf vol) (pn_project pn) Analyses) (pn_id pn @ tmp_suffix) = None)
    \<and> (\<forall>vol ft dead r vol1 r' ix' vol'. volume_ok vol \<longrightarrow>
        gm_get (folders_at vol (pn_project pn) Analyses) (pn_id pn)
          = (if nd_committed e then Some (folder_of enc (ru_writes (nd_run e))) else None) \<longrightarrow>
        gm_get (folders_at vol (pn_project pn) Analyses) (pn_id pn @ tmp_suffix)
          = (if nd_committed e then None else Some (folder_of enc (ru_writes (nd_run e)))) \<longrightarrow>
        finalize_pending ft dead pn vol = (r, vol1) \<longrightarrow> finalize_job ft dead i state (ix, vol) = (r', ix', vol') \<longrightarrow>
        ((\<exists>f s. gm_get (folders_at (start_up fw rf vol1) (pn_project pn) Analyses) (pn_id pn) = Some f
            \<and> jf_status f = Some (Decoded s) \<and> sx_state s = Some state_interrupted)
          \<longleftrightarrow> ae_write env ''status.json'' \<noteq> None \<and> vf_list ft = None \<and> r = Inr () \<and> fw (pn_project pn) Analyses (pn_id pn) = None)
        \<and> ((\<exists>f s. gm_get (folders_at (start_up fw rf vol') (pn_project pn) Analyses) (pn_id pn) = Some f
            \<and> jf_status f = Some (Decoded s) \<and> sx_state s = Some state_interrupted)
          \<longleftrightarrow> ae_write env ''status.json'' \<noteq> None \<and> vf_list ft = None \<and> r = Inr () \<and> fw (pn_project pn) Analyses (pn_id pn) = None
              \<and> (vf_stat ft \<noteq> None \<or> vf_write ft \<noteq> None)))"
proof (intro conjI allI impI; (elim conjE)?)
  note run = run_folder_status [OF env, where sv = sv and j = j, folded e]
  note at = start_up_at [where fw = fw and rf = rf]
  fix k vol
  assume k: "0 < k" "k < length (ru_writes (nd_run e))" and vol: "volume_ok vol" "rf (pn_project pn) Analyses (pn_id pn @ tmp_suffix) = None"
    "gm_get (folders_at vol (pn_project pn) Analyses) (pn_id pn) = None"
  show "jf_status (folder_of enc (take k (ru_writes (nd_run e)))) = Some (Decoded running_status)" by (rule run(1) [OF k])
  show "gm_get (folders_at (start_up fw rf vol) (pn_project pn) Analyses) (pn_id pn) = None" using at [OF vol(1)] vol(3) by simp
  show "gm_get (folders_at (start_up fw rf vol) (pn_project pn) Analyses) (pn_id pn @ tmp_suffix) = None"
    using at [OF vol(1)] vol(2) by (simp split: option.split)
next
  note run = run_folder_status [OF env, where sv = sv and j = j, folded e]
  let ?F = "folder_of enc (ru_writes (nd_run e))" and ?p = "pn_project pn" and ?i = "pn_id pn"
  fix vol ft dead r vol1 r' ix' vol'
  assume vol: "volume_ok vol" "gm_get (folders_at vol ?p Analyses) ?i = (if nd_committed e then Some ?F else None)"
      "gm_get (folders_at vol ?p Analyses) (?i @ tmp_suffix) = (if nd_committed e then None else Some ?F)"
    and fin: "finalize_pending ft dead pn vol = (r, vol1)" "finalize_job ft dead i state (ix, vol) = (r', ix', vol')"
  have vol': "vol' = reconcile_status ft pn state vol1" using finalize_analysis_folder [OF pn(1-3) fin(2)] fin(1) by auto
  obtain s where s: "jf_status ?F = Some (Decoded s)"
      "sx_state s = Some state_running \<longleftrightarrow> ae_write env ''status.json'' \<noteq> None" "sx_state s \<noteq> Some state_interrupted"
  proof (cases "ae_write env ''status.json'' = None")
    case True
    then obtain s where "sx_state s \<in> {Some state_cancelled, Some state_done, Some state_failed}" "jf_status ?F = Some (Decoded s)"
      using run(3) by blast
    then show ?thesis using that [of s] True states_distinct(4-6) state_texts by (metis insertE option.inject singletonD)
  next
    case False
    have "sx_state running_status = Some state_running" by (simp add: running_status_def)
    then show ?thesis using that [of running_status] run(2) [OF False] False state_texts(1) by (metis option.inject)
  qed
  have entries: "folder_entries ?F \<noteq> []" using s(1) by (auto simp: folder_entries_def)
  have pend: "pending_folders pn v = folders_at v ?p Analyses" for v by (simp add: pending_folders_def pn(4))
  have one: "volume_ok vol1 \<and> gm_get (folders_at vol1 ?p Analyses) ?i = (if nd_committed e \<or> r = Inr () \<and> vf_list ft = None then Some ?F else None)"
  proof (cases "nd_committed e")
    case True
    then have "vol1 = vol" using fin(1) vol(3) by (auto simp: finalize_pending_def pend split: option.splits)
    then show ?thesis using vol(1,2) True by simp
  next
    case False
    then show ?thesis using finalize_pending_at [OF fin(1) vol(1) _ _ entries] vol(2,3) by (simp add: pend)
  qed
  have two: "volume_ok vol'" using reconcile_volume_ok one unfolding vol' by blast
  have fails: "ae_write env ''status.json'' \<noteq> None \<Longrightarrow> \<not> nd_committed e" using run(2) by blast
  show "(\<exists>f s. gm_get (folders_at (start_up fw rf vol1) ?p Analyses) ?i = Some f \<and> jf_status f = Some (Decoded s) \<and> sx_state s = Some state_interrupted)
      \<longleftrightarrow> ae_write env ''status.json'' \<noteq> None \<and> vf_list ft = None \<and> r = Inr () \<and> fw ?p Analyses ?i = None"
  proof (cases "nd_committed e \<or> r = Inr () \<and> vf_list ft = None")
    case True
    then show ?thesis using swept_status [OF _ pn(5) _ s(1,3), of vol1 ?p Analyses fw rf] one s(2) fails by auto
  next
    case False
    then show ?thesis using start_up_at [of vol1 fw rf ?p Analyses ?i] one by auto
  qed
  show "(\<exists>f s. gm_get (folders_at (start_up fw rf vol') ?p Analyses) ?i = Some f \<and> jf_status f = Some (Decoded s) \<and> sx_state s = Some state_interrupted)
      \<longleftrightarrow> ae_write env ''status.json'' \<noteq> None \<and> vf_list ft = None \<and> r = Inr () \<and> fw ?p Analyses ?i = None \<and> (vf_stat ft \<noteq> None \<or> vf_write ft \<noteq> None)"
  proof (cases "nd_committed e \<or> r = Inr () \<and> vf_list ft = None")
    case False
    then have "gm_get (folders_at vol1 ?p Analyses) ?i = None" using one by (simp only: if_False)
    then have "gm_get (folders_at vol' ?p Analyses) ?i = None" using reconcile_at [of pn ft state vol1] by (simp add: pend vol')
    then show ?thesis using start_up_at [OF two, of fw rf ?p Analyses ?i] False by auto
  next
    case True
    show ?thesis
    proof (cases "vf_stat ft = None \<and> vf_write ft = None")
      case fixed: True
      let ?g = "?F\<lparr>jf_status := Some (Decoded (s\<lparr>sx_state := Some state\<rparr>))\<rparr>"
      have "gm_get (folders_at vol' ?p Analyses) ?i = Some ?g"
        using one True reconcile_at [of pn ft state vol1] s(1) fixed by (simp add: pend vol')
      moreover have "state \<noteq> state_running" "state \<noteq> state_interrupted" using state by (auto simp: state_texts)
      ultimately show ?thesis using swept_status [OF two pn(5), of ?p Analyses ?g "s\<lparr>sx_state := Some state\<rparr>" fw rf] fixed by auto
    next
      case broken: False
      have "gm_get (folders_at vol' ?p Analyses) ?i = Some ?F"
        using one True reconcile_at [of pn ft state vol1] s(1) broken by (auto simp: pend vol' split: option.splits)
      then show ?thesis using swept_status [OF two pn(5) _ s(1,3), of ?p Analyses fw rf] s(2) fails True broken by auto
    qed
  qed
qed

subsection \<open>Accepting an export\<close>

lemma reserve_and_submit_cases:
  assumes "reserve_and_submit se folder kind p analysis st = (r, st')"
  shows "(\<forall>i. r = Inr i \<longrightarrow> (\<exists>k q. kind_of_name folder = Some k \<and> q = \<lparr>jb_kind = kind, jb_store = i\<rparr> \<and> \<not> jq_closed (js_queue st)
      \<and> js_queue st' = snd (submit_with q (js_queue st)) \<and> gm_get (folders_at (js_volume st) p k) i = None
      \<and> gm_get (folders_at (js_volume st') p k) (i @ tmp_suffix) = Some empty_folder
      \<and> (\<exists>tj. gm_get (ix_key (js_index st')) (p, kind, i) = Some tj \<and> tj_analysis tj = analysis)))
    \<and> (\<forall>e. r = Inl e \<longrightarrow> js_queue st' = js_queue st \<and> (e = Queue_Closed \<or> (\<exists>f. e = Store_Problem f)))"
proof -
  obtain d vol where d: "new_dir (sn_faults se) folder p (sn_now se) (sn_draws se) (js_volume st) = (d, vol)" by fastforce
  show ?thesis
  proof (cases d)
    case (Inl e)
    then show ?thesis using assms d by (auto simp: reserve_and_submit_def)
  next
    case (Inr pn)
    note new = new_dir_Inr [OF d [unfolded Inr]]
    show ?thesis using assms d Inr new
      by (auto simp: reserve_and_submit_def submit_tracked_def submit_with_def track_def key_of_def Let_def split: if_splits)
  qed
qed

text \<open>C21. An export is queued only when it can be made. When \<^verbatim>\<open>QueueExport\<close> answers with an id, the project exists,
  its analysis is listed as done, with a result that resolved every version of the selection, the signature key is set
  and the archive would hold something; a new empty folder waits under that id, the job is submitted with it and found
  under it. When a check fails, that is the answer, and the queue, the indexes and the volume are as they were; any
  other error leaves the queue alone.\<close>

theorem queue_export_exact:
  assumes "queue_export se p analysis sel whole st = (r, st')"
  shows "(\<forall>i. r = Inr i \<longrightarrow>
      (\<exists>project info res. project_of (sn_sha se) (js_volume st) p = Inr project \<and> job_info_of (sn_read se) Analyses p analysis (js_volume st) = Inr info
        \<and> ji_state info = state_done \<and> sn_decode se (case ji_result info of None \<Rightarrow> [] | Some b \<Rightarrow> b) = Inr res
        \<and> (\<forall>name v. v \<in> set (selected_versions sel name) \<longrightarrow> name @ ''@'' @ v \<in> set (valid_selections res)))
      \<and> se_key (vl_settings (js_volume st)) \<noteq> '''' \<and> (whole \<or> (\<exists>(name, vs) \<in> set sel. vs \<noteq> []))
      \<and> gm_get (folders_at (js_volume st) p Exports) i = None \<and> gm_get (folders_at (js_volume st') p Exports) (i @ tmp_suffix) = Some empty_folder
      \<and> js_queue st' = snd (submit_with \<lparr>jb_kind = ''export'', jb_store = i\<rparr> (js_queue st)) \<and> \<not> jq_closed (js_queue st)
      \<and> (\<exists>tj. gm_get (ix_key (js_index st')) (p, ''export'', i) = Some tj \<and> tj_analysis tj = analysis))
    \<and> (\<forall>e. check_export se p analysis sel whole (js_volume st) = Inl e \<longrightarrow> r = Inl e \<and> st' = st)
    \<and> (\<forall>e. r = Inl e \<longrightarrow> js_queue st' = js_queue st)"
proof (cases "check_export se p analysis sel whole (js_volume st)")
  case (Inl e)
  then show ?thesis using assms by (auto simp: queue_export_def)
next
  case (Inr u)
  then obtain project info res where c: "project_of (sn_sha se) (js_volume st) p = Inr project"
      "job_info_of (sn_read se) Analyses p analysis (js_volume st) = Inr info" "ji_state info = state_done"
      "sn_decode se (case ji_result info of None \<Rightarrow> [] | Some b \<Rightarrow> b) = Inr res" "validate_selection res sel = []"
      "se_key (vl_settings (js_volume st)) \<noteq> ''''" "whole \<or> selects_any_version sel"
    by (auto simp: check_export_def Let_def split: sum.splits if_splits)
  have "whole \<or> (\<exists>(name, vs) \<in> set sel. vs \<noteq> [])" using c(7) by (auto simp: selects_any_version_def list_ex_iff)
  moreover have "reserve_and_submit se ''exports'' ''export'' p analysis st = (r, st')" using assms Inr by (simp add: queue_export_def)
  note rs = reserve_and_submit_cases [OF this]
  have kind: "kind_of_name ''exports'' = Some Exports" by (simp add: kind_of_name_def)
  have "gm_get (folders_at (js_volume st) p Exports) i = None \<and> gm_get (folders_at (js_volume st') p Exports) (i @ tmp_suffix) = Some empty_folder
      \<and> js_queue st' = snd (submit_with \<lparr>jb_kind = ''export'', jb_store = i\<rparr> (js_queue st)) \<and> \<not> jq_closed (js_queue st)
      \<and> (\<exists>tj. gm_get (ix_key (js_index st')) (p, ''export'', i) = Some tj \<and> tj_analysis tj = analysis)" if "r = Inr i" for i
    using conjunct1 [OF rs] that kind by auto
  moreover have "js_queue st' = js_queue st" if "r = Inl e" for e using conjunct2 [OF rs] that by blast
  ultimately show ?thesis using Inr c(1-6) unfolding validate_selection_Nil by simp
qed

subsection \<open>A project's live job\<close>

lemma index_ok_untrack:
  assumes ok: "index_ok ix" and tj: "tracks ix tj"
  shows "index_ok (untrack (tj_queue tj) tj ix) \<and> (\<forall>t. tracks (untrack (tj_queue tj) tj ix) t \<longleftrightarrow> t \<noteq> tj \<and> tracks ix t)"
proof -
  have tr: "tracks (untrack (tj_queue tj) tj ix) t \<longleftrightarrow> t \<noteq> tj \<and> tracks ix t" for t
    using tj by (auto simp: tracks_def untrack_def)
  have old: "gm_get (ix_key ix) k = Some t \<longleftrightarrow> key_of t = k \<and> tracks ix t" for k t using ok unfolding index_ok_def by blast
  have one: "key_of t = key_of tj \<Longrightarrow> tracks ix t \<Longrightarrow> t = tj" for t
    using old [of "key_of tj" t] old [of "key_of tj" tj] tj by simp
  have key: "gm_get (ix_key (untrack (tj_queue tj) tj ix)) k = Some t \<longleftrightarrow> key_of t = k \<and> tracks (untrack (tj_queue tj) tj ix) t" for k t
    unfolding tr using old [of k t] one [of t] by (auto simp: untrack_def)
  have project: "tj_project t = p \<and> tracks (untrack (tj_queue tj) tj ix) t" if "gm_get (ix_project (untrack (tj_queue tj) tj ix)) p = Some t" for p t
  proof -
    have "gm_get (ix_project ix) p = Some t" "p = tj_project tj \<longrightarrow> gm_get (ix_project ix) p \<noteq> Some tj"
      using that by (auto simp: untrack_def forget_project_def split: if_splits)
    moreover from this(1) have "tj_project t = p \<and> tracks ix t" using ok by (simp add: index_ok_def)
    ultimately show ?thesis unfolding tr by auto
  qed
  have queue: "tj_queue t = i" if "gm_get (ix_queue (untrack (tj_queue tj) tj ix)) i = Some t" for i t
    using that ok by (auto simp: untrack_def index_ok_def split: if_splits)
  show ?thesis unfolding index_ok_def using key project queue tr by blast
qed

text \<open>C37. The service can lose sight of a project's running job. When a project has two jobs, the index by project names
  the later one; once that one is finalized first, because it was cancelled while it waited, the project has no live
  job for \<^verbatim>\<open>LiveForProject\<close> although the earlier one is still tracked, waiting or running.\<close>

theorem live_project_lost:
  assumes "service_ok st" and "gm_get (ix_queue (js_index st)) (tj_queue a) = Some a" "gm_get (ix_queue (js_index st)) (tj_queue b) = Some b"
    and "a \<noteq> b" "tj_project a = p" "gm_get (ix_project (js_index st)) p = Some b"
    and "finalize_job ft rf (tj_queue b) state_cancelled (js_index st, js_volume st) = (r, ix, vol)"
  shows "live_for_project \<lparr>js_index = ix, js_queue = q, js_volume = vol\<rparr> p = None
    \<and> live_state \<lparr>js_index = ix, js_queue = q, js_volume = vol\<rparr> p (tj_kind a) (tj_store a) \<noteq> None"
proof -
  have ok: "index_ok (js_index st)" using assms(1) by (simp add: service_ok_def)
  have p: "tj_project b = p" using ok assms(6) unfolding index_ok_def by blast
  have ix: "ix = untrack (tj_queue b) b (js_index st)"
    using assms(3,7) by (auto simp: finalize_job_def Let_def split: prod.splits)
  have un: "index_ok ix" "tracks ix a"
    using index_ok_untrack [OF ok] assms(2-4) unfolding ix tracks_def by blast+
  have "gm_get (ix_key ix) (p, tj_kind a, tj_store a) = Some a"
    using un assms(5) unfolding index_ok_def key_of_def by blast
  moreover have "gm_get (ix_project ix) p = None" using assms(6) by (simp add: ix untrack_def forget_project_def p)
  ultimately show ?thesis by (simp add: live_for_project_def live_state_def)
qed

subsection \<open>A sample service\<close>

definition web_volume :: volume where
  "web_volume = \<lparr>vl_settings = default_settings\<lparr>se_key := ''key''\<rparr>, vl_stored = None, vl_projects = [(''web'', empty_project\<lparr>pd_record :=
     Some (Decoded \<lparr>pf_id = ''web'', pf_name = ''web'', pf_target = se_target default_settings, pf_created = 0, pf_hash = ''h''\<rparr>)\<rparr>)]\<rparr>"

definition request_at :: "nat \<Rightarrow> service_env" where
  "request_at s = \<lparr>sn_sha = (\<lambda>_. ''h''), sn_now = sample_stamp\<lparr>sm_second := s\<rparr>, sn_draws = [], sn_faults = sound_disk, sn_removal = None,
     sn_read = sound_disk, sn_decode = (\<lambda>_. Inr \<lparr>an_before = zero_vector, an_after = None, an_dependencies = [], an_warnings = []\<rparr>)\<rparr>"

definition one_waits :: job_service where
  "one_waits = snd (queue_analysis (request_at 1) ''web'' (new_service web_volume))"

definition two_wait :: job_service where
  "two_wait = snd (queue_analysis (request_at 2) ''web'' one_waits)"

definition waiting_job :: "string \<Rightarrow> string \<Rightarrow> tracked_job" where
  "waiting_job i store = \<lparr>tj_queue = i, tj_kind = ''analysis'', tj_store = store, tj_project = ''web'', tj_analysis = '''',
     tj_pending = \<lparr>pn_project = ''web'', pn_kind = Analyses, pn_id = store\<rparr>\<rparr>"

lemma two_wait_index: "ix_queue (js_index two_wait) = [(''analysis-1'', waiting_job ''analysis-1'' (format_stamp (sample_stamp\<lparr>sm_second := 1\<rparr>))),
   (''analysis-2'', waiting_job ''analysis-2'' (format_stamp (sample_stamp\<lparr>sm_second := 2\<rparr>)))]"
  by code_simp

lemma request_names: "Inr i \<in> set (dir_names (sn_now (request_at s)) (sn_draws (request_at s))) \<Longrightarrow> \<not> is_tmp i"
  by (simp add: request_at_def dir_names_def is_tmp_def has_suffix_iff tmp_suffix_def format_stamp_def)

lemma queue_analysis_steps:
  assumes run: "queue_analysis se p (sw_service w) = (r, st)" and quiet: "sw_hook w = (\<lambda>_. Not_Called)"
    and names: "\<forall>i. Inr i \<in> set (dir_names (sn_now se) (sn_draws se)) \<longrightarrow> \<not> is_tmp i"
  shows "\<exists>w'. service_step\<^sup>*\<^sup>* w w' \<and> sw_service w' = st \<and> sw_hook w' = sw_hook w \<and> sw_contested w' = sw_contested w"
proof (cases "project_of (sn_sha se) (the_volume w) p")
  case (Inl e)
  then have "st = sw_service w" using run by (simp add: queue_analysis_def)
  then show ?thesis by blast
next
  case (Inr project)
  then have "reserve_and_submit se ''analyses'' ''analysis'' p '''' (sw_service w) = (r, st)" using run by (simp add: queue_analysis_def)
  then show ?thesis by (rule reserve_and_submit_steps [OF _ _ names quiet]) (simp add: kind_of_name_def folder_kind_def)
qed

lemma two_wait_reachable:
  "\<exists>w. service_step\<^sup>*\<^sup>* (new_world web_volume) w \<and> sw_service w = two_wait \<and> sw_hook w = (\<lambda>_. Not_Called) \<and> sw_contested w = {}"
proof -
  have step: "\<exists>w'. service_step\<^sup>*\<^sup>* w w' \<and> sw_service w' = snd (queue_analysis (request_at s) p (sw_service w))
      \<and> sw_hook w' = (\<lambda>_. Not_Called) \<and> sw_contested w' = sw_contested w" if "sw_hook w = (\<lambda>_. Not_Called)" for s p w
    using queue_analysis_steps [OF surjective_pairing that, of "request_at s"] request_names that by metis
  obtain w1 where w1: "service_step\<^sup>*\<^sup>* (new_world web_volume) w1" "sw_service w1 = one_waits" "sw_hook w1 = (\<lambda>_. Not_Called)" "sw_contested w1 = {}"
    using step [of "new_world web_volume" 1 "''web''"] by (auto simp: new_world_def one_waits_def)
  obtain w2 where "service_step\<^sup>*\<^sup>* w1 w2" "sw_service w2 = two_wait" "sw_hook w2 = (\<lambda>_. Not_Called)" "sw_contested w2 = {}"
    using step [OF w1(3), of 2 "''web''"] by (auto simp: two_wait_def w1(2,4))
  then show ?thesis using w1(1) by (meson rtranclp_trans)
qed


theorem live_project_lost_witness:
  "\<exists>ix vol. live_for_project \<lparr>js_index = ix, js_queue = js_queue two_wait, js_volume = vol\<rparr> ''web'' = None
    \<and> live_state \<lparr>js_index = ix, js_queue = js_queue two_wait, js_volume = vol\<rparr> ''web'' ''analysis'' (format_stamp (sample_stamp\<lparr>sm_second := 1\<rparr>)) \<noteq> None"
proof -
  let ?a = "waiting_job ''analysis-1'' (format_stamp (sample_stamp\<lparr>sm_second := 1\<rparr>))"
  let ?b = "waiting_job ''analysis-2'' (format_stamp (sample_stamp\<lparr>sm_second := 2\<rparr>))"
  have ok: "service_ok two_wait" using two_wait_reachable world_reachable world_service_ok by metis
  have jobs: "gm_get (ix_queue (js_index two_wait)) (tj_queue ?a) = Some ?a" "gm_get (ix_queue (js_index two_wait)) (tj_queue ?b) = Some ?b"
    "?a \<noteq> ?b" "tj_project ?a = ''web''"
    by (simp_all add: two_wait_index gm_get_def waiting_job_def)
  have newest: "gm_get (ix_project (js_index two_wait)) ''web'' = Some ?b" by code_simp
  obtain r ix vol where f: "finalize_job sound_disk None (tj_queue ?b) state_cancelled (js_index two_wait, js_volume two_wait) = (r, ix, vol)"
    by (metis prod_cases3)
  show ?thesis
    using live_project_lost [OF ok jobs newest f, of "js_queue two_wait"]
    by (intro exI [of _ ix] exI [of _ vol]) (simp add: waiting_job_def)
qed

definition analysed_volume :: volume where
  "analysed_volume = web_volume\<lparr>vl_projects := [(''web'', (project_at web_volume ''web'')\<lparr>pd_analyses := [(format_stamp sample_stamp,
     empty_folder\<lparr>jf_status := Some (Decoded \<lparr>sx_state = Some state_done, sx_analysis = '''', sx_trivy = '''', sx_trivy_db = 0, sx_pnpm = '''',
       sx_steps = []\<rparr>), jf_ranking := Some (Inr ''{}'')\<rparr>)]\<rparr>)]\<rparr>"

theorem queue_export_exact_witness:
  "\<exists>st'. queue_export (request_at 7) ''web'' (format_stamp sample_stamp) [] True (new_service analysed_volume) = (Inr ''20260102T030407Z'', st')
    \<and> gm_get (folders_at (js_volume st') ''web'' Exports) (''20260102T030407Z'' @ tmp_suffix) = Some empty_folder"
proof -
  have "fst (queue_export (request_at 7) ''web'' (format_stamp sample_stamp) [] True (new_service analysed_volume)) = Inr ''20260102T030407Z''"
    by code_simp
  then obtain st' where q: "queue_export (request_at 7) ''web'' (format_stamp sample_stamp) [] True (new_service analysed_volume)
      = (Inr ''20260102T030407Z'', st')" by (metis surjective_pairing)
  show ?thesis using queue_export_exact [OF q] q by auto
qed

theorem export_end_listed_witness:
  "\<exists>r ix vol q info. run_export calm_export sample_tar_api unknown_version Map.empty = (Some (Unknown_Selection [''ms@9.0.0'']), r)
    \<and> job_info_of sound_disk Exports ''web'' ''20260102T030405Z'' vol = Inr info \<and> ji_state info = state_failed"
proof -
  have "validate_selection (xj_result unknown_version) (xj_selection unknown_version) = [''ms@9.0.0'']" by code_simp
  then have "package_list calm_export unknown_version = Inl (Unknown_Selection [''ms@9.0.0''])" by (simp add: package_list_def)
  moreover have key: "se_key (xj_settings unknown_version) \<noteq> ''''" by code_simp
  ultimately have "fst (run_export calm_export sample_tar_api unknown_version Map.empty) = Some (Unknown_Selection [''ms@9.0.0''])"
    by (simp add: run_export_def export_steps_def export_step_def list_step_def and_then_def)
  then obtain r where run: "run_export calm_export sample_tar_api unknown_version Map.empty = (Some (Unknown_Selection [''ms@9.0.0'']), r)"
    by (metis surjective_pairing)
  let ?f = "export_folder (\<lambda>_. None) unknown_version r"
  let ?tj = "\<lparr>tj_queue = ''export-1'', tj_kind = ''export'', tj_store = ''20260102T030405Z'', tj_project = ''web'', tj_analysis = '''',
     tj_pending = \<lparr>pn_project = ''web'', pn_kind = Exports, pn_id = ''20260102T030405Z''\<rparr>\<rparr>"
  let ?ix = "track ?tj new_index" and ?vol = "put_folders ''web'' Exports [(''20260102T030405Z'' @ tmp_suffix, ?f)] web_volume"
  have status: "jf_status ?f \<noteq> None" using run_status [OF run] by (simp add: export_folder_def)
  obtain q ix vol where f: "finalize_job sound_disk None ''export-1'' state_failed (?ix, ?vol) = (q, ix, vol)" by (metis prod_cases3)
  have ids: "valid_dir_id ''web''" "valid_dir_id ''20260102T030405Z''" by code_simp+
  have t: "parse_stamp ''20260102T030405Z'' = Some sample_stamp" by code_simp
  let ?pn = "\<lparr>pn_project = ''web'', pn_kind = Exports, pn_id = ''20260102T030405Z''\<rparr>"
  have at: "gm_get (ix_queue ?ix) ''export-1'' = Some ?tj" by (simp add: track_def new_index_def)
  have tmp: "gm_get (pending_folders ?pn ?vol) (pn_id ?pn @ tmp_suffix) = Some ?f" "gm_get (pending_folders ?pn ?vol) (pn_id ?pn) = None"
    by (simp_all add: pending_folders_def gm_get_def tmp_suffix_def)
  have full: "folder_entries ?f \<noteq> []" using status unfolding folder_entries_def by auto
  have "\<exists>info. job_info_of sound_disk Exports ''web'' ''20260102T030405Z'' vol = Inr info \<and> ji_state info = state_failed"
  proof -
    have p: "tj_kind ?tj = ''export''" "?pn = tj_pending ?tj" "pn_kind ?pn = Exports" "valid_dir_id (pn_project ?pn)"
        "valid_dir_id (pn_id ?pn)" "parse_stamp (pn_id ?pn) = Some sample_stamp"
      by (simp_all add: ids t)
    obtain info where "job_info_of sound_disk Exports (pn_project ?pn) (pn_id ?pn) vol = Inr info"
        "if Some (Unknown_Selection [''ms@9.0.0'']) = None \<or> xe_fault calm_export ''write status'' (path_join [xj_dir unknown_version, ''status.json'']) \<noteq> None
         then ji_state info = state_done \<and> ji_failure info = None else ji_state info = state_failed \<and> ji_failure info = first_failure (rows_of r)
           \<and> (\<forall>step why. ji_failure info = Some (step, why) \<longrightarrow> step \<in> set export_step_names
               \<and> Some why = map_option export_error_text (Some (Unknown_Selection [''ms@9.0.0''])))"
      using export_end_listed [OF run at p tmp full f] by blast
    then show ?thesis by auto
  qed
  then show ?thesis using run by blast
qed

text \<open>An analysis whose run could not write its last status, and whose status the finalizer could not correct either.\<close>

definition full_disk :: analysis_env where
  "full_disk = Jobs_Analysis.sample_env\<lparr>ae_write := (\<lambda>p. if p = ''status.json'' then Some ''no space left on device'' else None)\<rparr>"

theorem interrupted_analysis_kept_witness:
  "\<exists>vol f s. gm_get (folders_at (start_up (\<lambda>p k i. None) (\<lambda>p k i. None) vol) ''web'' Analyses) ''20260102T030405Z'' = Some f
    \<and> jf_status f = Some (Decoded s) \<and> sx_state s = Some state_interrupted"
proof -
  let ?e = "run_analysis semver_spec full_disk Jobs_Analysis.sample_job" and ?enc = "\<lambda>_. []"
  let ?F = "folder_of ?enc (ru_writes (nd_run ?e))" and ?ft = "sound_disk\<lparr>vf_write := Some ''no space left on device''\<rparr>"
  let ?pn = "\<lparr>pn_project = ''web'', pn_kind = Analyses, pn_id = ''20260102T030405Z''\<rparr>"
  let ?tj = "\<lparr>tj_queue = ''analysis-1'', tj_kind = ''analysis'', tj_store = ''20260102T030405Z'', tj_project = ''web'', tj_analysis = '''',
     tj_pending = ?pn\<rparr>"
  let ?ix = "track ?tj new_index" and ?vol = "put_folders ''web'' Analyses [(''20260102T030405Z'' @ tmp_suffix, ?F)] web_volume"
  have env: "ae_open_log full_disk = None" "ae_first full_disk = None" "ae_write full_disk ''status.json'' \<noteq> None"
    by (simp_all add: full_disk_def)
  have committed: "\<not> nd_committed ?e" using run_folder_status(2) [OF env(1,2,3)] by blast
  have entries: "folder_entries ?F \<noteq> []" using run_folder_status(2) [OF env(1,2,3), of semver_spec Jobs_Analysis.sample_job ?enc] by (auto simp: folder_entries_def)
  have "folders_at web_volume p k = []" for p k by (cases k) (simp_all add: folders_at_def project_at_def web_volume_def gm_get_def empty_project_def)
  then have "volume_ok web_volume" by (simp add: volume_ok_def gm_ok_def) (simp add: web_volume_def)
  then have vol: "volume_ok ?vol" by (rule volume_ok_put) (simp add: gm_ok_def)
  have at: "folders_at ?vol ''web'' Analyses = [(''20260102T030405Z'' @ tmp_suffix, ?F)]" by simp
  have "fst (finalize_pending ?ft None ?pn ?vol) = Inr ()"
    using entries by (simp add: finalize_pending_def commit_def Let_def pending_folders_def at sound_disk_def gm_get_def tmp_suffix_def)
  then obtain vol1 where one: "finalize_pending ?ft None ?pn ?vol = (Inr (), vol1)" by (metis prod.collapse)
  obtain r' ix' vol' where two: "finalize_job ?ft None ''analysis-1'' state_failed (?ix, ?vol) = (r', ix', vol')" by (metis prod_cases3)
  have job: "gm_get (ix_queue ?ix) ''analysis-1'' = Some ?tj" "tj_kind ?tj = ''analysis''" "?pn = tj_pending ?tj" "pn_kind ?pn = Analyses"
      "\<not> is_tmp (pn_id ?pn)" "state_failed \<in> {state_done, state_failed, state_cancelled}"
    by (simp_all add: track_def new_index_def is_tmp_def has_suffix_iff tmp_suffix_def)
  have placed: "gm_get (folders_at ?vol (pn_project ?pn) Analyses) (pn_id ?pn) = (if nd_committed ?e then Some ?F else None)"
      "gm_get (folders_at ?vol (pn_project ?pn) Analyses) (pn_id ?pn @ tmp_suffix) = (if nd_committed ?e then None else Some ?F)"
    using committed by (simp_all add: at gm_get_def tmp_suffix_def)
  note kept = conjunct2 [OF interrupted_analysis_kept [OF env(1,2) refl job, where enc = ?enc and fw = "\<lambda>p k i. None" and rf = "\<lambda>p k i. None"],
      rule_format, OF vol placed one two]
  have "\<exists>f s. gm_get (folders_at (start_up (\<lambda>p k i. None) (\<lambda>p k i. None) vol') (pn_project ?pn) Analyses) (pn_id ?pn) = Some f
      \<and> jf_status f = Some (Decoded s) \<and> sx_state s = Some state_interrupted"
    by (rule iffD2 [OF conjunct2 [OF kept]]) (use env(3) in \<open>simp add: sound_disk_def\<close>)
  moreover have "pn_project ?pn = ''web''" "pn_id ?pn = ''20260102T030405Z''" by simp_all
  ultimately show ?thesis by metis
qed

end
