(* ===== verification/Export_Import.thy ===== *)
theory Export_Import
  imports Jobs_Export
begin

text \<open>
  The two ends of the air gap: the manifest and the archive that a successful export leaves
  (\<^verbatim>\<open>internal/jobs/export.go\<close>) pass the checks of the importer (\<^verbatim>\<open>internal/archive\<close>).
\<close>

subsection \<open>Digests as text\<close>

lemma hex_values: "map (\<lambda>n. hex_value (hex_digit n)) [0..<16] = map Some [0..<16]" "list_all (\<lambda>n. is_hex (hex_digit n)) [0..<16]"
proof -
  have "[0..<16] = [0, 1, 2, 3, 4, 5, 6, 7, 8, 9, 10, 11, 12, 13, 14, 15]" by code_simp
  then show "map (\<lambda>n. hex_value (hex_digit n)) [0..<16] = map Some [0..<16]" "list_all (\<lambda>n. is_hex (hex_digit n)) [0..<16]"
    by (simp_all add: hex_digit_def digit_char_def hex_value_def is_digit_def is_hex_def char_of_def bit_iff_odd)
qed

lemma hex_digit_value: "n < 16 \<Longrightarrow> hex_value (hex_digit n) = Some n" "n < 16 \<Longrightarrow> is_hex (hex_digit n)"
proof -
  assume n: "n < 16"
  have "map (\<lambda>n. hex_value (hex_digit n)) [0..<16] ! n = map Some [0..<16] ! n" by (simp only: hex_values(1))
  then show "hex_value (hex_digit n) = Some n" using n by simp
  show "is_hex (hex_digit n)" using hex_values(2) n by (simp add: list_all_iff)
qed

lemma hex_decode_encode: "hex_decode (hex_encode b) = Some b"
  by (induction b) (simp_all add: hex_encode_Cons hex_digit_value nibbles, simp add: hex_encode_def)

lemma hex_encode_text: "length (hex_encode b) = 2 * length b" "list_all is_hex (hex_encode b)"
  by (induction b) (simp_all add: hex_encode_Cons hex_digit_value nibbles, simp_all add: hex_encode_def)

subsection \<open>The names of the shipped files\<close>

text \<open>What the importer asks of a package's name, version and integrity; the lockfiles owe it.\<close>

definition importable :: "lock_package \<Rightarrow> bool" where
  "importable p \<longleftrightarrow> valid_name (lp_name p) \<and> is_exact_version (lp_version p) \<and> length (lp_version p) \<le> max_version_bytes
     \<and> rx_match package_file (pack_name p) \<and> length (pack_name p) \<le> max_file_name_bytes \<and> length (lp_integrity p) \<le> max_integrity_bytes"

lemma package_file_plain: "rx_match package_file f \<Longrightarrow> plain_file f \<and> plain_seg f"
proof -
  assume "rx_match package_file f"
  then obtain h b where f: "f = h # b @ ''.tgz''" "file_head h" "list_all file_char b" by (auto simp: package_file_iff)
  have ends: "drop (length f - 4) f = ''.tgz''" by (simp add: f(1))
  have "CHR ''/'' \<notin> set f"
    using f by (auto simp: list_all_iff file_char_def file_head_def is_alnum_def is_digit_def is_lower_def is_upper_def)
  moreover have "f \<noteq> key_entry" "f \<noteq> ''''" "f \<noteq> ''.''" "f \<noteq> ''..''" using ends by (auto simp: key_entry_def)
  ultimately show ?thesis by (simp add: plain_file_def plain_seg_def)
qed

lemma importable_version: "importable p \<Longrightarrow> CHR ''/'' \<notin> set (lp_version p)"
  using exact_version_file_chars [of "lp_version p"]
  by (auto simp: importable_def list_all_iff file_char_def is_alnum_def is_digit_def is_lower_def is_upper_def)

lemma importable_no_at: "importable p \<Longrightarrow> CHR ''@'' \<notin> set (lp_version p)"
  using exact_version_file_chars [of "lp_version p"]
  by (auto simp: importable_def list_all_iff file_char_def is_alnum_def is_digit_def is_lower_def is_upper_def)

subsection \<open>What was shipped\<close>

definition sha512_tells :: "export_env \<Rightarrow> bool" where
  "sha512_tells env \<longleftrightarrow> (\<forall>alg a b. xe_hash env Sha512 a = xe_hash env Sha512 b \<longrightarrow> xe_hash env alg a = xe_hash env alg b)"

lemma strip_each_names: "strip_each env ta j i ds r = (Inr ss, r') \<Longrightarrow>
    map sh_pkg ss = map dd_pkg ds \<and> map sh_file ss = map (\<lambda>d. pack_name (dd_pkg d)) ds"
proof (induction ds arbitrary: i r ss)
  case (Cons d ds)
  then obtain s ss' r1 where s: "strip_one env ta j i d r = (Inr s, r1)" "strip_each env ta j (i + 1) ds r1 = (Inr ss', r')" "ss = s # ss'"
    by (auto simp: and_then_Inr)
  then show ?case using Cons.IH [OF s(2)] strip_one_Inr [OF s(1)] by (simp add: shipped_from_def)
qed simp

lemma cache_not_stripped:
  assumes "clean_dir (xj_root j)" "clean_dir (xj_dir j)" "plain_seg f"
  shows "cache_path j (hex_encode b) \<noteq> stripped_path j f"
proof -
  have no: "CHR ''/'' \<notin> set (hex_encode b @ ''.tgz'')" "CHR ''/'' \<notin> set f" using hex_encode_plain [of b] assms(3) by (auto simp: plain_seg_def)
  have "xj_root j @ ''/cache/'' @ ''tarballs'' \<noteq> xj_dir j @ ''/'' @ ''stripped''"
    using last_segs [of "''tarballs''" "''stripped''" "xj_root j @ ''/cache''" "xj_dir j"] by simp
  then have "(xj_root j @ ''/cache/tarballs'') @ ''/'' @ hex_encode b @ ''.tgz'' \<noteq> (xj_dir j @ ''/stripped'') @ ''/'' @ f"
    unfolding last_segs [OF no] by simp
  then show ?thesis unfolding cache_path_at [OF assms(1)] stripped_path_at [OF assms(2,3)] by simp
qed

lemma shipped_good:
  assumes stripping: "strip_each env ta j 0 ds r1 = (Inr ss, r2)"
    and verified: "list_all2 (verified_download env j (xr_files r1)) pkgs ds"
    and files: "distinct (map sh_file ss)" and good: "\<forall>p \<in> set pkgs. importable p"
    and dirs: "clean_dir (xj_root j)" "clean_dir (xj_dir j)" and hash: "sha512_tells env" "ve_hash ve = xe_hash env"
  shows "map sh_pkg ss = pkgs \<and> map sh_file ss = map pack_name pkgs
    \<and> (\<forall>s \<in> set ss. \<exists>b. xr_files r2 (sh_path s) = Some b \<and> sh_size s = int (length b) \<and> length (sh_sha512 s) = 2 * length (xe_hash env Sha512 b)
        \<and> list_all is_hex (sh_sha512 s) \<and> good_copy ve (package_record s) b \<and> \<not> isl (parse_integrity (lp_integrity (sh_pkg s))))"
proof -
  have pkg: "map dd_pkg ds = pkgs"
    using verified by (induction rule: list_all2_induct) (simp_all add: verified_download_def)
  have names: "map sh_pkg ss = pkgs" "map sh_file ss = map pack_name pkgs"
    using strip_each_names [OF stripping] unfolding pkg [symmetric] by (simp_all add: comp_def)
  have plain: "plain_seg f" if "f \<in> pack_name ` set pkgs" for f
    using that good package_file_plain by (auto simp: importable_def)
  have inj: "distinct (map (stripped_path j) (map sh_file ss))"
    unfolding distinct_map [of "stripped_path j"]
  proof (rule conjI [OF files], rule inj_onI)
    fix f g assume "f \<in> set (map sh_file ss)" "g \<in> set (map sh_file ss)" "stripped_path j f = stripped_path j g"
    then show "f = g" using stripped_path_at [OF dirs(2) plain] unfolding names(2) by simp
  qed
  have path: "\<exists>b. dd_path d = cache_path j (hex_encode b)" if "d \<in> set ds" for d
    using list_all2_in2 [OF verified that] by (auto simp: verified_download_def)
  have apart: "dd_path d \<noteq> stripped_path j f" if "d \<in> set ds" "f \<in> pack_name ` dd_pkg ` set ds" for d f
  proof -
    have "f \<in> pack_name ` set pkgs" using that(2) unfolding pkg [symmetric] by simp
    from cache_not_stripped [OF dirs plain [OF this]] show ?thesis using path [OF that(1)] by metis
  qed
  have shipped: "list_all2 (shipped_from env (xr_files r2)) ds ss" by (rule strip_each_Inr [OF stripping inj apart])
  have "\<exists>b. xr_files r2 (sh_path s) = Some b \<and> sh_size s = int (length b) \<and> length (sh_sha512 s) = 2 * length (xe_hash env Sha512 b)
        \<and> list_all is_hex (sh_sha512 s) \<and> good_copy ve (package_record s) b \<and> \<not> isl (parse_integrity (lp_integrity (sh_pkg s)))"
    if s: "s \<in> set ss" for s
  proof -
    obtain d where d: "d \<in> set ds" "shipped_from env (xr_files r2) d s" using list_all2_in2 [OF shipped s] by blast
    then obtain b where b: "xr_files r2 (sh_path s) = Some b" "sh_size s = int (length b)" "sh_pkg s = dd_pkg d"
      "if sh_stripped s then sh_sha512 s = hex_encode (xe_hash env Sha512 b) else sh_path s = dd_path d \<and> sh_sha512 s = dd_sha512 d"
      unfolding shipped_from_def by blast
    obtain c body alg want where c: "xr_files r1 (dd_path d) = Some c" "dd_sha512 d = hex_encode (xe_hash env Sha512 c)"
      "parse_integrity (lp_integrity (dd_pkg d)) = Inr (alg, want)" "xe_hash env alg body = want" "xe_hash env Sha512 body = xe_hash env Sha512 c"
      using list_all2_in2 [OF verified d(1)] unfolding verified_download_def by blast
    have same: "b = c" if "\<not> sh_stripped s"
    proof -
      have "xr_files r2 (dd_path d) = xr_files r1 (dd_path d)"
      proof (rule strip_each_files [OF stripping])
        show "dd_path d \<notin> stripped_path j ` sh_file ` set ss"
        proof
          assume "dd_path d \<in> stripped_path j ` sh_file ` set ss"
          then obtain f where f: "dd_path d = stripped_path j f" "f \<in> set (map sh_file ss)" by auto
          have "f \<in> pack_name ` dd_pkg ` set ds" using f(2) unfolding names(2) pkg [symmetric] by (simp add: image_image)
          from apart [OF d(1) this] show False using f(1) by blast
        qed
      qed
      then show ?thesis using b(1,4) c(1) that by simp
    qed
    have "sh_sha512 s = hex_encode (xe_hash env Sha512 b)" using b(4) c(2) same by (auto split: if_splits)
    moreover have "\<exists>alg d'. parse_integrity (lp_integrity (sh_pkg s)) = Inr (alg, d') \<and> xe_hash env alg b = d'" if "\<not> sh_stripped s"
      using c(3-5) hash(1) same [OF that] unfolding sha512_tells_def b(3) by metis
    ultimately show ?thesis
      using b(1,2) c(3) unfolding b(3) by (auto simp: good_copy_def package_record_def hex_decode_encode hex_encode_text hash(2) b(3))
  qed
  then show ?thesis using names by blast
qed

subsection \<open>An export imports\<close>

text \<open>The texts of the manifest.\<close>

definition presentable_job :: "text_api \<Rightarrow> export_env \<Rightarrow> export_job \<Rightarrow> bool" where
  "presentable_job tx env j \<longleftrightarrow> (let t = xj_target j;
       texts = [xe_tool env, xj_analysis j, xe_now env, pt_os t, pt_cpu t, pt_node t, pt_pnpm t] in
     '''' \<notin> set texts \<and> (\<forall>s \<in> set (pt_libc t # texts). length s \<le> max_text_bytes \<and> tx_printable tx s)
     \<and> tx_rfc3339 tx (xe_now env))"

definition fits_limits :: "limits \<Rightarrow> bytes \<Rightarrow> tar_entry list \<Rightarrow> bool" where
  "fits_limits l key hs \<longleftrightarrow> int (length hs) \<le> lm_entries l \<and> (\<forall>h \<in> set hs. int (length (te_name h)) \<le> lm_name_bytes l)
     \<and> sum_list (map te_size hs) \<le> lm_unpacked l \<and> lm_unpacked l \<le> max_int64 \<and> length key \<le> max_key_size"

lemma written_limits:
  assumes "write_tar_gz wx ''out'' (map (package_entry content) ps @ [signature_entry key]) = Inr hs" "fits_limits l key hs"
  shows "within_limits l key ps content"
proof -
  let ?es = "map (package_entry content) ps @ [signature_entry key]"
  have hs: "hs = root_entry ''out'' # map (entry_of ''out'') (sort_func cmp_entry ?es)"
    using write_tar_gz_Inr [OF assms(1)] by blast
  have entries: "te_name (entry_of ''out'' e) = out_root @ we_name e" "te_size (entry_of ''out'' e) = we_size e" for e
    by (simp_all add: entry_of_def file_entry_def out_root_def)
  have "int (length (out_root @ f)) \<le> lm_name_bytes l" if "f \<in> set (key_entry # map pk_file ps)" for f
  proof -
    have "\<exists>e \<in> set ?es. we_name e = f" using that by (auto simp: package_entry_def signature_entry_def)
    then obtain e where "e \<in> set ?es" "we_name e = f" by blast
    then have "\<exists>h \<in> set hs. te_name h = out_root @ f"
      unfolding hs by (intro bexI [of _ "entry_of ''out'' e"]) (auto simp: entries)
    then show ?thesis using assms(2) by (auto simp: fits_limits_def)
  qed
  moreover have "sum_list (map te_size hs) = int (length key) + sum_list (map (\<lambda>p. int (length (content p))) ps)"
  proof -
    have "sum_list (map te_size hs) = sum_list (map we_size (sort_func cmp_entry ?es))" by (simp add: hs entries comp_def root_entry_def)
    also have "\<dots> = sum_list (map we_size ?es)" by (metis mset_map mset_sort_func sum_mset_sum_list)
    finally show ?thesis by (simp add: package_entry_def signature_entry_def comp_def)
  qed
  moreover have "length hs = length ps + 2" by (simp add: hs)
  ultimately show ?thesis using assms(2) by (simp add: within_limits_def fits_limits_def)
qed

lemma exported_entries:
  assumes written: "write_tar_gz wx ''out'' (map (archive_entry env fs) ss @ [key_file_entry env key]) = Inr hs"
    and good: "\<forall>s \<in> set ss. \<exists>b. fs (sh_path s) = Some b \<and> sh_size s = int (length b)"
  shows "\<exists>content. (\<forall>s \<in> set ss. fs (sh_path s) = Some (content (package_record s)))
    \<and> write_tar_gz wx ''out'' (map (package_entry content) (map package_record ss) @ [signature_entry key]) = Inr hs"
proof -
  note w = write_tar_gz_Inr [OF written]
  have distinct: "distinct (map sh_file ss)" using w by (simp add: archive_entry_def comp_def)
  define content where "content p = (case find (\<lambda>s. package_record s = p) ss of None \<Rightarrow> [] | Some s \<Rightarrow> the (fs (sh_path s)))" for p
  have content: "fs (sh_path s) = Some (content (package_record s))" if s: "s \<in> set ss" for s
  proof -
    obtain t where t: "find (\<lambda>t. package_record t = package_record s) ss = Some t"
      using s by (cases "find (\<lambda>t. package_record t = package_record s) ss") (auto simp: find_None_iff)
    then have "t \<in> set ss" "package_record t = package_record s" by (auto simp: find_Some_iff)
    then have "sh_file t = sh_file s" "t \<in> set ss" by (simp_all add: package_record_def)
    then have "t = s" using distinct s by (auto simp: distinct_map inj_on_def)
    then show ?thesis using good s t by (force simp: content_def)
  qed
  have "map (archive_entry env fs) ss = map (package_entry content) (map package_record ss)"
  proof (rule trans [OF _ map_map [symmetric]], rule map_cong [OF refl])
    fix s assume s: "s \<in> set ss"
    then have "full_body (archive_entry env fs s)" using w by simp
    then obtain body where b: "we_open (archive_entry env fs s) = Inr body" by (auto simp: full_body_def)
    then have "fs (sh_path s) = Some body" by (auto simp: archive_entry_def export_ok split: option.splits)
    moreover have "sh_size s = int (length body)" using good s calculation by auto
    ultimately show "archive_entry env fs s = (package_entry content \<circ> package_record) s"
      using b content [OF s] by (simp add: archive_entry_def package_entry_def package_record_def)
  qed
  moreover have "key_file_entry env key = signature_entry key"
  proof -
    have "full_body (key_file_entry env key)" using w by simp
    then show ?thesis by (auto simp: full_body_def key_file_entry_def signature_entry_def key_entry_def split: option.splits)
  qed
  ultimately have "write_tar_gz wx ''out'' (map (package_entry content) (map package_record ss) @ [signature_entry key]) = Inr hs"
    using written by (simp only:)
  then show ?thesis using content by blast
qed

lemma exported_manifest:
  assumes ss: "map sh_pkg ss = pkgs" "map sh_file ss = map pack_name pkgs" "distinct (map sh_file ss)" "distinct (map lp_key pkgs)"
    and good: "\<forall>s \<in> set ss. length (sh_sha512 s) = 128 \<and> list_all is_hex (sh_sha512 s) \<and> \<not> isl (parse_integrity (lp_integrity (sh_pkg s)))"
    and pkgs: "pkgs \<noteq> []" "\<forall>p \<in> set pkgs. importable p" "presentable_job tx env j"
    and arch: "length (ac_sha256 arch) = 64" "list_all is_hex (ac_sha256 arch)" "0 < ac_size arch"
  shows "check_manifest tx (raw_document_of (export_manifest_of env j ss arch)) = Inr (export_manifest_of env j ss arch)"
proof -
  have own: "sh_file s = pack_name (sh_pkg s)" "importable (sh_pkg s)" if "s \<in> set ss" for s
  proof -
    show "sh_file s = pack_name (sh_pkg s)" using ss(1,2) that by auto
    show "importable (sh_pkg s)" using ss(1) pkgs(2) that by auto
  qed
  have wf: "wf_package (package_record s)" if "s \<in> set ss" for s
    using own [OF that] good that by (simp add: wf_package_def package_record_def importable_def)
  have keys: "map (package_id \<circ> package_record) ss = map lp_key pkgs"
    by (simp add: package_id_def package_record_def lp_key_def flip: ss(1))
  have files: "map (pk_file \<circ> package_record) ss = map sh_file ss"
    by (simp add: package_record_def)
  have nonempty: "ss \<noteq> []" using ss(1) pkgs(1) by auto
  have "wf_manifest tx (export_manifest_of env j ss arch)"
    using pkgs(3) wf nonempty ss(3,4) arch unfolding wf_manifest_def export_manifest_of_def presentable_job_def Let_def
    by (simp add: target_record_def keys files) auto
  then show ?thesis by (simp add: check_manifest_Inr)
qed

lemma raw_document_inj: "raw_document_of m = raw_document_of m' \<Longrightarrow> m = m'"
proof -
  have "inj raw_package_of" by (rule injI) (auto simp: raw_package_of_def intro: package.equality)
  then show "raw_document_of m = raw_document_of m' \<Longrightarrow> m = m'"
    by (cases m; cases m'; cases "am_target m"; cases "am_target m'") (simp add: raw_document_of_def inj_map_eq_map)
qed

subsection \<open>Whose results they are\<close>

text \<open>Whatever the packages are called, a result is that of its own package.\<close>

definition pool_own :: "lock_package list \<Rightarrow> dl_pool \<Rightarrow> bool" where
  "pool_own pkgs p \<longleftrightarrow> length (dp_phases p) = length pkgs \<and> (\<forall>k < length pkgs. \<forall>ph. dp_phases p ! k = Some ph \<longrightarrow>
     (\<forall>d. result_of ph = Some d \<longrightarrow> dd_pkg d = pkgs ! k) \<and> (\<forall>e. ph = Dl_Failed e \<longrightarrow> dp_err p \<noteq> None))"

lemma pool_own_update:
  assumes "pool_own pkgs p" "dp_phases q = (dp_phases p)[i := Some ph]" "dp_err p \<noteq> None \<longrightarrow> dp_err q \<noteq> None"
    and "\<And>d. i < length pkgs \<Longrightarrow> result_of ph = Some d \<Longrightarrow> dd_pkg d = pkgs ! i" "\<And>e. ph = Dl_Failed e \<Longrightarrow> dp_err q \<noteq> None"
  shows "pool_own pkgs q"
  unfolding pool_own_def
proof (intro conjI allI impI)
  show "length (dp_phases q) = length pkgs" using assms(1,2) by (simp add: pool_own_def)
  fix k ph' assume k: "k < length pkgs" "dp_phases q ! k = Some ph'"
  have len: "length (dp_phases p) = length pkgs" using assms(1) by (simp add: pool_own_def)
  show "dd_pkg d = pkgs ! k" if d: "result_of ph' = Some d" for d
  proof (cases "k = i")
    case True
    then have "ph' = ph" using k len assms(2) by simp
    then show ?thesis using assms(4) [of d] d k(1) True by blast
  next
    case False
    then have "dp_phases p ! k = Some ph'" using k(2) assms(2) by simp
    then show ?thesis using assms(1) k(1) d unfolding pool_own_def by blast
  qed
  show "dp_err q \<noteq> None" if e: "ph' = Dl_Failed e" for e
  proof (cases "k = i")
    case True
    then have "ph' = ph" using k len assms(2) by simp
    then show ?thesis using assms(5) [of e] e by blast
  next
    case False
    then have "dp_phases p ! k = Some ph'" using k(2) assms(2) by simp
    then have "dp_err p \<noteq> None" using assms(1) k(1) e unfolding pool_own_def by blast
    then show ?thesis using assms(3) by blast
  qed
qed

lemma download_step_own:
  assumes "download_step env j p ph fs = (ph', fs')" "result_of ph = None" "result_of ph' = Some d"
  shows "dd_pkg d = p"
  using assms by (cases ph) (auto simp: look_in_cache_def drop_entry_def store_tarball_def Let_def split: option.splits if_splits prod.splits sum.splits)

lemma pool_own_step:
  assumes own: "pool_own pkgs p"
  shows "pool_own pkgs (pool_step env j pkgs i p)"
proof (cases "i < length pkgs \<and> dp_phases p ! i \<noteq> None")
  case False
  have "pool_own pkgs (set_phase i Dl_Cache p)" by (rule pool_own_update [OF own, where ph = Dl_Cache]) (simp_all add: set_phase_def)
  then show ?thesis using False own by (auto simp: pool_step_def)
next
  case True
  then obtain ph where i: "i < length pkgs" and ph: "dp_phases p ! i = Some ph" by blast
  have old: "result_of ph = Some d \<Longrightarrow> dd_pkg d = pkgs ! i" for d using own i ph by (auto simp: pool_own_def)
  have move: "pool_own pkgs q" if "dp_phases q = (dp_phases p)[i := Some x]" "dp_err q = dp_err p" "result_of ph = Some d" "result_of x = Some d" for q x d
    by (rule pool_own_update [OF own that(1)]) (use that(2-4) old in auto)
  have work: "pool_own pkgs (case download_step env j (pkgs ! i) ph (dp_files p) of (ph', fs) \<Rightarrow> note_failure ph' (set_phase i ph' (p\<lparr>dp_files := fs\<rparr>)))"
    if none: "result_of ph = None"
  proof -
    obtain ph' fs where s: "download_step env j (pkgs ! i) ph (dp_files p) = (ph', fs)" by fastforce
    have "pool_own pkgs (note_failure ph' (set_phase i ph' (p\<lparr>dp_files := fs\<rparr>)))"
      by (rule pool_own_update [OF own, where ph = ph' and i = i])
        (use download_step_own [OF s none] in \<open>auto simp: note_failure_def set_phase_def split: dl_phase.split\<close>)
    then show ?thesis by (simp add: s)
  qed
  have "pool_own pkgs (worker_step env j pkgs i ph p)"
  proof (cases ph)
    case (Dl_Hits d hit)
    then show ?thesis by (intro move [of _ "Dl_Count d" d]) (simp_all add: set_phase_def)
  next
    case (Dl_Count d)
    then show ?thesis by (intro move [of _ "Dl_Load d (dp_done p + 1)" d]) (simp_all add: set_phase_def)
  next
    case (Dl_Load d k)
    then show ?thesis by (intro move [of _ "Dl_Tell d k (dp_hits p)" d]) (simp_all add: set_phase_def)
  next
    case (Dl_Tell d k h)
    then show ?thesis by (intro move [of _ "Dl_Ended d" d]) (simp_all add: set_phase_def)
  qed (use work own in simp_all)
  then show ?thesis using i ph by (simp add: pool_step_def)
qed

lemma run_pool_packages:
  assumes "dp_err (run_pool env j pkgs fs) = None"
  shows "map dd_pkg (results_of (run_pool env j pkgs fs)) = pkgs"
proof -
  let ?p = "run_pool env j pkgs fs"
  have "pool_own pkgs (fold (pool_step env j pkgs) sched p)" if "pool_own pkgs p" for sched p
    using that by (induction sched arbitrary: p) (auto intro: pool_own_step)
  moreover have "pool_own pkgs (new_pool pkgs fs)" by (simp add: pool_own_def new_pool_def)
  ultimately have own: "pool_own pkgs ?p" unfolding run_pool_def by blast
  have ends: "length (dp_phases ?p) = length pkgs" "\<And>k. k < length pkgs \<Longrightarrow> at_end (dp_phases ?p ! k)"
    using pool_ends [of env j pkgs "xe_schedule env" fs] unfolding run_pool_def by blast+
  have "dd_pkg (results_of ?p ! k) = pkgs ! k" if k: "k < length pkgs" for k
  proof -
    from ends(2) [OF k] obtain ph where ph: "dp_phases ?p ! k = Some ph" "(\<exists>d. ph = Dl_Ended d) \<or> (\<exists>e. ph = Dl_Failed e)"
      by (cases "dp_phases ?p ! k" rule: at_end.cases) auto
    then obtain d where "ph = Dl_Ended d" "dd_pkg d = pkgs ! k" using own k assms by (fastforce simp: pool_own_def)
    then show ?thesis using ph(1) ends(1) k by (simp add: results_of_def)
  qed
  then show ?thesis using ends(1) by (intro nth_equalityI) (simp_all add: results_of_def)
qed

text \<open>A manifest the importer takes is one of importable packages and presentable texts.\<close>

lemma accepted_conditions:
  assumes "check_manifest tx (raw_document_of (export_manifest_of env j ss arch)) = Inr m'" "map sh_file ss = map (\<lambda>s. pack_name (sh_pkg s)) ss"
  shows "m' = export_manifest_of env j ss arch \<and> ss \<noteq> [] \<and> (\<forall>s \<in> set ss. importable (sh_pkg s)) \<and> presentable_job tx env j"
proof -
  let ?m = "export_manifest_of env j ss arch"
  have ok: "raw_document_of ?m = raw_document_of m'" "wf_manifest tx m'" using assms(1) by (simp_all add: check_manifest_Inr)
  then have m: "m' = ?m" and wf: "wf_manifest tx ?m" using raw_document_inj by metis+
  have "importable (sh_pkg s)" if s: "s \<in> set ss" for s
  proof -
    have "wf_package (package_record s)" using wf s by (auto simp: wf_manifest_def export_manifest_of_def)
    moreover have "sh_file s = pack_name (sh_pkg s)" using assms(2) s by simp
    ultimately show ?thesis by (simp add: wf_package_def package_record_def importable_def)
  qed
  moreover have "presentable_job tx env j"
    using wf by (auto simp: wf_manifest_def export_manifest_of_def presentable_job_def Let_def target_record_def)
  moreover have "ss \<noteq> []" using wf by (auto simp: wf_manifest_def export_manifest_of_def)
  ultimately show ?thesis using m by blast
qed

text \<open>C2. What an export ships, the importer takes, if it is fit to be imported. After a run that returned no error,
  manifest.json lists exactly the packages of the selection, in order, and the importer's checks of it succeed, with just
  that manifest, exactly when the selection is not empty, the tool, time, analysis and target are texts it takes, and
  each package has a valid name, an exact version, and a file name and an integrity of the shape and length it takes
  (the file names npm pack gives to valid names such as ~a and -a have not, and such an export is refused).
  Then the archive beside it is written from entries such that verification against this manifest succeeds,
  on an empty folder and a disk without faults, whenever the reader gives these entries back, they fit the limits, and
  the key is the one of the settings. Stripped tarballs are listed with the digest of what ships, the others with bytes
  that pass the integrity of the lockfile, also when they came from the cache.\<close>

theorem export_importable:
  assumes "run_export env ta j fs = (None, r)" and "package_list env j = Inr pkgs" "clean_dir (xj_root j)" "clean_dir (xj_dir j)"
    and "digests_of_64 env" "\<forall>b. length (xe_sha256 env b) = 32" "sha512_tells env" "\<forall>hs. xe_archive_bytes env hs \<noteq> []"
    and "ve_hash ve = xe_hash env" "ve_sha256 ve = xe_sha256 env" "calm_disk ve"
  shows "\<exists>m hs. gm_get (xr_docs r) ''manifest.json'' = Some (Manifest_Json m) \<and> xr_files r (archive_path j) = Some (xe_archive_bytes env hs)
    \<and> map (\<lambda>q. (pk_name q, pk_version q, pk_integrity q)) (am_packages m) = map (\<lambda>p. (lp_name p, lp_version p, lp_integrity p)) pkgs
    \<and> (\<forall>m'. check_manifest (ve_text ve) (raw_document_of m) = Inr m'
        \<longleftrightarrow> m' = m \<and> pkgs \<noteq> [] \<and> (\<forall>p \<in> set pkgs. importable p) \<and> presentable_job (ve_text ve) env j)
    \<and> (pkgs \<noteq> [] \<and> (\<forall>p \<in> set pkgs. importable p) \<and> presentable_job (ve_text ve) env j \<longrightarrow>
        (\<forall>opts. vo_key opts = se_key (xj_settings j) \<and> vo_absolute opts
        \<and> (vo_expected opts = '''' \<or> map lower_char (vo_expected opts) = am_sha256 m)
        \<and> fits_limits (or_default (vo_limits opts)) (vo_key opts) hs \<and> reads_back ve (or_default (vo_limits opts)) hs (xe_archive_bytes env hs)
        \<and> int (length (xe_archive_bytes env hs)) < max_int64
        \<longrightarrow> (\<exists>cs fs'. verify ve m opts None (xe_archive_bytes env hs) Map.empty = (Inr cs, fs'))))"
proof -
  from run_export_None [OF assms(1,4)] obtain pkgs' ss r1 r2 hs where run: "package_list env j = Inr pkgs'"
      "dp_err (run_pool env j pkgs' fs) = None" "strip_each env ta j 0 (results_of (run_pool env j pkgs' fs)) r1 = (Inr ss, r2)"
      "xr_files r1 = dp_files (run_pool env j pkgs' fs)"
      "write_tar_gz (xe_write_faults env) ''out'' (map (archive_entry env (xr_files r2)) ss @ [key_file_entry env (se_key (xj_settings j))]) = Inr hs"
      "xr_files r (archive_path j) = Some (xe_archive_bytes env hs)" "se_key (xj_settings j) \<noteq> ''''"
      "gm_get (xr_docs r) ''manifest.json'' = Some (Manifest_Json (export_manifest_of env j ss
        \<lparr>ac_sha256 = hex_encode (xe_sha256 env (xe_archive_bytes env hs)), ac_size = int (length (xe_archive_bytes env hs))\<rparr>))"
    by blast
  have pkgs: "pkgs' = pkgs" using run(1) assms(2) by simp
  let ?arch = "\<lparr>ac_sha256 = hex_encode (xe_sha256 env (xe_archive_bytes env hs)), ac_size = int (length (xe_archive_bytes env hs))\<rparr>"
  let ?m = "export_manifest_of env j ss ?arch" and ?data = "xe_archive_bytes env hs"
  let ?fit = "pkgs \<noteq> [] \<and> (\<forall>p \<in> set pkgs. importable p) \<and> presentable_job (ve_text ve) env j"
  have own: "map sh_pkg ss = pkgs" "map sh_file ss = map (\<lambda>s. pack_name (sh_pkg s)) ss"
  proof -
    note names = strip_each_names [OF run(3)]
    show *: "map sh_pkg ss = pkgs" using names run_pool_packages [OF run(2)] by (simp add: pkgs)
    have "map sh_file ss = map pack_name (map dd_pkg (results_of (run_pool env j pkgs' fs)))" using names by simp
    also have "\<dots> = map pack_name (map sh_pkg ss)" using names by simp
    finally show "map sh_file ss = map (\<lambda>s. pack_name (sh_pkg s)) ss" by simp
  qed
  have listed: "map (\<lambda>q. (pk_name q, pk_version q, pk_integrity q)) (am_packages ?m) = map (\<lambda>p. (lp_name p, lp_version p, lp_integrity p)) pkgs"
    by (simp add: export_manifest_of_def package_record_def flip: own(1))
  have refused: "m' = ?m \<and> ?fit" if "check_manifest (ve_text ve) (raw_document_of ?m) = Inr m'" for m'
    using accepted_conditions [OF that own(2)] own(1) by auto
  have taken: "check_manifest (ve_text ve) (raw_document_of ?m) = Inr ?m \<and> (\<forall>opts. vo_key opts = se_key (xj_settings j) \<and> vo_absolute opts
        \<and> (vo_expected opts = '''' \<or> map lower_char (vo_expected opts) = am_sha256 ?m)
        \<and> fits_limits (or_default (vo_limits opts)) (vo_key opts) hs \<and> reads_back ve (or_default (vo_limits opts)) hs ?data
        \<and> int (length ?data) < max_int64 \<longrightarrow> (\<exists>cs fs'. verify ve ?m opts None ?data Map.empty = (Inr cs, fs')))" if fit: ?fit
  proof -
    have imp: "\<forall>p \<in> set pkgs. importable p" using fit by blast
    obtain locks where locks: "map_err (read_lockfile env) (lockfile_paths j) = Inr locks" "shipped_set env j locks pkgs"
      using assms(2) unfolding package_list_Inr by blast
    have distinct: "distinct (map lp_key pkgs)" using locks(2) by (simp add: shipped_set_def strict_sorted_iff)
    have apart: "separate_paths j pkgs"
      using imp assms(3,4) distinct by (auto simp: separate_paths_def importable_version importable_no_at)
    have files: "distinct (map sh_file ss)"
      using write_tar_gz_Inr [OF run(5)] by (simp add: archive_entry_def comp_def)
    have verified: "list_all2 (verified_download env j (xr_files r1)) pkgs (results_of (run_pool env j pkgs fs))"
      unfolding run(4) pkgs by (rule run_pool_verified [OF apart assms(5) run(2) [unfolded pkgs]])
    note good = shipped_good [OF run(3) [unfolded pkgs] verified files imp assms(3,4,7,9)]
    obtain content where content: "\<forall>s \<in> set ss. xr_files r2 (sh_path s) = Some (content (package_record s))"
        "write_tar_gz (xe_write_faults env) ''out'' (map (package_entry content) (map package_record ss) @ [signature_entry (se_key (xj_settings j))]) = Inr hs"
      using exported_entries [OF run(5)] good by blast
    have "check_manifest (ve_text ve) (raw_document_of ?m) = Inr ?m"
      by (rule exported_manifest [OF _ _ files distinct _ conjunct1 [OF fit] imp conjunct2 [OF conjunct2 [OF fit]]])
        (use good assms(5,6,8) in \<open>auto simp: hex_encode_text digests_of_64_def\<close>)
    moreover have "\<exists>cs fs'. verify ve ?m opts None ?data Map.empty = (Inr cs, fs')"
      if key: "vo_key opts = se_key (xj_settings j)" and rest: "vo_absolute opts" "vo_expected opts = '''' \<or> map lower_char (vo_expected opts) = am_sha256 ?m"
        "fits_limits (or_default (vo_limits opts)) (vo_key opts) hs" "reads_back ve (or_default (vo_limits opts)) hs ?data"
        "int (length ?data) < max_int64" for opts
    proof (rule verify_written)
      show w: "write_tar_gz (xe_write_faults env) ''out'' (map (package_entry content) (am_packages ?m) @ [signature_entry (vo_key opts)]) = Inr hs"
        using content(2) by (simp add: export_manifest_of_def key)
      show "within_limits (or_default (vo_limits opts)) (vo_key opts) (am_packages ?m) content" by (rule written_limits [OF w rest(3)])
      show "\<forall>p \<in> set (am_packages ?m). plain_file (pk_file p) \<and> good_copy ve p (content p)"
      proof
        fix p assume "p \<in> set (am_packages ?m)"
        then obtain s where s: "s \<in> set ss" "p = package_record s" by (auto simp: export_manifest_of_def)
        have "sh_file s = pack_name (sh_pkg s)" "sh_pkg s \<in> set pkgs" using good s(1) by (auto simp flip: conjunct1 [OF good])
        then have "plain_file (pk_file p)" using imp package_file_plain by (auto simp: s(2) package_record_def importable_def)
        moreover have "good_copy ve p (content p)" using good content(1) s by fastforce
        ultimately show "plain_file (pk_file p) \<and> good_copy ve p (content p)" by blast
      qed
    qed (use assms(10,11) rest run(7) key in \<open>simp_all add: export_manifest_of_def\<close>)
    ultimately show ?thesis by blast
  qed
  have "\<forall>m'. check_manifest (ve_text ve) (raw_document_of ?m) = Inr m' \<longleftrightarrow> m' = ?m \<and> ?fit" using refused taken by blast
  then show ?thesis using taken listed run(6,8) by (intro exI [of _ ?m] exI [of _ hs] conjI) blast+
qed

subsection \<open>A sample run\<close>

lemma fst_export_step [simp]: "fst (export_step name body r) = fst (body (emit_row name state_running '''' r))"
  by (simp add: export_step_def split: prod.split sum.split)

lemma sample_kept: "\<exists>info. inspect_tarball sample_tar_api ''J'' = Inr info \<and> \<not> tf_publish_config info"
proof -
  have "decode_manifest sample_tar_api (sample_manifest ''J'') = Inr sample_keys"
    by (simp add: decode_manifest_def sample_tar_api_def sample_manifest_def max_manifest_bytes_def)
  then have "inspect_tarball sample_tar_api ''J'' = Inr (info_of sample_tar_api (sample_manifest ''J'') sample_keys)"
    unfolding inspect_exact using sample_readable [of "''J''"] by (auto simp: sample_entry)
  then show ?thesis by (simp add: info_of_def sample_keys_def gm_has_def gm_get_def)
qed

definition sample_pack :: shipped where
  "sample_pack = \<lparr>sh_pkg = sample_shipped, sh_file = ''ms-1.0.0.tgz'', sh_path = dd_path sample_download, sh_size = 1,
     sh_sha512 = dd_sha512 sample_download, sh_original = dd_sha512 sample_download, sh_stripped = False\<rparr>"

lemma sample_strips:
  assumes "xr_files r (dd_path sample_download) = Some ''J''"
  shows "strip_each calm_export sample_tar_api sample_export 0 [sample_download] r = (Inr [sample_pack], r)"
proof -
  have "dd_pkg sample_download = sample_shipped" "pack_name sample_shipped = ''ms-1.0.0.tgz''" 
    by (simp add: sample_download_def Let_def) code_simp
  then show ?thesis
    using assms sample_kept by (auto simp: strip_one_def unless_failed_def fail_with_def open_file_def and_then_def sample_pack_def)
qed

lemma sample_archive_written:
  assumes "xr_files r (dd_path sample_download) = Some ''J''"
  shows "\<exists>arch r'. write_archive calm_export sample_export [sample_pack] r = (Inr arch, r')"
proof -
  let ?es = "[archive_entry calm_export (xr_files r) sample_pack, key_file_entry calm_export (se_key (xj_settings sample_export))]"
  have es: "we_name (?es ! 0) = ''ms-1.0.0.tgz''" "we_name (?es ! 1) = ''signature.key''" "\<forall>e \<in> set ?es. full_body e"
    using assms by (auto simp: archive_entry_def key_file_entry_def full_body_def open_file_def sample_pack_def)
  then have "distinct (map we_name ?es)" by simp
  moreover have "mset (map we_name (sort_func cmp_entry ?es)) = mset (map we_name ?es)" by simp
  ultimately have "distinct (map we_name (sort_func cmp_entry ?es))" by (metis mset_eq_imp_distinct_iff)
  then have "duplicate_name (sort_func cmp_entry ?es) = None" by (rule duplicate_name_distinct)
  moreover have "write_rest (xe_write_faults calm_export) ''out'' 0 (sort_func cmp_entry ?es)
      = Inr (map (entry_of ''out'') (sort_func cmp_entry ?es))"
    by (rule write_rest_full) (use es(3) in simp_all)
  ultimately have "\<exists>hs. write_tar_gz (xe_write_faults calm_export) ''out'' ?es = Inr hs"
    by (simp add: write_tar_gz_def Let_def)
  then show ?thesis
    by (auto simp: write_archive_def Let_def unless_failed_def fail_with_def)
qed

lemma map_err_total:
  assumes "\<And>x. \<exists>y. f x = Inr y"
  shows "\<exists>ys. map_err f xs = Inr ys"
proof (cases "map_err f xs")
  case (Inl e)
  from map_err_Inl [OF this] obtain x where "f x = Inl e" by blast
  then show ?thesis using assms [of x] by simp
qed simp

lemma sample_lines_written: "fold (ew_write (\<lambda>_ s. (length s, None))) ps e = e\<lparr>ew_calls := ew_calls e + length ps, ew_text := ew_text e @ concat ps\<rparr>"
  if "ew_err e = None" for e :: err_writer
  using that by (induction ps arbitrary: e) (simp_all add: ew_write_def)

lemma sample_keys_read: "lockfile_keys calm_export sample_export name version = Inr (map lp_key (filter_platform (platform_of (xj_target sample_export)) [sample_shipped]))"
  by (simp add: lockfile_keys_def sample_read)

lemma sample_reports: "\<exists>r'. write_reports calm_export sample_export ss arch r = (Inr (), r')"
proof -
  have ok: "\<exists>r'. create_doc calm_export sample_export what wrap name partial whole None s = (Inr (), r')" for what wrap name partial whole s
    by (simp add: create_doc_def unless_failed_def fail_with_def)
  have trivy: "\<exists>r'. write_trivy_reports calm_export sample_export ss s = (Inr (), r')" for s
  proof -
    obtain r' where r': "create_doc calm_export sample_export (''jobs: create '' @ path_join [xj_dir sample_export, ''export.cdx-input.json''] @ '': '')
        ''jobs: write exported sbom: '' ''export.cdx-input.json'' Scan_Input Scan_Input None s = (Inr (), r')" using ok by blast
    have calm: "sa_write sample_scan = None" "sa_trivy sample_scan cs = None" for cs by (simp_all add: sample_scan_def)
    show ?thesis by (simp add: write_trivy_reports_def Let_def calm r' [simplified] and_then_def unless_failed_def fail_with_def)
  qed
  have candidates: "read_candidates calm_export = Inr []"
    by (simp add: read_candidates_def calm_export_def read_trivy_def)
  have "\<exists>rss. map_err (resolutions_of calm_export sample_export) names = Inr rss" for names
  proof -
    have "\<exists>rs. resolutions_of calm_export sample_export name = Inr rs" for name
      by (auto simp: resolutions_of_def Let_def sample_keys_read intro!: map_err_total)
    then show ?thesis by (intro map_err_total) blast
  qed
  then obtain rss where "map_err (resolutions_of calm_export sample_export) (sorted_keys (xj_selection sample_export)) = Inr rss" by blast
  then have findings: "\<exists>r'. write_findings_csv calm_export sample_export s = (Inr (), r')" for s
    using ok by (simp add: write_findings_csv_def candidates del: map_err_Inr)
  have open_report: "sa_open sample_scan = None" by (simp add: sample_scan_def)
  have "\<exists>rem. remaining_findings calm_export ss = Inr rem"
    by (simp add: remaining_findings_def open_report) (simp add: sample_scan_def read_trivy_def)
  then have summary: "\<exists>r'. write_export_summary calm_export sample_export ss arch s = (Inr (), r')" for s
    using ok by (auto simp: write_export_summary_def Let_def write_summary_def sample_lines_written)
  have doc: "\<exists>r'. write_export_doc calm_export sample_export name d s = (Inr (), r')" for name d s
    by (simp add: write_export_doc_def unless_failed_def fail_with_def)
  have chain: "\<exists>r'. and_then p f = (Inr (), r')" if "\<exists>s. p = (Inr (), s)" "\<And>s. \<exists>r'. f () s = (Inr (), r')" for p f
    using that by (auto simp: and_then_def)
  show ?thesis unfolding write_reports_def by (intro chain doc trivy findings summary)
qed

lemma sample_runs: "\<exists>r. run_export calm_export sample_tar_api sample_export Map.empty = (None, r)"
proof -
  obtain p where p: "run_pool calm_export sample_export [sample_shipped] Map.empty = p" "dp_err p = None"
      "results_of p = [sample_download]" "dp_files p (dd_path sample_download) = Some ''J''"
    using sample_pool by blast
  let ?dl = "\<lambda>r. r\<lparr>xr_files := dp_files p, xr_events := xr_events r @ dp_events p\<rparr> :: export_run"
  have download: "download_all calm_export sample_export [sample_shipped] r = (Inr [sample_download], ?dl r)" if "xr_files r = Map.empty" for r
    using p that by (simp add: download_all_def unless_failed_def fail_with_def Let_def)
  have key: "se_key (xj_settings sample_export) \<noteq> ''''" by code_simp
  have step: "\<exists>r'. export_step name body r = (Inr x, r') \<and> xr_files r' = xr_files s"
    if "body (emit_row name state_running '''' r) = (Inr x, s)" for name body x r s
    using that by (simp add: export_step_def)
  let ?r0 = "\<lparr>xr_files = Map.empty, xr_docs = [], xr_events = []\<rparr> :: export_run"
  obtain r1 where r1: "export_step ''package-list'' (list_step calm_export sample_export) ?r0 = (Inr [sample_shipped], r1)" "xr_files r1 = Map.empty"
    using step [of "list_step calm_export sample_export" "''package-list''" ?r0 "[sample_shipped]" "emit_row ''package-list'' state_running '''' ?r0"]
    by (auto simp: list_step_def sample_package_list)
  obtain r2 where r2: "export_step ''download'' (download_all calm_export sample_export [sample_shipped]) r1 = (Inr [sample_download], r2)"
      "xr_files r2 (dd_path sample_download) = Some ''J''"
    using step [of "download_all calm_export sample_export [sample_shipped]" "''download''" r1 "[sample_download]"] r1(2) p(4) download by auto
  obtain r3 where r3: "export_step ''strip'' (strip_each calm_export sample_tar_api sample_export 0 [sample_download]) r2 = (Inr [sample_pack], r3)"
      "xr_files r3 (dd_path sample_download) = Some ''J''"
    using step [of "strip_each calm_export sample_tar_api sample_export 0 [sample_download]" "''strip''" r2 "[sample_pack]"] r2(2) sample_strips
    by auto
  obtain arch r4 where r4: "export_step ''archive'' (write_archive calm_export sample_export [sample_pack]) r3 = (Inr arch, r4)"
    using sample_archive_written [of "emit_row ''archive'' state_running '''' r3"] r3(2)
      step [of "write_archive calm_export sample_export [sample_pack]" "''archive''" r3] by auto
  obtain r5 where r5: "export_step ''reports'' (write_reports calm_export sample_export [sample_pack] arch) r4 = (Inr (), r5)"
    using sample_reports [of "[sample_pack]" arch "emit_row ''reports'' state_running '''' r4"]
      step [of "write_reports calm_export sample_export [sample_pack] arch" "''reports''" r4 "()"] by auto
  have "\<exists>r. prune_each calm_export sample_export ns s = (Inr (), r)" for ns s
    by (induction ns arbitrary: s) (simp_all add: unless_failed_def fail_with_def)
  then obtain r where "prune_working_files calm_export sample_export r5 = (Inr (), r)" unfolding prune_working_files_def by blast
  then have "export_steps calm_export sample_tar_api sample_export ?r0 = (Inr (), r)"
    unfolding export_steps_def if_not_P [OF key] by (simp add: and_then_def r1(1) r2(1) r3(1) r4 r5)
  then show ?thesis by (simp add: run_export_def)
qed

lemma sample_export_written:
  assumes "run_export calm_export sample_tar_api sample_export Map.empty = (None, r)"
  shows "xr_files r (archive_path sample_export) = Some ''gz''"
proof -
  have dir: "clean_dir (xj_dir sample_export)" by code_simp
  from run_export_None [OF assms dir] obtain pkgs ss r1 r2 hs where run: "package_list calm_export sample_export = Inr pkgs"
      "strip_each calm_export sample_tar_api sample_export 0 (results_of (run_pool calm_export sample_export pkgs Map.empty)) r1 = (Inr ss, r2)"
      "xr_files r1 = dp_files (run_pool calm_export sample_export pkgs Map.empty)"
      "write_tar_gz (xe_write_faults calm_export) ''out'' (map (archive_entry calm_export (xr_files r2)) ss
         @ [key_file_entry calm_export (se_key (xj_settings sample_export))]) = Inr hs"
      "xr_files r (archive_path sample_export) = Some (xe_archive_bytes calm_export hs)" by blast
  have pkgs: "pkgs = [sample_shipped]" using run(1) sample_package_list by simp
  have at: "results_of (run_pool calm_export sample_export pkgs Map.empty) = [sample_download]" "xr_files r1 (dd_path sample_download) = Some ''J''"
    using sample_pool run(3) unfolding pkgs by auto
  have ss: "ss = [sample_pack]" "r2 = r1" using run(2) sample_strips [OF at(2)] unfolding at(1) by simp_all
  let ?a = "package_entry (\<lambda>_. ''J'') (package_record sample_pack)" and ?k = "signature_entry ''key''"
  have "archive_entry calm_export (xr_files r2) sample_pack = ?a"
    using at(2) by (simp add: archive_entry_def package_entry_def package_record_def open_file_def sample_pack_def ss(2))
  moreover have "key_file_entry calm_export (se_key (xj_settings sample_export)) = ?k"
    by (simp add: key_file_entry_def signature_entry_def key_entry_def sample_export_def)
  ultimately have "hs = root_entry ''out'' # map (entry_of ''out'') (sort_func cmp_entry [?a, ?k])"
    using conjunct2 [OF conjunct2 [OF write_tar_gz_Inr [OF run(4)]]] ss(1) by simp
  moreover have "cmp_entry ?a ?k < 0"
    by (simp add: cmp_entry_def package_entry_def package_record_def signature_entry_def sample_pack_def key_entry_def)
  ultimately have "hs = sample_entries"
    by (simp add: sort_func_def entry_of_def package_entry_def package_record_def signature_entry_def sample_pack_def key_entry_def
        sample_entries_def)
  then show ?thesis using run(5) by simp
qed

definition sample_importer :: verify_env where
  "sample_importer = \<lparr>ve_text = \<lparr>tx_printable = (\<lambda>_. True), tx_rfc3339 = (\<lambda>_. True), tx_quote = (\<lambda>s. s)\<rparr>,
     ve_hash = zero_hash, ve_sha256 = (\<lambda>_. replicate 32 (CHR 0x00)),
     ve_open = (\<lambda>_. \<lparr>op_gzip = Gzip_Ok, op_entries = (\<lambda>_. (sample_entries, End_Of_Tar)), op_rest = [], op_rest_err = None\<rparr>),
     ve_faults = (\<lambda>_. \<lparr>ff_open = None, ff_write = None, ff_close = None\<rparr>)\<rparr>"

definition importer_options :: verify_options where
  "importer_options = \<lparr>vo_expected = '''', vo_key = ''key'', vo_absolute = True,
     vo_limits = \<lparr>lm_entries = 0, lm_unpacked = 0, lm_name_bytes = 0\<rparr>\<rparr>"

theorem export_importable_witness:
  "\<exists>r m. run_export calm_export sample_tar_api sample_export Map.empty = (None, r)
    \<and> gm_get (xr_docs r) ''manifest.json'' = Some (Manifest_Json m)
    \<and> check_manifest (ve_text sample_importer) (raw_document_of m) = Inr m
    \<and> xr_files r (archive_path sample_export) = Some ''gz''
    \<and> (\<exists>cs fs'. verify sample_importer m importer_options None ''gz'' Map.empty = (Inr cs, fs'))"
proof -
  obtain r where run: "run_export calm_export sample_tar_api sample_export Map.empty = (None, r)" using sample_runs by blast
  have fits: "\<forall>p \<in> set [sample_shipped]. importable p"
  proof -
    have "valid_name ''ms'' \<and> is_exact_version ''1.0.0'' \<and> rx_match package_file (pack_name sample_shipped)" by code_simp
    moreover have "length (pack_name sample_shipped) = 12" by code_simp
    ultimately show ?thesis
      by (simp add: importable_def sample_shipped_def max_version_bytes_def max_file_name_bytes_def max_integrity_bytes_def sample_sri_def)
  qed
  have presentable: "presentable_job (ve_text sample_importer) calm_export sample_export"
    by (simp add: presentable_job_def Let_def sample_export_def calm_export_def sample_importer_def default_settings_def max_text_bytes_def)
  have dirs: "clean_dir (xj_root sample_export)" "clean_dir (xj_dir sample_export)" by code_simp+
  have env: "[sample_shipped] \<noteq> []" "\<forall>b. length (xe_sha256 calm_export b) = 32" "sha512_tells calm_export"
      "\<forall>hs. xe_archive_bytes calm_export hs \<noteq> []" "ve_hash sample_importer = xe_hash calm_export"
      "ve_sha256 sample_importer = xe_sha256 calm_export" "calm_disk sample_importer"
    by (simp_all add: sha512_tells_def zero_hash_def sample_importer_def fun_eq_iff calm_disk_def)
  obtain m hs where m: "gm_get (xr_docs r) ''manifest.json'' = Some (Manifest_Json m)"
    "check_manifest (ve_text sample_importer) (raw_document_of m) = Inr m" "xr_files r (archive_path sample_export) = Some (xe_archive_bytes calm_export hs)"
    and verified: "\<And>opts. vo_key opts = se_key (xj_settings sample_export) \<and> vo_absolute opts
        \<and> (vo_expected opts = '''' \<or> map lower_char (vo_expected opts) = am_sha256 m)
        \<and> fits_limits (or_default (vo_limits opts)) (vo_key opts) hs \<and> reads_back sample_importer (or_default (vo_limits opts)) hs (xe_archive_bytes calm_export hs)
        \<and> int (length (xe_archive_bytes calm_export hs)) < max_int64
        \<Longrightarrow> \<exists>cs fs'. verify sample_importer m opts None (xe_archive_bytes calm_export hs) Map.empty = (Inr cs, fs')"
    using export_importable [OF run sample_package_list dirs sample_separate(2) env(2-7)] env(1) fits presentable by blast
  have bytes: "xe_archive_bytes calm_export hs = ''gz''" using m(3) sample_export_written [OF run] by simp
  then have hs: "hs = sample_entries" by (simp split: if_splits)
  have "fits_limits (or_default (vo_limits importer_options)) (vo_key importer_options) hs"
    by (simp add: fits_limits_def hs sample_entries_def root_entry_def file_entry_def importer_options_def or_default_def default_limits_def
        Let_def max_key_size_def)
  moreover have "reads_back sample_importer (or_default (vo_limits importer_options)) hs ''gz''"
    by (simp add: reads_back_def sample_importer_def hs check_trailing_def)
  moreover have "vo_key importer_options = se_key (xj_settings sample_export)" "vo_absolute importer_options" "vo_expected importer_options = ''''"
    by (simp_all add: importer_options_def sample_export_def)
  ultimately have "\<exists>cs fs'. verify sample_importer m importer_options None ''gz'' Map.empty = (Inr cs, fs')"
    using verified [of importer_options] unfolding bytes by simp
  then show ?thesis using run m(1,2) sample_export_written [OF run] by blast
qed

end
