(* ===== verification/Importer_Settings.thy ===== *)
theory Importer_Settings
  imports Go_Paths Go_Regexp
begin

text \<open>
  \<^verbatim>\<open>internal/importer/settings.go\<close>: reading the settings of an import. The YAML decoder's document or
  error, \<^verbatim>\<open>url.Parse\<close> and what opening and reading a file give are the record \<open>load_env\<close>. A decoder's
  nil \<^verbatim>\<open>token\<close> or \<^verbatim>\<open>minio\<close> section is None.
\<close>

subsection \<open>Secrets and errors\<close>

type_synonym secret = bytes

definition redacted :: string where "redacted = ''[redacted]''"

text \<open>\<^verbatim>\<open>String\<close>, \<^verbatim>\<open>GoString\<close>, \<^verbatim>\<open>MarshalText\<close> and \<^verbatim>\<open>Format\<close> give the same text.\<close>

definition secret_text :: "secret \<Rightarrow> string" where "secret_text s = redacted"
definition marshal_json :: "secret \<Rightarrow> string" where "marshal_json s = [CHR 0x22] @ redacted @ [CHR 0x22]"

record settings_error =
  sr_field :: string
  sr_reason :: string

definition settings_err :: "string \<Rightarrow> string \<Rightarrow> settings_error" where
  "settings_err f reason = \<lparr>sr_field = f, sr_reason = reason\<rparr>"

definition settings_error_text :: "settings_error \<Rightarrow> string" where
  "settings_error_text e = sr_field e @ '' '' @ sr_reason e"

subsection \<open>Files\<close>

text \<open>What opening a file gives: an error, which may say that the file does not exist, or its bytes up to
  its end or an error of the read.\<close>

datatype file_read = No_Open bool | Opened bytes "bool option"

datatype read_failure = Too_Large nat | Absent | Other_Failure

definition failure_of :: "bool \<Rightarrow> read_failure" where
  "failure_of not_exist = (if not_exist then Absent else Other_Failure)"

fun read_bounded :: "file_read \<Rightarrow> nat \<Rightarrow> read_failure + bytes" where
  "read_bounded (No_Open ne) limit = Inl (failure_of ne)"
| "read_bounded (Opened data err) limit =
     (if length data > limit then Inl (Too_Large limit)
      else case err of Some ne \<Rightarrow> Inl (failure_of ne) | None \<Rightarrow> Inr data)"

fun settings_read_error :: "string \<Rightarrow> read_failure \<Rightarrow> settings_error" where
  "settings_read_error f (Too_Large limit) = settings_err f (''is larger than '' @ show_nat limit @ '' bytes'')"
| "settings_read_error f Absent = settings_err f ''cannot be read: the file does not exist''"
| "settings_read_error f Other_Failure = settings_err f ''cannot be read''"

definition max_settings_bytes :: nat where "max_settings_bytes = 65536"
definition max_secret_bytes :: nat where "max_secret_bytes = 65536"

subsection \<open>Surroundings and documents\<close>

record go_url =
  gu_scheme :: string
  gu_user :: bool
  gu_host :: string
  gu_path :: string
  gu_query :: string
  gu_force :: bool
  gu_fragment :: string
  gu_raw_fragment :: string

record raw_nexus =
  xn_url :: string
  xn_repository :: string
  xn_user :: string
  xn_password :: string
  xn_ca :: string

record raw_token =
  rk_keys :: string
  rk_issuer :: string
  rk_audience :: string
  rk_ca :: string

record raw_minio =
  ri_url :: string
  ri_region :: string
  ri_access :: string
  ri_secret :: string
  ri_ca :: string

record raw_settings =
  rg_nexus :: raw_nexus
  rg_key :: string
  rg_token :: "raw_token option"
  rg_minio :: "raw_minio option"

record load_env =
  le_file :: "string \<Rightarrow> file_read"
  le_yaml :: "bytes \<Rightarrow> string + raw_settings"
  le_url :: "string \<Rightarrow> go_url option"

record minio_settings =
  mi_url :: go_url
  mi_region :: string
  mi_access :: secret
  mi_secret :: secret
  mi_ca :: string

record token_settings =
  tk_keys :: go_url
  tk_issuer :: string
  tk_audience :: string
  tk_ca :: string

record import_settings =
  ip_nexus :: go_url
  ip_repository :: string
  ip_user :: string
  ip_password :: secret
  ip_ca :: string
  ip_key :: secret
  ip_token :: "token_settings option"
  ip_minio :: "minio_settings option"

definition check_service :: "import_settings \<Rightarrow> settings_error + unit" where
  "check_service s = guard_err (ip_token s \<noteq> None) (settings_err ''token'' ''is required for the import service'')"

subsection \<open>The checks\<close>

definition required_settings :: "(string \<times> string) list \<Rightarrow> settings_error + unit" where
  "required_settings = check_each (\<lambda>(f, v). guard_err (v \<noteq> '''') (settings_err f ''is required''))"

definition parse_url :: "load_env \<Rightarrow> string \<Rightarrow> string \<Rightarrow> settings_error + go_url" where
  "parse_url env f raw = (case le_url env raw of
     None \<Rightarrow> Inl (settings_err f ''is not a valid URL'')
   | Some u \<Rightarrow>
       if gu_user u then Inl (settings_err f ''must not carry a user name or password'')
       else if gu_scheme u \<noteq> ''http'' \<and> gu_scheme u \<noteq> ''https'' then Inl (settings_err f ''must start with http or https'')
       else if gu_host u = '''' then Inl (settings_err f ''must name a host'')
       else if gu_query u \<noteq> '''' \<or> gu_force u then Inl (settings_err f ''must not carry a query'')
       else if gu_fragment u \<noteq> '''' \<or> gu_raw_fragment u \<noteq> '''' \<or> contains_str ''#'' raw
         then Inl (settings_err f ''must not carry a fragment'')
       else Inr u)"

definition repository_char :: "char \<Rightarrow> bool" where
  "repository_char c \<longleftrightarrow> is_alnum c \<or> c = CHR ''.'' \<or> c = CHR ''_'' \<or> c = CHR ''-''"

definition repository_name :: rx where "repository_name = rx_plus (Cls repository_char)"

text \<open>\<^verbatim>\<open>filepath.Dir\<close>.\<close>

definition path_dir :: "string \<Rightarrow> string" where
  "path_dir p = path_clean (rev (dropWhile (\<lambda>c. c \<noteq> CHR ''/'') (rev p)))"

definition resolve_path :: "string \<Rightarrow> string \<Rightarrow> string" where
  "resolve_path dir p = (if has_prefix ''/'' p then p else path_join [dir, p])"

definition read_secret :: "load_env \<Rightarrow> string \<Rightarrow> string \<Rightarrow> settings_error + secret" where
  "read_secret env f path = (case read_bounded (le_file env path) max_secret_bytes of
     Inl e \<Rightarrow> Inl (settings_read_error f e)
   | Inr data \<Rightarrow> (let secret = trim_suffix [CHR 0x0A] data in
       if secret = [] then Inl (settings_err f ''points to an empty file'') else Inr secret))"

definition cert_file :: "load_env \<Rightarrow> string \<Rightarrow> string \<Rightarrow> string \<Rightarrow> settings_error + string" where
  "cert_file env f dir p = (let path = resolve_path dir p in
     case le_file env path of No_Open ne \<Rightarrow> Inl (settings_err f ''cannot be read'') | Opened bs e \<Rightarrow> Inr path)"

text \<open>The CA file is read only when it is named.\<close>

definition ca_file :: "load_env \<Rightarrow> string \<Rightarrow> string \<Rightarrow> string \<Rightarrow> settings_error + string" where
  "ca_file env f dir p = (if p \<noteq> '''' then cert_file env f dir p else Inr '''')"

definition load_token :: "load_env \<Rightarrow> string \<Rightarrow> raw_token \<Rightarrow> settings_error + token_settings" where
  "load_token env dir r =
     try_bind (required_settings [(''token.keySetUrl'', rk_keys r), (''token.issuer'', rk_issuer r), (''token.audience'', rk_audience r)]) (\<lambda>_.
     try_bind (parse_url env ''token.keySetUrl'' (rk_keys r)) (\<lambda>u.
     try_bind (ca_file env ''token.caFile'' dir (rk_ca r)) (\<lambda>ca.
     Inr \<lparr>tk_keys = u, tk_issuer = rk_issuer r, tk_audience = rk_audience r, tk_ca = ca\<rparr>)))"

definition load_minio :: "load_env \<Rightarrow> string \<Rightarrow> raw_minio \<Rightarrow> settings_error + minio_settings" where
  "load_minio env dir r =
     try_bind (required_settings [(''minio.url'', ri_url r), (''minio.accessKeyFile'', ri_access r), (''minio.secretKeyFile'', ri_secret r)]) (\<lambda>_.
     try_bind (parse_url env ''minio.url'' (ri_url r)) (\<lambda>u.
     try_bind (read_secret env ''minio.accessKeyFile'' (resolve_path dir (ri_access r))) (\<lambda>access.
     try_bind (read_secret env ''minio.secretKeyFile'' (resolve_path dir (ri_secret r))) (\<lambda>secret.
     try_bind (ca_file env ''minio.caFile'' dir (ri_ca r)) (\<lambda>ca.
     Inr \<lparr>mi_url = u, mi_region = ri_region r, mi_access = access, mi_secret = secret, mi_ca = ca\<rparr>)))))"

definition load_section :: "('r \<Rightarrow> settings_error + 's) \<Rightarrow> 'r option \<Rightarrow> settings_error + 's option" where
  "load_section load sec = (case sec of None \<Rightarrow> Inr None | Some r \<Rightarrow> try_bind (load r) (\<lambda>s. Inr (Some s)))"

text \<open>\<^verbatim>\<open>unknownField.FindStringSubmatch\<close>: the leftmost place where \<^verbatim>\<open>field (\w+) not found\<close> matches. A
  word ends before a blank, so the longest run of word bytes is the only one to try.\<close>

definition field_char :: "char \<Rightarrow> bool" where
  "field_char c \<longleftrightarrow> is_alnum c \<or> c = CHR ''_''"

definition unknown_here :: "string \<Rightarrow> string option" where
  "unknown_here s = (if has_prefix ''field '' s then
     (let r = trim_prefix ''field '' s; w = takeWhile field_char r in
      if w \<noteq> '''' \<and> has_prefix '' not found'' (dropWhile field_char r) then Some w else None) else None)"

fun unknown_field :: "string \<Rightarrow> string option" where
  "unknown_field [] = None"
| "unknown_field (c # s) = (case unknown_here (c # s) of Some w \<Rightarrow> Some w | None \<Rightarrow> unknown_field s)"

definition decode_settings :: "load_env \<Rightarrow> bytes \<Rightarrow> settings_error + raw_settings" where
  "decode_settings env data = (case le_yaml env data of
     Inr raw \<Rightarrow> Inr raw
   | Inl text \<Rightarrow> Inl (case unknown_field text of
       Some w \<Rightarrow> settings_err w ''is an unknown field''
     | None \<Rightarrow> settings_err ''settings file'' ''is not valid settings YAML''))"

definition settings_of :: "load_env \<Rightarrow> string \<Rightarrow> raw_settings \<Rightarrow> settings_error + import_settings" where
  "settings_of env dir raw = (let n = rg_nexus raw in
     try_bind (required_settings [(''nexus.url'', xn_url n), (''nexus.repository'', xn_repository n), (''nexus.user'', xn_user n),
       (''nexus.passwordFile'', xn_password n), (''signatureKeyFile'', rg_key raw)]) (\<lambda>_.
     try_bind (parse_url env ''nexus.url'' (xn_url n)) (\<lambda>u.
     try_bind (guard_err (rx_match repository_name (xn_repository n))
       (settings_err ''nexus.repository'' ''may hold only letters, digits, dots, hyphens and underscores'')) (\<lambda>_.
     try_bind (read_secret env ''nexus.passwordFile'' (resolve_path dir (xn_password n))) (\<lambda>password.
     try_bind (read_secret env ''signatureKeyFile'' (resolve_path dir (rg_key raw))) (\<lambda>key.
     try_bind (ca_file env ''nexus.caFile'' dir (xn_ca n)) (\<lambda>ca.
     try_bind (load_section (load_token env dir) (rg_token raw)) (\<lambda>tk.
     try_bind (load_section (load_minio env dir) (rg_minio raw)) (\<lambda>mi.
     Inr \<lparr>ip_nexus = u, ip_repository = xn_repository n, ip_user = xn_user n, ip_password = password, ip_ca = ca,
       ip_key = key, ip_token = tk, ip_minio = mi\<rparr>)))))))))"

definition load_settings :: "load_env \<Rightarrow> string \<Rightarrow> settings_error + import_settings" where
  "load_settings env path = (case read_bounded (le_file env path) max_settings_bytes of
     Inl e \<Rightarrow> Inl (settings_read_error ''settings file'' e)
   | Inr data \<Rightarrow> try_bind (decode_settings env data) (\<lambda>raw. settings_of env (path_dir path) raw))"

subsection \<open>What is accepted\<close>

definition usable_url :: "load_env \<Rightarrow> string \<Rightarrow> go_url \<Rightarrow> bool" where
  "usable_url env raw u \<longleftrightarrow> le_url env raw = Some u \<and> \<not> gu_user u \<and> gu_scheme u \<in> {''http'', ''https''} \<and> gu_host u \<noteq> ''''
     \<and> gu_query u = '''' \<and> \<not> gu_force u \<and> gu_fragment u = '''' \<and> gu_raw_fragment u = '''' \<and> \<not> contains_str ''#'' raw"

text \<open>A secret is its file without one line end; a file that holds only that is empty.\<close>

definition secret_at :: "load_env \<Rightarrow> string \<Rightarrow> secret \<Rightarrow> bool" where
  "secret_at env path s \<longleftrightarrow> s \<noteq> [] \<and> (\<exists>bs. le_file env path = Opened bs None \<and> length bs \<le> max_secret_bytes
     \<and> (bs = s @ [CHR 0x0A] \<or> bs = s \<and> last s \<noteq> CHR 0x0A))"

definition ca_at :: "load_env \<Rightarrow> string \<Rightarrow> string \<Rightarrow> string \<Rightarrow> bool" where
  "ca_at env dir p ca \<longleftrightarrow> (if p = '''' then ca = ''''
     else ca = resolve_path dir p \<and> (\<exists>bs e. le_file env ca = Opened bs e))"

definition token_from :: "load_env \<Rightarrow> string \<Rightarrow> raw_token \<Rightarrow> token_settings \<Rightarrow> bool" where
  "token_from env dir r t \<longleftrightarrow> rk_keys r \<noteq> '''' \<and> usable_url env (rk_keys r) (tk_keys t)
     \<and> tk_issuer t = rk_issuer r \<and> tk_issuer t \<noteq> '''' \<and> tk_audience t = rk_audience r \<and> tk_audience t \<noteq> ''''
     \<and> ca_at env dir (rk_ca r) (tk_ca t)"

definition minio_from :: "load_env \<Rightarrow> string \<Rightarrow> raw_minio \<Rightarrow> minio_settings \<Rightarrow> bool" where
  "minio_from env dir r m \<longleftrightarrow> ri_url r \<noteq> '''' \<and> ri_access r \<noteq> '''' \<and> ri_secret r \<noteq> '''' \<and> usable_url env (ri_url r) (mi_url m)
     \<and> mi_region m = ri_region r \<and> secret_at env (resolve_path dir (ri_access r)) (mi_access m)
     \<and> secret_at env (resolve_path dir (ri_secret r)) (mi_secret m) \<and> ca_at env dir (ri_ca r) (mi_ca m)"

definition settings_from :: "load_env \<Rightarrow> string \<Rightarrow> raw_settings \<Rightarrow> import_settings \<Rightarrow> bool" where
  "settings_from env dir raw s \<longleftrightarrow> (let n = rg_nexus raw in
     xn_url n \<noteq> '''' \<and> usable_url env (xn_url n) (ip_nexus s)
     \<and> ip_repository s = xn_repository n \<and> ip_repository s \<noteq> '''' \<and> list_all repository_char (ip_repository s)
     \<and> ip_user s = xn_user n \<and> ip_user s \<noteq> ''''
     \<and> xn_password n \<noteq> '''' \<and> secret_at env (resolve_path dir (xn_password n)) (ip_password s)
     \<and> rg_key raw \<noteq> '''' \<and> secret_at env (resolve_path dir (rg_key raw)) (ip_key s)
     \<and> ca_at env dir (xn_ca n) (ip_ca s)
     \<and> rel_option (token_from env dir) (rg_token raw) (ip_token s)
     \<and> rel_option (minio_from env dir) (rg_minio raw) (ip_minio s))"

lemma required_settings_Inr: "required_settings fs = Inr u \<longleftrightarrow> (\<forall>(f, v) \<in> set fs. v \<noteq> '''')"
  by (auto simp: required_settings_def go_err)

lemma parse_url_Inr: "parse_url env f raw = Inr u \<longleftrightarrow> usable_url env raw u"
  by (auto simp: parse_url_def usable_url_def split: option.splits)

lemma read_bounded_Inr: "read_bounded r n = Inr bs \<longleftrightarrow> r = Opened bs None \<and> length bs \<le> n"
  by (cases r) (auto split: option.splits)

lemma trim_newline: "trim_suffix [c] bs = s \<longleftrightarrow> bs = s @ [c] \<or> bs = s \<and> (s = [] \<or> last s \<noteq> c)"
  by (cases bs rule: rev_cases) (auto simp: trim_suffix_def has_suffix_def)

lemma read_secret_Inr: "read_secret env f path = Inr s \<longleftrightarrow> secret_at env path s"
proof -
  have "read_secret env f path = Inr s \<longleftrightarrow> (\<exists>bs. read_bounded (le_file env path) max_secret_bytes = Inr bs
      \<and> trim_suffix [CHR 0x0A] bs = s \<and> s \<noteq> [])"
    by (auto simp: read_secret_def Let_def split: sum.splits)
  then show ?thesis by (auto simp: read_bounded_Inr trim_newline secret_at_def)
qed

lemma ca_file_Inr: "ca_file env f dir p = Inr ca \<longleftrightarrow> ca_at env dir p ca"
  by (auto simp: ca_file_def cert_file_def ca_at_def Let_def split: file_read.splits)

lemmas settings_Inr = required_settings_Inr parse_url_Inr read_secret_Inr ca_file_Inr

lemma load_token_Inr: "load_token env dir r = Inr t \<longleftrightarrow> token_from env dir r t"
  by (cases t) (auto simp: load_token_def token_from_def go_err settings_Inr)

lemma load_minio_Inr: "load_minio env dir r = Inr m \<longleftrightarrow> minio_from env dir r m"
  by (cases m) (auto simp: load_minio_def minio_from_def go_err settings_Inr)

lemma load_section_Inr:
  assumes "\<And>r s. load r = Inr s \<longleftrightarrow> ok r s"
  shows "load_section load sec = Inr s \<longleftrightarrow> rel_option ok sec s"
  by (cases sec; cases s) (auto simp: load_section_def go_err assms)

lemmas load_sections = load_section_Inr [OF load_token_Inr] load_section_Inr [OF load_minio_Inr]

lemma repository_name_match: "rx_match repository_name r \<longleftrightarrow> r \<noteq> '''' \<and> list_all repository_char r"
  by (simp add: rx_match_lang repository_name_def)

lemma settings_of_Inr: "settings_of env dir raw = Inr s \<longleftrightarrow> settings_from env dir raw s"
  by (cases s) (auto simp: settings_of_def settings_from_def Let_def go_err settings_Inr load_sections repository_name_match)

subsection \<open>What a refusal says\<close>

definition settings_fields :: "string list" where
  "settings_fields = [''settings file'', ''nexus.url'', ''nexus.repository'', ''nexus.user'', ''nexus.passwordFile'',
     ''nexus.caFile'', ''signatureKeyFile'', ''token.keySetUrl'', ''token.issuer'', ''token.audience'', ''token.caFile'',
     ''minio.url'', ''minio.accessKeyFile'', ''minio.secretKeyFile'', ''minio.caFile'']"

definition settings_reasons :: "string list" where
  "settings_reasons = [''is required'', ''is not a valid URL'', ''must not carry a user name or password'',
     ''must start with http or https'', ''must name a host'', ''must not carry a query'', ''must not carry a fragment'',
     ''may hold only letters, digits, dots, hyphens and underscores'', ''cannot be read'',
     ''cannot be read: the file does not exist'', ''is larger than 65536 bytes'', ''points to an empty file'',
     ''is not valid settings YAML'']"

text \<open>A refusal is one of these texts, which hold nothing of the files that were read.\<close>

definition fixed_refusal :: "settings_error \<Rightarrow> bool" where
  "fixed_refusal e \<longleftrightarrow> sr_field e \<in> set settings_fields \<and> sr_reason e \<in> set settings_reasons"

lemma fixed_refusal_err:
  "fixed_refusal (settings_err f r) \<longleftrightarrow> f \<in> set settings_fields \<and> r \<in> set settings_reasons"
  by (simp add: fixed_refusal_def settings_err_def)

lemma required_settings_Inl: "required_settings fs = Inl e \<Longrightarrow> set (map fst fs) \<subseteq> set settings_fields \<Longrightarrow> fixed_refusal e"
  unfolding required_settings_def
  by (drule check_each_Inl) (auto simp: guard_err_Inl fixed_refusal_err settings_reasons_def)

lemma parse_url_Inl: "parse_url env f raw = Inl e \<Longrightarrow> f \<in> set settings_fields \<Longrightarrow> fixed_refusal e"
  by (auto simp: parse_url_def fixed_refusal_err settings_reasons_def split: option.splits if_splits)

lemma ca_file_Inl: "ca_file env f dir p = Inl e \<Longrightarrow> f \<in> set settings_fields \<Longrightarrow> fixed_refusal e"
  by (auto simp: ca_file_def cert_file_def Let_def fixed_refusal_err settings_reasons_def split: file_read.splits if_splits)

lemma bound_text: "show_nat 65536 = ''65536''"
  by (simp add: show_nat.simps digit_char_def char_of_def bit_iff_odd)

lemma read_bounded_Inl:
  "read_bounded r 65536 = Inl x \<Longrightarrow> f \<in> set settings_fields \<Longrightarrow> fixed_refusal (settings_read_error f x)"
  by (cases r) (auto simp: failure_of_def fixed_refusal_err settings_reasons_def bound_text simp del: show_nat.simps
     split: option.splits if_splits)

lemma read_secret_Inl: "read_secret env f path = Inl e \<Longrightarrow> f \<in> set settings_fields \<Longrightarrow> fixed_refusal e"
  using read_bounded_Inl [of "le_file env path" _ f]
  by (auto simp: read_secret_def max_secret_bytes_def Let_def fixed_refusal_err split: sum.splits if_splits)
    (simp add: settings_reasons_def)

lemmas settings_Inl = required_settings_Inl parse_url_Inl ca_file_Inl read_secret_Inl

lemma try_bind_InlE: "try_bind m k = Inl e \<Longrightarrow> (m = Inl e \<Longrightarrow> thesis) \<Longrightarrow> (\<And>x. k x = Inl e \<Longrightarrow> thesis) \<Longrightarrow> thesis"
  by (cases m) auto

lemma load_token_Inl: "load_token env dir r = Inl e \<Longrightarrow> fixed_refusal e"
  unfolding load_token_def
  by (elim try_bind_InlE) (erule settings_Inl | simp add: settings_fields_def)+

lemma load_minio_Inl: "load_minio env dir r = Inl e \<Longrightarrow> fixed_refusal e"
  unfolding load_minio_def
  by (elim try_bind_InlE) (erule settings_Inl | simp add: settings_fields_def)+

lemma load_section_Inl: "load_section load sec = Inl e \<Longrightarrow> (\<And>r. load r = Inl e \<Longrightarrow> fixed_refusal e) \<Longrightarrow> fixed_refusal e"
  by (auto simp: load_section_def go_err split: option.splits)

lemma settings_of_Inl: "settings_of env dir raw = Inl e \<Longrightarrow> fixed_refusal e"
  unfolding settings_of_def Let_def
  by (elim try_bind_InlE)
    (erule settings_Inl load_section_Inl load_token_Inl load_minio_Inl
      | simp add: guard_err_Inl fixed_refusal_err settings_reasons_def | simp add: settings_fields_def)+

lemma decode_settings_Inl: "decode_settings env data = Inl e \<Longrightarrow> fixed_refusal e
    \<or> (\<exists>text w. le_yaml env data = Inl text \<and> unknown_field text = Some w \<and> e = settings_err w ''is an unknown field'')"
  by (auto simp: decode_settings_def fixed_refusal_err settings_fields_def settings_reasons_def split: sum.splits option.splits)

lemma decode_settings_Inr: "decode_settings env data = Inr raw \<longleftrightarrow> le_yaml env data = Inr raw"
  by (auto simp: decode_settings_def split: sum.splits)

lemma load_settings_iff: "load_settings env path = Inr s \<longleftrightarrow> (\<exists>data raw. le_file env path = Opened data None
     \<and> length data \<le> max_settings_bytes \<and> le_yaml env data = Inr raw \<and> settings_from env (path_dir path) raw s)"
proof -
  have "load_settings env path = Inr s \<longleftrightarrow> (\<exists>data. read_bounded (le_file env path) max_settings_bytes = Inr data
      \<and> try_bind (decode_settings env data) (settings_of env (path_dir path)) = Inr s)"
    by (auto simp: load_settings_def split: sum.splits)
  then show ?thesis by (simp add: go_err read_bounded_Inr decode_settings_Inr settings_of_Inr)
qed

lemma load_settings_refuses: "load_settings env path = Inl e \<Longrightarrow> fixed_refusal e \<or> (\<exists>data text w.
     le_file env path = Opened data None \<and> le_yaml env data = Inl text \<and> unknown_field text = Some w
     \<and> e = settings_err w ''is an unknown field'')"
proof (cases "read_bounded (le_file env path) max_settings_bytes")
  case (Inl x)
  assume "load_settings env path = Inl e"
  then show ?thesis
    using Inl read_bounded_Inl [of "le_file env path" x "''settings file''"]
    by (simp add: load_settings_def max_settings_bytes_def settings_fields_def)
next
  case (Inr data)
  assume "load_settings env path = Inl e"
  then have "try_bind (decode_settings env data) (settings_of env (path_dir path)) = Inl e"
    using Inr by (simp add: load_settings_def)
  then show ?thesis
    using Inr by (elim try_bind_InlE) (auto simp: read_bounded_Inr dest!: decode_settings_Inl dest: settings_of_Inl)
qed

subsection \<open>A settings file\<close>

definition sample_url :: "string \<Rightarrow> go_url" where
  "sample_url host = \<lparr>gu_scheme = ''https'', gu_user = False, gu_host = host, gu_path = '''', gu_query = '''', gu_force = False,
     gu_fragment = '''', gu_raw_fragment = ''''\<rparr>"

definition sample_raw :: raw_settings where
  "sample_raw = \<lparr>rg_nexus = \<lparr>xn_url = ''https://nexus.lan'', xn_repository = ''npm-hosted'', xn_user = ''lift'', xn_password = ''pw'', xn_ca = ''''\<rparr>,
     rg_key = ''/run/key'', rg_token = None,
     rg_minio = Some \<lparr>ri_url = ''https://minio.lan'', ri_region = '''', ri_access = ''access'', ri_secret = ''secret'', ri_ca = ''''\<rparr>\<rparr>"

definition sample_load :: load_env where
  "sample_load = \<lparr>le_file = (\<lambda>p. if p = ''/etc/sealift/pw'' then Opened (''hunter2'' @ [CHR 0x0A]) None
       else if p = ''/etc/sealift/access'' then Opened ''AK'' None
       else if p = ''/etc/sealift/secret'' then Opened ''SK'' None
       else if p = ''/run/key'' then Opened ''sig'' None
       else if p = ''/etc/sealift/import.yaml'' then Opened ''doc'' None
       else if p = ''/etc/sealift/bad.yaml'' then Opened ''bad'' None else No_Open True),
     le_yaml = (\<lambda>b. if b = ''bad'' then Inl ''yaml: line 2: field passwd not found in type'' else Inr sample_raw),
     le_url = (\<lambda>r. Some (sample_url (drop 8 r)))\<rparr>"

definition sample_loaded :: import_settings where
  "sample_loaded = \<lparr>ip_nexus = sample_url ''nexus.lan'', ip_repository = ''npm-hosted'', ip_user = ''lift'', ip_password = ''hunter2'', ip_ca = '''',
     ip_key = ''sig'', ip_token = None,
     ip_minio = Some \<lparr>mi_url = sample_url ''minio.lan'', mi_region = '''', mi_access = ''AK'', mi_secret = ''SK'', mi_ca = ''''\<rparr>\<rparr>"

lemma sample_load_runs:
  "load_settings sample_load ''/etc/sealift/import.yaml'' = Inr sample_loaded"
  "load_settings sample_load ''/etc/sealift/bad.yaml'' = Inl (settings_err ''passwd'' ''is an unknown field'')"
proof -
  have paths: "path_dir ''/etc/sealift/import.yaml'' = ''/etc/sealift''" "path_dir ''/etc/sealift/bad.yaml'' = ''/etc/sealift''"
    "resolve_path ''/etc/sealift'' ''pw'' = ''/etc/sealift/pw''" "resolve_path ''/etc/sealift'' ''/run/key'' = ''/run/key''"
    "resolve_path ''/etc/sealift'' ''access'' = ''/etc/sealift/access''"
    "resolve_path ''/etc/sealift'' ''secret'' = ''/etc/sealift/secret''" by code_simp+
  have urls: "parse_url sample_load f ''https://nexus.lan'' = Inr (sample_url ''nexus.lan'')"
    "parse_url sample_load f ''https://minio.lan'' = Inr (sample_url ''minio.lan'')" for f
    by (simp_all add: parse_url_Inr usable_url_def sample_load_def sample_url_def contains_str_def)
  have keys: "read_secret sample_load f ''/etc/sealift/pw'' = Inr ''hunter2''" "read_secret sample_load f ''/run/key'' = Inr ''sig''"
    "read_secret sample_load f ''/etc/sealift/access'' = Inr ''AK''" "read_secret sample_load f ''/etc/sealift/secret'' = Inr ''SK''" for f
    by (simp_all add: read_secret_Inr secret_at_def sample_load_def max_secret_bytes_def)
  have name: "rx_match repository_name ''npm-hosted''" by code_simp
  have docs: "read_bounded (le_file sample_load ''/etc/sealift/import.yaml'') max_settings_bytes = Inr ''doc''"
    "read_bounded (le_file sample_load ''/etc/sealift/bad.yaml'') max_settings_bytes = Inr ''bad''"
    by (simp_all add: read_bounded_Inr sample_load_def max_settings_bytes_def)
  have dec: "decode_settings sample_load ''doc'' = Inr sample_raw"
    "decode_settings sample_load ''bad'' = Inl (settings_err ''passwd'' ''is an unknown field'')" by code_simp+
  have "settings_of sample_load ''/etc/sealift'' sample_raw = Inr sample_loaded"
    by (simp add: settings_of_def sample_raw_def required_settings_def urls paths keys name ca_file_def load_section_def load_minio_def
       sample_loaded_def del: rx_match.simps)
  then show "load_settings sample_load ''/etc/sealift/import.yaml'' = Inr sample_loaded"
    "load_settings sample_load ''/etc/sealift/bad.yaml'' = Inl (settings_err ''passwd'' ''is an unknown field'')"
    by (simp_all add: load_settings_def docs dec paths)
qed

text \<open>C35. LoadSettings accepts a settings file exactly when it opens, holds at most 64 KiB and decodes to a
  document in which every required field is set, each URL is http or https with a host and without user,
  query and fragment, the repository is a plain name, each secret's file is read within 64 KiB and
  holds a non-empty secret after one line end is taken off, and each CA file that is named opens, paths being relative to
  the file's folder; the settings then hold just these values. A refusal is one of a fixed list of
  texts, or names the field a decoder does not know: it never carries a value.\<close>

theorem load_settings_exact:
  "(load_settings env path = Inr s \<longleftrightarrow> (\<exists>data raw. le_file env path = Opened data None \<and> length data \<le> max_settings_bytes
      \<and> le_yaml env data = Inr raw \<and> settings_from env (path_dir path) raw s))
   \<and> (load_settings env path = Inl e \<longrightarrow> fixed_refusal e \<or> (\<exists>data text w. le_file env path = Opened data None
      \<and> le_yaml env data = Inl text \<and> unknown_field text = Some w \<and> e = settings_err w ''is an unknown field''))"
  using load_settings_iff load_settings_refuses by blast

theorem load_settings_exact_witness:
  "settings_from sample_load ''/etc/sealift'' sample_raw sample_loaded
   \<and> unknown_field ''yaml: line 2: field passwd not found in type'' = Some ''passwd''"
proof -
  have d: "path_dir ''/etc/sealift/import.yaml'' = ''/etc/sealift''" by code_simp
  have y: "le_yaml sample_load data = Inr raw \<Longrightarrow> raw = sample_raw" for data raw
    by (simp add: sample_load_def split: if_splits)
  have f: "\<not> fixed_refusal (settings_err ''passwd'' ''is an unknown field'')" by code_simp
  have "settings_from sample_load ''/etc/sealift'' sample_raw sample_loaded"
    using load_settings_exact [of sample_load "''/etc/sealift/import.yaml''" sample_loaded undefined] sample_load_runs(1) y d by auto
  moreover obtain data msg w where t: "le_yaml sample_load data = Inl msg" "unknown_field msg = Some w"
      "settings_err ''passwd'' ''is an unknown field'' = settings_err w ''is an unknown field''"
    using load_settings_exact [of sample_load "''/etc/sealift/bad.yaml''" undefined "settings_err ''passwd'' ''is an unknown field''"]
      sample_load_runs(2) f by auto
  moreover have "msg = ''yaml: line 2: field passwd not found in type''" "w = ''passwd''"
    using t(1,3) by (simp_all add: sample_load_def settings_err_def split: if_splits)
  ultimately show ?thesis by simp
qed

end
