(* ===== verification/Go_Text.thy ===== *)
theory Go_Text
  imports Sealift_Prelude
begin

text \<open>
  What the clients of Nexus and MinIO use of \<^verbatim>\<open>unicode/utf8\<close> and \<^verbatim>\<open>strings\<close> to clean a server's text: valid UTF-8, the
  removal of control characters, \<^verbatim>\<open>strings.ReplaceAll\<close> with a non-empty text, and the cut to a number of
  runes. A rune is the bytes that encode it. The lemmas show when a text that was replaced is gone.
\<close>

subsection \<open>UTF-8\<close>

definition between :: "nat \<Rightarrow> nat \<Rightarrow> char \<Rightarrow> bool" where
  "between lo hi c \<longleftrightarrow> lo \<le> of_char c \<and> of_char c \<le> hi"

abbreviation continuation :: "char \<Rightarrow> bool" where "continuation \<equiv> between 128 191"

text \<open>How many bytes follow a first byte, and the range of the first of them; None for a byte that starts
  no rune.\<close>

definition lead :: "char \<Rightarrow> (nat \<times> nat \<times> nat) option" where
  "lead a = (if of_char a < (128 :: nat) then Some (0, 128, 191)
     else if between 194 223 a then Some (1, 128, 191)
     else if of_char a = (224 :: nat) then Some (2, 160, 191)
     else if of_char a = (237 :: nat) then Some (2, 128, 159)
     else if between 225 239 a then Some (2, 128, 191)
     else if of_char a = (240 :: nat) then Some (3, 144, 191)
     else if of_char a = (244 :: nat) then Some (3, 128, 143)
     else if between 241 243 a then Some (3, 128, 191)
     else None)"

fun trail :: "nat \<Rightarrow> nat \<Rightarrow> string \<Rightarrow> bool" where
  "trail lo hi [] = True"
| "trail lo hi (b # t) \<longleftrightarrow> between lo hi b \<and> list_all continuation t"

text \<open>The number of bytes of the first rune, 0 when the bytes are not valid there.\<close>

fun rune_width :: "string \<Rightarrow> nat" where
  "rune_width [] = 0"
| "rune_width (a # s) = (case lead a of None \<Rightarrow> 0
     | Some (n, lo, hi) \<Rightarrow> if n \<le> length s \<and> trail lo hi (take n s) then Suc n else 0)"

datatype chunk = Rune string | Bad_Byte char

function (sequential) chunks :: "string \<Rightarrow> chunk list" where
  "chunks [] = []"
| "chunks (c # s) = (case rune_width (c # s) of
     0 \<Rightarrow> Bad_Byte c # chunks s
   | Suc n \<Rightarrow> Rune (c # take n s) # chunks (drop n s))"
  by pat_completeness auto
termination by (relation "measure size") auto

definition replacement_rune :: string where
  "replacement_rune = [CHR 0xEF, CHR 0xBF, CHR 0xBD]"

fun chunk_text :: "chunk \<Rightarrow> string" where
  "chunk_text (Rune r) = r"
| "chunk_text (Bad_Byte c) = replacement_rune"

text \<open>\<^verbatim>\<open>unicode.IsControl\<close>: below U+0020 and from U+007F to U+009F.\<close>

fun control_text :: "string \<Rightarrow> bool" where
  "control_text [a] = (of_char a < (32 :: nat) \<or> of_char a = (127 :: nat))"
| "control_text [a, b] = (of_char a = (194 :: nat) \<and> of_char b < (160 :: nat))"
| "control_text r = False"

definition valid_utf8 :: "string \<Rightarrow> bool" where
  "valid_utf8 s \<longleftrightarrow> list_all (\<lambda>c. case c of Rune r \<Rightarrow> True | Bad_Byte b \<Rightarrow> False) (chunks s)"

text \<open>\<^verbatim>\<open>strings.ToValidUTF8(s, "")\<close>.\<close>

definition to_valid :: "string \<Rightarrow> string" where
  "to_valid s = concat (map (\<lambda>c. case c of Rune r \<Rightarrow> r | Bad_Byte b \<Rightarrow> []) (chunks s))"

text \<open>\<^verbatim>\<open>strings.Map\<close> with a function that drops control characters.\<close>

definition strip_control :: "string \<Rightarrow> string" where
  "strip_control s = concat (map chunk_text (filter (\<lambda>c. \<not> control_text (chunk_text c)) (chunks s)))"

definition cut_runes :: "nat \<Rightarrow> string \<Rightarrow> string" where
  "cut_runes n s = (if n < length (chunks s) then concat (map chunk_text (take n (chunks s))) else s)"

function (sequential) replace_all :: "string \<Rightarrow> string \<Rightarrow> string \<Rightarrow> string" where
  "replace_all old new [] = []"
| "replace_all old new (c # s) = (if old \<noteq> [] \<and> has_prefix old (c # s)
     then new @ replace_all old new (drop (length old) (c # s)) else c # replace_all old new s)"
  by pat_completeness auto
termination by (relation "measure (size \<circ> snd \<circ> snd)") auto

subsection \<open>Valid text is a list of runes\<close>

definition rune :: "string \<Rightarrow> bool" where
  "rune r \<longleftrightarrow> r \<noteq> [] \<and> rune_width r = length r"

definition runes_text :: "(string \<Rightarrow> bool) \<Rightarrow> string \<Rightarrow> bool" where
  "runes_text P s \<longleftrightarrow> (\<exists>rs. s = concat rs \<and> list_all (\<lambda>r. rune r \<and> P r) rs)"

lemma rune_width_take:
  assumes "rune_width s = Suc n"
  shows "Suc n \<le> length s" and "rune (take (Suc n) s)"
  using assms by (cases s; auto simp: rune_def split: option.splits if_splits)+

lemma rune_width_append: "rune r \<Longrightarrow> rune_width (r @ t) = length r"
  by (cases r) (auto simp: rune_def split: option.splits if_splits)

lemma lead_range: "lead a = Some (n, lo, hi) \<Longrightarrow> 128 \<le> lo \<and> hi \<le> 191"
  by (auto simp: lead_def split: if_splits)

lemma rune_tail: "rune (c # t) \<Longrightarrow> list_all continuation t"
  by (cases t) (auto simp: rune_def between_def dest!: lead_range split: option.splits if_splits)

lemma rune_head: "rune (c # t) \<Longrightarrow> \<not> continuation c"
  by (auto simp: rune_def lead_def between_def split: option.splits if_splits)

lemma chunks_rune: "rune r \<Longrightarrow> chunks (r @ s) = Rune r # chunks s"
  using rune_width_append [of r s] by (cases r) (auto simp: rune_def)

lemma chunks_concat: "list_all rune rs \<Longrightarrow> chunks (concat rs) = map Rune rs"
  by (induction rs) (simp_all add: chunks_rune)

lemma chunks_runes: "Rune r \<in> set (chunks s) \<Longrightarrow> rune r"
proof (induction s rule: chunks.induct)
  case (2 c s)
  then show ?case using rune_width_take(2) [of "c # s"] by (auto split: nat.splits)
qed simp

lemma runes_textI: "list_all (\<lambda>r. rune r \<and> P r) rs \<Longrightarrow> runes_text P (concat rs)"
  by (auto simp: runes_text_def)

lemma runes_text_Nil [simp]: "runes_text P []"
  using runes_textI [of P "[]"] by simp

lemma runes_text_append: "runes_text P a \<Longrightarrow> runes_text P b \<Longrightarrow> runes_text P (a @ b)"
proof -
  assume "runes_text P a" "runes_text P b"
  then obtain ra rb where "a = concat ra" "b = concat rb" "list_all (\<lambda>r. rune r \<and> P r) (ra @ rb)" by (auto simp: runes_text_def)
  then show "runes_text P (a @ b)" using runes_textI [of P "ra @ rb"] by simp
qed

lemma runes_text_Cons: "rune r \<Longrightarrow> P r \<Longrightarrow> runes_text P s \<Longrightarrow> runes_text P (r @ s)"
  using runes_text_append [of P r s] runes_textI [of P "[r]"] by simp

lemma runes_text_ascii: "list_all (\<lambda>c. of_char c < (128 :: nat) \<and> P [c]) s \<Longrightarrow> runes_text P s"
proof (induction s)
  case (Cons c s)
  then have "rune [c]" by (simp add: rune_def lead_def)
  then show ?case using runes_text_Cons [of "[c]" P s] Cons by simp
qed simp

lemma runes_text_chunks: "runes_text P s \<longleftrightarrow> list_all (\<lambda>c. \<exists>r. c = Rune r \<and> P r) (chunks s)"
proof
  assume "runes_text P s"
  then show "list_all (\<lambda>c. \<exists>r. c = Rune r \<and> P r) (chunks s)" by (auto simp: runes_text_def chunks_concat list_all_iff)
next
  have split: "s = concat (map (\<lambda>c. case c of Rune r \<Rightarrow> r | Bad_Byte b \<Rightarrow> [b]) (chunks s))" for s
  proof (induction s rule: chunks.induct)
    case (2 c s)
    then show ?case by (auto split: nat.splits)
  qed simp
  assume a: "list_all (\<lambda>c. \<exists>r. c = Rune r \<and> P r) (chunks s)"
  let ?rs = "map (\<lambda>c. case c of Rune r \<Rightarrow> r | Bad_Byte b \<Rightarrow> [b]) (chunks s)"
  have "list_all (\<lambda>r. rune r \<and> P r) ?rs" using a by (fastforce simp: list_all_iff dest: chunks_runes)
  then show "runes_text P s" using split [of s] runes_textI [of P ?rs] by simp
qed

lemma valid_utf8_iff: "valid_utf8 s \<longleftrightarrow> runes_text (\<lambda>r. True) s"
  by (auto simp: valid_utf8_def runes_text_chunks list_all_iff split: chunk.splits) (metis chunk.exhaust)

lemma runes_text_mono: "runes_text P s \<Longrightarrow> (\<And>r. P r \<Longrightarrow> Q r) \<Longrightarrow> runes_text Q s"
  by (auto simp: runes_text_chunks list_all_iff)

text \<open>A valid prefix of a valid text leaves a valid text.\<close>

lemma runes_text_drop:
  assumes "runes_text Q a" and "runes_text P (a @ b)"
  shows "runes_text P b"
proof -
  have chunks_app: "chunks (concat rs @ b) = map Rune rs @ chunks b" if "list_all rune rs" for rs
    using that by (induction rs) (simp_all add: chunks_rune)
  obtain rs where "a = concat rs" "list_all rune rs" using assms(1) by (auto simp: runes_text_def list_all_iff)
  then show ?thesis using assms(2) chunks_app [of rs] by (simp add: runes_text_chunks)
qed

lemma runes_text_split: "runes_text P s \<Longrightarrow> s \<noteq> [] \<Longrightarrow> \<exists>r t. s = r @ t \<and> rune r \<and> P r \<and> runes_text P t"
proof -
  assume "runes_text P s" "s \<noteq> []"
  then obtain rs where rs: "s = concat rs" "list_all (\<lambda>r. rune r \<and> P r) rs" by (auto simp: runes_text_def)
  then obtain r rs' where "rs = r # rs'" using \<open>s \<noteq> []\<close> by (cases rs) auto
  then show ?thesis using rs runes_textI [of P rs'] by auto
qed

lemma concat_map_concat: "concat (concat (map f xs)) = concat (map (\<lambda>x. concat (f x)) xs)"
  by (induction xs) auto

lemma to_valid_runes: "runes_text (\<lambda>r. True) (to_valid s)"
proof -
  have "list_all (\<lambda>r. rune r) (concat (map (\<lambda>c. case c of Rune r \<Rightarrow> [r] | Bad_Byte b \<Rightarrow> []) (chunks s)))"
    by (auto simp: list_all_iff dest: chunks_runes split: chunk.splits)
  moreover have "to_valid s = concat (concat (map (\<lambda>c. case c of Rune r \<Rightarrow> [r] | Bad_Byte b \<Rightarrow> []) (chunks s)))"
    unfolding to_valid_def concat_map_concat by (rule arg_cong [where f = concat]) (auto split: chunk.splits)
  ultimately show ?thesis using runes_textI [of "\<lambda>r. True"] by simp
qed

lemma rune_replacement: "rune replacement_rune"
  by code_simp

abbreviation plain_text :: "string \<Rightarrow> bool" where
  "plain_text \<equiv> runes_text (\<lambda>r. \<not> control_text r)"

lemma rune_chunk_text: "c \<in> set (chunks s) \<Longrightarrow> rune (chunk_text c)"
  by (cases c) (auto simp: rune_replacement chunks_runes)

lemma strip_control_plain: "plain_text (strip_control s)"
proof -
  have "list_all (\<lambda>r. rune r \<and> \<not> control_text r) (map chunk_text (filter (\<lambda>c. \<not> control_text (chunk_text c)) (chunks s)))"
    by (auto simp: list_all_iff rune_chunk_text)
  then show ?thesis unfolding strip_control_def by (rule runes_textI)
qed

lemma strip_control_id: "plain_text s \<Longrightarrow> strip_control s = s"
proof -
  assume "plain_text s"
  then obtain rs where "s = concat rs" "list_all (\<lambda>r. rune r \<and> \<not> control_text r) rs" by (auto simp: runes_text_def)
  then show ?thesis by (auto simp: strip_control_def chunks_concat list_all_iff filter_map comp_def cong: filter_cong)
qed

lemma cut_runes_prefix: "valid_utf8 s \<Longrightarrow> \<exists>t. s = cut_runes n s @ t"
proof -
  assume "valid_utf8 s"
  then obtain rs where "s = concat rs" "list_all rune rs" by (auto simp: valid_utf8_iff runes_text_def)
  then have "cut_runes n s = (if n < length rs then concat (take n rs) else concat rs)"
    by (simp add: cut_runes_def chunks_concat take_map comp_def)
  then show ?thesis using \<open>s = concat rs\<close> by (metis append_Nil2 append_take_drop_id concat_append)
qed

lemma to_valid_id: "runes_text P s \<Longrightarrow> to_valid s = s"
proof -
  assume "runes_text P s"
  then obtain rs where rs: "s = concat rs" "list_all (\<lambda>r. rune r \<and> P r) rs" by (auto simp: runes_text_def)
  then have "chunks s = map Rune rs" using chunks_concat [of rs] by (auto simp: list_all_iff)
  then show ?thesis using rs(1) by (simp add: to_valid_def comp_def)
qed

lemma cut_runes_short: "runes_text P s \<Longrightarrow> length s \<le> n \<Longrightarrow> cut_runes n s = s"
proof -
  assume p: "runes_text P s" and n: "length s \<le> n"
  obtain rs where rs: "s = concat rs" "list_all rune rs" using p by (auto simp: runes_text_def list_all_iff)
  have "length rs \<le> length (concat rs)" using rs(2)
  proof (induction rs)
    case (Cons r rs)
    then show ?case by (cases r) (auto simp: rune_def)
  qed simp
  then show ?thesis using n rs by (simp add: cut_runes_def chunks_concat)
qed

lemma cut_runes_plain: "runes_text P s \<Longrightarrow> runes_text P (cut_runes n s)"
proof -
  assume "runes_text P s"
  then obtain rs where rs: "s = concat rs" "list_all (\<lambda>r. rune r \<and> P r) rs" by (auto simp: runes_text_def)
  then have "cut_runes n s = concat (take n rs)"
    by (auto simp: cut_runes_def chunks_concat take_map comp_def list_all_iff)
  moreover have "list_all (\<lambda>r. rune r \<and> P r) (take n rs)" using rs(2) by (auto simp: list_all_iff dest: in_set_takeD)
  ultimately show ?thesis using runes_textI [of P "take n rs"] by simp
qed

lemma cut_runes_length: "valid_utf8 s \<Longrightarrow> length (chunks (cut_runes n s)) \<le> n"
proof -
  assume "valid_utf8 s"
  then obtain rs where rs: "s = concat rs" "list_all rune rs" by (auto simp: valid_utf8_iff runes_text_def)
  then have "list_all rune (take n rs)" by (auto simp: list_all_iff dest: in_set_takeD)
  then show ?thesis using rs by (auto simp: cut_runes_def chunks_concat take_map comp_def)
qed

subsection \<open>Replacing\<close>

lemma contains_str_iff: "contains_str p s \<longleftrightarrow> sublist p s"
  by (force simp: contains_str_def list_ex_iff has_prefix_iff sublist_def suffix_def)

text \<open>A text \<open>w\<close> and a marker that overlap in no way.\<close>

definition apart :: "string \<Rightarrow> string \<Rightarrow> bool" where
  "apart w m \<longleftrightarrow> w \<noteq> [] \<and> \<not> contains_str w m \<and> \<not> contains_str m w
     \<and> list_all (\<lambda>y. y = [] \<or> \<not> has_prefix y m) (suffixes w)
     \<and> list_all (\<lambda>x. x = [] \<or> \<not> has_suffix x m) (prefixes w)"

lemma apart_iff: "apart w m \<longleftrightarrow> w \<noteq> [] \<and> \<not> sublist w m \<and> \<not> sublist m w
    \<and> (\<forall>y. suffix y w \<longrightarrow> prefix y m \<longrightarrow> y = []) \<and> (\<forall>x. prefix x w \<longrightarrow> suffix x m \<longrightarrow> x = [])"
  by (auto simp: apart_def contains_str_iff list_all_iff has_prefix_iff has_suffix_iff prefix_def suffix_def)

lemma sublist_around:
  assumes "sublist w (g @ m @ s)" and "apart w m"
  shows "sublist w g \<or> sublist w s"
proof -
  have a: "w \<noteq> []" "\<not> sublist w m" "\<not> sublist m w" "\<And>y. suffix y w \<Longrightarrow> prefix y m \<Longrightarrow> y = []"
    "\<And>x. prefix x w \<Longrightarrow> suffix x m \<Longrightarrow> x = []"
    using assms(2) by (auto simp: apart_iff)
  have ms: "sublist w s" if h: "sublist w (m @ s)"
  proof -
    consider "sublist w s" | x y where "w = x @ y" "suffix x m" "prefix y s"
      using h a(2) by (auto simp: sublist_append)
    then show ?thesis
    proof cases
      case 2
      then have "x = []" using a(5) [of x] by simp
      then show ?thesis using 2 by (simp add: prefix_imp_sublist)
    qed
  qed
  consider "sublist w g" | "sublist w (m @ s)" | x y where "w = x @ y" "suffix x g" "prefix y (m @ s)"
    using assms(1) by (auto simp: sublist_append)
  then show ?thesis
  proof cases
    case 3
    then consider "prefix y m" | z where "y = m @ z" by (auto simp: prefix_append)
    then show ?thesis
    proof cases
      case 1
      then have "y = []" using a(4) [of y] 3 by (simp add: suffix_def)
      then show ?thesis using 3 by (simp add: suffix_imp_sublist)
    next
      case 2
      then show ?thesis using a(3) 3 by (auto simp: sublist_def)
    qed
  qed (auto intro: ms)
qed

text \<open>\<open>replaced m P s s'\<close>: pieces of \<open>s\<close> were replaced by \<open>m\<close>, and \<open>P\<close> holds of each gap between them.\<close>

inductive replaced :: "string \<Rightarrow> (string \<Rightarrow> bool) \<Rightarrow> string \<Rightarrow> string \<Rightarrow> bool" for m P where
  rest: "P s \<Longrightarrow> replaced m P s s"
| piece: "P g \<Longrightarrow> replaced m P s s' \<Longrightarrow> replaced m P (g @ x @ s) (g @ m @ s')"

lemma replaced_absent: "replaced m P s s' \<Longrightarrow> apart w m \<Longrightarrow> (\<And>g. P g \<Longrightarrow> \<not> sublist w g) \<Longrightarrow> \<not> sublist w s'"
  by (induction rule: replaced.induct) (auto dest: sublist_around)

lemma replaced_mono: "replaced m P s s' \<Longrightarrow> (\<And>g. P g \<Longrightarrow> sublist g s \<Longrightarrow> Q g) \<Longrightarrow> replaced m Q s s'"
proof (induction rule: replaced.induct)
  case (piece g s s' x)
  have "sublist g (g @ x @ s)" by (simp add: prefix_imp_sublist)
  moreover have "sublist h (g @ x @ s)" if "sublist h s" for h using that by (simp add: sublist_append)
  ultimately show ?case using piece by (auto intro!: replaced.piece)
qed (auto intro: replaced.rest)

lemma replaced_kept: "replaced m P s s' \<Longrightarrow> apart w m \<Longrightarrow> \<not> sublist w s \<Longrightarrow> \<not> sublist w s'"
proof -
  assume r: "replaced m P s s'" and a: "apart w m" and w: "\<not> sublist w s"
  have "replaced m (\<lambda>g. \<not> sublist w g) s s'"
    using w by (intro replaced_mono [OF r]) (auto dest: sublist_order.order_trans)
  then show "\<not> sublist w s'" using a by (rule replaced_absent) simp
qed

text \<open>What \<open>replace_all\<close> does is such a replacement, with gaps that do not hold the old text.\<close>

lemma no_start_no_sublist:
  assumes "old \<noteq> []" and "\<forall>k < length g. \<not> prefix old (drop k (g @ s))"
  shows "\<not> sublist old g"
proof
  assume "sublist old g"
  then obtain a b where g: "g = a @ old @ b" by (auto simp: sublist_def)
  then have "length a < length g" using assms(1) by simp
  then have "\<not> prefix old (drop (length a) (g @ s))" using assms(2) by blast
  then show False using g by simp
qed

lemma replace_all_replaced_from:
  assumes "old \<noteq> []" and "\<forall>k < length g. \<not> prefix old (drop k (g @ s))"
  shows "replaced new (\<lambda>h. \<not> sublist old h) (g @ s) (g @ replace_all old new s)"
  using assms
proof (induction old new s arbitrary: g rule: replace_all.induct)
  case (1 old new)
  have "\<not> sublist old g" using 1 by (rule no_start_no_sublist)
  then show ?case by (simp add: replaced.rest)
next
  case (2 old new c s)
  have gap: "\<not> sublist old g" using 2(3,4) by (rule no_start_no_sublist)
  show ?case
  proof (cases "has_prefix old (c # s)")
    case True
    then have s: "c # s = old @ drop (length old) (c # s)" by (auto simp: has_prefix_iff)
    have "replaced new (\<lambda>h. \<not> sublist old h) (drop (length old) (c # s)) (replace_all old new (drop (length old) (c # s)))"
      using 2(1) [of "[]"] 2(3) True by simp
    then have "replaced new (\<lambda>h. \<not> sublist old h) (g @ old @ drop (length old) (c # s))
        (g @ new @ replace_all old new (drop (length old) (c # s)))" using gap by (intro replaced.piece)
    then show ?thesis using True 2(3) s by simp
  next
    case False
    have "\<forall>k < length (g @ [c]). \<not> prefix old (drop k ((g @ [c]) @ s))"
      using 2(4) False by (auto simp: less_Suc_eq has_prefix_iff prefix_def)
    then have "replaced new (\<lambda>h. \<not> sublist old h) ((g @ [c]) @ s) ((g @ [c]) @ replace_all old new s)"
      using 2(2) [of "g @ [c]"] False 2(3) by blast
    then show ?thesis using False by simp
  qed
qed

lemma replace_all_replaced: "old \<noteq> [] \<Longrightarrow> replaced new (\<lambda>h. \<not> sublist old h) s (replace_all old new s)"
  using replace_all_replaced_from [of old "[]" s new] by simp

lemma replace_all_removes: "apart old new \<Longrightarrow> \<not> sublist old (replace_all old new s)"
  by (rule replaced_absent [OF replace_all_replaced]) (auto simp: apart_iff)

lemma replace_all_keeps_absent: "old \<noteq> [] \<Longrightarrow> apart w new \<Longrightarrow> \<not> sublist w s \<Longrightarrow> \<not> sublist w (replace_all old new s)"
  by (rule replaced_kept [OF replace_all_replaced])

text \<open>Valid text stays valid.\<close>

lemma replace_all_skip:
  assumes "old = c # o'" and "list_all (\<lambda>d. d \<noteq> c) t"
  shows "replace_all old new (t @ s) = t @ replace_all old new s"
  using assms by (induction t) auto

lemma replace_all_runes:
  assumes "valid_utf8 old" and "runes_text P new"
  shows "runes_text P s \<Longrightarrow> runes_text P (replace_all old new s)"
proof (induction "length s" arbitrary: s rule: less_induct)
  case less
  show ?case
  proof (cases s)
    case (Cons c s')
    show ?thesis
    proof (cases "old \<noteq> [] \<and> has_prefix old s")
      case True
      then have s: "s = old @ drop (length old) s" by (auto simp: has_prefix_iff)
      then have "runes_text P (drop (length old) s)"
        using runes_text_drop [of "\<lambda>r. True" old P "drop (length old) s"] assms(1) less.prems by (simp add: valid_utf8_iff)
      moreover have "length (drop (length old) s) < length s" using Cons True by simp
      ultimately have "runes_text P (replace_all old new (drop (length old) s))" using less.hyps by blast
      then show ?thesis using Cons True runes_text_append [OF assms(2)] by simp
    next
      case False
      obtain r t where rt: "s = r @ t" "rune r" "P r" "runes_text P t" using runes_text_split [OF less.prems] Cons by auto
      obtain u where u: "r = c # u" using rt Cons by (cases r) (auto simp: rune_def)
      have "replace_all old new s = c # replace_all old new (u @ t)"
        by (cases "old = []") (use Cons False rt u in auto)
      also have "replace_all old new (u @ t) = u @ replace_all old new t"
      proof (cases old)
        case Nil
        have "replace_all [] new x = x" for x by (induction x) auto
        then show ?thesis using Nil by simp
      next
        case (Cons d o')
        obtain r0 t0 where "old = r0 @ t0" "rune r0" using runes_text_split [of "\<lambda>r. True" old] assms(1) Cons by (auto simp: valid_utf8_iff)
        then have "rune (d # tl r0)" using Cons by (cases r0) (auto simp: rune_def)
        then have "\<not> continuation d" by (rule rune_head)
        then have "list_all (\<lambda>e. e \<noteq> d) u" using rune_tail [of c u] rt(2) u by (auto simp: list_all_iff)
        then show ?thesis using replace_all_skip [OF Cons] by blast
      qed
      finally have "replace_all old new s = r @ replace_all old new t" using u by simp
      moreover have "runes_text P (replace_all old new t)" using less.hyps [of t] rt(1,4) u by simp
      ultimately show ?thesis using rt(2,3) runes_text_Cons by simp
    qed
  qed simp
qed

lemma sublist_cut: "valid_utf8 s \<Longrightarrow> \<not> sublist w s \<Longrightarrow> \<not> sublist w (cut_runes n s)"
  using cut_runes_prefix [of s n] by (metis sublist_append)

end
