(* ===== verification/Nexus_Client.thy ===== *)
theory Nexus_Client
  imports Importer_Publish Importer_Settings Go_Text Go_Paths
begin

text \<open>
  \<^verbatim>\<open>internal/nexus/client.go\<close>: the client of one hosted npm repository, as the publisher that
  \<^verbatim>\<open>internal/importer/publish.go\<close> calls. The network is a state that answers one request at a time; certificates,
  JSON and the framing of a multipart form are the standard library's. A writer of \<^verbatim>\<open>Fetch\<close> and a reader of \<^verbatim>\<open>Upload\<close> that fail are faults of the disk and
  stand in the publishing component.
\<close>

subsection \<open>Text for URLs and headers\<close>

text \<open>The path of a URL as \<^verbatim>\<open>URL.String\<close> writes it, and \<^verbatim>\<open>url.QueryEscape\<close>.\<close>

definition path_text :: "string \<Rightarrow> string" where
  "path_text = escape_with (\<lambda>c. is_alnum c \<or> c \<in> set ''-_.~$&+,/:;=@'')"

definition query_escape :: "string \<Rightarrow> string" where
  "query_escape s = concat (map (\<lambda>c. if is_alnum c \<or> c \<in> set ''-_.~'' then [c]
     else if c = CHR '' '' then ''+'' else percent c) s)"

text \<open>\<^verbatim>\<open>base64.StdEncoding\<close>.\<close>

definition b64_digit :: "nat \<Rightarrow> char" where
  "b64_digit n = (if n < 26 then char_of (65 + n) else if n < 52 then char_of (71 + n)
     else if n < 62 then char_of (n - 4) else if n = 62 then CHR ''+'' else CHR ''/'')"

fun b64_encode :: "string \<Rightarrow> string" where
  "b64_encode [] = []"
| "b64_encode [a] = [b64_digit (of_char a div 4), b64_digit (of_char a mod 4 * 16), CHR ''='', CHR ''='']"
| "b64_encode [a, b] = [b64_digit (of_char a div 4), b64_digit (of_char a mod 4 * 16 + of_char b div 16),
     b64_digit (of_char b mod 16 * 4), CHR ''='']"
| "b64_encode (a # b # c # s) = [b64_digit (of_char a div 4), b64_digit (of_char a mod 4 * 16 + of_char b div 16),
     b64_digit (of_char b mod 16 * 4 + of_char c div 64), b64_digit (of_char c mod 64)] @ b64_encode s"

subsection \<open>The network\<close>

datatype http_body = No_Body | Form_File string string bytes

record nexus_request =
  nr_method :: string
  nr_target :: string
  nr_auth :: string
  nr_body :: http_body

text \<open>The bytes of an answer up to its end or an error of the read.\<close>

record nexus_response =
  ns_status :: int
  ns_body :: bytes
  ns_error :: "string option"

record nexus_repo =
  rp_repo :: string
  rp_format :: string
  rp_type :: string

text \<open>\<open>nh_send\<close> sends a request, \<open>nh_done\<close> is one look at \<^verbatim>\<open>ctx.Err\<close>, \<open>nh_valid\<close> says whether
  \<^verbatim>\<open>http.NewRequest\<close> takes a URL, and \<open>nh_repos\<close> decodes a listing.\<close>

record 'w nexus_http =
  nh_send :: "nexus_request \<Rightarrow> 'w \<Rightarrow> (string + nexus_response) \<times> 'w"
  nh_done :: "'w \<Rightarrow> string option \<times> 'w"
  nh_valid :: "string \<Rightarrow> string option"
  nh_repos :: "bytes \<Rightarrow> string option \<Rightarrow> nexus_repo list option"

subsection \<open>The client\<close>

definition max_message_chars :: nat where "max_message_chars = 300"
definition max_error_body :: nat where "max_error_body = 8192"
definition max_repository_list :: nat where "max_repository_list = 1048576"

record nexus_config =
  nc_url :: "go_url option"
  nc_repository :: string
  nc_user :: string
  nc_password :: bytes
  nc_ca :: string

record nexus_client =
  nx_base :: go_url
  nx_repo :: string
  nx_user :: string
  nx_pass :: bytes
  nx_secrets :: "string list"

definition basic_of :: "string \<Rightarrow> bytes \<Rightarrow> string" where
  "basic_of user pass = b64_encode (user @ '':'' @ pass)"

text \<open>\<open>roots\<close> is an error of the system's certificates, \<open>read\<close> reads a CA file and \<open>pem\<close> says whether it
  holds a certificate.\<close>

definition new_nexus :: "string option \<Rightarrow> (string \<Rightarrow> string + bytes) \<Rightarrow> (bytes \<Rightarrow> bool) \<Rightarrow> (string \<Rightarrow> string) \<Rightarrow> nexus_config
    \<Rightarrow> string + nexus_client" where
  "new_nexus roots read pem quote cfg = (case nc_url cfg of
     None \<Rightarrow> Inl ''nexus url must be http or https with a host''
   | Some u \<Rightarrow>
       if gu_host u = '''' \<or> gu_scheme u \<noteq> ''http'' \<and> gu_scheme u \<noteq> ''https''
       then Inl ''nexus url must be http or https with a host''
       else if nc_repository cfg = '''' then Inl ''nexus repository is empty''
       else try_bind (case roots of Some e \<Rightarrow> Inl (''load system certificates: '' @ e) | None \<Rightarrow> Inr ()) (\<lambda>_.
       try_bind (if nc_ca cfg = '''' then Inr () else (case read (nc_ca cfg) of
           Inl e \<Rightarrow> Inl (''read CA file '' @ quote (nc_ca cfg) @ '': '' @ e)
         | Inr bs \<Rightarrow> guard_err (pem bs) (''CA file '' @ quote (nc_ca cfg) @ '' holds no certificate''))) (\<lambda>_.
       Inr \<lparr>nx_base = u\<lparr>gu_user := False, gu_query := '''', gu_fragment := ''''\<rparr>, nx_repo = nc_repository cfg, nx_user = nc_user cfg,
         nx_pass = nc_password cfg,
         nx_secrets = (if nc_password cfg = [] then [] else [basic_of (nc_user cfg) (nc_password cfg), nc_password cfg])\<rparr>)))"

definition nexus_scrub :: "nexus_client \<Rightarrow> string \<Rightarrow> string" where
  "nexus_scrub c s = foldl (\<lambda>s secret. replace_all secret redacted s) s (nx_secrets c)"

definition nexus_clean :: "nexus_client \<Rightarrow> string \<Rightarrow> string" where
  "nexus_clean c s = cut_runes max_message_chars (nexus_scrub c (strip_control (to_valid s)))"

text \<open>The errors of a call: one whose text is the program's own, an answer that is not a success, a
  transport error, the end of the context.\<close>

datatype nexus_error = Nx_Own string | Nx_Answer int string | Nx_Unreachable string | Nx_Request string | Nx_Ended string
  | Nx_Not_Npm string string

fun nexus_error_text :: "(string \<Rightarrow> string) \<Rightarrow> nexus_client \<Rightarrow> nexus_error \<Rightarrow> string" where
  "nexus_error_text quote c (Nx_Own e) = e"
| "nexus_error_text quote c (Nx_Answer n m) = ''nexus answered '' @ show_int n @ (if m = '''' then '''' else '': '' @ m)"
| "nexus_error_text quote c (Nx_Unreachable e) = ''nexus unreachable: '' @ e"
| "nexus_error_text quote c (Nx_Request e) = ''nexus request: '' @ e"
| "nexus_error_text quote c (Nx_Ended e) = e"
| "nexus_error_text quote c (Nx_Not_Npm fmt ty) =
     ''nexus repository '' @ quote (nx_repo c) @ '' is '' @ fmt @ '' '' @ ty @ '', not npm hosted''"

definition endpoint :: "nexus_client \<Rightarrow> string \<Rightarrow> string \<Rightarrow> string" where
  "endpoint c path query = (let u = nx_base c in
     gu_scheme u @ ''://'' @ gu_host u @ path_text (trim_suffix ''/'' (gu_path u) @ path)
       @ (if gu_force u \<or> query \<noteq> '''' then ''?'' @ query else ''''))"

definition nexus_do :: "nexus_client \<Rightarrow> 'w nexus_http \<Rightarrow> string \<Rightarrow> string \<Rightarrow> http_body \<Rightarrow> 'w
    \<Rightarrow> (nexus_error + nexus_response) \<times> 'w" where
  "nexus_do c net method target body w = (case nh_valid net target of
     Some e \<Rightarrow> (Inl (Nx_Request (nexus_clean c e)), w)
   | None \<Rightarrow>
      (case nh_send net \<lparr>nr_method = method, nr_target = target, nr_auth = ''Basic '' @ basic_of (nx_user c) (nx_pass c), nr_body = body\<rparr> w of
         (Inr resp, w1) \<Rightarrow> (Inr resp, w1)
       | (Inl e, w1) \<Rightarrow> (case nh_done net w1 of
           (Some why, w2) \<Rightarrow> (Inl (Nx_Ended why), w2)
         | (None, w2) \<Rightarrow> (Inl (Nx_Unreachable (nexus_clean c e)), w2))))"

definition status_error :: "nexus_client \<Rightarrow> nexus_response \<Rightarrow> nexus_error" where
  "status_error c resp = Nx_Answer (ns_status resp) (nexus_clean c (take max_error_body (ns_body resp)))"

subsection \<open>Its three calls\<close>

fun find_repository :: "nexus_client \<Rightarrow> (string \<Rightarrow> string) \<Rightarrow> nexus_repo list \<Rightarrow> nexus_error option" where
  "find_repository c quote [] = Some (Nx_Own (''nexus repository '' @ quote (nx_repo c) @ '' not found''))"
| "find_repository c quote (r # rs) =
     (if rp_repo r \<noteq> nx_repo c then find_repository c quote rs
      else if rp_format r \<noteq> ''npm'' \<or> rp_type r \<noteq> ''hosted''
      then Some (Nx_Not_Npm (nexus_clean c (rp_format r)) (nexus_clean c (rp_type r))) else None)"

text \<open>A reader behind \<^verbatim>\<open>io.LimitReader\<close>: the bytes within the limit, and the error if it comes before.\<close>

definition limited :: "int \<Rightarrow> nexus_response \<Rightarrow> bytes \<times> string option" where
  "limited n resp = (take (nat n) (ns_body resp), if nat n \<le> length (ns_body resp) then None else ns_error resp)"

definition check_repository :: "nexus_client \<Rightarrow> 'w nexus_http \<Rightarrow> (string \<Rightarrow> string) \<Rightarrow> 'w \<Rightarrow> nexus_error option \<times> 'w" where
  "check_repository c net quote w = (case nexus_do c net ''GET'' (endpoint c ''/service/rest/v1/repositories'' '''') No_Body w of
     (Inl e, w1) \<Rightarrow> (Some e, w1)
   | (Inr resp, w1) \<Rightarrow>
       if ns_status resp \<noteq> 200 then (Some (status_error c resp), w1)
       else (case limited (int max_repository_list) resp of (bs, err) \<Rightarrow> (case nh_repos net bs err of
           None \<Rightarrow> (Some (Nx_Own ''nexus repository list is not readable JSON''), w1)
         | Some repos \<Rightarrow> (find_repository c quote repos, w1))))"

definition plain_segment :: "string \<Rightarrow> bool" where
  "plain_segment s \<longleftrightarrow> s \<noteq> '''' \<and> list_all (\<lambda>c. c \<notin> set [CHR 0x5C, CHR ''?'', CHR ''#'', CHR ''%'']) s \<and> \<not> contains_str ''..'' s"

definition tarball_target :: "nexus_client \<Rightarrow> string \<Rightarrow> string \<Rightarrow> string" where
  "tarball_target c name version = endpoint c (tarball_url (''/repository/'' @ nx_repo c) name version) ''''"

text \<open>Found is false with an error of the call, and true with one of the copy; the caller looks at the error
  first. \<open>Inr None\<close> is an answer that the version is absent.\<close>

definition nexus_fetch :: "nexus_client \<Rightarrow> 'w nexus_http \<Rightarrow> string \<Rightarrow> string \<Rightarrow> int \<Rightarrow> 'w
    \<Rightarrow> (nexus_error + bytes option) \<times> 'w" where
  "nexus_fetch c net name version limit w =
     (if \<not> plain_segment name \<or> \<not> plain_segment version
      then (Inl (Nx_Own ''package name or version is not usable in a URL path''), w)
      else (case nexus_do c net ''GET'' (tarball_target c name version) No_Body w of
        (Inl e, w1) \<Rightarrow> (Inl e, w1)
      | (Inr resp, w1) \<Rightarrow>
          if ns_status resp = 404 then (Inr None, w1)
          else if ns_status resp \<noteq> 200 then (Inl (status_error c resp), w1)
          else (case limited (limit + 1) resp of
              (bs, Some e) \<Rightarrow> (Inl (Nx_Unreachable (nexus_clean c e)), w1)
            | (bs, None) \<Rightarrow>
                if limit < int (length bs) then (Inl (Nx_Own (''nexus copy is larger than '' @ show_int limit @ '' bytes'')), w1)
                else (Inr (Some bs), w1))))"

definition upload_target :: "nexus_client \<Rightarrow> string" where
  "upload_target c = endpoint c ''/service/rest/v1/components'' (''repository='' @ query_escape (nx_repo c))"

definition nexus_upload :: "nexus_client \<Rightarrow> 'w nexus_http \<Rightarrow> string \<Rightarrow> bytes \<Rightarrow> 'w \<Rightarrow> nexus_error option \<times> 'w" where
  "nexus_upload c net f data w = (case nexus_do c net ''POST'' (upload_target c) (Form_File ''npm.asset'' f data) w of
     (Inl e, w1) \<Rightarrow> (Some e, w1)
   | (Inr resp, w1) \<Rightarrow>
       if ns_status resp < 200 \<or> 299 < ns_status resp then (Some (status_error c resp), w1) else (None, w1))"

text \<open>The client as the publisher of an import.\<close>

definition nexus_publisher :: "nexus_client \<Rightarrow> 'w nexus_http \<Rightarrow> (string \<Rightarrow> string) \<Rightarrow> 'w publisher" where
  "nexus_publisher c net quote =
     \<lparr>pb_check = (\<lambda>w. case check_repository c net quote w of (e, w') \<Rightarrow> (map_option (nexus_error_text quote c) e, w')),
      pb_fetch = (\<lambda>n v limit w. case nexus_fetch c net n v limit w of (r, w') \<Rightarrow> (map_sum (nexus_error_text quote c) (\<lambda>x. x) r, w')),
      pb_upload = (\<lambda>f d w. case nexus_upload c net f d w of (e, w') \<Rightarrow> (map_option (nexus_error_text quote c) e, w')),
      pb_done = (\<lambda>w. case nh_done net w of (e, w') \<Rightarrow> (e \<noteq> None, w'))\<rparr>"

subsection \<open>What an error shows\<close>

fun shown_texts :: "nexus_error \<Rightarrow> string list" where
  "shown_texts (Nx_Answer n m) = [m]"
| "shown_texts (Nx_Unreachable e) = [e]"
| "shown_texts (Nx_Request e) = [e]"
| "shown_texts (Nx_Not_Npm fmt ty) = [fmt, ty]"
| "shown_texts (Nx_Own e) = []"
| "shown_texts (Nx_Ended e) = []"

text \<open>Every text an error takes from the network went through \<^verbatim>\<open>clean\<close>.\<close>

definition cleaned :: "nexus_client \<Rightarrow> nexus_error \<Rightarrow> bool" where
  "cleaned c e \<longleftrightarrow> (\<forall>m \<in> set (shown_texts e). \<exists>s. m = nexus_clean c s)"

lemma nexus_do_cleaned: "nexus_do c net method target body w = (Inl e, w') \<Longrightarrow> cleaned c e"
  by (auto simp: nexus_do_def cleaned_def split: option.splits prod.splits sum.splits)

lemma status_error_cleaned: "cleaned c (status_error c resp)"
  by (auto simp: cleaned_def status_error_def)

lemma find_repository_cleaned: "find_repository c quote rs = Some e \<Longrightarrow> cleaned c e"
  by (induction rs) (auto simp: cleaned_def split: if_splits)

lemma check_repository_cleaned: "check_repository c net quote w = (Some e, w') \<Longrightarrow> cleaned c e"
  by (auto simp: check_repository_def status_error_cleaned find_repository_cleaned nexus_do_cleaned
     split: prod.splits sum.splits if_splits option.splits) (simp add: cleaned_def)

lemma nexus_fetch_cleaned: "nexus_fetch c net n v limit w = (Inl e, w') \<Longrightarrow> cleaned c e"
  by (auto simp: nexus_fetch_def status_error_cleaned nexus_do_cleaned split: prod.splits sum.splits if_splits option.splits)
    (auto simp: cleaned_def)

lemma nexus_upload_cleaned: "nexus_upload c net f d w = (Some e, w') \<Longrightarrow> cleaned c e"
  by (auto simp: nexus_upload_def status_error_cleaned nexus_do_cleaned split: prod.splits sum.splits if_splits)

lemma b64_digit_ascii: "of_char (b64_digit n) < (128 :: nat)"
  by (auto simp: b64_digit_def)

lemma b64_ascii: "list_all (\<lambda>c. of_char c < (128 :: nat)) (b64_encode s)"
  by (induction s rule: b64_encode.induct) (simp_all add: b64_digit_ascii)

lemma redacted_plain: "plain_text redacted"
  unfolding redacted_def by (rule runes_text_ascii) code_simp

text \<open>Texts stay plain and short under any list of valid secrets, an empty one too.\<close>

lemma nexus_scrub_plain: "list_all valid_utf8 (nx_secrets c) \<Longrightarrow> plain_text s \<Longrightarrow> plain_text (nexus_scrub c s)"
proof -
  have "list_all valid_utf8 secrets \<Longrightarrow> plain_text s \<Longrightarrow> plain_text (foldl (\<lambda>s secret. replace_all secret redacted s) s secrets)"
    for secrets by (induction secrets arbitrary: s) (simp_all add: replace_all_runes redacted_plain)
  then show "list_all valid_utf8 (nx_secrets c) \<Longrightarrow> plain_text s \<Longrightarrow> plain_text (nexus_scrub c s)" by (simp add: nexus_scrub_def)
qed

lemma nexus_clean_plain:
  assumes "list_all valid_utf8 (nx_secrets c)"
  shows "plain_text (nexus_clean c s)" and "length (chunks (nexus_clean c s)) \<le> max_message_chars"
proof -
  have plain: "plain_text (nexus_scrub c (strip_control (to_valid s)))" by (rule nexus_scrub_plain [OF assms strip_control_plain])
  then have valid: "valid_utf8 (nexus_scrub c (strip_control (to_valid s)))" by (auto simp: valid_utf8_iff elim: runes_text_mono)
  show "plain_text (nexus_clean c s)" unfolding nexus_clean_def by (rule cut_runes_plain [OF plain])
  show "length (chunks (nexus_clean c s)) \<le> max_message_chars" unfolding nexus_clean_def by (rule cut_runes_length [OF valid])
qed

lemma nexus_clean_hides:
  assumes secrets: "nx_secrets c = [basic, password]" and valid: "valid_utf8 basic" "valid_utf8 password" and ne: "password \<noteq> []"
    and hidden: "w \<in> {basic, password}" "apart w redacted"
  shows "\<not> contains_str w (nexus_clean c s)"
proof -
  let ?a = "replace_all basic redacted (strip_control (to_valid s))" and ?b = "replace_all password redacted (replace_all basic redacted (strip_control (to_valid s)))"
  have "plain_text (nexus_scrub c (strip_control (to_valid s)))"
    by (rule nexus_scrub_plain) (simp_all add: secrets valid strip_control_plain)
  then have b: "valid_utf8 ?b" by (auto simp: valid_utf8_iff nexus_scrub_def secrets elim: runes_text_mono)
  have "\<not> sublist w ?b"
    using hidden(1) replace_all_removes [OF hidden(2)] replace_all_keeps_absent [OF ne hidden(2), of ?a] by auto
  then show ?thesis unfolding contains_str_iff nexus_clean_def nexus_scrub_def secrets by (simp add: sublist_cut [OF b])
qed

lemma new_nexus_client:
  assumes "new_nexus roots read pem quote cfg = Inr c"
  shows "nx_repo c = nc_repository cfg \<and> nx_user c = nc_user cfg \<and> nx_pass c = nc_password cfg
    \<and> nx_secrets c = (if nc_password cfg = [] then [] else [basic_of (nc_user cfg) (nc_password cfg), nc_password cfg])
    \<and> (\<exists>u. nc_url cfg = Some u \<and> nx_base c = u\<lparr>gu_user := False, gu_query := '''', gu_fragment := ''''\<rparr>)"
  using assms by (auto simp: new_nexus_def go_err split: option.splits if_splits sum.splits)

definition sample_http :: "nat nexus_http" where
  "sample_http = \<lparr>nh_send = (\<lambda>r n. (Inr \<lparr>ns_status = 401, ns_body = ''no hunter2, no bGlmdDpodW50ZXIy'', ns_error = None\<rparr>, n + 1)),
     nh_done = (\<lambda>n. (None, n)), nh_valid = (\<lambda>u. None), nh_repos = (\<lambda>b e. None)\<rparr>"

definition sample_config :: nexus_config where
  "sample_config = \<lparr>nc_url = Some (sample_url ''nexus.lan''), nc_repository = ''npm-hosted'', nc_user = ''lift'', nc_password = ''hunter2'', nc_ca = ''''\<rparr>"

definition sample_client :: nexus_client where
  "sample_client = \<lparr>nx_base = sample_url ''nexus.lan'', nx_repo = ''npm-hosted'', nx_user = ''lift'', nx_pass = ''hunter2'',
     nx_secrets = [basic_of ''lift'' ''hunter2'', ''hunter2'']\<rparr>"

lemma sample_basic: "basic_of ''lift'' ''hunter2'' = ''bGlmdDpodW50ZXIy''"
  by (simp add: basic_of_def b64_digit_def char_of_def bit_iff_odd)

lemma sample_client_new: "new_nexus None (\<lambda>_. Inl '''') (\<lambda>_. True) (\<lambda>q. q) sample_config = Inr sample_client"
  by (simp add: new_nexus_def sample_config_def sample_client_def sample_url_def)

lemma sample_401:
  "nexus_upload sample_client sample_http ''a.tgz'' ''bytes'' 0 = (Some (Nx_Answer 401 ''no [redacted], no [redacted]''), 1)"
proof -
  have "take max_error_body ''no hunter2, no bGlmdDpodW50ZXIy'' = ''no hunter2, no bGlmdDpodW50ZXIy''"
    by (rule take_all) (simp add: max_error_body_def)
  moreover have "plain_text ''no hunter2, no bGlmdDpodW50ZXIy''" "plain_text ''no [redacted], no [redacted]''"
    by (rule runes_text_ascii; code_simp)+
  moreover have "nexus_scrub sample_client ''no hunter2, no bGlmdDpodW50ZXIy'' = ''no [redacted], no [redacted]''"
    by (simp add: nexus_scrub_def sample_client_def sample_basic redacted_def)
  ultimately have "nexus_clean sample_client (take max_error_body ''no hunter2, no bGlmdDpodW50ZXIy'') = ''no [redacted], no [redacted]''"
    by (simp add: nexus_clean_def to_valid_id strip_control_id cut_runes_short max_message_chars_def)
  then show ?thesis
    by (simp add: nexus_upload_def nexus_do_def sample_http_def status_error_def)
qed

text \<open>The marker itself is text: a credential that overlaps it can stand in a cleaned answer, which is why the
  property below excepts those.\<close>

lemma marker_shows_password:
  "\<exists>c. new_nexus None (\<lambda>_. Inl '''') (\<lambda>_. True) (\<lambda>q. q) (sample_config\<lparr>nc_password := ''red''\<rparr>) = Inr c
    \<and> nexus_clean c ''bad red'' = ''bad [redacted]'' \<and> contains_str ''red'' (nexus_clean c ''bad red'')"
proof -
  let ?c = "sample_client\<lparr>nx_pass := ''red'', nx_secrets := [basic_of ''lift'' ''red'', ''red'']\<rparr>"
  have new: "new_nexus None (\<lambda>_. Inl '''') (\<lambda>_. True) (\<lambda>q. q) (sample_config\<lparr>nc_password := ''red''\<rparr>) = Inr ?c"
    by (simp add: new_nexus_def sample_config_def sample_client_def sample_url_def)
  have basic: "basic_of ''lift'' ''red'' = ''bGlmdDpyZWQ=''" by (simp add: basic_of_def b64_digit_def char_of_def bit_iff_odd)
  have "plain_text ''bad red''" "plain_text ''bad [redacted]''" by (rule runes_text_ascii; code_simp)+
  moreover have "nexus_scrub ?c ''bad red'' = ''bad [redacted]''" by (simp add: nexus_scrub_def basic redacted_def)
  ultimately have "nexus_clean ?c ''bad red'' = ''bad [redacted]''"
    by (simp add: nexus_clean_def to_valid_id strip_control_id cut_runes_short max_message_chars_def)
  moreover have "contains_str ''red'' ''bad [redacted]''" by code_simp
  ultimately show ?thesis using new by simp
qed

text \<open>C31. What an error of the Nexus client shows. With a password that is valid UTF-8, whatever Nexus or the
  network answers, every text an error of a check, a fetch or an upload takes from it has no control character
  and at most 300 runes, and holds neither the password nor the basic credential, each as long as it does not
  overlap the marker that replaces it: it is not part of \<^verbatim>\<open>[redacted]\<close>, nor the other way round, and no end of
  one is a start of the other. A client without a password has nothing to hide.\<close>

theorem nexus_errors_hide:
  assumes "new_nexus roots read pem quote cfg = Inr c" and "valid_utf8 (nc_password cfg)"
    and "check_repository c net quote w = (Some e, w') \<or> nexus_fetch c net n v limit w = (Inl e, w')
      \<or> nexus_upload c net f d w = (Some e, w')"
    and "m \<in> set (shown_texts e)"
  shows "plain_text m \<and> length (chunks m) \<le> max_message_chars
    \<and> (nc_password cfg \<noteq> [] \<longrightarrow> (\<forall>hidden \<in> {nc_password cfg, basic_of (nc_user cfg) (nc_password cfg)}.
         apart hidden redacted \<longrightarrow> \<not> contains_str hidden m))"
proof -
  have sec: "nx_secrets c = (if nc_password cfg = [] then [] else [basic_of (nc_user cfg) (nc_password cfg), nc_password cfg])"
    using new_nexus_client [OF assms(1)] by simp
  have basic: "valid_utf8 (basic_of (nc_user cfg) (nc_password cfg))"
    using runes_text_ascii [of "\<lambda>r. True"] b64_ascii by (simp add: valid_utf8_iff basic_of_def)
  have "cleaned c e"
    using assms(3) by (auto dest: check_repository_cleaned nexus_fetch_cleaned nexus_upload_cleaned)
  then obtain s where m: "m = nexus_clean c s" using assms(4) by (auto simp: cleaned_def)
  have valid: "list_all valid_utf8 (nx_secrets c)" using sec basic assms(2) by simp
  show ?thesis unfolding m
    using nexus_clean_plain [OF valid, of s] nexus_clean_hides [OF _ basic assms(2), of c _ s] sec by auto
qed

theorem nexus_errors_hide_witness:
  "\<not> contains_str ''hunter2'' ''no [redacted], no [redacted]'' \<and> \<not> contains_str ''bGlmdDpodW50ZXIy'' ''no [redacted], no [redacted]''
    \<and> plain_text ''no [redacted], no [redacted]''"
proof -
  have "list_all (\<lambda>c. of_char c < (128 :: nat)) ''hunter2''" by code_simp
  then have valid: "valid_utf8 (nc_password sample_config)"
    using runes_text_ascii [of "\<lambda>r. True"] by (simp add: valid_utf8_iff sample_config_def)
  have "apart ''hunter2'' redacted \<and> apart ''bGlmdDpodW50ZXIy'' redacted" by code_simp
  then show ?thesis
    using nexus_errors_hide [OF sample_client_new valid, of sample_http 0 "Nx_Answer 401 ''no [redacted], no [redacted]''" 1
        "''''" "''''" 0 "''a.tgz''" "''bytes''" "''no [redacted], no [redacted]''"] sample_401
    by (simp add: sample_config_def sample_basic)
qed

subsection \<open>Publishing over HTTP\<close>

text \<open>A fact of the state that every call of a publisher keeps, publishing keeps.\<close>

locale publisher_keeps =
  fixes p :: "'s publisher" and I :: "'s \<Rightarrow> bool"
  assumes check: "pb_check p s = (q, s') \<Longrightarrow> I s \<Longrightarrow> I s'"
    and fetch: "pb_fetch p n v limit s = (r, s') \<Longrightarrow> I s \<Longrightarrow> I s'"
    and upload: "pb_upload p f d s = (q, s') \<Longrightarrow> I s \<Longrightarrow> I s'"
    and look: "pb_done p s = (b, s') \<Longrightarrow> I s \<Longrightarrow> I s'"
begin

lemma kept_failed_or: "failed_or p pkg k why s = (r, s') \<Longrightarrow> I s \<Longrightarrow> I s'"
  by (auto simp: failed_or_def split: prod.splits bool.splits dest: look)

lemma kept_fetch_digest: "fetch_digest env p pkg cf limit sh s = (r, s') \<Longrightarrow> I s \<Longrightarrow> I s'"
  by (auto simp: fetch_digest_def Let_def split: option.splits prod.splits sum.splits if_splits dest: fetch)

lemma kept_read_back: "read_back env p pkg cf limit s = (r, s') \<Longrightarrow> I s \<Longrightarrow> I s'"
  by (auto simp: read_back_def split: prod.splits sum.splits option.splits if_splits dest: kept_failed_or kept_fetch_digest)

lemma kept_upload_one: "upload_one env p pkg fr pos limit s = (r, s') \<Longrightarrow> I s \<Longrightarrow> I s'"
  by (auto simp: upload_one_def Let_def split: prod.splits option.splits sum.splits if_splits dest: kept_failed_or kept_read_back upload)

lemma kept_publish_one: "publish_one env p pkg s = (r, s') \<Longrightarrow> I s \<Longrightarrow> I s'"
  by (auto simp: publish_one_def Let_def split: prod.splits option.splits sum.splits if_splits
     dest: kept_failed_or kept_upload_one kept_fetch_digest)

lemma kept_publish_rest: "publish_rest env p pkgs s = (rs, s') \<Longrightarrow> I s \<Longrightarrow> I s'"
proof (induction pkgs arbitrary: s rs)
  case (Cons pkg pkgs)
  obtain stop s1 where d: "pb_done p s = (stop, s1)" by fastforce
  obtain r s2 where o: "(if stop then (failed pkg Kind_Interrupted reason_interrupted, s1) else publish_one env p pkg s1) = (r, s2)"
    by fastforce
  have "I s2" using o look [OF d Cons.prems(2)] kept_publish_one by (auto split: if_splits)
  moreover obtain rs' where "publish_rest env p pkgs s2 = (rs', s')"
    using Cons.prems(1) d o by (auto split: prod.splits)
  ultimately show ?case using Cons.IH by blast
qed simp

lemma kept_fail_rest: "fail_rest p why pkgs s = (rs, s') \<Longrightarrow> I s \<Longrightarrow> I s'"
proof (induction pkgs arbitrary: s rs)
  case (Cons pkg pkgs)
  obtain r s1 where f: "failed_or p pkg Kind_Nexus why s = (r, s1)" by fastforce
  moreover obtain rs' where "fail_rest p why pkgs s1 = (rs', s')" using Cons.prems(1) f by (auto split: prod.splits)
  ultimately show ?case using Cons.IH kept_failed_or [OF f Cons.prems(2)] by blast
qed simp

lemma kept_publish_each: "publish_each env p pkgs s = (rs, s') \<Longrightarrow> I s \<Longrightarrow> I s'"
  by (auto simp: publish_each_def split: prod.splits option.splits dest: check kept_fail_rest kept_publish_rest)

end

text \<open>The network that writes down every request and its answer.\<close>

type_synonym http_call = "nexus_request \<times> (string + nexus_response)"

definition recorded :: "'w nexus_http \<Rightarrow> ('w \<times> http_call list) nexus_http" where
  "recorded net = \<lparr>nh_send = (\<lambda>r (w, l). case nh_send net r w of (a, w') \<Rightarrow> (a, w', l @ [(r, a)])),
     nh_done = (\<lambda>(w, l). case nh_done net w of (e, w') \<Rightarrow> (e, w', l)), nh_valid = nh_valid net, nh_repos = nh_repos net\<rparr>"

definition request_of :: "nexus_client \<Rightarrow> string \<Rightarrow> string \<Rightarrow> http_body \<Rightarrow> nexus_request" where
  "request_of c method target body = \<lparr>nr_method = method, nr_target = target,
     nr_auth = ''Basic '' @ basic_of (nx_user c) (nx_pass c), nr_body = body\<rparr>"

definition get_tarball :: "nexus_client \<Rightarrow> string \<Rightarrow> string \<Rightarrow> nexus_request" where
  "get_tarball c n v = request_of c ''GET'' (tarball_target c n v) No_Body"

definition post_component :: "nexus_client \<Rightarrow> string \<Rightarrow> bytes \<Rightarrow> nexus_request" where
  "post_component c f d = request_of c ''POST'' (upload_target c) (Form_File ''npm.asset'' f d)"

text \<open>The requests behind one call of the publisher: at most one, and what its answer was.\<close>

fun http_of :: "nexus_client \<Rightarrow> net_event \<Rightarrow> http_call list \<Rightarrow> bool" where
  "http_of c Ev_Check hs \<longleftrightarrow> hs = [] \<or> (\<exists>a. hs = [(request_of c ''GET'' (endpoint c ''/service/rest/v1/repositories'' '''') No_Body, a)])"
| "http_of c (Ev_Fetch n v (Inr (Some data))) hs \<longleftrightarrow> plain_segment n \<and> plain_segment v
     \<and> (\<exists>resp. hs = [(get_tarball c n v, Inr resp)] \<and> ns_status resp = 200 \<and> ns_error resp = None \<and> ns_body resp = data)"
| "http_of c (Ev_Fetch n v (Inr None)) hs \<longleftrightarrow> plain_segment n \<and> plain_segment v
     \<and> (\<exists>resp. hs = [(get_tarball c n v, Inr resp)] \<and> ns_status resp = 404)"
| "http_of c (Ev_Fetch n v (Inl e)) hs \<longleftrightarrow> hs = [] \<or> (\<exists>a. hs = [(get_tarball c n v, a)])"
| "http_of c (Ev_Upload f d None) hs \<longleftrightarrow>
     (\<exists>resp. hs = [(post_component c f d, Inr resp)] \<and> 200 \<le> ns_status resp \<and> ns_status resp \<le> 299)"
| "http_of c (Ev_Upload f d (Some e)) hs \<longleftrightarrow> hs = [] \<or> (\<exists>a. hs = [(post_component c f d, a)])"

lemma recorded_simps [simp]:
  "nh_send (recorded net) r (w, l) = (case nh_send net r w of (a, w') \<Rightarrow> (a, w', l @ [(r, a)]))"
  "nh_done (recorded net) (w, l) = (case nh_done net w of (e, w') \<Rightarrow> (e, w', l))"
  "nh_valid (recorded net) = nh_valid net" "nh_repos (recorded net) = nh_repos net"
  by (simp_all add: recorded_def)

lemma nexus_do_recorded:
  assumes "nexus_do c (recorded net) method target body (w, l) = (r, w', l')"
  shows "(\<exists>e. r = Inl e \<and> (l' = l \<or> (\<exists>a. l' = l @ [(request_of c method target body, a)])))
    \<or> (\<exists>resp. r = Inr resp \<and> l' = l @ [(request_of c method target body, Inr resp)])"
  using assms by (auto simp: nexus_do_def request_of_def split: option.splits prod.splits sum.splits)

lemma check_recorded:
  "check_repository c (recorded net) quote (w, l) = (r, w', l') \<Longrightarrow> \<exists>hs. l' = l @ hs \<and> http_of c Ev_Check hs"
  by (auto simp: check_repository_def split: prod.splits sum.splits if_splits option.splits dest!: nexus_do_recorded)

lemma upload_recorded:
  "nexus_upload c (recorded net) f d (w, l) = (r, w', l') \<Longrightarrow> \<exists>hs. l' = l @ hs \<and> http_of c (Ev_Upload f d (map_option g r)) hs"
  by (auto simp: nexus_upload_def post_component_def split: prod.splits sum.splits if_splits option.splits dest!: nexus_do_recorded)

lemma fetch_recorded:
  "nexus_fetch c (recorded net) n v limit (w, l) = (r, w', l') \<Longrightarrow>
   \<exists>hs. l' = l @ hs \<and> http_of c (Ev_Fetch n v (map_sum g (\<lambda>x. x) r)) hs"
  by (auto simp: nexus_fetch_def get_tarball_def limited_def split: prod.splits sum.splits if_splits option.splits
     dest!: nexus_do_recorded)

fun traced :: "nexus_client \<Rightarrow> ('w \<times> http_call list) \<times> net_event list \<Rightarrow> bool" where
  "traced c ((w, h), l) \<longleftrightarrow> (\<exists>hss. list_all2 (http_of c) l hss \<and> h = concat hss)"

lemma traced_snoc: "traced c ((w, h), l) \<Longrightarrow> http_of c ev hs \<Longrightarrow> traced c ((w', h @ hs), l @ [ev])"
proof -
  assume "traced c ((w, h), l)" and e: "http_of c ev hs"
  then obtain hss where "list_all2 (http_of c) l hss" "h = concat hss" by auto
  then have "list_all2 (http_of c) (l @ [ev]) (hss @ [hs])" using e by (simp add: list_all2_appendI)
  then show ?thesis using \<open>h = concat hss\<close> by (auto intro!: exI [of _ "hss @ [hs]"])
qed

declare traced.simps [simp del]

lemma nexus_publisher_simps [simp]:
  "pb_check (nexus_publisher c net quote) w = (case check_repository c net quote w of (e, w') \<Rightarrow> (map_option (nexus_error_text quote c) e, w'))"
  "pb_fetch (nexus_publisher c net quote) n v limit w =
     (case nexus_fetch c net n v limit w of (r, w') \<Rightarrow> (map_sum (nexus_error_text quote c) (\<lambda>x. x) r, w'))"
  "pb_upload (nexus_publisher c net quote) f d w = (case nexus_upload c net f d w of (e, w') \<Rightarrow> (map_option (nexus_error_text quote c) e, w'))"
  "pb_done (nexus_publisher c net quote) w = (case nh_done net w of (e, w') \<Rightarrow> (e \<noteq> None, w'))"
  by (simp_all add: nexus_publisher_def)

interpretation nexus_trace: publisher_keeps "logged (nexus_publisher c (recorded net) quote)" "traced c" for c net quote
proof
  fix q and s s' :: "('a \<times> http_call list) \<times> net_event list"
  obtain w h l where s: "s = ((w, h), l)" by (metis surj_pair)
  obtain w' h' l' where s': "s' = ((w', h'), l')" by (metis surj_pair)
  {
    assume "pb_check (logged (nexus_publisher c (recorded net) quote)) s = (q, s')" and t: "traced c s"
    then obtain e where call: "check_repository c (recorded net) quote (w, h) = (e, w', h')" and l: "l' = l @ [Ev_Check]"
      unfolding s s' by (auto split: prod.splits)
    obtain hs where "h' = h @ hs" "http_of c Ev_Check hs" using check_recorded [OF call] by blast
    then show "traced c s'" using traced_snoc [OF t [unfolded s], of Ev_Check hs w'] l unfolding s' by simp
  next
    fix n v limit r
    assume "pb_fetch (logged (nexus_publisher c (recorded net) quote)) n v limit s = (r, s')" and t: "traced c s"
    then obtain e where call: "nexus_fetch c (recorded net) n v limit (w, h) = (e, w', h')"
      and l: "l' = l @ [Ev_Fetch n v (map_sum (nexus_error_text quote c) (\<lambda>x. x) e)]"
      unfolding s s' by (auto split: prod.splits)
    obtain hs where "h' = h @ hs" "http_of c (Ev_Fetch n v (map_sum (nexus_error_text quote c) (\<lambda>x. x) e)) hs"
      using fetch_recorded [OF call, of "nexus_error_text quote c"] by blast
    then show "traced c s'" using traced_snoc [OF t [unfolded s], of _ hs w'] l unfolding s' by simp
  next
    fix f d
    assume "pb_upload (logged (nexus_publisher c (recorded net) quote)) f d s = (q, s')" and t: "traced c s"
    then obtain e where call: "nexus_upload c (recorded net) f d (w, h) = (e, w', h')"
      and l: "l' = l @ [Ev_Upload f d (map_option (nexus_error_text quote c) e)]"
      unfolding s s' by (auto split: prod.splits)
    obtain hs where "h' = h @ hs" "http_of c (Ev_Upload f d (map_option (nexus_error_text quote c) e)) hs"
      using upload_recorded [OF call, of "nexus_error_text quote c"] by blast
    then show "traced c s'" using traced_snoc [OF t [unfolded s], of _ hs w'] l unfolding s' by simp
  next
    fix b
    assume "pb_done (logged (nexus_publisher c (recorded net) quote)) s = (b, s')" and t: "traced c s"
    then have "h' = h" "l' = l" unfolding s s' by (auto split: prod.splits)
    then show "traced c s'" using t unfolding s s' by (simp add: traced.simps)
  }
qed

text \<open>What the requests for one package show of its result.\<close>

definition http_verdict :: "'j publish_env \<Rightarrow> nexus_client \<Rightarrow> pub_package \<Rightarrow> result \<Rightarrow> http_call list \<Rightarrow> bool" where
  "http_verdict env c pkg r hs \<longleftrightarrow> (let get = get_tarball c (pp_name pkg) (pp_version pkg) in
     (rs_state r = Present \<longrightarrow> (\<exists>resp. hs = [(get, Inr resp)] \<and> ns_status resp = 200 \<and> ns_error resp = None \<and> held env pkg (ns_body resp)))
     \<and> (rs_state r = Published \<longrightarrow> (\<exists>r1 sent r2 r3.
          hs = [(get, Inr r1), (post_component c (pp_file pkg) sent, Inr r2), (get, Inr r3)] \<and> ns_status r1 = 404
          \<and> 200 \<le> ns_status r2 \<and> ns_status r2 \<le> 299 \<and> ns_status r3 = 200 \<and> ns_error r3 = None
          \<and> pe_sha512 env (ns_body r3) = pp_sha512 pkg))
     \<and> (\<forall>q a. (q, a) \<in> set hs \<longrightarrow> nr_method q \<noteq> ''GET'' \<longrightarrow> checked_tarball env pkg
          \<and> (\<exists>sent. q = post_component c (pp_file pkg) sent \<and> sent_whole env pkg sent)
          \<and> (\<exists>r1 rest. hs = (get, Inr r1) # (q, a) # rest \<and> ns_status r1 = 404 \<and> (\<forall>(q', a') \<in> set rest. nr_method q' = ''GET''))))"

lemma get_method [simp]: "nr_method (get_tarball c n v) = ''GET''" "nr_method (post_component c f d) = ''POST''"
  by (simp_all add: get_tarball_def post_component_def request_of_def)

lemma http_of_gets: "http_of c ev hs \<Longrightarrow> (\<forall>f d a. ev \<noteq> Ev_Upload f d a) \<Longrightarrow> (q, a) \<in> set hs \<Longrightarrow> nr_method q = ''GET''"
  by (cases "(c, ev, hs)" rule: http_of.cases) (auto simp: request_of_def)

lemma http_gets: "list_all2 (http_of c) evs hss \<Longrightarrow> (\<forall>f d a. Ev_Upload f d a \<notin> set evs) \<Longrightarrow> (q, a) \<in> set (concat hss)
    \<Longrightarrow> nr_method q = ''GET''"
proof (induction rule: list_all2_induct)
  case (Cons ev evs hs hss)
  then show ?case using http_of_gets [of c ev hs q a] by auto
qed simp

lemma http_verdictI:
  assumes v: "verdict_ok env pkg r evs" and h: "list_all2 (http_of c) evs hss"
  shows "http_verdict env c pkg r (concat hss)"
proof -
  let ?n = "pp_name pkg" and ?v = "pp_version pkg"
  have "\<exists>resp. concat hss = [(get_tarball c ?n ?v, Inr resp)] \<and> ns_status resp = 200 \<and> ns_error resp = None \<and> held env pkg (ns_body resp)"
    if "rs_state r = Present"
  proof -
    have "\<exists>data. evs = [Ev_Fetch ?n ?v (Inr (Some data))] \<and> held env pkg data" using v that by (simp add: verdict_ok_def)
    then obtain data where "evs = [Ev_Fetch ?n ?v (Inr (Some data))]" "held env pkg data" by blast
    then show ?thesis using h by (auto simp: list_all2_Cons1)
  qed
  moreover have "\<exists>r1 sent r2 r3. concat hss = [(get_tarball c ?n ?v, Inr r1), (post_component c (pp_file pkg) sent, Inr r2), (get_tarball c ?n ?v, Inr r3)]
      \<and> ns_status r1 = 404 \<and> 200 \<le> ns_status r2 \<and> ns_status r2 \<le> 299 \<and> ns_status r3 = 200 \<and> ns_error r3 = None
      \<and> pe_sha512 env (ns_body r3) = pp_sha512 pkg" if "rs_state r = Published"
  proof -
    have "\<exists>sent data. evs = [Ev_Fetch ?n ?v (Inr None), Ev_Upload (pp_file pkg) sent None, Ev_Fetch ?n ?v (Inr (Some data))]
      \<and> pe_sha512 env data = pp_sha512 pkg" using v that by (simp add: verdict_ok_def)
    then obtain sent data where "evs = [Ev_Fetch ?n ?v (Inr None), Ev_Upload (pp_file pkg) sent None, Ev_Fetch ?n ?v (Inr (Some data))]"
      "pe_sha512 env data = pp_sha512 pkg" by blast
    then show ?thesis using h by (auto simp: list_all2_Cons1)
  qed
  moreover have "checked_tarball env pkg \<and> (\<exists>sent. q = post_component c (pp_file pkg) sent \<and> sent_whole env pkg sent)
      \<and> (\<exists>r1 rest. concat hss = (get_tarball c ?n ?v, Inr r1) # (q, a) # rest \<and> ns_status r1 = 404
      \<and> (\<forall>(q', a') \<in> set rest. nr_method q' = ''GET''))" if q: "(q, a) \<in> set (concat hss)" "nr_method q \<noteq> ''GET''" for q a
  proof -
    obtain f d b where up: "Ev_Upload f d b \<in> set evs" using http_gets [OF h _ q(1)] q(2) by blast
    have ok: "checked_tarball env pkg \<and> sent_whole env pkg d \<and> (\<exists>answer. evs = Ev_Fetch ?n ?v (Inr None) # Ev_Upload (pp_file pkg) d b # answer
        \<and> (\<forall>f d a. Ev_Upload f d a \<notin> set answer))" using v up unfolding verdict_ok_def by blast
    then obtain answer where evs: "evs = Ev_Fetch ?n ?v (Inr None) # Ev_Upload (pp_file pkg) d b # answer"
      and no: "\<forall>f d a. Ev_Upload f d a \<notin> set answer" by blast
    then obtain h1 h2 hs where hss: "hss = h1 # h2 # hs" and o1: "http_of c (Ev_Fetch ?n ?v (Inr None)) h1"
      and o2: "http_of c (Ev_Upload (pp_file pkg) d b) h2" and o3: "list_all2 (http_of c) answer hs"
      using h by (auto simp: list_all2_Cons1)
    obtain r1 where r1: "h1 = [(get_tarball c ?n ?v, Inr r1)]" "ns_status r1 = 404" using o1 by auto
    have gets: "nr_method q' = ''GET''" if "(q', a') \<in> set (concat hs)" for q' a' using http_gets [OF o3 no that] .
    have "h2 = [(q, a)]"
      using q gets [of q a] o2 unfolding hss r1(1) by (cases b) auto
    moreover have "q = post_component c (pp_file pkg) d" using o2 calculation by (cases b) auto
    ultimately show ?thesis using ok hss r1 gets by auto
  qed
  ultimately show ?thesis unfolding http_verdict_def Let_def by blast
qed

lemma list_all2_concat1: "list_all2 R (concat xss) zs \<Longrightarrow> \<exists>zss. zs = concat zss \<and> list_all2 (list_all2 R) xss zss"
proof (induction xss arbitrary: zs)
  case (Cons xs xss)
  then obtain a b where "zs = a @ b" "list_all2 R xs a" "list_all2 R (concat xss) b" by (auto simp: list_all2_append1)
  moreover obtain zss where "b = concat zss" "list_all2 (list_all2 R) xss zss" using Cons.IH [OF calculation(3)] by blast
  ultimately show ?case by (intro exI [of _ "a # zss"]) simp
qed simp

lemma publish_each_logs: "\<exists>log. publish_each env (logged p) pkgs (s, []) = (fst (publish_each env p pkgs s), snd (publish_each env p pkgs s), log)"
proof -
  obtain rs s' log where l: "publish_each env (logged p) pkgs (s, []) = (rs, s', log)" by (metis prod_cases3)
  have "publish_each env p pkgs s = (rs, s')" using publish_each_logged [OF l] by blast
  then show ?thesis using l by simp
qed

text \<open>C15. A verdict holds down to the HTTP requests. When the import publishes with the client of \<^verbatim>\<open>internal/nexus\<close>,
  the requests are one listing of the repositories, at most, and then those of each package in order. A package is
  published only when a GET of its tarball was answered 404, a POST of its file 2xx, and a GET 200 with
  bytes of the checked sha512; present only when the one GET was answered 200 with the shipped
  content. Nothing is posted but the whole file of a package whose tarball was checked, right after the 404, and at most once.\<close>

theorem published_over_http:
  assumes "publish_each env (nexus_publisher c (recorded net) quote) pkgs (w, []) = (rs, w', calls)"
  shows "\<exists>first hss. calls = first @ concat hss \<and> http_of c Ev_Check first \<and> length hss = length pkgs
    \<and> length rs = length pkgs \<and> (\<forall>k < length pkgs. http_verdict env c (pkgs ! k) (rs ! k) (hss ! k))"
proof -
  obtain log where l: "publish_each env (logged (nexus_publisher c (recorded net) quote)) pkgs ((w, []), []) = (rs, (w', calls), log)"
    using publish_each_logs [of env "nexus_publisher c (recorded net) quote" pkgs "(w, [])"] assms by auto
  obtain evss where ev: "length rs = length pkgs" "length evss = length pkgs" "log = Ev_Check # concat evss"
    "\<forall>k < length pkgs. verdict_ok env (pkgs ! k) (rs ! k) (evss ! k)"
    using publish_each_logged [OF l] by blast
  have "traced c ((w', calls), log)" by (rule nexus_trace.kept_publish_each [OF l]) (simp add: traced.simps)
  then obtain zs where z: "list_all2 (http_of c) (Ev_Check # concat evss) zs" "calls = concat zs" using ev(3) by (auto simp: traced.simps)
  then obtain z0 zr where zs: "zs = z0 # zr" "http_of c Ev_Check z0" "list_all2 (http_of c) (concat evss) zr"
    by (auto simp: list_all2_Cons1)
  obtain zss where zss: "zr = concat zss" "list_all2 (list_all2 (http_of c)) evss zss"
    using list_all2_concat1 [OF zs(3)] by blast
  have "http_verdict env c (pkgs ! k) (rs ! k) (map concat zss ! k)" if "k < length pkgs" for k
    using http_verdictI [of env "pkgs ! k" "rs ! k" "evss ! k" c "zss ! k"] ev(2,4) zss(2) that
    by (simp add: list_all2_conv_all_nth)
  moreover have "calls = z0 @ concat (map concat zss)" using z(2) zs(1) zss(1) concat_map_concat [of "\<lambda>x. x" zss] by simp
  moreover have "length (map concat zss) = length pkgs" using ev(2) zss(2) by (simp add: list_all2_lengthD)
  ultimately show ?thesis using zs(2) ev(1) by blast
qed

text \<open>A repository that keeps one tarball.\<close>

definition ok_response :: "int \<Rightarrow> bytes \<Rightarrow> nexus_response" where
  "ok_response n b = \<lparr>ns_status = n, ns_body = b, ns_error = None\<rparr>"

definition repos_target :: string where
  "repos_target = endpoint sample_client ''/service/rest/v1/repositories'' ''''"

definition sample_hub :: "bytes option nexus_http" where
  "sample_hub = \<lparr>nh_send = (\<lambda>r held. case nr_body r of
       Form_File n f d \<Rightarrow> (Inr (ok_response 201 ''''), Some d)
     | No_Body \<Rightarrow> (Inr (if nr_target r = repos_target then ok_response 200 ''repos''
         else case held of None \<Rightarrow> ok_response 404 '''' | Some d \<Rightarrow> ok_response 200 d), held)),
     nh_done = (\<lambda>w. (None, w)), nh_valid = (\<lambda>u. None),
     nh_repos = (\<lambda>b e. Some [\<lparr>rp_repo = ''npm-hosted'', rp_format = ''npm'', rp_type = ''hosted''\<rparr>])\<rparr>"

abbreviation hub_publisher :: "(bytes option \<times> http_call list) publisher" where
  "hub_publisher \<equiv> nexus_publisher sample_client (recorded sample_hub) (\<lambda>q. q)"

lemma hub_targets: "tarball_target sample_client ''a'' ''1.0.0'' \<noteq> repos_target" "plain_segment ''a''" "plain_segment ''1.0.0''"
  by code_simp+

lemma hub_fetch:
  "nexus_fetch sample_client (recorded sample_hub) ''a'' ''1.0.0'' limit (None, l)
     = (Inr None, None, l @ [(get_tarball sample_client ''a'' ''1.0.0'', Inr (ok_response 404 ''''))])"
  "int (length d) \<le> limit \<Longrightarrow> nexus_fetch sample_client (recorded sample_hub) ''a'' ''1.0.0'' limit (Some d, l)
     = (Inr (Some d), Some d, l @ [(get_tarball sample_client ''a'' ''1.0.0'', Inr (ok_response 200 d))])"
  using hub_targets
  by (auto simp: nexus_fetch_def nexus_do_def sample_hub_def ok_response_def get_tarball_def request_of_def limited_def)

lemma hub_upload:
  "nexus_upload sample_client (recorded sample_hub) f d (w, l)
     = (None, Some d, l @ [(post_component sample_client f d, Inr (ok_response 201 ''''))])"
  by (simp add: nexus_upload_def nexus_do_def sample_hub_def ok_response_def post_component_def request_of_def)

definition hub_listing :: http_call where
  "hub_listing = (request_of sample_client ''GET'' repos_target No_Body, Inr (ok_response 200 ''repos''))"

lemma hub_check:
  "check_repository sample_client (recorded sample_hub) (\<lambda>q. q) (w, l) = (None, w, l @ [hub_listing])"
proof -
  have "nx_repo sample_client = ''npm-hosted''" by (simp add: sample_client_def)
  then show ?thesis
    by (simp add: check_repository_def nexus_do_def repos_target_def [symmetric])
      (simp add: sample_hub_def ok_response_def request_of_def hub_listing_def limited_def)
qed

lemma hub_run: "publish_each sample_publish_env hub_publisher [sample_pub] (None, [])
  = ([succeeded sample_pub Published ''''], (Some ''K'', [hub_listing,
       (get_tarball sample_client ''a'' ''1.0.0'', Inr (ok_response 404 '''')),
       (post_component sample_client ''a-1.0.0.tgz'' ''K'', Inr (ok_response 201 '''')),
       (get_tarball sample_client ''a'' ''1.0.0'', Inr (ok_response 200 ''K''))]))"
proof -
  have m: "mismatch sample_publish_env ''K'' sample_pub = ''''"
    using steady_mismatch [OF sample_steady(1,3)] sample_steady(2) by (simp add: sample_publish_env_def)
  have reads: "pe_reads sample_publish_env path = steady_reads ''K''" and sha: "pe_sha512 sample_publish_env b = b" for path b
    by (simp_all add: sample_publish_env_def)
  have look: "nh_done sample_hub w = (None, w)" for w by (simp add: sample_hub_def)
  have pub: "pp_name sample_pub = ''a''" "pp_version sample_pub = ''1.0.0''" "pp_file sample_pub = ''a-1.0.0.tgz''"
    "pp_sha512 sample_pub = ''K''" "pp_stripped sample_pub = False" by (simp_all add: sample_pub_def)
  have limit: "int64 (int64 (2 * int (length ''K'')) + max_copy_slack) = 1048578" by (simp add: int64_def max_copy_slack_def)
  show ?thesis
    by (simp add: publish_each_def hub_check look publish_one_def reads m fetch_digest_def hub_fetch hub_upload sha upload_one_def
      read_back_def pub Let_def limit [simplified])
qed

theorem published_over_http_witness:
  "http_verdict sample_publish_env sample_client sample_pub (succeeded sample_pub Published '''')
     [(get_tarball sample_client ''a'' ''1.0.0'', Inr (ok_response 404 '''')),
      (post_component sample_client ''a-1.0.0.tgz'' ''K'', Inr (ok_response 201 '''')),
      (get_tarball sample_client ''a'' ''1.0.0'', Inr (ok_response 200 ''K''))]"
proof -
  obtain first hss where h: "[hub_listing, (get_tarball sample_client ''a'' ''1.0.0'', Inr (ok_response 404 '''')),
       (post_component sample_client ''a-1.0.0.tgz'' ''K'', Inr (ok_response 201 '''')),
       (get_tarball sample_client ''a'' ''1.0.0'', Inr (ok_response 200 ''K''))] = first @ concat hss"
    "http_of sample_client Ev_Check first" "length hss = 1"
    "http_verdict sample_publish_env sample_client sample_pub (succeeded sample_pub Published '''') (hss ! 0)"
    using published_over_http [OF hub_run] by fastforce
  obtain hs where hs: "hss = [hs]" using h(3) by (cases hss) auto
  have "first \<noteq> []"
  proof
    assume "first = []"
    then have "hs ! 0 = hub_listing" "hs \<noteq> []" using h(1) hs by auto
    then show False using h(4) hs hub_targets(1)
      by (auto simp: http_verdict_def hub_listing_def Let_def get_tarball_def request_of_def sample_pub_def)
  qed
  then have "hs = [(get_tarball sample_client ''a'' ''1.0.0'', Inr (ok_response 404 '''')),
      (post_component sample_client ''a-1.0.0.tgz'' ''K'', Inr (ok_response 201 '''')),
      (get_tarball sample_client ''a'' ''1.0.0'', Inr (ok_response 200 ''K''))]"
    using h(1,2) hs by auto
  then show ?thesis using h(4) hs by simp
qed

end
