(* ===== verification/Minio_Client.thy ===== *)
theory Minio_Client
  imports Service_Imports Store_Folders Nexus_Client
begin

text \<open>
  \<^verbatim>\<open>internal/importer/s3/{sign,client}.go\<close>: the client of MinIO, its signature of a request, and what it gives the
  import service as the record \<open>objects\<close>. SHA-256, HMAC, XML, the parsing of dates and the network are parameters;
  header values and keys are trimmed and sorted as bytes.
\<close>

subsection \<open>Signature Version 4\<close>

definition sign_service :: string where "sign_service = ''s3''"
definition scope_end :: string where "scope_end = ''aws4_request''"
definition sign_algorithm :: string where "sign_algorithm = ''AWS4-HMAC-SHA256''"
definition empty_body_hash :: string where
  "empty_body_hash = ''e3b0c44298fc1c149afbf4c8996fb92427ae41e4649b934ca495991b7852b855''"

text \<open>The layout \<^verbatim>\<open>20060102\<close>; the stamp's layout is that of the folders.\<close>

definition format_date :: "stamp \<Rightarrow> string" where
  "format_date t = pad2 (sm_year t div 100) @ pad2 (sm_year t mod 100) @ pad2 (sm_month t) @ pad2 (sm_day t)"

record digests_api =
  dg_sha256 :: "bytes \<Rightarrow> bytes"
  dg_hmac :: "bytes \<Rightarrow> bytes \<Rightarrow> bytes"

record sign_input =
  sg_method :: string
  sg_uri :: string
  sg_query :: string
  sg_headers :: "(string, string) gomap"
  sg_hash :: string
  sg_region :: string
  sg_access :: bytes
  sg_secret :: bytes
  sg_time :: stamp

abbreviation newline :: string where "newline \<equiv> [CHR 0x0A]"

definition header_names :: "(string, string) gomap \<Rightarrow> string list" where
  "header_names hs = sort_func go_compare (map fst hs)"

definition header_value :: "(string, string) gomap \<Rightarrow> string \<Rightarrow> string" where
  "header_value hs n = (case gm_get hs n of None \<Rightarrow> '''' | Some v \<Rightarrow> v)"

definition canonical_headers :: "(string, string) gomap \<Rightarrow> string" where
  "canonical_headers hs = concat (map (\<lambda>n. n @ '':'' @ trim_space (header_value hs n) @ newline) (header_names hs))"

definition signed_headers :: "(string, string) gomap \<Rightarrow> string" where
  "signed_headers hs = join_with '';'' (header_names hs)"

definition canonical_text :: "sign_input \<Rightarrow> string" where
  "canonical_text i = join_with newline [sg_method i, sg_uri i, sg_query i, canonical_headers (sg_headers i),
     signed_headers (sg_headers i), sg_hash i]"

definition sign_scope :: "sign_input \<Rightarrow> string" where
  "sign_scope i = format_date (sg_time i) @ ''/'' @ sg_region i @ ''/'' @ sign_service @ ''/'' @ scope_end"

definition text_to_sign :: "digests_api \<Rightarrow> sign_input \<Rightarrow> string" where
  "text_to_sign dg i = sign_algorithm @ newline @ format_stamp (sg_time i) @ newline @ sign_scope i @ newline
     @ hex_encode (dg_sha256 dg (canonical_text i))"

definition signing_key :: "digests_api \<Rightarrow> sign_input \<Rightarrow> bytes" where
  "signing_key dg i = dg_hmac dg (dg_hmac dg (dg_hmac dg (dg_hmac dg (''AWS4'' @ sg_secret i) (format_date (sg_time i)))
     (sg_region i)) sign_service) scope_end"

definition signature_of :: "digests_api \<Rightarrow> sign_input \<Rightarrow> string" where
  "signature_of dg i = hex_encode (dg_hmac dg (signing_key dg i) (text_to_sign dg i))"

definition authorization_of :: "digests_api \<Rightarrow> sign_input \<Rightarrow> string" where
  "authorization_of dg i = sign_algorithm @ '' Credential='' @ sg_access i @ ''/'' @ sign_scope i
     @ '', SignedHeaders='' @ signed_headers (sg_headers i) @ '', Signature='' @ signature_of dg i"

definition unreserved :: "char \<Rightarrow> bool" where
  "unreserved c \<longleftrightarrow> is_alnum c \<or> c = CHR ''-'' \<or> c = CHR ''_'' \<or> c = CHR ''.'' \<or> c = CHR ''~''"

definition s3_encode :: "string \<Rightarrow> string" where
  "s3_encode = escape_with unreserved"

definition canonical_uri :: "string \<Rightarrow> string" where
  "canonical_uri path = join_with ''/'' (map s3_encode (split_char CHR ''/'' path))"

definition canonical_query :: "(string \<times> string) list \<Rightarrow> string" where
  "canonical_query pairs = join_with ''&'' (map (\<lambda>(n, v). n @ ''='' @ v)
     (sort_func go_compare (map (\<lambda>(n, v). (s3_encode n, s3_encode v)) pairs)))"

subsection \<open>Checks of names\<close>

definition max_list_bytes :: nat where "max_list_bytes = 4194304"
definition max_error_bytes :: nat where "max_error_bytes = 8192"
definition max_keys :: int where "max_keys = 1000"
definition min_bucket_len :: nat where "min_bucket_len = 3"
definition max_bucket_len :: nat where "max_bucket_len = 63"
definition default_region :: string where "default_region = ''us-east-1''"

datatype s3_fault = Deadline string | Cancelled string | Other_Fault string

fun fault_message :: "s3_fault \<Rightarrow> string" where
  "fault_message (Deadline e) = e"
| "fault_message (Cancelled e) = e"
| "fault_message (Other_Fault e) = e"

datatype s3_error = S3_Own string | S3_Answer int string string | S3_Not_Found | S3_Changed | S3_Fault string s3_fault

fun s3_error_text :: "s3_error \<Rightarrow> string" where
  "s3_error_text (S3_Own e) = e"
| "s3_error_text (S3_Answer n code msg) = ''s3: status '' @ show_int n @ (if code = '''' then '''' else '' '' @ code)
     @ (if msg = '''' then '''' else '': '' @ msg)"
| "s3_error_text S3_Not_Found = ''s3: no such key''"
| "s3_error_text S3_Changed = ''s3: the object changed''"
| "s3_error_text (S3_Fault what f) = ''s3: '' @ what @ '': '' @ fault_message f"

definition is_no_bucket :: "s3_error \<Rightarrow> bool" where
  "is_no_bucket e \<longleftrightarrow> (case e of S3_Answer n code msg \<Rightarrow> code = ''NoSuchBucket'' | _ \<Rightarrow> False)"

definition bucket_edge :: "char \<Rightarrow> bool" where
  "bucket_edge c \<longleftrightarrow> is_lower c \<or> is_digit c"

definition bucket_inner :: "char \<Rightarrow> bool" where
  "bucket_inner c \<longleftrightarrow> is_lower c \<or> is_digit c \<or> c = CHR ''.'' \<or> c = CHR ''-''"

definition bucket_name :: rx where
  "bucket_name = Seq (Cls bucket_edge) (Seq (Star (Cls bucket_inner)) (Cls bucket_edge))"

definition check_bucket :: "string \<Rightarrow> s3_error + unit" where
  "check_bucket bucket = guard_err (min_bucket_len \<le> length bucket \<and> length bucket \<le> max_bucket_len
     \<and> rx_match bucket_name bucket \<and> \<not> contains_str ''..'' bucket) (S3_Own ''s3: the bucket name breaks S3's rules'')"

definition has_control :: "string \<Rightarrow> bool" where
  "has_control s \<longleftrightarrow> list_ex (\<lambda>c. control_text (chunk_text c)) (chunks s)"

definition check_object_key :: "string \<Rightarrow> s3_error + unit" where
  "check_object_key key =
     (if key = '''' \<or> max_key_bytes < length key \<or> \<not> valid_utf8 key
      then Inl (S3_Own ''s3: the key is empty, over 1024 bytes or not UTF-8'')
      else if list_ex (\<lambda>s. s = ''.'' \<or> s = ''..'') (split_char CHR ''/'' key)
      then Inl (S3_Own ''s3: the key holds a dot segment'')
      else if has_control key then Inl (S3_Own ''s3: the key holds a control character'')
      else Inr ())"

subsection \<open>The client and its surroundings\<close>

record s3_config =
  cg_url :: "go_url option"
  cg_region :: string
  cg_access :: bytes
  cg_secret :: bytes
  cg_ca :: string

record s3_client =
  sc_base :: go_url
  sc_region :: string
  sc_access :: bytes
  sc_secret :: bytes

definition new_s3 :: "(string \<Rightarrow> string + bytes) \<Rightarrow> (bytes \<Rightarrow> bool) \<Rightarrow> s3_config \<Rightarrow> string + s3_client" where
  "new_s3 read pem cfg = (case cg_url cfg of
     None \<Rightarrow> Inl ''s3: the endpoint needs an http or https URL with a host''
   | Some u \<Rightarrow>
       if gu_scheme u \<noteq> ''http'' \<and> gu_scheme u \<noteq> ''https'' \<or> gu_host u = ''''
       then Inl ''s3: the endpoint needs an http or https URL with a host''
       else if gu_user u \<or> gu_query u \<noteq> '''' \<or> gu_fragment u \<noteq> ''''
       then Inl ''s3: the endpoint URL must hold no user, query or fragment''
       else if cg_access cfg = [] \<or> cg_secret cfg = [] then Inl ''s3: the access key and the secret key are required''
       else try_bind (if cg_ca cfg = '''' then Inr () else (case read (cg_ca cfg) of
           Inl e \<Rightarrow> Inl (''s3: read the CA file: '' @ e)
         | Inr bs \<Rightarrow> guard_err (pem bs) ''s3: the CA file holds no certificate'')) (\<lambda>_.
       Inr \<lparr>sc_base = u\<lparr>gu_path := rev (dropWhile (\<lambda>c. c = CHR ''/'') (rev (gu_path u)))\<rparr>,
         sc_region = (if cg_region cfg = '''' then default_region else cg_region cfg),
         sc_access = cg_access cfg, sc_secret = cg_secret cfg\<rparr>))"

record s3_request =
  sq_method :: string
  sq_host :: string
  sq_uri :: string
  sq_query :: string
  sq_headers :: "(string, string) gomap"
  sq_authorization :: string

text \<open>An answer; a missing length is below 0, a missing header empty. The body ends or breaks off.\<close>

record s3_response =
  sp_status :: int
  sp_length :: int
  sp_etag :: string
  sp_modified :: string
  sp_body :: bytes
  sp_fault :: "s3_fault option"

datatype xml_token = Xml_Start string | Xml_End | Xml_Chars string | Xml_Other

record 'w s3_env =
  s3_send :: "s3_request \<Rightarrow> 'w \<Rightarrow> (s3_fault + s3_response) \<times> 'w"
  s3_now :: "'w \<Rightarrow> stamp"
  s3_parse :: "string \<Rightarrow> bool"
  s3_valid :: "string \<Rightarrow> bool"
  s3_digests :: digests_api
  s3_listing :: "bytes \<Rightarrow> (s3_object list \<times> bool) option"
  s3_tokens :: "bytes \<Rightarrow> xml_token list"
  s3_date :: "string \<Rightarrow> time option"

subsection \<open>Server text in errors\<close>

text \<open>One turn of the loop of \<^verbatim>\<open>parseError\<close>: the element it is in, and the two texts so far.\<close>

definition error_token :: "string \<times> string \<times> string \<Rightarrow> xml_token \<Rightarrow> string \<times> string \<times> string" where
  "error_token st t = (case st of (el, code, msg) \<Rightarrow> (case t of
     Xml_Start n \<Rightarrow> (n, code, msg)
   | Xml_End \<Rightarrow> ('''', code, msg)
   | Xml_Chars d \<Rightarrow> (if el = ''Code'' then (el, code @ d, msg) else if el = ''Message'' then (el, code, msg @ d) else st)
   | Xml_Other \<Rightarrow> st))"

definition parse_error :: "'w s3_env \<Rightarrow> bytes \<Rightarrow> string \<times> string" where
  "parse_error env raw = snd (foldl error_token ('''', '''', '''') (s3_tokens env (strip_control raw)))"

text \<open>What follows a match of \<^verbatim>\<open>(?i)signature=[0-9a-f]+\<close> at this place. Folding case, the first letter is
  also U+017F (long s).\<close>

fun folded_s :: "string \<Rightarrow> string option" where
  "folded_s (c # d # u) = (if lower_char c = CHR ''s'' then Some (d # u)
     else if c = CHR 0xC5 \<and> d = CHR 0xBF then Some u else None)"
| "folded_s s = None"

definition signature_rest :: "string \<Rightarrow> string option" where
  "signature_rest u = (let r = drop 9 u; rest = dropWhile (\<lambda>c. is_hex (lower_char c)) r in
     if map lower_char (take 9 u) = ''ignature='' \<and> rest \<noteq> r then Some rest else None)"

definition match_signature :: "string \<Rightarrow> string option" where
  "match_signature s = Option.bind (folded_s s) signature_rest"

lemma match_signature_shorter: "match_signature s = Some rest \<Longrightarrow> length rest < length s"
proof -
  assume "match_signature s = Some rest"
  then obtain u where u: "folded_s s = Some u" and r: "rest = dropWhile (\<lambda>c. is_hex (lower_char c)) (drop 9 u)"
    by (auto simp: match_signature_def signature_rest_def Let_def bind_eq_Some_conv split: if_splits)
  have "length u < length s" using u by (cases s rule: folded_s.cases) (auto split: if_splits)
  moreover have "length rest \<le> length (drop 9 u)" unfolding r by (rule length_dropWhile_le)
  ultimately show ?thesis by simp
qed

function (sequential) scrub_signatures :: "string \<Rightarrow> string" where
  "scrub_signatures [] = []"
| "scrub_signatures (c # s) = (case match_signature (c # s) of
     Some rest \<Rightarrow> ''signature=***'' @ scrub_signatures rest
   | None \<Rightarrow> c # scrub_signatures s)"
  by pat_completeness auto
termination by (relation "measure size") (auto dest: match_signature_shorter)

definition scrub_secrets :: "string list \<Rightarrow> string \<Rightarrow> string" where
  "scrub_secrets secrets s = foldl (\<lambda>s sec. if sec \<noteq> '''' then replace_all sec ''***'' s else s) s secrets"

definition s3_clean :: "string \<Rightarrow> string list \<Rightarrow> string" where
  "s3_clean s secrets = cut_runes max_message_chars (strip_control (scrub_signatures (scrub_secrets secrets (strip_control (to_valid s)))))"

subsection \<open>One request\<close>

record s3_call =
  ca_method :: string
  ca_bucket :: string
  ca_key :: string
  ca_query :: "(string \<times> string) list"
  ca_match :: string

definition call_path :: "s3_client \<Rightarrow> s3_call \<Rightarrow> string" where
  "call_path c r = gu_path (sc_base c) @ ''/'' @ ca_bucket r @ (if ca_key r = '''' then '''' else ''/'' @ ca_key r)"

definition call_headers :: "s3_client \<Rightarrow> s3_call \<Rightarrow> stamp \<Rightarrow> (string, string) gomap" where
  "call_headers c r now = (let hs = [(''host'', gu_host (sc_base c)), (''x-amz-content-sha256'', empty_body_hash),
       (''x-amz-date'', format_stamp now)] in
     if ca_match r \<noteq> '''' then gm_put ''if-match'' (ca_match r) hs else hs)"

definition call_input :: "s3_client \<Rightarrow> s3_call \<Rightarrow> stamp \<Rightarrow> sign_input" where
  "call_input c r now = \<lparr>sg_method = ca_method r, sg_uri = canonical_uri (call_path c r), sg_query = canonical_query (ca_query r),
     sg_headers = call_headers c r now, sg_hash = empty_body_hash, sg_region = sc_region c, sg_access = sc_access c,
     sg_secret = sc_secret c, sg_time = now\<rparr>"

text \<open>The URL a request is built from: \<^verbatim>\<open>url.Parse\<close> gets it without the query, \<^verbatim>\<open>http.NewRequest\<close> with it.\<close>

definition call_url :: "s3_client \<Rightarrow> sign_input \<Rightarrow> string" where
  "call_url c i = gu_scheme (sc_base c) @ ''://'' @ gu_host (sc_base c) @ sg_uri i"

definition url_with :: "string \<Rightarrow> string \<Rightarrow> string" where
  "url_with url query = url @ (if query = '''' then '''' else ''?'' @ query)"

text \<open>The method in lower case names a call in an error; \<^verbatim>\<open>strings.ToLower\<close> is \<open>lower_char\<close> on ASCII.\<close>

definition s3_do :: "s3_client \<Rightarrow> 'w s3_env \<Rightarrow> s3_call \<Rightarrow> 'w \<Rightarrow> (s3_error + s3_response \<times> string list) \<times> 'w" where
  "s3_do c env r w = (case check_bucket (ca_bucket r) of
     Inl e \<Rightarrow> (Inl e, w)
   | Inr _ \<Rightarrow> (let i = call_input c r (s3_now env w) in
       if \<not> s3_parse env (call_url c i) then (Inl (S3_Own ''s3: the request path is not valid''), w)
       else if \<not> s3_valid env (url_with (call_url c i) (sg_query i)) then (Inl (S3_Own ''s3: the request is not valid''), w)
       else (case s3_send env \<lparr>sq_method = ca_method r, sq_host = gu_host (sc_base c), sq_uri = sg_uri i, sq_query = sg_query i,
              sq_headers = filter (\<lambda>(n, v). n \<noteq> ''host'') (sg_headers i), sq_authorization = authorization_of (s3_digests env) i\<rparr> w of
           (Inl f, w1) \<Rightarrow> (Inl (S3_Fault (map lower_char (ca_method r)) f), w1)
         | (Inr resp, w1) \<Rightarrow> (Inr (resp, [sc_access c, sc_secret c, signature_of (s3_digests env) i]), w1))))"

definition s3_status_error :: "'w s3_env \<Rightarrow> s3_response \<Rightarrow> string list \<Rightarrow> s3_error" where
  "s3_status_error env resp secrets = (case parse_error env (take max_error_bytes (sp_body resp)) of (code0, msg0) \<Rightarrow>
     let code = s3_clean code0 secrets; msg = s3_clean msg0 secrets in
     if sp_status resp = 412 then S3_Changed
     else if sp_status resp = 404 \<and> code \<noteq> ''NoSuchBucket'' then S3_Not_Found
     else S3_Answer (sp_status resp) code msg)"

subsection \<open>The four calls\<close>

definition list_call :: "string \<Rightarrow> string \<Rightarrow> int \<Rightarrow> s3_call" where
  "list_call bucket pfx limit = \<lparr>ca_method = ''GET'', ca_bucket = bucket, ca_key = '''',
     ca_query = [(''list-type'', ''2''), (''max-keys'', show_int limit)] @ (if pfx \<noteq> '''' then [(''prefix'', pfx)] else []),
     ca_match = ''''\<rparr>"

definition object_call :: "string \<Rightarrow> string \<Rightarrow> string \<Rightarrow> string \<Rightarrow> s3_call" where
  "object_call method bucket key etag = \<lparr>ca_method = method, ca_bucket = bucket, ca_key = key, ca_query = [], ca_match = etag\<rparr>"

definition s3_list :: "s3_client \<Rightarrow> 'w s3_env \<Rightarrow> string \<Rightarrow> string \<Rightarrow> int \<Rightarrow> 'w \<Rightarrow> (s3_error + s3_object list \<times> bool) \<times> 'w" where
  "s3_list c env bucket pfx limit w =
     (if limit < 1 then (Inl (S3_Own ''s3: limit must be at least 1''), w)
      else if max_key_bytes < length pfx \<or> \<not> valid_utf8 pfx
      then (Inl (S3_Own ''s3: the prefix is over 1024 bytes or not UTF-8''), w)
      else (case s3_do c env (list_call bucket pfx (min limit max_keys)) w of
        (Inl e, w1) \<Rightarrow> (Inl e, w1)
      | (Inr (resp, secrets), w1) \<Rightarrow>
          if sp_status resp \<noteq> 200 then (Inl (s3_status_error env resp secrets), w1)
          else if max_list_bytes < length (sp_body resp)
          then (Inl (S3_Own (''s3: the listing is over '' @ show_nat max_list_bytes @ '' bytes (MaxListBytes)'')), w1)
          else (case sp_fault resp of
              Some f \<Rightarrow> (Inl (S3_Fault ''read the listing'' f), w1)
            | None \<Rightarrow> (case s3_listing env (sp_body resp) of
                None \<Rightarrow> (Inl (S3_Own ''s3: the listing is not valid XML''), w1)
              | Some objs \<Rightarrow> (Inr objs, w1)))))"

text \<open>Go's zero time, in seconds since 1970.\<close>

definition no_time :: time where "no_time = - 62135596800"

definition object_of :: "'w s3_env \<Rightarrow> string \<Rightarrow> s3_response \<Rightarrow> s3_error + s3_object" where
  "object_of env key resp =
     (if sp_length resp < 0 then Inl (S3_Own ''s3: the answer carries no length'')
      else if sp_modified resp = ''''
      then Inr \<lparr>so_key = key, so_etag = sp_etag resp, so_size = sp_length resp, so_modified = no_time\<rparr>
      else (case s3_date env (sp_modified resp) of
          None \<Rightarrow> Inl (S3_Own ''s3: the answer's Last-Modified is not a date'')
        | Some t \<Rightarrow> Inr \<lparr>so_key = key, so_etag = sp_etag resp, so_size = sp_length resp, so_modified = t\<rparr>))"

definition s3_head :: "s3_client \<Rightarrow> 'w s3_env \<Rightarrow> string \<Rightarrow> string \<Rightarrow> 'w \<Rightarrow> (s3_error + s3_object) \<times> 'w" where
  "s3_head c env bucket key w = (case check_object_key key of
     Inl e \<Rightarrow> (Inl e, w)
   | Inr _ \<Rightarrow> (case s3_do c env (object_call ''HEAD'' bucket key '''') w of
       (Inl e, w1) \<Rightarrow> (Inl e, w1)
     | (Inr (resp, secrets), w1) \<Rightarrow>
         (if sp_status resp \<noteq> 200 then Inl (s3_status_error env resp secrets) else object_of env key resp, w1)))"

definition s3_get :: "s3_client \<Rightarrow> 'w s3_env \<Rightarrow> string \<Rightarrow> string \<Rightarrow> string \<Rightarrow> 'w
    \<Rightarrow> (s3_error + (bytes \<times> s3_fault option) \<times> s3_object) \<times> 'w" where
  "s3_get c env bucket key etag w = (case check_object_key key of
     Inl e \<Rightarrow> (Inl e, w)
   | Inr _ \<Rightarrow> if etag = '''' then (Inl (S3_Own ''s3: a read needs the ETag it expects''), w)
     else (case s3_do c env (object_call ''GET'' bucket key etag) w of
       (Inl e, w1) \<Rightarrow> (Inl e, w1)
     | (Inr (resp, secrets), w1) \<Rightarrow>
         (if sp_status resp \<noteq> 200 then Inl (s3_status_error env resp secrets)
          else try_bind (object_of env key resp) (\<lambda>obj. Inr ((sp_body resp, sp_fault resp), obj)), w1)))"

definition s3_delete :: "s3_client \<Rightarrow> 'w s3_env \<Rightarrow> string \<Rightarrow> string \<Rightarrow> 'w \<Rightarrow> s3_error option \<times> 'w" where
  "s3_delete c env bucket key w = (case check_object_key key of
     Inl e \<Rightarrow> (Some e, w)
   | Inr _ \<Rightarrow> (case s3_do c env (object_call ''DELETE'' bucket key '''') w of
       (Inl e, w1) \<Rightarrow> (Some e, w1)
     | (Inr (resp, secrets), w1) \<Rightarrow>
         (if sp_status resp \<noteq> 204 \<and> sp_status resp \<noteq> 200 then Some (s3_status_error env resp secrets) else None, w1)))"

text \<open>The client as the objects the import service works on, with what \<^verbatim>\<open>errors.Is\<close> and \<^verbatim>\<open>errors.As\<close> find.\<close>

fun minio_error_of :: "s3_error \<Rightarrow> minio_error" where
  "minio_error_of (S3_Answer n code msg) =
     (if is_no_bucket (S3_Answer n code msg) then No_Bucket else Minio_Answer) (s3_error_text (S3_Answer n code msg))"
| "minio_error_of S3_Not_Found = No_Such_Key"
| "minio_error_of S3_Changed = Object_Changed"
| "minio_error_of (S3_Fault what f) = (case f of Deadline m \<Rightarrow> Timed_Out | Cancelled m \<Rightarrow> Was_Cancelled | Other_Fault m \<Rightarrow> Not_Reached)
     (s3_error_text (S3_Fault what f))"
| "minio_error_of (S3_Own e) = Not_Reached e"

definition head_of :: "s3_object \<Rightarrow> head_info" where
  "head_of o1 = \<lparr>hi_etag = so_etag o1, hi_size = so_size o1\<rparr>"

definition body_end_of :: "s3_fault option \<Rightarrow> body_end" where
  "body_end_of f = (case f of None \<Rightarrow> Got_End | Some (Other_Fault m) \<Rightarrow> Body_Error m | Some _ \<Rightarrow> Ctx_Ended)"

definition minio_objects :: "s3_client \<Rightarrow> 'w s3_env \<Rightarrow> 'w objects" where
  "minio_objects c env =
     \<lparr>oj_list = (\<lambda>b p n w. case s3_list c env b p (int n) w of (r, w') \<Rightarrow> (map_sum minio_error_of (\<lambda>x. x) r, w')),
      oj_head = (\<lambda>b k w. case s3_head c env b k w of (r, w') \<Rightarrow> (map_sum minio_error_of head_of r, w')),
      oj_get = (\<lambda>b k e w. case s3_get c env b k e w of
        (r, w') \<Rightarrow> (map_sum minio_error_of (\<lambda>(bd, o1). \<lparr>bd_head = head_of o1, bd_bytes = fst bd, bd_end = body_end_of (snd bd)\<rparr>) r, w')),
      oj_delete = (\<lambda>b k w. case s3_delete c env b k w of (r, w') \<Rightarrow> (map_option minio_error_of r, w'))\<rparr>"

subsection \<open>What a signature covers\<close>

lemma canonical_uri_escape: "canonical_uri path = escape_with (\<lambda>c. unreserved c \<or> c = CHR ''/'') path"
proof (induction path)
  case Nil
  then show ?case by (simp add: canonical_uri_def s3_encode_def)
next
  case (Cons c path)
  obtain seg segs where s: "split_char CHR ''/'' path = seg # segs" using split_char_nonempty by (meson neq_Nil_conv)
  have "\<not> unreserved CHR ''/''" by code_simp
  then show ?case using Cons s
    by (cases segs) (auto simp: canonical_uri_def s3_encode_def)
qed

lemma canonical_uri_inj: "canonical_uri p = canonical_uri q \<longleftrightarrow> p = q"
proof -
  have "\<not> unreserved CHR ''%''" by code_simp
  then show ?thesis by (simp add: canonical_uri_escape escape_with_inj)
qed

lemma hex_any_digit: "n < 16 \<Longrightarrow> hex_any (upper_char (hex_digit n)) = Some n"
proof -
  assume n: "n < 16"
  have "map hex_any ''0123456789ABCDEF'' = map Some [0, 1, 2, 3, 4, 5, 6, 7, 8, 9, 10, 11, 12, 13, 14, 15]" by code_simp
  also have "[0, 1, 2, 3, 4, 5, 6, 7, 8, 9, 10, 11, 12, 13, 14, 15] = [0..<16]" by code_simp
  finally have "map hex_any (map (\<lambda>n. upper_char (hex_digit n)) [0..<16]) = map Some [0..<16]" by (simp only: hex_digits(2))
  then have "map (\<lambda>n. hex_any (upper_char (hex_digit n))) [0..<16] ! n = map Some [0..<16] ! n" by (simp only: map_map comp_def)
  then show ?thesis using n by simp
qed

lemma path_unescape_percent: "path_unescape (percent c @ s) = map_option (\<lambda>r. c # r) (path_unescape s)"
proof -
  have "char_of (16 * (of_char c div 16) + of_char c mod 16) = c" by simp
  then show ?thesis by (simp add: percent_def hex_any_digit nibbles)
qed

lemma path_unescape_escape: "\<not> ok CHR ''%'' \<Longrightarrow> path_unescape (escape_with ok s) = Some s"
proof (induction s)
  case (Cons c s)
  then show ?case by (auto simp: path_unescape_percent)
qed simp

lemma path_unescape_uri: "path_unescape (canonical_uri path) = Some path"
proof -
  have "\<not> unreserved CHR ''%''" by code_simp
  then show ?thesis by (simp add: canonical_uri_escape path_unescape_escape)
qed

lemma encode_plain: "\<not> unreserved c \<Longrightarrow> c \<noteq> CHR ''%'' \<Longrightarrow> c \<notin> set (s3_encode s)"
proof
  assume a: "\<not> unreserved c" "c \<noteq> CHR ''%''" and "c \<in> set (s3_encode s)"
  then have "c \<in> set ''0123456789ABCDEF''" using escape_with_set [of c unreserved s] unfolding s3_encode_def by blast
  moreover have "list_all unreserved ''0123456789ABCDEF''" by code_simp
  ultimately show False using a(1) by (simp only: list_all_iff) blast
qed

lemma uri_no_newline: "CHR 0x0A \<notin> set (canonical_uri path)"
proof
  assume "CHR 0x0A \<in> set (canonical_uri path)"
  then have "CHR 0x0A \<in> set ''0123456789ABCDEF'' \<or> unreserved CHR 0x0A"
    using escape_with_set [of "CHR 0x0A" "\<lambda>c. unreserved c \<or> c = CHR ''/''" path] by (auto simp: canonical_uri_escape simp del: set_simps)
  moreover have "\<not> unreserved CHR 0x0A" by code_simp
  ultimately show False by simp
qed

lemma query_no_newline: "CHR 0x0A \<notin> set (canonical_query pairs)"
proof -
  have enc: "CHR 0x0A \<notin> set (s3_encode s)" for s by (rule encode_plain) code_simp+
  have joined: "CHR 0x0A \<notin> set (join_with ''&'' xs)" if "\<forall>x \<in> set xs. CHR 0x0A \<notin> set x" for xs
    using that
  proof (induction xs)
    case (Cons x xs)
    then show ?case by (cases xs) auto
  qed simp
  show ?thesis unfolding canonical_query_def using enc by (intro joined) auto
qed

lemma first_line: "c \<notin> set a \<Longrightarrow> c \<notin> set b \<Longrightarrow> a @ c # s = b @ c # t \<longleftrightarrow> a = b \<and> s = t"
proof (induction a arbitrary: b)
  case Nil
  then show ?case by (cases b) auto
next
  case (Cons x a)
  then show ?case by (cases b) auto
qed

text \<open>The text a request's signature covers, with the headers of a call written out.\<close>

definition match_line :: "s3_call \<Rightarrow> string" where
  "match_line r = (if ca_match r \<noteq> '''' then ''if-match:'' @ trim_space (ca_match r) @ newline else '''')"

lemma call_header_names: "header_names (call_headers c r now)
  = (if ca_match r \<noteq> '''' then [''host'', ''if-match'', ''x-amz-content-sha256'', ''x-amz-date'']
     else [''host'', ''x-amz-content-sha256'', ''x-amz-date''])"
proof -
  have "sort_func go_compare [''host'', ''x-amz-content-sha256'', ''x-amz-date'']
      = [''host'', ''x-amz-content-sha256'', ''x-amz-date'']" by code_simp
  moreover have "sort_func go_compare [''host'', ''x-amz-content-sha256'', ''x-amz-date'', ''if-match'']
      = [''host'', ''if-match'', ''x-amz-content-sha256'', ''x-amz-date'']" by code_simp
  ultimately show ?thesis by (simp add: header_names_def call_headers_def Let_def gm_put_def)
qed

lemma call_canonical_headers: "canonical_headers (call_headers c r now) = ''host:'' @ trim_space (gu_host (sc_base c)) @ newline
    @ match_line r @ ''x-amz-content-sha256:'' @ trim_space empty_body_hash @ newline
    @ ''x-amz-date:'' @ trim_space (format_stamp now) @ newline"
  unfolding canonical_headers_def call_header_names
  by (simp add: header_value_def call_headers_def gm_put_def gm_get_def match_line_def Let_def)

lemma trim_space_subset: "set (trim_space s) \<subseteq> set s"
proof -
  have "set (dropWhile is_space xs) \<subseteq> set xs" for xs by (auto dest: set_dropWhileD)
  then show ?thesis unfolding trim_space_def by (metis set_rev subset_trans)
qed

text \<open>Two calls whose canonical texts are equal are the same call.\<close>

lemma canonical_binds:
  assumes eq: "canonical_text (call_input c r t) = canonical_text (call_input c q u)"
    and lines: "CHR 0x0A \<notin> set (ca_method r)" "CHR 0x0A \<notin> set (ca_method q)" "CHR 0x0A \<notin> set (ca_match r)" "CHR 0x0A \<notin> set (ca_match q)"
    and slash: "CHR ''/'' \<notin> set (ca_bucket r)" "CHR ''/'' \<notin> set (ca_bucket q)"
  shows "ca_method r = ca_method q" and "ca_bucket r = ca_bucket q" and "ca_key r = ca_key q"
    and "canonical_query (ca_query r) = canonical_query (ca_query q)" and "match_line r = match_line q"
proof -
  let ?tail = "\<lambda>r t. canonical_headers (call_headers c r t) @ newline @ signed_headers (call_headers c r t) @ newline @ empty_body_hash"
  have shape: "canonical_text (call_input c r t) = ca_method r @ CHR 0x0A # canonical_uri (call_path c r) @ CHR 0x0A #
      canonical_query (ca_query r) @ CHR 0x0A # ?tail r t" for r t
    by (simp add: canonical_text_def call_input_def)
  have heads: "ca_method r = ca_method q \<and> canonical_uri (call_path c r) = canonical_uri (call_path c q)
      \<and> canonical_query (ca_query r) = canonical_query (ca_query q) \<and> ?tail r t = ?tail q u"
    using eq unfolding shape first_line [OF lines(1,2)] first_line [OF uri_no_newline uri_no_newline]
      first_line [OF query_no_newline query_no_newline] by blast
  then show "ca_method r = ca_method q" "canonical_query (ca_query r) = canonical_query (ca_query q)" by blast+
  have "call_path c r = call_path c q" using heads by (simp add: canonical_uri_inj)
  then have p: "ca_bucket r @ (if ca_key r = '''' then '''' else ''/'' @ ca_key r) = ca_bucket q @ (if ca_key q = '''' then '''' else ''/'' @ ca_key q)"
    by (simp add: call_path_def)
  have "ca_bucket r = ca_bucket q \<and> ca_key r = ca_key q"
  proof (cases "ca_key r = '''' \<or> ca_key q = ''''")
    case True
    have no: "a @ CHR ''/'' # k \<noteq> b" if "CHR ''/'' \<notin> set b" for a b k :: string using that by auto
    show ?thesis
      using p True no [OF slash(1)] no [OF slash(2)] no [OF slash(1), symmetric]
      by (cases "ca_key r = ''''"; cases "ca_key q = ''''") simp_all
  next
    case False
    then show ?thesis using p first_line [OF slash] by simp
  qed
  then show "ca_bucket r = ca_bucket q" "ca_key r = ca_key q" by blast+
  obtain x y where m: "match_line r @ ''x-amz-content-sha256:'' @ x = match_line q @ ''x-amz-content-sha256:'' @ y"
    using heads unfolding call_canonical_headers by auto
  show "match_line r = match_line q"
  proof (cases "ca_match r = '''' \<or> ca_match q = ''''")
    case True
    then show ?thesis using m by (auto simp: match_line_def split: if_splits)
  next
    case False
    have "CHR 0x0A \<notin> set (trim_space (ca_match r))" "CHR 0x0A \<notin> set (trim_space (ca_match q))"
      using lines(3,4) trim_space_subset by blast+
    then show ?thesis using m False by (simp add: match_line_def first_line)
  qed
qed

subsection \<open>The requests it sends\<close>

type_synonym s3_exchange = "s3_request \<times> (s3_fault + s3_response)"

definition s3_recorded :: "'w s3_env \<Rightarrow> ('w \<times> s3_exchange list) s3_env" where
  "s3_recorded env = \<lparr>s3_send = (\<lambda>q (w, l). case s3_send env q w of (a, w') \<Rightarrow> (a, w', l @ [(q, a)])),
     s3_now = (\<lambda>(w, l). s3_now env w), s3_parse = s3_parse env, s3_valid = s3_valid env, s3_digests = s3_digests env,
     s3_listing = s3_listing env, s3_tokens = s3_tokens env, s3_date = s3_date env\<rparr>"

lemma s3_recorded_simps [simp]:
  "s3_send (s3_recorded env) q (w, l) = (case s3_send env q w of (a, w') \<Rightarrow> (a, w', l @ [(q, a)]))"
  "s3_now (s3_recorded env) (w, l) = s3_now env w" "s3_parse (s3_recorded env) = s3_parse env"
  "s3_valid (s3_recorded env) = s3_valid env" "s3_digests (s3_recorded env) = s3_digests env"
  "s3_listing (s3_recorded env) = s3_listing env" "s3_tokens (s3_recorded env) = s3_tokens env"
  "s3_date (s3_recorded env) = s3_date env"
  by (simp_all add: s3_recorded_def)

text \<open>The request of a call: the path it decodes to, and a signature over what is sent.\<close>

definition carries :: "s3_client \<Rightarrow> digests_api \<Rightarrow> s3_call \<Rightarrow> s3_request \<Rightarrow> bool" where
  "carries c dg r q \<longleftrightarrow> (\<exists>now. sq_method q = ca_method r \<and> sq_host q = gu_host (sc_base c)
     \<and> path_unescape (sq_uri q) = Some (call_path c r) \<and> sq_query q = canonical_query (ca_query r)
     \<and> sq_headers q = filter (\<lambda>(n, v). n \<noteq> ''host'') (call_headers c r now)
     \<and> sq_authorization q = authorization_of dg (call_input c r now)
     \<and> canonical_text (call_input c r now) = join_with newline [sq_method q, sq_uri q, sq_query q,
         ''host:'' @ trim_space (sq_host q) @ newline @ match_line r @ ''x-amz-content-sha256:'' @ trim_space empty_body_hash
           @ newline @ ''x-amz-date:'' @ trim_space (format_stamp now) @ newline,
         signed_headers (call_headers c r now), empty_body_hash])"

lemma s3_do_recorded:
  assumes "s3_do c (s3_recorded env) r (w, l) = (res, w', l')"
  shows "(l' = l \<and> (\<exists>e. res = Inl e)) \<or> (check_bucket (ca_bucket r) = Inr () \<and> (\<exists>q a. l' = l @ [(q, a)]
    \<and> carries c (s3_digests env) r q
    \<and> (case a of Inl f \<Rightarrow> res = Inl (S3_Fault (map lower_char (ca_method r)) f) | Inr resp \<Rightarrow> \<exists>secrets. res = Inr (resp, secrets))))"
proof (cases "check_bucket (ca_bucket r)")
  case (Inl e)
  then show ?thesis using assms by (auto simp: s3_do_def)
next
  case (Inr u)
  let ?i = "call_input c r (s3_now env w)"
  let ?q = "\<lparr>sq_method = ca_method r, sq_host = gu_host (sc_base c), sq_uri = sg_uri ?i, sq_query = sg_query ?i,
    sq_headers = filter (\<lambda>(n, v). n \<noteq> ''host'') (sg_headers ?i), sq_authorization = authorization_of (s3_digests env) ?i\<rparr>"
  have q: "carries c (s3_digests env) r ?q"
    unfolding carries_def
    by (intro exI [of _ "s3_now env w"]) (simp add: call_input_def path_unescape_uri canonical_text_def call_canonical_headers)
  show ?thesis
  proof (cases "s3_parse env (call_url c ?i) \<and> s3_valid env (url_with (call_url c ?i) (sg_query ?i))")
    case True
    obtain a w1 where a: "s3_send env ?q w = (a, w1)" by fastforce
    have sent: "l' = l @ [(?q, a)] \<and> (case a of Inl f \<Rightarrow> res = Inl (S3_Fault (map lower_char (ca_method r)) f)
        | Inr resp \<Rightarrow> \<exists>secrets. res = Inr (resp, secrets))"
      using assms Inr True a by (cases a) (auto simp: s3_do_def Let_def)
    have "check_bucket (ca_bucket r) = Inr ()" using Inr by simp
    then show ?thesis using conjunct1 [OF sent] conjunct2 [OF sent] q
      by (intro disjI2 conjI exI [of _ ?q] exI [of _ a]) simp_all
  next
    case False
    then show ?thesis using assms Inr by (auto simp: s3_do_def Let_def split: if_splits)
  qed
qed

text \<open>What one of the four calls did: it sent nothing and failed, or one request and read its answer.\<close>

definition one_exchange :: "s3_client \<Rightarrow> digests_api \<Rightarrow> s3_call \<Rightarrow> s3_exchange list \<Rightarrow> bool \<Rightarrow> (s3_response \<Rightarrow> bool) \<Rightarrow> bool" where
  "one_exchange c dg r calls bad good \<longleftrightarrow> (calls = [] \<and> bad) \<or> (check_bucket (ca_bucket r) = Inr () \<and>
     (\<exists>q a. calls = [(q, a)] \<and> carries c dg r q \<and> (case a of Inl f \<Rightarrow> bad | Inr resp \<Rightarrow> good resp)))"

lemma s3_do_exchange:
  assumes "s3_do c (s3_recorded env) r (w, l) = (res, w', l')"
    and "\<And>e. res = Inl e \<Longrightarrow> bad" and "\<And>resp secrets. res = Inr (resp, secrets) \<Longrightarrow> good resp"
  shows "\<exists>calls. l' = l @ calls \<and> one_exchange c (s3_digests env) r calls bad good"
  using s3_do_recorded [OF assms(1)]
proof (elim disjE conjE exE)
  fix e
  assume "l' = l" "res = Inl e"
  then show ?thesis using assms(2) by (intro exI [of _ "[]"]) (simp add: one_exchange_def)
next
  fix q a
  assume h: "check_bucket (ca_bucket r) = Inr ()" "l' = l @ [(q, a)]" "carries c (s3_digests env) r q"
    "case a of Inl f \<Rightarrow> res = Inl (S3_Fault (map lower_char (ca_method r)) f) | Inr resp \<Rightarrow> \<exists>secrets. res = Inr (resp, secrets)"
  have "case a of Inl f \<Rightarrow> bad | Inr resp \<Rightarrow> good resp" using h(4) assms(2,3) by (auto split: sum.splits)
  then show ?thesis using h(1-3) by (intro exI [of _ "[(q, a)]"]) (simp add: one_exchange_def)
qed

lemma no_exchange: "bad \<Longrightarrow> one_exchange c dg r [] bad good"
  by (simp add: one_exchange_def)

lemma s3_head_recorded:
  assumes "s3_head c (s3_recorded env) b k (w, l) = (r, w', l')"
  shows "\<exists>calls. l' = l @ calls \<and> (calls \<noteq> [] \<longrightarrow> check_object_key k = Inr ())
    \<and> one_exchange c (s3_digests env) (object_call ''HEAD'' b k '''') calls (isl r)
       (\<lambda>resp. \<forall>o1. r = Inr o1 \<longrightarrow> sp_status resp = 200 \<and> so_etag o1 = sp_etag resp \<and> so_size o1 = sp_length resp)"
proof (cases "check_object_key k")
  case (Inl e)
  then show ?thesis using assms by (intro exI [of _ "[]"]) (auto simp: s3_head_def intro!: no_exchange)
next
  case (Inr u)
  obtain res w1 l1 where d: "s3_do c (s3_recorded env) (object_call ''HEAD'' b k '''') (w, l) = (res, w1, l1)" by (metis prod_cases3)
  have "l' = l1" using assms Inr d by (auto simp: s3_head_def split: sum.splits prod.splits)
  moreover have "\<exists>calls. l1 = l @ calls \<and> one_exchange c (s3_digests env) (object_call ''HEAD'' b k '''') calls (isl r)
      (\<lambda>resp. \<forall>o1. r = Inr o1 \<longrightarrow> sp_status resp = 200 \<and> so_etag o1 = sp_etag resp \<and> so_size o1 = sp_length resp)"
    by (rule s3_do_exchange [OF d])
      (use assms Inr d in \<open>auto simp: s3_head_def object_of_def split: if_splits option.splits\<close>)
  ultimately show ?thesis using Inr by simp
qed

lemma s3_get_recorded:
  assumes "s3_get c (s3_recorded env) b k etag (w, l) = (r, w', l')"
  shows "\<exists>calls. l' = l @ calls \<and> (calls \<noteq> [] \<longrightarrow> check_object_key k = Inr () \<and> etag \<noteq> '''')
    \<and> one_exchange c (s3_digests env) (object_call ''GET'' b k etag) calls (isl r)
       (\<lambda>resp. \<forall>bd o1. r = Inr (bd, o1) \<longrightarrow> sp_status resp = 200 \<and> bd = (sp_body resp, sp_fault resp)
          \<and> so_etag o1 = sp_etag resp \<and> so_size o1 = sp_length resp)"
proof (cases "isl (check_object_key k) \<or> etag = ''''")
  case True
  then show ?thesis using assms
    by (intro exI [of _ "[]"], cases "check_object_key k") (auto simp: s3_get_def intro!: no_exchange)
next
  case False
  then have k: "check_object_key k = Inr ()" "etag \<noteq> ''''" by (cases "check_object_key k"; auto)+
  obtain res w1 l1 where d: "s3_do c (s3_recorded env) (object_call ''GET'' b k etag) (w, l) = (res, w1, l1)" by (metis prod_cases3)
  have "l' = l1" using assms k d by (auto simp: s3_get_def split: sum.splits prod.splits)
  moreover have "\<exists>calls. l1 = l @ calls \<and> one_exchange c (s3_digests env) (object_call ''GET'' b k etag) calls (isl r)
      (\<lambda>resp. \<forall>bd o1. r = Inr (bd, o1) \<longrightarrow> sp_status resp = 200 \<and> bd = (sp_body resp, sp_fault resp)
          \<and> so_etag o1 = sp_etag resp \<and> so_size o1 = sp_length resp)"
    by (rule s3_do_exchange [OF d])
      (use assms k d in \<open>auto simp: s3_get_def object_of_def go_err split: if_splits option.splits\<close>)
  ultimately show ?thesis using k by simp
qed

lemma s3_delete_recorded:
  assumes "s3_delete c (s3_recorded env) b k (w, l) = (r, w', l')"
  shows "\<exists>calls. l' = l @ calls \<and> (calls \<noteq> [] \<longrightarrow> check_object_key k = Inr ())
    \<and> one_exchange c (s3_digests env) (object_call ''DELETE'' b k '''') calls (r \<noteq> None)
       (\<lambda>resp. r = None \<longleftrightarrow> sp_status resp = 204 \<or> sp_status resp = 200)"
proof (cases "check_object_key k")
  case (Inl e)
  then show ?thesis using assms by (intro exI [of _ "[]"]) (auto simp: s3_delete_def intro!: no_exchange)
next
  case (Inr u)
  obtain res w1 l1 where d: "s3_do c (s3_recorded env) (object_call ''DELETE'' b k '''') (w, l) = (res, w1, l1)" by (metis prod_cases3)
  have "l' = l1" using assms Inr d by (auto simp: s3_delete_def split: sum.splits prod.splits)
  moreover have "\<exists>calls. l1 = l @ calls \<and> one_exchange c (s3_digests env) (object_call ''DELETE'' b k '''') calls (r \<noteq> None)
      (\<lambda>resp. r = None \<longleftrightarrow> sp_status resp = 204 \<or> sp_status resp = 200)"
    by (rule s3_do_exchange [OF d]) (use assms Inr d in \<open>auto simp: s3_delete_def split: if_splits\<close>)
  ultimately show ?thesis using Inr by simp
qed

lemma s3_list_recorded:
  assumes "s3_list c (s3_recorded env) b pfx limit (w, l) = (r, w', l')"
  shows "\<exists>calls. l' = l @ calls \<and> one_exchange c (s3_digests env) (list_call b pfx (min limit max_keys)) calls (isl r)
       (\<lambda>resp. \<forall>objs. r = Inr objs \<longrightarrow> sp_status resp = 200 \<and> sp_fault resp = None \<and> length (sp_body resp) \<le> max_list_bytes
          \<and> s3_listing env (sp_body resp) = Some objs)"
proof (cases "limit < 1 \<or> max_key_bytes < length pfx \<or> \<not> valid_utf8 pfx")
  case True
  then show ?thesis using assms by (intro exI [of _ "[]"]) (auto simp: s3_list_def intro!: no_exchange split: if_splits)
next
  case False
  obtain res w1 l1 where d: "s3_do c (s3_recorded env) (list_call b pfx (min limit max_keys)) (w, l) = (res, w1, l1)" by (metis prod_cases3)
  have "l' = l1" using assms False d by (auto simp: s3_list_def split: sum.splits prod.splits if_splits option.splits)
  moreover have "\<exists>calls. l1 = l @ calls \<and> one_exchange c (s3_digests env) (list_call b pfx (min limit max_keys)) calls (isl r)
      (\<lambda>resp. \<forall>objs. r = Inr objs \<longrightarrow> sp_status resp = 200 \<and> sp_fault resp = None \<and> length (sp_body resp) \<le> max_list_bytes
          \<and> s3_listing env (sp_body resp) = Some objs)"
    by (rule s3_do_exchange [OF d]) (use assms False d in \<open>auto simp: s3_list_def split: if_splits option.splits\<close>)
  ultimately show ?thesis by simp
qed

subsection \<open>What an error shows\<close>

lemma lower_ascii: "of_char (lower_char c) < (128 :: nat) \<Longrightarrow> of_char c < (128 :: nat)"
  by (auto simp: lower_char_def is_upper_def split: if_splits)

lemma hex_ascii: "is_hex (lower_char c) \<Longrightarrow> of_char c < (128 :: nat)"
  by (rule lower_ascii) (auto simp: is_hex_def is_digit_def)

text \<open>A match is a valid piece of text.\<close>

lemma match_signature_piece:
  assumes "match_signature s = Some rest"
  shows "\<exists>x. s = x @ rest \<and> runes_text (\<lambda>r. True) x"
proof -
  obtain u where u: "folded_s s = Some u" and w: "map lower_char (take 9 u) = ''ignature=''"
    and r: "rest = dropWhile (\<lambda>c. is_hex (lower_char c)) (drop 9 u)"
    using assms by (auto simp: match_signature_def signature_rest_def Let_def bind_eq_Some_conv split: if_splits)
  let ?h = "takeWhile (\<lambda>c. is_hex (lower_char c)) (drop 9 u)"
  have "list_all (\<lambda>c. of_char c < (128 :: nat)) (map lower_char (take 9 u))" unfolding w by code_simp
  then have "list_all (\<lambda>c. of_char c < (128 :: nat) \<and> True) (take 9 u)" by (auto simp: list_all_iff intro: lower_ascii)
  then have a: "runes_text (\<lambda>r. True) (take 9 u)" by (rule runes_text_ascii)
  have "list_all (\<lambda>c. of_char c < (128 :: nat) \<and> True) ?h" by (auto simp: list_all_iff intro: hex_ascii dest: set_takeWhileD)
  then have b: "runes_text (\<lambda>r. True) ?h" by (rule runes_text_ascii)
  have split: "u = take 9 u @ ?h @ rest" unfolding r by simp
  obtain y where y: "s = y @ u" "runes_text (\<lambda>r. True) y"
  proof (cases s rule: folded_s.cases)
    case (1 c d t)
    show ?thesis
    proof (cases "lower_char c = CHR ''s''")
      case True
      then have "of_char c < (128 :: nat)" using lower_ascii [of c] by simp
      then have "runes_text (\<lambda>r. True) [c]" using runes_text_ascii [of "\<lambda>r. True" "[c]"] by simp
      then show ?thesis using that [of "[c]"] 1 u True by simp
    next
      case False
      have "rune [CHR 0xC5, CHR 0xBF]" by code_simp
      then have "runes_text (\<lambda>r. True) [CHR 0xC5, CHR 0xBF]" using runes_textI [of "\<lambda>r. True" "[[CHR 0xC5, CHR 0xBF]]"] by simp
      then show ?thesis using that [of "[CHR 0xC5, CHR 0xBF]"] 1 u False by (simp split: if_splits)
    qed
  qed (use u in simp_all)
  have "s = (y @ take 9 u @ ?h) @ rest" using y(1) split by simp
  then show ?thesis using runes_text_append [OF y(2) runes_text_append [OF a b]] by blast
qed

lemma replaced_Cons: "replaced m (\<lambda>g. True) s s' \<Longrightarrow> replaced m (\<lambda>g. True) (c # s) (c # s')"
proof (induction rule: replaced.cases)
  case (piece g s s' x)
  then show ?case using replaced.piece [of "\<lambda>g. True" "c # g" m s s' x] by simp
qed (simp add: replaced.rest)

abbreviation signature_mark :: string where "signature_mark \<equiv> ''signature=***''"

lemma scrub_signatures_replaced: "replaced signature_mark (\<lambda>g. True) s (scrub_signatures s)"
proof (induction s rule: scrub_signatures.induct)
  case (2 c s)
  show ?case
  proof (cases "match_signature (c # s)")
    case None
    then show ?thesis using replaced_Cons [of signature_mark s "scrub_signatures s" c] 2 by simp
  next
    case (Some rest)
    then obtain x where "c # s = x @ rest" using match_signature_piece by blast
    moreover have "replaced signature_mark (\<lambda>g. True) rest (scrub_signatures rest)" using 2 Some by simp
    ultimately have "replaced signature_mark (\<lambda>g. True) (c # s) (signature_mark @ scrub_signatures rest)"
      using replaced.piece [of "\<lambda>g. True" "[]" signature_mark rest _ x] by simp
    then show ?thesis using Some by simp
  qed
qed (simp add: replaced.rest)

lemma scrub_skip: "list_all continuation u \<Longrightarrow> scrub_signatures (u @ t) = u @ scrub_signatures t"
proof (induction u)
  case (Cons c u)
  have "match_signature (c # u @ t) = None"
  proof -
    have "lower_char c \<noteq> CHR ''s'' \<and> c \<noteq> CHR 0xC5"
      using Cons.prems by (auto simp: between_def lower_char_def is_upper_def split: if_splits)
    then show ?thesis by (cases "u @ t") (auto simp: match_signature_def)
  qed
  then show ?case using Cons by simp
qed simp

lemma scrub_signatures_plain: "plain_text s \<Longrightarrow> plain_text (scrub_signatures s)"
proof (induction "length s" arbitrary: s rule: less_induct)
  case less
  show ?case
  proof (cases s)
    case (Cons c s')
    show ?thesis
    proof (cases "match_signature s")
      case (Some rest)
      then obtain x where x: "s = x @ rest" "runes_text (\<lambda>r. True) x" using match_signature_piece by blast
      have "plain_text rest" using runes_text_drop [OF x(2)] less.prems x(1) by simp
      moreover have "length rest < length s" using match_signature_shorter [OF Some] .
      ultimately have "plain_text (scrub_signatures rest)" using less.hyps by blast
      moreover have "plain_text signature_mark" by (rule runes_text_ascii) code_simp
      ultimately have "plain_text (signature_mark @ scrub_signatures rest)" by (intro runes_text_append)
      then show ?thesis using Some Cons by simp
    next
      case None
      obtain r t where rt: "s = r @ t" "rune r" "\<not> control_text r" "plain_text t" using runes_text_split [OF less.prems] Cons by auto
      obtain u where u: "r = c # u" using rt Cons by (cases r) (auto simp: rune_def)
      have "scrub_signatures s = c # scrub_signatures (u @ t)" using None Cons rt(1) u by simp
      then have "scrub_signatures s = r @ scrub_signatures t" using scrub_skip [OF rune_tail, of c u t] rt(2) u by simp
      moreover have "plain_text (scrub_signatures t)" using less.hyps [of t] rt(1,4) u by simp
      ultimately show ?thesis using rt(2,3) runes_text_Cons by simp
    qed
  qed simp
qed

abbreviation stars :: string where "stars \<equiv> ''***''"

lemma stars_plain: "plain_text stars"
  by (rule runes_text_ascii) code_simp

lemma scrub_secrets_plain: "list_all valid_utf8 secrets \<Longrightarrow> plain_text s \<Longrightarrow> plain_text (scrub_secrets secrets s)"
proof (induction secrets arbitrary: s)
  case (Cons sec secrets)
  then have "plain_text (if sec \<noteq> '''' then replace_all sec stars s else s)"
    using replace_all_runes [OF _ stars_plain, of sec s] by simp
  then show ?case using Cons by (simp add: scrub_secrets_def)
qed (simp add: scrub_secrets_def)

lemma scrub_secrets_absent: "apart w stars \<Longrightarrow> w \<in> set secrets \<or> \<not> sublist w s \<Longrightarrow> \<not> sublist w (scrub_secrets secrets s)"
proof (induction secrets arbitrary: s)
  case (Cons sec secrets)
  have "w \<in> set secrets \<or> \<not> sublist w (if sec \<noteq> '''' then replace_all sec stars s else s)"
    using Cons.prems replace_all_removes [of w stars s] replace_all_keeps_absent [of sec w stars s]
    by (auto simp: apart_iff)
  then show ?case using Cons.IH [OF Cons.prems(1)] by (simp add: scrub_secrets_def)
qed (simp add: scrub_secrets_def)

lemma s3_clean_plain:
  assumes "list_all valid_utf8 secrets"
  shows "plain_text (s3_clean s secrets)" and "length (chunks (s3_clean s secrets)) \<le> max_message_chars"
    and "apart w stars \<Longrightarrow> apart w signature_mark \<Longrightarrow> w \<in> set secrets \<Longrightarrow> \<not> contains_str w (s3_clean s secrets)"
proof -
  let ?a = "scrub_secrets secrets (strip_control (to_valid s))"
  let ?b = "scrub_signatures ?a"
  have "plain_text ?a" using scrub_secrets_plain [OF assms strip_control_plain] .
  then have plain: "plain_text ?b" by (rule scrub_signatures_plain)
  then have valid: "valid_utf8 ?b" by (auto simp: valid_utf8_iff elim: runes_text_mono)
  have clean: "s3_clean s secrets = cut_runes max_message_chars ?b" by (simp add: s3_clean_def strip_control_id [OF plain])
  show "plain_text (s3_clean s secrets)" unfolding clean by (rule cut_runes_plain [OF plain])
  show "length (chunks (s3_clean s secrets)) \<le> max_message_chars" unfolding clean by (rule cut_runes_length [OF valid])
  show "\<not> contains_str w (s3_clean s secrets)" if "apart w stars" "apart w signature_mark" "w \<in> set secrets"
  proof -
    have "\<not> sublist w ?a" using scrub_secrets_absent [OF that(1)] that(3) by blast
    then have "\<not> sublist w ?b" using replaced_kept [OF scrub_signatures_replaced that(2)] by blast
    then show ?thesis unfolding clean contains_str_iff by (rule sublist_cut [OF valid])
  qed
qed

text \<open>The second marker lower-cases the letter before it: a key that ends in s can appear where the answer did not
  hold it, after the keys were replaced.\<close>

lemma marker_shows_key:
  "\<not> contains_str ''ks'' ''kSignature=0'' \<and> s3_clean ''kSignature=0'' [''AK'', ''ks'', ''73''] = ''ksignature=***''
    \<and> contains_str ''ks'' (s3_clean ''kSignature=0'' [''AK'', ''ks'', ''73''])"
proof -
  have plain: "plain_text ''kSignature=0''" "plain_text ''ksignature=***''" by (rule runes_text_ascii; code_simp)+
  have "scrub_signatures (scrub_secrets [''AK'', ''ks'', ''73''] ''kSignature=0'') = ''ksignature=***''" by code_simp
  then have clean: "s3_clean ''kSignature=0'' [''AK'', ''ks'', ''73''] = ''ksignature=***''"
    using plain by (simp add: s3_clean_def to_valid_id strip_control_id cut_runes_short max_message_chars_def)
  have "\<not> contains_str ''ks'' ''kSignature=0'' \<and> contains_str ''ks'' ''ksignature=***''" by code_simp
  then show ?thesis unfolding clean by simp
qed

text \<open>The secrets of a request, and an error whose two texts went through \<^verbatim>\<open>clean\<close> with them.\<close>

definition secrets_at :: "s3_client \<Rightarrow> digests_api \<Rightarrow> s3_call \<Rightarrow> stamp \<Rightarrow> string list" where
  "secrets_at c dg r now = [sc_access c, sc_secret c, signature_of dg (call_input c r now)]"

definition scrubbed :: "s3_client \<Rightarrow> digests_api \<Rightarrow> s3_error \<Rightarrow> bool" where
  "scrubbed c dg e \<longleftrightarrow> (\<forall>n code msg. e = S3_Answer n code msg \<longrightarrow>
     (\<exists>r now a b. code = s3_clean a (secrets_at c dg r now) \<and> msg = s3_clean b (secrets_at c dg r now)))"

lemma s3_do_results:
  assumes "s3_do c env r w = (res, w')"
  shows "(\<exists>e. res = Inl e \<and> scrubbed c (s3_digests env) e)
    \<or> (\<exists>resp now. res = Inr (resp, secrets_at c (s3_digests env) r now))"
  using assms
  by (auto simp: s3_do_def Let_def check_bucket_def guard_err_def secrets_at_def scrubbed_def
      split: sum.splits prod.splits if_splits)

lemma status_error_scrubbed: "scrubbed c dg (s3_status_error env resp (secrets_at c dg r now))"
  by (auto simp: scrubbed_def s3_status_error_def Let_def split: prod.splits if_splits)

lemma check_object_key_scrubbed: "check_object_key k = Inl e \<Longrightarrow> scrubbed c dg e"
  by (auto simp: check_object_key_def scrubbed_def split: if_splits)

lemma object_of_scrubbed: "object_of env k resp = Inl e \<Longrightarrow> scrubbed c dg e"
  by (auto simp: object_of_def scrubbed_def split: if_splits option.splits)

lemma own_scrubbed [simp]: "scrubbed c dg (S3_Own m)" "scrubbed c dg (S3_Fault what f)"
  by (simp_all add: scrubbed_def)

lemma s3_list_scrubbed: "s3_list c env b p n w = (Inl e, w') \<Longrightarrow> scrubbed c (s3_digests env) e"
  using s3_do_results [of c env "list_call b p (min n max_keys)" w]
  by (auto simp: s3_list_def status_error_scrubbed split: if_splits prod.splits sum.splits option.splits)

lemma s3_head_scrubbed: "s3_head c env b k w = (Inl e, w') \<Longrightarrow> scrubbed c (s3_digests env) e"
  using s3_do_results [of c env "object_call ''HEAD'' b k ''''" w]
  by (auto simp: s3_head_def status_error_scrubbed check_object_key_scrubbed object_of_scrubbed split: if_splits prod.splits sum.splits)

lemma s3_get_scrubbed: "s3_get c env b k t w = (Inl e, w') \<Longrightarrow> scrubbed c (s3_digests env) e"
  using s3_do_results [of c env "object_call ''GET'' b k t" w]
  by (auto simp: s3_get_def status_error_scrubbed check_object_key_scrubbed object_of_scrubbed go_err split: if_splits prod.splits sum.splits)

lemma s3_delete_scrubbed: "s3_delete c env b k w = (Some e, w') \<Longrightarrow> scrubbed c (s3_digests env) e"
  using s3_do_results [of c env "object_call ''DELETE'' b k ''''" w]
  by (auto simp: s3_delete_def status_error_scrubbed check_object_key_scrubbed split: if_splits prod.splits sum.splits)

lemma signature_utf8: "valid_utf8 (signature_of dg i)"
proof -
  have "list_all (\<lambda>c. of_char c < (128 :: nat) \<and> True) (hex_encode b)" for b
  proof (induction b)
    case (Cons c b)
    have "list_all (\<lambda>d. of_char d < (128 :: nat)) ''0123456789abcdef''" by code_simp
    then have "n < 16 \<Longrightarrow> of_char (hex_digit n) < (128 :: nat)" for n
      using hex_digit_facts(1) [of n] unfolding list_all_iff by blast
    then show ?case using Cons nibbles [of c] by (simp add: hex_encode_Cons)
  qed (simp add: hex_encode_def)
  then show ?thesis unfolding signature_of_def valid_utf8_iff by (rule runes_text_ascii)
qed

lemma new_s3_client:
  "new_s3 read pem cfg = Inr c \<Longrightarrow> sc_access c = cg_access cfg \<and> sc_secret c = cg_secret cfg"
  by (auto simp: new_s3_def go_err split: option.splits if_splits sum.splits)

text \<open>C32. What an error of the MinIO client shows. With an access and a secret key that are valid UTF-8, whatever
  MinIO answers to a listing, a head, a read or a removal, the code and the message of the error have no
  control character and at most 300 runes, and hold neither key, each as long as it overlaps neither marker
  that the cleaning writes, \<^verbatim>\<open>***\<close> and \<^verbatim>\<open>signature=***\<close>: it is not part of one, nor the other way round, and no end of
  one is a start of the other. A key that ends in s is among those excepted.\<close>

theorem s3_errors_hide:
  assumes "new_s3 read pem cfg = Inr c" and "valid_utf8 (cg_access cfg)" and "valid_utf8 (cg_secret cfg)"
    and "s3_list c env b p n w = (Inl e, w') \<or> s3_head c env b k w = (Inl e, w') \<or> s3_get c env b k t w = (Inl e, w')
      \<or> s3_delete c env b k w = (Some e, w')"
    and "e = S3_Answer status code msg" and "m \<in> {code, msg}"
  shows "plain_text m \<and> length (chunks m) \<le> max_message_chars
    \<and> (\<forall>key \<in> {cg_access cfg, cg_secret cfg}. apart key ''***'' \<and> apart key ''signature=***'' \<longrightarrow> \<not> contains_str key m)"
proof -
  have c: "sc_access c = cg_access cfg" "sc_secret c = cg_secret cfg" using new_s3_client [OF assms(1)] by simp_all
  have "scrubbed c (s3_digests env) e"
    using assms(4) by (elim disjE) (simp_all add: s3_list_scrubbed s3_head_scrubbed s3_get_scrubbed s3_delete_scrubbed)
  then obtain r now s where m: "m = s3_clean s (secrets_at c (s3_digests env) r now)"
    using assms(5,6) by (auto simp: scrubbed_def)
  have valid: "list_all valid_utf8 (secrets_at c (s3_digests env) r now)"
    and keys: "{cg_access cfg, cg_secret cfg} \<subseteq> set (secrets_at c (s3_digests env) r now)"
    using assms(2,3) c by (auto simp: secrets_at_def signature_utf8)
  have "\<not> contains_str key m" if "key \<in> {cg_access cfg, cg_secret cfg}" "apart key ''***''" "apart key ''signature=***''" for key
    unfolding m using s3_clean_plain(3) [OF valid that(2,3)] keys that(1) by blast
  then show ?thesis using s3_clean_plain(1,2) [OF valid, of s] unfolding m by blast
qed

subsection \<open>What a signature binds\<close>

lemma stamp_lengths: "length (format_stamp t) = 16" "length (format_date t) = 8"
  by (simp_all add: format_stamp_def format_date_def pad2_def)

lemma check_bucket_no_slash: "check_bucket b = Inr u \<Longrightarrow> CHR ''/'' \<notin> set b"
proof -
  assume "check_bucket b = Inr u"
  then have "b \<in> rx_lang bucket_name" by (auto simp: check_bucket_def go_err rx_match_lang)
  then obtain x y z where b: "b = x @ y @ z" "x \<in> rx_lang (Cls bucket_edge)" "y \<in> rx_lang (Star (Cls bucket_inner))"
      "z \<in> rx_lang (Cls bucket_edge)"
    unfolding bucket_name_def by (elim lang_SeqE) blast
  have "list_all bucket_inner y" using b(3) by (simp only: lang_Star_Cls)
  then have "list_all bucket_inner b" using b(1,2,4) by (auto simp: bucket_edge_def bucket_inner_def)
  moreover have "\<not> bucket_inner CHR ''/''" by code_simp
  ultimately show ?thesis by (auto simp: list_all_iff)
qed

text \<open>The calls of the client: a method that reads or removes, a bucket that passes, an ETag on one line.\<close>

definition proper_call :: "s3_call \<Rightarrow> bool" where
  "proper_call r \<longleftrightarrow> ca_method r \<in> {''GET'', ''HEAD'', ''DELETE''} \<and> check_bucket (ca_bucket r) = Inr () \<and> CHR 0x0A \<notin> set (ca_match r)"

definition same_call :: "s3_call \<Rightarrow> s3_call \<Rightarrow> bool" where
  "same_call r q \<longleftrightarrow> ca_method r = ca_method q \<and> ca_bucket r = ca_bucket q \<and> ca_key r = ca_key q
     \<and> canonical_query (ca_query r) = canonical_query (ca_query q) \<and> match_line r = match_line q"

text \<open>Two requests whose digests collide, at one of the two hashes a signature uses.\<close>

definition digests_collide :: "digests_api \<Rightarrow> sign_input \<Rightarrow> sign_input \<Rightarrow> bool" where
  "digests_collide dg i j \<longleftrightarrow>
     (canonical_text i \<noteq> canonical_text j \<and> dg_sha256 dg (canonical_text i) = dg_sha256 dg (canonical_text j))
     \<or> (text_to_sign dg i \<noteq> text_to_sign dg j
        \<and> dg_hmac dg (signing_key dg i) (text_to_sign dg i) = dg_hmac dg (signing_key dg j) (text_to_sign dg j))"

text \<open>C33. A signature of the MinIO client is good for one call only. Unless a hash collides on the two very
  texts, calls of one client with the same signature have the same method, bucket and key, the same
  query, the same If-Match after trimming, and the same second.\<close>

theorem signature_binds:
  assumes "proper_call r" and "proper_call q"
    and "signature_of dg (call_input c r t) = signature_of dg (call_input c q u)"
    and "\<not> digests_collide dg (call_input c r t) (call_input c q u)"
  shows "same_call r q \<and> format_stamp t = format_stamp u"
proof -
  let ?i = "call_input c r t" and ?j = "call_input c q u"
  have "dg_hmac dg (signing_key dg ?i) (text_to_sign dg ?i) = dg_hmac dg (signing_key dg ?j) (text_to_sign dg ?j)"
    using assms(3) by (simp add: signature_of_def hex_encode_inj)
  then have eq: "text_to_sign dg ?i = text_to_sign dg ?j" using assms(4) by (auto simp: digests_collide_def)
  then have "format_stamp t = format_stamp u \<and> dg_sha256 dg (canonical_text ?i) = dg_sha256 dg (canonical_text ?j)"
    by (simp add: text_to_sign_def sign_scope_def call_input_def stamp_lengths hex_encode_inj)
  then have same: "format_stamp t = format_stamp u" "canonical_text ?i = canonical_text ?j"
    using assms(4) by (auto simp: digests_collide_def)
  have "CHR 0x0A \<notin> set (ca_method r)" "CHR 0x0A \<notin> set (ca_method q)" using assms(1,2) by (auto simp: proper_call_def)
  moreover have "CHR 0x0A \<notin> set (ca_match r)" "CHR 0x0A \<notin> set (ca_match q)" using assms(1,2) by (auto simp: proper_call_def)
  moreover have "CHR ''/'' \<notin> set (ca_bucket r)" "CHR ''/'' \<notin> set (ca_bucket q)"
    using assms(1,2) check_bucket_no_slash by (auto simp: proper_call_def)
  ultimately show ?thesis using canonical_binds [OF same(2)] same(1) by (simp add: same_call_def)
qed

subsection \<open>A removal over HTTP\<close>

lemma minio_objects_simps [simp]:
  "oj_head (minio_objects c env) b k w = (case s3_head c env b k w of (r, w') \<Rightarrow> (map_sum minio_error_of head_of r, w'))"
  "oj_delete (minio_objects c env) b k w = (case s3_delete c env b k w of (r, w') \<Rightarrow> (map_option minio_error_of r, w'))"
  by (simp_all add: minio_objects_def)

fun deleted :: "s3_fault + s3_response \<Rightarrow> bool" where
  "deleted (Inl f) = False"
| "deleted (Inr resp) \<longleftrightarrow> sp_status resp = 204 \<or> sp_status resp = 200"

definition only_heads :: "s3_exchange list \<Rightarrow> bool" where
  "only_heads calls \<longleftrightarrow> list_all (\<lambda>(q, a). sq_method q = ''HEAD'') calls"

text \<open>The exchange that shows an object unchanged.\<close>

definition unchanged_head :: "s3_client \<Rightarrow> digests_api \<Rightarrow> string \<Rightarrow> object \<Rightarrow> s3_exchange \<Rightarrow> bool" where
  "unchanged_head c dg bucket want ex \<longleftrightarrow> carries c dg (object_call ''HEAD'' bucket (ob_key want) '''') (fst ex)
     \<and> (\<exists>resp. snd ex = Inr resp \<and> sp_status resp = 200 \<and> sp_etag resp = ob_etag want)"

definition delete_exchange :: "s3_client \<Rightarrow> digests_api \<Rightarrow> string \<Rightarrow> object \<Rightarrow> s3_exchange \<Rightarrow> bool" where
  "delete_exchange c dg bucket want ex \<longleftrightarrow> carries c dg (object_call ''DELETE'' bucket (ob_key want) '''') (fst ex)"

lemma only_heads_simps [simp]:
  "only_heads []" "only_heads (ex # l) \<longleftrightarrow> sq_method (fst ex) = ''HEAD'' \<and> only_heads l" "only_heads (l @ l') \<longleftrightarrow> only_heads l \<and> only_heads l'"
  by (auto simp: only_heads_def)

lemma unchanged_head_method: "unchanged_head c dg b want ex \<Longrightarrow> sq_method (fst ex) = ''HEAD''"
  by (auto simp: unchanged_head_def carries_def object_call_def)

lemma check_removable_http:
  assumes "check_removable ru (minio_objects c (s3_recorded env)) bucket what want (w, l) = (r, w', l')"
  shows "\<exists>calls. l' = l @ calls \<and> only_heads calls
    \<and> (r = None \<longrightarrow> (\<exists>ex. calls = [ex] \<and> unchanged_head c (s3_digests env) bucket want ex))"
proof -
  obtain h w1 l1 where h: "s3_head c (s3_recorded env) bucket (ob_key want) (w, l) = (h, w1, l1)" by (metis prod_cases3)
  have l1: "l' = l1" using assms h by (auto simp: check_removable_def split: sum.splits minio_error.splits)
  have none: "\<exists>o1. h = Inr o1 \<and> so_etag o1 = ob_etag want" if n: "r = None"
    using assms h n by (cases h) (auto simp: check_removable_def head_of_def split: minio_error.splits if_splits)
  obtain calls where c: "l1 = l @ calls" and ex: "one_exchange c (s3_digests env) (object_call ''HEAD'' bucket (ob_key want) '''') calls (isl h)
      (\<lambda>resp. \<forall>o1. h = Inr o1 \<longrightarrow> sp_status resp = 200 \<and> so_etag o1 = sp_etag resp \<and> so_size o1 = sp_length resp)"
    using s3_head_recorded [OF h] by blast
  have "only_heads calls" using ex by (auto simp: one_exchange_def carries_def object_call_def)
  moreover have "\<exists>ex. calls = [ex] \<and> unchanged_head c (s3_digests env) bucket want ex" if n: "r = None"
  proof -
    obtain o1 where o1: "h = Inr o1" "so_etag o1 = ob_etag want" using none [OF n] by blast
    have "\<exists>q a. calls = [(q, a)] \<and> carries c (s3_digests env) (object_call ''HEAD'' bucket (ob_key want) '''') q
      \<and> (case a of Inl f \<Rightarrow> False | Inr resp \<Rightarrow> sp_status resp = 200 \<and> so_etag o1 = sp_etag resp \<and> so_size o1 = sp_length resp)"
      using ex o1(1) unfolding one_exchange_def by (simp cong: sum.case_cong)
    then obtain q a where qa: "calls = [(q, a)]" "carries c (s3_digests env) (object_call ''HEAD'' bucket (ob_key want) '''') q"
      "case a of Inl f \<Rightarrow> False | Inr resp \<Rightarrow> sp_status resp = 200 \<and> so_etag o1 = sp_etag resp \<and> so_size o1 = sp_length resp"
      by blast
    then show ?thesis using o1(2) by (intro exI [of _ "(q, a)"]) (cases a; simp add: unchanged_head_def)
  qed
  ultimately show ?thesis using l1 c by blast
qed

lemma delete_http:
  assumes "oj_delete (minio_objects c (s3_recorded env)) bucket (ob_key want) (w, l) = (r, w', l')"
  shows "(l' = l \<and> r \<noteq> None) \<or> (\<exists>ex. l' = l @ [ex] \<and> delete_exchange c (s3_digests env) bucket want ex \<and> (r = None \<longleftrightarrow> deleted (snd ex)))"
proof -
  obtain d where d: "s3_delete c (s3_recorded env) bucket (ob_key want) (w, l) = (d, w', l')" and r: "r = map_option minio_error_of d"
    using assms by (auto split: prod.splits)
  obtain calls where c: "l' = l @ calls" and ex: "one_exchange c (s3_digests env) (object_call ''DELETE'' bucket (ob_key want) '''') calls (d \<noteq> None)
      (\<lambda>resp. d = None \<longleftrightarrow> sp_status resp = 204 \<or> sp_status resp = 200)"
    using s3_delete_recorded [OF d] by blast
  from ex show ?thesis unfolding one_exchange_def
  proof (elim disjE conjE exE)
    fix q a
    assume q: "calls = [(q, a)]" "carries c (s3_digests env) (object_call ''DELETE'' bucket (ob_key want) '''') q"
      and "case a of Inl f \<Rightarrow> d \<noteq> None | Inr resp \<Rightarrow> d = None \<longleftrightarrow> sp_status resp = 204 \<or> sp_status resp = 200"
    then have "d = None \<longleftrightarrow> deleted a" by (cases a) simp_all
    then show ?thesis using q c r by (intro disjI2 exI [of _ "(q, a)"]) (simp add: delete_exchange_def)
  qed (use c r in simp)
qed

text \<open>C12. Nothing of a user's is deleted on a guess, down to the requests MinIO gets. Whatever the network answers, removing
  an import through the client sends only HEAD requests and removes nothing, or MinIO first answered
  200 to a HEAD of the archive and one of the manifest, each with the recorded ETag, and then got a
  DELETE of the archive; it says removed exactly when that DELETE was answered 204 or 200, and only
  then the manifest is deleted. Each request is signed, and its path decodes to the object's.\<close>

theorem removal_over_http:
  assumes "remove_objects ru (minio_objects c (s3_recorded env)) bucket imp (w, []) = (rm, w', calls)"
  shows "(only_heads calls \<and> \<not> rm_removed rm) \<or> (\<exists>h1 h2 d rest. calls = h1 # h2 # d # rest
    \<and> unchanged_head c (s3_digests env) bucket (im_archive imp) h1 \<and> unchanged_head c (s3_digests env) bucket (im_manifest imp) h2
    \<and> delete_exchange c (s3_digests env) bucket (im_archive imp) d \<and> (rm_removed rm \<longleftrightarrow> deleted (snd d))
    \<and> (rest = [] \<or> deleted (snd d) \<and> (\<exists>d2. rest = [d2] \<and> delete_exchange c (s3_digests env) bucket (im_manifest imp) d2)))"
proof -
  let ?oj = "minio_objects c (s3_recorded env)" and ?dg = "s3_digests env"
  obtain r1 w1 l1 where a: "check_removable ru ?oj bucket ''the archive'' (im_archive imp) (w, []) = (r1, w1, l1)" by (metis prod_cases3)
  obtain r2 w2 l2 where b: "check_removable ru ?oj bucket ''the manifest'' (im_manifest imp) (w1, l1) = (r2, w2, l2)" by (metis prod_cases3)
  have la: "only_heads l1 \<and> (r1 = None \<longrightarrow> (\<exists>h. l1 = [h] \<and> unchanged_head c ?dg bucket (im_archive imp) h))"
    using check_removable_http [OF a] by auto
  obtain lb where lb: "l2 = l1 @ lb" "only_heads lb" "r2 = None \<longrightarrow> (\<exists>h. lb = [h] \<and> unchanged_head c ?dg bucket (im_manifest imp) h)"
    using check_removable_http [OF b] by blast
  show ?thesis
  proof (cases "r1 = None \<and> r2 = None")
    case False
    then have "only_heads calls \<and> \<not> rm_removed rm"
      using assms a b la lb by (auto simp: remove_objects_def kept_def split: option.splits)
    then show ?thesis by blast
  next
    case True
    then obtain h1 h2 where h: "l2 = [h1, h2]" "unchanged_head c ?dg bucket (im_archive imp) h1" "unchanged_head c ?dg bucket (im_manifest imp) h2"
      using la lb by auto
    obtain r3 w3 l3 where d: "oj_delete ?oj bucket (ob_key (im_archive imp)) (w2, l2) = (r3, w3, l3)" by (metis prod_cases3)
    obtain r4 w4 l4 where d2: "oj_delete ?oj bucket (ob_key (im_manifest imp)) (w3, l3) = (r4, w4, l4)" by (metis prod_cases3)
    have out: "rm_removed rm = (r3 = None)" "calls = (if r3 = None then l4 else l3)"
      using assms a b True d d2 by (auto simp del: minio_objects_simps simp: remove_objects_def kept_def split: option.splits)
    from delete_http [OF d] show ?thesis
    proof (elim disjE conjE exE)
      assume "l3 = l2" "r3 \<noteq> None"
      then have "only_heads calls \<and> \<not> rm_removed rm" using out h unchanged_head_method by auto
      then show ?thesis by blast
    next
      fix ex
      assume e: "l3 = l2 @ [ex]" "delete_exchange c ?dg bucket (im_archive imp) ex" "r3 = None \<longleftrightarrow> deleted (snd ex)"
      from delete_http [OF d2] have "l4 = l3 \<or> (\<exists>ex2. l4 = l3 @ [ex2] \<and> delete_exchange c ?dg bucket (im_manifest imp) ex2)" by blast
      then have "\<exists>rest. calls = h1 # h2 # ex # rest
          \<and> (rest = [] \<or> deleted (snd ex) \<and> (\<exists>d2. rest = [d2] \<and> delete_exchange c ?dg bucket (im_manifest imp) d2))"
        using out(2) e h(1) by auto
      then show ?thesis using h e out(1) by blast
    qed
  qed
qed

subsection \<open>Examples\<close>

definition sample_s3_stamp :: stamp where
  "sample_s3_stamp = \<lparr>sm_year = 2026, sm_month = 1, sm_day = 2, sm_hour = 3, sm_minute = 4, sm_second = 5\<rparr>"

definition sample_s3_config :: s3_config where
  "sample_s3_config = \<lparr>cg_url = Some (sample_url ''minio.lan''), cg_region = '''', cg_access = ''AK'', cg_secret = ''SK'', cg_ca = ''''\<rparr>"

definition sample_s3 :: s3_client where
  "sample_s3 = \<lparr>sc_base = sample_url ''minio.lan'', sc_region = default_region, sc_access = ''AK'', sc_secret = ''SK''\<rparr>"

definition sample_s3_answer :: "int \<Rightarrow> s3_response" where
  "sample_s3_answer n = \<lparr>sp_status = n, sp_length = 1, sp_etag = ''e'', sp_modified = '''', sp_body = '''', sp_fault = None\<rparr>"

text \<open>A server that refuses every call with an answer that quotes a key.\<close>

definition strict_minio :: "unit s3_env" where
  "strict_minio = \<lparr>s3_send = (\<lambda>q w. (Inr (sample_s3_answer 403), w)), s3_now = (\<lambda>w. sample_s3_stamp), s3_parse = (\<lambda>u. True), s3_valid = (\<lambda>u. True),
     s3_digests = \<lparr>dg_sha256 = (\<lambda>b. b), dg_hmac = (\<lambda>k b. ''s'')\<rparr>, s3_listing = (\<lambda>b. None),
     s3_tokens = (\<lambda>b. [Xml_Start ''Code'', Xml_Chars ''Denied'', Xml_End, Xml_Start ''Message'', Xml_Chars ''not AK'', Xml_End]),
     s3_date = (\<lambda>d. None)\<rparr>"

definition steady_minio :: "unit s3_env" where
  "steady_minio = strict_minio\<lparr>s3_send := (\<lambda>q w. (Inr (sample_s3_answer (if sq_method q = ''DELETE'' then 204 else 200)), w))\<rparr>"

lemma sample_s3_new: "new_s3 (\<lambda>_. Inl '''') (\<lambda>_. True) sample_s3_config = Inr sample_s3"
  by (simp add: new_s3_def sample_s3_config_def sample_s3_def sample_url_def)

lemma sample_bucket: "check_bucket ''user-ann'' = Inr ()"
proof -
  have "rx_match bucket_name ''user-ann''" "\<not> contains_str ''..'' ''user-ann''" by code_simp+
  then show ?thesis by (simp add: check_bucket_def min_bucket_len_def max_bucket_len_def del: rx_match.simps)
qed

lemma sample_key: "k \<in> {''packages/npm/a.tar.gz'', ''k''} \<Longrightarrow> check_object_key k = Inr ()"
proof -
  assume k: "k \<in> {''packages/npm/a.tar.gz'', ''k''}"
  have "list_all (\<lambda>k. list_all (\<lambda>c. of_char c < (128 :: nat) \<and> \<not> control_text [c]) k) [''packages/npm/a.tar.gz'', ''k'']"
    by code_simp
  then have "plain_text k" using k by (intro runes_text_ascii) auto
  then have "valid_utf8 k" "\<not> has_control k"
    by (auto simp: valid_utf8_iff has_control_def runes_text_chunks list_all_iff list_ex_iff)
  moreover have "list_all (\<lambda>k. \<not> list_ex (\<lambda>s. s = ''.'' \<or> s = ''..'') (split_char CHR ''/'' k)) [''packages/npm/a.tar.gz'', ''k'']"
    by code_simp
  ultimately show ?thesis using k by (auto simp: check_object_key_def max_key_bytes_def)
qed

lemma sample_secrets: "secrets_at sample_s3 (s3_digests strict_minio) r now = [''AK'', ''SK'', ''73'']"
  by (simp add: secrets_at_def sample_s3_def signature_of_def strict_minio_def hex_encode_def hex_digit_def digit_char_def char_of_def bit_iff_odd)

lemma sample_refusal: "s3_delete sample_s3 strict_minio ''user-ann'' ''packages/npm/a.tar.gz'' () = (Some (S3_Answer 403 ''Denied'' ''not ***''), ())"
proof -
  have plain: "plain_text ''Denied''" "plain_text ''not AK''" "plain_text ''not ***''" by (rule runes_text_ascii; code_simp)+
  have "scrub_signatures (scrub_secrets [''AK'', ''SK'', ''73''] ''Denied'') = ''Denied''"
    "scrub_signatures (scrub_secrets [''AK'', ''SK'', ''73''] ''not AK'') = ''not ***''" by code_simp+
  then have clean: "s3_clean ''Denied'' [''AK'', ''SK'', ''73''] = ''Denied''" "s3_clean ''not AK'' [''AK'', ''SK'', ''73''] = ''not ***''"
    using plain by (simp_all add: s3_clean_def to_valid_id strip_control_id cut_runes_short max_message_chars_def)
  have "parse_error strict_minio b = (''Denied'', ''not AK'')" for b
    by (simp add: parse_error_def strict_minio_def error_token_def)
  then have err: "s3_status_error strict_minio (sample_s3_answer 403) [''AK'', ''SK'', ''73''] = S3_Answer 403 ''Denied'' ''not ***''"
    using clean by (simp add: s3_status_error_def sample_s3_answer_def)
  have "s3_do sample_s3 strict_minio (object_call ''DELETE'' ''user-ann'' ''packages/npm/a.tar.gz'' '''') ()
      = (Inr (sample_s3_answer 403, secrets_at sample_s3 (s3_digests strict_minio) (object_call ''DELETE'' ''user-ann'' ''packages/npm/a.tar.gz'' '''') sample_s3_stamp), ())"
    by (simp add: s3_do_def object_call_def sample_bucket secrets_at_def) (simp add: strict_minio_def)
  then show ?thesis using err by (simp add: s3_delete_def sample_key sample_secrets) (simp add: sample_s3_answer_def)
qed

theorem s3_errors_hide_witness:
  "\<not> contains_str ''AK'' ''not ***'' \<and> \<not> contains_str ''SK'' ''not ***'' \<and> plain_text ''not ***''
    \<and> length (chunks ''not ***'') \<le> max_message_chars"
proof -
  have cfg: "cg_access sample_s3_config = ''AK''" "cg_secret sample_s3_config = ''SK''" by (simp_all add: sample_s3_config_def)
  have "valid_utf8 ''AK''" "valid_utf8 ''SK''" "apart ''AK'' ''***''" "apart ''AK'' ''signature=***''"
    "apart ''SK'' ''***''" "apart ''SK'' ''signature=***''" by code_simp+
  then show ?thesis
    using s3_errors_hide [OF sample_s3_new, where e = "S3_Answer 403 ''Denied'' ''not ***''"
      and env = strict_minio and b = "''user-ann''" and k = "''packages/npm/a.tar.gz''" and w = "()" and w' = "()" and m = "''not ***''"]
      sample_refusal cfg by auto
qed

lemma steady_do: "check_bucket (ca_bucket r) = Inr () \<Longrightarrow> s3_do sample_s3 (s3_recorded steady_minio) r ((), l)
    = (let i = call_input sample_s3 r sample_s3_stamp;
           q = \<lparr>sq_method = ca_method r, sq_host = ''minio.lan'', sq_uri = sg_uri i, sq_query = sg_query i,
             sq_headers = filter (\<lambda>(n, v). n \<noteq> ''host'') (sg_headers i), sq_authorization = authorization_of (s3_digests steady_minio) i\<rparr>;
           a = sample_s3_answer (if ca_method r = ''DELETE'' then 204 else 200) in
       (Inr (a, secrets_at sample_s3 (s3_digests steady_minio) r sample_s3_stamp), ((), l @ [(q, Inr a)])))"
  by (simp add: s3_do_def Let_def secrets_at_def sample_s3_def sample_url_def) (simp add: steady_minio_def strict_minio_def)

lemma steady_removal: "\<exists>calls. remove_objects (pe_runes sample_publish_env) (minio_objects sample_s3 (s3_recorded steady_minio)) ''user-ann''
    sample_import ((), []) = (\<lparr>rm_removed = True, rm_reason = ''''\<rparr>, ((), calls))"
proof -
  have keys: "check_object_key (ob_key (im_archive sample_import)) = Inr ()" "check_object_key (ob_key (im_manifest sample_import)) = Inr ()"
    and etags: "ob_etag (im_archive sample_import) = ''e''" "ob_etag (im_manifest sample_import) = ''e''"
    by (simp_all add: sample_import_def sample_object_def sample_key)
  have head: "\<exists>q. s3_head sample_s3 (s3_recorded steady_minio) ''user-ann'' k ((), l)
      = (Inr \<lparr>so_key = k, so_etag = ''e'', so_size = 1, so_modified = no_time\<rparr>, ((), l @ [q]))" if "check_object_key k = Inr ()" for k l
    using that by (simp add: s3_head_def steady_do object_call_def sample_bucket object_of_def sample_s3_answer_def Let_def)
  have del: "\<exists>q. s3_delete sample_s3 (s3_recorded steady_minio) ''user-ann'' k ((), l) = (None, ((), l @ [q]))" if "check_object_key k = Inr ()" for k l
    using that by (simp add: s3_delete_def steady_do object_call_def sample_bucket sample_s3_answer_def Let_def)
  obtain q1 where 1: "s3_head sample_s3 (s3_recorded steady_minio) ''user-ann'' (ob_key (im_archive sample_import)) ((), [])
      = (Inr \<lparr>so_key = ob_key (im_archive sample_import), so_etag = ''e'', so_size = 1, so_modified = no_time\<rparr>, ((), [q1]))"
    using head [OF keys(1), of "[]"] by auto
  obtain q2 where 2: "s3_head sample_s3 (s3_recorded steady_minio) ''user-ann'' (ob_key (im_manifest sample_import)) ((), [q1])
      = (Inr \<lparr>so_key = ob_key (im_manifest sample_import), so_etag = ''e'', so_size = 1, so_modified = no_time\<rparr>, ((), [q1, q2]))"
    using head [OF keys(2), of "[q1]"] by auto
  obtain q3 where 3: "s3_delete sample_s3 (s3_recorded steady_minio) ''user-ann'' (ob_key (im_archive sample_import)) ((), [q1, q2])
      = (None, ((), [q1, q2, q3]))" using del [OF keys(1), of "[q1, q2]"] by auto
  obtain q4 where 4: "s3_delete sample_s3 (s3_recorded steady_minio) ''user-ann'' (ob_key (im_manifest sample_import)) ((), [q1, q2, q3])
      = (None, ((), [q1, q2, q3, q4]))" using del [OF keys(2), of "[q1, q2, q3]"] by auto
  show ?thesis by (simp add: remove_objects_def check_removable_def 1 2 3 4 etags head_of_def)
qed

theorem removal_over_http_witness:
  "\<exists>h1 h2 d rest calls. remove_objects (pe_runes sample_publish_env) (minio_objects sample_s3 (s3_recorded steady_minio)) ''user-ann''
      sample_import ((), []) = (\<lparr>rm_removed = True, rm_reason = ''''\<rparr>, ((), calls)) \<and> calls = h1 # h2 # d # rest
    \<and> unchanged_head sample_s3 (s3_digests steady_minio) ''user-ann'' (im_manifest sample_import) h2 \<and> deleted (snd d)"
proof -
  obtain calls where r: "remove_objects (pe_runes sample_publish_env) (minio_objects sample_s3 (s3_recorded steady_minio)) ''user-ann''
      sample_import ((), []) = (\<lparr>rm_removed = True, rm_reason = ''''\<rparr>, ((), calls))" using steady_removal by blast
  show ?thesis using removal_over_http [OF r] r by auto
qed

theorem signature_binds_witness:
  "same_call (object_call ''GET'' ''user-ann'' ''packages/npm/a.tar.gz'' ''e'') (object_call ''GET'' ''user-ann'' ''packages/npm/a.tar.gz'' '' e'')"
proof -
  let ?r = "object_call ''GET'' ''user-ann'' ''packages/npm/a.tar.gz'' ''e''"
  let ?q = "object_call ''GET'' ''user-ann'' ''packages/npm/a.tar.gz'' '' e''"
  have p: "proper_call ?r" "proper_call ?q" by (simp_all add: proper_call_def object_call_def sample_bucket)
  have t: "trim_space ''e'' = ''e''" "trim_space '' e'' = ''e''" by code_simp+
  have eq: "canonical_text (call_input sample_s3 ?r sample_s3_stamp) = canonical_text (call_input sample_s3 ?q sample_s3_stamp)"
    by (simp add: canonical_text_def call_input_def call_canonical_headers signed_headers_def call_header_names match_line_def object_call_def
      call_path_def t)
  have "signature_of (s3_digests strict_minio) (call_input sample_s3 ?r sample_s3_stamp)
      = signature_of (s3_digests strict_minio) (call_input sample_s3 ?q sample_s3_stamp)"
    by (simp add: signature_of_def strict_minio_def)
  moreover have "text_to_sign (s3_digests strict_minio) (call_input sample_s3 ?r sample_s3_stamp)
      = text_to_sign (s3_digests strict_minio) (call_input sample_s3 ?q sample_s3_stamp)"
    using eq by (simp add: text_to_sign_def sign_scope_def) (simp add: call_input_def)
  then have "\<not> digests_collide (s3_digests strict_minio) (call_input sample_s3 ?r sample_s3_stamp) (call_input sample_s3 ?q sample_s3_stamp)"
    using eq by (simp add: digests_collide_def)
  ultimately show ?thesis using signature_binds [OF p] by blast
qed

end
