(* ===== verification/Spec2Isabelle.thy ===== *)
theory Spec2Isabelle
  imports Semver_Api Npm_Lockfile Npm_Registry Rank_Candidates Archive_Verify Service_Imports Token_Check Jobs_Service Export_Import Nexus_Client Minio_Client
begin

text \<open>
  A verification development for sealift, which finds safe versions of npm dependencies, packs
  their tarballs in an archive, and imports that archive across an air gap.

  \<^bold>\<open>The program and its parts.\<close> On the connected side a user drops a \<^verbatim>\<open>package.json\<close>. The job
  service (\<^verbatim>\<open>internal/jobs/service.go\<close>) keeps a queue of jobs (\<^verbatim>\<open>queue.go\<close>) over the folders of a data
  volume (\<^verbatim>\<open>internal/store\<close>). An analysis (\<^verbatim>\<open>analysis*.go\<close>) resolves and scans every newer version of
  each dependency, with the reading of manifests, lockfiles, ranges, packuments and tarballs of
  \<^verbatim>\<open>npm\<close> and the ranking of \<^verbatim>\<open>rank\<close>. An export (\<^verbatim>\<open>export.go\<close>) downloads the packages of a selection,
  rewrites them where Nexus needs it, and writes the archive (\<^verbatim>\<open>archive/archive.go\<close>), its manifest and
  the reports (\<^verbatim>\<open>internal/report\<close>). On the other side the importer (\<^verbatim>\<open>internal/importer\<close>) checks the
  manifest and the archive (\<^verbatim>\<open>archive/manifest.go\<close>, \<^verbatim>\<open>archive/verify.go\<close>), publishes each package to
  Nexus and reports. Its service runs imports from users' MinIO buckets, behind a check of tokens
  (\<^verbatim>\<open>token\<close>, \<^verbatim>\<open>service\<close>), with records and a queue of its own (\<^verbatim>\<open>internal/store/imports\<close>).

  \<^bold>\<open>Conventions.\<close> A Go string or byte slice is a list of bytes, a Go \<^verbatim>\<open>int\<close> an unbounded integer
  (the sizes the code checks stay far below its width), a struct a record, \<^verbatim>\<open>(value, error)\<close> a sum
  whose left side is the error, a Go map an association list in one of its iteration orders. What the
  code calls outside the repository or asks of the system is a parameter: the semver package, JSON, YAML, XML, gzip,
  tar, hashes, signatures, Unicode tables, clocks, and what the disk, the registry, Nexus, MinIO, pnpm
  and Trivy answer. Such parameters are fields of a record of surroundings (\<open>verify_env\<close>,
  \<open>export_env\<close>, \<open>publish_env\<close>, \<open>objects\<close>, \<dots>) or arguments, and a fault can be
  put at each of them. A lock that covers a whole handler makes it one step; where goroutines
  interleave (the downloads of an export, the queue, the service's indexes) the model is a step
  relation or a step function over schedules.

  \<^bold>\<open>Shared theories.\<close>
  \<^item> \<open>Sealift_Prelude\<close>: the functions of \<^verbatim>\<open>strings\<close>, \<^verbatim>\<open>cmp\<close> and \<^verbatim>\<open>slices\<close> the code calls, errors,
    maps, and the locale \<open>comparator\<close>: under the laws of a comparison function the sorted
    permutation is unique, so no result rests on Go's sorting algorithm. Every comparison of the
    code is an interpretation of it.
  \<^item> \<open>Go_Regexp\<close>: the code's regular expressions, kept as expressions with an executable matcher
    that is shown to decide their language. \<open>Go_Paths\<close>: \<^verbatim>\<open>filepath.Join\<close>, \<^verbatim>\<open>filepath.Clean\<close> and
    \<^verbatim>\<open>url.PathEscape\<close> as far as the code uses them, and when encoded names differ. \<open>Go_Text\<close>:
    valid UTF-8, the cleaning of a server's text, and when a replaced text is gone from the result.

  \<^bold>\<open>Packages and ranking.\<close>
  \<^item> \<open>Npm_Manifest\<close> (\<^verbatim>\<open>npm/manifest.go\<close>), \<open>Semver_Api\<close> (\<^verbatim>\<open>npm/semver.go\<close>; the locale \<open>semver_laws\<close>
    states what the semver package documents and \<open>semver_spec\<close> shows the laws can hold),
    \<open>Npm_Lockfile\<close> (\<^verbatim>\<open>npm/lockfile.go\<close>, \<^verbatim>\<open>npm/platform.go\<close>), \<open>Npm_Registry\<close> (\<^verbatim>\<open>npm/registry.go\<close>:
    retries, digests, a download that leaves no partial file), \<open>Npm_Tarball\<close> (\<^verbatim>\<open>npm/tarball.go\<close>:
    walking, rewriting and comparing tarballs).
  \<^item> \<open>Rank_Findings\<close> (\<^verbatim>\<open>rank/findings.go\<close>), \<open>Rank_Candidates\<close> (\<^verbatim>\<open>rank/candidates.go\<close>): vectors of
    severities, the best candidate as a minimum, the difference of two sets as a partition.

  \<^bold>\<open>The connected side.\<close>
  \<^item> \<open>Store_Settings\<close>, \<open>Store_Folders\<close> (\<^verbatim>\<open>internal/store\<close>): settings, projects and the folders of
    jobs; the relation \<open>volume_step\<close> has every operation with any faults, and its invariant is
    proved by rule induction.
  \<^item> \<open>Jobs_Queue\<close> (\<^verbatim>\<open>internal/jobs/queue.go\<close>): each critical section an operation, \<open>queue_step\<close>
    their interleavings, conservation and order of jobs, the replay for late subscribers.
  \<^item> \<open>Jobs_Candidates\<close>, \<open>Jobs_Analysis\<close>: an analysis, from its tasks to the ranking. The locale
    \<open>step_invariant\<close> carries a fact of the state through the nine steps. Outcomes are ranked by dependency
    name, as the code does, so that a name in two sections of a manifest is ranked once with both.
  \<^item> \<open>Export_Download\<close> (the packages of a selection), \<open>Export_Pool\<close> (the concurrent downloads over
    one cache: \<open>run_pool\<close> takes any schedule of workers; a worker takes at most nine steps, so
    \<open>to_the_end\<close> with nine turns for each worker reaches the end), \<open>Archive_Write\<close>,
    \<open>Report_Export\<close>, \<open>Jobs_Export\<close> (the rewriting of tarballs, the archive, the reports and
    \<^verbatim>\<open>Run\<close>), \<open>Export_Record\<close> (what a failed run records and leaves).
  \<^item> \<open>Jobs_Service\<close> (\<^verbatim>\<open>internal/jobs/service.go\<close>): \<open>service_step\<close> over queue, indexes and volume, in which the
    jobs' own writes, the delete requests of the API, a reservation before its submission and the three
    steps of finalize interleave freely; the invariant \<open>world_ok\<close> names the two ways a job is lost from
    its folder or its index (a delete request for its .tmp id, a second's id given out again while
    the finalizer of its first job is under way); and what a finished job shows to its user, with the end of
    runs whose last status cannot be written.

  \<^bold>\<open>The air gap.\<close> \<open>Export_Import\<close> puts both ends together: after an export without an error, the
  manifest it wrote passes the checks of the import exactly when the selection is not empty and its names and
  lengths are ones the importer's patterns take, and its archive is then verified.

  \<^bold>\<open>The importer.\<close>
  \<^item> \<open>Archive_Manifest\<close>, \<open>Archive_Verify\<close>: what is accepted, exactly, and what it then guarantees.
  \<^item> \<open>Importer_Report\<close>, \<open>Importer_Publish\<close>, \<open>Importer_Attempt\<close>: publishing as a refinement of the
    addition of missing versions to a map, and the truth of reports. A package file has a position, so an upload
    sends what a rewind left to read; its bytes are read once more after the hash.
  \<^item> \<open>Store_Imports\<close>, \<open>Imports_Queue\<close>: records and attempts (the locale \<open>record_change\<close> has the laws
    that each change of a record keeps; \<open>store_step\<close> takes the reports and removals a caller may finish
    an attempt with as an argument, any at all for the store's own invariant), and the end of every attempt (the locale
    \<open>attempt_store\<close> has what the queue needs of the store).
  \<^item> \<open>Importer_Settings\<close> (\<^verbatim>\<open>internal/importer/settings.go\<close>): what a settings file may hold, and that a refusal
    names no value. \<open>Nexus_Client\<close> (\<^verbatim>\<open>internal/nexus\<close>): the client as the publisher of the importer; the
    locale \<open>publisher_keeps\<close> carries a fact of the network through a publication, and brings the
    verdicts of a report down to the HTTP requests.
  \<^item> \<open>Minio_Client\<close> (\<^verbatim>\<open>internal/importer/s3\<close>): the client as the objects of the import service. What a
    signature binds, what an error hides as far as the markers it writes do not overlap a key, and a removal down to its requests.
  \<^item> \<open>Service_Archives\<close>, \<open>Service_Imports\<close>, \<open>Token_Check\<close>: keys, imports and their removal, tokens.

  The one property below spans the queue, the store, the attempt, Nexus and MinIO.

  \<^bold>\<open>Not modelled.\<close> \<^verbatim>\<open>sbom\<close> (encoding by the standard library), \<^verbatim>\<open>internal/runner\<close> and
  \<^verbatim>\<open>internal/tools\<close> (processes and installs), the routes of both
  services and the handlers of \<^verbatim>\<open>internal/api\<close> that convert between HTTP and the jobs, the code
  oapi-codegen generates, and the command lines, which wire the parts. Their answers are
  parameters of the parts above. Durations, logs and the encoding of JSON are left out everywhere.
\<close>

section \<open>Properties that span components\<close>

text \<open>C1. The archive a user sent is removed only after it did its work. Whatever MinIO, Nexus and the disk
  answer and whichever store operation fails, when the queue processed an item its latest attempt
  has ended; and when it called the remover, then on a state in which that attempt is stored as
  ended with its report, the report is complete, it names exactly the packages of the manifest that
  MinIO returned for the recorded object, in their order, and each of them is in Nexus, published
  by this attempt or found there with the shipped bytes.\<close>

theorem removal_after_publication:
  assumes "item_held user i st" and "sf_write (qf_abandon qf) = None"
    and "process (store_ops qf user i now) (attempt_run sv oj mkdir (publish_each env p) o1 s) closed st = (st', called)"
  shows "item_over user i st' \<and> (\<forall>t. called = Some t \<longrightarrow> (\<exists>n imp rep m. im_user imp = user \<and> im_id imp = i
    \<and> item_finished user i n rep t
    \<and> rp_outcome rep = outcome_complete \<and> (\<forall>r \<in> set (rp_packages rep). rs_state r = Published \<or> rs_state r = Present)
    \<and> manifest_read sv oj imp m
    \<and> map (\<lambda>r. (rs_name r, rs_version r, rs_file r)) (rp_packages rep) = map (\<lambda>q. (pk_name q, pk_version q, pk_file q)) (am_packages m)))"
proof -
  let ?run = "attempt_run sv oj mkdir (publish_each env p) o1 s"
  have good: "rr_end (?run imp) = Returned rep rm \<Longrightarrow> good_report rep" for imp rep rm
    using attempt_run_end [of sv oj mkdir env p o1 s imp rep rm] by (simp add: true_report_def)
  have over: "item_over user i st' \<and> (\<forall>t. called = Some t \<longrightarrow> (\<exists>n s0 imp rep rm. ao_get (store_ops qf user i now) s0 = Inr imp
      \<and> rr_end (?run imp) = Returned rep (Some rm) \<and> \<not> (closed \<and> rp_outcome rep = outcome_incomplete)
      \<and> item_finished user i n rep t))"
    by (rule attempt_store.process_over [OF store_attempts [OF assms(2)] assms(1) _ assms(3)]) (rule good)
  moreover have "\<exists>n imp rep m. im_user imp = user \<and> im_id imp = i \<and> item_finished user i n rep t
    \<and> rp_outcome rep = outcome_complete \<and> (\<forall>r \<in> set (rp_packages rep). rs_state r = Published \<or> rs_state r = Present)
    \<and> manifest_read sv oj imp m
    \<and> map (\<lambda>r. (rs_name r, rs_version r, rs_file r)) (rp_packages rep) = map (\<lambda>q. (pk_name q, pk_version q, pk_file q)) (am_packages m)"
    if c: "called = Some t" for t
  proof -
    obtain n st0 imp rep rm where g: "ao_get (store_ops qf user i now) st0 = Inr imp"
      and r: "rr_end (?run imp) = Returned rep (Some rm)" and f: "item_finished user i n rep t"
      using over c by blast
    have "im_user imp = user" "im_id imp = i"
      using g get_import_own [of st0 user i imp] by (simp_all add: store_ops_def)
    then show ?thesis
      using f attempt_run_end [OF r] by (auto simp: every_package_in_def names_of_manifest_def list_all_iff)
  qed
  ultimately show ?thesis by blast
qed

definition sample_service :: service where
  "sample_service = \<lparr>sv_links = [], sv_version = ''1'', sv_base = sample_attempt, sv_env = sample_attempt_env\<rparr>"

theorem removal_after_publication_witness:
  "item_over ''ann'' sample_id (fst (process (store_ops all_steady ''ann'' sample_id 5)
     (attempt_run sample_service calm_minio None (publish_each sample_publish_env (honest_nexus sample_publish_env)) () Map.empty)
     False sample_store))"
proof -
  have w: "sf_write (qf_abandon all_steady) = None" by (simp add: all_steady_def no_faults_def)
  obtain st' called where p: "process (store_ops all_steady ''ann'' sample_id 5)
      (attempt_run sample_service calm_minio None (publish_each sample_publish_env (honest_nexus sample_publish_env)) () Map.empty)
      False sample_store = (st', called)" by fastforce
  show ?thesis using removal_after_publication [OF sample_held w p] p by simp
qed

end
